(* ===== verification/Hub_Prelude.thy ===== *)
theory Hub_Prelude
  imports
    Complex_Main
    "HOL-Library.Char_ord"
    "HOL-Library.List_Lexorder"
    "HOL-Library.Product_Lexorder"
    "HOL-Library.Sublist"
begin

text \<open>
  Shared vocabulary of the development.

  \<^item> Python values as the sources receive them (\<open>pyval\<close>), with \<open>isinstance\<close> tests written as
    case distinctions; Python's arbitrary integers are \<open>int\<close>, a float is \<open>pyfloat\<close> (a finite
    value as an exact real, or one of the three non-finite values).
  \<^item> The string operations of the standard library that the modelled modules call.  A character
    stands for a code point below 256 (\<open>U+0000\<close> to \<open>U+00FF\<close>).
  \<^item> Two interfaces shared by the stores: a machine whose operations keep an invariant, and one
    whose counters never go backwards.
\<close>

section \<open>Python values\<close>

datatype pyfloat = Fin real | PInf | NInf | NaN

datatype pyval =
    PNone
  | PBool bool
  | PInt int
  | PFloat pyfloat
  | PStr string
  | PList "pyval list"
  | PDict "(string \<times> pyval) list"

type_synonym seconds = real

named_theorems hub_inv "preservation of component invariants"

text \<open>The truth value of a Python object, as \<open>if x\<close> reads it.\<close>

fun py_truthy :: "pyval \<Rightarrow> bool" where
  "py_truthy PNone = False"
| "py_truthy (PBool b) = b"
| "py_truthy (PInt i) = (i \<noteq> 0)"
| "py_truthy (PFloat (Fin r)) = (r \<noteq> 0)"
| "py_truthy (PFloat _) = True"
| "py_truthy (PStr s) = (s \<noteq> [])"
| "py_truthy (PList vs) = (vs \<noteq> [])"
| "py_truthy (PDict d) = (d \<noteq> [])"

text \<open>\<open>dict.get(key)\<close> on an association list, first binding wins (keys are distinct).\<close>

definition dict_get :: "(string \<times> pyval) list \<Rightarrow> string \<Rightarrow> pyval" where
  "dict_get d k = (case map_of d k of None \<Rightarrow> PNone | Some v \<Rightarrow> v)"

text \<open>\<open>v == 1\<close>, which \<open>True\<close> and \<open>1.0\<close> satisfy too.\<close>

definition equals_one :: "pyval \<Rightarrow> bool" where
  "equals_one v \<longleftrightarrow> v = PInt 1 \<or> v = PBool True \<or> v = PFloat (Fin 1)"

text \<open>\<open>dict.get(key, default)\<close>.\<close>

definition get_default :: "(string \<times> pyval) list \<Rightarrow> string \<Rightarrow> pyval \<Rightarrow> pyval" where
  "get_default d k dflt = (case map_of d k of None \<Rightarrow> dflt | Some v \<Rightarrow> v)"

text \<open>\<open>d[k] = v\<close> on an insertion-ordered dict.\<close>

fun dict_set :: "('k \<times> 'v) list \<Rightarrow> 'k \<Rightarrow> 'v \<Rightarrow> ('k \<times> 'v) list" where
  "dict_set [] k v = [(k, v)]"
| "dict_set ((k', v') # d) k v = (if k' = k then (k, v) # d else (k', v') # dict_set d k v)"

lemma map_of_dict_set [simp]: "map_of (dict_set d k v) = (map_of d)(k \<mapsto> v)"
  by (induction d k v rule: dict_set.induct) auto

lemma dict_set_keys [simp]: "fst ` set (dict_set d k v) = insert k (fst ` set d)"
  by (induction d k v rule: dict_set.induct) auto

lemma distinct_dict_set: "distinct (map fst d) \<Longrightarrow> distinct (map fst (dict_set d k v))"
  by (induction d k v rule: dict_set.induct) auto

lemma keys_dict_set: "fst ` set (dict_set d k v) = insert k (fst ` set d)"
  by (induction d k v rule: dict_set.induct) auto

lemma set_dict_set: "set (dict_set d k v) \<subseteq> insert (k, v) (set d)"
  by (induction d k v rule: dict_set.induct) auto

lemma dict_set_new: "k \<notin> fst ` set d \<Longrightarrow> dict_set d k v = d @ [(k, v)]"
  by (induction d) auto

lemma length_dict_set: "length (dict_set d k v) = (if k \<in> fst ` set d then length d else Suc (length d))"
  by (induction d k v rule: dict_set.induct) auto

section \<open>Exceptions\<close>

text \<open>
  A function that may raise returns \<open>'e + 'a\<close>, \<open>Inl\<close> the exception.  \<open>bindr\<close> runs the rest of the
  body when nothing was raised, \<open>require b e\<close> is \<open>if not b: raise e\<close>.
\<close>

definition bindr :: "'e + 'a \<Rightarrow> ('a \<Rightarrow> 'e + 'b) \<Rightarrow> 'e + 'b" where
  "bindr m f = (case m of Inl e \<Rightarrow> Inl e | Inr x \<Rightarrow> f x)"

definition require :: "bool \<Rightarrow> 'e \<Rightarrow> 'e + unit" where
  "require b e = (if b then Inr () else Inl e)"

lemma bindr_simps [simp]: "bindr (Inl e) f = Inl e" "bindr (Inr x) f = f x"
  by (simp_all add: bindr_def)

lemma bindr_Inr_iff [simp]: "bindr m f = Inr y \<longleftrightarrow> (\<exists>x. m = Inr x \<and> f x = Inr y)"
  by (cases m) auto

lemma bindr_Inl_iff: "bindr m f = Inl e \<longleftrightarrow> m = Inl e \<or> (\<exists>x. m = Inr x \<and> f x = Inl e)"
  by (cases m) auto

lemma bindr_cong [fundef_cong]:
  "m = m' \<Longrightarrow> (\<And>x. m' = Inr x \<Longrightarrow> f x = g x) \<Longrightarrow> bindr m f = bindr m' g"
  by (cases m') auto

lemma require_Inr_iff [simp]: "require b e = Inr u \<longleftrightarrow> b"
  by (simp add: require_def)

lemma require_Inl_iff [simp]: "require b e = Inl e' \<longleftrightarrow> \<not> b \<and> e' = e"
  by (auto simp: require_def)

lemma require_True [simp]: "require True e = Inr ()"
  by (simp add: require_def)

lemma require_False [simp]: "require False e = Inl e"
  by (simp add: require_def)

section \<open>Strings\<close>

abbreviation slash :: char where "slash \<equiv> CHR ''/''"
abbreviation bslash :: char where "bslash \<equiv> CHR 0x5C"
abbreviation nul :: char where "nul \<equiv> CHR 0x00"

definition is_space :: "char \<Rightarrow> bool" where
  "is_space c = (let n = of_char c :: nat in
     (9 \<le> n \<and> n \<le> 13) \<or> (28 \<le> n \<and> n \<le> 32) \<or> n = 133 \<or> n = 160)"

definition py_strip :: "string \<Rightarrow> string" where
  "py_strip s = rev (dropWhile is_space (rev (dropWhile is_space s)))"

definition strip_char :: "char \<Rightarrow> string \<Rightarrow> string" where
  "strip_char c s = rev (dropWhile (\<lambda>x. x = c) (rev (dropWhile (\<lambda>x. x = c) s)))"

definition lower_char :: "char \<Rightarrow> char" where
  "lower_char c = (let n = of_char c :: nat in
     if (65 \<le> n \<and> n \<le> 90) \<or> (192 \<le> n \<and> n \<le> 222 \<and> n \<noteq> 215) then char_of (n + 32) else c)"

definition py_lower :: "string \<Rightarrow> string" where
  "py_lower s = map lower_char s"

definition replace_char :: "char \<Rightarrow> char \<Rightarrow> string \<Rightarrow> string" where
  "replace_char a b s = map (\<lambda>c. if c = a then b else c) s"

text \<open>\<open>len(s.encode("utf-8"))\<close> for code points below 256.\<close>

definition utf8_len :: "string \<Rightarrow> nat" where
  "utf8_len s = sum_list (map (\<lambda>c. if (of_char c :: nat) < 128 then 1 else 2) s)"

fun split_on :: "char \<Rightarrow> string \<Rightarrow> string list" where
  "split_on c [] = [[]]"
| "split_on c (x # xs) =
     (if x = c then [] # split_on c xs
      else (case split_on c xs of [] \<Rightarrow> [[x]] | w # ws \<Rightarrow> (x # w) # ws))"

fun join_with :: "char \<Rightarrow> string list \<Rightarrow> string" where
  "join_with c [] = []"
| "join_with c [w] = w"
| "join_with c (w # v # ws) = w @ c # join_with c (v # ws)"

text \<open>\<open>sorted(set(xs))\<close> by code point.\<close>

definition sorted_set :: "string list \<Rightarrow> string list" where
  "sorted_set xs = sort (remdups xs)"

lemma py_strip_idem [simp]: "py_strip (py_strip s) = py_strip s"
proof -
  define t where "t = dropWhile is_space s"
  define u where "u = dropWhile is_space (rev t)"
  have u: "u = [] \<or> \<not> is_space (hd u)" unfolding u_def using hd_dropWhile by blast
  have split: "t = rev u @ rev (takeWhile is_space (rev t))"
    unfolding u_def by (metis rev_append rev_rev_ident takeWhile_dropWhile_id)
  have "dropWhile is_space (rev u) = rev u"
  proof (cases "u = []")
    case False
    then have "hd t = hd (rev u)" "t \<noteq> []" using split by (metis hd_append rev_is_Nil_conv append_is_Nil_conv)+
    then have "\<not> is_space (hd (rev u))" using hd_dropWhile [of is_space s] unfolding t_def by simp
    then show ?thesis using False by (cases "rev u") auto
  qed simp
  moreover have "dropWhile is_space u = u" using u by (cases u) auto
  ultimately show ?thesis by (simp add: py_strip_def t_def [symmetric] u_def [symmetric])
qed

lemma set_py_strip: "set (py_strip s) \<subseteq> set s"
proof
  fix x assume "x \<in> set (py_strip s)"
  then have "x \<in> set (dropWhile is_space (rev (dropWhile is_space s)))" unfolding py_strip_def by simp
  then have "x \<in> set (dropWhile is_space s)" by (metis set_dropWhileD set_rev)
  then show "x \<in> set s" by (rule set_dropWhileD)
qed

lemma set_sorted_set [simp]: "set (sorted_set xs) = set xs"
  by (simp add: sorted_set_def)

lemma distinct_sorted_set [simp]: "distinct (sorted_set xs)"
  by (simp add: sorted_set_def)

lemma split_on_nonempty [simp]: "split_on c s \<noteq> []"
  by (cases s) (auto split: list.splits)

lemma join_with_Cons: "ws \<noteq> [] \<Longrightarrow> join_with c (w # ws) = w @ c # join_with c ws"
  by (cases ws) auto

lemma join_split [simp]: "join_with c (split_on c s) = s"
proof (induction s)
  case Nil
  show ?case by simp
next
  case (Cons x xs)
  obtain w ws where sp: "split_on c xs = w # ws"
    by (cases "split_on c xs") auto
  with Cons have j: "join_with c (w # ws) = xs" by simp
  show ?case
  proof (cases "x = c")
    case True
    then show ?thesis using sp j by (simp add: join_with_Cons)
  next
    case False
    then show ?thesis using sp j by (cases ws) auto
  qed
qed

lemma split_on_free: "c \<notin> set w \<Longrightarrow> split_on c w = [w]"
  by (induction w) auto

lemma split_on_append: "c \<notin> set w \<Longrightarrow> split_on c (w @ c # s) = w # split_on c s"
  by (induction w) auto

lemma split_join:
  "ws \<noteq> [] \<Longrightarrow> \<forall>w \<in> set ws. c \<notin> set w \<Longrightarrow> split_on c (join_with c ws) = ws"
proof (induction ws)
  case Nil
  then show ?case by simp
next
  case (Cons w ws)
  then show ?case
    by (cases "ws = []") (auto simp: join_with_Cons split_on_free split_on_append)
qed

lemma split_on_parts_free: "w \<in> set (split_on c s) \<Longrightarrow> c \<notin> set w"
proof (induction s arbitrary: w)
  case Nil
  then show ?case by simp
next
  case (Cons x xs)
  then show ?case
    by (cases "split_on c xs") (auto split: if_splits)
qed

lemma py_lower_append [simp]: "py_lower (a @ b) = py_lower a @ py_lower b"
  by (simp add: py_lower_def)

lemma prefix_py_lower: "prefix a b \<Longrightarrow> prefix (py_lower a) (py_lower b)"
  by (auto simp: prefix_def)

section \<open>Tables\<close>

text \<open>
  An SQLite table is the list of its rows in insertion order: \<open>SELECT\<close> filters, \<open>fetchone\<close> takes
  the first match, \<open>UPDATE ... WHERE\<close> maps, \<open>DELETE ... WHERE\<close> filters.  A transaction that raises
  returns no new table, which is its \<open>ROLLBACK\<close>.
\<close>

definition update_where :: "('r \<Rightarrow> bool) \<Rightarrow> ('r \<Rightarrow> 'r) \<Rightarrow> 'r list \<Rightarrow> 'r list" where
  "update_where P f rows = map (\<lambda>r. if P r then f r else r) rows"

definition delete_where :: "('r \<Rightarrow> bool) \<Rightarrow> 'r list \<Rightarrow> 'r list" where
  "delete_where P rows = filter (\<lambda>r. \<not> P r) rows"

definition sql_max :: "int list \<Rightarrow> int option" where
  "sql_max xs = (if xs = [] then None else Some (foldr max (tl xs) (hd xs)))"

definition count_where :: "('r \<Rightarrow> bool) \<Rightarrow> 'r list \<Rightarrow> nat" where
  "count_where P rows = length (filter P rows)"

lemma in_update_whereE:
  assumes "r' \<in> set (update_where P f rows)"
  obtains r where "r \<in> set rows" "r' = (if P r then f r else r)"
  using assms by (auto simp: update_where_def)

lemma in_update_whereI: "r \<in> set rows \<Longrightarrow> (if P r then f r else r) \<in> set (update_where P f rows)"
  by (auto simp: update_where_def)

lemma set_delete_where [simp]: "set (delete_where P rows) = {r \<in> set rows. \<not> P r}"
  by (auto simp: delete_where_def)

lemma map_update_where: "(\<And>r. g (f r) = g r) \<Longrightarrow> map g (update_where P f rows) = map g rows"
  by (simp add: update_where_def)

lemma distinct_map_delete_where: "distinct (map g rows) \<Longrightarrow> distinct (map g (delete_where P rows))"
  by (simp add: delete_where_def distinct_map_filter)

lemma filter_key_fresh: "k \<notin> set (map f rows) \<Longrightarrow> filter (\<lambda>r. f r = k) rows = []"
  by (induction rows) auto

lemma filter_delete_where: "filter Q rows = [] \<Longrightarrow> filter Q (delete_where P rows) = []"
  by (auto simp: filter_empty_conv delete_where_def)

lemma foldr_max_ge: "(\<forall>y \<in> set ys. y \<le> foldr max ys x) \<and> x \<le> foldr max ys (x::int)"
  by (induction ys) auto

lemma sql_max_ge: "sql_max xs = Some m \<Longrightarrow> x \<in> set xs \<Longrightarrow> x \<le> m"
  using foldr_max_ge by (cases xs) (auto simp: sql_max_def)

lemma sql_max_None [simp]: "sql_max xs = None \<longleftrightarrow> xs = []"
  by (simp add: sql_max_def)

lemma distinct_map_inj: "distinct (map g xs) \<Longrightarrow> x \<in> set xs \<Longrightarrow> y \<in> set xs \<Longrightarrow> g x = g y \<Longrightarrow> x = y"
  by (auto simp: distinct_map dest: inj_onD)

lemma find_SomeD: "find P xs = Some x \<Longrightarrow> x \<in> set xs \<and> P x"
  by (auto simp: find_Some_iff)

lemma find_append_None: "find P xs = None \<Longrightarrow> find P (xs @ ys) = find P ys"
  by (induction xs) (auto split: if_splits)

lemma find_distinct_key:
  assumes "distinct (map key rows)" and "r \<in> set rows"
  shows "find (\<lambda>x. key x = key r) rows = Some r"
  using assms by (induction rows) (auto simp: image_iff)

text \<open>The state after an operation: one that raises leaves it unchanged.\<close>

definition committed :: "'s \<Rightarrow> 'e + 's \<times> 'a \<Rightarrow> 's" where
  "committed s res = (case res of Inl _ \<Rightarrow> s | Inr (s', _) \<Rightarrow> s')"

lemma committed_cases:
  "(\<And>s' x. res = Inr (s', x) \<Longrightarrow> P s') \<Longrightarrow> P s \<Longrightarrow> P (committed s res)"
  by (auto simp: committed_def split: sum.splits prod.splits)

section \<open>Project coordination ids\<close>

text \<open>
  The keyword \<open>coordination_id\<close>: left out (\<open>_COORDINATION_ID_UNSET\<close>) or a value, \<open>None\<close> included.
\<close>

datatype coord = Unset | Given pyval

section \<open>Two interfaces of the stores\<close>

text \<open>
  Every store of the program is a state with a set of operations run one after another
  (each holds the store's lock or an immediate SQLite transaction).  \<open>inv_machine\<close> is what a
  client of any store relies on: an invariant each operation keeps holds after any sequence of
  operations.  \<open>counter_machine\<close> adds a family of counters that no operation lowers.
\<close>

locale inv_machine =
  fixes exec :: "'s \<Rightarrow> 'op \<Rightarrow> 's"
    and inv :: "'s \<Rightarrow> bool"
  assumes inv_exec: "inv s \<Longrightarrow> inv (exec s oper)"
begin

lemma inv_run: "inv s \<Longrightarrow> inv (foldl exec s ops)"
  by (induction ops arbitrary: s) (auto intro: inv_exec)

lemma inv_run_prefix: "inv s \<Longrightarrow> inv (foldl exec (foldl exec s ops) ops')"
  by (intro inv_run)

end

locale counter_machine = inv_machine exec inv
  for exec :: "'s \<Rightarrow> 'op \<Rightarrow> 's" and inv :: "'s \<Rightarrow> bool" +
  fixes rank :: "'k \<Rightarrow> 's \<Rightarrow> int"
  assumes rank_exec: "inv s \<Longrightarrow> rank k s \<le> rank k (exec s oper)"
begin

lemma rank_run: "inv s \<Longrightarrow> rank k s \<le> rank k (foldl exec s ops)"
proof (induction ops arbitrary: s)
  case Nil
  show ?case by simp
next
  case (Cons x xs)
  have "rank k s \<le> rank k (exec s x)"
    using Cons.prems by (rule rank_exec)
  also have "\<dots> \<le> rank k (foldl exec (exec s x) xs)"
    using Cons.prems by (intro Cons.IH inv_exec)
  finally show ?case by simp
qed

end

end
