(* ===== verification/Path_Scopes.thy ===== *)
theory Path_Scopes
  imports Hub_Prelude
begin

text \<open>
  Path scopes: the path normalisation and overlap tests of \<open>leases.py\<close> (\<open>_norm_rel\<close>,
  \<open>_overlap\<close>) and of \<open>work_fencing.py\<close> (\<open>is_safe_lease_path\<close>, \<open>normalize_paths\<close>, \<open>_overlaps\<close>),
  on a POSIX host (\<open>os.name \<noteq> "nt"\<close>).  The lexical parts of \<open>pathlib.PureWindowsPath\<close> and
  \<open>posixpath.normpath\<close> are written out; \<open>Path.resolve\<close> reads the file system and is a
  parameter (\<open>path_env\<close>).
\<close>

section \<open>Standard library: lexical path functions\<close>

definition find_from :: "char \<Rightarrow> nat \<Rightarrow> string \<Rightarrow> nat option" where
  "find_from c k s =
     (let i = k + length (takeWhile (\<lambda>x. x \<noteq> c) (drop k s)) in if i < length s then Some i else None)"

text \<open>\<open>ntpath.splitroot\<close>: drive, root, rest.\<close>

definition win_splitroot :: "string \<Rightarrow> string \<times> string \<times> string" where
  "win_splitroot p =
     (let n = replace_char slash bslash p in
      if take 1 n = [bslash] then
        if take 1 (drop 1 n) = [bslash] then
          (let start = (if py_lower (take 8 n) = [bslash, bslash, CHR ''?'', bslash, CHR ''u'', CHR ''n'', CHR ''c'', bslash]
                        then 8 else 2) in
           case find_from bslash start n of
             None \<Rightarrow> (p, [], [])
           | Some i \<Rightarrow>
               (case find_from bslash (Suc i) n of
                  None \<Rightarrow> (p, [], [])
                | Some j \<Rightarrow> (take j p, take 1 (drop j p), drop (Suc j) p)))
        else ([], take 1 p, drop 1 p)
      else if take 1 (drop 1 n) = '':'' then
        if take 1 (drop 2 n) = [bslash] then (take 2 p, take 1 (drop 2 p), drop 3 p)
        else (take 2 p, [], drop 2 p)
      else ([], [], p))"

text \<open>\<open>PureWindowsPath\<close>: drive, root and the parts after them (\<open>_parse_path\<close>).\<close>

definition win_parse :: "string \<Rightarrow> string \<times> string \<times> string list" where
  "win_parse path =
     (if path = [] then ([], [], [])
      else
        (let p = replace_char slash bslash path;
             (drv, rt, rel) = win_splitroot p;
             parts = split_on bslash drv;
             rt' = (if rt = [] \<and> take 1 drv = [bslash] \<and> last drv \<noteq> bslash then
                      if length parts = 4 \<and> parts ! 2 \<notin> set [[], ''?'', ''.'', ''?.''] then [bslash]
                      else if length parts = 6 then [bslash] else rt
                    else rt)
         in (drv, rt', filter (\<lambda>x. x \<noteq> [] \<and> x \<noteq> ''.'') (split_on bslash rel))))"

definition win_drive :: "string \<Rightarrow> string" where
  "win_drive p = fst (win_parse p)"

definition win_root :: "string \<Rightarrow> string" where
  "win_root p = fst (snd (win_parse p))"

definition win_is_absolute :: "string \<Rightarrow> bool" where
  "win_is_absolute p \<longleftrightarrow> win_drive p \<noteq> [] \<and> win_root p \<noteq> []"

text \<open>\<open>str(PureWindowsPath(p).relative_to(root))\<close>; \<open>None\<close> is \<open>ValueError\<close>.\<close>

definition win_relative_to :: "string \<Rightarrow> string \<Rightarrow> string option" where
  "win_relative_to p base =
     (let (pd, pr, pt) = win_parse p; (rd, rr, rt) = win_parse base in
      if py_lower pd = py_lower rd \<and> pr = rr \<and> prefix (map py_lower rt) (map py_lower pt)
      then Some (let rest = drop (length rt) pt in if rest = [] then ''.'' else join_with bslash rest)
      else None)"

text \<open>\<open>posixpath.normpath\<close> on a path without a leading slash: the loop over the components.\<close>

fun norm_comps :: "string list \<Rightarrow> string list \<Rightarrow> string list" where
  "norm_comps acc [] = acc"
| "norm_comps acc (c # cs) =
     (if c = [] \<or> c = ''.'' then norm_comps acc cs
      else if c \<noteq> ''..'' \<or> acc = [] \<or> last acc = ''..'' then norm_comps (acc @ [c]) cs
      else norm_comps (butlast acc) cs)"

definition normpath_rel :: "string \<Rightarrow> string" where
  "normpath_rel p =
     (let cs = norm_comps [] (split_on slash p) in if cs = [] then ''.'' else join_with slash cs)"

section \<open>\<open>leases._norm_rel\<close>\<close>

text \<open>
  What the file system contributes: \<open>pe_relative raw root\<close> is
  \<open>str(Path(raw).resolve().relative_to(Path(root).resolve()))\<close>, \<open>pe_confine root norm\<close> is
  \<open>(resolved_root / norm).resolve().relative_to(resolved_root).as_posix() or "."\<close>; \<open>None\<close> where
  these raise \<open>OSError\<close>, \<open>RuntimeError\<close> or \<open>ValueError\<close>.
\<close>

record path_env =
  pe_relative :: "string \<Rightarrow> string \<Rightarrow> string option"
  pe_confine :: "string \<Rightarrow> string \<Rightarrow> string option"

definition lease_relative :: "path_env \<Rightarrow> string \<Rightarrow> string \<Rightarrow> string option" where
  "lease_relative env raw base =
     (if win_drive raw \<noteq> [] \<or> take 1 raw = [bslash] then
        if \<not> win_is_absolute raw \<or> \<not> win_is_absolute base then None
        else win_relative_to raw base
      else if take 1 raw = [slash] then
        if base = [] \<or> win_drive base \<noteq> [] \<or> take 1 base = [bslash] then None
        else pe_relative env raw base
      else Some raw)"

definition lease_confine :: "path_env \<Rightarrow> string \<Rightarrow> string \<Rightarrow> string option" where
  "lease_confine env base raw =
     (let np = normpath_rel (strip_char slash (replace_char bslash slash raw)) in
      if np = ''.'' then Some ''.''
      else if take 2 np = ''..'' \<or> take 1 np = ''/'' then None
      else if take 1 base = [slash] \<and> \<not> win_is_absolute base then pe_confine env base np
      else Some np)"

definition norm_rel :: "path_env \<Rightarrow> string \<Rightarrow> string \<Rightarrow> string option" where
  "norm_rel env val base =
     (let raw = py_strip val in
      if raw = [] \<or> nul \<in> set raw then None
      else (case lease_relative env raw base of None \<Rightarrow> None | Some raw' \<Rightarrow> lease_confine env base raw'))"

text \<open>With the default \<open>root = ""\<close> no file system access happens.\<close>

definition lexical_env :: path_env where
  "lexical_env = \<lparr>pe_relative = (\<lambda>_ _. None), pe_confine = (\<lambda>_ _. None)\<rparr>"

lemma norm_rel_rootless: "norm_rel env v [] = norm_rel lexical_env v []"
  by (simp add: norm_rel_def lease_relative_def lease_confine_def Let_def cong: if_cong option.case_cong)

section \<open>\<open>leases._overlap\<close>\<close>

text \<open>The comparison of two normalised scopes: equal, or one under the other.\<close>

definition scope_nested :: "string \<Rightarrow> string \<Rightarrow> bool" where
  "scope_nested a b \<longleftrightarrow> a = b \<or> prefix (b @ [slash]) a \<or> prefix (a @ [slash]) b"

definition overlap :: "bool \<Rightarrow> string \<Rightarrow> string \<Rightarrow> bool" where
  "overlap case_insensitive a b =
     (case (norm_rel lexical_env a [], norm_rel lexical_env b []) of
        (Some na, Some nb) \<Rightarrow>
          na = ''.'' \<or> nb = ''.'' \<or>
          (if case_insensitive then scope_nested (py_lower na) (py_lower nb) else scope_nested na nb)
      | _ \<Rightarrow> True)"

section \<open>\<open>work_fencing\<close>: exact paths\<close>

definition is_safe_lease_path :: "pyval \<Rightarrow> bool" where
  "is_safe_lease_path path =
     (case path of
        PStr s \<Rightarrow>
          (let raw = replace_char bslash slash s in
           raw \<noteq> [] \<and> nul \<notin> set raw \<and>
           win_drive raw = [] \<and> win_root raw = [] \<and> take 1 raw \<noteq> [slash] \<and>
           list_all (\<lambda>p. p \<noteq> [] \<and> p \<noteq> ''.'' \<and> p \<noteq> ''..'') (split_on slash raw))
      | _ \<Rightarrow> False)"

text \<open>
  \<open>normalize_paths(paths)\<close> without a root, as the store calls it: every path safe, or
  \<open>ValueError\<close> (\<open>None\<close>); the result is the sorted set of the paths with forward slashes.
\<close>

definition lease_identity :: "pyval \<Rightarrow> string" where
  "lease_identity v =
     (case v of PStr s \<Rightarrow> join_with slash (split_on slash (replace_char bslash slash s)) | _ \<Rightarrow> [])"

definition normalize_paths :: "pyval \<Rightarrow> string list option" where
  "normalize_paths paths =
     (case paths of
        PList vs \<Rightarrow>
          if vs = [] \<or> \<not> list_all is_safe_lease_path vs then None
          else Some (sorted_set (map lease_identity vs))
      | _ \<Rightarrow> None)"

text \<open>\<open>_overlaps\<close>; on a POSIX host \<open>os.path.normcase\<close> is the identity.\<close>

definition path_key :: "string \<Rightarrow> string" where
  "path_key p = replace_char bslash slash p"

definition overlaps :: "string list \<Rightarrow> string list \<Rightarrow> bool" where
  "overlaps left right \<longleftrightarrow>
     list_ex (\<lambda>a. list_ex (\<lambda>b. scope_nested a b) (map path_key right)) (map path_key left)"

definition are_paths_disjoint :: "string list \<Rightarrow> string list \<Rightarrow> bool" where
  "are_paths_disjoint left right \<longleftrightarrow> \<not> overlaps left right"

section \<open>What overlapping means\<close>

text \<open>
  A scope is the subtree of its components: \<open>scope_nested\<close>, written with string prefixes in the
  code, says that the component list of one path is a prefix of the other's.
\<close>

abbreviation comps :: "string \<Rightarrow> string list" where
  "comps p \<equiv> split_on slash p"

lemma split_on_append_sep: "split_on c (a @ c # b) = split_on c a @ split_on c b"
proof (induction a)
  case Nil
  show ?case by simp
next
  case (Cons x xs)
  then show ?case by (cases "split_on c xs") auto
qed

lemma join_with_append:
  "xs \<noteq> [] \<Longrightarrow> ys \<noteq> [] \<Longrightarrow> join_with c (xs @ ys) = join_with c xs @ c # join_with c ys"
proof (induction xs)
  case Nil
  then show ?case by simp
next
  case (Cons x xs)
  then show ?case by (cases "xs = []") (auto simp: join_with_Cons)
qed

lemma under_iff_comps:
  "(a = b \<or> prefix (b @ [slash]) a) \<longleftrightarrow> prefix (comps b) (comps a)" (is "?L \<longleftrightarrow> ?R")
proof
  assume ?L
  then show ?R by (auto simp: prefix_def split_on_append_sep)
next
  assume ?R
  then obtain ys where ys: "comps a = comps b @ ys" by (auto simp: prefix_def)
  have a: "a = join_with slash (comps b @ ys)" by (metis join_split ys)
  show ?L
  proof (cases "ys = []")
    case True
    then show ?thesis using a by simp
  next
    case False
    then have "a = b @ slash # join_with slash ys"
      using a by (simp add: join_with_append)
    then show ?thesis by (simp add: prefix_def)
  qed
qed

lemma scope_nested_comps:
  "scope_nested a b \<longleftrightarrow> prefix (comps a) (comps b) \<or> prefix (comps b) (comps a)"
  unfolding scope_nested_def using under_iff_comps [of a b] under_iff_comps [of b a] by blast

lemma scope_nested_refl [simp]: "scope_nested a a"
  by (simp add: scope_nested_def)

lemma scope_nested_sym: "scope_nested a b \<Longrightarrow> scope_nested b a"
  by (auto simp: scope_nested_def)

lemma scope_nested_lower: "scope_nested a b \<Longrightarrow> scope_nested (py_lower a) (py_lower b)"
proof -
  have sl: "py_lower [slash] = [slash]" by (simp add: py_lower_def lower_char_def)
  assume "scope_nested a b"
  then consider "a = b" | "prefix (b @ [slash]) a" | "prefix (a @ [slash]) b"
    by (auto simp: scope_nested_def)
  then show ?thesis
    by cases (auto simp: scope_nested_def sl dest: prefix_py_lower)
qed

lemma scope_nested_common:
  assumes "prefix (comps a) f" and "prefix (comps b) f"
  shows "scope_nested a b"
  using assms prefix_same_cases scope_nested_comps by blast

lemma overlap_refl: "overlap ci a a"
  by (auto simp: overlap_def split: option.splits)

lemma overlap_sym: "overlap ci a b \<Longrightarrow> overlap ci b a"
  by (auto simp: overlap_def dest: scope_nested_sym split: option.splits if_splits)

lemma overlap_case_mono: "overlap False a b \<Longrightarrow> overlap ci a b"
  by (auto simp: overlap_def dest: scope_nested_lower split: option.splits)

section \<open>Normalised lease paths stay inside the root\<close>

text \<open>
  \<open>norm_comps\<close> keeps its accumulator a run of \<open>..\<close> followed by real names.
\<close>

definition real_name :: "string \<Rightarrow> bool" where
  "real_name c \<longleftrightarrow> c \<noteq> [] \<and> c \<noteq> ''.'' \<and> c \<noteq> ''..'' \<and> slash \<notin> set c"

definition dots_then_names :: "string list \<Rightarrow> bool" where
  "dots_then_names cs \<longleftrightarrow>
     (\<exists>n ns. cs = replicate n ''..'' @ ns \<and> (\<forall>c \<in> set ns. real_name c))"

lemma dots_then_names_snoc:
  assumes "dots_then_names acc" and "c \<noteq> []" "c \<noteq> ''.''" "slash \<notin> set c"
    and "c \<noteq> ''..'' \<or> acc = [] \<or> last acc = ''..''"
  shows "dots_then_names (acc @ [c])"
proof -
  obtain n ns where acc: "acc = replicate n ''..'' @ ns" and ns: "\<forall>c \<in> set ns. real_name c"
    using assms(1) by (auto simp: dots_then_names_def)
  show ?thesis
  proof (cases "c = ''..''")
    case True
    have "ns = []"
    proof (rule ccontr)
      assume "ns \<noteq> []"
      then have "last acc \<in> set ns" using acc by simp
      then show False using ns assms(5) True acc \<open>ns \<noteq> []\<close> by (auto simp: real_name_def)
    qed
    then have "acc @ [c] = replicate (Suc n) ''..'' @ []"
      using acc True by (simp add: replicate_append_same)
    then show ?thesis unfolding dots_then_names_def by (metis empty_iff list.set(1))
  next
    case False
    then have "real_name c" using assms by (simp add: real_name_def)
    then have "acc @ [c] = replicate n ''..'' @ (ns @ [c]) \<and> (\<forall>x \<in> set (ns @ [c]). real_name x)"
      using acc ns by auto
    then show ?thesis unfolding dots_then_names_def by blast
  qed
qed

lemma dots_then_names_butlast:
  assumes "dots_then_names acc" shows "dots_then_names (butlast acc)"
proof -
  obtain n ns where acc: "acc = replicate n ''..'' @ ns" and ns: "\<forall>c \<in> set ns. real_name c"
    using assms by (auto simp: dots_then_names_def)
  show ?thesis
  proof (cases "ns = []")
    case True
    then have "butlast acc = replicate (n - 1) ''..'' @ []"
      using acc by (cases n) (simp_all add: replicate_append_same [symmetric])
    then show ?thesis unfolding dots_then_names_def by (metis empty_iff list.set(1))
  next
    case False
    then have "butlast acc = replicate n ''..'' @ butlast ns"
      using acc by (simp add: butlast_append)
    then show ?thesis unfolding dots_then_names_def using ns in_set_butlastD by metis
  qed
qed

lemma norm_comps_shape:
  "dots_then_names acc \<Longrightarrow> \<forall>c \<in> set cs. slash \<notin> set c \<Longrightarrow> dots_then_names (norm_comps acc cs)"
proof (induction acc cs rule: norm_comps.induct)
  case (1 acc)
  then show ?case by simp
next
  case (2 acc c cs)
  then show ?case
    by (auto intro: dots_then_names_snoc dots_then_names_butlast)
qed

lemma normpath_rel_names:
  assumes "take 2 (normpath_rel p) \<noteq> ''..''" and "normpath_rel p \<noteq> ''.''"
  shows "\<forall>c \<in> set (comps (normpath_rel p)). real_name c"
proof -
  define cs where "cs = norm_comps [] (comps p)"
  have "dots_then_names cs"
    unfolding cs_def by (rule norm_comps_shape) (auto simp: dots_then_names_def dest: split_on_parts_free)
  then obtain n ns where cs: "cs = replicate n ''..'' @ ns" and ns: "\<forall>c \<in> set ns. real_name c"
    by (auto simp: dots_then_names_def)
  have ne: "cs \<noteq> []" using assms(2) by (auto simp: normpath_rel_def cs_def Let_def)
  have np: "normpath_rel p = join_with slash cs" using ne by (simp add: normpath_rel_def cs_def Let_def)
  have "n = 0"
  proof (rule ccontr)
    assume "n \<noteq> 0"
    then obtain rest where "cs = ''..'' # rest" using cs by (cases n) auto
    then have "take 2 (join_with slash cs) = ''..''" by (cases rest) auto
    then show False using np assms(1) by simp
  qed
  then have all: "\<forall>c \<in> set cs. real_name c" using cs ns by simp
  then have "comps (normpath_rel p) = cs"
    unfolding np using ne by (intro split_join) (auto simp: real_name_def)
  then show ?thesis using all by simp
qed

lemma lease_confine_names:
  assumes "lease_confine env base raw = Some np"
    and "take 1 base \<noteq> [slash] \<or> win_is_absolute base"
  shows "np = ''.'' \<or> (\<forall>c \<in> set (comps np). real_name c)"
  using assms by (auto simp: lease_confine_def Let_def dest!: normpath_rel_names split: if_splits)

lemma norm_rel_names:
  assumes "norm_rel env v base = Some np"
    and "take 1 base \<noteq> [slash] \<or> win_is_absolute base"
  shows "np = ''.'' \<or> (\<forall>c \<in> set (comps np). real_name c)"
  using assms by (auto simp: norm_rel_def Let_def dest: lease_confine_names split: if_splits option.splits)

section \<open>Exact paths of the writer fence\<close>

lemma path_key_idem [simp]: "path_key (path_key p) = path_key p"
  by (simp add: path_key_def replace_char_def)

lemma lease_identity_PStr [simp]: "lease_identity (PStr s) = path_key s"
  by (simp add: lease_identity_def path_key_def)

lemma normalize_paths_Some:
  assumes "normalize_paths v = Some ps"
  obtains vs where "v = PList vs" "vs \<noteq> []" "\<forall>x \<in> set vs. is_safe_lease_path x"
    "ps = sorted_set (map lease_identity vs)"
  using assms by (cases v) (auto simp: normalize_paths_def list_all_iff split: if_splits)

lemma normalize_paths_elem:
  assumes "normalize_paths v = Some ps" and "p \<in> set ps"
  shows "path_key p = p" and "is_safe_lease_path (PStr p)"
proof -
  from assms(1) obtain vs where vs: "\<forall>x \<in> set vs. is_safe_lease_path x"
    and ps: "ps = sorted_set (map lease_identity vs)"
    by (rule normalize_paths_Some)
  from assms(2) ps obtain x where "x \<in> set vs" and x: "p = lease_identity x"
    by auto
  with vs obtain s where s: "x = PStr s" "is_safe_lease_path (PStr s)"
    by (cases x) (auto simp: is_safe_lease_path_def)
  then have p: "p = path_key s" using x by simp
  show "path_key p = p" by (simp add: p)
  have idem: "replace_char bslash slash (path_key s) = replace_char bslash slash s"
    by (simp add: path_key_def replace_char_def)
  show "is_safe_lease_path (PStr p)"
    using s(2) by (simp add: p is_safe_lease_path_def idem Let_def)
qed

lemma normalize_paths_nonempty: "normalize_paths v = Some ps \<Longrightarrow> ps \<noteq> []"
  by (metis length_0_conv length_map list.set(1) normalize_paths_Some set_empty set_sorted_set)

lemma sorted_set_fixed: "sorted xs \<Longrightarrow> distinct xs \<Longrightarrow> sorted_set xs = xs"
  by (simp add: sorted_set_def distinct_remdups_id sorted_sort_id)

lemma normalize_paths_fixed:
  assumes "normalize_paths v = Some ps"
  shows "normalize_paths (PList (map PStr ps)) = Some ps"
proof -
  from assms have so: "sorted ps" "distinct ps"
    by (auto elim!: normalize_paths_Some simp: sorted_set_def)
  have key: "map path_key ps = ps"
    using normalize_paths_elem(1) [OF assms] by (simp add: map_idI)
  have "list_all is_safe_lease_path (map PStr ps)"
    using normalize_paths_elem(2) [OF assms] by (simp add: list_all_iff)
  moreover have "map lease_identity (map PStr ps) = ps"
    using key by (simp add: comp_def)
  ultimately show ?thesis
    using normalize_paths_nonempty [OF assms] so
    by (simp add: normalize_paths_def sorted_set_fixed)
qed

lemma overlaps_iff:
  "overlaps xs ys \<longleftrightarrow> (\<exists>a \<in> set xs. \<exists>b \<in> set ys. scope_nested (path_key a) (path_key b))"
  by (auto simp: overlaps_def list_ex_iff)

lemma overlaps_sym: "overlaps xs ys \<Longrightarrow> overlaps ys xs"
  by (auto simp: overlaps_iff dest: scope_nested_sym)

lemma overlaps_common_write:
  assumes "a \<in> set xs" "b \<in> set ys"
    and "w = path_key a \<or> prefix (path_key a @ [slash]) w"
    and "w = path_key b \<or> prefix (path_key b @ [slash]) w"
  shows "overlaps xs ys"
proof -
  have "prefix (comps (path_key a)) (comps w)" "prefix (comps (path_key b)) (comps w)"
    using assms(3,4) under_iff_comps by auto
  then show ?thesis
    using assms(1,2) scope_nested_common overlaps_iff by blast
qed

section \<open>The table interface of the two lease stores\<close>

text \<open>
  Both lease stores keep a table in which no two rows may clash (overlap, in the same
  namespace, held by different writers).  What their operations rely on: \<open>clash\<close> is symmetric;
  dropping rows, changing columns \<open>clash\<close> does not read, or adding rows that were checked
  against the whole table keeps the table clash-free.
\<close>

definition clash_free :: "('r \<Rightarrow> 'r \<Rightarrow> bool) \<Rightarrow> 'r list \<Rightarrow> bool" where
  "clash_free clash rows \<longleftrightarrow> (\<forall>r \<in> set rows. \<forall>s \<in> set rows. \<not> clash r s)"

locale exclusive_table =
  fixes clash :: "'r \<Rightarrow> 'r \<Rightarrow> bool"
  assumes clash_sym: "clash r s \<Longrightarrow> clash s r"
begin

lemma clash_free_empty: "clash_free clash []"
  by (simp add: clash_free_def)

lemma clash_free_subset: "clash_free clash rows \<Longrightarrow> set rows' \<subseteq> set rows \<Longrightarrow> clash_free clash rows'"
  by (auto simp: clash_free_def)

lemma clash_free_delete: "clash_free clash rows \<Longrightarrow> clash_free clash (delete_where P rows)"
  by (auto simp: clash_free_def)

lemma clash_free_map:
  assumes "clash_free clash rows" and "\<And>r s. clash (f r) (f s) \<Longrightarrow> clash r s"
  shows "clash_free clash (map f rows)"
  using assms by (auto simp: clash_free_def)

lemma clash_free_append:
  assumes "clash_free clash rows" "clash_free clash fresh"
    and "\<And>r s. r \<in> set fresh \<Longrightarrow> s \<in> set rows \<Longrightarrow> \<not> clash r s"
  shows "clash_free clash (rows @ fresh)"
  unfolding clash_free_def set_append using assms clash_sym
  by (metis UnE clash_free_def)

lemma clash_freeD: "clash_free clash rows \<Longrightarrow> r \<in> set rows \<Longrightarrow> s \<in> set rows \<Longrightarrow> \<not> clash r s"
  by (simp add: clash_free_def)

end

end
