(* ===== verification/Writer_Fencing.thy ===== *)
theory Writer_Fencing
  imports Path_Scopes
begin

text \<open>
  The fencing lease store of \<open>work_fencing.py\<close> (\<open>FencingLeaseStore\<close>).  One SQLite database holds
  the counters, the path leases and the work attempts; every operation is one
  \<open>BEGIN IMMEDIATE\<close> transaction, so a state is a database between two operations and an operation
  that raises leaves it as it was.  Clock readings and \<open>uuid4().hex\<close> are arguments.  The file
  system (\<open>Path.expanduser().resolve()\<close>) and \<open>float(str)\<close> are the parameters \<open>fence_env\<close>.
\<close>

section \<open>Data\<close>

datatype fence_error =
    ValueErr string
  | OverflowErr
  | ResolveErr
  | IntegrityErr
  | LeaseLost string
  | LeaseUnavailable string
  | LeaseScope string

record attempt_fence =
  wa_resource :: string
  wa_work :: string
  wa_id :: string
  wa_owner :: string
  wa_token :: int
  wa_expires :: seconds
  wa_scope :: string

record fencing_lease =
  ls_resource :: string
  ls_id :: string
  ls_owner :: string
  ls_token :: int
  ls_expires :: seconds
  ls_paths :: "string list"
  ls_attempt :: string
  ls_attempt_token :: int
  ls_scope :: string

text \<open>
  The rows of \<open>writer_fence_attempts\<close> and \<open>writer_fence_leases\<close>.  \<open>fl_paths_json\<close> is what
  \<open>json.loads\<close> reads from the column, \<open>None\<close> when it raises.
\<close>

record attempt_row =
  at_id :: string
  at_resource :: string
  at_scope :: string
  at_work :: string
  at_owner :: string
  at_token :: int
  at_expires :: seconds
  at_active :: bool

record lease_row =
  fl_id :: string
  fl_resource :: string
  fl_owner :: string
  fl_token :: int
  fl_expires :: seconds
  fl_paths_json :: "pyval option"
  fl_attempt :: string
  fl_attempt_token :: int
  fl_scope :: string
  fl_active :: bool
  fl_work :: string

record fence_db =
  fd_counters :: "string \<rightharpoonup> int"
  fd_leases :: "lease_row list"
  fd_attempts :: "attempt_row list"

record fence_env =
  fe_resolve :: "string \<Rightarrow> string option"
  fe_float :: "string \<Rightarrow> pyfloat option"

definition empty_fence_db :: fence_db where
  "empty_fence_db = \<lparr>fd_counters = Map.empty, fd_leases = [], fd_attempts = []\<rparr>"

section \<open>Arguments\<close>

definition canonical_resource :: "fence_env \<Rightarrow> pyval \<Rightarrow> fence_error + string" where
  "canonical_resource env resource =
     (case resource of
        PStr s \<Rightarrow>
          (let v = py_strip s in
           if v = [] \<or> nul \<in> set v then Inl (ValueErr ''resource must be a non-empty filesystem root'')
           else (case fe_resolve env v of None \<Rightarrow> Inl ResolveErr | Some p \<Rightarrow> Inr p))
      | _ \<Rightarrow> Inl (ValueErr ''resource must be a non-empty filesystem root''))"

definition coordination_scope :: "fence_env \<Rightarrow> pyval \<Rightarrow> coord \<Rightarrow> fence_error + string \<times> string" where
  "coordination_scope env resource cid =
     (case cid of
        Given PNone \<Rightarrow> Inl (ValueErr ''project coordination id is required'')
      | Unset \<Rightarrow> bindr (canonical_resource env resource) (\<lambda>physical. Inr (physical, physical))
      | Given (PStr s) \<Rightarrow>
          (let namespace = py_strip s in
           if namespace = [] \<or> nul \<in> set namespace \<or> 512 < length namespace
           then Inl (ValueErr ''invalid project coordination id'')
           else bindr (canonical_resource env resource)
                  (\<lambda>physical. Inr (physical, ''project:'' @ namespace)))
      | Given _ \<Rightarrow> Inl (ValueErr ''invalid project coordination id''))"

definition max_ttl_seconds :: int where
  "max_ttl_seconds = 24 * 60 * 60"

text \<open>\<open>float(x)\<close>: an integer that rounds to \<open>2 ^ 1024\<close> or beyond raises \<open>OverflowError\<close>.\<close>

definition py_float :: "fence_env \<Rightarrow> pyval \<Rightarrow> fence_error + pyfloat" where
  "py_float env v =
     (case v of
        PInt i \<Rightarrow> if 2 ^ 1024 - 2 ^ 970 \<le> \<bar>i\<bar> then Inl OverflowErr else Inr (Fin (of_int i))
      | PFloat f \<Rightarrow> Inr f
      | PStr s \<Rightarrow> (case fe_float env s of None \<Rightarrow> Inl (ValueErr ''ttl_seconds'') | Some f \<Rightarrow> Inr f)
      | PBool b \<Rightarrow> Inr (Fin (if b then 1 else 0))
      | _ \<Rightarrow> Inl (ValueErr ''ttl_seconds''))"

definition fence_ttl :: "fence_env \<Rightarrow> pyval \<Rightarrow> fence_error + seconds" where
  "fence_ttl env v =
     (case v of
        PBool _ \<Rightarrow> Inl (ValueErr ''ttl_seconds'')
      | _ \<Rightarrow> bindr (py_float env v)
               (\<lambda>f. case f of
                      Fin ttl \<Rightarrow> if ttl \<le> 0 \<or> of_int max_ttl_seconds < ttl then Inl (ValueErr ''ttl_seconds'')
                                 else Inr ttl
                    | _ \<Rightarrow> Inl (ValueErr ''ttl_seconds'')))"

definition attempt_counter_key :: "string \<Rightarrow> string \<Rightarrow> string" where
  "attempt_counter_key resource work = resource @ CHR 0x0A # ''work-order:'' @ work"

text \<open>\<open>WHERE (scope_id=? OR (resource=? AND scope_id=resource))\<close>\<close>

definition in_fence_scope :: "string \<Rightarrow> string \<Rightarrow> string \<Rightarrow> string \<Rightarrow> bool" where
  "in_fence_scope scope_id root_id row_scope row_resource \<longleftrightarrow>
     row_scope = scope_id \<or> (row_resource = root_id \<and> row_scope = row_resource)"

text \<open>\<open>attempt.scope_id or attempt.resource\<close>\<close>

definition or_else :: "string \<Rightarrow> string \<Rightarrow> string" where
  "or_else a b = (if a \<noteq> [] then a else b)"

section \<open>Work attempts\<close>

definition assert_attempt :: "fence_db \<Rightarrow> seconds \<Rightarrow> attempt_fence \<Rightarrow> fence_error + unit" where
  "assert_attempt db now att =
     (case find (\<lambda>r. at_id r = wa_id att) (fd_attempts db) of
        None \<Rightarrow> Inl (LeaseLost ''work attempt fence no longer exists'')
      | Some r \<Rightarrow>
          if at_resource r \<noteq> wa_resource att \<or> at_scope r \<noteq> or_else (wa_scope att) (wa_resource att) \<or>
             at_work r \<noteq> wa_work att \<or> at_owner r \<noteq> wa_owner att \<or> at_token r \<noteq> wa_token att
          then Inl (LeaseLost ''work attempt identity or fencing token changed'')
          else if \<not> at_active r \<or> at_expires r \<le> now
          then Inl (LeaseLost ''work attempt fence expired or was superseded'')
          else Inr ())"

definition next_token :: "int option \<Rightarrow> int option \<Rightarrow> int" where
  "next_token counter physical =
     max (case counter of None \<Rightarrow> 0 | Some c \<Rightarrow> c) (case physical of None \<Rightarrow> 0 | Some m \<Rightarrow> m) + 1"

text \<open>The transaction of \<open>claim_attempt\<close> (its inner \<open>write\<close>).\<close>

definition claim_attempt_tx ::
  "seconds \<Rightarrow> seconds \<Rightarrow> string \<Rightarrow> string \<Rightarrow> string \<Rightarrow> string \<Rightarrow> string \<Rightarrow> fence_db
     \<Rightarrow> fence_error + fence_db \<times> attempt_fence" where
  "claim_attempt_tx now expires_at attempt_id root_id scope_id work owner db =
     (let mine = (\<lambda>r. in_fence_scope scope_id root_id (at_scope r) (at_resource r) \<and>
                      at_work r = work \<and> at_active r);
          rows = update_where (\<lambda>r. mine r \<and> at_expires r \<le> now) (\<lambda>r. r\<lparr>at_active := False\<rparr>) (fd_attempts db);
          key = attempt_counter_key scope_id work;
          token = next_token (fd_counters db key)
                    (sql_max (map at_token
                       (filter (\<lambda>r. at_resource r = root_id \<and> at_work r = work) rows)))
      in
      bindr (require (find (\<lambda>r. mine r \<and> now < at_expires r) rows = None)
               (LeaseUnavailable ''work order already has a live execution owner'')) (\<lambda>_.
      bindr (require (0 \<le> token \<and> 0 < token \<and> attempt_id \<notin> set (map at_id rows) \<and>
                      (root_id, work, token) \<notin> set (map (\<lambda>r. (at_resource r, at_work r, at_token r)) rows))
               IntegrityErr) (\<lambda>_.
      Inr (db\<lparr>fd_counters := (fd_counters db)(key \<mapsto> token),
              fd_attempts := rows @ [\<lparr>at_id = attempt_id, at_resource = root_id, at_scope = scope_id,
                                      at_work = work, at_owner = owner, at_token = token,
                                      at_expires = expires_at, at_active = True\<rparr>]\<rparr>,
           \<lparr>wa_resource = root_id, wa_work = work, wa_id = attempt_id, wa_owner = owner,
            wa_token = token, wa_expires = expires_at, wa_scope = scope_id\<rparr>))))"

definition claim_attempt ::
  "fence_env \<Rightarrow> seconds \<Rightarrow> string \<Rightarrow> pyval \<Rightarrow> pyval \<Rightarrow> pyval \<Rightarrow> pyval \<Rightarrow> coord \<Rightarrow> fence_db
     \<Rightarrow> fence_error + fence_db \<times> attempt_fence" where
  "claim_attempt env now uid resource work_id owner_id ttl_seconds cid db =
     (case (work_id, owner_id) of
        (PStr w, PStr ow) \<Rightarrow>
          (let work = py_strip w; owner = py_strip ow in
           bindr (require (\<not> (work = [] \<or> owner = [] \<or> nul \<in> set (work @ owner)))
                    (ValueErr ''work_id and owner_id must be non-empty strings'')) (\<lambda>_.
           bindr (coordination_scope env resource cid) (\<lambda>(root_id, scope_id).
           bindr (fence_ttl env ttl_seconds) (\<lambda>ttl.
           claim_attempt_tx now (now + ttl) uid root_id scope_id work owner db))))
      | _ \<Rightarrow> Inl (ValueErr ''work_id and owner_id must be non-empty strings''))"

definition renew_attempt ::
  "fence_env \<Rightarrow> seconds \<Rightarrow> seconds \<Rightarrow> attempt_fence \<Rightarrow> pyval \<Rightarrow> fence_db
     \<Rightarrow> fence_error + fence_db \<times> attempt_fence" where
  "renew_attempt env now now' att ttl_seconds db =
     bindr (fence_ttl env ttl_seconds) (\<lambda>ttl.
     bindr (assert_attempt db now' att) (\<lambda>_.
     (let P = (\<lambda>r. at_id r = wa_id att \<and> at_owner r = wa_owner att \<and> at_token r = wa_token att \<and> at_active r) in
      bindr (require (count_where P (fd_attempts db) = 1)
               (LeaseLost ''work attempt fence could not be renewed'')) (\<lambda>_.
      Inr (db\<lparr>fd_attempts := update_where P (\<lambda>r. r\<lparr>at_expires := now + ttl\<rparr>) (fd_attempts db)\<rparr>,
           att\<lparr>wa_expires := now + ttl\<rparr>)))))"

definition release_attempt :: "attempt_fence \<Rightarrow> fence_db \<Rightarrow> fence_db \<times> bool" where
  "release_attempt att db =
     (let P = (\<lambda>r. at_id r = wa_id att \<and> at_resource r = wa_resource att \<and> at_work r = wa_work att \<and>
                   at_owner r = wa_owner att \<and> at_token r = wa_token att \<and> at_active r)
      in (db\<lparr>fd_attempts := update_where P (\<lambda>r. r\<lparr>at_active := False\<rparr>) (fd_attempts db)\<rparr>,
          count_where P (fd_attempts db) = 1))"

text \<open>
  \<open>attempt_guard\<close>: the body is the caller's state transition on its own world, which may raise.
\<close>

definition attempt_guard ::
  "seconds \<Rightarrow> attempt_fence \<Rightarrow> ('w \<Rightarrow> 'w \<times> (fence_error + unit)) \<Rightarrow> fence_db \<Rightarrow> 'w
     \<Rightarrow> 'w \<times> (fence_error + unit)" where
  "attempt_guard now att body db w =
     (case assert_attempt db now att of Inl e \<Rightarrow> (w, Inl e) | Inr _ \<Rightarrow> body w)"

section \<open>Path leases\<close>

text \<open>A lease whose parent attempt is gone, superseded or expired (the loop over \<open>parented\<close>).\<close>

definition orphaned :: "attempt_row list \<Rightarrow> seconds \<Rightarrow> string \<Rightarrow> int \<Rightarrow> bool" where
  "orphaned attempts now attempt_id attempt_token =
     (case find (\<lambda>r. at_id r = attempt_id) attempts of
        None \<Rightarrow> True
      | Some p \<Rightarrow> at_token p \<noteq> attempt_token \<or> at_expires p \<le> now \<or> \<not> at_active p)"

definition decoded_scope :: "lease_row \<Rightarrow> string list option" where
  "decoded_scope r =
     (case fl_paths_json r of
        Some (PList vs) \<Rightarrow> normalize_paths (PList vs)
      | _ \<Rightarrow> None)"

text \<open>The loop over the live leases: a corrupt scope or an overlap raises.\<close>

fun check_live :: "string list \<Rightarrow> lease_row list \<Rightarrow> fence_error + unit" where
  "check_live scope [] = Inr ()"
| "check_live scope (r # rows) =
     (case decoded_scope r of
        None \<Rightarrow> Inl (LeaseUnavailable ''an active writer has a corrupt path scope'')
      | Some existing \<Rightarrow>
          if overlaps scope existing
          then Inl (LeaseUnavailable ''an active writer owns an overlapping path scope'')
          else check_live scope rows)"

text \<open>Deactivate the leases of the scope that have expired, then those with a dead parent.\<close>

definition expire_leases :: "seconds \<Rightarrow> string \<Rightarrow> string \<Rightarrow> fence_db \<Rightarrow> lease_row list" where
  "expire_leases now root_id scope_id db =
     (let mine = (\<lambda>r. in_fence_scope scope_id root_id (fl_scope r) (fl_resource r) \<and> fl_active r);
          rows = update_where (\<lambda>r. mine r \<and> fl_expires r \<le> now) (\<lambda>r. r\<lparr>fl_active := False\<rparr>) (fd_leases db);
          dead = map fl_id (filter (\<lambda>r. mine r \<and> now < fl_expires r \<and> fl_attempt r \<noteq> [] \<and>
                                        orphaned (fd_attempts db) now (fl_attempt r) (fl_attempt_token r)) rows)
      in update_where (\<lambda>r. fl_id r \<in> set dead) (\<lambda>r. r\<lparr>fl_active := False\<rparr>) rows)"

definition acquire_tx ::
  "seconds \<Rightarrow> seconds \<Rightarrow> seconds \<Rightarrow> string \<Rightarrow> string \<Rightarrow> string \<Rightarrow> string \<Rightarrow> string list
     \<Rightarrow> attempt_fence \<Rightarrow> fence_db \<Rightarrow> fence_error + fence_db \<times> fencing_lease" where
  "acquire_tx now now' expires_at lease_id root_id scope_id owner scope att db =
     bindr (require (\<not> (wa_resource att \<noteq> root_id \<or> or_else (wa_scope att) (wa_resource att) \<noteq> scope_id))
              (LeaseLost ''work attempt resource does not match path lease'')) (\<lambda>_.
     bindr (assert_attempt db now' att) (\<lambda>_.
     (let rows = expire_leases now root_id scope_id db;
          live = filter (\<lambda>r. in_fence_scope scope_id root_id (fl_scope r) (fl_resource r) \<and>
                             fl_active r \<and> now < fl_expires r) rows;
          token = next_token (fd_counters db scope_id)
                    (sql_max (map fl_token
                       (filter (\<lambda>r. fl_resource r = root_id \<and>
                                    (fl_scope r = scope_id \<or> fl_scope r = fl_resource r)) rows)))
      in
      bindr (check_live scope live) (\<lambda>_.
      bindr (require (0 \<le> token \<and> 0 < token \<and> lease_id \<notin> set (map fl_id rows)) IntegrityErr) (\<lambda>_.
      Inr (db\<lparr>fd_counters := (fd_counters db)(scope_id \<mapsto> token),
              fd_leases := rows @ [\<lparr>fl_id = lease_id, fl_resource = root_id, fl_owner = owner,
                                    fl_token = token, fl_expires = expires_at,
                                    fl_paths_json = Some (PList (map PStr scope)),
                                    fl_attempt = wa_id att, fl_attempt_token = wa_token att,
                                    fl_scope = scope_id, fl_active = True, fl_work = []\<rparr>]\<rparr>,
           \<lparr>ls_resource = root_id, ls_id = lease_id, ls_owner = owner, ls_token = token,
            ls_expires = expires_at, ls_paths = scope, ls_attempt = wa_id att,
            ls_attempt_token = wa_token att, ls_scope = scope_id\<rparr>))))))"

definition acquire ::
  "fence_env \<Rightarrow> pyfloat \<Rightarrow> seconds \<Rightarrow> string \<Rightarrow> pyval \<Rightarrow> pyval \<Rightarrow> pyval \<Rightarrow> pyval \<Rightarrow> attempt_fence
     \<Rightarrow> coord \<Rightarrow> fence_db \<Rightarrow> fence_error + fence_db \<times> fencing_lease" where
  "acquire env clock now' uid resource owner_id paths ttl_seconds att cid db =
     (case owner_id of
        PStr ow \<Rightarrow>
          (let owner = py_strip ow in
           bindr (require (\<not> (owner = [] \<or> nul \<in> set owner))
                    (ValueErr ''owner_id must be a non-empty string'')) (\<lambda>_.
           bindr (case normalize_paths paths of None \<Rightarrow> Inl (ValueErr ''paths'') | Some sc \<Rightarrow> Inr sc) (\<lambda>scope.
           bindr (canonical_resource env resource) (\<lambda>root_id0.
           bindr (if cid = Unset \<and> wa_scope att \<noteq> [] then Inr (root_id0, wa_scope att)
                  else coordination_scope env resource cid) (\<lambda>(root_id, scope_id).
           (case clock of
              Fin now \<Rightarrow>
                bindr (fence_ttl env ttl_seconds) (\<lambda>ttl.
                acquire_tx now now' (now + ttl) uid root_id scope_id owner scope att db)
            | _ \<Rightarrow> Inl (ValueErr ''lease clock must return a finite timestamp'')))))))
      | _ \<Rightarrow> Inl (ValueErr ''owner_id must be a non-empty string''))"

text \<open>\<open>tuple(json.loads(...))\<close>: a list gives its elements, a string its characters, a dict its keys.\<close>

definition json_tuple :: "pyval option \<Rightarrow> pyval list option" where
  "json_tuple j =
     (case j of
        Some (PList vs) \<Rightarrow> Some vs
      | Some (PStr s) \<Rightarrow> Some (map (\<lambda>c. PStr [c]) s)
      | Some (PDict d) \<Rightarrow> Some (map (\<lambda>(k, _). PStr k) d)
      | _ \<Rightarrow> None)"

definition path_covered :: "string list \<Rightarrow> string \<Rightarrow> bool" where
  "path_covered lease_keys req \<longleftrightarrow> list_ex (\<lambda>lk. req = lk \<or> prefix (lk @ [slash]) req) lease_keys"

definition assert_current :: "fence_db \<Rightarrow> seconds \<Rightarrow> fencing_lease \<Rightarrow> pyval \<Rightarrow> fence_error + unit" where
  "assert_current db now lease actual_paths =
     bindr (if py_truthy actual_paths
            then (case normalize_paths actual_paths of None \<Rightarrow> Inl (ValueErr ''paths'') | Some ps \<Rightarrow> Inr ps)
            else Inr []) (\<lambda>requested.
     (let outside = filter (\<lambda>req. \<not> path_covered (map path_key (ls_paths lease)) req)
                      (sorted_set (map path_key requested)) in
      bindr (require (outside = []) (LeaseScope (hd outside))) (\<lambda>_.
      (case find (\<lambda>r. fl_id r = ls_id lease) (fd_leases db) of
         None \<Rightarrow> Inl (LeaseLost ''writer lease no longer exists'')
       | Some r \<Rightarrow>
           (case json_tuple (fl_paths_json r) of
              None \<Rightarrow> Inl (LeaseLost ''writer lease scope is corrupt'')
            | Some persisted \<Rightarrow>
                bindr (require (fl_resource r = ls_resource lease \<and> fl_owner r = ls_owner lease \<and>
                                fl_token r = ls_token lease \<and> persisted = map PStr (ls_paths lease) \<and>
                                fl_attempt r = ls_attempt lease \<and>
                                fl_attempt_token r = ls_attempt_token lease \<and>
                                fl_scope r = or_else (ls_scope lease) (ls_resource lease))
                         (LeaseLost ''writer lease identity or fencing token changed'')) (\<lambda>_.
                bindr (require (fl_active r \<and> now < fl_expires r)
                         (LeaseLost ''writer lease expired or was superseded'')) (\<lambda>_.
                bindr (require (ls_attempt lease \<noteq> [] \<and> 0 < ls_attempt_token lease)
                         (LeaseLost ''writer lease requires a parent work attempt fencing token'')) (\<lambda>_.
                (case find (\<lambda>a. at_id a = ls_attempt lease) (fd_attempts db) of
                   None \<Rightarrow> Inl (LeaseLost ''parent work attempt fence no longer exists'')
                 | Some a \<Rightarrow>
                     require (at_resource a = ls_resource lease \<and>
                              at_scope a = or_else (ls_scope lease) (ls_resource lease) \<and>
                              at_token a = ls_attempt_token lease \<and> at_active a \<and> now < at_expires a)
                       (LeaseLost ''parent work attempt fence expired or was superseded'')))))))))) "

text \<open>
  \<open>commit_guard\<close>: the protected writes are the body's step on the world (the file system and the
  journal); they stay when the check after the body raises, which reports the failed commit.
\<close>

definition commit_guard ::
  "seconds \<Rightarrow> seconds \<Rightarrow> fencing_lease \<Rightarrow> pyval \<Rightarrow> ('w \<Rightarrow> 'w \<times> (fence_error + unit)) \<Rightarrow> fence_db \<Rightarrow> 'w
     \<Rightarrow> 'w \<times> (fence_error + unit)" where
  "commit_guard now now' lease actual_paths body db w =
     (if \<not> py_truthy actual_paths then (w, Inl (ValueErr ''commit_guard requires the exact non-empty write set''))
      else if ls_attempt lease = [] \<or> ls_attempt_token lease \<le> 0
      then (w, Inl (LeaseLost ''commit requires a parent work attempt fencing token''))
      else (case assert_current db now lease actual_paths of
              Inl e \<Rightarrow> (w, Inl e)
            | Inr _ \<Rightarrow>
                (let (w', res) = body w in
                 (w', bindr res (\<lambda>_. assert_current db now' lease actual_paths)))))"

definition renew ::
  "fence_env \<Rightarrow> seconds \<Rightarrow> seconds \<Rightarrow> fencing_lease \<Rightarrow> pyval \<Rightarrow> fence_db
     \<Rightarrow> fence_error + fence_db \<times> fencing_lease" where
  "renew env now now' lease ttl_seconds db =
     bindr (fence_ttl env ttl_seconds) (\<lambda>ttl.
     bindr (assert_current db now' lease (PList [])) (\<lambda>_.
     (let P = (\<lambda>r. fl_id r = ls_id lease \<and> fl_owner r = ls_owner lease \<and> fl_token r = ls_token lease \<and> fl_active r) in
      bindr (require (count_where P (fd_leases db) = 1) (LeaseLost ''writer lease could not be renewed'')) (\<lambda>_.
      Inr (db\<lparr>fd_leases := update_where P (\<lambda>r. r\<lparr>fl_expires := now + ttl\<rparr>) (fd_leases db)\<rparr>,
           lease\<lparr>ls_expires := now + ttl\<rparr>)))))"

definition release :: "fencing_lease \<Rightarrow> fence_db \<Rightarrow> fence_db \<times> bool" where
  "release lease db =
     (let P = (\<lambda>r. fl_id r = ls_id lease \<and> fl_resource r = ls_resource lease \<and> fl_owner r = ls_owner lease \<and>
                   fl_token r = ls_token lease \<and> fl_active r)
      in (db\<lparr>fd_leases := update_where P (\<lambda>r. r\<lparr>fl_active := False\<rparr>) (fd_leases db)\<rparr>,
          count_where P (fd_leases db) = 1))"

section \<open>Queries and pruning\<close>

definition get_active_attempt ::
  "fence_env \<Rightarrow> seconds \<Rightarrow> pyval \<Rightarrow> pyval \<Rightarrow> coord \<Rightarrow> fence_db \<Rightarrow> fence_error + attempt_fence option" where
  "get_active_attempt env now resource work_id cid db =
     (case work_id of
        PStr w \<Rightarrow>
          bindr (require (py_strip w \<noteq> [] \<and> nul \<notin> set w) (ValueErr ''work_id must be a non-empty string'')) (\<lambda>_.
          bindr (coordination_scope env resource cid) (\<lambda>(root_id, scope_id).
          Inr (map_option
                 (\<lambda>r. \<lparr>wa_resource = at_resource r, wa_work = at_work r, wa_id = at_id r,
                       wa_owner = at_owner r, wa_token = at_token r, wa_expires = at_expires r,
                       wa_scope = at_scope r\<rparr>)
                 (find (\<lambda>r. in_fence_scope scope_id root_id (at_scope r) (at_resource r) \<and>
                            at_work r = py_strip w \<and> at_active r \<and> now < at_expires r) (fd_attempts db)))))
      | _ \<Rightarrow> Inl (ValueErr ''work_id must be a non-empty string''))"

fun decode_leases :: "lease_row list \<Rightarrow> fence_error + fencing_lease list" where
  "decode_leases [] = Inr []"
| "decode_leases (r # rows) =
     (case decoded_scope r of
        None \<Rightarrow> Inl (LeaseUnavailable ''an active writer has a corrupt path scope'')
      | Some ps \<Rightarrow>
          bindr (decode_leases rows) (\<lambda>ls.
          Inr (\<lparr>ls_resource = fl_resource r, ls_id = fl_id r, ls_owner = fl_owner r,
                ls_token = fl_token r, ls_expires = fl_expires r, ls_paths = ps,
                ls_attempt = fl_attempt r, ls_attempt_token = fl_attempt_token r,
                ls_scope = fl_scope r\<rparr> # ls)))"

definition get_active_leases ::
  "fence_env \<Rightarrow> seconds \<Rightarrow> pyval \<Rightarrow> coord \<Rightarrow> fence_db \<Rightarrow> fence_error + fencing_lease list" where
  "get_active_leases env now resource cid db =
     bindr (coordination_scope env resource cid) (\<lambda>(root_id, scope_id).
     decode_leases (filter (\<lambda>r. in_fence_scope scope_id root_id (fl_scope r) (fl_resource r) \<and>
                                fl_active r \<and> now < fl_expires r) (fd_leases db)))"

definition is_path_locked ::
  "fence_env \<Rightarrow> seconds \<Rightarrow> pyval \<Rightarrow> pyval \<Rightarrow> coord \<Rightarrow> fence_db \<Rightarrow> fence_error + bool" where
  "is_path_locked env now resource path cid db =
     bindr (get_active_leases env now resource cid db) (\<lambda>active_leases.
     (case normalize_paths (PList [path]) of
        None \<Rightarrow> Inl (ValueErr ''paths'')
      | Some req \<Rightarrow> Inr (list_ex (\<lambda>l. overlaps req (ls_paths l)) active_leases)))"

definition prune_expired :: "seconds \<Rightarrow> fence_db \<Rightarrow> fence_db \<times> nat" where
  "prune_expired now db =
     (let A = (\<lambda>r. at_active r \<and> at_expires r \<le> now); L = (\<lambda>r. fl_active r \<and> fl_expires r \<le> now) in
      (db\<lparr>fd_attempts := update_where A (\<lambda>r. r\<lparr>at_active := False\<rparr>) (fd_attempts db),
          fd_leases := update_where L (\<lambda>r. r\<lparr>fl_active := False\<rparr>) (fd_leases db)\<rparr>,
       count_where A (fd_attempts db) + count_where L (fd_leases db)))"

section \<open>The store as a machine\<close>

datatype fence_op =
    ClaimAttempt seconds string pyval pyval pyval pyval coord
  | RenewAttempt seconds seconds attempt_fence pyval
  | ReleaseAttempt attempt_fence
  | Acquire pyfloat seconds string pyval pyval pyval pyval attempt_fence coord
  | Renew seconds seconds fencing_lease pyval
  | Release fencing_lease
  | PruneExpired seconds

fun fence_exec :: "fence_env \<Rightarrow> fence_db \<Rightarrow> fence_op \<Rightarrow> fence_db" where
  "fence_exec env db (ClaimAttempt now uid resource work owner ttl cid) =
     committed db (claim_attempt env now uid resource work owner ttl cid db)"
| "fence_exec env db (RenewAttempt now now' att ttl) = committed db (renew_attempt env now now' att ttl db)"
| "fence_exec env db (ReleaseAttempt att) = fst (release_attempt att db)"
| "fence_exec env db (Acquire clock now' uid resource owner paths ttl att cid) =
     committed db (acquire env clock now' uid resource owner paths ttl att cid db)"
| "fence_exec env db (Renew now now' lease ttl) = committed db (renew env now now' lease ttl db)"
| "fence_exec env db (Release lease) = fst (release lease db)"
| "fence_exec env db (PruneExpired now) = fst (prune_expired now db)"

section \<open>The invariant of the database\<close>

definition lease_scope_paths :: "lease_row \<Rightarrow> string list" where
  "lease_scope_paths r = (case decoded_scope r of None \<Rightarrow> [] | Some ps \<Rightarrow> ps)"

definition fence_clash :: "lease_row \<Rightarrow> lease_row \<Rightarrow> bool" where
  "fence_clash r s \<longleftrightarrow>
     fl_id r \<noteq> fl_id s \<and> fl_scope r = fl_scope s \<and> fl_active r \<and> fl_active s \<and>
     overlaps (lease_scope_paths r) (lease_scope_paths s)"

text \<open>Counter \<open>k\<close> covers token \<open>t\<close>: a token above the counter is new.\<close>

definition covers :: "(string \<rightharpoonup> int) \<Rightarrow> string \<Rightarrow> int \<Rightarrow> bool" where
  "covers C k t \<longleftrightarrow> (case C k of None \<Rightarrow> False | Some c \<Rightarrow> t \<le> c)"

definition lease_table_ok :: "(string \<rightharpoonup> int) \<Rightarrow> lease_row list \<Rightarrow> bool" where
  "lease_table_ok C rows \<longleftrightarrow>
     distinct (map fl_id rows) \<and>
     distinct (map (\<lambda>r. (fl_scope r, fl_token r)) rows) \<and>
     (\<forall>r \<in> set rows. decoded_scope r \<noteq> None \<and>
                    fl_paths_json r = Some (PList (map PStr (lease_scope_paths r))) \<and>
                    0 < fl_token r \<and> covers C (fl_scope r) (fl_token r)) \<and>
     clash_free fence_clash rows"

definition same_epoch :: "attempt_row \<Rightarrow> attempt_row \<Rightarrow> bool" where
  "same_epoch r s \<longleftrightarrow>
     at_id r \<noteq> at_id s \<and> at_scope r = at_scope s \<and> at_work r = at_work s \<and> at_active r \<and> at_active s"

definition attempt_table_ok :: "(string \<rightharpoonup> int) \<Rightarrow> attempt_row list \<Rightarrow> bool" where
  "attempt_table_ok C rows \<longleftrightarrow>
     distinct (map at_id rows) \<and>
     distinct (map (\<lambda>r. (at_scope r, at_work r, at_token r)) rows) \<and>
     distinct (map (\<lambda>r. (at_resource r, at_work r, at_token r)) rows) \<and>
     (\<forall>r \<in> set rows. 0 < at_token r \<and> covers C (attempt_counter_key (at_scope r) (at_work r)) (at_token r)) \<and>
     clash_free same_epoch rows"

definition fence_inv :: "fence_db \<Rightarrow> bool" where
  "fence_inv db \<longleftrightarrow>
     (\<forall>c \<in> ran (fd_counters db). 0 \<le> c) \<and>
     lease_table_ok (fd_counters db) (fd_leases db) \<and> attempt_table_ok (fd_counters db) (fd_attempts db)"

interpretation lease_tbl: exclusive_table fence_clash
  by unfold_locales (auto simp: fence_clash_def dest: overlaps_sym)

interpretation epoch_tbl: exclusive_table same_epoch
  by unfold_locales (auto simp: same_epoch_def)

lemma fence_inv_empty: "fence_inv empty_fence_db"
  by (simp add: fence_inv_def empty_fence_db_def lease_table_ok_def attempt_table_ok_def clash_free_def)

lemma covers_upd: "covers C k t \<Longrightarrow> (\<And>c. C j = Some c \<Longrightarrow> c \<le> n) \<Longrightarrow> covers (C(j \<mapsto> n)) k t"
  by (fastforce simp: covers_def split: option.splits if_splits)

lemma next_token_gt:
  "(\<And>c. counter = Some c \<Longrightarrow> c < next_token counter physical)"
  "(\<And>m. physical = Some m \<Longrightarrow> m < next_token counter physical)"
  "(\<And>c. counter = Some c \<Longrightarrow> 0 \<le> c) \<Longrightarrow> 0 < next_token counter physical"
  by (auto simp: next_token_def split: option.splits)

lemma lease_table_counter:
  "lease_table_ok C rows \<Longrightarrow> (\<And>c. C j = Some c \<Longrightarrow> c \<le> n) \<Longrightarrow> lease_table_ok (C(j \<mapsto> n)) rows"
  by (simp add: lease_table_ok_def covers_upd)

lemma attempt_table_counter:
  "attempt_table_ok C rows \<Longrightarrow> (\<And>c. C j = Some c \<Longrightarrow> c \<le> n) \<Longrightarrow> attempt_table_ok (C(j \<mapsto> n)) rows"
  by (simp add: attempt_table_ok_def covers_upd)

text \<open>An update that only clears \<open>active\<close> or moves \<open>expires_at\<close> keeps the tables well formed.\<close>

definition lease_touch :: "(lease_row \<Rightarrow> lease_row) \<Rightarrow> bool" where
  "lease_touch f \<longleftrightarrow> (\<forall>r. fl_id (f r) = fl_id r \<and> fl_scope (f r) = fl_scope r \<and> fl_token (f r) = fl_token r \<and>
      fl_resource (f r) = fl_resource r \<and>
      fl_paths_json (f r) = fl_paths_json r \<and> (fl_active (f r) \<longrightarrow> fl_active r))"

definition attempt_touch :: "(attempt_row \<Rightarrow> attempt_row) \<Rightarrow> bool" where
  "attempt_touch f \<longleftrightarrow> (\<forall>r. at_id (f r) = at_id r \<and> at_scope (f r) = at_scope r \<and> at_work (f r) = at_work r \<and>
      at_resource (f r) = at_resource r \<and> at_token (f r) = at_token r \<and> (at_active (f r) \<longrightarrow> at_active r))"

lemma lease_touches [simp, intro]:
  "lease_touch (\<lambda>r. r\<lparr>fl_active := False\<rparr>)" "lease_touch (\<lambda>r. r\<lparr>fl_expires := t\<rparr>)"
  by (simp_all add: lease_touch_def)

lemma attempt_touches [simp, intro]:
  "attempt_touch (\<lambda>r. r\<lparr>at_active := False\<rparr>)" "attempt_touch (\<lambda>r. r\<lparr>at_expires := t\<rparr>)"
  by (simp_all add: attempt_touch_def)

lemma lease_touch_map:
  assumes "lease_touch f" "lease_table_ok C rows" shows "lease_table_ok C (map f rows)"
proof -
  have same: "fl_id (f r) = fl_id r" "fl_scope (f r) = fl_scope r" "fl_token (f r) = fl_token r"
    "fl_paths_json (f r) = fl_paths_json r" "fl_active (f r) \<Longrightarrow> fl_active r" for r
    using assms(1) by (auto simp: lease_touch_def)
  have dec: "decoded_scope (f r) = decoded_scope r" for r
    by (simp add: decoded_scope_def same)
  have paths: "lease_scope_paths (f r) = lease_scope_paths r" for r
    by (simp add: lease_scope_paths_def dec)
  have "clash_free fence_clash (map f rows)"
    by (rule lease_tbl.clash_free_map)
       (use assms(2) in \<open>auto simp: lease_table_ok_def fence_clash_def same paths\<close>)
  then show ?thesis
    using assms(2) by (simp add: lease_table_ok_def same paths dec comp_def)
qed

lemma attempt_touch_map:
  assumes "attempt_touch f" "attempt_table_ok C rows" shows "attempt_table_ok C (map f rows)"
proof -
  have same: "at_id (f r) = at_id r" "at_scope (f r) = at_scope r" "at_work (f r) = at_work r"
    "at_resource (f r) = at_resource r" "at_token (f r) = at_token r" "at_active (f r) \<Longrightarrow> at_active r" for r
    using assms(1) by (auto simp: attempt_touch_def)
  have "clash_free same_epoch (map f rows)"
    by (rule epoch_tbl.clash_free_map)
       (use assms(2) in \<open>auto simp: attempt_table_ok_def same_epoch_def same\<close>)
  then show ?thesis
    using assms(2) by (simp add: attempt_table_ok_def same comp_def)
qed

lemma lease_touch_if: "lease_touch f \<Longrightarrow> lease_touch (\<lambda>r. if P r then f r else r)"
  by (simp add: lease_touch_def)

lemma attempt_touch_if: "attempt_touch f \<Longrightarrow> attempt_touch (\<lambda>r. if P r then f r else r)"
  by (simp add: attempt_touch_def)

lemma lease_table_update [hub_inv]:
  "lease_table_ok C rows \<Longrightarrow> lease_touch f \<Longrightarrow> lease_table_ok C (update_where P f rows)"
  unfolding update_where_def by (intro lease_touch_map lease_touch_if)

lemma attempt_table_update [hub_inv]:
  "attempt_table_ok C rows \<Longrightarrow> attempt_touch f \<Longrightarrow> attempt_table_ok C (update_where P f rows)"
  unfolding update_where_def by (intro attempt_touch_map attempt_touch_if)

lemma expire_leases_ok [hub_inv]:
  "lease_table_ok C (fd_leases db) \<Longrightarrow> lease_table_ok C (expire_leases now root_id scope_id db)"
  unfolding expire_leases_def Let_def by (intro lease_table_update lease_touches)


section \<open>Every operation keeps the invariant\<close>

lemma lease_table_insert:
  assumes ok: "lease_table_ok C rows"
    and new: "fl_id r \<notin> set (map fl_id rows)" "decoded_scope r \<noteq> None" "fl_paths_json r = Some (PList (map PStr (lease_scope_paths r)))"
      "0 < fl_token r" "covers C' (fl_scope r) (fl_token r)"
    and C': "lease_table_ok C' rows"
    and above: "\<And>c. C (fl_scope r) = Some c \<Longrightarrow> c < fl_token r"
    and free: "\<And>s. s \<in> set rows \<Longrightarrow> \<not> fence_clash r s"
  shows "lease_table_ok C' (rows @ [r])"
proof -
  have "(fl_scope r, fl_token r) \<notin> set (map (\<lambda>r. (fl_scope r, fl_token r)) rows)"
    using ok above by (fastforce simp: lease_table_ok_def covers_def split: option.splits)
  moreover have "clash_free fence_clash (rows @ [r])"
    by (rule lease_tbl.clash_free_append)
       (use ok free in \<open>auto simp: lease_table_ok_def clash_free_def fence_clash_def\<close>)
  ultimately show ?thesis
    using C' new by (simp add: lease_table_ok_def)
qed

lemma attempt_table_insert:
  assumes ok: "attempt_table_ok C rows"
    and new: "at_id r \<notin> set (map at_id rows)" "0 < at_token r"
      "covers C' (attempt_counter_key (at_scope r) (at_work r)) (at_token r)"
      "(at_resource r, at_work r, at_token r) \<notin> set (map (\<lambda>r. (at_resource r, at_work r, at_token r)) rows)"
    and C': "attempt_table_ok C' rows"
    and above: "\<And>c. C (attempt_counter_key (at_scope r) (at_work r)) = Some c \<Longrightarrow> c < at_token r"
    and free: "\<And>s. s \<in> set rows \<Longrightarrow> \<not> same_epoch r s"
  shows "attempt_table_ok C' (rows @ [r])"
proof -
  have "(at_scope r, at_work r, at_token r) \<notin> set (map (\<lambda>r. (at_scope r, at_work r, at_token r)) rows)"
  proof
    assume "(at_scope r, at_work r, at_token r) \<in> set (map (\<lambda>r. (at_scope r, at_work r, at_token r)) rows)"
    then obtain s where s: "s \<in> set rows" "at_scope s = at_scope r" "at_work s = at_work r" "at_token s = at_token r"
      by auto
    then have "covers C (attempt_counter_key (at_scope r) (at_work r)) (at_token r)"
      using ok by (auto simp: attempt_table_ok_def)
    then show False using above by (auto simp: covers_def split: option.splits)
  qed
  moreover have "clash_free same_epoch (rows @ [r])"
    by (rule epoch_tbl.clash_free_append)
       (use ok free in \<open>auto simp: attempt_table_ok_def clash_free_def same_epoch_def\<close>)
  ultimately show ?thesis
    using C' new by (simp add: attempt_table_ok_def)
qed

lemma check_live_sound:
  "check_live scope rows = Inr () \<Longrightarrow> r \<in> set rows \<Longrightarrow> \<not> overlaps scope (lease_scope_paths r)"
  by (induction rows) (auto simp: lease_scope_paths_def split: option.splits if_splits)

text \<open>After \<open>expire_leases\<close> an active lease of the scope has not expired.\<close>

lemma expire_leases_live:
  assumes "r \<in> set (expire_leases now root_id scope_id db)"
    and "in_fence_scope scope_id root_id (fl_scope r) (fl_resource r)" and "fl_active r"
  shows "now < fl_expires r"
  using assms by (auto simp: expire_leases_def Let_def elim!: in_update_whereE split: if_splits)

lemma counters_upd:
  "(\<forall>c \<in> ran C. 0 \<le> c) \<Longrightarrow> (0::int) \<le> n \<Longrightarrow> \<forall>c \<in> ran (C(k \<mapsto> n)). 0 \<le> c"
  by (auto simp: ran_def)

lemma claim_attempt_tx_inv:
  assumes inv: "fence_inv db"
    and res: "claim_attempt_tx now expires_at uid root_id scope_id work owner db = Inr (db', fence)"
  shows "fence_inv db'"
proof -
  define mine where "mine = (\<lambda>r::attempt_row. in_fence_scope scope_id root_id (at_scope r) (at_resource r) \<and>
                      at_work r = work \<and> at_active r)"
  define rows where "rows = update_where (\<lambda>r. mine r \<and> at_expires r \<le> now) (\<lambda>r. r\<lparr>at_active := False\<rparr>) (fd_attempts db)"
  define key where "key = attempt_counter_key scope_id work"
  define token where "token = next_token (fd_counters db key)
      (sql_max (map at_token (filter (\<lambda>r. at_resource r = root_id \<and> at_work r = work) rows)))"
  define row where "row = \<lparr>at_id = uid, at_resource = root_id, at_scope = scope_id, at_work = work,
      at_owner = owner, at_token = token, at_expires = expires_at, at_active = True\<rparr>"
  note defs = mine_def rows_def key_def token_def row_def
  from res have noliv: "find (\<lambda>r. mine r \<and> now < at_expires r) rows = None"
    and chk: "0 \<le> token" "0 < token" "uid \<notin> set (map at_id rows)"
      "(root_id, work, token) \<notin> set (map (\<lambda>r. (at_resource r, at_work r, at_token r)) rows)"
    and db': "db' = db\<lparr>fd_counters := (fd_counters db)(key \<mapsto> token), fd_attempts := rows @ [row]\<rparr>"
    by (simp_all add: claim_attempt_tx_def Let_def defs [symmetric])
  have above: "\<And>c. fd_counters db key = Some c \<Longrightarrow> c < token"
    unfolding token_def by (rule next_token_gt)
  have ok: "attempt_table_ok (fd_counters db) rows"
    unfolding rows_def using inv by (intro attempt_table_update) (auto simp: fence_inv_def)
  have ok': "attempt_table_ok ((fd_counters db)(key \<mapsto> token)) rows"
    using ok above by (intro attempt_table_counter) (auto intro: less_imp_le)
  have expired: "\<not> at_active s" if "s \<in> set rows" "at_scope s = scope_id" "at_work s = work" for s
  proof
    assume act: "at_active s"
    from that(1) obtain t where "t \<in> set (fd_attempts db)"
      and "s = (if mine t \<and> at_expires t \<le> now then t\<lparr>at_active := False\<rparr> else t)"
      unfolding rows_def by (rule in_update_whereE)
    with act have "\<not> (mine s \<and> at_expires s \<le> now)" by (cases "mine t \<and> at_expires t \<le> now") auto
    moreover have "mine s" using act that by (simp add: mine_def in_fence_scope_def)
    ultimately have "mine s \<and> now < at_expires s" by simp
    then show False using noliv that(1) unfolding find_None_iff by blast
  qed
  have "attempt_table_ok ((fd_counters db)(key \<mapsto> token)) (rows @ [row])"
    by (rule attempt_table_insert [OF ok _ _ _ _ ok'])
       (use chk above expired in \<open>auto simp: row_def key_def covers_def same_epoch_def\<close>)
  moreover have "lease_table_ok ((fd_counters db)(key \<mapsto> token)) (fd_leases db)"
    using inv above by (intro lease_table_counter) (auto simp: fence_inv_def intro: less_imp_le)
  ultimately show ?thesis
    using inv counters_upd [of "fd_counters db", OF _ chk(1)] by (simp add: db' fence_inv_def)
qed

lemma acquire_tx_inv:
  assumes inv: "fence_inv db"
    and scope: "normalize_paths paths = Some scope"
    and res: "acquire_tx now now' expires_at uid root_id scope_id owner scope att db = Inr (db', lease)"
  shows "fence_inv db'"
proof -
  define rows where "rows = expire_leases now root_id scope_id db"
  define live where "live = filter (\<lambda>r. in_fence_scope scope_id root_id (fl_scope r) (fl_resource r) \<and>
                             fl_active r \<and> now < fl_expires r) rows"
  define token where "token = next_token (fd_counters db scope_id)
                    (sql_max (map fl_token
                       (filter (\<lambda>r. fl_resource r = root_id \<and>
                                    (fl_scope r = scope_id \<or> fl_scope r = fl_resource r)) rows)))"
  define row where "row = \<lparr>fl_id = uid, fl_resource = root_id, fl_owner = owner,
      fl_token = token, fl_expires = expires_at, fl_paths_json = Some (PList (map PStr scope)),
      fl_attempt = wa_id att, fl_attempt_token = wa_token att, fl_scope = scope_id, fl_active = True, fl_work = []\<rparr>"
  note defs = rows_def live_def token_def row_def
  from res have free: "check_live scope live = Inr ()"
    and chk: "0 \<le> token" "0 < token" "uid \<notin> set (map fl_id rows)"
    and db': "db' = db\<lparr>fd_counters := (fd_counters db)(scope_id \<mapsto> token), fd_leases := rows @ [row]\<rparr>"
    by (simp_all add: acquire_tx_def Let_def defs [symmetric])
  have above: "\<And>c. fd_counters db scope_id = Some c \<Longrightarrow> c < token"
    unfolding token_def by (rule next_token_gt)
  have ok: "lease_table_ok (fd_counters db) rows"
    unfolding rows_def using inv by (intro expire_leases_ok) (auto simp: fence_inv_def)
  have ok': "lease_table_ok ((fd_counters db)(scope_id \<mapsto> token)) rows"
    using ok above by (intro lease_table_counter) (auto intro: less_imp_le)
  have dec: "decoded_scope row = Some scope"
    using normalize_paths_fixed [OF scope] by (simp add: row_def decoded_scope_def)
  then have paths: "lease_scope_paths row = scope" by (simp add: lease_scope_paths_def)
  have "\<not> fence_clash row s" if s: "s \<in> set rows" for s
  proof
    assume clash: "fence_clash row s"
    then have "in_fence_scope scope_id root_id (fl_scope s) (fl_resource s)" "fl_active s"
      by (auto simp: fence_clash_def row_def in_fence_scope_def)
    then have "s \<in> set live"
      using s expire_leases_live by (auto simp: live_def rows_def)
    with free have "\<not> overlaps scope (lease_scope_paths s)" by (rule check_live_sound)
    then show False using clash paths by (simp add: fence_clash_def)
  qed
  then have "lease_table_ok ((fd_counters db)(scope_id \<mapsto> token)) (rows @ [row])"
    by (intro lease_table_insert [OF ok _ _ _ _ _ ok'])
       (use chk above paths dec in \<open>auto simp: row_def covers_def\<close>)
  moreover have "attempt_table_ok ((fd_counters db)(scope_id \<mapsto> token)) (fd_attempts db)"
    using inv above by (intro attempt_table_counter) (auto simp: fence_inv_def intro: less_imp_le)
  ultimately show ?thesis
    using inv counters_upd [of "fd_counters db", OF _ chk(1)] by (simp add: db' fence_inv_def)
qed

lemma claim_attempt_inv [hub_inv]:
  "fence_inv db \<Longrightarrow> claim_attempt env now uid resource work_id owner_id ttl cid db = Inr (db', f) \<Longrightarrow> fence_inv db'"
  by (auto simp: claim_attempt_def Let_def split: pyval.splits elim: claim_attempt_tx_inv)

lemma acquire_InrE:
  assumes "acquire env clock now' uid resource owner_id paths ttl_seconds att cid db = Inr res"
  obtains now ttl root_id scope_id owner scope
  where "clock = Fin now" "fence_ttl env ttl_seconds = Inr ttl" "normalize_paths paths = Some scope"
    "acquire_tx now now' (now + ttl) uid root_id scope_id owner scope att db = Inr res"
proof -
  obtain ow where "owner_id = PStr ow"
    using assms by (cases owner_id) (auto simp: acquire_def)
  moreover obtain now where "clock = Fin now"
    using assms calculation
    by (cases clock) (simp_all add: acquire_def Let_def split: option.splits split del: if_split)
  moreover obtain scope where "normalize_paths paths = Some scope"
    using assms calculation by (cases "normalize_paths paths") (simp_all add: acquire_def Let_def)
  ultimately show ?thesis
    using assms by (auto simp: acquire_def Let_def split del: if_split intro: that)
qed

lemma acquire_inv [hub_inv]:
  "fence_inv db \<Longrightarrow> acquire env clock now' uid resource owner_id paths ttl att cid db = Inr (db', l)
     \<Longrightarrow> fence_inv db'"
  by (elim acquire_InrE) (rule acquire_tx_inv)

lemma fence_inv_touch:
  assumes "fence_inv db"
  shows "attempt_touch f \<Longrightarrow> fence_inv (db\<lparr>fd_attempts := update_where P f (fd_attempts db)\<rparr>)"
    and "lease_touch g \<Longrightarrow> fence_inv (db\<lparr>fd_leases := update_where Q g (fd_leases db)\<rparr>)"
  using assms by (simp_all add: fence_inv_def lease_table_update attempt_table_update)

lemma renew_attempt_inv [hub_inv]:
  "fence_inv db \<Longrightarrow> renew_attempt env now now' att ttl db = Inr (db', f) \<Longrightarrow> fence_inv db'"
  by (clarsimp simp: renew_attempt_def Let_def) (simp add: fence_inv_touch)

lemma renew_inv [hub_inv]:
  "fence_inv db \<Longrightarrow> renew env now now' lease ttl db = Inr (db', l) \<Longrightarrow> fence_inv db'"
  by (clarsimp simp: renew_def Let_def) (simp add: fence_inv_touch)

lemma release_inv [hub_inv]:
  "fence_inv db \<Longrightarrow> fence_inv (fst (release_attempt att db))"
  "fence_inv db \<Longrightarrow> fence_inv (fst (release lease db))"
  by (simp_all add: release_attempt_def release_def Let_def fence_inv_touch)

lemma prune_expired_inv [hub_inv]: "fence_inv db \<Longrightarrow> fence_inv (fst (prune_expired now db))"
  by (simp add: prune_expired_def Let_def fence_inv_def lease_table_update attempt_table_update)

lemma fence_exec_inv: "fence_inv db \<Longrightarrow> fence_inv (fence_exec env db oper)"
  by (cases oper; simp only: fence_exec.simps;
      ((rule committed_cases [where P = fence_inv], erule (1) hub_inv, assumption) | (rule hub_inv, assumption)))

interpretation fence_store: inv_machine "fence_exec env" fence_inv for env
  by unfold_locales (rule fence_exec_inv)

section \<open>History: rows stay, inactive rows stay inactive, counters grow\<close>

definition lease_follows :: "lease_row \<Rightarrow> lease_row \<Rightarrow> bool" where
  "lease_follows r r' \<longleftrightarrow> fl_id r' = fl_id r \<and> fl_scope r' = fl_scope r \<and> fl_token r' = fl_token r \<and>
     (fl_active r' \<longrightarrow> fl_active r)"

definition attempt_follows :: "attempt_row \<Rightarrow> attempt_row \<Rightarrow> bool" where
  "attempt_follows r r' \<longleftrightarrow> at_id r' = at_id r \<and> at_scope r' = at_scope r \<and> at_work r' = at_work r \<and>
     at_token r' = at_token r \<and> (at_active r' \<longrightarrow> at_active r)"

definition counter_value :: "string \<Rightarrow> fence_db \<Rightarrow> int" where
  "counter_value k db = (case fd_counters db k of None \<Rightarrow> 0 | Some c \<Rightarrow> c)"

definition rows_follow :: "('r \<Rightarrow> 'r \<Rightarrow> bool) \<Rightarrow> 'r list \<Rightarrow> 'r list \<Rightarrow> bool" where
  "rows_follow R rows rows' \<longleftrightarrow> (\<forall>r \<in> set rows. \<exists>r' \<in> set rows'. R r r')"

definition fence_ext :: "fence_db \<Rightarrow> fence_db \<Rightarrow> bool" where
  "fence_ext db db' \<longleftrightarrow> rows_follow lease_follows (fd_leases db) (fd_leases db') \<and>
     rows_follow attempt_follows (fd_attempts db) (fd_attempts db')"

lemma rows_follow_append [simp]: "rows_follow R rows rows' \<Longrightarrow> rows_follow R rows (rows' @ xs)"
  by (auto simp: rows_follow_def)

lemma rows_follow_refl: "(\<And>r. R r r) \<Longrightarrow> rows_follow R rows rows"
  by (auto simp: rows_follow_def)

lemma rows_follow_update:
  assumes "\<And>r. R r r" and "\<And>r. R r (f r)" shows "rows_follow R rows (update_where P f rows)"
  unfolding rows_follow_def
proof
  fix r assume "r \<in> set rows"
  then have "(if P r then f r else r) \<in> set (update_where P f rows)" by (rule in_update_whereI)
  moreover have "R r (if P r then f r else r)" using assms by simp
  ultimately show "\<exists>r' \<in> set (update_where P f rows). R r r'" by blast
qed

lemma rows_follow_trans:
  assumes "\<And>x y z. R x y \<Longrightarrow> R y z \<Longrightarrow> R x z" "rows_follow R a b" "rows_follow R b c"
  shows "rows_follow R a c"
  using assms unfolding rows_follow_def by meson

lemma follows_refl [simp]: "lease_follows r r" "attempt_follows a a"
  by (simp_all add: lease_follows_def attempt_follows_def)

lemma follows_trans:
  "lease_follows r s \<Longrightarrow> lease_follows s t \<Longrightarrow> lease_follows r t"
  "attempt_follows a b \<Longrightarrow> attempt_follows b c \<Longrightarrow> attempt_follows a c"
  by (auto simp: lease_follows_def attempt_follows_def)

lemma follows_touch:
  "lease_touch f \<Longrightarrow> lease_follows r (f r)" "attempt_touch g \<Longrightarrow> attempt_follows a (g a)"
  by (auto simp: lease_touch_def attempt_touch_def lease_follows_def attempt_follows_def)

lemma leases_follow_update [simp]:
  "lease_touch f \<Longrightarrow> rows_follow lease_follows rows (update_where P f rows)"
  "attempt_touch g \<Longrightarrow> rows_follow attempt_follows arows (update_where Q g arows)"
  by (simp_all add: rows_follow_update follows_touch)

lemma leases_follow_refl [simp]: "rows_follow lease_follows rows rows" "rows_follow attempt_follows arows arows"
  by (simp_all add: rows_follow_refl)

lemma expire_leases_follow [simp]: "rows_follow lease_follows (fd_leases db) (expire_leases now root_id scope_id db)"
  unfolding expire_leases_def Let_def
  by (rule rows_follow_trans [OF _ leases_follow_update(1) leases_follow_update(1)], erule (1) follows_trans(1)) simp_all

lemma fence_ext_refl: "fence_ext db db"
  by (simp add: fence_ext_def)

lemma fence_ext_trans: "fence_ext a b \<Longrightarrow> fence_ext b c \<Longrightarrow> fence_ext a c"
  unfolding fence_ext_def
  by (auto intro: rows_follow_trans [where R = lease_follows, OF follows_trans(1)]
      rows_follow_trans [where R = attempt_follows, OF follows_trans(2)])

lemma claim_attempt_InrE:
  assumes "claim_attempt env now uid resource work_id owner_id ttl_seconds cid db = Inr res"
  obtains ttl root_id scope_id work owner where "fence_ttl env ttl_seconds = Inr ttl"
    "claim_attempt_tx now (now + ttl) uid root_id scope_id work owner db = Inr res"
  using assms by (cases work_id; cases owner_id) (auto simp: claim_attempt_def Let_def intro: that)

lemma claim_attempt_ext [hub_inv]:
  "claim_attempt env now uid resource work_id owner_id ttl cid db = Inr (db', f) \<Longrightarrow> fence_ext db db'"
  by (erule claim_attempt_InrE) (auto simp: claim_attempt_tx_def Let_def fence_ext_def)

lemma acquire_ext [hub_inv]:
  "acquire env clock now' uid resource owner_id paths ttl att cid db = Inr (db', l) \<Longrightarrow> fence_ext db db'"
  by (erule acquire_InrE) (auto simp: acquire_tx_def Let_def fence_ext_def)

lemma touch_ops_ext:
  "renew_attempt env now now' att ttl db = Inr (db', f) \<Longrightarrow> fence_ext db db'"
  "renew env now now' lease ttl db = Inr (db', l) \<Longrightarrow> fence_ext db db'"
  "fence_ext db (fst (release_attempt att db))"
  "fence_ext db (fst (release lease db))"
  "fence_ext db (fst (prune_expired now db))"
  by (clarsimp simp: renew_attempt_def renew_def release_attempt_def release_def prune_expired_def Let_def;
      simp add: fence_ext_def)+

lemma fence_exec_ext: "fence_ext db (fence_exec env db oper)"
  by (cases oper; simp only: fence_exec.simps;
      ((rule committed_cases [where P = "fence_ext db"], erule claim_attempt_ext acquire_ext touch_ops_ext,
        rule fence_ext_refl) | rule touch_ops_ext))

interpretation fence_hist: inv_machine "fence_exec env" "fence_ext db0" for env db0
  by unfold_locales (blast intro: fence_ext_trans fence_exec_ext)

lemma fence_run_ext: "fence_ext db (foldl (fence_exec env) db ops)"
  by (rule fence_hist.inv_run) (rule fence_ext_refl)

lemma counter_bump:
  assumes "fd_counters db' = (fd_counters db)(j \<mapsto> next_token (fd_counters db j) m)"
  shows "counter_value k db \<le> counter_value k db'"
  using assms by (cases "k = j") (auto simp: counter_value_def next_token_def split: option.splits)

lemma claim_attempt_counter:
  assumes "claim_attempt env now uid resource work owner ttl cid db = Inr (db', f)"
  shows "counter_value k db \<le> counter_value k db'"
  using assms by (elim claim_attempt_InrE)
    (auto simp: claim_attempt_tx_def Let_def simp del: fun_upd_apply intro!: counter_bump)

lemma acquire_counter:
  assumes "acquire env clock now' uid resource owner paths ttl att cid db = Inr (db', l)"
  shows "counter_value k db \<le> counter_value k db'"
  using assms by (elim acquire_InrE)
    (auto simp: acquire_tx_def Let_def simp del: fun_upd_apply intro!: counter_bump)

lemma touch_ops_counters:
  "renew_attempt env now now' att ttl db = Inr (db', f) \<Longrightarrow> fd_counters db' = fd_counters db"
  "renew env now now' lease ttl db = Inr (db', l) \<Longrightarrow> fd_counters db' = fd_counters db"
  "fd_counters (fst (release_attempt att db)) = fd_counters db"
  "fd_counters (fst (release lease db)) = fd_counters db"
  "fd_counters (fst (prune_expired now db)) = fd_counters db"
  by (auto simp: renew_attempt_def renew_def release_attempt_def release_def prune_expired_def Let_def)

lemma fence_exec_counter: "counter_value k db \<le> counter_value k (fence_exec env db oper)"
  by (cases oper; simp only: fence_exec.simps;
      ((rule committed_cases [where P = "\<lambda>d. counter_value k db \<le> counter_value k d"],
        (erule claim_attempt_counter acquire_counter |
         simp add: counter_value_def touch_ops_counters), rule order_refl)
       | simp add: counter_value_def touch_ops_counters))

interpretation fence_tokens: counter_machine "fence_exec env" fence_inv counter_value for env
  by unfold_locales (rule fence_exec_counter)

section \<open>What the fence guarantees\<close>

text \<open>The databases the store can reach from an empty file.\<close>

definition fence_run :: "fence_env \<Rightarrow> fence_op list \<Rightarrow> fence_db" where
  "fence_run env ops = foldl (fence_exec env) empty_fence_db ops"

lemma fence_run_inv: "fence_inv (fence_run env ops)"
  unfolding fence_run_def by (rule fence_store.inv_run) (rule fence_inv_empty)

lemma fence_run_leases: "lease_table_ok (fd_counters (fence_run env ops)) (fd_leases (fence_run env ops))"
  using fence_run_inv by (simp add: fence_inv_def)

lemma fence_run_attempts: "attempt_table_ok (fd_counters (fence_run env ops)) (fd_attempts (fence_run env ops))"
  using fence_run_inv by (simp add: fence_inv_def)

lemma decoded_paths_key:
  assumes "decoded_scope r = Some ps" "p \<in> set ps" shows "path_key p = p"
  using assms by (auto simp: decoded_scope_def split: option.splits pyval.splits intro: normalize_paths_elem(1))

lemma lease_paths_key: "p \<in> set (lease_scope_paths r) \<Longrightarrow> path_key p = p"
  by (cases "decoded_scope r") (auto simp: lease_scope_paths_def dest: decoded_paths_key)

lemma path_covered_iff: "path_covered ks w \<longleftrightarrow> (\<exists>k \<in> set ks. w = k \<or> prefix (k @ [slash]) w)"
  by (auto simp: path_covered_def list_ex_iff)

lemma covered_overlap:
  assumes "path_covered (lease_scope_paths r) w" "path_covered (lease_scope_paths s) w"
  shows "overlaps (lease_scope_paths r) (lease_scope_paths s)"
proof -
  obtain a b where "a \<in> set (lease_scope_paths r)" "w = a \<or> prefix (a @ [slash]) w"
    and "b \<in> set (lease_scope_paths s)" "w = b \<or> prefix (b @ [slash]) w"
    using assms by (auto simp: path_covered_iff)
  then show ?thesis
    by (intro overlaps_common_write [of a _ b _ w]) (simp_all add: lease_paths_key)
qed

lemma assert_current_row:
  assumes "assert_current db now L paths = Inr ()"
  obtains r where "r \<in> set (fd_leases db)" "fl_id r = ls_id L" "fl_active r" "now < fl_expires r"
    "fl_scope r = or_else (ls_scope L) (ls_resource L)"
    "json_tuple (fl_paths_json r) = Some (map PStr (ls_paths L))"
  using assms by (auto simp: assert_current_def Let_def dest!: find_SomeD split: option.splits intro: that)

lemma assert_current_covers:
  assumes "assert_current db now L (PList [PStr w]) = Inr ()"
  shows "path_covered (map path_key (ls_paths L)) (path_key w)"
  using assms
  by (auto simp: assert_current_def Let_def normalize_paths_def filter_empty_conv split: option.splits if_splits)

lemma map_PStr_inj: "map PStr xs = map PStr ys \<longleftrightarrow> xs = ys"
  by (simp add: inj_map_eq_map inj_def)

lemma current_lease_row:
  assumes "assert_current (fence_run env ops) now L (PList [PStr w]) = Inr ()"
  obtains r where "r \<in> set (fd_leases (fence_run env ops))" "fl_id r = ls_id L" "fl_active r"
    "fl_scope r = or_else (ls_scope L) (ls_resource L)" "path_covered (lease_scope_paths r) (path_key w)"
proof -
  obtain r where r: "r \<in> set (fd_leases (fence_run env ops))" "fl_id r = ls_id L" "fl_active r"
    "fl_scope r = or_else (ls_scope L) (ls_resource L)"
    "json_tuple (fl_paths_json r) = Some (map PStr (ls_paths L))"
    using assms by (rule assert_current_row)
  have "fl_paths_json r = Some (PList (map PStr (lease_scope_paths r)))"
    using fence_run_leases r(1) by (auto simp: lease_table_ok_def)
  then have paths: "lease_scope_paths r = ls_paths L"
    using r(5) by (simp add: json_tuple_def map_PStr_inj)
  have "map path_key (ls_paths L) = ls_paths L"
    unfolding paths [symmetric] by (simp add: map_idI lease_paths_key)
  then have "path_covered (lease_scope_paths r) (path_key w)"
    using assert_current_covers [OF assms] paths by simp
  then show ?thesis using r that by blast
qed

lemma active_clash_free:
  assumes "r \<in> set (fd_leases (fence_run env ops))" "s \<in> set (fd_leases (fence_run env ops))"
    and "fl_active r" "fl_active s" "fl_scope r = fl_scope s"
    and "path_covered (lease_scope_paths r) w" "path_covered (lease_scope_paths s) w"
  shows "r = s"
proof -
  have "\<not> fence_clash r s"
    using lease_tbl.clash_freeD [OF _ assms(1,2)] fence_run_leases by (auto simp: lease_table_ok_def)
  then have "fl_id r = fl_id s"
    using assms covered_overlap by (auto simp: fence_clash_def)
  moreover have "distinct (map fl_id (fd_leases (fence_run env ops)))"
    using fence_run_leases by (simp add: lease_table_ok_def)
  ultimately show ?thesis using distinct_map_inj [where g = fl_id, OF _ assms(1,2)] by blast
qed

lemma inactive_lease_not_current:
  assumes db: "db = fence_run env ops" and r: "r \<in> set (fd_leases db)" "\<not> fl_active r"
    and run: "db' = foldl (fence_exec env) db ops'"
  shows "\<exists>e. assert_current db' now L paths = Inl e \<or> ls_id L \<noteq> fl_id r"
proof (cases "assert_current db' now L paths")
  case (Inr u)
  then obtain s where s: "s \<in> set (fd_leases db')" "fl_id s = ls_id L" "fl_active s"
    by (auto elim: assert_current_row)
  obtain r' where r': "r' \<in> set (fd_leases db')" "fl_id r' = fl_id r" "\<not> fl_active r'"
    using fence_run_ext [of db env ops'] r
    by (auto simp: fence_ext_def rows_follow_def lease_follows_def run)
  have "db' = fence_run env (ops @ ops')" by (simp add: run db fence_run_def)
  then have "distinct (map fl_id (fd_leases db'))"
    using fence_run_leases by (auto simp: lease_table_ok_def)
  then have "fl_id s \<noteq> fl_id r'" using s r' distinct_map_inj by metis
  then show ?thesis using s r' by auto
qed auto

lemma inactive_attempt_not_current:
  assumes db: "db = fence_run env ops" and r: "r \<in> set (fd_attempts db)" "\<not> at_active r"
    and run: "db' = foldl (fence_exec env) db ops'" and A: "wa_id A = at_id r"
  shows "\<exists>e. assert_attempt db' now A = Inl e"
proof (cases "assert_attempt db' now A")
  case (Inr u)
  then obtain s where s: "s \<in> set (fd_attempts db')" "at_id s = wa_id A" "at_active s"
    by (auto simp: assert_attempt_def dest!: find_SomeD split: option.splits if_splits)
  obtain r' where r': "r' \<in> set (fd_attempts db')" "at_id r' = at_id r" "\<not> at_active r'"
    using fence_run_ext [of db env ops'] r
    by (auto simp: fence_ext_def rows_follow_def attempt_follows_def run)
  have "db' = fence_run env (ops @ ops')" by (simp add: run db fence_run_def)
  then have "distinct (map at_id (fd_attempts db'))"
    using fence_run_attempts by (auto simp: attempt_table_ok_def)
  then have "at_id s \<noteq> at_id r'" using s r' distinct_map_inj by metis
  then show ?thesis using s r' A by auto
qed auto

lemma counter_new:
  assumes "fd_counters db' = (fd_counters db)(j \<mapsto> next_token (fd_counters db j) m)"
  shows "counter_value j db' = next_token (fd_counters db j) m"
    and "counter_value j db < next_token (fd_counters db j) m"
  using assms by (auto simp: counter_value_def next_token_def split: option.splits)

lemma claim_attempt_shape:
  assumes "claim_attempt env now uid resource work_id owner_id ttl cid db = Inr (db', A)"
  obtains key m rows row where
    "fd_counters db' = (fd_counters db)(key \<mapsto> next_token (fd_counters db key) m)"
    "fd_attempts db' = rows @ [row]" "map at_id rows = map at_id (fd_attempts db)"
    "key = attempt_counter_key (wa_scope A) (wa_work A)" "next_token (fd_counters db key) m = wa_token A"
    "at_id row = wa_id A" "at_scope row = wa_scope A" "at_work row = wa_work A" "at_active row"
    "wa_id A \<notin> set (map at_id rows)"
proof -
  obtain ttl' root_id scope_id work owner where
    tx: "claim_attempt_tx now (now + ttl') uid root_id scope_id work owner db = Inr (db', A)"
    using assms by (rule claim_attempt_InrE)
  show ?thesis
    by (rule that [where key = "attempt_counter_key (wa_scope A) (wa_work A)"
          and rows = "butlast (fd_attempts db')" and row = "last (fd_attempts db')"
          and m = "sql_max (map at_token (filter (\<lambda>r. at_resource r = root_id \<and> at_work r = work)
                     (butlast (fd_attempts db'))))"])
       (use tx in \<open>auto simp: claim_attempt_tx_def Let_def map_update_where simp del: fun_upd_apply set_map\<close>)
qed

lemma claim_attempt_facts:
  assumes "claim_attempt env now uid resource work_id owner_id ttl cid db = Inr (db', A)"
  shows "\<exists>r \<in> set (fd_attempts db'). at_id r = wa_id A \<and> at_scope r = wa_scope A \<and> at_work r = wa_work A \<and> at_active r"
    and "counter_value (attempt_counter_key (wa_scope A) (wa_work A)) db' = wa_token A"
    and "counter_value (attempt_counter_key (wa_scope A) (wa_work A)) db < wa_token A"
    and "wa_id A \<notin> set (map at_id (fd_attempts db))"
proof -
  obtain key m rows row where sh:
    "fd_counters db' = (fd_counters db)(key \<mapsto> next_token (fd_counters db key) m)"
    "fd_attempts db' = rows @ [row]" "map at_id rows = map at_id (fd_attempts db)"
    "key = attempt_counter_key (wa_scope A) (wa_work A)" "next_token (fd_counters db key) m = wa_token A"
    "at_id row = wa_id A" "at_scope row = wa_scope A" "at_work row = wa_work A" "at_active row"
    "wa_id A \<notin> set (map at_id rows)"
    using assms by (rule claim_attempt_shape)
  show "\<exists>r \<in> set (fd_attempts db'). at_id r = wa_id A \<and> at_scope r = wa_scope A \<and> at_work r = wa_work A \<and> at_active r"
    using sh by simp
  show "counter_value (attempt_counter_key (wa_scope A) (wa_work A)) db' = wa_token A"
    and "counter_value (attempt_counter_key (wa_scope A) (wa_work A)) db < wa_token A"
    using counter_new [OF sh(1)] sh(4,5) by simp_all
  show "wa_id A \<notin> set (map at_id (fd_attempts db))"
    using sh(10) unfolding sh(3) .
qed

lemma acquire_shape:
  assumes "acquire env clock now' uid resource owner_id paths ttl att cid db = Inr (db', L)"
  obtains m where "fd_counters db' = (fd_counters db)(ls_scope L \<mapsto> next_token (fd_counters db (ls_scope L)) m)"
    "next_token (fd_counters db (ls_scope L)) m = ls_token L"
proof -
  obtain now ttl' root_id scope_id owner scope where
    tx: "acquire_tx now now' (now + ttl') uid root_id scope_id owner scope att db = Inr (db', L)"
    using assms by (rule acquire_InrE)
  show ?thesis
    by (rule that [where m = "sql_max (map fl_token (filter (\<lambda>r. fl_resource r = root_id \<and>
              (fl_scope r = scope_id \<or> fl_scope r = fl_resource r)) (butlast (fd_leases db'))))"])
       (use tx in \<open>auto simp: acquire_tx_def Let_def simp del: fun_upd_apply set_map\<close>)
qed

lemma acquire_facts:
  assumes "acquire env clock now' uid resource owner_id paths ttl att cid db = Inr (db', L)"
  shows "counter_value (ls_scope L) db' = ls_token L" and "counter_value (ls_scope L) db < ls_token L"
  using acquire_shape [OF assms] counter_new by metis+

lemma fence_run_snoc: "committed (fence_run env ops) (claim_attempt env now uid res w ow ttl cid (fence_run env ops))
    = fence_run env (ops @ [ClaimAttempt now uid res w ow ttl cid])"
  by (simp add: fence_run_def)

text \<open>A new epoch of a work order ends the old one.\<close>

lemma new_epoch_ends_old:
  assumes db: "db = fence_run env ops" and claim: "claim_attempt env now uid res w ow ttl cid db = Inr (db', B)"
    and r: "r \<in> set (fd_attempts db)" "at_scope r = wa_scope B" "at_work r = wa_work B"
  shows "\<exists>r' \<in> set (fd_attempts db'). at_id r' = at_id r \<and> \<not> at_active r'"
proof -
  have db': "db' = fence_run env (ops @ [ClaimAttempt now uid res w ow ttl cid])"
    using claim by (simp add: db fence_run_snoc [symmetric] committed_def)
  obtain r' where r': "r' \<in> set (fd_attempts db')" "attempt_follows r r'"
    using claim_attempt_ext [OF claim] r(1) by (auto simp: fence_ext_def rows_follow_def)
  obtain b where b: "b \<in> set (fd_attempts db')" "at_id b = wa_id B" "at_scope b = wa_scope B"
      "at_work b = wa_work B" "at_active b"
    using claim_attempt_facts(1) [OF claim] by blast
  have "at_id r \<noteq> wa_id B"
    using claim_attempt_facts(4) [OF claim] r(1) by force
  moreover have "\<not> same_epoch r' b"
    using epoch_tbl.clash_freeD [OF _ r'(1) b(1)] fence_run_attempts by (auto simp: attempt_table_ok_def db')
  ultimately have "\<not> at_active r'"
    using r r' b by (auto simp: same_epoch_def attempt_follows_def)
  then show ?thesis using r' by (auto simp: attempt_follows_def)
qed

text \<open>Where an \<open>acquire\<close> can fail with a busy scope or a broken constraint.\<close>

lemma check_live_Inl:
  "check_live scope rows = Inl e \<Longrightarrow> \<forall>r \<in> set rows. decoded_scope r \<noteq> None
     \<Longrightarrow> \<exists>r \<in> set rows. overlaps scope (lease_scope_paths r)"
proof (induction rows)
  case Nil
  then show ?case by simp
next
  case (Cons r rows)
  then obtain ps where "decoded_scope r = Some ps" by auto
  moreover from this have "lease_scope_paths r = ps" by (simp add: lease_scope_paths_def)
  ultimately show ?case using Cons by (auto split: if_splits)
qed

lemma check_live_not_integrity: "check_live scope rows \<noteq> Inl IntegrityErr"
  by (induction rows) (auto split: option.splits)

definition plain_error :: "fence_error \<Rightarrow> bool" where
  "plain_error e \<longleftrightarrow> (case e of ValueErr _ \<Rightarrow> True | OverflowErr \<Rightarrow> True | ResolveErr \<Rightarrow> True | _ \<Rightarrow> False)"

lemma plain_errors [simp]:
  "canonical_resource env v = Inl e \<Longrightarrow> plain_error e"
  "coordination_scope env v cid = Inl e \<Longrightarrow> plain_error e"
  "fence_ttl env v = Inl e \<Longrightarrow> plain_error e"
proof -
  show c: "canonical_resource env v = Inl e \<Longrightarrow> plain_error e" for v e
    by (auto simp: canonical_resource_def plain_error_def Let_def split: pyval.splits if_splits option.splits)
  show "coordination_scope env v cid = Inl e \<Longrightarrow> plain_error e"
    using c by (auto simp: coordination_scope_def plain_error_def Let_def bindr_Inl_iff
        split: coord.splits pyval.splits if_splits option.splits)
  show "fence_ttl env v = Inl e \<Longrightarrow> plain_error e"
  proof -
    assume ttl: "fence_ttl env v = Inl e"
    have pe: "plain_error (ValueErr m)" for m by (simp add: plain_error_def)
    have fl: "py_float env v = Inl e' \<Longrightarrow> plain_error e'" for e'
      by (auto simp: py_float_def plain_error_def split: pyval.splits if_splits option.splits)
    show ?thesis
    proof (cases "py_float env v")
      case (Inl e')
      then show ?thesis using ttl fl pe by (cases v) (auto simp: fence_ttl_def)
    next
      case (Inr f)
      then show ?thesis using ttl pe by (cases v; cases f) (auto simp: fence_ttl_def split: if_splits)
    qed
  qed
qed

lemma assert_attempt_Inl: "assert_attempt db now att = Inl e \<Longrightarrow> \<exists>m. e = LeaseLost m"
  by (auto simp: assert_attempt_def split: option.splits if_splits)

lemma acquire_InlE:
  assumes "acquire env clock now' uid resource owner_id paths ttl_seconds att cid db = Inl e" "\<not> plain_error e"
  obtains now expires_at root_id scope_id owner scope
  where "clock = Fin now" "normalize_paths paths = Some scope"
    "acquire_tx now now' expires_at uid root_id scope_id owner scope att db = Inl e"
proof -
  have pe: "plain_error (ValueErr m)" for m by (simp add: plain_error_def)
  obtain ow where ow: "owner_id = PStr ow"
    using assms pe by (cases owner_id) (auto simp: acquire_def)
  have own: "\<not> (py_strip ow = [] \<or> nul \<in> set (py_strip ow))"
    using assms pe by (auto simp: acquire_def ow Let_def)
  obtain scope where sc: "normalize_paths paths = Some scope"
    using assms pe own by (cases "normalize_paths paths") (auto simp: acquire_def ow Let_def)
  obtain root_id0 where rt: "canonical_resource env resource = Inr root_id0"
    using assms own sc by (cases "canonical_resource env resource") (auto simp: acquire_def ow Let_def)
  define pr where "pr = (if cid = Unset \<and> wa_scope att \<noteq> [] then Inr (root_id0, wa_scope att)
                  else coordination_scope env resource cid)"
  obtain root_id scope_id where pr: "pr = Inr (root_id, scope_id)"
    using assms own sc rt by (cases pr) (auto simp: acquire_def ow Let_def pr_def split: if_splits)
  obtain now where now: "clock = Fin now"
    using assms pe own sc rt pr by (cases clock) (auto simp: acquire_def ow Let_def pr_def split del: if_split)
  obtain t where "fence_ttl env ttl_seconds = Inr t"
    using assms own sc rt pr now by (cases "fence_ttl env ttl_seconds") (auto simp: acquire_def ow Let_def pr_def)
  then show ?thesis
    using assms own sc rt pr now that [OF now sc] by (simp add: acquire_def ow Let_def pr_def)
qed

section \<open>Properties\<close>

text \<open>A run of two operations, for the concrete instances.\<close>

definition demo_env :: fence_env where
  "demo_env = \<lparr>fe_resolve = Some, fe_float = (\<lambda>_. None)\<rparr>"

definition demo_attempt :: attempt_fence where
  "demo_attempt = \<lparr>wa_resource = ''/repo'', wa_work = ''w1'', wa_id = ''a1'', wa_owner = ''alice'',
     wa_token = 1, wa_expires = 70, wa_scope = ''/repo''\<rparr>"

definition demo_lease :: fencing_lease where
  "demo_lease = \<lparr>ls_resource = ''/repo'', ls_id = ''l1'', ls_owner = ''alice'', ls_token = 1,
     ls_expires = 41, ls_paths = [''src/a''], ls_attempt = ''a1'', ls_attempt_token = 1, ls_scope = ''/repo''\<rparr>"

definition demo_claim :: fence_op where
  "demo_claim = ClaimAttempt 10 ''a1'' (PStr ''/repo'') (PStr ''w1'') (PStr ''alice'') (PFloat (Fin 60)) Unset"

definition demo_acquire :: fence_op where
  "demo_acquire = Acquire (Fin 11) 11 ''l1'' (PStr ''/repo'') (PStr ''alice'') (PList [PStr ''src/a''])
     (PFloat (Fin 30)) demo_attempt Unset"

abbreviation "demo_row \<equiv> hd (fd_leases (fence_run demo_env [demo_claim, demo_acquire]))"

text \<open>
  C7. In every reachable database, two active leases of one scope that both cover some path are the
  same lease: no two writers hold overlapping scopes.
\<close>

theorem fence_leases_exclusive:
  assumes "r \<in> set (fd_leases (fence_run env ops))" and "s \<in> set (fd_leases (fence_run env ops))"
    and "fl_active r" and "fl_active s" and "fl_scope r = fl_scope s"
    and "path_covered (lease_scope_paths r) w" and "path_covered (lease_scope_paths s) w"
  shows "r = s"
  using assms by (rule active_clash_free)

theorem fence_leases_exclusive_witness:
  "demo_row \<in> set (fd_leases (fence_run demo_env [demo_claim, demo_acquire])) \<and> fl_active demo_row \<and>
   path_covered (lease_scope_paths demo_row) ''src/a/x.py'' \<and> demo_row = demo_row"
proof -
  have "demo_row \<in> set (fd_leases (fence_run demo_env [demo_claim, demo_acquire]))"
    and "fl_active demo_row" and "path_covered (lease_scope_paths demo_row) ''src/a/x.py''"
    by code_simp+
  then show ?thesis
    using fence_leases_exclusive [of demo_row demo_env "[demo_claim, demo_acquire]" demo_row "''src/a/x.py''"]
    by simp
qed

text \<open>
  Two leases that both pass \<open>_assert_current\<close> for the same write path in the same scope, at
  whatever times, are the same lease.
\<close>

theorem fence_write_exclusive:
  assumes "assert_current (fence_run env ops) t1 L (PList [PStr w]) = Inr ()"
    and "assert_current (fence_run env ops) t2 M (PList [PStr w]) = Inr ()"
    and "or_else (ls_scope L) (ls_resource L) = or_else (ls_scope M) (ls_resource M)"
  shows "ls_id L = ls_id M"
proof -
  obtain r where r: "r \<in> set (fd_leases (fence_run env ops))" "fl_id r = ls_id L" "fl_active r"
    "fl_scope r = or_else (ls_scope L) (ls_resource L)" "path_covered (lease_scope_paths r) (path_key w)"
    using assms(1) by (rule current_lease_row)
  obtain s where s: "s \<in> set (fd_leases (fence_run env ops))" "fl_id s = ls_id M" "fl_active s"
    "fl_scope s = or_else (ls_scope M) (ls_resource M)" "path_covered (lease_scope_paths s) (path_key w)"
    using assms(2) by (rule current_lease_row)
  have "r = s" using active_clash_free r s assms(3) by metis
  then show ?thesis using r(2) s(2) by simp
qed

theorem fence_write_exclusive_witness:
  "assert_current (fence_run demo_env [demo_claim, demo_acquire]) 12 demo_lease (PList [PStr ''src/a/x.py'']) = Inr () \<and>
   assert_current (fence_run demo_env [demo_claim, demo_acquire]) 13 (demo_lease\<lparr>ls_scope := []\<rparr>)
     (PList [PStr ''src/a/x.py'']) = Inr () \<and>
   ls_id demo_lease = ls_id (demo_lease\<lparr>ls_scope := []\<rparr>)"
proof -
  have 1: "assert_current (fence_run demo_env [demo_claim, demo_acquire]) 12 demo_lease (PList [PStr ''src/a/x.py'']) = Inr ()"
    and 2: "assert_current (fence_run demo_env [demo_claim, demo_acquire]) 13 (demo_lease\<lparr>ls_scope := []\<rparr>)
     (PList [PStr ''src/a/x.py'']) = Inr ()"
    and 3: "or_else (ls_scope demo_lease) (ls_resource demo_lease) =
      or_else (ls_scope (demo_lease\<lparr>ls_scope := []\<rparr>)) (ls_resource (demo_lease\<lparr>ls_scope := []\<rparr>))"
    by code_simp+
  show ?thesis using 1 2 fence_write_exclusive [OF 1 2 3] by blast
qed

text \<open>
  C8. A lease that was released, expired or superseded (its row is inactive) never writes again:
  after any further operations \<open>commit_guard\<close> raises before the protected body runs, so the world
  is untouched.
\<close>

theorem dead_lease_never_writes:
  assumes "r \<in> set (fd_leases (fence_run env ops))" and "\<not> fl_active r" and "ls_id L = fl_id r"
  shows "\<exists>e. commit_guard t t' L paths body (fence_run env (ops @ ops')) w = (w, Inl e)"
proof -
  have "\<exists>e. assert_current (fence_run env (ops @ ops')) t L paths = Inl e"
    using inactive_lease_not_current [OF refl assms(1,2), of "fence_run env (ops @ ops')" ops' t L paths] assms(3)
    by (simp add: fence_run_def)
  then show ?thesis by (auto simp: commit_guard_def)
qed

theorem dead_lease_never_writes_witness:
  "\<exists>e. commit_guard 12 12 demo_lease (PList [PStr ''src/a'']) (\<lambda>w. (w + 1, Inr ()))
        (fence_run demo_env ([demo_claim, demo_acquire, Release demo_lease] @ [demo_acquire])) (0::int) = (0, Inl e)"
  by (rule dead_lease_never_writes [of "hd (fd_leases (fence_run demo_env [demo_claim, demo_acquire, Release demo_lease]))"])
     code_simp+

text \<open>
  Once a work order's attempt \<open>A\<close> has been followed by a newer claim \<open>B\<close> of the same work order
  in the same scope, \<open>B\<close>'s fencing token is larger, and \<open>attempt_guard\<close> refuses \<open>A\<close> for ever: its
  body never runs again.
\<close>

theorem superseded_attempt_never_writes:
  assumes "claim_attempt env t1 u1 res1 w1 o1 ttl1 c1 (fence_run env ops) = Inr (db1, A)"
    and "claim_attempt env t2 u2 res2 w2 o2 ttl2 c2 (foldl (fence_exec env) db1 ops1) = Inr (db2, B)"
    and "wa_scope A = wa_scope B" and "wa_work A = wa_work B"
  shows "wa_token A < wa_token B \<and>
         (\<exists>e. attempt_guard t A body (foldl (fence_exec env) db2 ops2) w = (w, Inl e))"
proof -
  define opsA where "opsA = ops @ [ClaimAttempt t1 u1 res1 w1 o1 ttl1 c1]"
  have db1: "db1 = fence_run env opsA"
    using assms(1) by (simp add: opsA_def fence_run_snoc [symmetric] committed_def)
  define db1' where "db1' = foldl (fence_exec env) db1 ops1"
  have db1': "db1' = fence_run env (opsA @ ops1)" by (simp add: db1'_def db1 fence_run_def)
  note claim2 = assms(2) [folded db1'_def]
  have db2: "db2 = fence_run env ((opsA @ ops1) @ [ClaimAttempt t2 u2 res2 w2 o2 ttl2 c2])"
    using claim2 by (simp only: db1' fence_run_snoc [symmetric]) (simp add: committed_def)
  let ?k = "attempt_counter_key (wa_scope A) (wa_work A)"
  have "wa_token A = counter_value ?k db1" using claim_attempt_facts(2) [OF assms(1)] by simp
  also have "\<dots> \<le> counter_value ?k db1'"
    unfolding db1'_def db1 using fence_run_inv by (rule fence_tokens.rank_run)
  also have "\<dots> < wa_token B" using claim_attempt_facts(3) [OF claim2] assms(3,4) by simp
  finally have tok: "wa_token A < wa_token B" .
  obtain r where r: "r \<in> set (fd_attempts db1)" "at_id r = wa_id A" "at_scope r = wa_scope A" "at_work r = wa_work A"
    using claim_attempt_facts(1) [OF assms(1)] by blast
  obtain r' where r': "r' \<in> set (fd_attempts db1')" "attempt_follows r r'"
    using fence_run_ext [of db1 env ops1] r(1) by (auto simp: db1'_def fence_ext_def rows_follow_def)
  have same: "at_scope r' = wa_scope B" "at_work r' = wa_work B" "at_id r' = wa_id A"
    using r' r assms(3,4) by (simp_all add: attempt_follows_def)
  obtain q where q: "q \<in> set (fd_attempts db2)" "at_id q = wa_id A" "\<not> at_active q"
    using new_epoch_ends_old [OF db1' claim2 r'(1) same(1,2)] same(3) by auto
  have "\<exists>e. assert_attempt (foldl (fence_exec env) db2 ops2) t A = Inl e"
    using inactive_attempt_not_current [OF db2 q(1,3) refl] q(2) by simp
  then show ?thesis using tok by (auto simp: attempt_guard_def)
qed

lemma Inl_projl: "isl x \<Longrightarrow> projl x = e \<Longrightarrow> x = Inl e"
  by (cases x) auto

lemma Inr_projr: "\<not> isl x \<Longrightarrow> x = Inr (fst (projr x), snd (projr x))"
  by (cases x) auto

abbreviation "demo_claim_at t u db \<equiv>
  claim_attempt demo_env t u (PStr ''/repo'') (PStr ''w1'') (PStr ''alice'') (PFloat (Fin 60)) Unset db"

theorem superseded_attempt_never_writes_witness:
  "\<exists>db1 A db2 B. demo_claim_at 10 ''a1'' (fence_run demo_env []) = Inr (db1, A) \<and>
     demo_claim_at 100 ''a2'' (foldl (fence_exec demo_env) db1 []) = Inr (db2, B) \<and>
     wa_token A < wa_token B \<and>
     (\<exists>e. attempt_guard 101 A (\<lambda>w. (w + 1, Inr ())) (foldl (fence_exec demo_env) db2 []) (0::int) = (0, Inl e))"
proof -
  let ?x = "demo_claim_at 10 ''a1'' (fence_run demo_env [])"
  let ?y = "demo_claim_at 100 ''a2'' (foldl (fence_exec demo_env) (fst (projr ?x)) [])"
  have x: "?x = Inr (fst (projr ?x), snd (projr ?x))" by (rule Inr_projr) code_simp
  have y: "?y = Inr (fst (projr ?y), snd (projr ?y))" by (rule Inr_projr) code_simp
  have sc: "wa_scope (snd (projr ?x)) = wa_scope (snd (projr ?y))"
    and wk: "wa_work (snd (projr ?x)) = wa_work (snd (projr ?y))" by code_simp+
  show ?thesis
    using superseded_attempt_never_writes [OF x y sc wk, of 101 "\<lambda>w. (w + 1, Inr ())" "[]" "0::int"] x y by blast
qed

text \<open>
  Fencing tokens of one scope strictly increase: a lease acquired later, after any operations in
  between, has a larger token than one acquired before.
\<close>

theorem fence_tokens_increase:
  assumes "acquire env c1 n1 u1 res1 ow1 ps1 ttl1 A1 cid1 (fence_run env ops) = Inr (db1, L1)"
    and "acquire env c2 n2 u2 res2 ow2 ps2 ttl2 A2 cid2 (foldl (fence_exec env) db1 ops1) = Inr (db2, L2)"
    and "ls_scope L1 = ls_scope L2"
  shows "ls_token L1 < ls_token L2"
proof -
  have "ls_token L1 = counter_value (ls_scope L1) db1" using acquire_facts(1) [OF assms(1)] by simp
  also have "\<dots> \<le> counter_value (ls_scope L1) (foldl (fence_exec env) db1 ops1)"
    using acquire_inv [OF fence_run_inv assms(1)] by (rule fence_tokens.rank_run)
  also have "\<dots> < ls_token L2" using acquire_facts(2) [OF assms(2)] assms(3) by simp
  finally show ?thesis .
qed

abbreviation "demo_acquire_at t u path db \<equiv>
  acquire demo_env (Fin t) t u (PStr ''/repo'') (PStr ''alice'') (PList [PStr path]) (PFloat (Fin 30)) demo_attempt Unset db"

theorem fence_tokens_increase_witness:
  "\<exists>db1 L1 db2 L2. demo_acquire_at 11 ''l1'' ''src/a'' (fence_run demo_env [demo_claim]) = Inr (db1, L1) \<and>
     demo_acquire_at 12 ''l2'' ''src/b'' (foldl (fence_exec demo_env) db1 []) = Inr (db2, L2) \<and>
     ls_token L1 < ls_token L2"
proof -
  let ?x = "demo_acquire_at 11 ''l1'' ''src/a'' (fence_run demo_env [demo_claim])"
  let ?y = "demo_acquire_at 12 ''l2'' ''src/b'' (foldl (fence_exec demo_env) (fst (projr ?x)) [])"
  have x: "?x = Inr (fst (projr ?x), snd (projr ?x))" by (rule Inr_projr) code_simp
  have y: "?y = Inr (fst (projr ?y), snd (projr ?y))" by (rule Inr_projr) code_simp
  have sc: "ls_scope (snd (projr ?x)) = ls_scope (snd (projr ?y))" by code_simp
  show ?thesis using fence_tokens_increase [OF x y sc] x y by blast
qed

text \<open>
  \<open>acquire\<close> turns a writer away as busy only for a reason: some unexpired active lease of the
  scope (or of the bare repository) overlaps the requested paths.  In particular a corrupt scope
  is never met, and disjoint scopes are never refused.
\<close>

theorem acquire_busy_only_on_overlap:
  assumes "acquire env (Fin now) now' uid resource owner_id paths ttl_seconds att cid (fence_run env ops)
             = Inl (LeaseUnavailable m)"
  shows "\<exists>scope. normalize_paths paths = Some scope \<and>
           (\<exists>r \<in> set (fd_leases (fence_run env ops)).
              fl_active r \<and> now < fl_expires r \<and> overlaps scope (lease_scope_paths r))"
proof -
  let ?db = "fence_run env ops"
  obtain expires_at root_id scope_id owner scope where scope: "normalize_paths paths = Some scope"
    and tx: "acquire_tx now now' expires_at uid root_id scope_id owner scope att ?db = Inl (LeaseUnavailable m)"
    using assms by (rule acquire_InlE) (simp_all add: plain_error_def)
  define rows where "rows = expire_leases now root_id scope_id ?db"
  define live where "live = filter (\<lambda>r. in_fence_scope scope_id root_id (fl_scope r) (fl_resource r) \<and>
                             fl_active r \<and> now < fl_expires r) rows"
  have "check_live scope live = Inl (LeaseUnavailable m)"
    using tx by (auto simp: acquire_tx_def Let_def bindr_Inl_iff live_def rows_def dest: assert_attempt_Inl)
  moreover have "lease_table_ok (fd_counters ?db) rows"
    unfolding rows_def using fence_run_leases by (rule expire_leases_ok)
  then have "\<forall>r \<in> set live. decoded_scope r \<noteq> None"
    unfolding lease_table_ok_def live_def by simp
  ultimately obtain r where r: "r \<in> set live" "overlaps scope (lease_scope_paths r)"
    using check_live_Inl by blast
  have "\<exists>s \<in> set (fd_leases ?db). r = s"
    using r(1) by (auto simp: live_def rows_def expire_leases_def Let_def elim!: in_update_whereE split: if_splits)
  then show ?thesis using r scope by (auto simp: live_def)
qed

theorem acquire_busy_only_on_overlap_witness:
  "\<exists>scope. normalize_paths (PList [PStr ''src'']) = Some scope \<and>
     (\<exists>r \<in> set (fd_leases (fence_run demo_env [demo_claim, demo_acquire])).
        fl_active r \<and> 12 < fl_expires r \<and> overlaps scope (lease_scope_paths r))"
proof -
  have "demo_acquire_at 12 ''l2'' ''src'' (fence_run demo_env [demo_claim, demo_acquire])
      = Inl (LeaseUnavailable ''an active writer owns an overlapping path scope'')"
    by (rule Inl_projl) code_simp+
  then show ?thesis by (rule acquire_busy_only_on_overlap)
qed

text \<open>
  The primary keys, the \<open>UNIQUE(resource, work_id, fencing_token)\<close> constraint and the \<open>CHECK\<close>
  constraints of the schema are never violated by a claim, unless \<open>uuid4\<close> repeats an id.
\<close>

theorem claim_attempt_constraints:
  assumes "claim_attempt env now uid resource work_id owner_id ttl_seconds cid (fence_run env ops) = Inl IntegrityErr"
  shows "uid \<in> set (map at_id (fd_attempts (fence_run env ops)))"
proof -
  let ?db = "fence_run env ops"
  have pe: "\<not> plain_error IntegrityErr" by (simp add: plain_error_def)
  obtain ex root_id scope_id work owner where
    tx: "claim_attempt_tx now ex uid root_id scope_id work owner ?db = Inl IntegrityErr"
    using assms pe plain_errors(2) [of env _ _ IntegrityErr] plain_errors(3) [of env _ IntegrityErr]
    by (auto simp: claim_attempt_def Let_def bindr_Inl_iff split: pyval.splits prod.splits)
  define mine where "mine = (\<lambda>r::attempt_row. in_fence_scope scope_id root_id (at_scope r) (at_resource r) \<and>
                      at_work r = work \<and> at_active r)"
  define rows where "rows = update_where (\<lambda>r. mine r \<and> at_expires r \<le> now) (\<lambda>r. r\<lparr>at_active := False\<rparr>) (fd_attempts ?db)"
  define key where "key = attempt_counter_key scope_id work"
  define top where "top = sql_max (map at_token (filter (\<lambda>r. at_resource r = root_id \<and> at_work r = work) rows))"
  define token where "token = next_token (fd_counters ?db key) top"
  have "0 < token"
    unfolding token_def using fence_run_inv by (intro next_token_gt(3)) (auto simp: fence_inv_def ran_def)
  moreover have "(root_id, work, token) \<notin> set (map (\<lambda>r. (at_resource r, at_work r, at_token r)) rows)"
  proof
    assume "(root_id, work, token) \<in> set (map (\<lambda>r. (at_resource r, at_work r, at_token r)) rows)"
    then have mem: "token \<in> set (map at_token (filter (\<lambda>r. at_resource r = root_id \<and> at_work r = work) rows))"
      by auto
    then have "map at_token (filter (\<lambda>r. at_resource r = root_id \<and> at_work r = work) rows) \<noteq> []"
      by (metis empty_iff list.set(1))
    then obtain m where m: "top = Some m" unfolding top_def using sql_max_None by blast
    then have "token \<le> m" using mem unfolding top_def by (rule sql_max_ge)
    then show False using next_token_gt(2) [OF m] unfolding token_def by (meson not_le)
  qed
  ultimately have "uid \<in> set (map at_id rows)"
    using tx by (auto simp: claim_attempt_tx_def Let_def bindr_Inl_iff mine_def rows_def key_def top_def token_def)
  then show ?thesis by (simp add: rows_def map_update_where del: set_map)
qed

theorem claim_attempt_constraints_witness:
  "''a1'' \<in> set (map at_id (fd_attempts (fence_run demo_env [demo_claim])))"
proof -
  have "claim_attempt demo_env 11 ''a1'' (PStr ''/repo'') (PStr ''w2'') (PStr ''bob'') (PFloat (Fin 60)) Unset
          (fence_run demo_env [demo_claim]) = Inl IntegrityErr"
    by (rule Inl_projl) code_simp+
  then show ?thesis by (rule claim_attempt_constraints)
qed

text \<open>
  What \<open>acquire\<close> returns is good: while the lease has not expired and its attempt is current, the
  returned lease passes \<open>_assert_current\<close> for every path it was acquired for.
\<close>

theorem acquired_lease_is_current:
  assumes "acquire env clock now' uid resource owner_id paths ttl_seconds att cid (fence_run env ops) = Inr (db', L)"
    and "p \<in> set (ls_paths L)" and "t < ls_expires L" and "wa_id att \<noteq> []"
    and "assert_attempt (fence_run env ops) t att = Inr ()"
  shows "assert_current db' t L (PList [PStr p]) = Inr ()"
proof -
  let ?db = "fence_run env ops"
  obtain now ttl root_id scope_id owner scope where scope: "normalize_paths paths = Some scope"
    and tx: "acquire_tx now now' (now + ttl) uid root_id scope_id owner scope att ?db = Inr (db', L)"
    using assms(1) by (rule acquire_InrE)
  define rows where "rows = expire_leases now root_id scope_id ?db"
  have at: "wa_resource att = root_id" "or_else (wa_scope att) (wa_resource att) = scope_id"
    and new: "uid \<notin> set (map fl_id rows)"
    using tx by (auto simp: acquire_tx_def Let_def rows_def simp del: set_map)
  have L: "ls_resource L = root_id" "ls_id L = uid" "ls_owner L = owner" "ls_expires L = now + ttl"
      "ls_paths L = scope" "ls_attempt L = wa_id att" "ls_attempt_token L = wa_token att" "ls_scope L = scope_id"
    using tx by (auto simp: acquire_tx_def Let_def)
  have db': "fd_leases db' = rows @ [\<lparr>fl_id = uid, fl_resource = root_id, fl_owner = owner,
      fl_token = ls_token L, fl_expires = now + ttl, fl_paths_json = Some (PList (map PStr scope)),
      fl_attempt = wa_id att, fl_attempt_token = wa_token att, fl_scope = scope_id, fl_active = True, fl_work = []\<rparr>]"
      "fd_attempts db' = fd_attempts ?db"
    using tx by (auto simp: acquire_tx_def Let_def rows_def)
  have "find (\<lambda>r. fl_id r = uid) rows = None" using new by (auto simp: find_None_iff)
  then have row: "find (\<lambda>r. fl_id r = ls_id L) (fd_leases db') = Some (last (fd_leases db'))"
    by (simp add: db' L find_append_None)
  obtain a where a: "find (\<lambda>a. at_id a = wa_id att) (fd_attempts ?db) = Some a" "at_resource a = root_id"
      "at_scope a = scope_id" "at_token a = wa_token att" "at_active a" "t < at_expires a"
    using assms(5) at by (auto simp: assert_attempt_def split: option.splits if_splits)
  then have "0 < wa_token att"
    using fence_run_attempts [of env ops] by (auto simp: attempt_table_ok_def dest!: find_SomeD)
  have p: "path_key p = p" "is_safe_lease_path (PStr p)"
    using normalize_paths_elem [OF scope] assms(2) by (simp_all add: L)
  then have "normalize_paths (PList [PStr p]) = Some [p]"
    by (simp add: normalize_paths_def sorted_set_def)
  moreover have "path_covered (map path_key (ls_paths L)) p"
    using p(1) assms(2) by (auto simp: path_covered_iff intro!: bexI [of _ p])
  moreover have "or_else (ls_scope L) (ls_resource L) = scope_id"
    using at by (auto simp: L or_else_def split: if_splits)
  ultimately show ?thesis
    using row a \<open>0 < wa_token att\<close> assms(3,4) p(1)
    by (simp add: assert_current_def Let_def db' L json_tuple_def sorted_set_def)
qed

theorem acquired_lease_is_current_witness:
  "\<exists>db1 L. demo_acquire_at 11 ''l1'' ''src/a'' (fence_run demo_env [demo_claim]) = Inr (db1, L) \<and>
     assert_current db1 40 L (PList [PStr ''src/a'']) = Inr ()"
proof -
  let ?x = "demo_acquire_at 11 ''l1'' ''src/a'' (fence_run demo_env [demo_claim])"
  have x: "?x = Inr (fst (projr ?x), snd (projr ?x))" by (rule Inr_projr) code_simp
  have h: "''src/a'' \<in> set (ls_paths (snd (projr ?x)))" "40 < ls_expires (snd (projr ?x))"
    "wa_id demo_attempt \<noteq> []" "assert_attempt (fence_run demo_env [demo_claim]) 40 demo_attempt = Inr ()"
    by code_simp+
  show ?thesis using acquired_lease_is_current [OF x h] x by blast
qed

end
