(* ===== verification/Graph_Cycles.thy ===== *)
theory Graph_Cycles
  imports Hub_Prelude
begin

text \<open>
  Facts about depth-first search shared by the two cycle detectors of the program: the wait-for
  graph of \<open>leases.py\<close> and the task dependencies of \<open>repo_plan/schema_validation.py\<close>.  A graph is
  its successor function; a set of nodes is settled when no edge leaves it and it holds no cycle.
\<close>

definition edge_rel :: "('a \<Rightarrow> 'a list) \<Rightarrow> ('a \<times> 'a) set" where
  "edge_rel succ = {(u, v). v \<in> set (succ u)}"

definition settled :: "('a \<Rightarrow> 'a list) \<Rightarrow> 'a set \<Rightarrow> bool" where
  "settled succ F \<longleftrightarrow> (\<forall>u \<in> F. set (succ u) \<subseteq> F) \<and> (\<forall>u \<in> F. (u, u) \<notin> (edge_rel succ)\<^sup>+)"

fun chain :: "('a \<Rightarrow> 'a list) \<Rightarrow> 'a list \<Rightarrow> bool" where
  "chain succ (x # y # r) \<longleftrightarrow> y \<in> set (succ x) \<and> chain succ (y # r)"
| "chain succ _ \<longleftrightarrow> True"

definition is_cycle :: "('a \<Rightarrow> 'a list) \<Rightarrow> 'a list \<Rightarrow> bool" where
  "is_cycle succ cyc \<longleftrightarrow> 2 \<le> length cyc \<and> hd cyc = last cyc \<and> chain succ cyc"

lemma edge_rel_iff [simp]: "(u, v) \<in> edge_rel succ \<longleftrightarrow> v \<in> set (succ u)"
  by (simp add: edge_rel_def)

lemma settled_empty [simp]: "settled succ {}"
  by (simp add: settled_def)

lemma settled_reach:
  assumes "settled succ F" "u \<in> F" "(u, v) \<in> (edge_rel succ)\<^sup>*"
  shows "v \<in> F"
  using assms(3,2) assms(1) by (induction rule: rtrancl_induct) (auto simp: settled_def)

lemma settled_insert:
  assumes F: "settled succ F" and sub: "set (succ u) \<subseteq> F" and new: "u \<notin> F"
  shows "settled succ (insert u F)"
proof -
  have "(u, u) \<notin> (edge_rel succ)\<^sup>+"
  proof
    assume "(u, u) \<in> (edge_rel succ)\<^sup>+"
    then obtain v where "(u, v) \<in> edge_rel succ" "(v, u) \<in> (edge_rel succ)\<^sup>*"
      by (auto dest: tranclD)
    then have "u \<in> F" using sub F settled_reach by fastforce
    then show False using new by simp
  qed
  then show ?thesis using F sub by (auto simp: settled_def)
qed

lemma settled_acyclic: "settled succ F \<Longrightarrow> u \<in> F \<Longrightarrow> (u, u) \<notin> (edge_rel succ)\<^sup>+"
  by (simp add: settled_def)

lemma chain_append: "chain succ (xs @ [x]) \<Longrightarrow> y \<in> set (succ x) \<Longrightarrow> chain succ (xs @ [x, y])"
  by (induction succ xs rule: chain.induct) (auto split: list.splits)

lemma chain_drop: "chain succ xs \<Longrightarrow> chain succ (drop n xs)"
proof (induction n arbitrary: xs)
  case (Suc n)
  then show ?case by (cases xs rule: remdups_adj.cases) auto
qed simp

lemma chain_reach: "chain succ (x # xs) \<Longrightarrow> y \<in> set (x # xs) \<Longrightarrow> (x, y) \<in> (edge_rel succ)\<^sup>*"
proof (induction xs arbitrary: x)
  case (Cons z zs)
  then have "z \<in> set (succ x)" "y = x \<or> (z, y) \<in> (edge_rel succ)\<^sup>*" by auto
  then show ?case by (auto intro: converse_rtrancl_into_rtrancl)
qed simp

lemma is_cycle_trancl:
  assumes "is_cycle succ cyc" shows "(hd cyc, hd cyc) \<in> (edge_rel succ)\<^sup>+"
proof -
  obtain x y r where cyc: "cyc = x # y # r"
    using assms by (cases cyc rule: remdups_adj.cases) (auto simp: is_cycle_def)
  then have "(x, y) \<in> edge_rel succ" "(y, last (y # r)) \<in> (edge_rel succ)\<^sup>*"
    using assms chain_reach [of succ y r] by (auto simp: is_cycle_def)
  moreover have "last (y # r) = x" using assms cyc by (auto simp: is_cycle_def)
  ultimately show ?thesis using cyc by (metis list.sel(1) rtrancl_into_trancl2)
qed

text \<open>The cycle a search reports: from the repeated node's place on the path, back to it.\<close>

lemma back_edge_cycle:
  assumes path: "chain succ (xs @ [x])" and edge: "y \<in> set (succ x)" and i: "i < length (xs @ [x])" "(xs @ [x]) ! i = y"
  shows "is_cycle succ (drop i (xs @ [x]) @ [y])"
proof -
  have ne: "drop i (xs @ [x]) \<noteq> []" using i(1) by simp
  have "hd (drop i (xs @ [x])) = y" using i by (metis hd_drop_conv_nth)
  then have "hd (drop i (xs @ [x]) @ [y]) = last (drop i (xs @ [x]) @ [y])"
    unfolding hd_append2 [OF ne] by simp
  moreover have "chain succ (drop i (xs @ [x, y]))"
    using chain_append [OF path edge] by (rule chain_drop)
  moreover have "drop i (xs @ [x, y]) = drop i (xs @ [x]) @ [y]"
    using i(1) by simp
  moreover have "2 \<le> length (drop i (xs @ [x]) @ [y])" using ne i(1) by simp
  ultimately show ?thesis unfolding is_cycle_def by metis
qed

definition position :: "'a \<Rightarrow> 'a list \<Rightarrow> nat" where
  "position x xs = length (takeWhile (\<lambda>y. y \<noteq> x) xs)"

lemma position_nth: "x \<in> set xs \<Longrightarrow> position x xs < length xs \<and> xs ! position x xs = x"
  unfolding position_def
  by (induction xs) auto

lemma back_edge_position:
  assumes "chain succ (xs @ [x])" "y \<in> set (succ x)" "y \<in> set (xs @ [x])"
  shows "is_cycle succ (drop (position y (xs @ [x])) (xs @ [x]) @ [y])"
  using position_nth [OF assms(3)] by (intro back_edge_cycle [OF assms(1,2)]) simp_all

end
