(* ===== verification/Scope_Leases.thy ===== *)
theory Scope_Leases
  imports Path_Scopes Graph_Cycles
begin

text \<open>
  The advisory scope leases of \<open>leases.py\<close> (\<open>ScopeLeaseStore\<close>): tables \<open>leases\<close> and
  \<open>lease_waits\<close>, one operation per transaction.  The clock and \<open>uuid4().hex\<close> are arguments;
  \<open>canonical_root\<close> (a file-system resolution) and SHA-256 are the parameters \<open>lease_env\<close>.
\<close>

section \<open>Data\<close>

record lease_env =
  le_paths :: path_env
  le_canonical :: "string \<Rightarrow> string option"
  le_digest :: "string \<Rightarrow> string"

record scope_row =
  lr_id :: string
  lr_owner :: string
  lr_root :: string
  lr_root_path :: string
  lr_path :: string
  lr_purpose :: string
  lr_created :: seconds
  lr_expires :: seconds

record wait_row =
  lw_owner :: string
  lw_blocked_by :: string
  lw_root :: string
  lw_path :: string
  lw_updated :: seconds

record scope_db =
  sd_leases :: "scope_row list"
  sd_waits :: "wait_row list"

record conflict =
  cf_requested :: string
  cf_held :: string
  cf_owner :: string
  cf_lease :: string
  cf_purpose :: string
  cf_expires :: seconds

text \<open>The dictionaries \<open>claim\<close> returns; \<open>ClaimRaised\<close> is an exception that leaves it.\<close>

datatype claim_result =
    ClaimError string
  | ClaimDeadlock "string list" "conflict list"
  | ClaimBusy "conflict list"
  | Claimed string string "string list" seconds
  | ClaimRaised string

definition empty_scope_db :: scope_db where
  "empty_scope_db = \<lparr>sd_leases = [], sd_waits = []\<rparr>"

section \<open>Arguments\<close>

text \<open>\<open>not x or x != x.strip() or NUL in x\<close> for a string \<open>x\<close>, the check on owners and lease ids.\<close>

definition clean_str :: "pyval \<Rightarrow> string option" where
  "clean_str v =
     (case v of PStr s \<Rightarrow> if py_strip s \<noteq> [] \<and> s = py_strip s \<and> nul \<notin> set s then Some s else None
      | _ \<Rightarrow> None)"

definition is_canonical_coordination_id :: "pyval \<Rightarrow> bool" where
  "is_canonical_coordination_id v =
     (case v of PStr s \<Rightarrow> s \<noteq> [] \<and> s = py_strip s \<and> nul \<notin> set s \<and> length s \<le> 512 | _ \<Rightarrow> False)"

definition bounded_lease_ttl :: "pyval \<Rightarrow> int option" where
  "bounded_lease_ttl v =
     (case v of PInt i \<Rightarrow> if i < 1 then None else Some (max 30 (min i 7200)) | _ \<Rightarrow> None)"

text \<open>\<open>str(PureWindowsPath(root))\<close> and \<open>ntpath.normcase(ntpath.normpath(p))\<close>.\<close>

definition win_str :: "string \<Rightarrow> string" where
  "win_str p = (let (d, r, ps) = win_parse p in
     if d = [] \<and> r = [] \<and> ps = [] then ''.'' else d @ r @ join_with bslash ps)"

fun win_norm_comps :: "bool \<Rightarrow> string list \<Rightarrow> string list \<Rightarrow> string list" where
  "win_norm_comps rooted acc [] = acc"
| "win_norm_comps rooted acc (c # cs) =
     (if c = [] \<or> c = ''.'' then win_norm_comps rooted acc cs
      else if c = ''..'' then
        (if acc \<noteq> [] \<and> last acc \<noteq> ''..'' then win_norm_comps rooted (butlast acc) cs
         else if acc = [] \<and> rooted then win_norm_comps rooted acc cs
         else win_norm_comps rooted (acc @ [c]) cs)
      else win_norm_comps rooted (acc @ [c]) cs)"

definition win_normcase_normpath :: "string \<Rightarrow> string" where
  "win_normcase_normpath p =
     (let (d, r, rest) = win_splitroot (replace_char slash bslash p);
          cs = win_norm_comps (r \<noteq> []) [] (split_on bslash rest);
          cs' = (if d @ r = [] \<and> cs = [] then [''.''] else cs)
      in py_lower (replace_char slash bslash (d @ r @ join_with bslash cs')))"

text \<open>\<open>ScopeLeaseStore._root\<close>; \<open>None\<close> when \<open>canonical_root\<close> raises.\<close>

definition lease_root :: "lease_env \<Rightarrow> string \<Rightarrow> (string \<times> string) option" where
  "lease_root env base =
     (if win_is_absolute base
      then Some (win_str base, take 20 (le_digest env (win_normcase_normpath (win_str base))))
      else (case le_canonical env base of
              None \<Rightarrow> None
            | Some resolved \<Rightarrow> Some (resolved, take 20 (le_digest env resolved))))"

section \<open>The wait-for graph\<close>

text \<open>
  \<open>detect_cycle\<close>: the nested \<open>dfs\<close> threads \<open>visited\<close> and \<open>stack\<close>; \<open>dfs_edges\<close> is its loop over the
  successors.  The fuel bounds the recursion depth, the outer \<open>None\<close> is running out of it.
\<close>

function dfs_node :: "nat \<Rightarrow> ('a \<Rightarrow> 'a list) \<Rightarrow> 'a list \<Rightarrow> 'a list \<Rightarrow> 'a \<Rightarrow> ('a list \<times> 'a list option) option"
  and dfs_edges :: "nat \<Rightarrow> ('a \<Rightarrow> 'a list) \<Rightarrow> 'a list \<Rightarrow> 'a list \<Rightarrow> 'a list \<Rightarrow> ('a list \<times> 'a list option) option"
where
  "dfs_node 0 succ stack visited node = None"
| "dfs_node (Suc n) succ stack visited node =
     dfs_edges n succ (stack @ [node]) (node # visited) (succ node)"
| "dfs_edges n succ stack visited [] = Some (visited, None)"
| "dfs_edges n succ stack visited (nxt # rest) =
     (if nxt \<in> set stack then Some (visited, Some (drop (position nxt stack) stack @ [nxt]))
      else if nxt \<notin> set visited then
        (case dfs_node n succ stack visited nxt of
           None \<Rightarrow> None
         | Some (visited', Some cyc) \<Rightarrow> Some (visited', Some cyc)
         | Some (visited', None) \<Rightarrow> dfs_edges n succ stack visited' rest)
      else dfs_edges n succ stack visited rest)"
  by pat_completeness auto

termination
  by (relation "measures [\<lambda>x. case x of Inl (n, _) \<Rightarrow> n | Inr (n, _) \<Rightarrow> n,
                          \<lambda>x. case x of Inl _ \<Rightarrow> 0 | Inr (n, succ, st, vis, es) \<Rightarrow> Suc (length es)]") auto

definition detect_cycle :: "nat \<Rightarrow> ('a \<Rightarrow> 'a list) \<Rightarrow> 'a \<Rightarrow> 'a list option option" where
  "detect_cycle fuel succ start = map_option snd (dfs_node fuel succ [] [] start)"

text \<open>
  The graph of the recorded waits plus the edges of this request.  A Python set of strings has no
  fixed iteration order; the model fixes one, on which no property depends.
\<close>

definition wait_succ :: "(string \<times> string) list \<Rightarrow> string \<Rightarrow> string list" where
  "wait_succ edges u = remdups (map snd (filter (\<lambda>e. fst e = u) edges))"

definition wait_edges ::
  "wait_row list \<Rightarrow> string \<Rightarrow> string \<Rightarrow> conflict list \<Rightarrow> seconds \<Rightarrow> (string \<times> string) list" where
  "wait_edges waits root_id owner conflicts now =
     map (\<lambda>r. (lw_owner r, lw_blocked_by r)) (filter (\<lambda>r. lw_root r = root_id \<and> now - 3600 < lw_updated r) waits)
     @ map (\<lambda>b. (owner, b)) (remdups (filter (\<lambda>ow. ow \<noteq> []) (map cf_owner conflicts)))"

section \<open>\<open>claim\<close>\<close>

definition existing_rows ::
  "bool \<Rightarrow> string \<Rightarrow> string \<Rightarrow> string \<Rightarrow> string \<Rightarrow> scope_row list \<Rightarrow> scope_row list" where
  "existing_rows unset owner root_id physical_root_id root_path rows =
     filter (\<lambda>r. lr_owner r \<noteq> owner \<and>
                 (lr_root r = root_id \<or>
                  (\<not> unset \<and> lr_root r = physical_root_id \<and> lr_root_path r = root_path))) rows"

definition find_conflicts :: "bool \<Rightarrow> string list \<Rightarrow> scope_row list \<Rightarrow> conflict list" where
  "find_conflicts ci rels existing =
     concat (map (\<lambda>requested.
       map (\<lambda>r. \<lparr>cf_requested = requested, cf_held = lr_path r, cf_owner = lr_owner r,
                 cf_lease = lr_id r, cf_purpose = lr_purpose r, cf_expires = lr_expires r\<rparr>)
           (filter (\<lambda>r. overlap ci requested (lr_path r)) existing)) rels)"

text \<open>\<open>INSERT OR REPLACE INTO lease_waits\<close>\<close>

definition put_wait :: "wait_row list \<Rightarrow> wait_row \<Rightarrow> wait_row list" where
  "put_wait waits w =
     delete_where (\<lambda>x. lw_root x = lw_root w \<and> lw_owner x = lw_owner w \<and>
                       lw_blocked_by x = lw_blocked_by w \<and> lw_path x = lw_path w) waits @ [w]"

definition claim_tx ::
  "seconds \<Rightarrow> int \<Rightarrow> string \<Rightarrow> string \<Rightarrow> string \<Rightarrow> string \<Rightarrow> string \<Rightarrow> bool \<Rightarrow> bool \<Rightarrow> string list \<Rightarrow> string
     \<Rightarrow> scope_db \<Rightarrow> scope_db \<times> claim_result" where
  "claim_tx now ttl lease_id owner root_id physical_root_id root_path unset ci rels purpose db =
     (let leases = delete_where (\<lambda>r. lr_expires r \<le> now) (sd_leases db);
          waits = delete_where (\<lambda>w. lw_updated w \<le> now - 7200) (sd_waits db);
          existing = existing_rows unset owner root_id physical_root_id root_path leases;
          conflicts = find_conflicts ci rels existing in
      if conflicts \<noteq> [] then
        (let edges = wait_edges waits root_id owner conflicts now in
         case detect_cycle (length edges + 2) (wait_succ edges) owner of
           None \<Rightarrow> (db, ClaimRaised ''fuel'')
         | Some (Some cyc) \<Rightarrow> (db, ClaimDeadlock cyc conflicts)
         | Some None \<Rightarrow>
             (\<lparr>sd_leases = leases,
               sd_waits = foldl put_wait waits
                 (map (\<lambda>c. \<lparr>lw_owner = owner, lw_blocked_by = cf_owner c, lw_root = root_id,
                            lw_path = cf_requested c, lw_updated = now\<rparr>) conflicts)\<rparr>,
              ClaimBusy conflicts))
      else if (\<exists>r \<in> set leases. lr_id r = lease_id \<and> lr_path r \<in> set rels)
      then (db, ClaimRaised ''IntegrityError'')
      else
        (\<lparr>sd_leases = leases @ map (\<lambda>p. \<lparr>lr_id = lease_id, lr_owner = owner, lr_root = root_id,
                                        lr_root_path = root_path, lr_path = p, lr_purpose = take 300 purpose,
                                        lr_created = now, lr_expires = now + of_int ttl\<rparr>) rels,
          sd_waits = delete_where (\<lambda>w. lw_owner w = owner \<and> lw_root w = root_id) waits\<rparr>,
         Claimed lease_id root_path rels (now + of_int ttl)))"

definition valid_lease_path_arg :: "pyval \<Rightarrow> bool" where
  "valid_lease_path_arg v = (case v of PStr s \<Rightarrow> py_strip s \<noteq> [] \<and> nul \<notin> set s | _ \<Rightarrow> False)"

text \<open>\<open>sorted({_norm_rel(str(p), root=root_path) for p in paths})\<close>, \<open>None\<close> when one raises.\<close>

definition norm_all :: "path_env \<Rightarrow> string \<Rightarrow> pyval list \<Rightarrow> string list option" where
  "norm_all env root_path ps =
     (let ns = map (\<lambda>v. case v of PStr s \<Rightarrow> norm_rel env s root_path | _ \<Rightarrow> None) ps in
      if None \<in> set ns then None else Some (sorted_set (map the ns)))"

definition claim ::
  "lease_env \<Rightarrow> seconds \<Rightarrow> string \<Rightarrow> pyval \<Rightarrow> pyval \<Rightarrow> pyval \<Rightarrow> pyval \<Rightarrow> pyval \<Rightarrow> coord \<Rightarrow> scope_db
     \<Rightarrow> scope_db \<times> claim_result" where
  "claim env now uid owner base paths ttl_seconds purpose cid db =
     (case clean_str owner of None \<Rightarrow> (db, ClaimError ''invalid owner'') | Some ow \<Rightarrow>
     (case clean_str base of None \<Rightarrow> (db, ClaimError ''invalid root'') | Some rt \<Rightarrow>
     (case (if valid_lease_path_arg purpose then Some purpose else None) of
        Some (PStr pu) \<Rightarrow>
     (case paths of
        PList ps \<Rightarrow>
          if ps = [] then (db, ClaimError ''paths must not be empty'')
          else if \<not> list_all valid_lease_path_arg ps then (db, ClaimError ''invalid lease path'')
          else if take 1 rt \<noteq> [slash] \<and> \<not> win_is_absolute rt
          then (db, ClaimError ''root must be an absolute repository root'')
          else (case lease_root env rt of
                  None \<Rightarrow> (db, ClaimRaised ''OSError'')
                | Some (root_path, physical_root_id) \<Rightarrow>
                    (case (case cid of
                             Unset \<Rightarrow> Inr physical_root_id
                           | Given v \<Rightarrow>
                               if v = PNone then Inl ''project coordination id is required''
                               else if \<not> is_canonical_coordination_id v then Inl ''invalid project coordination id''
                               else Inr (''project:'' @ (case v of PStr s \<Rightarrow> s | _ \<Rightarrow> []))) of
                       Inl e \<Rightarrow> (db, ClaimError e)
                     | Inr root_id \<Rightarrow>
                         (case norm_all (le_paths env) root_path ps of
                            None \<Rightarrow> (db, ClaimRaised ''ValueError'')
                          | Some rels \<Rightarrow>
                              (case bounded_lease_ttl ttl_seconds of
                                 None \<Rightarrow> (db, ClaimError ''ttl_seconds must be a positive integer'')
                               | Some ttl \<Rightarrow>
                                   claim_tx now ttl (''lease_'' @ take 20 uid) ow root_id physical_root_id
                                     root_path (cid = Unset) (win_is_absolute rt) rels pu db))))
      | _ \<Rightarrow> (db, ClaimError ''paths must be a sequence of path strings''))
      | _ \<Rightarrow> (db, ClaimError ''invalid purpose''))))"

section \<open>\<open>release\<close>, \<open>renew\<close>, \<open>reap_expired\<close>\<close>

text \<open>\<open>_release_matching(owner, lease_id)\<close>; the result is the number of rows released.\<close>

definition release_matching :: "string \<Rightarrow> string option \<Rightarrow> scope_db \<Rightarrow> scope_db \<times> nat" where
  "release_matching owner lease_id db =
     (let mine = (\<lambda>r. lr_owner r = owner \<and> (case lease_id of None \<Rightarrow> True | Some i \<Rightarrow> lr_id r = i));
          scopes = map (\<lambda>r. (lr_root r, lr_path r)) (filter mine (sd_leases db));
          waits = delete_where (\<lambda>w. lw_owner w = owner \<and> lw_root w \<in> fst ` set scopes) (sd_waits db);
          waits' = delete_where (\<lambda>w. lw_blocked_by w = owner \<and> (lw_root w, lw_path w) \<in> set scopes) waits
      in (\<lparr>sd_leases = delete_where mine (sd_leases db), sd_waits = waits'\<rparr>,
          count_where mine (sd_leases db)))"

definition release_lease :: "pyval \<Rightarrow> pyval \<Rightarrow> scope_db \<Rightarrow> scope_db \<times> (string + nat)" where
  "release_lease owner lease_id db =
     (case clean_str owner of None \<Rightarrow> (db, Inl ''invalid owner'') | Some ow \<Rightarrow>
     (case lease_id of
        PStr s \<Rightarrow>
          if s = [] \<or> s \<noteq> py_strip s \<or> nul \<in> set s then (db, Inl ''invalid lease_id'')
          else apsnd Inr (release_matching ow (Some s) db)
      | _ \<Rightarrow> (db, Inl ''lease_id must be a string'')))"

definition release_owner :: "pyval \<Rightarrow> scope_db \<Rightarrow> scope_db \<times> (string + nat)" where
  "release_owner owner db =
     (case clean_str owner of None \<Rightarrow> (db, Inl ''invalid owner'')
      | Some ow \<Rightarrow> apsnd Inr (release_matching ow None db))"

definition reap_expired :: "seconds \<Rightarrow> scope_db \<Rightarrow> scope_db \<times> nat \<times> nat" where
  "reap_expired now db =
     (\<lparr>sd_leases = delete_where (\<lambda>r. lr_expires r \<le> now) (sd_leases db),
       sd_waits = delete_where (\<lambda>w. lw_updated w \<le> now - 7200) (sd_waits db)\<rparr>,
      count_where (\<lambda>r. lr_expires r \<le> now) (sd_leases db),
      count_where (\<lambda>w. lw_updated w \<le> now - 7200) (sd_waits db))"

definition renew_lease ::
  "seconds \<Rightarrow> pyval \<Rightarrow> pyval \<Rightarrow> pyval \<Rightarrow> scope_db \<Rightarrow> scope_db \<times> (string + string \<times> seconds \<times> string list)" where
  "renew_lease now owner lease_id ttl_seconds db =
     (case clean_str owner of None \<Rightarrow> (db, Inl ''invalid owner'') | Some ow \<Rightarrow>
     (case lease_id of
        PStr s \<Rightarrow>
          if s = [] \<or> s \<noteq> py_strip s \<or> nul \<in> set s then (db, Inl ''invalid lease_id'')
          else (case bounded_lease_ttl ttl_seconds of
                  None \<Rightarrow> (db, Inl ''ttl_seconds must be a positive integer'')
                | Some ttl \<Rightarrow>
                    (let rows = filter (\<lambda>r. lr_id r = s \<and> lr_owner r = ow \<and> now < lr_expires r) (sd_leases db);
                         ex = now + of_int ttl in
                     if rows = [] then (db, Inl ''lease not found, expired, or belongs to another owner'')
                     else (db\<lparr>sd_leases := update_where (\<lambda>r. lr_id r = s \<and> lr_owner r = ow)
                                                (\<lambda>r. r\<lparr>lr_expires := ex\<rparr>) (sd_leases db)\<rparr>,
                           Inr (s, ex, map lr_path rows))))
      | _ \<Rightarrow> (db, Inl ''lease_id must be a string'')))"

section \<open>Queries\<close>

text \<open>The argument checks \<open>list\<close> and \<open>waits\<close> share; \<open>None\<close> means the empty answer.\<close>

definition query_root :: "pyval \<Rightarrow> coord \<Rightarrow> string option" where
  "query_root base cid =
     (case base of
        PStr s \<Rightarrow> if s \<noteq> py_strip s \<or> nul \<in> set s then None
                  else (case cid of
                          Unset \<Rightarrow> Some s
                        | Given v \<Rightarrow> if v = PNone \<or> \<not> is_canonical_coordination_id v then None else Some s)
      | _ \<Rightarrow> None)"

definition project_root :: "coord \<Rightarrow> string" where
  "project_root cid = ''project:'' @ (case cid of Given (PStr s) \<Rightarrow> s | _ \<Rightarrow> [])"

definition list_leases :: "lease_env \<Rightarrow> seconds \<Rightarrow> pyval \<Rightarrow> coord \<Rightarrow> scope_db \<Rightarrow> scope_row list option" where
  "list_leases env now base cid db =
     (case query_root base cid of None \<Rightarrow> Some [] | Some rt \<Rightarrow>
      (let live = (\<lambda>P. sort_key lr_expires (filter (\<lambda>r. P r \<and> now < lr_expires r) (sd_leases db))) in
       if rt \<noteq> [] then
         (case lease_root env rt of
            None \<Rightarrow> None
          | Some (root_path, physical) \<Rightarrow>
              Some (live (\<lambda>r. if cid = Unset then lr_root r = physical \<or> lr_root_path r = root_path
                             else lr_root r = project_root cid \<or>
                                  (lr_root r = physical \<and> lr_root_path r = root_path))))
       else Some (live (\<lambda>r. cid = Unset \<or> lr_root r = project_root cid))))"

definition list_waits :: "lease_env \<Rightarrow> seconds \<Rightarrow> pyval \<Rightarrow> coord \<Rightarrow> scope_db \<Rightarrow> wait_row list option" where
  "list_waits env now base cid db =
     (case query_root base cid of None \<Rightarrow> Some [] | Some rt \<Rightarrow>
      (let recent = (\<lambda>P. rev (sort_key lw_updated (filter (\<lambda>w. P w \<and> now - 3600 < lw_updated w) (sd_waits db)))) in
       if rt \<noteq> [] then
         (case lease_root env rt of
            None \<Rightarrow> None
          | Some (_, physical) \<Rightarrow>
              Some (recent (\<lambda>w. lw_root w = physical \<or> (cid \<noteq> Unset \<and> lw_root w = project_root cid))))
       else Some (recent (\<lambda>w. cid = Unset \<or> lw_root w = project_root cid))))"

datatype path_check =
    NotLeased string
  | CheckError string
  | Leased bool string scope_row

definition check_path ::
  "lease_env \<Rightarrow> seconds \<Rightarrow> pyval \<Rightarrow> pyval \<Rightarrow> pyval \<Rightarrow> coord \<Rightarrow> scope_db \<Rightarrow> path_check" where
  "check_path env now path base owner cid db =
     (case path of
        PStr p \<Rightarrow>
          (case base of
             PStr rt \<Rightarrow>
               if rt \<noteq> py_strip rt \<or> nul \<in> set rt then CheckError ''invalid root''
               else if owner \<noteq> PNone \<and> clean_str owner = None then CheckError ''invalid owner''
               else if cid \<noteq> Unset \<and> cid \<noteq> Given PNone \<and>
                       \<not> (case cid of Given v \<Rightarrow> is_canonical_coordination_id v | Unset \<Rightarrow> True)
               then CheckError ''invalid project coordination id''
               else if p = [] then NotLeased []
               else (case lease_root env rt of
                       None \<Rightarrow> CheckError ''OSError''
                     | Some (root_path, physical) \<Rightarrow>
                         (case norm_rel (le_paths env) p root_path of
                            None \<Rightarrow> CheckError ''lease path must be repository-relative''
                          | Some rel \<Rightarrow>
                              if cid = Given PNone then NotLeased rel
                              else
                                (case find (\<lambda>r. (if cid = Unset then lr_root r = physical
                                                 else lr_root r = project_root cid \<or>
                                                      (lr_root r = physical \<and> lr_root_path r = root_path)) \<and>
                                                now < lr_expires r \<and>
                                                overlap (win_is_absolute rt) rel (lr_path r)) (sd_leases db) of
                                   None \<Rightarrow> NotLeased rel
                                 | Some r \<Rightarrow> Leased (owner \<noteq> PNone \<and> owner \<noteq> PStr (lr_owner r)) rel r)))
           | _ \<Rightarrow> CheckError ''invalid root'')
      | _ \<Rightarrow> CheckError ''path must be a string'')"

section \<open>The store as a machine\<close>

datatype scope_op =
    ScopeClaim seconds string pyval pyval pyval pyval pyval coord
  | ScopeRelease pyval pyval
  | ScopeReleaseOwner pyval
  | ScopeRenew seconds pyval pyval pyval
  | ScopeReap seconds

fun scope_exec :: "lease_env \<Rightarrow> scope_db \<Rightarrow> scope_op \<Rightarrow> scope_db" where
  "scope_exec env db (ScopeClaim now uid owner base paths ttl purpose cid) =
     fst (claim env now uid owner base paths ttl purpose cid db)"
| "scope_exec env db (ScopeRelease owner lease_id) = fst (release_lease owner lease_id db)"
| "scope_exec env db (ScopeReleaseOwner owner) = fst (release_owner owner db)"
| "scope_exec env db (ScopeRenew now owner lease_id ttl) = fst (renew_lease now owner lease_id ttl db)"
| "scope_exec env db (ScopeReap now) = fst (reap_expired now db)"

definition scope_run :: "lease_env \<Rightarrow> scope_op list \<Rightarrow> scope_db" where
  "scope_run env ops = foldl (scope_exec env) empty_scope_db ops"

section \<open>The deadlock search is exact\<close>

lemma dfs_visited_mono:
  "dfs_node n succ stack visited node = Some (vis', res) \<Longrightarrow> set visited \<subseteq> set vis'"
  "dfs_edges n succ stack visited es = Some (vis', res) \<Longrightarrow> set visited \<subseteq> set vis'"
proof (induction n succ stack visited node and n succ stack visited es
    arbitrary: vis' res and vis' res rule: dfs_node_dfs_edges.induct)
  case (4 n succ stack visited nxt rest)
  show ?case
  proof (cases "nxt \<in> set stack \<or> nxt \<in> set visited")
    case True
    then show ?thesis using 4 by (auto split: if_splits)
  next
    case False
    then obtain v r where d: "dfs_node n succ stack visited nxt = Some (v, r)"
      using "4.prems" by (auto split: option.splits)
    have sub: "set visited \<subseteq> set v" using "4.IH"(1) False d by blast
    show ?thesis
    proof (cases r)
      case None
      then have "dfs_edges n succ stack v rest = Some (vis', res)" using "4.prems" False d by simp
      then show ?thesis using "4.IH"(2) False d None sub by blast
    next
      case (Some c)
      then show ?thesis using "4.prems" False d sub by simp
    qed
  qed
qed auto

definition dfs_post :: "('a \<Rightarrow> 'a list) \<Rightarrow> 'a \<Rightarrow> 'a list \<Rightarrow> 'a set \<Rightarrow> 'a list \<Rightarrow> 'a list option \<Rightarrow> bool" where
  "dfs_post succ start stack new vis' res \<longleftrightarrow>
     (case res of
        Some cyc \<Rightarrow> is_cycle succ cyc \<and> (start, hd cyc) \<in> (edge_rel succ)\<^sup>*
      | None \<Rightarrow> settled succ (set vis' - set stack) \<and> new \<subseteq> set vis' - set stack)"

lemma dfs_correct:
  "dfs_node n succ stack visited node = Some (vis', res) \<Longrightarrow> set stack \<subseteq> set visited \<Longrightarrow> node \<notin> set visited
     \<Longrightarrow> settled succ (set visited - set stack) \<Longrightarrow> chain succ (stack @ [node])
     \<Longrightarrow> dfs_post succ (hd (stack @ [node])) stack {node} vis' res"
  "dfs_edges n succ stack visited es = Some (vis', res) \<Longrightarrow> set stack \<subseteq> set visited \<Longrightarrow> stack \<noteq> []
     \<Longrightarrow> set es \<subseteq> set (succ (last stack)) \<Longrightarrow> settled succ (set visited - set stack) \<Longrightarrow> chain succ stack
     \<Longrightarrow> dfs_post succ (hd stack) stack (set es) vis' res"
proof (induction n succ stack visited node and n succ stack visited es
    arbitrary: vis' res and vis' res rule: dfs_node_dfs_edges.induct)
  case (1 succ stack visited node)
  then show ?case by simp
next
  case (2 n succ stack visited node)
  have same: "set (node # visited) - set (stack @ [node]) = set visited - set stack"
    using "2.prems" by auto
  have edges: "dfs_edges n succ (stack @ [node]) (node # visited) (succ node) = Some (vis', res)"
    using "2.prems" by simp
  have post: "dfs_post succ (hd (stack @ [node])) (stack @ [node]) (set (succ node)) vis' res"
    using "2.prems" by (intro "2.IH" [OF edges]) (auto simp: same)
  show ?case
  proof (cases res)
    case (Some cyc)
    then show ?thesis using post by (simp add: dfs_post_def)
  next
    case None
    have "node \<in> set vis'" using dfs_visited_mono(2) [OF edges] by auto
    then have eq: "set vis' - set stack = insert node (set vis' - set (stack @ [node]))"
      using "2.prems" by auto
    have "settled succ (set vis' - set (stack @ [node]))" "set (succ node) \<subseteq> set vis' - set (stack @ [node])"
      using post None by (simp_all add: dfs_post_def)
    then have "settled succ (set vis' - set stack)"
      unfolding eq by (rule settled_insert) simp
    then show ?thesis using None eq by (simp add: dfs_post_def)
  qed
next
  case (3 n succ stack visited)
  then show ?case by (simp add: dfs_post_def)
next
  case (4 n succ stack visited nxt rest)
  have edge: "nxt \<in> set (succ (last stack))" using "4.prems" by simp
  have st: "stack = butlast stack @ [last stack]" using "4.prems" by simp
  consider (onstack) "nxt \<in> set stack" | (fresh) "nxt \<notin> set visited" | (seen) "nxt \<notin> set stack" "nxt \<in> set visited"
    by blast
  then show ?case
  proof cases
    case onstack
    have cyc: "is_cycle succ (drop (position nxt stack) stack @ [nxt])"
      using back_edge_position [of succ "butlast stack" "last stack" nxt] "4.prems" onstack edge by simp
    have "hd (drop (position nxt stack) stack @ [nxt]) = nxt"
      using position_nth [OF onstack] by (simp add: hd_append hd_drop_conv_nth)
    moreover have "(hd stack, nxt) \<in> (edge_rel succ)\<^sup>*"
      using chain_reach [of succ "hd stack" "tl stack" nxt] "4.prems" onstack by simp
    ultimately show ?thesis using cyc "4.prems" onstack by (auto simp: dfs_post_def)
  next
    case seen
    have "dfs_edges n succ stack visited rest = Some (vis', res)" using "4.prems" seen by simp
    then have "dfs_post succ (hd stack) stack (set rest) vis' res"
      using "4.IH"(3) "4.prems" seen by auto
    moreover have "nxt \<in> set vis'"
      using dfs_visited_mono(2) [OF \<open>dfs_edges n succ stack visited rest = Some (vis', res)\<close>] seen by auto
    ultimately show ?thesis using seen by (auto simp: dfs_post_def split: option.splits)
  next
    case fresh
    then have ns: "nxt \<notin> set stack" using "4.prems" by auto
    obtain v r where d: "dfs_node n succ stack visited nxt = Some (v, r)"
      using "4.prems" fresh ns by (auto split: option.splits)
    have ch: "chain succ (stack @ [nxt])"
      using chain_append [of succ "butlast stack" "last stack" nxt] "4.prems" edge
      by (metis append.assoc append_Cons append_Nil append_butlast_last_id)
    have post: "dfs_post succ (hd (stack @ [nxt])) stack {nxt} v r"
      using "4.IH"(1) [OF ns fresh d] "4.prems" fresh ch by blast
    have hd: "hd (stack @ [nxt]) = hd stack" using "4.prems" by simp
    show ?thesis
    proof (cases r)
      case (Some c)
      then show ?thesis using "4.prems" fresh ns d post hd by (auto simp: dfs_post_def split: option.splits)
    next
      case None
      then have rest: "dfs_edges n succ stack v rest = Some (vis', res)" using "4.prems" fresh ns d by simp
      have sub: "set stack \<subseteq> set v" using dfs_visited_mono(1) [OF d] "4.prems" by auto
      have "dfs_post succ (hd stack) stack (set rest) vis' res"
        using "4.IH"(2) [OF ns fresh d] "4.prems" None post sub rest by (auto simp: dfs_post_def)
      moreover have "nxt \<in> set vis'"
        using dfs_visited_mono(2) [OF rest] post None by (auto simp: dfs_post_def)
      ultimately show ?thesis using ns by (auto simp: dfs_post_def split: option.splits)
    qed
  qed
qed

lemma dfs_fuel:
  "finite N \<Longrightarrow> (\<And>u. u \<in> N \<Longrightarrow> set (succ u) \<subseteq> N) \<Longrightarrow> node \<in> N - set visited \<Longrightarrow> card (N - set visited) \<le> n
     \<Longrightarrow> dfs_node n succ stack visited node \<noteq> None"
  "finite N \<Longrightarrow> (\<And>u. u \<in> N \<Longrightarrow> set (succ u) \<subseteq> N) \<Longrightarrow> set es \<subseteq> N \<Longrightarrow> card (N - set visited) \<le> n
     \<Longrightarrow> dfs_edges n succ stack visited es \<noteq> None"
proof (induction n succ stack visited node and n succ stack visited es rule: dfs_node_dfs_edges.induct)
  case (1 succ stack visited node)
  then show ?case by (auto simp: card_eq_0_iff)
next
  case (2 n succ stack visited node)
  have "N - set (node # visited) = (N - set visited) - {node}" by auto
  then have "card (N - set (node # visited)) \<le> n"
    using "2.prems" by (simp only:) (simp add: card_Diff_singleton_if)
  then show ?case using "2.IH" "2.prems" by simp
next
  case (3 n succ stack visited)
  then show ?case by simp
next
  case (4 n succ stack visited nxt rest)
  show ?case
  proof (cases "nxt \<in> set stack \<or> nxt \<in> set visited")
    case True
    then show ?thesis using "4.IH"(3) "4.prems" by auto
  next
    case False
    then have "dfs_node n succ stack visited nxt \<noteq> None"
      using "4.IH"(1) "4.prems" by auto
    then obtain v r where d: "dfs_node n succ stack visited nxt = Some (v, r)" by auto
    have "card (N - set v) \<le> card (N - set visited)"
      using dfs_visited_mono(1) [OF d] "4.prems" by (intro card_mono) auto
    then have "card (N - set v) \<le> n" using "4.prems" by simp
    then show ?thesis
      using "4.IH"(2) False d "4.prems" by (cases r) auto
  qed
qed

lemma detect_cycle_some:
  assumes "detect_cycle n succ start = Some (Some cyc)"
  shows "is_cycle succ cyc \<and> (start, hd cyc) \<in> (edge_rel succ)\<^sup>*"
proof -
  obtain vis where "dfs_node n succ [] [] start = Some (vis, Some cyc)"
    using assms by (auto simp: detect_cycle_def)
  then show ?thesis using dfs_correct(1) by (fastforce simp: dfs_post_def)
qed

lemma detect_cycle_none:
  assumes "detect_cycle n succ start = Some None" and "(start, u) \<in> (edge_rel succ)\<^sup>*"
  shows "(u, u) \<notin> (edge_rel succ)\<^sup>+"
proof -
  obtain vis where d: "dfs_node n succ [] [] start = Some (vis, None)"
    using assms by (auto simp: detect_cycle_def)
  have "settled succ (set vis)" "start \<in> set vis"
    using dfs_correct(1) [OF d] by (auto simp: dfs_post_def)
  then show ?thesis using settled_reach settled_acyclic assms(2) by metis
qed

lemma detect_cycle_fuel:
  assumes "finite N" "\<And>u. u \<in> N \<Longrightarrow> set (succ u) \<subseteq> N" "start \<in> N" "card N \<le> n"
  shows "detect_cycle n succ start \<noteq> None"
  using dfs_fuel(1) [OF assms(1,2), where node = start and visited = "[]" and n = n and stack = "[]"] assms(3,4) by (simp add: detect_cycle_def)

lemma wait_succ_set [simp]: "set (wait_succ edges u) = {v. (u, v) \<in> set edges}"
  by (auto simp: wait_succ_def image_iff)

lemma edge_rel_wait_succ [simp]: "edge_rel (wait_succ edges) = set edges"
  by (auto simp: edge_rel_def)

lemma wait_graph_fuel: "detect_cycle (length edges + 2) (wait_succ edges) owner \<noteq> None"
proof (rule detect_cycle_fuel)
  show "finite (insert owner (snd ` set edges))" by simp
  have "card (snd ` set edges) \<le> length edges"
    using card_image_le card_length order_trans by (metis List.finite_set)
  then show "card (insert owner (snd ` set edges)) \<le> length edges + 2"
    using card_insert_le_m1 by (simp add: card_insert_if)
qed (force+)

section \<open>Exclusion\<close>

definition scope_clash :: "scope_row \<Rightarrow> scope_row \<Rightarrow> bool" where
  "scope_clash r s \<longleftrightarrow> lr_owner r \<noteq> lr_owner s \<and> lr_root r = lr_root s \<and> overlap False (lr_path r) (lr_path s)"

definition scope_inv :: "scope_db \<Rightarrow> bool" where
  "scope_inv db \<longleftrightarrow> clash_free scope_clash (sd_leases db)"

interpretation scope_tbl: exclusive_table scope_clash
  by unfold_locales (auto simp: scope_clash_def dest: overlap_sym)

lemma find_conflicts_Nil:
  "find_conflicts ci rels existing = [] \<longleftrightarrow>
     (\<forall>p \<in> set rels. \<forall>r \<in> set existing. \<not> overlap ci p (lr_path r))"
  by (auto simp: find_conflicts_def filter_empty_conv)

lemma claim_tx_cases:
  assumes "claim_tx now ttl lid owner root_id physical root_path unset ci rels purpose db = (db', res)"
  obtains (unchanged) "db' = db" "\<And>i rt ps ex. res \<noteq> Claimed i rt ps ex"
  | (busy) cs where "sd_leases db' = delete_where (\<lambda>r. lr_expires r \<le> now) (sd_leases db)" "res = ClaimBusy cs"
      "cs = find_conflicts ci rels (existing_rows unset owner root_id physical root_path (sd_leases db'))" "cs \<noteq> []"
  | (claimed) fresh where "sd_leases db' = delete_where (\<lambda>r. lr_expires r \<le> now) (sd_leases db) @ fresh"
      "fresh = map (\<lambda>p. \<lparr>lr_id = lid, lr_owner = owner, lr_root = root_id, lr_root_path = root_path,
         lr_path = p, lr_purpose = take 300 purpose, lr_created = now, lr_expires = now + of_int ttl\<rparr>) rels"
      "res = Claimed lid root_path rels (now + of_int ttl)"
      "find_conflicts ci rels (existing_rows unset owner root_id physical root_path
         (delete_where (\<lambda>r. lr_expires r \<le> now) (sd_leases db))) = []"
proof -
  define leases where "leases = delete_where (\<lambda>r. lr_expires r \<le> now) (sd_leases db)"
  define conflicts where "conflicts = find_conflicts ci rels (existing_rows unset owner root_id physical root_path leases)"
  note tx = assms [unfolded claim_tx_def Let_def, folded leases_def, folded conflicts_def]
  show ?thesis
  proof (cases "conflicts = []")
    case True
    then show ?thesis using tx unchanged claimed unfolding leases_def [symmetric] conflicts_def [symmetric]
      by (auto split: if_splits)
  next
    case False
    then show ?thesis using tx unchanged busy unfolding leases_def [symmetric] conflicts_def [symmetric]
      by (auto simp: conflicts_def split: option.splits)
  qed
qed

lemma claim_tx_inv:
  assumes inv: "scope_inv db"
  shows "scope_inv (fst (claim_tx now ttl lid owner root_id physical root_path unset ci rels purpose db))"
proof -
  obtain db' res where tx: "claim_tx now ttl lid owner root_id physical root_path unset ci rels purpose db = (db', res)"
    by (cases "claim_tx now ttl lid owner root_id physical root_path unset ci rels purpose db")
  have kept: "clash_free scope_clash (delete_where (\<lambda>r. lr_expires r \<le> now) (sd_leases db))"
    using inv unfolding scope_inv_def by (rule scope_tbl.clash_free_delete)
  from tx show ?thesis
  proof (cases rule: claim_tx_cases)
    case unchanged
    then show ?thesis using inv tx by simp
  next
    case (busy cs)
    then show ?thesis using kept tx by (simp add: scope_inv_def)
  next
    case (claimed fresh)
    have "clash_free scope_clash (sd_leases db')"
      unfolding claimed(1)
    proof (rule scope_tbl.clash_free_append [OF kept])
      show "clash_free scope_clash fresh" by (auto simp: claimed(2) clash_free_def scope_clash_def)
      fix r s assume r: "r \<in> set fresh" and s: "s \<in> set (delete_where (\<lambda>r. lr_expires r \<le> now) (sd_leases db))"
      show "\<not> scope_clash r s"
      proof
        assume clash: "scope_clash r s"
        then have "s \<in> set (existing_rows unset owner root_id physical root_path
              (delete_where (\<lambda>r. lr_expires r \<le> now) (sd_leases db)))"
          using r s by (auto simp: claimed(2) scope_clash_def existing_rows_def)
        then have "\<not> overlap ci (lr_path r) (lr_path s)"
          using claimed(4) r unfolding find_conflicts_Nil by (auto simp: claimed(2))
        then show False using clash overlap_case_mono by (auto simp: scope_clash_def)
      qed
    qed
    then show ?thesis using tx by (simp add: scope_inv_def)
  qed
qed

text \<open>Either \<open>claim\<close> stops before the transaction, or it is the transaction on checked arguments.\<close>

lemma claim_cases:
  assumes "claim env now uid owner base paths ttl_seconds purpose cid db = (db', res)"
  obtains (rejected) "db' = db" "\<And>i rt ps ex. res \<noteq> Claimed i rt ps ex"
  | (run) ow rt root_path physical root_id rels ttl pu ps where
      "claim_tx now ttl (''lease_'' @ take 20 uid) ow root_id physical root_path (cid = Unset)
         (win_is_absolute rt) rels pu db = (db', res)"
      "clean_str owner = Some ow" "clean_str base = Some rt" "lease_root env rt = Some (root_path, physical)"
      "paths = PList ps" "norm_all (le_paths env) root_path ps = Some rels" "bounded_lease_ttl ttl_seconds = Some ttl"
      "root_id = (if cid = Unset then physical else project_root cid)"
      "cid = Unset \<or> (\<exists>s. cid = Given (PStr s) \<and> is_canonical_coordination_id (PStr s))"
proof (cases "\<exists>ow rt pu ps root_path physical root_id rels ttl.
      claim_tx now ttl (''lease_'' @ take 20 uid) ow root_id physical root_path (cid = Unset)
         (win_is_absolute rt) rels pu db = (db', res) \<and>
      clean_str owner = Some ow \<and> clean_str base = Some rt \<and> lease_root env rt = Some (root_path, physical) \<and>
      paths = PList ps \<and> norm_all (le_paths env) root_path ps = Some rels \<and>
      bounded_lease_ttl ttl_seconds = Some ttl \<and> root_id = (if cid = Unset then physical else project_root cid) \<and>
      (cid = Unset \<or> (\<exists>s. cid = Given (PStr s) \<and> is_canonical_coordination_id (PStr s)))")
  case True
  then show ?thesis using run by blast
next
  case False
  have canon: "is_canonical_coordination_id v \<Longrightarrow> \<exists>s. v = PStr s" for v
    by (cases v) (auto simp: is_canonical_coordination_id_def)
  have "db' = db \<and> (\<forall>i rt ps ex. res \<noteq> Claimed i rt ps ex)"
    using assms False canon unfolding claim_def project_root_def
    by (auto split: option.splits pyval.splits if_splits prod.splits sum.splits coord.splits)
  then show ?thesis using rejected by blast
qed

lemma scope_touch_inv:
  assumes "scope_inv db"
  shows "scope_inv (fst (release_matching owner lid db))"
    and "scope_inv (fst (reap_expired now db))"
    and "scope_inv (db\<lparr>sd_leases := update_where P (\<lambda>r. r\<lparr>lr_expires := t\<rparr>) (sd_leases db)\<rparr>)"
proof -
  show "scope_inv (fst (release_matching owner lid db))" "scope_inv (fst (reap_expired now db))"
    using assms by (auto simp: scope_inv_def release_matching_def reap_expired_def Let_def
        intro: scope_tbl.clash_free_delete)
  show "scope_inv (db\<lparr>sd_leases := update_where P (\<lambda>r. r\<lparr>lr_expires := t\<rparr>) (sd_leases db)\<rparr>)"
    using assms unfolding scope_inv_def update_where_def
    by (auto intro!: scope_tbl.clash_free_map simp: scope_clash_def split: if_splits)
qed

lemma claim_inv:
  assumes inv: "scope_inv db"
  shows "scope_inv (fst (claim env now uid owner base paths ttl_seconds purpose cid db))"
proof -
  obtain db' res where c: "claim env now uid owner base paths ttl_seconds purpose cid db = (db', res)"
    by (cases "claim env now uid owner base paths ttl_seconds purpose cid db")
  then show ?thesis
  proof (cases rule: claim_cases)
    case rejected
    then show ?thesis using inv c by simp
  next
    case (run ow rt root_path physical root_id rels ttl pu ps)
    then show ?thesis using claim_tx_inv [OF inv] c by (metis fst_conv)
  qed
qed

lemma scope_exec_inv: "scope_inv db \<Longrightarrow> scope_inv (scope_exec env db oper)"
  by (cases oper)
     (auto simp: claim_inv scope_touch_inv release_lease_def release_owner_def renew_lease_def Let_def
        split: option.splits pyval.splits)

interpretation scope_store: inv_machine "scope_exec env" scope_inv for env
  by unfold_locales (rule scope_exec_inv)

section \<open>Properties\<close>

definition demo_lease_env :: lease_env where
  "demo_lease_env = \<lparr>le_paths = \<lparr>pe_relative = (\<lambda>_ _. None), pe_confine = (\<lambda>_ p. Some p)\<rparr>,
     le_canonical = Some, le_digest = id\<rparr>"

abbreviation "demo_scope_claim t u owner path \<equiv>
  ScopeClaim t u (PStr owner) (PStr ''/r'') (PList [PStr path]) (PInt 900) (PStr ''edit'') Unset"

definition demo_scope_ops :: "scope_op list" where
  "demo_scope_ops = [demo_scope_claim 1 ''u1'' ''A'' ''src'', demo_scope_claim 2 ''u2'' ''B'' ''docs'']"

text \<open>
  C36. In every reachable database, leases of different owners in one root namespace never overlap,
  expired or not, in either case sensitivity the claims were made with.
\<close>

theorem scope_leases_exclusive:
  assumes "r \<in> set (sd_leases (scope_run env ops))" and "s \<in> set (sd_leases (scope_run env ops))"
    and "lr_root r = lr_root s" and "lr_owner r \<noteq> lr_owner s"
  shows "\<not> overlap False (lr_path r) (lr_path s)"
proof -
  have "scope_inv (scope_run env ops)"
    unfolding scope_run_def by (rule scope_store.inv_run) (simp add: scope_inv_def empty_scope_db_def clash_free_def)
  then have "\<not> scope_clash r s"
    unfolding scope_inv_def using assms(1,2) by (rule scope_tbl.clash_freeD)
  then show ?thesis using assms(3,4) by (simp add: scope_clash_def)
qed

theorem scope_leases_exclusive_witness:
  "map lr_owner (sd_leases (scope_run demo_lease_env demo_scope_ops)) = [''A'', ''B''] \<and>
   \<not> overlap False (lr_path (sd_leases (scope_run demo_lease_env demo_scope_ops) ! 0))
                   (lr_path (sd_leases (scope_run demo_lease_env demo_scope_ops) ! 1))"
proof -
  let ?rows = "sd_leases (scope_run demo_lease_env demo_scope_ops)"
  have "?rows ! 0 \<in> set ?rows" "?rows ! 1 \<in> set ?rows" "lr_root (?rows ! 0) = lr_root (?rows ! 1)"
    "lr_owner (?rows ! 0) \<noteq> lr_owner (?rows ! 1)" and own: "map lr_owner ?rows = [''A'', ''B'']"
    by code_simp+
  then show ?thesis using scope_leases_exclusive by blast
qed

text \<open>
  C37. The deadlock verdict of a contended claim is exact: it reports a deadlock just when the wait-for
  graph (recorded waits of the last hour and the edges of this request) has a cycle that the owner
  can reach, and the list it returns is such a cycle.
\<close>

theorem deadlock_report_exact:
  assumes "claim_tx now ttl lid owner root_id physical root_path unset ci rels purpose db = (db', res)"
    and "cs = find_conflicts ci rels (existing_rows unset owner root_id physical root_path
                (delete_where (\<lambda>r. lr_expires r \<le> now) (sd_leases db)))" and "cs \<noteq> []"
    and "edges = wait_edges (delete_where (\<lambda>w. lw_updated w \<le> now - 7200) (sd_waits db)) root_id owner cs now"
  shows "(\<exists>cyc. res = ClaimDeadlock cyc cs \<and> is_cycle (wait_succ edges) cyc) \<and>
         (\<exists>u. (owner, u) \<in> (set edges)\<^sup>* \<and> (u, u) \<in> (set edges)\<^sup>+)
       \<or> res = ClaimBusy cs \<and> \<not> (\<exists>u. (owner, u) \<in> (set edges)\<^sup>* \<and> (u, u) \<in> (set edges)\<^sup>+)"
proof -
  obtain verdict where v: "detect_cycle (length edges + 2) (wait_succ edges) owner = Some verdict"
    using wait_graph_fuel by blast
  have res: "res = (case verdict of Some cyc \<Rightarrow> ClaimDeadlock cyc cs | None \<Rightarrow> ClaimBusy cs)"
    using assms(1,3) v by (simp add: claim_tx_def Let_def assms(2,4) [symmetric] split: option.splits)
  show ?thesis
  proof (cases verdict)
    case None
    then show ?thesis using detect_cycle_none [of _ "wait_succ edges" owner] v res by auto
  next
    case (Some cyc)
    then have c: "is_cycle (wait_succ edges) cyc" "(owner, hd cyc) \<in> (set edges)\<^sup>*"
      using detect_cycle_some [of _ "wait_succ edges" owner cyc] v by auto
    then have "(hd cyc, hd cyc) \<in> (set edges)\<^sup>+"
      using is_cycle_trancl [OF c(1)] by simp
    then show ?thesis using Some res c by auto
  qed
qed

theorem deadlock_report_exact_witness:
  "\<exists>db' cyc. claim_tx 4 900 ''l4'' ''B'' ''/r'' ''/r'' ''/r'' True False [''src''] ''edit''
        (scope_run demo_lease_env (demo_scope_ops @ [demo_scope_claim 3 ''u3'' ''A'' ''docs'']))
      = (db', ClaimDeadlock cyc (find_conflicts False [''src''] (existing_rows True ''B'' ''/r'' ''/r'' ''/r''
          (delete_where (\<lambda>r. lr_expires r \<le> 4)
            (sd_leases (scope_run demo_lease_env (demo_scope_ops @ [demo_scope_claim 3 ''u3'' ''A'' ''docs''])))))))"
proof -
  let ?db = "scope_run demo_lease_env (demo_scope_ops @ [demo_scope_claim 3 ''u3'' ''A'' ''docs''])"
  let ?cs = "find_conflicts False [''src''] (existing_rows True ''B'' ''/r'' ''/r'' ''/r''
          (delete_where (\<lambda>r. lr_expires r \<le> 4) (sd_leases ?db)))"
  let ?tx = "claim_tx 4 900 ''l4'' ''B'' ''/r'' ''/r'' ''/r'' True False [''src''] ''edit'' ?db"
  have tx: "?tx = (fst ?tx, snd ?tx)" by simp
  have ne: "?cs \<noteq> []" by code_simp
  have nb: "snd ?tx \<noteq> ClaimBusy ?cs" by code_simp
  show ?thesis using deadlock_report_exact [OF tx refl ne refl] nb tx by metis
qed

text \<open>
  \<open>claim\<close> is all or nothing: after it the table holds, under the new lease id, exactly the
  requested paths if it answered success, and nothing if it answered anything else.
\<close>

theorem claim_all_or_nothing:
  assumes "claim env now uid owner base paths ttl_seconds purpose cid db = (db', res)"
    and "''lease_'' @ take 20 uid \<notin> set (map lr_id (sd_leases db))"
  shows "map lr_path (filter (\<lambda>r. lr_id r = ''lease_'' @ take 20 uid) (sd_leases db')) =
         (case res of Claimed i rt ps ex \<Rightarrow> ps | _ \<Rightarrow> [])"
proof -
  note none = filter_key_fresh [OF assms(2)]
  from assms(1) show ?thesis
  proof (cases rule: claim_cases)
    case rejected
    then show ?thesis using none by (simp split: claim_result.splits)
  next
    case (run ow rt root_path physical root_id rels ttl pu ps)
    from run(1) show ?thesis
    proof (cases rule: claim_tx_cases)
      case unchanged
      then show ?thesis using none by (simp split: claim_result.splits)
    next
      case (busy cs)
      then show ?thesis using filter_delete_where [OF none] by simp
    next
      case (claimed fresh)
      then show ?thesis using filter_delete_where [OF none] by (simp add: comp_def)
    qed
  qed
qed

theorem claim_all_or_nothing_witness:
  "map lr_path (filter (\<lambda>r. lr_id r = ''lease_u9'')
     (sd_leases (fst (claim demo_lease_env 5 ''u9'' (PStr ''C'') (PStr ''/r'') (PList [PStr ''b'', PStr ''src/x''])
        (PInt 60) (PStr ''edit'') Unset (scope_run demo_lease_env demo_scope_ops))))) = []"
proof -
  let ?c = "claim demo_lease_env 5 ''u9'' (PStr ''C'') (PStr ''/r'') (PList [PStr ''b'', PStr ''src/x''])
        (PInt 60) (PStr ''edit'') Unset (scope_run demo_lease_env demo_scope_ops)"
  have c: "?c = (fst ?c, snd ?c)" by simp
  have fresh: "''lease_'' @ take 20 ''u9'' \<notin> set (map lr_id (sd_leases (scope_run demo_lease_env demo_scope_ops)))"
    by code_simp
  have "(case snd ?c of Claimed i rt ps ex \<Rightarrow> ps | _ \<Rightarrow> []) = []" by code_simp
  then show ?thesis using claim_all_or_nothing [OF c fresh] by simp
qed

text \<open>
  A lease is visible: until it expires, \<open>check_path\<close> on any path it was claimed for tells every
  other agent in the same namespace that the path is leased by its owner and that there is a conflict.
\<close>

theorem claimed_path_conflicts_for_others:
  assumes "claim env now uid (PStr ow) base (PList ps) ttl_seconds purpose cid db = (db', Claimed i rp rels ex)"
    and "PStr p \<in> set ps" and "t < ex" and "clean_str (PStr other) = Some other" and "other \<noteq> ow"
  shows "\<exists>rel r. check_path env t (PStr p) base (PStr other) cid db' = Leased True rel r \<and> lr_owner r = ow"
  using assms(1)
proof (cases rule: claim_cases)
  case rejected
  then show ?thesis by blast
next
  case (run ow' rt root_path physical root_id rels' ttl pu ps')
  have ow': "ow' = ow" using run(2) by (auto simp: clean_str_def split: if_splits)
  from run(3) have base: "base = PStr rt" "rt = py_strip rt" "nul \<notin> set rt"
    by (auto simp: clean_str_def split: pyval.splits if_splits)
  define rel where "rel = the (norm_rel (le_paths env) p root_path)"
  have "None \<notin> set (map (\<lambda>v. case v of PStr s \<Rightarrow> norm_rel (le_paths env) s root_path | _ \<Rightarrow> None) ps)"
    using run(5,6) by (auto simp: norm_all_def Let_def split: if_splits)
  then have nr: "norm_rel (le_paths env) p root_path = Some rel"
    using assms(2) unfolding rel_def by (force simp: image_iff)
  have in_rels: "rel \<in> set rels'"
    using run(5,6) assms(2) nr by (force simp: norm_all_def Let_def split: if_splits)
  have pne: "p \<noteq> []" using nr by (auto simp: norm_rel_def py_strip_def Let_def)
  define P where "P = (\<lambda>r::scope_row. (if cid = Unset then lr_root r = physical
                       else lr_root r = project_root cid \<or> (lr_root r = physical \<and> lr_root_path r = root_path)) \<and>
                      t < lr_expires r \<and> overlap (win_is_absolute rt) rel (lr_path r))"
  have chk: "check_path env t (PStr p) base (PStr other) cid db' =
      (case find P (sd_leases db') of None \<Rightarrow> NotLeased rel | Some r \<Rightarrow> Leased (PStr other \<noteq> PStr (lr_owner r)) rel r)"
    using base run(4,9) assms(4) nr pne
    by (auto simp: check_path_def P_def cong: option.case_cong split: option.splits)
  from run(1) show ?thesis
  proof (cases rule: claim_tx_cases)
    case (claimed fresh)
    have ex: "ex = now + of_int ttl" using claimed(3) by simp
    define mine where "mine = \<lparr>lr_id = ''lease_'' @ take 20 uid, lr_owner = ow', lr_root = root_id,
         lr_root_path = root_path, lr_path = rel, lr_purpose = take 300 pu, lr_created = now,
         lr_expires = now + of_int ttl\<rparr>"
    have "mine \<in> set (sd_leases db')" "P mine"
      using claimed(1,2) in_rels assms(3) ex run(8) by (auto simp: mine_def P_def overlap_refl)
    then obtain r where r: "find P (sd_leases db') = Some r"
      by (metis find_None_iff not_None_eq)
    then have rP: "r \<in> set (sd_leases db')" "P r" using find_SomeD by fast+
    have "lr_owner r = ow"
    proof (rule ccontr)
      assume neq: "lr_owner r \<noteq> ow"
      then have "r \<in> set (delete_where (\<lambda>r. lr_expires r \<le> now) (sd_leases db))"
        using rP(1) ow' claimed(1,2) by auto
      then have "r \<in> set (existing_rows (cid = Unset) ow' root_id physical root_path
            (delete_where (\<lambda>r. lr_expires r \<le> now) (sd_leases db)))"
        using neq ow' rP(2) run(8) by (auto simp: existing_rows_def P_def split: if_splits)
      then have "\<not> overlap (win_is_absolute rt) rel (lr_path r)"
        using claimed(4) in_rels unfolding find_conflicts_Nil by blast
      then show False using rP(2) by (simp add: P_def)
    qed
    then show ?thesis using chk r assms(5) by simp
  qed blast+
qed

theorem claimed_path_conflicts_for_others_witness:
  "\<exists>rel r. check_path demo_lease_env 6 (PStr ''./lib/'') (PStr ''/r'') (PStr ''B'') Unset
       (fst (claim demo_lease_env 5 ''u9'' (PStr ''A'') (PStr ''/r'') (PList [PStr ''./lib/'']) (PInt 60)
         (PStr ''edit'') Unset (scope_run demo_lease_env demo_scope_ops)))
     = Leased True rel r \<and> lr_owner r = ''A''"
proof -
  let ?c = "claim demo_lease_env 5 ''u9'' (PStr ''A'') (PStr ''/r'') (PList [PStr ''./lib/'']) (PInt 60)
         (PStr ''edit'') Unset (scope_run demo_lease_env demo_scope_ops)"
  have "snd ?c = Claimed ''lease_u9'' ''/r'' [''lib''] 65" by code_simp
  then have c: "?c = (fst ?c, Claimed ''lease_u9'' ''/r'' [''lib''] 65)" by (metis prod.collapse)
  show ?thesis
    by (rule claimed_path_conflicts_for_others [OF c]) code_simp+
qed

text \<open>
  Releasing a lease forgets a waiter only when the waiter asked for the very path that was held.  A
  waiter that asked for a path below or above it keeps its edge for an hour, and \<open>claim\<close> can then
  report a deadlock although one side of the reported cycle holds nothing: A holds \<open>src\<close>, B holds
  \<open>docs\<close> and asks for \<open>src/a\<close>, A releases everything and asks for \<open>docs\<close>.
\<close>

definition stale_wait_db :: scope_db where
  "stale_wait_db = scope_run demo_lease_env
     (demo_scope_ops @ [demo_scope_claim 3 ''u3'' ''B'' ''src/a'', ScopeReleaseOwner (PStr ''A'')])"

lemma stale_wait_reports_deadlock:
  "filter (\<lambda>r. lr_owner r = ''A'') (sd_leases stale_wait_db) = [] \<and>
   (case snd (claim demo_lease_env 4 ''u4'' (PStr ''A'') (PStr ''/r'') (PList [PStr ''docs'']) (PInt 900)
                (PStr ''edit'') Unset stale_wait_db) of
      ClaimDeadlock cyc cs \<Rightarrow> cyc = [''A'', ''B'', ''A''] | _ \<Rightarrow> False)"
  unfolding stale_wait_db_def by (intro conjI) code_simp+

end
