(* ===== verification/Semaphores.thy ===== *)
theory Semaphores
  imports Hub_Prelude
begin

text \<open>
  The counting semaphores of \<open>agent_semaphores.py\<close> (\<open>SemaphoreStore\<close>): one row per name with the
  decoded \<open>holders_json\<close> and \<open>queue_json\<close>.  Operations run under the store's lock, one at a time.
  Arguments are taken after \<open>str\<close>, \<open>int\<close> and \<open>float\<close>; the clock and \<open>uuid4().hex\<close> are arguments.
\<close>

section \<open>Data and operations\<close>

record sem_holder =
  sh_lease :: string
  sh_owner :: string
  sh_purpose :: string
  sh_acquired :: seconds
  sh_expires :: seconds

record sem_wait =
  sw_id :: string
  sw_owner :: string
  sw_purpose :: string
  sw_requested :: seconds

record sem_row =
  sr_capacity :: int
  sr_holders :: "sem_holder list"
  sr_queue :: "sem_wait list"
  sr_created :: seconds
  sr_updated :: seconds

type_synonym sem_db = "string \<rightharpoonup> sem_row"

datatype sem_result =
    SemError string
  | SemAcquired string seconds int nat int
  | SemFull int nat nat "(string \<times> string \<times> seconds) list"

definition sem_name :: "string \<Rightarrow> string" where
  "sem_name name = py_lower (py_strip name)"

definition active_holders :: "seconds \<Rightarrow> sem_holder list \<Rightarrow> sem_holder list" where
  "active_holders now hs = filter (\<lambda>h. now < sh_expires h) hs"

text \<open>The position of the owner's first entry, counted from one, or the length of the queue.\<close>

definition queue_position :: "string \<Rightarrow> sem_wait list \<Rightarrow> nat" where
  "queue_position owner q =
     (if list_ex (\<lambda>w. sw_owner w = owner) q
      then Suc (length (takeWhile (\<lambda>w. sw_owner w \<noteq> owner) q)) else length q)"

definition sem_acquire ::
  "seconds \<Rightarrow> string \<Rightarrow> string \<Rightarrow> string \<Rightarrow> int \<Rightarrow> seconds \<Rightarrow> string \<Rightarrow> sem_db \<Rightarrow> sem_db \<times> sem_result" where
  "sem_acquire now uid name owner capacity ttl_seconds purpose db =
     (let nm = sem_name name in
      if nm = [] then (db, SemError ''semaphore name must be a non-empty string'')
      else
        (let cap = max 1 capacity; ttl = max (5 / 100) ttl_seconds;
             (effective, holders, queue, created) =
               (case db nm of
                  None \<Rightarrow> (cap, [], [], now)
                | Some r \<Rightarrow> (sr_capacity r, sr_holders r, sr_queue r, sr_created r));
             active = active_holders now holders in
         if int (length active) < effective then
           (let active' = active @ [\<lparr>sh_lease = ''sem_'' @ take 12 uid, sh_owner = owner, sh_purpose = purpose,
                                      sh_acquired = now, sh_expires = now + ttl\<rparr>] in
            (db(nm \<mapsto> \<lparr>sr_capacity = effective, sr_holders = active', sr_queue = queue,
                       sr_created = created, sr_updated = now\<rparr>),
             SemAcquired (''sem_'' @ take 12 uid) (now + ttl) effective (length active')
               (max 0 (effective - int (length active')))))
         else
           (let queue' = (if list_ex (\<lambda>w. sw_owner w = owner) queue then queue
                          else queue @ [\<lparr>sw_id = ''wait_'' @ take 8 uid, sw_owner = owner,
                                         sw_purpose = purpose, sw_requested = now\<rparr>]) in
            (db(nm \<mapsto> \<lparr>sr_capacity = effective, sr_holders = active, sr_queue = queue',
                       sr_created = created, sr_updated = now\<rparr>),
             SemFull effective (length active) (queue_position owner queue')
               (map (\<lambda>h. (sh_lease h, sh_owner h, sh_expires h)) active)))))"

text \<open>
  The wait with a timeout: each release event that arrives before the deadline, given by the time
  of the retry and its fresh id, tries again; the first answer stands when none succeeds.
\<close>

fun sem_retry ::
  "(seconds \<times> string) list \<Rightarrow> string \<Rightarrow> string \<Rightarrow> int \<Rightarrow> seconds \<Rightarrow> string \<Rightarrow> sem_result \<Rightarrow> sem_db \<Rightarrow> sem_db \<times> sem_result" where
  "sem_retry [] name owner cap ttl purpose first db = (db, first)"
| "sem_retry ((now, uid) # events) name owner cap ttl purpose first db =
     (case sem_acquire now uid name owner cap ttl purpose db of
        (db', SemAcquired l e c h a) \<Rightarrow> (db', SemAcquired l e c h a)
      | (db', _) \<Rightarrow> sem_retry events name owner cap ttl purpose first db')"

definition sem_acquire_wait ::
  "seconds \<Rightarrow> string \<Rightarrow> (seconds \<times> string) list \<Rightarrow> string \<Rightarrow> string \<Rightarrow> int \<Rightarrow> seconds \<Rightarrow> string \<Rightarrow> sem_db
     \<Rightarrow> sem_db \<times> sem_result" where
  "sem_acquire_wait now uid events name owner capacity ttl_seconds purpose db =
     (case sem_acquire now uid name owner capacity ttl_seconds purpose db of
        (db', SemFull c h p act) \<Rightarrow>
          sem_retry events (sem_name name) owner (max 1 capacity) (max (5 / 100) ttl_seconds) purpose
            (SemFull c h p act) db'
      | res \<Rightarrow> res)"

definition sem_release :: "seconds \<Rightarrow> string \<Rightarrow> string \<Rightarrow> string \<Rightarrow> sem_db \<Rightarrow> sem_db \<times> (string + bool)" where
  "sem_release now name lease_id owner db =
     (let nm = sem_name name in
      case db nm of
        None \<Rightarrow> (db, Inl ''semaphore not found'')
      | Some r \<Rightarrow>
          (db(nm \<mapsto> r\<lparr>sr_holders := filter (\<lambda>h. sh_lease h \<noteq> lease_id) (sr_holders r),
                      sr_queue := (if owner \<noteq> [] then filter (\<lambda>w. sw_owner w \<noteq> owner) (sr_queue r) else sr_queue r),
                      sr_updated := now\<rparr>),
           Inr (list_ex (\<lambda>h. sh_lease h = lease_id) (sr_holders r))))"

definition sem_status :: "seconds \<Rightarrow> string \<Rightarrow> sem_db \<Rightarrow> (int \<times> sem_holder list \<times> sem_wait list) option" where
  "sem_status now name db =
     (case db (sem_name name) of
        None \<Rightarrow> None
      | Some r \<Rightarrow> Some (sr_capacity r, active_holders now (sr_holders r), sr_queue r))"

datatype sem_op =
    SemAcquire seconds string "(seconds \<times> string) list" string string int seconds string
  | SemRelease seconds string string string

fun sem_exec :: "sem_db \<Rightarrow> sem_op \<Rightarrow> sem_db" where
  "sem_exec db (SemAcquire now uid events name owner cap ttl purpose) =
     fst (sem_acquire_wait now uid events name owner cap ttl purpose db)"
| "sem_exec db (SemRelease now name lease_id owner) = fst (sem_release now name lease_id owner db)"

definition sem_run :: "sem_op list \<Rightarrow> sem_db" where
  "sem_run ops = foldl sem_exec Map.empty ops"

section \<open>Capacity\<close>

definition sem_row_ok :: "sem_row \<Rightarrow> bool" where
  "sem_row_ok r \<longleftrightarrow> 1 \<le> sr_capacity r \<and> int (length (sr_holders r)) \<le> sr_capacity r \<and>
     distinct (map sw_owner (sr_queue r))"

definition sem_inv :: "sem_db \<Rightarrow> bool" where
  "sem_inv db \<longleftrightarrow> (\<forall>nm r. db nm = Some r \<longrightarrow> sem_row_ok r)"

lemma active_holders_length: "length (active_holders now hs) \<le> length hs"
  by (simp add: active_holders_def)

lemma sem_acquire_inv:
  assumes "sem_inv db" shows "sem_inv (fst (sem_acquire now uid name owner capacity ttl purpose db))"
proof (cases "db (sem_name name)")
  case None
  then show ?thesis using assms
    by (auto simp: sem_acquire_def Let_def sem_inv_def sem_row_ok_def active_holders_def)
next
  case (Some r)
  then have r: "sem_row_ok r" using assms by (simp add: sem_inv_def)
  have "int (length (active_holders now (sr_holders r))) \<le> sr_capacity r"
    using r active_holders_length [of now "sr_holders r"] by (simp add: sem_row_ok_def)
  then show ?thesis using assms r Some
    by (auto simp: sem_acquire_def Let_def sem_inv_def sem_row_ok_def list_ex_iff)
qed

lemma sem_retry_inv:
  "sem_inv db \<Longrightarrow> sem_inv (fst (sem_retry events name owner cap ttl purpose res db))"
proof (induction events arbitrary: db)
  case (Cons e events)
  obtain now uid where e: "e = (now, uid)" by (cases e)
  obtain db' r where a: "sem_acquire now uid name owner cap ttl purpose db = (db', r)"
    by (cases "sem_acquire now uid name owner cap ttl purpose db")
  then have "sem_inv db'" using sem_acquire_inv [OF Cons.prems] by (metis fst_conv)
  then show ?case using Cons.IH by (cases r) (simp_all add: e a)
qed simp

lemma sem_exec_inv: "sem_inv db \<Longrightarrow> sem_inv (sem_exec db oper)"
proof (cases oper)
  case (SemAcquire now uid events name owner cap ttl purpose)
  assume inv: "sem_inv db"
  obtain db' r where a: "sem_acquire now uid name owner cap ttl purpose db = (db', r)"
    by (cases "sem_acquire now uid name owner cap ttl purpose db")
  then have "sem_inv db'" using sem_acquire_inv [OF inv] by (metis fst_conv)
  then show ?thesis using sem_retry_inv by (cases r) (simp_all add: SemAcquire sem_acquire_wait_def a)
next
  case (SemRelease now name lease_id owner)
  assume inv: "sem_inv db"
  show ?thesis
  proof (cases "db (sem_name name)")
    case None
    then show ?thesis using inv by (simp add: SemRelease sem_release_def Let_def)
  next
    case (Some r)
    define r' where "r' = r\<lparr>sr_holders := filter (\<lambda>h. sh_lease h \<noteq> lease_id) (sr_holders r),
        sr_queue := (if owner \<noteq> [] then filter (\<lambda>w. sw_owner w \<noteq> owner) (sr_queue r) else sr_queue r),
        sr_updated := now\<rparr>"
    have r: "sem_row_ok r" using inv Some by (simp add: sem_inv_def)
    have "int (length (filter (\<lambda>h. sh_lease h \<noteq> lease_id) (sr_holders r))) \<le> int (length (sr_holders r))"
      by simp
    also have "\<dots> \<le> sr_capacity r" using r by (simp add: sem_row_ok_def)
    finally have "sem_row_ok r'" using r by (simp add: r'_def sem_row_ok_def distinct_map_filter)
    then show ?thesis using inv Some
      by (simp add: SemRelease sem_release_def Let_def r'_def [symmetric] sem_inv_def)
  qed
qed

interpretation sem_store: inv_machine sem_exec sem_inv
  by unfold_locales (rule sem_exec_inv)

lemma sem_run_inv: "sem_inv (sem_run ops)"
  unfolding sem_run_def by (rule sem_store.inv_run) (simp add: sem_inv_def)

text \<open>
  A semaphore is never over-committed: after any operations, at any time, the status of a
  semaphore shows at most as many holders as its capacity, which is at least one.
\<close>

theorem semaphore_within_capacity:
  assumes "sem_status now name (sem_run ops) = Some (capacity, holders, queue)"
  shows "1 \<le> capacity \<and> int (length holders) \<le> capacity \<and> distinct (map sw_owner queue)"
proof -
  obtain r where "sem_run ops (sem_name name) = Some r" "capacity = sr_capacity r"
      "holders = active_holders now (sr_holders r)" "queue = sr_queue r"
    using assms by (auto simp: sem_status_def split: option.splits)
  then show ?thesis
    using sem_run_inv [of ops] active_holders_length [of now "sr_holders r"]
    by (force simp: sem_inv_def sem_row_ok_def)
qed

definition demo_sem_ops :: "sem_op list" where
  "demo_sem_ops = [SemAcquire 1 ''u1'' [] '' GPU '' ''a'' 2 60 ''x'', SemAcquire 2 ''u2'' [] ''gpu'' ''b'' 9 60 ''x'',
     SemAcquire 3 ''u3'' [] ''gpu'' ''c'' 9 60 ''x'']"

theorem semaphore_within_capacity_witness:
  "(1::int) \<le> 2 \<and> int (length (active_holders 4 (sr_holders (the (sem_run demo_sem_ops ''gpu''))))) \<le> 2 \<and>
   distinct (map sw_owner (sr_queue (the (sem_run demo_sem_ops ''gpu''))))"
proof -
  have "sem_status 4 ''gpu'' (sem_run demo_sem_ops) =
    Some (2, active_holders 4 (sr_holders (the (sem_run demo_sem_ops ''gpu''))), sr_queue (the (sem_run demo_sem_ops ''gpu'')))"
    by code_simp
  then show ?thesis by (rule semaphore_within_capacity)
qed

text \<open>
  A request is refused only when the semaphore is full: the unexpired holders then fill its
  capacity, and the requester has a place in the queue.
\<close>

theorem semaphore_refusal_is_full:
  assumes "sem_acquire now uid name owner capacity ttl purpose (sem_run ops) = (db', SemFull c held pos act)"
  shows "int held = c \<and> (\<exists>r. db' (sem_name name) = Some r \<and> length (active_holders now (sr_holders r)) = held \<and>
           1 \<le> pos \<and> pos \<le> length (sr_queue r) \<and> sw_owner (sr_queue r ! (pos - 1)) = owner)"
proof -
  have place: "1 \<le> queue_position owner q \<and> queue_position owner q \<le> length q \<and>
      sw_owner (q ! (queue_position owner q - 1)) = owner" if "\<exists>w \<in> set q. sw_owner w = owner" for q
  proof -
    have "length (takeWhile (\<lambda>w. sw_owner w \<noteq> owner) q) < length q"
      using that by (metis (mono_tags, lifting) length_takeWhile_le linorder_not_le nat_less_le takeWhile_eq_all_conv
          takeWhile_eq_take take_all_iff)
    then show ?thesis using that nth_length_takeWhile by (fastforce simp: queue_position_def list_ex_iff)
  qed
  have twice: "active_holders now (active_holders now hs) = active_holders now hs" for hs
    by (simp add: active_holders_def)
  show ?thesis
  proof (cases "sem_run ops (sem_name name)")
    case None
    then show ?thesis using assms
      by (auto simp: sem_acquire_def Let_def active_holders_def max_def split: if_splits)
  next
    case (Some r)
    then have r: "sem_row_ok r" using sem_run_inv by (simp add: sem_inv_def)
    then have "int (length (active_holders now (sr_holders r))) \<le> sr_capacity r"
      using active_holders_length [of now "sr_holders r"] by (simp add: sem_row_ok_def)
    moreover define q where "q = (if list_ex (\<lambda>w. sw_owner w = owner) (sr_queue r) then sr_queue r
        else sr_queue r @ [\<lparr>sw_id = ''wait_'' @ take 8 uid, sw_owner = owner, sw_purpose = purpose, sw_requested = now\<rparr>])"
    moreover have "\<exists>w \<in> set q. sw_owner w = owner" by (auto simp: q_def list_ex_iff)
    ultimately show ?thesis using assms Some place [of q] twice
      by (simp add: sem_acquire_def Let_def q_def [symmetric] split: if_splits) auto
  qed
qed

theorem semaphore_refusal_is_full_witness:
  "\<exists>db' act. sem_acquire 4 ''u4'' ''gpu'' ''c'' 1 60 ''x'' (sem_run demo_sem_ops) = (db', SemFull 2 2 1 act) \<and> int 2 = (2::int)"
proof -
  let ?a = "sem_acquire 4 ''u4'' ''gpu'' ''c'' 1 60 ''x'' (sem_run demo_sem_ops)"
  have "snd ?a = SemFull 2 2 1 [(''sem_u1'', ''a'', 61), (''sem_u2'', ''b'', 62)]" by code_simp
  then have a: "?a = (fst ?a, SemFull 2 2 1 [(''sem_u1'', ''a'', 61), (''sem_u2'', ''b'', 62)])"
    by (metis prod.collapse)
  show ?thesis using semaphore_refusal_is_full [OF a] a by blast
qed

end
