(* ===== verification/Circuit_Breaker.thy ===== *)
theory Circuit_Breaker
  imports Hub_Prelude
begin

text \<open>
  \<open>CircuitBreakerRegistry\<close> and \<open>LatencyWindow\<close> of \<open>resilience.py\<close>.  The registry is an
  insertion-ordered dict of breaker states; \<open>time.monotonic()\<close> is an argument.  Float arithmetic
  on clock readings is exact here.
\<close>

section \<open>The registry\<close>

record breaker_state =
  bs_failures :: int
  bs_opened :: seconds
  bs_probe :: bool
  bs_since :: seconds

record breaker_reg =
  br_threshold :: int
  br_cooldown :: seconds
  br_probe_timeout :: seconds
  br_max :: int
  br_states :: "(string \<times> breaker_state) list"

definition fresh_breaker :: breaker_state where
  "fresh_breaker = \<lparr>bs_failures = 0, bs_opened = 0, bs_probe = False, bs_since = 0\<rparr>"

text \<open>A finite non-negative \<open>int\<close> or \<open>float\<close>, not a \<open>bool\<close>; an \<open>int\<close> too large for a float is refused.\<close>

definition breaker_seconds :: "pyval \<Rightarrow> seconds option" where
  "breaker_seconds v =
     (case v of
        PInt i \<Rightarrow> if i < 0 \<or> 2 ^ 1024 - 2 ^ 970 \<le> i then None else Some (of_int i)
      | PFloat (Fin r) \<Rightarrow> if r < 0 then None else Some r
      | _ \<Rightarrow> None)"

definition new_registry :: "pyval \<Rightarrow> pyval \<Rightarrow> pyval \<Rightarrow> pyval \<Rightarrow> string + breaker_reg" where
  "new_registry failure_threshold cooldown probe_timeout max_breakers =
     (case failure_threshold of
        PInt th \<Rightarrow>
          if th < 1 then Inl ''failure_threshold must be a positive integer''
          else (case max_breakers of
                  PInt mb \<Rightarrow>
                    if mb < 1 \<or> 4096 < mb then Inl ''max_breakers must be an integer between 1 and 4096''
                    else (case (breaker_seconds cooldown, breaker_seconds probe_timeout) of
                            (None, _) \<Rightarrow> Inl ''cooldown_seconds must be finite and non-negative''
                          | (_, None) \<Rightarrow> Inl ''probe_timeout_seconds must be finite and non-negative''
                          | (Some c, Some p) \<Rightarrow>
                              Inr \<lparr>br_threshold = max 1 th, br_cooldown = max (1 / 100) c,
                                   br_probe_timeout = max (1 / 100) p, br_max = max 1 (min 4096 mb),
                                   br_states = []\<rparr>)
                | _ \<Rightarrow> Inl ''max_breakers must be an integer between 1 and 4096'')
      | _ \<Rightarrow> Inl ''failure_threshold must be a positive integer'')"

definition clean_key :: "pyval \<Rightarrow> string option" where
  "clean_key v =
     (case v of PStr s \<Rightarrow> if py_strip s = [] \<or> 512 < length s \<or> nul \<in> set s then None else Some (py_strip s)
      | _ \<Rightarrow> None)"

definition get_or_create :: "string \<Rightarrow> breaker_reg \<Rightarrow> breaker_reg \<times> breaker_state option" where
  "get_or_create key reg =
     (case map_of (br_states reg) key of
        Some st \<Rightarrow> (reg, Some st)
      | None \<Rightarrow>
          if int (length (br_states reg)) < br_max reg
          then (reg\<lparr>br_states := dict_set (br_states reg) key fresh_breaker\<rparr>, Some fresh_breaker)
          else (reg, None))"

definition put_breaker :: "string \<Rightarrow> breaker_state \<Rightarrow> breaker_reg \<Rightarrow> breaker_reg" where
  "put_breaker key st reg = reg\<lparr>br_states := dict_set (br_states reg) key st\<rparr>"

definition breaker_allow :: "seconds \<Rightarrow> string \<Rightarrow> breaker_reg \<Rightarrow> breaker_reg \<times> bool" where
  "breaker_allow now key reg =
     (case get_or_create key reg of
        (reg', None) \<Rightarrow> (reg', False)
      | (reg', Some st) \<Rightarrow>
          if bs_opened st = 0 then (reg', True)
          else if now - bs_opened st < br_cooldown reg then (reg', False)
          else if bs_probe st \<and> \<not> (br_probe_timeout reg < now - bs_since st) then (reg', False)
          else (put_breaker key (st\<lparr>bs_probe := True, bs_since := now\<rparr>) reg', True))"

definition breaker_success :: "string \<Rightarrow> breaker_reg \<Rightarrow> breaker_reg" where
  "breaker_success key reg =
     (case get_or_create key reg of
        (reg', None) \<Rightarrow> reg'
      | (reg', Some _) \<Rightarrow> put_breaker key fresh_breaker reg')"

definition breaker_failure :: "seconds \<Rightarrow> string \<Rightarrow> breaker_reg \<Rightarrow> breaker_reg" where
  "breaker_failure now key reg =
     (case get_or_create key reg of
        (reg', None) \<Rightarrow> reg'
      | (reg', Some st) \<Rightarrow>
          (let st' = st\<lparr>bs_failures := bs_failures st + 1, bs_probe := False\<rparr> in
           put_breaker key (if br_threshold reg \<le> bs_failures st' then st'\<lparr>bs_opened := now\<rparr> else st') reg'))"

text \<open>\<open>status\<close>: failures, open, remaining cooldown (before \<open>round(_, 2)\<close>), live probe.\<close>

definition breaker_status :: "seconds \<Rightarrow> breaker_reg \<Rightarrow> (string \<times> int \<times> bool \<times> seconds \<times> bool) list" where
  "breaker_status now reg =
     map (\<lambda>(key, st). (key, bs_failures st,
            bs_opened st \<noteq> 0 \<and> now - bs_opened st < br_cooldown reg,
            (if bs_opened st \<noteq> 0 then max 0 (br_cooldown reg - (now - bs_opened st)) else 0),
            bs_probe st \<and> now - bs_since st \<le> br_probe_timeout reg)) (br_states reg)"

datatype breaker_op = BAllow seconds pyval | BSuccess pyval | BFailure seconds pyval

text \<open>The public operations clean the key first; a bad key raises and changes nothing.\<close>

fun breaker_exec :: "breaker_reg \<Rightarrow> breaker_op \<Rightarrow> breaker_reg" where
  "breaker_exec reg (BAllow now k) =
     (case clean_key k of None \<Rightarrow> reg | Some key \<Rightarrow> fst (breaker_allow now key reg))"
| "breaker_exec reg (BSuccess k) = (case clean_key k of None \<Rightarrow> reg | Some key \<Rightarrow> breaker_success key reg)"
| "breaker_exec reg (BFailure now k) = (case clean_key k of None \<Rightarrow> reg | Some key \<Rightarrow> breaker_failure now key reg)"

section \<open>\<open>LatencyWindow\<close>\<close>

record latency_window =
  lat_size :: nat
  lat_values :: "(real \<times> bool) list"

definition new_window :: "int \<Rightarrow> latency_window" where
  "new_window n = \<lparr>lat_size = nat (max 8 n), lat_values = []\<rparr>"

text \<open>A \<open>deque(maxlen=n)\<close> drops from the left.\<close>

definition window_add :: "real \<Rightarrow> bool \<Rightarrow> latency_window \<Rightarrow> latency_window" where
  "window_add ms ok w =
     (let vs = lat_values w @ [(ms, ok)] in w\<lparr>lat_values := drop (length vs - lat_size w) vs\<rparr>)"

definition window_stats :: "latency_window \<Rightarrow> nat \<times> real \<times> real" where
  "window_stats w =
     (let vs = lat_values w; n = length vs in
      if vs = [] then (0, 0, 0)
      else (n, sum_list (map fst vs) / of_nat n, of_nat (length (filter (\<lambda>v. \<not> snd v) vs)) / of_nat n))"

section \<open>Properties\<close>

definition reg_inv :: "breaker_reg \<Rightarrow> bool" where
  "reg_inv reg \<longleftrightarrow> distinct (map fst (br_states reg)) \<and> int (length (br_states reg)) \<le> br_max reg"

lemma put_breaker_known:
  assumes "reg_inv reg" "key \<in> fst ` set (br_states reg)" shows "reg_inv (put_breaker key st reg)"
  using assms by (simp add: reg_inv_def put_breaker_def distinct_dict_set length_dict_set)

lemma get_or_create_inv:
  assumes "reg_inv reg" "get_or_create key reg = (reg', r)"
  shows "reg_inv reg' \<and> (r \<noteq> None \<longrightarrow> map_of (br_states reg') key = r) \<and>
         br_threshold reg' = br_threshold reg \<and> br_cooldown reg' = br_cooldown reg \<and>
         br_probe_timeout reg' = br_probe_timeout reg \<and> br_max reg' = br_max reg"
  using assms
  by (auto simp: get_or_create_def reg_inv_def distinct_dict_set length_dict_set map_of_eq_None_iff
      split: option.splits if_splits)

lemma map_of_key: "map_of d k = Some v \<Longrightarrow> k \<in> fst ` set d"
  by (metis domI dom_map_of_conv_image_fst)

lemma breaker_ops_inv:
  assumes "reg_inv reg"
  shows "reg_inv (fst (breaker_allow now key reg))" "reg_inv (breaker_success key reg)"
    "reg_inv (breaker_failure now key reg)"
proof -
  obtain reg' r where g: "get_or_create key reg = (reg', r)" by (cases "get_or_create key reg")
  note gi = get_or_create_inv [OF assms g]
  show "reg_inv (fst (breaker_allow now key reg))" "reg_inv (breaker_success key reg)"
    "reg_inv (breaker_failure now key reg)"
    using gi by (cases r; auto simp: breaker_allow_def breaker_success_def breaker_failure_def g Let_def
        dest: map_of_key intro: put_breaker_known)+
qed

lemma breaker_exec_inv: "reg_inv reg \<Longrightarrow> reg_inv (breaker_exec reg oper)"
  by (cases oper) (auto simp: breaker_ops_inv split: option.splits)

interpretation breaker_store: inv_machine breaker_exec reg_inv
  by unfold_locales (rule breaker_exec_inv)

lemma allow_cases:
  assumes "breaker_allow now key reg = (reg', True)" and "map_of (br_states reg) key = Some st" and "bs_opened st \<noteq> 0"
  shows "reg' = put_breaker key (st\<lparr>bs_probe := True, bs_since := now\<rparr>) reg"
    and "br_cooldown reg \<le> now - bs_opened st"
  using assms by (auto simp: breaker_allow_def get_or_create_def split: if_splits)

lemma failure_step:
  assumes "get_or_create key reg = (reg0, Some st)"
  shows "map_of (br_states (breaker_failure t key reg)) key =
      Some (st\<lparr>bs_failures := bs_failures st + 1, bs_probe := False,
               bs_opened := if br_threshold reg \<le> bs_failures st + 1 then t else bs_opened st\<rparr>)"
    and "br_threshold (breaker_failure t key reg) = br_threshold reg"
    and "br_cooldown (breaker_failure t key reg) = br_cooldown reg"
  using assms by (auto simp: breaker_failure_def put_breaker_def Let_def get_or_create_def
      split: option.splits if_splits)

lemma failures_open:
  assumes "get_or_create key reg = (reg0, Some st)" "0 \<le> bs_failures st" "ts \<noteq> []"
    "br_threshold reg \<le> bs_failures st + int (length ts)"
  shows "\<exists>st'. map_of (br_states (foldl (\<lambda>r t. breaker_failure t key r) reg ts)) key = Some st' \<and>
      bs_opened st' = last ts \<and> \<not> bs_probe st' \<and>
      br_cooldown (foldl (\<lambda>r t. breaker_failure t key r) reg ts) = br_cooldown reg"
  using assms
proof (induction ts arbitrary: reg reg0 st)
  case (Cons t ts)
  note step = failure_step [OF Cons.prems(1)]
  show ?case
  proof (cases "ts = []")
    case True
    then show ?thesis using step Cons.prems by simp
  next
    case False
    have g: "get_or_create key (breaker_failure t key reg) = (breaker_failure t key reg,
        Some (st\<lparr>bs_failures := bs_failures st + 1, bs_probe := False,
               bs_opened := if br_threshold reg \<le> bs_failures st + 1 then t else bs_opened st\<rparr>))"
      using step(1) by (simp add: get_or_create_def)
    show ?thesis using Cons.IH [OF g] Cons.prems False step by simp
  qed
qed simp

text \<open>
  The registry never holds more breakers than its limit, whatever operations run on it.
\<close>

theorem breaker_registry_bounded:
  assumes "new_registry th cd pt mb = Inr reg"
  shows "int (length (br_states (foldl breaker_exec reg ops))) \<le> br_max reg \<and> br_max reg \<le> 4096"
proof -
  have "reg_inv reg" "br_max reg \<le> 4096"
    using assms by (auto simp: new_registry_def reg_inv_def split: pyval.splits if_splits option.splits)
  moreover have "br_max (foldl breaker_exec reg ops) = br_max reg"
  proof (induction ops rule: rev_induct)
    case (snoc x xs)
    then show ?case
      by (cases x) (auto simp: breaker_allow_def breaker_success_def breaker_failure_def get_or_create_def
          put_breaker_def Let_def split: option.splits if_splits)
  qed simp
  ultimately show ?thesis using breaker_store.inv_run [of reg ops] by (simp add: reg_inv_def)
qed

theorem breaker_registry_bounded_witness:
  "\<exists>reg. new_registry (PInt 2) (PInt 20) (PInt 30) (PInt 1) = Inr reg \<and>
     int (length (br_states (foldl breaker_exec reg [BAllow 1 (PStr ''a''), BFailure 2 (PStr ''b'')]))) \<le> br_max reg"
proof -
  obtain reg where reg: "new_registry (PInt 2) (PInt 20) (PInt 30) (PInt 1) = Inr reg"
    by (simp add: new_registry_def breaker_seconds_def)
  then show ?thesis using breaker_registry_bounded [OF reg] by blast
qed

text \<open>
  The breaker opens: once a tracked resource has failed \<open>failure_threshold\<close> times in a row (the
  last time at \<open>t\<close>), every request less than the cooldown later is refused, whatever else happens to
  other resources' counts before.
\<close>

theorem breaker_opens_after_threshold:
  assumes "get_or_create key reg = (reg0, Some st)" and "0 \<le> bs_failures st" and "ts \<noteq> []"
    and "br_threshold reg \<le> int (length ts)" and "last ts \<noteq> 0" and "now - last ts < br_cooldown reg"
  shows "snd (breaker_allow now key (foldl (\<lambda>r t. breaker_failure t key r) reg ts)) = False"
proof -
  obtain st' where "map_of (br_states (foldl (\<lambda>r t. breaker_failure t key r) reg ts)) key = Some st'"
      "bs_opened st' = last ts" "br_cooldown (foldl (\<lambda>r t. breaker_failure t key r) reg ts) = br_cooldown reg"
    using failures_open [OF assms(1-3)] assms(2,4) by auto
  then show ?thesis using assms(5,6) by (simp add: breaker_allow_def get_or_create_def)
qed

definition demo_reg :: breaker_reg where
  "demo_reg = \<lparr>br_threshold = 2, br_cooldown = 20, br_probe_timeout = 30, br_max = 4, br_states = []\<rparr>"

theorem breaker_opens_after_threshold_witness:
  "snd (breaker_allow 21 ''gpu'' (foldl (\<lambda>r t. breaker_failure t ''gpu'' r) demo_reg [1, 2])) = False"
  by (rule breaker_opens_after_threshold [of "''gpu''" demo_reg "demo_reg\<lparr>br_states := [(''gpu'', fresh_breaker)]\<rparr>" fresh_breaker])
     (simp_all add: demo_reg_def get_or_create_def fresh_breaker_def)

text \<open>
  Half-open is one probe at a time: when an open circuit lets a request through at \<open>t\<close>, it refuses
  the resource until the probe reports or \<open>probe_timeout\<close> seconds have passed.
\<close>

theorem breaker_single_probe:
  assumes "map_of (br_states reg) key = Some st" and "bs_opened st \<noteq> 0"
    and "breaker_allow t key reg = (reg', True)" and "t' - t \<le> br_probe_timeout reg"
  shows "snd (breaker_allow t' key reg') = False \<and> map_of (br_states (fst (breaker_allow t' key reg'))) key = map_of (br_states reg') key"
  using assms(2,4) allow_cases [OF assms(3,1,2)]
  by (simp add: breaker_allow_def get_or_create_def put_breaker_def)

theorem breaker_single_probe_witness:
  "\<exists>reg'. breaker_allow 30 ''gpu'' (foldl (\<lambda>r t. breaker_failure t ''gpu'' r) demo_reg [1, 2]) = (reg', True) \<and>
     snd (breaker_allow 60 ''gpu'' reg') = False"
proof -
  let ?reg = "foldl (\<lambda>r t. breaker_failure t ''gpu'' r) demo_reg [1, 2]"
  have st: "map_of (br_states ?reg) ''gpu'' = Some \<lparr>bs_failures = 2, bs_opened = 2, bs_probe = False, bs_since = 0\<rparr>"
    by (simp add: demo_reg_def breaker_failure_def get_or_create_def put_breaker_def fresh_breaker_def Let_def)
  have "snd (breaker_allow 30 ''gpu'' ?reg) = True" by code_simp
  then have al: "breaker_allow 30 ''gpu'' ?reg = (fst (breaker_allow 30 ''gpu'' ?reg), True)"
    by (metis prod.collapse)
  have "br_probe_timeout ?reg = 30"
    by code_simp
  then show ?thesis using breaker_single_probe [OF st _ al, of 60] al by auto
qed

lemma window_bounded: "length (lat_values w) \<le> lat_size w \<Longrightarrow> length (lat_values (window_add ms ok w)) \<le> lat_size w"
  by (simp add: window_add_def Let_def)

end
