(* ===== verification/Recovery_Journal.thy ===== *)
theory Recovery_Journal
  imports Hub_Prelude
begin

text \<open>
  The crash-safe request journal of \<open>resilience.py\<close> (\<open>RecoveryJournal\<close>): the table \<open>requests\<close> and
  the in-memory state of the write-behind completion queue.  Every method holds the journal's lock
  for its state change, so a run is a sequence of calls interleaved with the steps of the writer
  thread: take a batch, commit its rows (without the lock), settle it in memory, or fail.  What a
  method reads outside its locked block is read from a state of its own: the flag that \<open>begin\<close> tests
  on entry, and the overlay of queued completions, which \<open>begin\<close> and the look-ups read after they have
  dropped the lock.  The clock, the fingerprint, the encoded response and \<open>sys.getsizeof\<close> are arguments; \<open>json.loads\<close> is the parameter \<open>decode\<close>.
\<close>

section \<open>Data\<close>

record completion =
  jc_id :: string
  jc_state :: string
  jc_updated :: seconds
  jc_detail :: string
  jc_status :: int
  jc_response :: string
  jc_seq :: nat

record request_row =
  jr_id :: string
  jr_action :: string
  jr_fp :: string
  jr_state :: string
  jr_created :: seconds
  jr_updated :: seconds
  jr_detail :: string
  jr_status :: int
  jr_response :: string

record journal =
  jn_rows :: "request_row list"
  jn_unavailable :: bool
  jn_pending :: "completion list"
  jn_overlay :: "string \<rightharpoonup> completion"
  jn_seq :: nat
  jn_running :: bool
  jn_closing :: bool
  jn_error :: bool
  jn_overflowed :: bool
  jn_retained :: nat
  jn_reserved :: "(nat \<times> nat) list"
  jn_batch :: "completion list"
  jn_written :: bool

definition write_queue_capacity :: nat where "write_queue_capacity = 1024"
definition max_retained_bytes :: nat where "max_retained_bytes = 8 * 1024 * 1024"

definition empty_journal :: "request_row list \<Rightarrow> journal" where
  "empty_journal rows =
     \<lparr>jn_rows = rows, jn_unavailable = False, jn_pending = [], jn_overlay = Map.empty, jn_seq = 0,
      jn_running = False, jn_closing = False, jn_error = False, jn_overflowed = False,
      jn_retained = 0, jn_reserved = [], jn_batch = [], jn_written = False\<rparr>"

definition validate_request_id :: "pyval \<Rightarrow> string option" where
  "validate_request_id v =
     (case v of
        PStr s \<Rightarrow> if 1 \<le> length s \<and> length s \<le> 128 \<and>
                     list_all (\<lambda>c. 33 \<le> (of_char c :: nat) \<and> (of_char c :: nat) \<le> 126) s
                  then Some s else None
      | _ \<Rightarrow> None)"

section \<open>\<open>begin\<close>\<close>

text \<open>What \<open>begin\<close> and \<open>lookup\<close> answer about a request.\<close>

record outcome =
  oc_claimed :: bool
  oc_state :: string
  oc_status :: int
  oc_response :: "pyval option"
  oc_updated :: "seconds option"
  oc_unknown :: bool

datatype begin_result = BadRequestId | JournalUnavailable | Outcome outcome

text \<open>\<open>_decode_response\<close>: nothing, undecodable text and JSON \<open>null\<close> are all \<open>None\<close>.\<close>

definition decode_response :: "(string \<Rightarrow> pyval option) \<Rightarrow> string \<Rightarrow> pyval option" where
  "decode_response decode s =
     (if s = [] then None
      else (case decode s of Some v \<Rightarrow> if v = PNone then None else Some v | None \<Rightarrow> None))"

definition finished_state :: "string \<Rightarrow> bool" where
  "finished_state s \<longleftrightarrow> s = ''done'' \<or> s = ''failed''"

text \<open>\<open>result.update(_completion_result(pending))\<close>\<close>

definition overlay_outcome :: "(string \<Rightarrow> pyval option) \<Rightarrow> completion \<Rightarrow> outcome \<Rightarrow> outcome" where
  "overlay_outcome decode c oc =
     (let r = decode_response decode (jc_response c) in
      oc\<lparr>oc_state := jc_state c, oc_status := jc_status c, oc_response := r,
         oc_updated := Some (jc_updated c),
         oc_unknown := oc_unknown oc \<or> (finished_state (jc_state c) \<and> r = None)\<rparr>)"

definition conflict_outcome :: outcome where
  "conflict_outcome = \<lparr>oc_claimed = False, oc_state = ''conflict'', oc_status = 0, oc_response = None,
     oc_updated = None, oc_unknown = False\<rparr>"

definition row_outcome :: "(string \<Rightarrow> pyval option) \<Rightarrow> request_row \<Rightarrow> outcome" where
  "row_outcome decode r =
     (let resp = decode_response decode (jr_response r) in
      \<lparr>oc_claimed = False, oc_state = jr_state r, oc_status = jr_status r, oc_response = resp,
       oc_updated = Some (jr_updated r),
       oc_unknown = jr_state r = ''abandoned'' \<or> (finished_state (jr_state r) \<and> resp = None)\<rparr>)"

text \<open>The block of \<open>begin\<close> that holds the lock and the write transaction.\<close>

definition begin_locked ::
  "(string \<Rightarrow> pyval option) \<Rightarrow> seconds \<Rightarrow> string \<Rightarrow> string \<Rightarrow> string \<Rightarrow> journal \<Rightarrow> journal \<times> outcome" where
  "begin_locked decode now rid action fingerprint j =
     (case find (\<lambda>r. jr_id r = rid) (jn_rows j) of
        None \<Rightarrow>
          (j\<lparr>jn_rows := jn_rows j @ [\<lparr>jr_id = rid, jr_action = action, jr_fp = fingerprint,
              jr_state = ''running'', jr_created = now, jr_updated = now, jr_detail = [],
              jr_status = 0, jr_response = []\<rparr>]\<rparr>,
           \<lparr>oc_claimed = True, oc_state = ''running'', oc_status = 0, oc_response = None,
            oc_updated = None, oc_unknown = False\<rparr>)
      | Some r \<Rightarrow>
          if jr_action r \<noteq> action \<or> jr_fp r \<noteq> fingerprint then (j, conflict_outcome)
          else (j, row_outcome decode r))"

text \<open>
  \<open>unavailable\<close> is the flag as read on entry, \<open>j\<close> the journal when the lock is held, \<open>overlay\<close> the
  queued completions as read after the lock is dropped.
\<close>

definition begin_request ::
  "(string \<Rightarrow> pyval option) \<Rightarrow> bool \<Rightarrow> seconds \<Rightarrow> pyval \<Rightarrow> string \<Rightarrow> string \<Rightarrow> (string \<rightharpoonup> completion) \<Rightarrow> journal \<Rightarrow>
   journal \<times> begin_result" where
  "begin_request decode unavailable now request_id action fingerprint overlay j =
     (case validate_request_id request_id of
        None \<Rightarrow> (j, BadRequestId)
      | Some rid \<Rightarrow>
          if unavailable then (j, JournalUnavailable)
          else
            (let (j', oc) = begin_locked decode now rid action fingerprint j in
             (j', Outcome (case overlay rid of
                             Some c \<Rightarrow> if oc_state oc \<noteq> ''conflict'' then overlay_outcome decode c oc else oc
                           | None \<Rightarrow> oc))))"

section \<open>\<open>finish\<close> and the writer\<close>

text \<open>\<open>_completion_retained_size\<close>; \<open>sizeof\<close> is \<open>sys.getsizeof\<close> on a string.\<close>

definition retained_size :: "(string \<Rightarrow> nat) \<Rightarrow> completion \<Rightarrow> nat" where
  "retained_size sizeof c =
     sizeof (jc_id c) + sizeof (jc_state c) + sizeof (jc_detail c) + sizeof (jc_response c) + 512"

text \<open>
  \<open>encoded\<close> is the JSON text of the response, \<open>None\<close> when there is no response or it cannot be
  encoded; text above two million UTF-8 bytes is not kept.
\<close>

definition kept_response :: "string option \<Rightarrow> string" where
  "kept_response encoded =
     (case encoded of None \<Rightarrow> [] | Some s \<Rightarrow> if utf8_len s \<le> 2000000 then s else [])"

definition finish_request ::
  "(string \<Rightarrow> nat) \<Rightarrow> seconds \<Rightarrow> pyval \<Rightarrow> bool \<Rightarrow> string \<Rightarrow> int \<Rightarrow> string option \<Rightarrow> journal \<Rightarrow> journal" where
  "finish_request sizeof now request_id success detail status_code encoded j =
     (case validate_request_id request_id of
        None \<Rightarrow> j
      | Some rid \<Rightarrow>
          if jn_closing j \<or> jn_error j \<or> jn_overflowed j then j\<lparr>jn_unavailable := True\<rparr>
          else if write_queue_capacity \<le> length (jn_pending j)
          then j\<lparr>jn_overflowed := True, jn_unavailable := True\<rparr>
          else
            (let sq = jn_seq j + 1;
                 c = \<lparr>jc_id = rid, jc_state = (if success then ''done'' else ''failed''), jc_updated = now,
                      jc_detail = take 500 detail, jc_status = status_code,
                      jc_response = kept_response encoded, jc_seq = sq + 1\<rparr>;
                 sz = retained_size sizeof c in
             if max_retained_bytes < jn_retained j + sz
             then j\<lparr>jn_seq := sq, jn_overflowed := True, jn_unavailable := True\<rparr>
             else j\<lparr>jn_seq := sq + 1, jn_reserved := dict_set (jn_reserved j) (jc_seq c) sz,
                    jn_retained := jn_retained j + sz, jn_overlay := (jn_overlay j)(rid \<mapsto> c),
                    jn_pending := jn_pending j @ [c], jn_running := True\<rparr>))"

text \<open>The writer takes every queued completion, at most the capacity, or stops when there is none.\<close>

definition writer_take :: "journal \<Rightarrow> journal" where
  "writer_take j =
     (if \<not> jn_running j \<or> jn_batch j \<noteq> [] then j
      else if jn_pending j = [] then j\<lparr>jn_running := False\<rparr>
      else j\<lparr>jn_batch := take write_queue_capacity (jn_pending j), jn_written := False,
             jn_pending := drop write_queue_capacity (jn_pending j)\<rparr>)"

definition apply_completion :: "request_row list \<Rightarrow> completion \<Rightarrow> request_row list" where
  "apply_completion rows c =
     update_where (\<lambda>r. jr_id r = jc_id c)
       (\<lambda>r. r\<lparr>jr_state := jc_state c, jr_updated := jc_updated c, jr_detail := jc_detail c,
              jr_status := jc_status c, jr_response := jc_response c\<rparr>) rows"

text \<open>After a written batch, one completion is settled: its bytes and, unless a newer one replaced
  it, its overlay are dropped.\<close>

definition settle :: "journal \<Rightarrow> completion \<Rightarrow> journal" where
  "settle j c =
     j\<lparr>jn_retained := jn_retained j - (case map_of (jn_reserved j) (jc_seq c) of None \<Rightarrow> 0 | Some n \<Rightarrow> n),
       jn_reserved := filter (\<lambda>(k, _). k \<noteq> jc_seq c) (jn_reserved j),
       jn_overlay := (case jn_overlay j (jc_id c) of
                        Some p \<Rightarrow> if jc_seq p = jc_seq c then (jn_overlay j)(jc_id c := None) else jn_overlay j
                      | None \<Rightarrow> jn_overlay j)\<rparr>"

text \<open>The transaction of a batch, which holds no lock, and, later, its settlement under the lock.\<close>

definition writer_written :: "journal \<Rightarrow> journal" where
  "writer_written j =
     (if jn_batch j = [] \<or> jn_written j then j
      else j\<lparr>jn_rows := foldl apply_completion (jn_rows j) (jn_batch j), jn_written := True\<rparr>)"

definition writer_settled :: "journal \<Rightarrow> journal" where
  "writer_settled j =
     (if jn_written j then foldl settle (j\<lparr>jn_batch := [], jn_written := False\<rparr>) (jn_batch j) else j)"

definition writer_failed :: "journal \<Rightarrow> journal" where
  "writer_failed j =
     (if jn_batch j = [] then j
      else j\<lparr>jn_error := True, jn_unavailable := True, jn_pending := [], jn_overlay := Map.empty,
             jn_batch := [], jn_written := False, jn_reserved := [], jn_retained := 0, jn_running := False\<rparr>)"

definition close_journal :: "journal \<Rightarrow> journal" where
  "close_journal j =
     j\<lparr>jn_closing := True,
       jn_running := jn_running j \<or> (jn_pending j \<noteq> [] \<and> \<not> jn_error j)\<rparr>"

section \<open>Look-up and recovery\<close>

text \<open>The row is read under the lock, in \<open>j\<close>; the overlay after it is dropped, in a later \<open>j'\<close>.\<close>

definition lookup_request ::
  "(string \<Rightarrow> pyval option) \<Rightarrow> pyval \<Rightarrow> string \<Rightarrow> string \<Rightarrow> journal \<Rightarrow> journal \<Rightarrow> outcome option" where
  "lookup_request decode request_id action fingerprint j j' =
     (case validate_request_id request_id of
        None \<Rightarrow> None
      | Some rid \<Rightarrow>
          (case find (\<lambda>r. jr_id r = rid) (jn_rows j) of
             None \<Rightarrow> None
           | Some r \<Rightarrow>
               Some (if jr_action r \<noteq> action \<or> jr_fp r \<noteq> fingerprint then conflict_outcome
                     else (case jn_overlay j' rid of
                             Some c \<Rightarrow> overlay_outcome decode c ((row_outcome decode r)\<lparr>oc_unknown := False\<rparr>)
                           | None \<Rightarrow> row_outcome decode r))))"

text \<open>\<open>lookup_metadata\<close>: the same without a response; a stored response is not decoded.\<close>

definition lookup_metadata ::
  "(string \<Rightarrow> pyval option) \<Rightarrow> pyval \<Rightarrow> string \<Rightarrow> journal \<Rightarrow> journal \<Rightarrow> outcome option" where
  "lookup_metadata decode request_id action j j' =
     (case validate_request_id request_id of
        None \<Rightarrow> None
      | Some rid \<Rightarrow>
          (case find (\<lambda>r. jr_id r = rid) (jn_rows j) of
             None \<Rightarrow> None
           | Some r \<Rightarrow>
               Some (if jr_action r \<noteq> action then conflict_outcome
                     else (case jn_overlay j' rid of
                             Some c \<Rightarrow> (overlay_outcome decode c conflict_outcome)\<lparr>oc_response := None\<rparr>
                           | None \<Rightarrow> \<lparr>oc_claimed = False, oc_state = jr_state r, oc_status = jr_status r,
                                      oc_response = None, oc_updated = Some (jr_updated r),
                                      oc_unknown = jr_state r = ''abandoned'' \<or>
                                        (finished_state (jr_state r) \<and> jr_response r = [])\<rparr>))))"

definition mark_interrupted :: "seconds \<Rightarrow> journal \<Rightarrow> journal \<times> nat" where
  "mark_interrupted now j =
     (j\<lparr>jn_rows := update_where (\<lambda>r. jr_state r = ''running'')
          (\<lambda>r. r\<lparr>jr_state := ''abandoned'', jr_updated := now,
                 jr_detail := ''hub restarted before response completed''\<rparr>) (jn_rows j)\<rparr>,
      count_where (\<lambda>r. jr_state r = ''running'') (jn_rows j))"

definition mark_abandoned :: "int \<Rightarrow> seconds \<Rightarrow> seconds \<Rightarrow> journal \<Rightarrow> journal \<times> nat" where
  "mark_abandoned stale_seconds now now' j =
     (let P = (\<lambda>r. jr_state r = ''running'' \<and> jr_updated r < now - of_int (max 30 stale_seconds)) in
      (j\<lparr>jn_rows := update_where P (\<lambda>r. r\<lparr>jr_state := ''abandoned'', jr_updated := now'\<rparr>) (jn_rows j)\<rparr>,
       count_where P (jn_rows j)))"

text \<open>A restart: the queue is lost, and what was running is marked abandoned before any call.\<close>

definition restart :: "seconds \<Rightarrow> journal \<Rightarrow> journal" where
  "restart now j = fst (mark_interrupted now (empty_journal (jn_rows j)))"

datatype journal_op =
    JBegin bool seconds pyval string string "string \<rightharpoonup> completion"
  | JFinish seconds pyval bool string int "string option"
  | JTake | JWritten | JSettled | JFailed | JClose
  | JAbandon int seconds seconds
  | JRestart seconds

fun journal_exec :: "(string \<Rightarrow> pyval option) \<Rightarrow> (string \<Rightarrow> nat) \<Rightarrow> journal \<Rightarrow> journal_op \<Rightarrow> journal" where
  "journal_exec decode sizeof j (JBegin unavailable now rid action fp overlay) =
     fst (begin_request decode unavailable now rid action fp overlay j)"
| "journal_exec decode sizeof j (JFinish now rid ok detail st enc) = finish_request sizeof now rid ok detail st enc j"
| "journal_exec decode sizeof j JTake = writer_take j"
| "journal_exec decode sizeof j JWritten = writer_written j"
| "journal_exec decode sizeof j JSettled = writer_settled j"
| "journal_exec decode sizeof j JFailed = writer_failed j"
| "journal_exec decode sizeof j JClose = close_journal j"
| "journal_exec decode sizeof j (JAbandon stale now now') = fst (mark_abandoned stale now now' j)"
| "journal_exec decode sizeof j (JRestart now) = restart now j"

section \<open>A request id is claimed once\<close>

definition claims_now :: "(string \<Rightarrow> pyval option) \<Rightarrow> string \<Rightarrow> journal \<Rightarrow> journal_op \<Rightarrow> bool" where
  "claims_now decode rid j oper =
     (case oper of
        JBegin unavailable now r action fp overlay \<Rightarrow>
          (case snd (begin_request decode unavailable now r action fp overlay j) of
             Outcome oc \<Rightarrow> oc_claimed oc \<and> r = PStr rid
           | _ \<Rightarrow> False)
      | _ \<Rightarrow> False)"

fun journal_claims ::
  "(string \<Rightarrow> pyval option) \<Rightarrow> (string \<Rightarrow> nat) \<Rightarrow> string \<Rightarrow> journal \<Rightarrow> journal_op list \<Rightarrow> nat" where
  "journal_claims decode sizeof rid j [] = 0"
| "journal_claims decode sizeof rid j (oper # ops) =
     (if claims_now decode rid j oper then 1 else 0) +
     journal_claims decode sizeof rid (journal_exec decode sizeof j oper) ops"

definition knows :: "string \<Rightarrow> journal \<Rightarrow> bool" where
  "knows rid j \<longleftrightarrow> rid \<in> jr_id ` set (jn_rows j)"

lemma ids_update [simp]:
  assumes "\<And>r. jr_id (f r) = jr_id r"
  shows "jr_id ` set (update_where P f rows) = jr_id ` set rows"
proof -
  have "map jr_id (update_where P f rows) = map jr_id rows" using assms by (rule map_update_where)
  then show ?thesis by (metis list.set_map)
qed

lemma ids_apply [simp]: "jr_id ` set (foldl apply_completion rows cs) = jr_id ` set rows"
  by (induction cs arbitrary: rows) (simp_all add: apply_completion_def)

lemma settle_rows [simp]: "jn_rows (foldl settle j cs) = jn_rows j"
  by (induction cs arbitrary: j) (simp_all add: settle_def)

lemma knows_exec:
  assumes "knows rid j" shows "knows rid (journal_exec decode sizeof j oper)"
  using assms
  by (cases oper)
     (auto simp: knows_def begin_request_def begin_locked_def finish_request_def writer_take_def writer_written_def
        writer_settled_def writer_failed_def
        close_journal_def mark_abandoned_def restart_def mark_interrupted_def empty_journal_def Let_def
        split: option.splits)

interpretation journal_knows: inv_machine "journal_exec decode sizeof" "knows rid" for decode sizeof rid
  by unfold_locales (rule knows_exec)

lemma claim_begin:
  assumes "claims_now decode rid j oper"
  shows "\<not> knows rid j \<and> knows rid (journal_exec decode sizeof j oper)"
proof -
  obtain now action fp overlay oc where oper: "oper = JBegin False now (PStr rid) action fp overlay"
    and res: "snd (begin_request decode False now (PStr rid) action fp overlay j) = Outcome oc" "oc_claimed oc"
    using assms by (auto simp: claims_now_def begin_request_def split: journal_op.splits begin_result.splits option.splits if_splits)
  have rid: "validate_request_id (PStr rid) = Some rid"
    using res by (auto simp: begin_request_def validate_request_id_def split: option.splits if_splits)
  show ?thesis
  proof (cases "find (\<lambda>r. jr_id r = rid) (jn_rows j)")
    case None
    then have "\<not> knows rid j" by (auto simp: knows_def find_None_iff)
    then show ?thesis using None rid by (simp add: oper begin_request_def begin_locked_def knows_def)
  next
    case (Some r)
    then have "\<not> oc_claimed oc"
      using res rid by (auto simp: begin_request_def begin_locked_def conflict_outcome_def row_outcome_def
          overlay_outcome_def Let_def split: if_splits option.splits)
    then show ?thesis using res by simp
  qed
qed

lemma known_never_claimed: "knows rid j \<Longrightarrow> journal_claims decode sizeof rid j ops = 0"
proof (induction ops arbitrary: j)
  case (Cons oper ops)
  then show ?case using claim_begin knows_exec by fastforce
qed simp

text \<open>
  C31. At most one call of \<open>begin\<close> in a whole history claims a request id, across completions,
  abandonments, writer failures and restarts: the work of a request is dispatched at most once.
\<close>

theorem request_claimed_at_most_once:
  "journal_claims decode sizeof rid j ops \<le> 1"
proof (induction ops arbitrary: j)
  case (Cons oper ops)
  show ?case
  proof (cases "claims_now decode rid j oper")
    case True
    then have "knows rid (journal_exec decode sizeof j oper)" using claim_begin by blast
    then show ?thesis using True known_never_claimed [of rid "journal_exec decode sizeof j oper"] by simp
  next
    case False
    then show ?thesis using Cons.IH by simp
  qed
qed simp

section \<open>The completion queue\<close>

definition queue_inv :: "(string \<Rightarrow> nat) \<Rightarrow> journal \<Rightarrow> bool" where
  "queue_inv sizeof j \<longleftrightarrow>
     jn_reserved j = map (\<lambda>c. (jc_seq c, retained_size sizeof c)) (jn_batch j @ jn_pending j) \<and>
     distinct (map jc_seq (jn_batch j @ jn_pending j)) \<and>
     (\<forall>c \<in> set (jn_batch j @ jn_pending j). jc_seq c \<le> jn_seq j) \<and>
     jn_retained j = sum_list (map (retained_size sizeof) (jn_batch j @ jn_pending j)) \<and>
     jn_retained j \<le> max_retained_bytes \<and>
     length (jn_pending j) \<le> write_queue_capacity \<and> length (jn_batch j) \<le> write_queue_capacity"

lemma dict_set_fresh: "k \<notin> fst ` set d \<Longrightarrow> dict_set d k v = d @ [(k, v)]"
  by (induction d k v rule: dict_set.induct) auto

lemma finish_queue_inv:
  assumes inv: "queue_inv sizeof j"
  shows "queue_inv sizeof (finish_request sizeof now rid ok detail st enc j)"
proof -
  have old: "jc_seq c \<le> jn_seq j" if "c \<in> set (jn_batch j @ jn_pending j)" for c
    using inv that by (simp add: queue_inv_def)
  have notin: "Suc (Suc (jn_seq j)) \<notin> jc_seq ` set (jn_batch j)" "Suc (Suc (jn_seq j)) \<notin> jc_seq ` set (jn_pending j)"
    using old by fastforce+
  then have fresh: "Suc (Suc (jn_seq j)) \<notin> fst ` set (jn_reserved j)"
    using inv by (auto simp: queue_inv_def image_iff)
  have le: "c \<in> set (jn_batch j) \<union> set (jn_pending j) \<Longrightarrow> jc_seq c \<le> Suc (Suc (jn_seq j))" for c
    using old [of c] by simp
  show ?thesis
    using inv fresh notin le
    by (auto simp: finish_request_def Let_def queue_inv_def dict_set_fresh le_Suc_eq split: option.splits)
qed

lemma settle_step:
  assumes "jn_reserved j = (jc_seq c, n) # res" "jc_seq c \<notin> fst ` set res"
  shows "jn_reserved (settle j c) = res" "jn_retained (settle j c) = jn_retained j - n"
proof -
  have "filter (\<lambda>(k, _). k \<noteq> jc_seq c) res = res"
    using assms(2) by (intro filter_True) (force simp: image_iff)
  then show "jn_reserved (settle j c) = res" "jn_retained (settle j c) = jn_retained j - n"
    using assms(1) by (simp_all add: settle_def)
qed

lemma settle_same [simp]:
  "jn_batch (foldl settle j cs) = jn_batch j" "jn_pending (foldl settle j cs) = jn_pending j"
  "jn_seq (foldl settle j cs) = jn_seq j" and settle_written: "jn_written (foldl settle j cs) = jn_written j"
  by (induction cs arbitrary: j) (simp_all add: settle_def)

lemma settle_all:
  assumes "jn_reserved j = map (\<lambda>c. (jc_seq c, retained_size sizeof c)) (cs @ ps)"
    and "distinct (map jc_seq (cs @ ps))" and "jn_retained j = sum_list (map (retained_size sizeof) (cs @ ps))"
  shows "jn_reserved (foldl settle j cs) = map (\<lambda>c. (jc_seq c, retained_size sizeof c)) ps \<and>
         jn_retained (foldl settle j cs) = sum_list (map (retained_size sizeof) ps)"
  using assms
proof (induction cs arbitrary: j)
  case (Cons c cs)
  have "jn_reserved j = (jc_seq c, retained_size sizeof c) # map (\<lambda>c. (jc_seq c, retained_size sizeof c)) (cs @ ps)"
    using Cons.prems by simp
  moreover have "jc_seq c \<notin> fst ` set (map (\<lambda>c. (jc_seq c, retained_size sizeof c)) (cs @ ps))"
    using Cons.prems(2) by force
  ultimately show ?case
    using settle_step [of j c] Cons.prems Cons.IH [of "settle j c"] by simp
qed simp

lemma writer_settled_queue_inv:
  assumes "queue_inv sizeof j" shows "queue_inv sizeof (writer_settled j)"
proof -
  let ?j = "j\<lparr>jn_batch := [], jn_written := False\<rparr>"
  have "jn_reserved (foldl settle ?j (jn_batch j)) = map (\<lambda>c. (jc_seq c, retained_size sizeof c)) (jn_pending j) \<and>
        jn_retained (foldl settle ?j (jn_batch j)) = sum_list (map (retained_size sizeof) (jn_pending j))"
    using assms by (intro settle_all) (simp_all add: queue_inv_def)
  then show ?thesis using assms by (simp add: writer_settled_def queue_inv_def)
qed

lemma queue_exec_inv: "queue_inv sizeof j \<Longrightarrow> queue_inv sizeof (journal_exec decode sizeof j oper)"
proof (cases oper)
  case JTake
  assume inv: "queue_inv sizeof j"
  have "xs = take write_queue_capacity xs @ drop write_queue_capacity xs" for xs :: "completion list" by simp
  then show ?thesis
    using inv unfolding JTake by (auto simp: writer_take_def queue_inv_def distinct_map_filter)
next
  case (JBegin unavailable now rid action fp overlay)
  assume "queue_inv sizeof j"
  then show ?thesis unfolding JBegin
    by (auto simp: begin_request_def begin_locked_def queue_inv_def Let_def split: option.splits)
qed (simp_all add: finish_queue_inv writer_settled_queue_inv, auto simp: queue_inv_def writer_written_def writer_failed_def
      close_journal_def mark_abandoned_def restart_def mark_interrupted_def empty_journal_def Let_def)

interpretation journal_queue: inv_machine "journal_exec decode sizeof" "queue_inv sizeof" for decode sizeof
  by unfold_locales (rule queue_exec_inv)

lemma queue_inv_run: "queue_inv sizeof (foldl (journal_exec decode sizeof) (empty_journal rows) ops)"
  by (rule journal_queue.inv_run) (simp add: queue_inv_def empty_journal_def)

text \<open>
  The write-behind queue is bounded: from an opened journal on, at most 1024 completions are
  queued and at most 1024 in flight, and the accounted bytes are exactly those of the queued and
  in-flight completions and never exceed 8 MiB.
\<close>

theorem completion_queue_bounded:
  "let j = foldl (journal_exec decode sizeof) (empty_journal rows) ops in
   length (jn_pending j) \<le> 1024 \<and> length (jn_batch j) \<le> 1024 \<and> jn_retained j \<le> 8388608 \<and>
   jn_retained j = sum_list (map (retained_size sizeof) (jn_batch j @ jn_pending j))"
  using queue_inv_run [of sizeof decode rows ops]
  by (simp add: queue_inv_def write_queue_capacity_def max_retained_bytes_def Let_def)

section \<open>An accepted completion is the answer\<close>

definition row_says :: "completion \<Rightarrow> request_row \<Rightarrow> bool" where
  "row_says c r \<longleftrightarrow> jr_state r = jc_state c \<and> jr_status r = jc_status c \<and> jr_response r = jc_response c"

definition answers :: "completion \<Rightarrow> journal \<Rightarrow> bool" where
  "answers c j \<longleftrightarrow> finished_state (jc_state c) \<and>
     (jn_overlay j (jc_id c) = Some c \<and>
        (\<exists>xs ys. jn_batch j @ jn_pending j = xs @ c # ys \<and> (\<forall>y \<in> set ys. jc_id y \<noteq> jc_id c)) \<and>
        (jn_written j \<and> c \<in> set (jn_batch j) \<longrightarrow> (\<forall>r \<in> set (jn_rows j). jr_id r = jc_id c \<longrightarrow> row_says c r)) \<or>
      jn_overlay j (jc_id c) = None \<and> (\<forall>r \<in> set (jn_rows j). jr_id r = jc_id c \<longrightarrow> row_says c r) \<and>
        (\<forall>y \<in> set (jn_batch j @ jn_pending j). jc_id y \<noteq> jc_id c))"

lemma apply_other:
  "\<forall>y \<in> set cs. jc_id y \<noteq> i \<Longrightarrow> \<forall>r \<in> set rows. jr_id r = i \<longrightarrow> P r
     \<Longrightarrow> \<forall>r \<in> set (foldl apply_completion rows cs). jr_id r = i \<longrightarrow> P r"
proof (induction cs arbitrary: rows)
  case (Cons c cs)
  have "\<forall>r \<in> set (apply_completion rows c). jr_id r = i \<longrightarrow> P r"
    using Cons.prems by (auto simp: apply_completion_def elim!: in_update_whereE split: if_splits)
  then show ?case using Cons by simp
qed simp

lemma apply_last:
  assumes "\<forall>y \<in> set ys. jc_id y \<noteq> jc_id c"
  shows "\<forall>r \<in> set (foldl apply_completion rows (xs @ c # ys)). jr_id r = jc_id c \<longrightarrow> row_says c r"
proof -
  have step: "\<forall>r \<in> set (apply_completion rows' c). jr_id r = jc_id c \<longrightarrow> row_says c r" for rows'
    by (auto simp: apply_completion_def row_says_def elim!: in_update_whereE split: if_splits)
  show ?thesis
    unfolding foldl_append foldl_Cons by (rule apply_other [OF assms step])
qed

lemma settle_overlay_other:
  "\<forall>x \<in> set cs. jc_seq x \<noteq> jc_seq c \<Longrightarrow> jn_overlay j (jc_id c) = Some c
     \<Longrightarrow> jn_overlay (foldl settle j cs) (jc_id c) = Some c"
proof (induction cs arbitrary: j)
  case (Cons x cs)
  then have "jn_overlay (settle j x) (jc_id c) = Some c"
    by (auto simp: settle_def split: option.splits)
  then show ?case using Cons by simp
qed simp

lemma settle_overlay_none:
  "jn_overlay j i = None \<Longrightarrow> jn_overlay (foldl settle j cs) i = None"
proof (induction cs arbitrary: j)
  case (Cons x cs)
  then have "jn_overlay (settle j x) i = None" by (auto simp: settle_def split: option.splits)
  then show ?case using Cons by simp
qed simp

lemma answersE:
  assumes "answers c j"
  obtains (queued) xs ys where "jn_overlay j (jc_id c) = Some c" "jn_batch j @ jn_pending j = xs @ c # ys"
      "\<forall>y \<in> set ys. jc_id y \<noteq> jc_id c"
      "jn_written j \<and> c \<in> set (jn_batch j) \<longrightarrow> (\<forall>r \<in> set (jn_rows j). jr_id r = jc_id c \<longrightarrow> row_says c r)"
  | (stored) "jn_overlay j (jc_id c) = None" "\<forall>r \<in> set (jn_rows j). jr_id r = jc_id c \<longrightarrow> row_says c r"
      "\<forall>y \<in> set (jn_batch j @ jn_pending j). jc_id y \<noteq> jc_id c"
  using assms unfolding answers_def
  apply (elim conjE disjE exE)
  subgoal by (rule queued)
  subgoal by (rule stored)
  done

lemma answers_queued:
  assumes "finished_state (jc_state c)" "jn_overlay j (jc_id c) = Some c" "jn_batch j @ jn_pending j = xs @ c # ys"
    "\<forall>y \<in> set ys. jc_id y \<noteq> jc_id c"
    "jn_written j \<and> c \<in> set (jn_batch j) \<longrightarrow> (\<forall>r \<in> set (jn_rows j). jr_id r = jc_id c \<longrightarrow> row_says c r)"
  shows "answers c j"
  using assms unfolding answers_def by blast

text \<open>Where the completion is in the queue: behind the batch, or in it.\<close>

lemma batch_split:
  assumes "bs @ ps = xs @ c # ys"
  obtains (behind) zs where "xs = bs @ zs" "ps = zs @ c # ys" | (inside) zs where "bs = xs @ c # zs" "ys = zs @ ps"
  using assms by (auto simp: append_eq_append_conv2 append_eq_Cons_conv Cons_eq_append_conv)

lemma answers_written:
  assumes q: "queue_inv sizeof j" and a: "answers c j" shows "answers c (writer_written j)"
proof (cases "jn_batch j = [] \<or> jn_written j")
  case True
  then show ?thesis using a by (simp add: writer_written_def)
next
  case False
  have fin: "finished_state (jc_state c)" using a by (simp add: answers_def)
  show ?thesis
    using a
  proof (cases rule: answersE)
    case stored
    have "\<forall>r \<in> set (foldl apply_completion (jn_rows j) (jn_batch j)). jr_id r = jc_id c \<longrightarrow> row_says c r"
      using stored by (intro apply_other) auto
    then show ?thesis using False fin stored by (simp add: answers_def writer_written_def)
  next
    case (queued xs ys)
    have notin: "c \<notin> set xs" using q queued(2) by (auto simp: queue_inv_def)
    have "c \<in> set (jn_batch j) \<Longrightarrow>
      \<forall>r \<in> set (foldl apply_completion (jn_rows j) (jn_batch j)). jr_id r = jc_id c \<longrightarrow> row_says c r"
      using queued(2)
    proof (cases rule: batch_split)
      case (behind zs)
      moreover assume "c \<in> set (jn_batch j)"
      ultimately show ?thesis using notin by simp
    next
      case (inside zs)
      then show ?thesis using queued(3) by (simp only: inside(1)) (intro apply_last; simp)
    qed
    then show ?thesis using False queued(1-3) fin by (intro answers_queued) (simp_all add: writer_written_def)
  qed
qed

lemma answers_settled:
  assumes q: "queue_inv sizeof j" and a: "answers c j" shows "answers c (writer_settled j)"
proof (cases "jn_written j")
  case False
  then show ?thesis using a by (simp add: writer_settled_def)
next
  case True
  let ?j = "j\<lparr>jn_batch := [], jn_written := False\<rparr>"
  have fin: "finished_state (jc_state c)" using a by (simp add: answers_def)
  have [simp]: "jn_written (foldl settle ?j cs) = False" for cs
    using settle_written [of ?j cs] by simp
  show ?thesis
    using a
  proof (cases rule: answersE)
    case stored
    have "jn_overlay (foldl settle ?j (jn_batch j)) (jc_id c) = None"
      using stored(1) by (intro settle_overlay_none) simp
    then show ?thesis using True fin stored(2,3) by (simp add: answers_def writer_settled_def)
  next
    case (queued xs ys)
    have "distinct (map jc_seq (xs @ c # ys))" using q queued(2) unfolding queue_inv_def by metis
    then have "jc_seq c \<notin> set (map jc_seq xs)" by auto
    then have other: "\<forall>x \<in> set xs. jc_seq x \<noteq> jc_seq c" by (metis image_eqI list.set_map)
    from queued(2) show ?thesis
    proof (cases rule: batch_split)
      case (behind zs)
      have "jn_overlay (foldl settle ?j (jn_batch j)) (jc_id c) = Some c"
        using other queued(1) by (intro settle_overlay_other) (simp_all add: behind(1))
      then show ?thesis using True queued(3) behind(2) fin
        by (intro answers_queued [of _ _ zs ys]) (simp_all add: writer_settled_def)
    next
      case (inside zs)
      have "jn_overlay (foldl settle ?j xs) (jc_id c) = Some c"
        using other queued(1) by (intro settle_overlay_other) simp_all
      then have "jn_overlay (settle (foldl settle ?j xs) c) (jc_id c) = None" by (simp add: settle_def)
      then have "jn_overlay (foldl settle ?j (jn_batch j)) (jc_id c) = None"
        unfolding inside(1) by (simp add: settle_overlay_none)
      moreover have "\<forall>r \<in> set (jn_rows j). jr_id r = jc_id c \<longrightarrow> row_says c r"
        using queued(4) True inside(1) by simp
      ultimately show ?thesis using True fin queued(3) inside(2) by (simp add: answers_def writer_settled_def)
    qed
  qed
qed

text \<open>Operations that leave the recorded outcome of a request alone.\<close>

definition keeps_outcome :: "string \<Rightarrow> journal_op \<Rightarrow> bool" where
  "keeps_outcome rid oper =
     (case oper of
        JFinish now r ok detail st enc \<Rightarrow> r \<noteq> PStr rid
      | JFailed \<Rightarrow> False
      | JRestart now \<Rightarrow> False
      | _ \<Rightarrow> True)"

lemma begin_state:
  "fst (begin_request decode unavailable now request_id action fp overlay j) = j \<or>
   (\<exists>r. \<not> knows (jr_id r) j \<and>
      fst (begin_request decode unavailable now request_id action fp overlay j) = j\<lparr>jn_rows := jn_rows j @ [r]\<rparr>)"
proof (cases "validate_request_id request_id")
  case (Some rid)
  show ?thesis
  proof (cases "find (\<lambda>r. jr_id r = rid) (jn_rows j)")
    case None
    then have "\<not> knows rid j" by (auto simp: knows_def find_None_iff)
    then show ?thesis using Some None by (cases unavailable) (force simp: begin_request_def begin_locked_def)+
  next
    case found: (Some r)
    then show ?thesis using Some by (simp add: begin_request_def begin_locked_def)
  qed
qed (simp add: begin_request_def)

lemma finish_shape:
  fixes j sizeof now request_id success detail status_code encoded
  defines "j' \<equiv> finish_request sizeof now request_id success detail status_code encoded j"
  shows "jn_written j' = jn_written j \<and> (jn_overlay j' = jn_overlay j \<and> jn_rows j' = jn_rows j \<and>
      jn_batch j' = jn_batch j \<and> jn_pending j' = jn_pending j \<or>
     (\<exists>d. validate_request_id request_id = Some (jc_id d) \<and> jc_state d = (if success then ''done'' else ''failed'') \<and>
          jc_status d = status_code \<and> jc_response d = kept_response encoded \<and>
          jn_overlay j' = (jn_overlay j)(jc_id d \<mapsto> d) \<and> jn_rows j' = jn_rows j \<and> jn_batch j' = jn_batch j \<and>
          jn_pending j' = jn_pending j @ [d]))"
proof (cases "validate_request_id request_id")
  case None
  then show ?thesis by (simp add: j'_def finish_request_def)
next
  case (Some rid)
  define d where "d = \<lparr>jc_id = rid, jc_state = (if success then ''done'' else ''failed''), jc_updated = now,
      jc_detail = take 500 detail, jc_status = status_code, jc_response = kept_response encoded,
      jc_seq = jn_seq j + 1 + 1\<rparr>"
  have dd: "jc_id d = rid" "jc_state d = (if success then ''done'' else ''failed'')" "jc_status d = status_code"
    "jc_response d = kept_response encoded"
    by (simp_all add: d_def)
  show ?thesis
    unfolding j'_def finish_request_def Let_def Some option.case d_def [symmetric]
    using dd Some by (auto simp del: fun_upd_apply)
qed

lemma answers_finish:
  assumes a: "answers c j" and ne: "rid \<noteq> PStr (jc_id c)"
  shows "answers c (finish_request sizeof now rid ok detail st enc j)" (is "answers c ?j")
proof -
  have same: "validate_request_id rid = Some i \<Longrightarrow> i \<noteq> jc_id c" for i
    using ne by (auto simp: validate_request_id_def split: pyval.splits if_splits)
  have w: "jn_written ?j = jn_written j" using finish_shape by blast
  consider "jn_overlay ?j = jn_overlay j" "jn_rows ?j = jn_rows j" "jn_batch ?j = jn_batch j" "jn_pending ?j = jn_pending j"
    | d where "jc_id d \<noteq> jc_id c" "jn_overlay ?j = (jn_overlay j)(jc_id d \<mapsto> d)"
      "jn_rows ?j = jn_rows j" "jn_batch ?j = jn_batch j" "jn_pending ?j = jn_pending j @ [d]"
    using finish_shape [of sizeof now rid ok detail st enc j] same by blast
  then show ?thesis
  proof cases
    case 1
    then show ?thesis using a w by (simp add: answers_def)
  next
    case 2
    have fin: "finished_state (jc_state c)" using a by (simp add: answers_def)
    show ?thesis
      using a
    proof (cases rule: answersE)
      case (queued xs ys)
      then show ?thesis using 2 fin w by (intro answers_queued [of _ _ xs "ys @ [d]"]) auto
    next
      case stored
      then show ?thesis using 2 fin by (auto simp: answers_def)
    qed
  qed
qed

lemma answers_exec:
  assumes q: "queue_inv sizeof j" and a: "answers c j" and k: "knows (jc_id c) j" and oper: "keeps_outcome (jc_id c) oper"
  shows "answers c (journal_exec decode sizeof j oper)"
proof (cases oper)
  case (JBegin unavailable now rid action fp overlay)
  show ?thesis
    using begin_state [of decode unavailable now rid action fp overlay j]
  proof
    assume "fst (begin_request decode unavailable now rid action fp overlay j) = j"
    then show ?thesis using a JBegin by simp
  next
    assume "\<exists>r. \<not> knows (jr_id r) j \<and>
      fst (begin_request decode unavailable now rid action fp overlay j) = j\<lparr>jn_rows := jn_rows j @ [r]\<rparr>"
    then obtain r where r: "\<not> knows (jr_id r) j"
      "fst (begin_request decode unavailable now rid action fp overlay j) = j\<lparr>jn_rows := jn_rows j @ [r]\<rparr>" by blast
    then have "jr_id r \<noteq> jc_id c" using k by auto
    then show ?thesis using a r(2) by (auto simp: JBegin answers_def)
  qed
next
  case (JFinish now rid ok detail st enc)
  then show ?thesis using oper a by (simp add: keeps_outcome_def answers_finish)
next
  case JTake
  have fin: "finished_state (jc_state c)" using a by (simp add: answers_def)
  have same: "jn_batch (writer_take j) @ jn_pending (writer_take j) = jn_batch j @ jn_pending j"
    "jn_overlay (writer_take j) = jn_overlay j" "jn_rows (writer_take j) = jn_rows j"
    and w: "jn_written (writer_take j) \<Longrightarrow> jn_written j \<and> jn_batch (writer_take j) = jn_batch j"
    by (auto simp: writer_take_def split: if_splits)
  from a show ?thesis
  proof (cases rule: answersE)
    case (queued xs ys)
    then have "answers c (writer_take j)" using same w fin by (intro answers_queued [of _ _ xs ys]) auto
    then show ?thesis by (simp add: JTake)
  next
    case stored
    then show ?thesis unfolding answers_def JTake journal_exec.simps same using fin by blast
  qed
next
  case JWritten
  then show ?thesis using answers_written [OF q a] by simp
next
  case JSettled
  then show ?thesis using answers_settled [OF q a] by simp
next
  case JClose
  then show ?thesis using a by (simp add: close_journal_def answers_def)
next
  case (JAbandon stale now now')
  have "finished_state (jc_state c)" using a by (simp add: answers_def)
  then have nr: "jc_state c \<noteq> ''running''" by (auto simp: finished_state_def)
  show ?thesis using a nr
    by (auto simp: JAbandon mark_abandoned_def Let_def answers_def row_says_def elim!: in_update_whereE split: if_splits)
qed (use oper in \<open>simp_all add: keeps_outcome_def\<close>)

lemma answers_run:
  assumes "queue_inv sizeof j" "answers c j" "knows (jc_id c) j" "list_all (keeps_outcome (jc_id c)) ops"
  shows "answers c (foldl (journal_exec decode sizeof) j ops)"
  using assms
proof (induction ops arbitrary: j)
  case (Cons oper ops)
  then show ?case by (simp add: answers_exec queue_exec_inv knows_exec)
qed simp

text \<open>The operation a request id stands for never changes.\<close>

definition row_key :: "request_row \<Rightarrow> string \<times> string \<times> string" where
  "row_key r = (jr_id r, jr_action r, jr_fp r)"

lemma key_apply: "map row_key (foldl apply_completion rows cs) = map row_key rows"
  by (induction cs arbitrary: rows) (simp_all add: apply_completion_def map_update_where row_key_def)

lemma key_exec: "\<exists>zs. map row_key (jn_rows (journal_exec decode sizeof j oper)) = map row_key (jn_rows j) @ zs"
  by (cases oper)
     (auto simp: begin_request_def begin_locked_def finish_request_def writer_take_def writer_written_def
        writer_settled_def writer_failed_def key_apply
        close_journal_def mark_abandoned_def restart_def mark_interrupted_def empty_journal_def Let_def
        map_update_where row_key_def split: option.splits)

lemma key_run: "\<exists>zs. map row_key (jn_rows (foldl (journal_exec decode sizeof) j ops)) = map row_key (jn_rows j) @ zs"
proof (induction ops arbitrary: j)
  case (Cons oper ops)
  then show ?case using key_exec [of decode sizeof j oper] by (metis append.assoc foldl_Cons)
qed simp

lemma find_row_key:
  "map row_key rows' = map row_key rows @ zs \<Longrightarrow> find (\<lambda>r. jr_id r = i) rows = Some r
     \<Longrightarrow> \<exists>r'. find (\<lambda>r. jr_id r = i) rows' = Some r' \<and> row_key r' = row_key r"
proof (induction rows arbitrary: rows')
  case (Cons x xs)
  then obtain y ys where y: "rows' = y # ys" "row_key y = row_key x" "map row_key ys = map row_key xs @ zs"
    by (cases rows') auto
  then have "jr_id y = jr_id x" by (simp add: row_key_def)
  then show ?case using Cons y by (auto split: if_splits)
qed simp

text \<open>
  Between the two reads of a look-up.  Without a settlement, a queued completion stays in the overlay;
  without a write, a completion whose rows are not yet stored stays there too.
\<close>

lemma overlay_stays:
  assumes "jn_overlay j (jc_id c) = Some c" "keeps_outcome (jc_id c) oper" "oper \<noteq> JSettled"
  shows "jn_overlay (journal_exec decode sizeof j oper) (jc_id c) = Some c"
proof (cases oper)
  case (JFinish now rid ok detail st enc)
  then have ne: "rid \<noteq> PStr (jc_id c)" using assms(2) by (simp add: keeps_outcome_def)
  then have "validate_request_id rid = Some i \<Longrightarrow> i \<noteq> jc_id c" for i
    by (auto simp: validate_request_id_def split: pyval.splits if_splits)
  then show ?thesis using finish_shape [of sizeof now rid ok detail st enc j] assms(1) by (auto simp: JFinish)
next
  case (JBegin unavailable now rid action fp overlay)
  then show ?thesis using begin_state [of decode unavailable now rid action fp overlay j] assms(1) by auto
qed (use assms in \<open>auto simp: keeps_outcome_def writer_take_def writer_written_def close_journal_def mark_abandoned_def Let_def\<close>)

lemma overlay_stays_run:
  assumes "jn_overlay j (jc_id c) = Some c" "list_all (keeps_outcome (jc_id c)) ops" "JSettled \<notin> set ops"
  shows "jn_overlay (foldl (journal_exec decode sizeof) j ops) (jc_id c) = Some c"
  using assms
proof (induction ops arbitrary: j)
  case (Cons oper ops)
  have "jn_overlay (journal_exec decode sizeof j oper) (jc_id c) = Some c"
    using Cons.prems by (intro overlay_stays) auto
  then show ?case using Cons by simp
qed simp

definition unstored :: "completion \<Rightarrow> journal \<Rightarrow> bool" where
  "unstored c j \<longleftrightarrow> jn_overlay j (jc_id c) = Some c \<and> \<not> (jn_written j \<and> c \<in> set (jn_batch j))"

lemma unstored_exec:
  assumes q: "queue_inv sizeof j" and a: "answers c j" and u: "unstored c j"
    and oper: "keeps_outcome (jc_id c) oper" "oper \<noteq> JWritten"
  shows "unstored c (journal_exec decode sizeof j oper)"
proof (cases "oper = JSettled")
  case False
  then have o: "jn_overlay (journal_exec decode sizeof j oper) (jc_id c) = Some c"
    using u oper by (intro overlay_stays) (simp_all add: unstored_def)
  have "jn_written (journal_exec decode sizeof j oper) \<Longrightarrow>
      jn_written j \<and> jn_batch (journal_exec decode sizeof j oper) = jn_batch j"
  proof (cases oper)
    case (JBegin unavailable now rid action fp overlay)
    then show "jn_written (journal_exec decode sizeof j oper) \<Longrightarrow> ?thesis"
      using begin_state [of decode unavailable now rid action fp overlay j] by auto
  qed (use oper False in \<open>auto simp: keeps_outcome_def finish_request_def Let_def writer_take_def close_journal_def
      mark_abandoned_def split: option.splits if_splits\<close>)
  then show ?thesis using u o by (auto simp: unstored_def)
next
  case True
  show ?thesis
  proof (cases "jn_written j")
    case False
    then show ?thesis using u True by (simp add: writer_settled_def)
  next
    case w: True
    let ?j = "j\<lparr>jn_batch := [], jn_written := False\<rparr>"
    have out: "c \<notin> set (jn_batch j)" "jn_overlay j (jc_id c) = Some c" using u w by (simp_all add: unstored_def)
    have "c \<in> set (jn_pending j)"
      using a
    proof (cases rule: answersE)
      case (queued xs ys)
      from queued(2) show ?thesis using out(1) by (cases rule: batch_split) auto
    qed (use out(2) in simp)
    then have "\<forall>x \<in> set (jn_batch j). jc_seq x \<noteq> jc_seq c" using q by (fastforce simp: queue_inv_def)
    then have "jn_overlay (foldl settle ?j (jn_batch j)) (jc_id c) = Some c"
      using out by (intro settle_overlay_other) simp_all
    then show ?thesis using settle_written [of ?j "jn_batch j"] w
      by (simp add: True unstored_def writer_settled_def)
  qed
qed

lemma unstored_run:
  assumes "queue_inv sizeof j" "answers c j" "knows (jc_id c) j" "unstored c j"
    "list_all (keeps_outcome (jc_id c)) ops" "JWritten \<notin> set ops"
  shows "unstored c (foldl (journal_exec decode sizeof) j ops)"
  using assms
proof (induction ops arbitrary: j)
  case (Cons oper ops)
  then have "oper \<noteq> JWritten" "keeps_outcome (jc_id c) oper" by auto
  then show ?case using Cons by (simp add: unstored_exec answers_exec queue_exec_inv knows_exec)
qed simp

text \<open>A row read before, and an overlay read after: the one or the other holds the completion.\<close>

definition no_store_and_settle :: "journal_op list \<Rightarrow> bool" where
  "no_store_and_settle ops \<longleftrightarrow> JSettled \<notin> set (tl (dropWhile (\<lambda>oper. oper \<noteq> JWritten) ops))"

lemma row_or_overlay:
  assumes "queue_inv sizeof j" "answers c j" "knows (jc_id c) j"
    "list_all (keeps_outcome (jc_id c)) ops" "no_store_and_settle ops"
  and j'_def: "j' = foldl (journal_exec decode sizeof) j ops"
  shows "jn_overlay j' (jc_id c) = Some c \<or>
    jn_overlay j' (jc_id c) = None \<and> (\<forall>r \<in> set (jn_rows j). jr_id r = jc_id c \<longrightarrow> row_says c r)"
proof (cases "unstored c j")
  case False
  have "\<forall>r \<in> set (jn_rows j). jr_id r = jc_id c \<longrightarrow> row_says c r"
    using assms(2) by (cases rule: answersE) (use False in \<open>auto simp: unstored_def\<close>)
  moreover have "answers c j'" unfolding j'_def using assms(1-4) by (rule answers_run)
  ultimately show ?thesis by (auto elim: answersE)
next
  case True
  let ?P = "\<lambda>oper. oper \<noteq> JWritten"
  define as where "as = takeWhile ?P ops"
  define bs where "bs = dropWhile ?P ops"
  have ops: "ops = as @ bs" and noW: "JWritten \<notin> set as"
    unfolding as_def bs_def by (simp, metis set_takeWhileD)
  have "JSettled \<notin> set bs"
  proof -
    have "JSettled \<notin> set (tl bs)" "bs \<noteq> [] \<Longrightarrow> hd bs = JWritten"
      using assms(5) hd_dropWhile [of ?P ops] unfolding no_store_and_settle_def bs_def by blast+
    then show ?thesis by (cases bs) auto
  qed
  moreover have "unstored c (foldl (journal_exec decode sizeof) j as)"
    using assms(1-4) True noW by (intro unstored_run) (simp_all add: ops)
  ultimately have "jn_overlay j' (jc_id c) = Some c"
    unfolding j'_def ops foldl_append using assms(4)
    by (intro overlay_stays_run [of "foldl (journal_exec decode sizeof) j as"]) (simp_all add: ops unstored_def)
  then show ?thesis by blast
qed

text \<open>What \<open>finish\<close> queues when it accepts.\<close>

lemma accepted_completion:
  assumes "j = foldl (journal_exec decode sizeof) (empty_journal rows) ops0" "validate_request_id (PStr rid) = Some rid"
    and "j1 = finish_request sizeof now (PStr rid) ok detail st enc j" "jn_pending j1 \<noteq> jn_pending j"
  shows "\<exists>d. jc_id d = rid \<and> jc_state d = (if ok then ''done'' else ''failed'') \<and> jc_status d = st \<and>
    jc_response d = kept_response enc \<and> jn_overlay j1 = (jn_overlay j)(rid \<mapsto> d) \<and> jn_rows j1 = jn_rows j \<and>
    jn_batch j1 = jn_batch j \<and> jn_pending j1 = jn_pending j @ [d] \<and> jn_written j1 = jn_written j \<and> d \<notin> set (jn_batch j)"
proof -
  obtain d where d: "jc_id d = rid" "jc_state d = (if ok then ''done'' else ''failed'')" "jc_status d = st"
      "jc_response d = kept_response enc" "jn_overlay j1 = (jn_overlay j)(rid \<mapsto> d)" "jn_rows j1 = jn_rows j"
      "jn_batch j1 = jn_batch j" "jn_pending j1 = jn_pending j @ [d]" "jn_written j1 = jn_written j"
    using finish_shape [of sizeof now "PStr rid" ok detail st enc j] assms(2-4) by auto
  have "queue_inv sizeof j1" unfolding assms(3) assms(1) using queue_inv_run by (rule finish_queue_inv)
  then have "d \<notin> set (jn_batch j)" using d(7,8) by (auto simp: queue_inv_def)
  then show ?thesis using d by blast
qed

text \<open>
  C32. Once \<open>finish\<close> has accepted an outcome (it queued a completion), every later look-up of the same
  operation answers with that outcome and its response, whether the writer has stored it yet or
  not, until the writer fails, the process restarts or the same id is finished again.  A look-up
  reads the row (in \<open>j2\<close>) and then, without the lock, the overlay (in \<open>j3\<close>); the only look-up left
  out is one between whose two reads the writer commits a batch and then settles it.
\<close>

theorem accepted_outcome_is_answered:
  assumes "j = foldl (journal_exec decode sizeof) (empty_journal rows) ops0"
    and "lookup_request decode (PStr rid) action fp j j = Some oc0" and "oc_state oc0 \<noteq> ''conflict''"
    and "j1 = finish_request sizeof now (PStr rid) ok detail st enc j" and "jn_pending j1 \<noteq> jn_pending j"
    and "list_all (keeps_outcome rid) (ops @ between)"
    and "j2 = foldl (journal_exec decode sizeof) j1 ops" and "j3 = foldl (journal_exec decode sizeof) j2 between"
    and "no_store_and_settle between"
  shows "(\<exists>oc. lookup_request decode (PStr rid) action fp j2 j3 = Some oc \<and>
           oc_state oc = (if ok then ''done'' else ''failed'') \<and> oc_status oc = st \<and>
           oc_response oc = decode_response decode (kept_response enc)) \<and>
         (\<exists>oc. lookup_metadata decode (PStr rid) action j2 j3 = Some oc \<and>
           oc_state oc = (if ok then ''done'' else ''failed'') \<and> oc_status oc = st)"
proof -
  obtain r where v: "validate_request_id (PStr rid) = Some rid" and r: "find (\<lambda>r. jr_id r = rid) (jn_rows j) = Some r"
    and rk: "jr_action r = action" "jr_fp r = fp"
    using assms(2,3) by (auto simp: lookup_request_def conflict_outcome_def validate_request_id_def
        split: option.splits if_splits)
  obtain d where d: "jc_id d = rid" "jc_state d = (if ok then ''done'' else ''failed'')" "jc_status d = st"
      "jc_response d = kept_response enc" "jn_overlay j1 = (jn_overlay j)(rid \<mapsto> d)" "jn_rows j1 = jn_rows j"
      "jn_batch j1 = jn_batch j" "jn_pending j1 = jn_pending j @ [d]" "jn_written j1 = jn_written j"
      "d \<notin> set (jn_batch j)"
    using accepted_completion [OF assms(1) v] assms(4,5) by metis
  have "answers d j1"
    using d by (intro answers_queued [of _ _ "jn_batch j @ jn_pending j" "[]"]) (simp_all add: finished_state_def)
  moreover have q1: "queue_inv sizeof j1" unfolding assms(4) assms(1) using queue_inv_run by (rule finish_queue_inv)
  moreover have k1: "knows (jc_id d) j1" using r d by (force simp: knows_def dest: find_SomeD)
  ultimately have a: "answers d j2" unfolding assms(7) using assms(6) d(1) by (intro answers_run) simp_all
  have "queue_inv sizeof j2" "knows (jc_id d) j2"
    unfolding assms(7) using journal_queue.inv_run [OF q1] journal_knows.inv_run [OF k1] by blast+
  then have reads: "jn_overlay j3 rid = Some d \<or>
      jn_overlay j3 rid = None \<and> (\<forall>r \<in> set (jn_rows j2). jr_id r = rid \<longrightarrow> row_says d r)"
    using row_or_overlay [OF _ a _ _ assms(9) assms(8)] assms(6) d(1) by simp
  obtain zs where "map row_key (jn_rows j2) = map row_key (jn_rows j) @ zs"
    using key_run [of decode sizeof j1 ops] assms(7) d(6) by auto
  then obtain r' where r': "find (\<lambda>r. jr_id r = rid) (jn_rows j2) = Some r'" "row_key r' = row_key r"
    using find_row_key r by blast
  from reads show ?thesis
  proof
    assume "jn_overlay j3 rid = None \<and> (\<forall>r \<in> set (jn_rows j2). jr_id r = rid \<longrightarrow> row_says d r)"
    moreover from this have "row_says d r'" using find_SomeD [OF r'(1)] by blast
    ultimately show ?thesis using r' rk v d(2-4)
      by (simp add: lookup_request_def lookup_metadata_def row_key_def row_outcome_def Let_def row_says_def)
  next
    assume "jn_overlay j3 rid = Some d"
    then show ?thesis using r' rk v d(2-4)
      by (simp add: lookup_request_def lookup_metadata_def row_key_def overlay_outcome_def Let_def)
  qed
qed

definition demo_decode :: "string \<Rightarrow> pyval option" where "demo_decode s = Some (PStr s)"

definition demo_begin :: journal_op where
  "demo_begin = JBegin False 1 (PStr ''r1'') ''act'' ''fp'' Map.empty"

theorem accepted_outcome_is_answered_witness:
  "\<exists>oc. lookup_request demo_decode (PStr ''r1'') ''act'' ''fp''
       (foldl (journal_exec demo_decode length)
         (finish_request length 2 (PStr ''r1'') True ''ok'' 200 (Some ''x'')
           (foldl (journal_exec demo_decode length) (empty_journal []) [demo_begin]))
         [JTake, JWritten])
       (foldl (journal_exec demo_decode length) (foldl (journal_exec demo_decode length)
         (finish_request length 2 (PStr ''r1'') True ''ok'' 200 (Some ''x'')
           (foldl (journal_exec demo_decode length) (empty_journal []) [demo_begin]))
         [JTake, JWritten]) [JSettled]) = Some oc \<and>
     oc_state oc = ''done'' \<and> oc_status oc = 200 \<and> oc_response oc = Some (PStr ''x'')"
proof -
  let ?j = "foldl (journal_exec demo_decode length) (empty_journal []) [demo_begin]"
  have l: "lookup_request demo_decode (PStr ''r1'') ''act'' ''fp'' ?j ?j = Some
     \<lparr>oc_claimed = False, oc_state = ''running'', oc_status = 0, oc_response = None, oc_updated = Some 1, oc_unknown = False\<rparr>"
    by code_simp
  have v: "validate_request_id (PStr ''r1'') = Some ''r1''" by code_simp
  have p: "jn_pending (finish_request length 2 (PStr ''r1'') True ''ok'' 200 (Some ''x'') ?j) \<noteq> jn_pending ?j"
    by (simp add: finish_request_def demo_begin_def begin_request_def begin_locked_def empty_journal_def v Let_def
        write_queue_capacity_def max_retained_bytes_def retained_size_def kept_response_def utf8_len_def)
  have k: "list_all (keeps_outcome ''r1'') ([JTake, JWritten] @ [JSettled])" "no_store_and_settle [JSettled]"
    by (simp_all add: keeps_outcome_def no_store_and_settle_def)
  have resp: "decode_response demo_decode (kept_response (Some ''x'')) = Some (PStr ''x'')"
    by (simp add: decode_response_def demo_decode_def kept_response_def utf8_len_def)
  show ?thesis
    using accepted_outcome_is_answered [OF refl l _ refl p k(1) refl refl k(2)] resp by simp
qed

text \<open>
  The look-up that is left out: the row is read while the completion is queued, the writer commits
  and settles the batch, and the overlay read afterwards is empty.  The accepted outcome looks up as
  still running.
\<close>

lemma lookup_between_reads_stale:
  "let j = finish_request length 2 (PStr ''r1'') True ''ok'' 200 (Some ''x'')
         (foldl (journal_exec demo_decode length) (empty_journal []) [demo_begin]);
       j' = foldl (journal_exec demo_decode length) j [JTake, JWritten, JSettled] in
   map_option oc_state (lookup_request demo_decode (PStr ''r1'') ''act'' ''fp'' j j) = Some ''done'' \<and>
   map_option oc_state (lookup_request demo_decode (PStr ''r1'') ''act'' ''fp'' j j') = Some ''running'' \<and>
   map_option oc_state (lookup_request demo_decode (PStr ''r1'') ''act'' ''fp'' j' j') = Some ''done''"
proof -
  have v: "validate_request_id (PStr ''r1'') = Some ''r1''" by code_simp
  show ?thesis
    by (simp add: finish_request_def demo_begin_def begin_request_def begin_locked_def empty_journal_def v Let_def
        write_queue_capacity_def max_retained_bytes_def retained_size_def kept_response_def utf8_len_def
        writer_take_def writer_written_def writer_settled_def settle_def apply_completion_def lookup_request_def
        overlay_outcome_def row_outcome_def update_where_def)
qed

end
