(* ===== verification/Agent_Policy.thy ===== *)
theory Agent_Policy
  imports Hub_Prelude
begin

text \<open>
  Risk policy, capability grants and task budgets of \<open>agent_policy.py\<close>.  \<open>PolicyEngine\<close> keeps a
  budget table (when its state store is enabled) and an in-memory dict of budgets.  An operation
  whose database access fails is told so by the argument \<open>busy\<close>.  Formatted texts in the reasons
  are shortened to their fixed part; an expiry is
  kept as a number, whether it was given as \<open>int\<close> or \<open>float\<close>.
\<close>

section \<open>Risk classes and the auxiliary actions\<close>

datatype risk_class = Read | Write | Network | Git_Mutation | Secret_Access | System_Config | Privilege_Change

definition risk_value :: "risk_class \<Rightarrow> string" where
  "risk_value r = (case r of Read \<Rightarrow> ''read'' | Write \<Rightarrow> ''write'' | Network \<Rightarrow> ''network''
     | Git_Mutation \<Rightarrow> ''git_mutation'' | Secret_Access \<Rightarrow> ''secret_access''
     | System_Config \<Rightarrow> ''system_config'' | Privilege_Change \<Rightarrow> ''privilege_change'')"

definition auxiliary_action_policies :: "(string \<times> risk_class \<times> string) list" where
  "auxiliary_action_policies =
    [(''run'', Write, ''process_execution''),
     (''run_affected'', Write, ''process_execution''),
     (''cancel'', Write, ''process_lifecycle''),
     (''classify'', Read, ''command_metadata''),
     (''discover'', Read, ''command_discovery''),
     (''stats'', Read, ''command_metrics''),
     (''repair'', Write, ''workspace_write''),
     (''repair_loop'', Write, ''workspace_write''),
     (''auto_fix'', Write, ''workspace_write''),
     (''lint_fix'', Write, ''workspace_write''),
     (''patch_and_verify'', Write, ''workspace_write''),
     (''format'', Write, ''workspace_write''),
     (''spawn_daemon'', System_Config, ''process_lifecycle''),
     (''stop_daemon'', System_Config, ''process_lifecycle''),
     (''daemon_status'', Read, ''process_status''),
     (''http_probe'', Network, ''network_access''),
     (''webhook_replay'', Network, ''network_access''),
     (''stash_save'', Git_Mutation, ''git_mutation''),
     (''stash_restore'', Git_Mutation, ''git_mutation''),
     (''diff_hunk_stage'', Git_Mutation, ''git_mutation''),
     (''record_mock'', Write, ''test_fixture_write''),
     (''replay_mock'', Write, ''test_fixture_write''),
     (''mock_server'', Network, ''network_listener''),
     (''mock_server_start'', Network, ''network_listener''),
     (''mock_server_stop'', Network, ''network_listener''),
     (''mock_server_status'', Read, ''process_status''),
     (''flaky_detect'', Write, ''process_execution''),
     (''preflight'', Write, ''process_execution''),
     (''speculative_lint'', Write, ''process_execution''),
     (''bundle'', Write, ''artifact_write''),
     (''bundle_create'', Write, ''artifact_write''),
     (''config'', System_Config, ''system_configuration''),
     (''config_update'', System_Config, ''system_configuration''),
     (''model'', Network, ''model_execution''),
     (''model_inference'', Network, ''model_execution'')]"

section \<open>Capability grants\<close>

record grant =
  gr_id :: string
  gr_task :: string
  gr_allowed :: "string set"
  gr_denied :: "string set"
  gr_expires :: "seconds option"
  gr_depth :: int

definition canonical_text :: "string \<Rightarrow> bool" where
  "canonical_text s \<longleftrightarrow> s \<noteq> [] \<and> py_strip s = s \<and> nul \<notin> set s"

text \<open>The least integer that \<open>float\<close> cannot represent: it raises \<open>OverflowError\<close> from there on.\<close>

definition float_overflow :: int where
  "float_overflow = 2 ^ 1024 - 2 ^ 970"

text \<open>The constructor \<open>CapabilityGrant(...)\<close> with its \<open>__post_init__\<close>; \<open>None\<close> is \<open>ValueError\<close>.\<close>

definition new_grant :: "string \<Rightarrow> string \<Rightarrow> string set \<Rightarrow> string set \<Rightarrow> pyval \<Rightarrow> pyval \<Rightarrow> grant option" where
  "new_grant gid task allowed denied expires depth =
     (if py_strip gid \<noteq> gid \<or> nul \<in> set gid \<or> py_strip task \<noteq> task \<or> nul \<in> set task \<or> gid = [] then None
      else if \<not> (\<forall>v \<in> allowed. canonical_text v) \<or> \<not> (\<forall>v \<in> denied. canonical_text v) then None
      else (case depth of
              PInt d \<Rightarrow>
                if d < 0 then None
                else (case expires of
                        PNone \<Rightarrow> Some \<lparr>gr_id = gid, gr_task = task, gr_allowed = allowed, gr_denied = denied,
                                       gr_expires = None, gr_depth = d\<rparr>
                      | PInt i \<Rightarrow> if float_overflow \<le> \<bar>i\<bar> then None
                                 else Some \<lparr>gr_id = gid, gr_task = task, gr_allowed = allowed,
                                            gr_denied = denied, gr_expires = Some (of_int i), gr_depth = d\<rparr>
                      | PFloat (Fin r) \<Rightarrow> Some \<lparr>gr_id = gid, gr_task = task, gr_allowed = allowed,
                                                gr_denied = denied, gr_expires = Some r, gr_depth = d\<rparr>
                      | _ \<Rightarrow> None)
            | _ \<Rightarrow> None))"

definition str_list :: "pyval \<Rightarrow> string list option" where
  "str_list v =
     (case v of
        PList vs \<Rightarrow> if list_all (\<lambda>x. case x of PStr _ \<Rightarrow> True | _ \<Rightarrow> False) vs
                   then Some (map (\<lambda>x. case x of PStr s \<Rightarrow> s | _ \<Rightarrow> []) vs) else None
      | _ \<Rightarrow> None)"

definition grant_from_dict :: "pyval \<Rightarrow> grant option" where
  "grant_from_dict v =
     (case v of
        PDict d \<Rightarrow>
          (case (map_of d ''grant_id'', str_list (get_default d ''allowed'' (PList [])),
                 str_list (get_default d ''denied'' (PList [])), get_default d ''task_id'' (PStr [])) of
             (Some (PStr gid), Some al, Some de, PStr task) \<Rightarrow>
               new_grant gid task (set al) (set de) (get_default d ''expires_at'' PNone)
                 (get_default d ''max_delegation_depth'' (PInt 1))
           | _ \<Rightarrow> None)
      | _ \<Rightarrow> None)"

text \<open>\<open>to_dict\<close>; the order of \<open>list(frozenset)\<close> is given by the two lists.\<close>

definition grant_to_dict :: "string list \<Rightarrow> string list \<Rightarrow> grant \<Rightarrow> pyval" where
  "grant_to_dict allowed_order denied_order g =
     PDict [(''grant_id'', PStr (gr_id g)), (''task_id'', PStr (gr_task g)),
            (''allowed'', PList (map PStr allowed_order)), (''denied'', PList (map PStr denied_order)),
            (''expires_at'', case gr_expires g of None \<Rightarrow> PNone | Some r \<Rightarrow> PFloat (Fin r)),
            (''max_delegation_depth'', PInt (gr_depth g))]"

definition grant_expired :: "seconds \<Rightarrow> grant \<Rightarrow> bool" where
  "grant_expired now g \<longleftrightarrow> (case gr_expires g of None \<Rightarrow> False | Some e \<Rightarrow> e < now)"

definition grant_allows :: "grant \<Rightarrow> string \<Rightarrow> bool" where
  "grant_allows g action \<longleftrightarrow> action \<in> gr_allowed g \<and> action \<notin> gr_denied g"

definition can_delegate :: "seconds \<Rightarrow> grant \<Rightarrow> bool" where
  "can_delegate now g \<longleftrightarrow> 0 < gr_depth g \<and> \<not> grant_expired now g"

text \<open>\<open>delegate(parent, requested)\<close>; \<open>now\<close> and \<open>now'\<close> are its two clock readings.\<close>

definition delegate :: "seconds \<Rightarrow> seconds \<Rightarrow> string \<Rightarrow> grant \<Rightarrow> string set \<Rightarrow> grant option" where
  "delegate now now' uid parent requested =
     (if \<not> (\<forall>a \<in> requested. canonical_text a) then None
      else if gr_depth parent \<le> 0 \<or> grant_expired now parent then
        Some \<lparr>gr_id = ''grant_'' @ take 12 uid, gr_task = gr_task parent, gr_allowed = {},
              gr_denied = gr_denied parent \<union> requested, gr_expires = gr_expires parent, gr_depth = 0\<rparr>
      else
        (let expiry_valid = (case gr_expires parent of None \<Rightarrow> True | Some e \<Rightarrow> now' < e);
             depth_valid = 0 < gr_depth parent;
             able = expiry_valid \<and> depth_valid;
             child_denied = gr_denied parent \<union> (requested - gr_allowed parent) \<union> (if able then {} else requested)
         in Some \<lparr>gr_id = ''grant_'' @ take 12 uid, gr_task = gr_task parent,
                  gr_allowed = (if able then requested \<inter> (gr_allowed parent - child_denied) else {}),
                  gr_denied = child_denied, gr_expires = gr_expires parent,
                  gr_depth = (if depth_valid then max 0 (gr_depth parent - 1) else 0)\<rparr>))"

section \<open>Budgets\<close>

record budget =
  bg_task :: string
  bg_max_tokens :: int
  bg_used_tokens :: int
  bg_max_seconds :: real
  bg_used_seconds :: real
  bg_max_calls :: int
  bg_used_calls :: int

record budget_cost =
  ct_tokens :: int
  ct_seconds :: real
  ct_calls :: int

definition clean_id :: "string \<Rightarrow> string" where
  "clean_id s = py_strip (filter (\<lambda>c. c \<noteq> nul) s)"

text \<open>\<open>Budget.__post_init__\<close> and \<open>BudgetCost.__post_init__\<close> on numbers.\<close>

definition norm_budget :: "budget \<Rightarrow> budget" where
  "norm_budget b =
     \<lparr>bg_task = clean_id (bg_task b), bg_max_tokens = max 0 (bg_max_tokens b), bg_used_tokens = max 0 (bg_used_tokens b),
      bg_max_seconds = max 0 (bg_max_seconds b), bg_used_seconds = max 0 (bg_used_seconds b),
      bg_max_calls = max 0 (bg_max_calls b), bg_used_calls = max 0 (bg_used_calls b)\<rparr>"

definition new_cost :: "int \<Rightarrow> real \<Rightarrow> int \<Rightarrow> budget_cost" where
  "new_cost t s c = \<lparr>ct_tokens = max 0 t, ct_seconds = max 0 s, ct_calls = max 0 c\<rparr>"

definition default_budget :: "string \<Rightarrow> budget" where
  "default_budget task = norm_budget
     \<lparr>bg_task = task, bg_max_tokens = 100000, bg_used_tokens = 0, bg_max_seconds = 600, bg_used_seconds = 0,
      bg_max_calls = 50, bg_used_calls = 0\<rparr>"

definition is_exhausted :: "budget \<Rightarrow> bool" where
  "is_exhausted b \<longleftrightarrow> bg_max_tokens b \<le> bg_used_tokens b \<or> bg_max_seconds b \<le> bg_used_seconds b \<or>
     bg_max_calls b \<le> bg_used_calls b"

definition remaining :: "budget \<Rightarrow> int \<times> real \<times> int" where
  "remaining b = (max 0 (bg_max_tokens b - bg_used_tokens b), max 0 (bg_max_seconds b - bg_used_seconds b),
                  max 0 (bg_max_calls b - bg_used_calls b))"

definition token_utilization :: "budget \<Rightarrow> real" where
  "token_utilization b =
     (if bg_max_tokens b \<le> 0 then 1 else min 1 (of_int (bg_used_tokens b) / of_int (bg_max_tokens b)))"

text \<open>
  The engine: \<open>en_table\<close> is the table \<open>agent_budgets\<close> when the state store is enabled, keyed by the
  stored \<open>task_id\<close>; \<open>en_cache\<close> is \<open>self._budgets\<close> in insertion order.
\<close>

record engine =
  en_table :: "(string \<times> budget) list option"
  en_cache :: "(string \<times> budget) list"
  en_aux_enabled :: bool

text \<open>\<open>get_budget\<close>; \<open>Inl ()\<close> is \<open>BudgetUnavailableError\<close>.\<close>

definition trim_cache :: "(string \<times> budget) list \<Rightarrow> (string \<times> budget) list" where
  "trim_cache c = (if 512 < length c then drop 256 c else c)"

definition get_budget :: "bool \<Rightarrow> string \<Rightarrow> engine \<Rightarrow> engine \<times> (unit + budget)" where
  "get_budget busy task_id en =
     (let local = (let c = trim_cache (en_cache en) in
                   case map_of c task_id of
                     Some b \<Rightarrow> (en\<lparr>en_cache := c\<rparr>, Inr b)
                   | None \<Rightarrow> (en\<lparr>en_cache := c @ [(task_id, default_budget task_id)]\<rparr>, Inr (default_budget task_id)))
      in case en_table en of
           None \<Rightarrow> local
         | Some rows \<Rightarrow>
             if busy then (en, Inl ())
             else (case map_of rows task_id of
                     Some row \<Rightarrow> (en\<lparr>en_cache := dict_set (en_cache en) task_id (norm_budget row)\<rparr>,
                                  Inr (norm_budget row))
                   | None \<Rightarrow> local))"

text \<open>\<open>updated(current)\<close>: \<open>replace(current, **limits, used_...=...)\<close>, normalised again.\<close>

record limits =
  lm_tokens :: "int option"
  lm_seconds :: "real option"
  lm_calls :: "int option"

definition no_limits :: limits where
  "no_limits = \<lparr>lm_tokens = None, lm_seconds = None, lm_calls = None\<rparr>"

definition or_default :: "'a option \<Rightarrow> 'a \<Rightarrow> 'a" where
  "or_default x d = (case x of None \<Rightarrow> d | Some v \<Rightarrow> v)"

definition updated_budget :: "budget_cost option \<Rightarrow> limits \<Rightarrow> bool \<Rightarrow> budget \<Rightarrow> budget" where
  "updated_budget cost lm reset b = norm_budget
     \<lparr>bg_task = bg_task b,
      bg_max_tokens = or_default (lm_tokens lm) (bg_max_tokens b),
      bg_used_tokens = (if reset then 0 else bg_used_tokens b + (case cost of None \<Rightarrow> 0 | Some c \<Rightarrow> ct_tokens c)),
      bg_max_seconds = or_default (lm_seconds lm) (bg_max_seconds b),
      bg_used_seconds = (if reset then 0 else bg_used_seconds b + (case cost of None \<Rightarrow> 0 | Some c \<Rightarrow> ct_seconds c)),
      bg_max_calls = or_default (lm_calls lm) (bg_max_calls b),
      bg_used_calls = (if reset then 0 else bg_used_calls b + (case cost of None \<Rightarrow> 0 | Some c \<Rightarrow> ct_calls c))\<rparr>"

text \<open>
  The database stores integers of at most 64 bits; a larger count raises \<open>OverflowError\<close> and rolls the
  transaction back, \<open>Inl ()\<close> as well.
\<close>

definition sql_int :: "int \<Rightarrow> bool" where
  "sql_int i \<longleftrightarrow> - (2 ^ 63) \<le> i \<and> i \<le> 2 ^ 63 - 1"

definition storable :: "budget \<Rightarrow> bool" where
  "storable b \<longleftrightarrow> list_all sql_int [bg_max_tokens b, bg_used_tokens b, bg_max_calls b, bg_used_calls b]"

definition mutate_budget ::
  "bool \<Rightarrow> string \<Rightarrow> budget_cost option \<Rightarrow> limits \<Rightarrow> bool \<Rightarrow> engine \<Rightarrow> engine \<times> (unit + budget)" where
  "mutate_budget busy task_id cost lm reset en =
     (case en_table en of
        Some rows \<Rightarrow>
          if busy then (en, Inl ())
          else
            (let current = (case map_of rows task_id of Some row \<Rightarrow> norm_budget row | None \<Rightarrow> default_budget task_id);
                 b = updated_budget cost lm reset current in
             if \<not> storable b then (en, Inl ())
             else (en\<lparr>en_table := Some (dict_set rows (bg_task b) b), en_cache := dict_set (en_cache en) task_id b\<rparr>, Inr b))
      | None \<Rightarrow>
          (case get_budget busy task_id en of
             (en', Inl e) \<Rightarrow> (en', Inl e)
           | (en', Inr current) \<Rightarrow>
               (let b = updated_budget cost lm reset current in
                (en'\<lparr>en_cache := dict_set (en_cache en') task_id b\<rparr>, Inr b))))"

definition consume_budget :: "bool \<Rightarrow> string \<Rightarrow> budget_cost \<Rightarrow> engine \<Rightarrow> engine \<times> (unit + budget)" where
  "consume_budget busy task_id cost en = mutate_budget busy task_id (Some cost) no_limits False en"

definition set_budget :: "bool \<Rightarrow> string \<Rightarrow> limits \<Rightarrow> engine \<Rightarrow> engine \<times> (unit + budget)" where
  "set_budget busy task_id lm en = mutate_budget busy task_id None lm False en"

definition reset_budget :: "bool \<Rightarrow> string \<Rightarrow> engine \<Rightarrow> engine \<times> (unit + budget)" where
  "reset_budget busy task_id en = mutate_budget busy (clean_id task_id) None no_limits True en"

definition has_budget :: "bool \<Rightarrow> string \<Rightarrow> engine \<Rightarrow> bool" where
  "has_budget busy task_id en =
     (let i = clean_id task_id in
      i \<noteq> [] \<and> (map_of (en_cache en) i \<noteq> None \<or>
        (case en_table en of None \<Rightarrow> False | Some rows \<Rightarrow> \<not> busy \<and> map_of rows i \<noteq> None)))"

definition delete_budget :: "bool \<Rightarrow> string \<Rightarrow> engine \<Rightarrow> engine \<times> bool" where
  "delete_budget busy task_id en =
     (let i = clean_id task_id;
          existed = map_of (en_cache en) i \<noteq> None;
          en' = en\<lparr>en_cache := filter (\<lambda>(k, _). k \<noteq> i) (en_cache en)\<rparr> in
      case en_table en of
        None \<Rightarrow> (en', existed)
      | Some rows \<Rightarrow>
          if busy then (en', existed)
          else (en'\<lparr>en_table := Some (filter (\<lambda>(k, _). k \<noteq> i) rows)\<rparr>, existed \<or> map_of rows i \<noteq> None))"

section \<open>\<open>increase_task_budget\<close>\<close>

datatype increase_error =
    Not_Authorized string
  | Bad_Value string
  | Budget_Unavailable string
  | Unknown_Task
  | Response_Too_Small

text \<open>The projected task the action is checked against, and the scope stored in its checkpoint.\<close>

record task_view =
  tv_owner :: string
  tv_status :: string
  tv_version :: pyval
  tv_root :: pyval

record audit_event =
  ae_stream :: string
  ae_actor :: string
  ae_before :: budget
  ae_after :: budget
  ae_reason :: string

definition valid_limit :: "string \<times> pyval \<Rightarrow> bool" where
  "valid_limit kv =
     (case kv of (name, v) \<Rightarrow>
        if name = ''max_compute_seconds'' then
          (case v of PInt i \<Rightarrow> 0 \<le> i \<and> i < float_overflow | PFloat (Fin r) \<Rightarrow> 0 \<le> r | _ \<Rightarrow> False)
        else (case v of PInt i \<Rightarrow> 0 \<le> i \<and> i \<le> 2 ^ 63 - 1 | _ \<Rightarrow> False))"

definition int_limit :: "(string \<times> pyval) list \<Rightarrow> string \<Rightarrow> int option" where
  "int_limit d k = (case map_of d k of Some (PInt i) \<Rightarrow> Some i | _ \<Rightarrow> None)"

definition real_limit :: "(string \<times> pyval) list \<Rightarrow> string \<Rightarrow> real option" where
  "real_limit d k = (case map_of d k of Some (PInt i) \<Rightarrow> Some (of_int i) | Some (PFloat (Fin r)) \<Rightarrow> Some r | _ \<Rightarrow> None)"

definition proposed_limits :: "(string \<times> pyval) list \<Rightarrow> limits" where
  "proposed_limits d = \<lparr>lm_tokens = int_limit d ''max_tokens'', lm_seconds = real_limit d ''max_compute_seconds'',
     lm_calls = int_limit d ''max_external_calls''\<rparr>"

definition raises :: "('a :: ord) option \<Rightarrow> 'a \<Rightarrow> bool" where
  "raises x old = (case x of None \<Rightarrow> True | Some v \<Rightarrow> old < v)"

text \<open>
  \<open>root\<close> is the canonical repository root of the call, \<open>required\<close> the size of the response when a
  response budget is given; the result carries the updated engine and the audit event that the
  same transaction appends.
\<close>

definition increase_task_budget ::
  "bool \<Rightarrow> string \<Rightarrow> string \<Rightarrow> string \<Rightarrow> pyval \<Rightarrow> pyval \<Rightarrow> pyval \<Rightarrow> pyval \<Rightarrow> (budget \<Rightarrow> int) \<Rightarrow> task_view option
     \<Rightarrow> engine \<Rightarrow> increase_error + engine \<times> audit_event" where
  "increase_task_budget busy task_id actor rroot reason lims auth_actor response_budget required task en =
     bindr (require (auth_actor \<in> {PStr ''api_token'', PStr ''action_token'', PStr ''local''})
              (Not_Authorized ''verified transport authorization required'')) (\<lambda>_.
     bindr (require (case response_budget of PNone \<Rightarrow> True | PInt n \<Rightarrow> 128 \<le> n | _ \<Rightarrow> False)
              (Bad_Value ''response budget must be an integer of at least 128'')) (\<lambda>_.
     bindr (require (canonical_text task_id \<and> canonical_text actor) (Bad_Value ''must be a canonical nonempty string'')) (\<lambda>_.
     bindr (require (case reason of PStr s \<Rightarrow> py_strip s \<noteq> [] \<and> length s \<le> 4096 | _ \<Rightarrow> False)
              (Bad_Value ''reason must be nonempty and at most 4096 characters'')) (\<lambda>_.
     (case lims of
        PDict d \<Rightarrow>
          bindr (require (d \<noteq> []) (Bad_Value ''limits must be a nonempty mapping'')) (\<lambda>_.
          bindr (require (fst ` set d \<subseteq> {''max_tokens'', ''max_compute_seconds'', ''max_external_calls''})
                   (Bad_Value ''unknown budget limit'')) (\<lambda>_.
          bindr (require (list_all valid_limit d) (Bad_Value ''invalid limit'')) (\<lambda>_.
          (case en_table en of
             None \<Rightarrow> Inl (Budget_Unavailable ''persistent budget audit unavailable'')
           | Some rows \<Rightarrow>
               bindr (require (\<not> busy) (Budget_Unavailable ''budget update or audit unavailable'')) (\<lambda>_.
               (case task of
                  None \<Rightarrow> Inl Unknown_Task
                | Some tv \<Rightarrow>
                    bindr (require (tv_owner tv = actor \<and> tv_version tv = PInt 2 \<and> tv_root tv = PStr rroot)
                             (Not_Authorized ''task owner or repository scope mismatch'')) (\<lambda>_.
                    bindr (require (tv_status tv \<in> {''planned'', ''active'', ''waiting'', ''blocked'', ''verifying'', ''failed''})
                             (Not_Authorized ''task is not resumable by this budget action'')) (\<lambda>_.
                    (case map_of rows task_id of
                       None \<Rightarrow> Inl (Budget_Unavailable ''existing task budget required'')
                     | Some before \<Rightarrow>
                         bindr (require (norm_budget before = before)
                                  (Budget_Unavailable ''corrupt budget cannot be normalized during an increase'')) (\<lambda>_.
                         (let lm = proposed_limits d in
                          bindr (require (raises (lm_tokens lm) (bg_max_tokens before) \<and>
                                          raises (lm_seconds lm) (bg_max_seconds before) \<and>
                                          raises (lm_calls lm) (bg_max_calls before))
                                   (Bad_Value ''every supplied limit must strictly increase'')) (\<lambda>_.
                          (let after_budget = updated_budget None lm False before in
                           bindr (require (case response_budget of PInt n \<Rightarrow> required after_budget + 512 \<le> n | _ \<Rightarrow> True)
                                    Response_Too_Small) (\<lambda>_.
                           Inr (en\<lparr>en_table := Some (dict_set rows (bg_task after_budget) after_budget),
                                   en_cache := dict_set (en_cache en) task_id after_budget\<rparr>,
                                \<lparr>ae_stream = ''budget:'' @ task_id, ae_actor = (case auth_actor of PStr s \<Rightarrow> s | _ \<Rightarrow> []),
                                 ae_before = before, ae_after = after_budget,
                                 ae_reason = (case reason of PStr s \<Rightarrow> s | _ \<Rightarrow> [])\<rparr>)))))))))))))))
      | _ \<Rightarrow> Inl (Bad_Value ''limits must be a nonempty mapping''))))))"

section \<open>\<open>authorize\<close>\<close>

record action_request =
  ar_action :: string
  ar_target :: string
  ar_risk :: risk_class
  ar_details :: "(string \<times> pyval) list"

record decision =
  pd_allowed :: bool
  pd_approval :: bool
  pd_reason :: string
  pd_class :: string

definition deny :: "string \<Rightarrow> string \<Rightarrow> decision" where
  "deny reason cls = \<lparr>pd_allowed = False, pd_approval = False, pd_reason = reason, pd_class = cls\<rparr>"

definition allow_decision :: "string \<Rightarrow> string \<Rightarrow> decision" where
  "allow_decision reason cls = \<lparr>pd_allowed = True, pd_approval = False, pd_reason = reason, pd_class = cls\<rparr>"

definition ask :: "string \<Rightarrow> string \<Rightarrow> decision" where
  "ask reason cls = \<lparr>pd_allowed = False, pd_approval = True, pd_reason = reason, pd_class = cls\<rparr>"

text \<open>\<open>ActionRequest(...)\<close> on a string target and a risk class.\<close>

definition new_request :: "string \<Rightarrow> string \<Rightarrow> risk_class \<Rightarrow> pyval \<Rightarrow> action_request option" where
  "new_request action target risk details =
     (if \<not> canonical_text action then None
      else Some \<lparr>ar_action = action, ar_target = clean_id target, ar_risk = risk,
                 ar_details = (case details of PDict d \<Rightarrow> d | _ \<Rightarrow> [])\<rparr>)"

definition auxiliary_of :: "string \<Rightarrow> (risk_class \<times> string) option" where
  "auxiliary_of action = map_of auxiliary_action_policies action"

definition normalized_action :: "string \<Rightarrow> string" where
  "normalized_action action = replace_char (CHR ''-'') (CHR ''_'') (py_lower (py_strip action))"

definition effective_risk :: "action_request \<Rightarrow> risk_class" where
  "effective_risk req = (case auxiliary_of (ar_action req) of Some (r, _) \<Rightarrow> r | None \<Rightarrow> ar_risk req)"

text \<open>The verdict of the grant; \<open>None\<close> falls through.  \<open>now\<close> is read before \<open>now'\<close>.\<close>

definition grant_verdict :: "seconds \<Rightarrow> seconds \<Rightarrow> string \<Rightarrow> risk_class \<Rightarrow> string \<Rightarrow> grant \<Rightarrow> decision option" where
  "grant_verdict now now' action risk cls g =
     (if grant_expired now g then Some (ask ''capability grant has expired'' cls)
      else if action \<in> gr_denied g \<or> risk_value risk \<in> gr_denied g
      then Some (deny ''explicitly denied by capability grant'' cls)
      else if action \<in> gr_allowed g \<or> risk_value risk \<in> gr_allowed g then
        (case gr_expires g of
           Some e \<Rightarrow> if e \<le> now' then Some (deny ''capability grant has expired'' cls)
                     else Some (allow_decision ''action permitted by capability grant'' cls)
         | None \<Rightarrow> Some (allow_decision ''action permitted by capability grant'' cls))
      else None)"

definition default_verdict :: "risk_class \<Rightarrow> string \<Rightarrow> decision" where
  "default_verdict risk cls =
     (if risk \<in> {Write, Network, Git_Mutation, Secret_Access, System_Config, Privilege_Change}
      then ask (risk_value risk @ '' requires explicit approval or grant'') cls
      else allow_decision ''read-only action permitted by default'' cls)"

definition side_effect_class :: "action_request \<Rightarrow> string" where
  "side_effect_class req =
     (case auxiliary_of (ar_action req) of
        Some (_, c) \<Rightarrow> c
      | None \<Rightarrow> if py_truthy (dict_get (ar_details req) ''auxiliary_action'') then ''unknown''
                else risk_value (ar_risk req))"

definition risk_verdict :: "seconds \<Rightarrow> seconds \<Rightarrow> action_request \<Rightarrow> grant option \<Rightarrow> decision" where
  "risk_verdict now now' req grant =
     (case (case grant of
              None \<Rightarrow> None
            | Some g \<Rightarrow> grant_verdict now now' (ar_action req) (effective_risk req) (side_effect_class req) g) of
        Some v \<Rightarrow> v
      | None \<Rightarrow> default_verdict (effective_risk req) (side_effect_class req))"

definition authorize ::
  "bool \<Rightarrow> seconds \<Rightarrow> seconds \<Rightarrow> action_request \<Rightarrow> string \<Rightarrow> grant option \<Rightarrow> engine \<Rightarrow> engine \<times> decision" where
  "authorize busy now now' req task_id grant en =
     (let action = ar_action req;
          marked = py_truthy (dict_get (ar_details req) ''auxiliary_action'');
          aux = auxiliary_of action;
          cls = side_effect_class req in
      if auxiliary_of (normalized_action action) \<noteq> None \<and> normalized_action action \<noteq> action
      then (en, deny ''unknown auxiliary action denied'' ''unknown'')
      else if aux \<noteq> None \<and> (\<not> en_aux_enabled en \<or> dict_get (ar_details req) ''policy_enabled'' = PBool False)
      then (en, deny ''auxiliary action policy is disabled'' cls)
      else if marked \<and> aux = None then (en, deny ''unknown auxiliary action denied'' ''unknown'')
      else
        (let (en', funds) = (if task_id \<noteq> [] then get_budget busy task_id en else (en, Inr (default_budget []))) in
         case funds of
           Inl _ \<Rightarrow> (en', deny ''budget state unavailable'' cls)
         | Inr b \<Rightarrow>
             if task_id \<noteq> [] \<and> is_exhausted b then (en', deny ''task budget exhausted'' cls)
             else (en', risk_verdict now now' req grant)))"

section \<open>Delegation only takes away\<close>

lemma delegate_child:
  assumes "delegate t1 t2 uid parent requested = Some child"
  shows "gr_denied parent \<subseteq> gr_denied child" "gr_allowed child \<subseteq> gr_allowed parent"
    "gr_expires child = gr_expires parent" "gr_allowed child \<inter> gr_denied child = {}"
    "gr_depth child \<le> max 0 (gr_depth parent - 1)" "gr_depth parent \<le> 0 \<Longrightarrow> gr_allowed child = {}"
    "0 \<le> gr_depth child"
  using assms by (auto simp: delegate_def Let_def split: if_splits)

lemma grant_verdict_allows:
  assumes "grant_verdict now now' action risk cls g = Some v" "pd_allowed v"
  shows "\<not> grant_expired now g \<and> action \<notin> gr_denied g \<and> risk_value risk \<notin> gr_denied g \<and>
         (action \<in> gr_allowed g \<or> risk_value risk \<in> gr_allowed g) \<and>
         (\<forall>e. gr_expires g = Some e \<longrightarrow> now' < e)"
  using assms by (auto simp: grant_verdict_def ask_def deny_def split: if_splits option.splits)

lemma grant_verdict_permits:
  assumes "\<not> grant_expired now g" "action \<notin> gr_denied g" "risk_value risk \<notin> gr_denied g"
    "action \<in> gr_allowed g \<or> risk_value risk \<in> gr_allowed g" "\<And>e. gr_expires g = Some e \<Longrightarrow> now' < e"
  shows "\<exists>v. grant_verdict now now' action risk cls g = Some v \<and> pd_allowed v"
  using assms by (auto simp: grant_verdict_def allow_decision_def split: option.splits)

lemma default_verdict_allowed [simp]: "pd_allowed (default_verdict risk cls) \<longleftrightarrow> risk = Read"
  by (cases risk) (auto simp: default_verdict_def ask_def allow_decision_def)

lemma risk_verdict_attenuates:
  assumes del: "delegate t1 t2 uid parent requested = Some child"
    and ok: "pd_allowed (risk_verdict now now' req (Some child))" and risk: "effective_risk req \<noteq> Read"
  shows "pd_allowed (risk_verdict now now' req (Some parent))"
proof -
  note ch = delegate_child [OF del]
  obtain v where "grant_verdict now now' (ar_action req) (effective_risk req) (side_effect_class req) child = Some v" "pd_allowed v"
    using ok risk by (auto simp: risk_verdict_def split: option.splits)
  note al = grant_verdict_allows [OF this]
  have "grant_expired now parent = grant_expired now child" using ch(3) by (simp add: grant_expired_def)
  then have "\<exists>v. grant_verdict now now' (ar_action req) (effective_risk req) (side_effect_class req) parent = Some v \<and> pd_allowed v"
    using al ch(1-3) by (intro grant_verdict_permits) auto
  then show ?thesis by (auto simp: risk_verdict_def)
qed

text \<open>What a positive decision means.\<close>

lemma authorize_allowed_iff:
  "pd_allowed (snd (authorize busy now now' req task_id grant en)) \<longleftrightarrow>
     (auxiliary_of (normalized_action (ar_action req)) \<noteq> None \<longrightarrow> normalized_action (ar_action req) = ar_action req) \<and>
     (auxiliary_of (ar_action req) \<noteq> None \<longrightarrow>
        en_aux_enabled en \<and> dict_get (ar_details req) ''policy_enabled'' \<noteq> PBool False) \<and>
     (py_truthy (dict_get (ar_details req) ''auxiliary_action'') \<longrightarrow> auxiliary_of (ar_action req) \<noteq> None) \<and>
     (task_id \<noteq> [] \<longrightarrow> (\<exists>b. snd (get_budget busy task_id en) = Inr b \<and> \<not> is_exhausted b)) \<and>
     pd_allowed (risk_verdict now now' req grant)"
proof -
  obtain en' funds where g: "get_budget busy task_id en = (en', funds)" by (cases "get_budget busy task_id en")
  show ?thesis
    unfolding authorize_def Let_def g by (cases funds) (auto simp: deny_def)
qed

section \<open>Properties\<close>

text \<open>
  C38. Delegation gives no new authority: whenever a delegated grant authorises an action that is not
  read-only, the grant it was delegated from authorises it too, for every task, budget and time.
\<close>

theorem delegation_attenuates:
  assumes "delegate t1 t2 uid parent requested = Some child"
    and "pd_allowed (snd (authorize busy now now' req task_id (Some child) en))" and "effective_risk req \<noteq> Read"
  shows "pd_allowed (snd (authorize busy now now' req task_id (Some parent) en))"
  using assms risk_verdict_attenuates unfolding authorize_allowed_iff by blast

definition demo_grant :: grant where
  "demo_grant = \<lparr>gr_id = ''g'', gr_task = ''t'', gr_allowed = set [''run'', ''network''], gr_denied = set [''format''],
     gr_expires = Some 100, gr_depth = 2\<rparr>"

definition demo_request :: "string \<Rightarrow> action_request" where
  "demo_request a = \<lparr>ar_action = a, ar_target = [], ar_risk = Read, ar_details = []\<rparr>"

definition demo_engine :: engine where
  "demo_engine = \<lparr>en_table = Some [(''t'', default_budget ''t'')], en_cache = [], en_aux_enabled = True\<rparr>"

abbreviation "demo_delegate g \<equiv> delegate 1 2 ''u'' g (set [''run'', ''config''])"

lemma delegate_some: "delegate t1 t2 u g A \<noteq> None \<Longrightarrow> delegate t1 t2 u g A = Some (the (delegate t1 t2 u g A))"
  by simp

theorem delegation_attenuates_witness:
  "pd_allowed (snd (authorize False 5 6 (demo_request ''run'') ''t'' (Some demo_grant) demo_engine))"
proof -
  have d: "demo_delegate demo_grant \<noteq> None" by code_simp
  have a: "pd_allowed (snd (authorize False 5 6 (demo_request ''run'') ''t'' (Some (the (demo_delegate demo_grant))) demo_engine))"
    and r: "effective_risk (demo_request ''run'') \<noteq> Read"
    by code_simp+
  show ?thesis by (rule delegation_attenuates [OF delegate_some [OF d] a r])
qed

fun delegate_chain :: "(seconds \<times> seconds \<times> string \<times> string set) list \<Rightarrow> grant \<Rightarrow> grant option" where
  "delegate_chain [] g = Some g"
| "delegate_chain ((t1, t2, uid, requested) # steps) g =
     (case delegate t1 t2 uid g requested of None \<Rightarrow> None | Some child \<Rightarrow> delegate_chain steps child)"

lemma delegate_chain_mono:
  "delegate_chain steps g = Some h \<Longrightarrow>
     gr_allowed h \<subseteq> gr_allowed g \<and> gr_denied g \<subseteq> gr_denied h \<and> (gr_allowed g = {} \<longrightarrow> gr_allowed h = {})"
proof (induction steps arbitrary: g)
  case (Cons s steps)
  obtain t1 t2 uid requested where s: "s = (t1, t2, uid, requested)" by (cases s)
  obtain child where c: "delegate t1 t2 uid g requested = Some child" "delegate_chain steps child = Some h"
    using Cons.prems by (auto simp: s split: option.splits)
  show ?case using Cons.IH [OF c(2)] delegate_child [OF c(1)] by auto
qed simp

text \<open>
  A chain of delegations is bounded by the depth of its first grant: the grant reached after
  more delegations than that depth allows nothing, and every grant on the way allows only what the
  first one allows and denies everything the first one denies.
\<close>

theorem delegation_depth_bounded:
  assumes "delegate_chain steps g = Some h" and "0 \<le> gr_depth g" and "gr_depth g < int (length steps)"
  shows "gr_allowed h = {} \<and> gr_denied g \<subseteq> gr_denied h"
  using assms
proof (induction steps arbitrary: g)
  case Nil
  then show ?case by simp
next
  case (Cons s steps)
  obtain t1 t2 uid requested where s: "s = (t1, t2, uid, requested)" by (cases s)
  obtain child where c: "delegate t1 t2 uid g requested = Some child" "delegate_chain steps child = Some h"
    using Cons.prems by (auto simp: s split: option.splits)
  note ch = delegate_child [OF c(1)]
  show ?case
  proof (cases "gr_depth g \<le> 0")
    case True
    then show ?thesis using ch delegate_chain_mono [OF c(2)] by auto
  next
    case False
    then have "gr_depth child < int (length steps)" using ch(5) Cons.prems(3) by simp
    then show ?thesis using Cons.IH [OF c(2) ch(7)] ch(1) by blast
  qed
qed

theorem delegation_depth_bounded_witness:
  "gr_allowed (the (delegate_chain (replicate 3 (1, 2, ''u'', set [''run''])) demo_grant)) = {} \<and>
   gr_denied demo_grant \<subseteq> gr_denied (the (delegate_chain (replicate 3 (1, 2, ''u'', set [''run''])) demo_grant))"
proof (rule delegation_depth_bounded)
  have "delegate_chain (replicate 3 (1, 2, ''u'', set [''run''])) demo_grant \<noteq> None" by code_simp
  then show "delegate_chain (replicate 3 (1, 2, ''u'', set [''run''])) demo_grant =
      Some (the (delegate_chain (replicate 3 (1, 2, ''u'', set [''run''])) demo_grant))" by simp
qed (simp_all add: demo_grant_def)

text \<open>
  C33. The policy fails closed: an action is authorised only if the task's budget is readable and not
  exhausted, its auxiliary policy is enabled, and it is read-only or an unexpired grant names it or
  its risk class without denying either.
\<close>

theorem authorize_fails_closed:
  assumes "pd_allowed (snd (authorize busy now now' req task_id grant en))"
  shows "(task_id \<noteq> [] \<longrightarrow> (\<exists>b. snd (get_budget busy task_id en) = Inr b \<and> \<not> is_exhausted b)) \<and>
         (auxiliary_of (ar_action req) \<noteq> None \<longrightarrow> en_aux_enabled en) \<and>
         (effective_risk req = Read \<or>
          (\<exists>g. grant = Some g \<and> \<not> grant_expired now g \<and> (\<forall>e. gr_expires g = Some e \<longrightarrow> now' < e) \<and>
               (ar_action req \<in> gr_allowed g \<or> risk_value (effective_risk req) \<in> gr_allowed g) \<and>
               ar_action req \<notin> gr_denied g \<and> risk_value (effective_risk req) \<notin> gr_denied g))"
proof -
  note al = assms [unfolded authorize_allowed_iff]
  have "effective_risk req = Read \<or> (\<exists>g v. grant = Some g \<and> pd_allowed v \<and>
      grant_verdict now now' (ar_action req) (effective_risk req) (side_effect_class req) g = Some v)"
    using al by (auto simp: risk_verdict_def split: option.splits)
  then have "effective_risk req = Read \<or> (\<exists>g. grant = Some g \<and> \<not> grant_expired now g \<and>
      ar_action req \<notin> gr_denied g \<and> risk_value (effective_risk req) \<notin> gr_denied g \<and>
      (ar_action req \<in> gr_allowed g \<or> risk_value (effective_risk req) \<in> gr_allowed g) \<and>
      (\<forall>e. gr_expires g = Some e \<longrightarrow> now' < e))"
    by (auto dest: grant_verdict_allows)
  then show ?thesis using al by blast
qed

theorem authorize_fails_closed_witness:
  "(\<exists>b. snd (get_budget False ''t'' demo_engine) = Inr b \<and> \<not> is_exhausted b) \<and> en_aux_enabled demo_engine"
proof -
  have a: "pd_allowed (snd (authorize False 5 6 (demo_request ''run'') ''t'' (Some demo_grant) demo_engine))"
    by code_simp
  have "auxiliary_of (ar_action (demo_request ''run'')) \<noteq> None" by code_simp
  then show ?thesis using authorize_fails_closed [OF a] by simp
qed

text \<open>
  A caller cannot lower the risk of an auxiliary action: the verdict does not depend on the risk
  class it declares, nor can a differently spelled name of an auxiliary action get through.
\<close>

theorem auxiliary_risk_is_fixed:
  "(auxiliary_of (ar_action req) \<noteq> None \<longrightarrow>
      authorize busy now now' (req\<lparr>ar_risk := r\<rparr>) task_id grant en = authorize busy now now' req task_id grant en) \<and>
   (auxiliary_of (normalized_action (ar_action req)) \<noteq> None \<and> normalized_action (ar_action req) \<noteq> ar_action req \<longrightarrow>
      \<not> pd_allowed (snd (authorize busy now now' req task_id grant en)))"
proof -
  have "authorize busy now now' (req\<lparr>ar_risk := r\<rparr>) task_id grant en = authorize busy now now' req task_id grant en"
    if aux: "auxiliary_of (ar_action req) = Some (rc, c)" for rc c
  proof -
    have same: "side_effect_class (req\<lparr>ar_risk := r\<rparr>) = side_effect_class req"
      "effective_risk (req\<lparr>ar_risk := r\<rparr>) = effective_risk req"
      using aux by (simp_all add: side_effect_class_def effective_risk_def)
    have "risk_verdict now now' (req\<lparr>ar_risk := r\<rparr>) grant = risk_verdict now now' req grant"
      unfolding risk_verdict_def same by (cases grant) simp_all
    then have "\<And>e b. (if task_id \<noteq> [] \<and> is_exhausted b then (e, deny ''task budget exhausted'' (side_effect_class req))
        else (e :: engine, risk_verdict now now' (req\<lparr>ar_risk := r\<rparr>) grant)) =
      (if task_id \<noteq> [] \<and> is_exhausted b then (e, deny ''task budget exhausted'' (side_effect_class req))
        else (e, risk_verdict now now' req grant))" by simp
    then show ?thesis unfolding authorize_def same Let_def by (simp cong: if_cong)
  qed
  then show ?thesis unfolding authorize_allowed_iff by auto
qed

theorem auxiliary_risk_is_fixed_witness:
  "authorize False 5 6 ((demo_request ''run'')\<lparr>ar_risk := Write\<rparr>) ''t'' None demo_engine =
     authorize False 5 6 (demo_request ''run'') ''t'' None demo_engine \<and>
   \<not> pd_allowed (snd (authorize False 5 6 (demo_request ''Run'') ''t'' None demo_engine))"
proof -
  have "auxiliary_of (ar_action (demo_request ''run'')) \<noteq> None"
    "auxiliary_of (normalized_action (ar_action (demo_request ''Run''))) \<noteq> None"
    "normalized_action (ar_action (demo_request ''Run'')) \<noteq> ar_action (demo_request ''Run'')"
    by code_simp+
  then show ?thesis
    using auxiliary_risk_is_fixed [of "demo_request ''run''"] auxiliary_risk_is_fixed [of "demo_request ''Run''"] by blast
qed

section \<open>Budget accounting\<close>

lemma clean_id_idem [simp]: "clean_id (clean_id s) = clean_id s"
proof -
  have "nul \<notin> set (clean_id s)" using set_py_strip by (fastforce simp: clean_id_def)
  then have "filter (\<lambda>c. c \<noteq> nul) (clean_id s) = clean_id s" by (intro filter_True) auto
  then show ?thesis by (simp add: clean_id_def)
qed

lemma norm_budget_idem [simp]: "norm_budget (norm_budget b) = norm_budget b"
  by (simp add: norm_budget_def)

lemma bg_task_norm [simp]: "bg_task (norm_budget b) = clean_id (bg_task b)"
  by (simp add: norm_budget_def)

definition proper_cost :: "budget_cost \<Rightarrow> bool" where
  "proper_cost c \<longleftrightarrow> 0 \<le> ct_tokens c \<and> 0 \<le> ct_seconds c \<and> 0 \<le> ct_calls c"

text \<open>The budget the database holds for a task, and the result of consuming a list of costs.\<close>

definition stored_budget :: "string \<Rightarrow> engine \<Rightarrow> budget" where
  "stored_budget task_id en =
     (case map_of (case en_table en of None \<Rightarrow> [] | Some rows \<Rightarrow> rows) task_id of
        None \<Rightarrow> default_budget task_id
      | Some row \<Rightarrow> norm_budget row)"

fun consume_all :: "string \<Rightarrow> budget_cost list \<Rightarrow> engine \<Rightarrow> engine" where
  "consume_all task_id [] en = en"
| "consume_all task_id (c # cs) en = consume_all task_id cs (fst (consume_budget False task_id c en))"

definition charge :: "budget_cost list \<Rightarrow> budget \<Rightarrow> budget" where
  "charge cs b = b\<lparr>bg_used_tokens := bg_used_tokens b + sum_list (map ct_tokens cs),
     bg_used_seconds := bg_used_seconds b + sum_list (map ct_seconds cs),
     bg_used_calls := bg_used_calls b + sum_list (map ct_calls cs)\<rparr>"

lemma norm_stored [simp]: "norm_budget (stored_budget t en) = stored_budget t en"
  by (simp add: stored_budget_def default_budget_def split: option.split)

lemma norm_fields:
  assumes "norm_budget b = b"
  shows "clean_id (bg_task b) = bg_task b" "0 \<le> bg_max_tokens b" "0 \<le> bg_used_tokens b" "0 \<le> bg_max_seconds b"
    "0 \<le> bg_used_seconds b" "0 \<le> bg_max_calls b" "0 \<le> bg_used_calls b"
  using arg_cong [OF assms, of bg_task] arg_cong [OF assms, of bg_max_tokens] arg_cong [OF assms, of bg_used_tokens]
    arg_cong [OF assms, of bg_max_seconds] arg_cong [OF assms, of bg_used_seconds]
    arg_cong [OF assms, of bg_max_calls] arg_cong [OF assms, of bg_used_calls]
  by (simp_all add: norm_budget_def max_def split: if_splits)

lemma proper_sums:
  "list_all proper_cost cs \<Longrightarrow>
     0 \<le> sum_list (map ct_tokens cs) \<and> 0 \<le> sum_list (map ct_seconds cs) \<and> 0 \<le> sum_list (map ct_calls cs)"
  by (induction cs) (auto simp: proper_cost_def)

lemma norm_charge: "norm_budget b = b \<Longrightarrow> list_all proper_cost cs \<Longrightarrow> norm_budget (charge cs b) = charge cs b"
  using norm_fields [of b] proper_sums [of cs] by (cases b) (simp add: norm_budget_def charge_def)

lemma updated_is_charge:
  assumes "norm_budget b = b" "proper_cost c"
  shows "updated_budget (Some c) no_limits False b = charge [c] b"
proof -
  have "updated_budget (Some c) no_limits False b = norm_budget (charge [c] b)"
    by (cases b) (simp add: updated_budget_def charge_def no_limits_def or_default_def)
  then show ?thesis using norm_charge [of b "[c]"] assms by simp
qed

lemma charge_Cons: "charge (c # cs) b = charge cs (charge [c] b)"
  by (simp add: charge_def)

lemma consume_step:
  assumes t: "en_table en = Some rows" and i: "clean_id i = i" and c: "proper_cost c"
    and st: "storable (charge [c] (stored_budget i en))" and b: "bg_task (stored_budget i en) = i"
  shows "en_table (fst (consume_budget False i c en)) = Some (dict_set rows i (charge [c] (stored_budget i en)))"
    "stored_budget i (fst (consume_budget False i c en)) = charge [c] (stored_budget i en)"
proof -
  have cur: "(case map_of rows i of Some row \<Rightarrow> norm_budget row | None \<Rightarrow> default_budget i) = stored_budget i en"
    by (simp add: stored_budget_def t split: option.split)
  have u: "updated_budget (Some c) no_limits False (stored_budget i en) = charge [c] (stored_budget i en)"
    using c by (simp add: updated_is_charge)
  have k: "bg_task (charge [c] (stored_budget i en)) = i" using b by (simp add: charge_def)
  show tab: "en_table (fst (consume_budget False i c en)) = Some (dict_set rows i (charge [c] (stored_budget i en)))"
    by (simp add: consume_budget_def mutate_budget_def t cur u st k Let_def)
  have "norm_budget (charge [c] (stored_budget i en)) = charge [c] (stored_budget i en)"
    using norm_charge [of "stored_budget i en" "[c]"] c by simp
  then show "stored_budget i (fst (consume_budget False i c en)) = charge [c] (stored_budget i en)"
    unfolding stored_budget_def [of i "fst (consume_budget False i c en)"] tab by simp
qed

lemma storable_charge_prefix:
  assumes "storable (charge (c # cs) b)" "list_all proper_cost (c # cs)" "norm_budget b = b"
  shows "storable (charge [c] b)"
proof -
  have "0 \<le> sum_list (map ct_tokens cs)" "0 \<le> sum_list (map ct_calls cs)" "0 \<le> ct_tokens c" "0 \<le> ct_calls c"
    using assms(2) proper_sums [of cs] by (auto simp: proper_cost_def)
  then show ?thesis using assms(1) norm_fields [OF assms(3)] by (simp add: storable_def charge_def sql_int_def)
qed

lemma consume_all_exact:
  assumes "en_table en = Some rows" "clean_id i = i" "list_all proper_cost cs"
    "storable (charge cs (stored_budget i en))" "bg_task (stored_budget i en) = i"
  shows "stored_budget i (consume_all i cs en) = charge cs (stored_budget i en) \<and>
         (\<exists>rows'. en_table (consume_all i cs en) = Some rows' \<and>
            (cs \<noteq> [] \<longrightarrow> map_of rows' i = Some (charge cs (stored_budget i en))) \<and>
            (\<forall>j. j \<noteq> i \<longrightarrow> map_of rows' j = map_of rows j))"
  using assms
proof (induction cs arbitrary: en rows)
  case Nil
  then show ?case by (simp add: charge_def)
next
  case (Cons c cs)
  let ?e = "fst (consume_budget False i c en)"
  have st: "storable (charge [c] (stored_budget i en))"
    by (rule storable_charge_prefix [OF Cons.prems(4,3) norm_stored])
  note step = consume_step [OF Cons.prems(1,2) _ st Cons.prems(5)]
  have c: "proper_cost c" "list_all proper_cost cs" using Cons.prems(3) by auto
  have "storable (charge cs (stored_budget i ?e))" "bg_task (stored_budget i ?e) = i"
    unfolding step(2) [OF c(1)] charge_Cons [symmetric, of cs] using Cons.prems(4,5) by (simp, simp add: charge_def)
  note IH = Cons.IH [OF step(1) [OF c(1)] Cons.prems(2) c(2) this]
  have first: "cs = [] \<Longrightarrow> map_of (dict_set rows i (charge [c] (stored_budget i en))) i = Some (charge (c # cs) (stored_budget i en))"
    by simp
  have "stored_budget i (consume_all i (c # cs) en) = charge (c # cs) (stored_budget i en)"
    using conjunct1 [OF IH] unfolding step(2) [OF c(1)] consume_all.simps charge_Cons [symmetric, of cs] .
  moreover obtain rows' where r: "en_table (consume_all i (c # cs) en) = Some rows'"
    "cs \<noteq> [] \<longrightarrow> map_of rows' i = Some (charge (c # cs) (stored_budget i en))"
    "\<forall>j. j \<noteq> i \<longrightarrow> map_of rows' j = map_of rows j"
    using conjunct2 [OF IH] unfolding step(2) [OF c(1)] consume_all.simps charge_Cons [symmetric, of cs] by auto
  moreover have "cs = [] \<Longrightarrow> map_of rows' i = Some (charge (c # cs) (stored_budget i en))"
    using r(1) step(1) [OF c(1)] first by simp
  ultimately show ?case by blast
qed

text \<open>
  Consumption is exact: after any list of costs the stored usage of a task is its earlier usage
  plus their sum, its limits and every other task's row are as before, and once the sum reaches the
  token limit no action of the task is authorised.
\<close>

theorem budget_consumption_exact:
  assumes "en_table en = Some rows" and "clean_id i = i" and "bg_task (stored_budget i en) = i"
    and "list_all proper_cost cs" and "storable (charge cs (stored_budget i en))"
  shows "stored_budget i (consume_all i cs en) = charge cs (stored_budget i en) \<and>
         (\<exists>rows'. en_table (consume_all i cs en) = Some rows' \<and> (\<forall>j. j \<noteq> i \<longrightarrow> map_of rows' j = map_of rows j)) \<and>
         (i \<noteq> [] \<and> cs \<noteq> [] \<and>
          bg_max_tokens (stored_budget i en) \<le> bg_used_tokens (stored_budget i en) + sum_list (map ct_tokens cs) \<longrightarrow>
            \<not> pd_allowed (snd (authorize busy now now' req i grant (consume_all i cs en))))"
proof -
  note ex = consume_all_exact [OF assms(1,2,4,5,3)]
  obtain rows' where rows': "en_table (consume_all i cs en) = Some rows'"
    "cs \<noteq> [] \<longrightarrow> map_of rows' i = Some (charge cs (stored_budget i en))" "\<forall>j. j \<noteq> i \<longrightarrow> map_of rows' j = map_of rows j"
    using ex by blast
  have n: "norm_budget (charge cs (stored_budget i en)) = charge cs (stored_budget i en)"
    by (rule norm_charge [OF norm_stored assms(4)])
  have "\<not> pd_allowed (snd (authorize busy now now' req i grant (consume_all i cs en)))"
    if "i \<noteq> []" "cs \<noteq> []"
      "bg_max_tokens (stored_budget i en) \<le> bg_used_tokens (stored_budget i en) + sum_list (map ct_tokens cs)"
  proof -
    have "is_exhausted (charge cs (stored_budget i en))" using that by (simp add: is_exhausted_def charge_def)
    then have "\<not> (\<exists>b. snd (get_budget busy i (consume_all i cs en)) = Inr b \<and> \<not> is_exhausted b)"
      using rows' that(2) n by (auto simp: get_budget_def)
    then show ?thesis using that(1) unfolding authorize_allowed_iff by blast
  qed
  then show ?thesis using ex rows' by blast
qed

abbreviation "demo_costs \<equiv> [new_cost 60000 1 0, new_cost 40000 2 0]"

theorem budget_consumption_exact_witness:
  "\<not> pd_allowed (snd (authorize False 5 6 (demo_request ''classify'') ''t'' None (consume_all ''t'' demo_costs demo_engine)))"
proof -
  have st: "stored_budget ''t'' demo_engine = default_budget ''t''"
    by (simp add: stored_budget_def demo_engine_def default_budget_def)
  have cl: "clean_id ''t'' = ''t''" by code_simp
  have "storable (charge demo_costs (default_budget ''t''))"
    by (simp add: storable_def charge_def default_budget_def norm_budget_def new_cost_def sql_int_def)
  moreover have "en_table demo_engine = Some [(''t'', default_budget ''t'')]" by (simp add: demo_engine_def)
  moreover have "list_all proper_cost demo_costs" by (simp add: proper_cost_def new_cost_def)
  moreover have "bg_task (default_budget ''t'') = ''t''" by (simp add: default_budget_def norm_budget_def cl)
  moreover have "bg_max_tokens (default_budget ''t'') \<le> bg_used_tokens (default_budget ''t'') + sum_list (map ct_tokens demo_costs)"
    by (simp add: default_budget_def norm_budget_def new_cost_def)
  ultimately show ?thesis
    using budget_consumption_exact [of demo_engine _ "''t''" demo_costs False 5 6 "demo_request ''classify''" None] cl
    unfolding st by simp
qed

lemma some_limit:
  assumes "d \<noteq> []" "fst ` set d \<subseteq> {''max_tokens'', ''max_compute_seconds'', ''max_external_calls''}" "list_all valid_limit d"
  shows "lm_tokens (proposed_limits d) \<noteq> None \<or> lm_seconds (proposed_limits d) \<noteq> None \<or> lm_calls (proposed_limits d) \<noteq> None"
proof -
  obtain k v d' where d: "d = (k, v) # d'" using assms(1) by (cases d) auto
  then have k: "k = ''max_tokens'' \<or> k = ''max_compute_seconds'' \<or> k = ''max_external_calls''"
    and v: "valid_limit (k, v)" and m: "map_of d k = Some v" using assms by auto
  show ?thesis using k
  proof (elim disjE)
    assume e: "k = ''max_compute_seconds''"
    then show ?thesis using v m
      by (auto simp: proposed_limits_def real_limit_def valid_limit_def split: pyval.splits pyfloat.splits)
  qed (use v m in \<open>auto simp: proposed_limits_def int_limit_def valid_limit_def split: pyval.splits\<close>)
qed

text \<open>
  An accepted increase leaves the consumption as it was and lowers no limit, raises at least one,
  is only made for the task's owner inside the task's repository, and its audit event holds exactly
  the row before and the row stored after.
\<close>

theorem increase_only_raises:
  assumes "increase_task_budget busy i actor rroot reason (PDict d) auth rb required task en = Inr (en', ev)"
    and "en_table en = Some rows"
  shows "\<exists>before after_budget rows' tv.
           map_of rows i = Some before \<and> en_table en' = Some rows' \<and> rows' = dict_set rows (bg_task before) after_budget \<and>
           task = Some tv \<and> tv_owner tv = actor \<and> tv_root tv = PStr rroot \<and>
           ae_before ev = before \<and> ae_after ev = after_budget \<and>
           bg_used_tokens after_budget = bg_used_tokens before \<and> bg_used_seconds after_budget = bg_used_seconds before \<and>
           bg_used_calls after_budget = bg_used_calls before \<and>
           bg_max_tokens before \<le> bg_max_tokens after_budget \<and> bg_max_seconds before \<le> bg_max_seconds after_budget \<and>
           bg_max_calls before \<le> bg_max_calls after_budget \<and>
           (bg_max_tokens before < bg_max_tokens after_budget \<or> bg_max_seconds before < bg_max_seconds after_budget \<or>
            bg_max_calls before < bg_max_calls after_budget)"
proof -
  let ?lm = "proposed_limits d"
  obtain tv before where r: "d \<noteq> []" "fst ` set d \<subseteq> {''max_tokens'', ''max_compute_seconds'', ''max_external_calls''}"
    "list_all valid_limit d" "task = Some tv" "tv_owner tv = actor" "tv_root tv = PStr rroot" "map_of rows i = Some before"
    "norm_budget before = before" "raises (lm_tokens ?lm) (bg_max_tokens before)"
    "raises (lm_seconds ?lm) (bg_max_seconds before)" "raises (lm_calls ?lm) (bg_max_calls before)"
    "en_table en' = Some (dict_set rows (bg_task (updated_budget None ?lm False before)) (updated_budget None ?lm False before))"
    "ae_before ev = before" "ae_after ev = updated_budget None ?lm False before"
    using assms by (auto simp: increase_task_budget_def Let_def split: option.splits)
  define a where "a = updated_budget None ?lm False before"
  note nn = norm_fields [OF r(8)]
  have lims: "bg_max_tokens a = or_default (lm_tokens ?lm) (bg_max_tokens before)"
    "bg_max_seconds a = or_default (lm_seconds ?lm) (bg_max_seconds before)"
    "bg_max_calls a = or_default (lm_calls ?lm) (bg_max_calls before)"
    using nn r(9-11) by (auto simp: a_def updated_budget_def norm_budget_def raises_def or_default_def split: option.splits)
  have used: "bg_task a = bg_task before" "bg_used_tokens a = bg_used_tokens before"
    "bg_used_seconds a = bg_used_seconds before" "bg_used_calls a = bg_used_calls before"
    using nn by (simp_all add: a_def updated_budget_def norm_budget_def)
  have "lm_tokens ?lm \<noteq> None \<or> lm_seconds ?lm \<noteq> None \<or> lm_calls ?lm \<noteq> None"
    by (rule some_limit [OF r(1-3)])
  then have "bg_max_tokens before < bg_max_tokens a \<or> bg_max_seconds before < bg_max_seconds a \<or>
      bg_max_calls before < bg_max_calls a"
    using r(9-11) unfolding lims by (auto simp: raises_def or_default_def)
  moreover have "bg_max_tokens before \<le> bg_max_tokens a" "bg_max_seconds before \<le> bg_max_seconds a"
    "bg_max_calls before \<le> bg_max_calls a"
    using r(9-11) unfolding lims by (auto simp: raises_def or_default_def split: option.splits)
  ultimately show ?thesis using r(4-7,12-14) used unfolding a_def by auto
qed

definition demo_task :: task_view where
  "demo_task = \<lparr>tv_owner = ''o'', tv_status = ''active'', tv_version = PInt 2, tv_root = PStr ''/r''\<rparr>"

definition demo_increase :: "increase_error + engine \<times> audit_event" where
  "demo_increase = increase_task_budget False ''t'' ''o'' ''/r'' (PStr ''more'') (PDict [(''max_external_calls'', PInt 60)])
     (PStr ''local'') PNone (\<lambda>_. 0) (Some demo_task) demo_engine"

theorem increase_only_raises_witness:
  "\<exists>before after_budget. map_of [(''t'', default_budget ''t'')] ''t'' = Some before \<and>
     bg_used_calls after_budget = bg_used_calls before \<and> before \<noteq> after_budget"
proof -
  have f: "canonical_text ''t''" "canonical_text ''o''" "py_strip ''more'' \<noteq> []"
    "valid_limit (''max_external_calls'', PInt 60)" "norm_budget (default_budget ''t'') = default_budget ''t''"
    by (code_simp, code_simp, code_simp, simp add: valid_limit_def, simp add: default_budget_def)
  have "bg_max_calls (default_budget ''t'') = 50" by (simp add: default_budget_def norm_budget_def)
  then have g: "raises (lm_calls (proposed_limits [(''max_external_calls'', PInt 60)])) (bg_max_calls (default_budget ''t''))"
    "raises (lm_tokens (proposed_limits [(''max_external_calls'', PInt 60)])) (bg_max_tokens (default_budget ''t''))"
    "raises (lm_seconds (proposed_limits [(''max_external_calls'', PInt 60)])) (bg_max_seconds (default_budget ''t''))"
    by (simp_all add: proposed_limits_def int_limit_def real_limit_def raises_def)
  have "\<not> isl demo_increase"
    by (simp add: demo_increase_def increase_task_budget_def demo_engine_def demo_task_def f g Let_def)
  then obtain en' ev where "demo_increase = Inr (en', ev)" by (metis sum.collapse(2) surj_pair)
  from increase_only_raises [OF this [unfolded demo_increase_def], of "[(''t'', default_budget ''t'')]"]
  show ?thesis by (fastforce simp: demo_engine_def)
qed

section \<open>Grants as dictionaries\<close>

lemma str_list_map_PStr [simp]: "str_list (PList (map PStr xs)) = Some xs"
  by (simp add: str_list_def list_all_iff comp_def)

lemma new_grant_SomeE:
  assumes "new_grant gid task al de ex dp = Some g"
  obtains e d where "g = \<lparr>gr_id = gid, gr_task = task, gr_allowed = al, gr_denied = de, gr_expires = e, gr_depth = d\<rparr>"
    "0 \<le> d" "py_strip gid = gid" "nul \<notin> set gid" "py_strip task = task" "nul \<notin> set task" "gid \<noteq> []"
    "\<forall>v \<in> al. canonical_text v" "\<forall>v \<in> de. canonical_text v"
proof -
  have pre: "py_strip gid = gid" "nul \<notin> set gid" "py_strip task = task" "nul \<notin> set task" "gid \<noteq> []"
    "\<forall>v \<in> al. canonical_text v" "\<forall>v \<in> de. canonical_text v"
    using assms by (simp_all add: new_grant_def split: if_splits)
  then obtain d where d: "dp = PInt d" "0 \<le> d"
    using assms by (cases dp) (simp_all add: new_grant_def split: if_splits)
  have "\<exists>e. g = \<lparr>gr_id = gid, gr_task = task, gr_allowed = al, gr_denied = de, gr_expires = e, gr_depth = d\<rparr>"
    using assms pre d by (cases ex) (auto simp: new_grant_def split: if_splits pyfloat.splits)
  then show thesis using that d(2) pre by blast
qed

text \<open>
  \<open>from_dict\<close> reads back what \<open>to_dict\<close> writes, for every grant the constructor accepts and
  whatever the order of the serialised sets.
\<close>

theorem grant_dict_roundtrip:
  assumes "new_grant gid task al de ex dp = Some g" and "set xs = gr_allowed g" and "set ys = gr_denied g"
  shows "grant_from_dict (grant_to_dict xs ys g) = Some g"
proof -
  have "new_grant (gr_id g) (gr_task g) (gr_allowed g) (gr_denied g)
      (case gr_expires g of None \<Rightarrow> PNone | Some r \<Rightarrow> PFloat (Fin r)) (PInt (gr_depth g)) = Some g"
    by (rule new_grant_SomeE [OF assms(1)]) (auto simp: new_grant_def split: option.split)
  then show ?thesis
    unfolding grant_from_dict_def grant_to_dict_def using assms(2,3) by (simp add: get_default_def)
qed

theorem grant_dict_roundtrip_witness:
  "grant_from_dict (grant_to_dict [''run'', ''network''] [''format''] demo_grant) = Some demo_grant"
proof (rule grant_dict_roundtrip)
  show "new_grant ''g'' ''t'' (set [''run'', ''network'']) (set [''format'']) (PFloat (Fin 100)) (PInt 2) = Some demo_grant"
  proof -
    have "\<forall>v \<in> set [''run'', ''network'']. canonical_text v" "\<forall>v \<in> set [''format'']. canonical_text v" "canonical_text ''g''"
      "py_strip ''t'' = ''t''" by code_simp+
    then show ?thesis by (simp add: new_grant_def demo_grant_def canonical_text_def)
  qed
qed (simp_all add: demo_grant_def)

section \<open>Budgets kept in memory only\<close>

text \<open>
  Without a state store the cache is the only record of a task's consumption, and \<open>get_budget\<close> drops
  the first 256 entries once it holds more than 512: an exhausted task among them starts afresh.
\<close>

lemma evicted_budget_is_reset:
  assumes "en_table en = None" "512 < length (en_cache en)" "i \<in> fst ` set (take 256 (en_cache en))"
    "distinct (map fst (en_cache en))"
  shows "snd (get_budget busy i en) = Inr (default_budget i) \<and> \<not> is_exhausted (default_budget i)"
proof -
  have "distinct (map fst (take 256 (en_cache en) @ drop 256 (en_cache en)))" using assms(4) by simp
  then have "i \<notin> fst ` set (drop 256 (en_cache en))" using assms(3) unfolding map_append distinct_append by auto
  then have "map_of (drop 256 (en_cache en)) i = None" by (simp add: map_of_eq_None_iff)
  then show ?thesis using assms(1,2)
    by (simp add: get_budget_def trim_cache_def is_exhausted_def default_budget_def norm_budget_def)
qed

end
