(* ===== verification/Json_Text.thy ===== *)
theory Json_Text
  imports Hub_Prelude
begin

text \<open>
  JSON text as \<open>json.dumps(..., ensure_ascii=False, allow_nan=False)\<close> writes it, and the bounds that
  \<open>repo_plan/schema_validation.py\<close> puts on plan data: the nesting of a value, the nesting of a raw
  text before it is parsed, and the finiteness of its numbers.  \<open>float_repr\<close> is the decimal text of
  a finite float.
\<close>

definition max_plan_file_bytes :: int where
  "max_plan_file_bytes = 1024 * 1024"

definition max_plan_nesting_depth :: nat where
  "max_plan_nesting_depth = 32"

section \<open>Bounds on values\<close>

fun children :: "pyval \<Rightarrow> pyval list" where
  "children (PDict d) = map snd d"
| "children (PList vs) = vs"
| "children _ = []"

fun val_size :: "pyval \<Rightarrow> nat" where
  "val_size (PDict d) = Suc (sum_list (map (\<lambda>kv. val_size (snd kv)) d))"
| "val_size (PList vs) = Suc (sum_list (map val_size vs))"
| "val_size _ = 1"

lemma val_size_children: "sum_list (map val_size (children v)) < val_size v"
  by (cases v) (auto simp: comp_def)

text \<open>\<open>_check_nesting_depth\<close>; the head of the list is the top of the stack, \<open>stack.extend\<close> pushes in order.\<close>

function check_nesting_stack :: "(pyval \<times> nat) list \<Rightarrow> bool" where
  "check_nesting_stack [] = True"
| "check_nesting_stack ((v, depth) # stack) =
     (if max_plan_nesting_depth < depth then False
      else check_nesting_stack (rev (map (\<lambda>x. (x, depth + 1)) (children v)) @ stack))"
  by pat_completeness auto
termination
  by (relation "measure (\<lambda>st. sum_list (map (\<lambda>x. val_size (fst x)) st))")
    (simp_all add: val_size_children rev_map [symmetric] sum_list_rev comp_def)

definition check_nesting_depth :: "pyval \<Rightarrow> bool" where
  "check_nesting_depth v = check_nesting_stack [(v, 1)]"

text \<open>\<open>_reject_non_finite\<close>.\<close>

function check_finite_stack :: "pyval list \<Rightarrow> bool" where
  "check_finite_stack [] = True"
| "check_finite_stack (v # stack) =
     (if (case v of PFloat (Fin _) \<Rightarrow> False | PFloat _ \<Rightarrow> True | _ \<Rightarrow> False) then False
      else check_finite_stack (rev (children v) @ stack))"
  by pat_completeness auto
termination
  by (relation "measure (\<lambda>st. sum_list (map val_size st))")
    (simp_all add: val_size_children rev_map [symmetric] sum_list_rev)

definition check_finite :: "pyval \<Rightarrow> bool" where
  "check_finite v = check_finite_stack [v]"

text \<open>The nesting the first check bounds, and the finiteness the second one decides.\<close>

fun py_depth :: "pyval \<Rightarrow> nat" where
  "py_depth (PDict d) = Suc (foldr max (map (\<lambda>kv. py_depth (snd kv)) d) 0)"
| "py_depth (PList vs) = Suc (foldr max (map py_depth vs) 0)"
| "py_depth _ = 1"

fun all_finite :: "pyval \<Rightarrow> bool" where
  "all_finite (PDict d) = list_all (\<lambda>kv. all_finite (snd kv)) d"
| "all_finite (PList vs) = list_all all_finite vs"
| "all_finite (PFloat x) = (case x of Fin _ \<Rightarrow> True | _ \<Rightarrow> False)"
| "all_finite _ = True"

lemma foldr_max_le: "foldr max xs 0 \<le> n \<longleftrightarrow> (\<forall>x \<in> set xs. x \<le> (n::nat))"
  by (induction xs) auto

lemma py_depth_children: "py_depth v = Suc (foldr max (map py_depth (children v)) 0)"
  by (cases v) (auto simp: comp_def)

lemma all_finite_children:
  "all_finite v \<longleftrightarrow> \<not> (case v of PFloat (Fin _) \<Rightarrow> False | PFloat _ \<Rightarrow> True | _ \<Rightarrow> False) \<and> (\<forall>x \<in> set (children v). all_finite x)"
  by (cases v) (auto simp: list_all_iff split: pyfloat.split)

lemma check_nesting_stack_iff:
  "check_nesting_stack st \<longleftrightarrow> (\<forall>(v, depth) \<in> set st. depth + py_depth v \<le> max_plan_nesting_depth + 1)"
proof (induction st rule: check_nesting_stack.induct)
  case (2 v depth stack)
  have "depth + py_depth v \<le> max_plan_nesting_depth + 1 \<longleftrightarrow>
      depth \<le> max_plan_nesting_depth \<and> (\<forall>x \<in> set (children v). depth + 1 + py_depth x \<le> max_plan_nesting_depth + 1)"
  proof -
    have "depth + py_depth v \<le> max_plan_nesting_depth + 1 \<longleftrightarrow>
        depth \<le> max_plan_nesting_depth \<and> foldr max (map py_depth (children v)) 0 \<le> max_plan_nesting_depth - depth"
      unfolding py_depth_children [of v] by arith
    then show ?thesis unfolding foldr_max_le by (auto simp: le_diff_conv2 add.commute)
  qed
  note eq = this
  show ?case
  proof (cases "max_plan_nesting_depth < depth")
    case True
    then show ?thesis using eq by simp
  next
    case False
    then have "check_nesting_stack ((v, depth) # stack) \<longleftrightarrow>
        (\<forall>x \<in> set (children v). depth + 1 + py_depth x \<le> max_plan_nesting_depth + 1) \<and>
        (\<forall>(v, depth) \<in> set stack. depth + py_depth v \<le> max_plan_nesting_depth + 1)"
      using 2 [OF False] by (simp add: ball_Un)
    then show ?thesis using eq False by simp
  qed
qed simp

lemma check_finite_stack_iff: "check_finite_stack st \<longleftrightarrow> (\<forall>v \<in> set st. all_finite v)"
proof (induction st rule: check_finite_stack.induct)
  case (2 v stack)
  then show ?case using all_finite_children [of v] by auto
qed simp

lemma check_nesting_depth_iff: "check_nesting_depth v \<longleftrightarrow> py_depth v \<le> max_plan_nesting_depth"
  by (simp add: check_nesting_depth_def check_nesting_stack_iff)

lemma check_finite_iff: "check_finite v \<longleftrightarrow> all_finite v"
  by (simp add: check_finite_def check_finite_stack_iff)

section \<open>Writing JSON\<close>

abbreviation quote :: char where "quote \<equiv> CHR 0x22"

definition hex_digit :: "nat \<Rightarrow> char" where
  "hex_digit n = (if n < 10 then char_of (48 + n) else char_of (87 + n))"

definition json_char :: "char \<Rightarrow> string" where
  "json_char c =
     (let n = of_char c :: nat in
      if c = quote then [bslash, quote]
      else if c = bslash then [bslash, bslash]
      else if n = 8 then [bslash, CHR ''b'']
      else if n = 12 then [bslash, CHR ''f'']
      else if n = 10 then [bslash, CHR ''n'']
      else if n = 13 then [bslash, CHR ''r'']
      else if n = 9 then [bslash, CHR ''t'']
      else if n < 32 then bslash # ''u00'' @ [hex_digit (n div 16), hex_digit (n mod 16)]
      else [c])"

definition json_string :: "string \<Rightarrow> string" where
  "json_string s = quote # concat (map json_char s) @ [quote]"

fun dec_nat :: "nat \<Rightarrow> string" where
  "dec_nat n = (if n < 10 then [char_of (48 + n)] else dec_nat (n div 10) @ [char_of (48 + n mod 10)])"

declare dec_nat.simps [simp del]

definition json_int :: "int \<Rightarrow> string" where
  "json_int i = (if i < 0 then CHR ''-'' # dec_nat (nat (- i)) else dec_nat (nat i))"

fun join_str :: "string \<Rightarrow> string list \<Rightarrow> string" where
  "join_str sep [] = []"
| "join_str sep [w] = w"
| "join_str sep (w # v # ws) = w @ sep @ join_str sep (v # ws)"

text \<open>
  \<open>ws lvl\<close> is the line break and indentation of a level (empty without \<open>indent\<close>), \<open>sep\<close> what separates
  two items before it.
\<close>

fun json_text :: "(real \<Rightarrow> string) \<Rightarrow> (nat \<Rightarrow> string) \<Rightarrow> string \<Rightarrow> nat \<Rightarrow> pyval \<Rightarrow> string" where
  "json_text fl ws sep lvl PNone = ''null''"
| "json_text fl ws sep lvl (PBool b) = (if b then ''true'' else ''false'')"
| "json_text fl ws sep lvl (PInt i) = json_int i"
| "json_text fl ws sep lvl (PFloat x) = (case x of Fin r \<Rightarrow> fl r | _ \<Rightarrow> [])"
| "json_text fl ws sep lvl (PStr s) = json_string s"
| "json_text fl ws sep lvl (PList vs) =
     (if vs = [] then ''[]''
      else ''['' @ ws (Suc lvl) @ join_str (sep @ ws (Suc lvl)) (map (json_text fl ws sep (Suc lvl)) vs) @ ws lvl @ '']'')"
| "json_text fl ws sep lvl (PDict d) =
     (if d = [] then ''{}''
      else ''{'' @ ws (Suc lvl) @
        join_str (sep @ ws (Suc lvl)) (map (\<lambda>kv. json_string (fst kv) @ '': '' @ json_text fl ws sep (Suc lvl) (snd kv)) d)
        @ ws lvl @ ''}'')"

text \<open>\<open>sort_keys=True\<close>.\<close>

fun sort_keys :: "pyval \<Rightarrow> pyval" where
  "sort_keys (PDict d) = PDict (sort_key fst (map (\<lambda>kv. (fst kv, sort_keys (snd kv))) d))"
| "sort_keys (PList vs) = PList (map sort_keys vs)"
| "sort_keys v = v"

definition json_compact :: "(real \<Rightarrow> string) \<Rightarrow> pyval \<Rightarrow> string" where
  "json_compact fl v = json_text fl (\<lambda>_. []) '', '' 0 v"

definition json_pretty :: "(real \<Rightarrow> string) \<Rightarrow> pyval \<Rightarrow> string" where
  "json_pretty fl v =
     json_text fl (\<lambda>lvl. CHR 0x0A # replicate (2 * lvl) (CHR '' '')) '','' 0 (sort_keys v)"

section \<open>The nesting of a raw text\<close>

text \<open>\<open>_check_raw_json_depth\<close> with its three local variables.\<close>

fun raw_scan :: "nat \<Rightarrow> bool \<Rightarrow> bool \<Rightarrow> string \<Rightarrow> bool" where
  "raw_scan depth in_string escaped [] = True"
| "raw_scan depth in_string escaped (c # cs) =
     (if in_string then
        if escaped then raw_scan depth True False cs
        else if c = bslash then raw_scan depth True True cs
        else if c = quote then raw_scan depth False escaped cs
        else raw_scan depth True escaped cs
      else if c = quote then raw_scan depth True escaped cs
      else if c \<in> {CHR ''['', CHR ''{''} then
        if max_plan_nesting_depth < depth + 1 then False else raw_scan (depth + 1) False escaped cs
      else if c \<in> {CHR '']'', CHR ''}''} then raw_scan (depth - 1) False escaped cs
      else raw_scan depth False escaped cs)"

definition check_raw_json_depth :: "string \<Rightarrow> bool" where
  "check_raw_json_depth text = raw_scan 0 False False text"

definition plain :: "string \<Rightarrow> bool" where
  "plain s \<longleftrightarrow> set s \<inter> {quote, CHR ''['', CHR ''{'', CHR '']'', CHR ''}''} = {}"

lemma raw_scan_plain: "plain s \<Longrightarrow> raw_scan d False False (s @ rest) = raw_scan d False False rest"
  by (induction s) (auto simp: plain_def)

lemma hex_digit_plain: "n < 16 \<Longrightarrow> hex_digit n \<noteq> quote \<and> hex_digit n \<noteq> bslash"
proof -
  have "list_all (\<lambda>n. hex_digit n \<noteq> quote \<and> hex_digit n \<noteq> bslash) [0..<16]" by code_simp
  then show "n < 16 \<Longrightarrow> ?thesis" by (simp add: list_all_iff)
qed

lemma raw_scan_hex: "n < 16 \<Longrightarrow> raw_scan d True False (hex_digit n # rest) = raw_scan d True False rest"
  using hex_digit_plain [of n] by simp

lemma raw_scan_escape: "raw_scan d True False (bslash # c # rest) = raw_scan d True False rest"
  by simp

lemma raw_scan_json_char: "raw_scan d True False (json_char c @ rest) = raw_scan d True False rest"
proof -
  let ?n = "of_char c :: nat"
  have "raw_scan d True False ((bslash # ''u00'' @ [hex_digit (?n div 16), hex_digit (?n mod 16)]) @ rest) =
      raw_scan d True False rest" if "?n < 32"
  proof -
    have "?n div 16 < 16" "?n mod 16 < 16" using that by (simp_all add: less_mult_imp_div_less)
    then show ?thesis using hex_digit_plain [of "?n div 16"] hex_digit_plain [of "?n mod 16"] by simp
  qed
  moreover have "raw_scan d True False ([c] @ rest) = raw_scan d True False rest" if "c \<noteq> quote" "c \<noteq> bslash"
    using that by simp
  moreover have "raw_scan d True False ([bslash, x] @ rest) = raw_scan d True False rest" for x
    by (simp only: append.simps raw_scan_escape)
  ultimately show ?thesis unfolding json_char_def Let_def by (simp only: split: if_split) blast
qed

lemma raw_scan_json_string: "raw_scan d False False (json_string s @ rest) = raw_scan d False False rest"
proof -
  have "raw_scan d True False (concat (map json_char s) @ quote # rest) = raw_scan d False False rest"
    by (induction s) (simp_all add: raw_scan_json_char)
  then show ?thesis by (simp add: json_string_def)
qed

text \<open>A text that leaves the scanner in the state it found it.\<close>

definition neutral :: "nat \<Rightarrow> string \<Rightarrow> bool" where
  "neutral d w \<longleftrightarrow> (\<forall>rest. raw_scan d False False (w @ rest) = raw_scan d False False rest)"

lemma neutral_append: "neutral d v \<Longrightarrow> neutral d w \<Longrightarrow> neutral d (v @ w)"
  by (simp add: neutral_def)

lemma neutral_plain: "plain w \<Longrightarrow> neutral d w"
  by (simp add: neutral_def raw_scan_plain)

lemma neutral_json_string: "neutral d (json_string s)"
  by (simp add: neutral_def raw_scan_json_string)

lemma neutral_join: "neutral d sep \<Longrightarrow> (\<And>w. w \<in> set ws \<Longrightarrow> neutral d w) \<Longrightarrow> neutral d (join_str sep ws)"
proof (induction sep ws rule: join_str.induct)
  case (3 sep w v ws)
  then show ?case by (auto intro!: neutral_append)
qed (simp_all add: neutral_plain plain_def)

lemma neutral_bracket:
  assumes "neutral (Suc d) w" "Suc d \<le> max_plan_nesting_depth" "op \<in> {CHR ''['', CHR ''{''}" "cl \<in> {CHR '']'', CHR ''}''}"
  shows "neutral d (op # w @ [cl])"
proof -
  have "raw_scan d False False ((op # w @ [cl]) @ rest) = raw_scan (Suc d) False False (w @ cl # rest)" for rest
    using assms(2,3) by auto
  also have "raw_scan (Suc d) False False (w @ cl # rest) = raw_scan d False False rest" for rest
    using assms(1,4) unfolding neutral_def by auto
  finally show ?thesis by (simp add: neutral_def)
qed

lemma plain_dec_nat: "plain (dec_nat n)"
proof (induction n rule: dec_nat.induct)
  case (1 n)
  have "list_all (\<lambda>k. plain [char_of (48 + k)]) [0..<10]" by code_simp
  then have d: "plain [char_of (48 + k)]" if "k < 10" for k :: nat using that by (simp add: list_all_iff)
  show ?case
    using 1 d [of n] d [of "n mod 10"] by (subst dec_nat.simps) (auto simp: plain_def)
qed

lemma neutral_json_text:
  assumes "\<And>r. plain (fl r)" "\<And>l. plain (ws l)" "plain sep" "d + py_depth v \<le> max_plan_nesting_depth"
  shows "neutral d (json_text fl ws sep lvl v)"
  using assms(4)
proof (induction v arbitrary: d lvl)
  case (PInt i)
  show ?case using plain_dec_nat by (auto intro!: neutral_plain simp: json_int_def plain_def)
next
  case (PList vs)
  show ?case
  proof (cases "vs = []")
    case False
    have "neutral (Suc d) (join_str (sep @ ws (Suc lvl)) (map (json_text fl ws sep (Suc lvl)) vs))"
    proof (intro neutral_join)
      fix w assume "w \<in> set (map (json_text fl ws sep (Suc lvl)) vs)"
      then obtain x where w: "w = json_text fl ws sep (Suc lvl) x" "x \<in> set vs" by auto
      have "py_depth x \<le> foldr max (map py_depth vs) 0" using foldr_max_le [of "map py_depth vs"] w(2) by auto
      then show "neutral (Suc d) w" unfolding w(1) using PList.prems by (intro PList.IH [OF w(2)]) simp
    qed (use assms in \<open>auto intro: neutral_append neutral_plain\<close>)
    then have "neutral (Suc d) (ws (Suc lvl) @ join_str (sep @ ws (Suc lvl)) (map (json_text fl ws sep (Suc lvl)) vs) @ ws lvl)"
      using assms by (intro neutral_append) (auto intro: neutral_plain)
    from neutral_bracket [OF this, of "CHR ''[''" "CHR '']''"] show ?thesis using PList.prems False by simp
  qed (use PList.prems in \<open>simp add: neutral_def\<close>)
next
  case (PDict kvs)
  show ?case
  proof (cases "kvs = []")
    case False
    let ?f = "\<lambda>kv. json_string (fst kv) @ '': '' @ json_text fl ws sep (Suc lvl) (snd kv)"
    have "neutral (Suc d) (join_str (sep @ ws (Suc lvl)) (map ?f kvs))"
    proof (intro neutral_join neutral_append)
      fix w assume "w \<in> set (map ?f kvs)"
      then obtain k x where w: "w = ?f (k, x)" "(k, x) \<in> set kvs" by auto
      have "py_depth x \<le> foldr max (map (\<lambda>kv. py_depth (snd kv)) kvs) 0"
        using foldr_max_le [of "map (\<lambda>kv. py_depth (snd kv)) kvs"] w(2) by force
      then have "Suc d + py_depth x \<le> max_plan_nesting_depth" using PDict.prems by simp
      then have "neutral (Suc d) (json_text fl ws sep (Suc lvl) x)"
        using PDict.IH [OF w(2)] by (simp add: snds.intros)
      then show "neutral (Suc d) w" unfolding w(1) fst_conv snd_conv
        by (intro neutral_append neutral_json_string) (auto intro: neutral_plain simp: plain_def)
    qed (use assms in \<open>auto intro: neutral_plain neutral_append\<close>)
    then have "neutral (Suc d) (ws (Suc lvl) @ join_str (sep @ ws (Suc lvl)) (map ?f kvs) @ ws lvl)"
      using assms by (intro neutral_append) (auto intro: neutral_plain)
    from neutral_bracket [OF this, of "CHR ''{''" "CHR ''}''"] show ?thesis using PDict.prems False by simp
  qed (use PDict.prems in \<open>simp add: neutral_def\<close>)
qed (use assms in \<open>auto intro!: neutral_plain neutral_json_string simp: plain_def split: pyfloat.split\<close>)

lemma foldr_max_mem: "x \<in> set xs \<Longrightarrow> x \<le> foldr max xs (0::nat)"
  by (induction xs) auto

lemma foldr_max_mono: "set xs \<subseteq> set ys \<Longrightarrow> foldr max xs 0 \<le> foldr max ys (0::nat)"
  unfolding foldr_max_le using foldr_max_mem by blast

lemma py_depth_sort_keys [simp]: "py_depth (sort_keys v) = py_depth v"
proof (induction v rule: sort_keys.induct)
  case (1 d)
  let ?l = "map (\<lambda>kv. py_depth (snd kv)) (sort_key fst (map (\<lambda>kv. (fst kv, sort_keys (snd kv))) d))"
  let ?r = "map (\<lambda>kv. py_depth (snd kv)) d"
  have "set ?l = (\<lambda>kv. py_depth (sort_keys (snd kv))) ` set d" by (simp add: image_image)
  also have "\<dots> = set ?r" using 1 by (auto simp: image_iff intro!: bexI)
  finally have "set ?l = set ?r" .
  then have "foldr max ?l 0 = foldr max ?r 0" by (intro antisym foldr_max_mono) simp_all
  then show ?case by simp
next
  case (2 vs)
  then have "map (py_depth \<circ> sort_keys) vs = map py_depth vs" by simp
  then show ?case by (simp only: sort_keys.simps py_depth.simps map_map)
qed simp_all

text \<open>Whatever the layout, the text of a value that passes the depth check passes the raw check.\<close>

lemma raw_check_json_text:
  assumes "\<And>r. plain (fl r)" "\<And>l. plain (ws l)" "plain sep" "check_nesting_depth v" "plain tail"
  shows "check_raw_json_depth (json_text fl ws sep 0 v @ tail)"
proof -
  have "neutral 0 (json_text fl ws sep 0 v @ tail)"
    using assms by (intro neutral_append neutral_json_text neutral_plain) (simp_all add: check_nesting_depth_iff)
  then have "raw_scan 0 False False ((json_text fl ws sep 0 v @ tail) @ []) = raw_scan 0 False False []"
    unfolding neutral_def by blast
  then show ?thesis by (simp add: check_raw_json_depth_def)
qed

end
