(* ===== verification/Plan_Cycles.thy ===== *)
theory Plan_Cycles
  imports Graph_Cycles
begin

text \<open>
  The depth-first search of \<open>detect_dependency_cycles\<close> (\<open>repo_plan/schema_validation.py\<close>) over an
  adjacency dict, with its explicit stack of iterators, and its correctness: it reports a cycle of
  the graph if there is one and accepts otherwise.  The loop ends because every step pushes an
  unvisited node, drops a neighbour or pops a node.
\<close>

type_synonym adjacency = "(string \<times> string list) list"

definition succs :: "adjacency \<Rightarrow> string \<Rightarrow> string list" where
  "succs adj n = (case map_of adj n of None \<Rightarrow> [] | Some ns \<Rightarrow> ns)"

text \<open>
  The locals of the function.  \<open>df_state\<close> marks a node 1 (active) or 2 (complete); the stack is
  top first, each entry a node and what its iterator has left.
\<close>

datatype dfs_mark = Active | Complete

record dfs =
  df_state :: "string \<rightharpoonup> dfs_mark"
  df_path :: "string list"
  df_positions :: "string \<rightharpoonup> nat"
  df_stack :: "(string \<times> string list) list"

definition dfs_pop :: "dfs \<Rightarrow> dfs" where
  "dfs_pop s = (case df_stack s of
       [] \<Rightarrow> s
     | (node, _) # rest \<Rightarrow>
         s\<lparr>df_stack := rest, df_path := butlast (df_path s), df_positions := (df_positions s)(node := None),
           df_state := (df_state s)(node \<mapsto> Complete)\<rparr>)"

definition dfs_push :: "adjacency \<Rightarrow> string \<Rightarrow> dfs \<Rightarrow> dfs" where
  "dfs_push adj nb s =
     s\<lparr>df_state := (df_state s)(nb \<mapsto> Active), df_positions := (df_positions s)(nb \<mapsto> length (df_path s)),
       df_path := df_path s @ [nb], df_stack := (nb, succs adj nb) # df_stack s\<rparr>"

definition dfs_cycle :: "string \<Rightarrow> dfs \<Rightarrow> string list" where
  "dfs_cycle nb s = drop (the (df_positions s nb)) (df_path s) @ [nb]"

text \<open>What bounds the loop.\<close>

definition unvisited :: "adjacency \<Rightarrow> (string \<rightharpoonup> dfs_mark) \<Rightarrow> nat" where
  "unvisited adj st = sum_list (map (\<lambda>(n, ns). if st n = None then 1 + 3 * length ns else 0) adj)"

definition dfs_measure :: "adjacency \<Rightarrow> dfs \<Rightarrow> nat" where
  "dfs_measure adj s = unvisited adj (df_state s) + sum_list (map (\<lambda>(n, ns). 1 + 3 * length ns) (df_stack s))"

lemma unvisited_mono: "unvisited adj (st(n \<mapsto> k)) \<le> unvisited adj st"
  by (induction adj) (auto simp: unvisited_def)

lemma unvisited_visit: "st n = None \<Longrightarrow> unvisited adj (st(n \<mapsto> k)) + 3 * length (succs adj n) \<le> unvisited adj st"
proof (induction adj)
  case (Cons a adj)
  obtain m ms where a: "a = (m, ms)" by (cases a)
  show ?case
  proof (cases "m = n")
    case True
    then show ?thesis using Cons.prems unvisited_mono [of adj st n k]
      by (simp add: a unvisited_def succs_def)
  next
    case False
    then have "succs (a # adj) n = succs adj n" by (simp add: a succs_def)
    then show ?thesis using False Cons by (simp add: a unvisited_def)
  qed
qed (simp add: unvisited_def succs_def)

text \<open>The \<open>while stack\<close> loop; \<open>Inl\<close> carries the cycle of the error message.\<close>

function dfs_loop :: "adjacency \<Rightarrow> dfs \<Rightarrow> string list + dfs" where
  "dfs_loop adj s =
     (case df_stack s of
        [] \<Rightarrow> Inr s
      | (node, []) # rest \<Rightarrow> dfs_loop adj (dfs_pop s)
      | (node, nb # nbs) # rest \<Rightarrow>
          (let s' = s\<lparr>df_stack := (node, nbs) # rest\<rparr> in
           if df_state s nb = Some Active then Inl (dfs_cycle nb s')
           else if df_state s nb \<noteq> Some Complete then dfs_loop adj (dfs_push adj nb s')
           else dfs_loop adj s'))"
  by pat_completeness auto

termination
proof (relation "measure (\<lambda>(adj, s). dfs_measure adj s)", goal_cases)
  case (2 adj s x xs node ns)
  then have "df_stack s = (node, []) # xs" by auto
  then show ?case
    using unvisited_mono [of adj "df_state s" node Complete] by (simp add: dfs_measure_def dfs_pop_def)
next
  case (3 adj s x xs node ns nb nbs s')
  then have st: "df_stack s = (node, nb # nbs) # xs" by auto
  from 3 have "df_state s nb = None" by (cases "df_state s nb") (auto intro: dfs_mark.exhaust)
  then show ?case
    using st 3 unvisited_visit [of "df_state s" nb adj Active] by (simp add: dfs_measure_def dfs_push_def)
next
  case (4 adj s x xs node ns nb nbs s')
  then have "df_stack s = (node, nb # nbs) # xs" by auto
  then show ?case using 4 by (simp add: dfs_measure_def)
qed simp

declare dfs_loop.simps [simp del]

text \<open>
  The outer loop over the tasks: a start node that is not complete gets a fresh path, \<open>positions\<close> and
  stack; \<open>state\<close> is kept.
\<close>

definition dfs_start :: "adjacency \<Rightarrow> string \<Rightarrow> (string \<rightharpoonup> dfs_mark) \<Rightarrow> dfs" where
  "dfs_start adj start st =
     \<lparr>df_state = st(start \<mapsto> Active), df_path = [start], df_positions = [start \<mapsto> 0], df_stack = [(start, succs adj start)]\<rparr>"

fun dfs_all :: "adjacency \<Rightarrow> string list \<Rightarrow> (string \<rightharpoonup> dfs_mark) \<Rightarrow> string list + (string \<rightharpoonup> dfs_mark)" where
  "dfs_all adj [] st = Inr st"
| "dfs_all adj (start # starts) st =
     (if st start = Some Complete then dfs_all adj starts st
      else bindr (dfs_loop adj (dfs_start adj start st)) (\<lambda>s. dfs_all adj starts (df_state s)))"

section \<open>The search is right\<close>

text \<open>The nodes on the stack: what each has left covers its successors that are not yet settled.\<close>

fun stack_ok :: "adjacency \<Rightarrow> string set \<Rightarrow> string option \<Rightarrow> (string \<times> string list) list \<Rightarrow> bool" where
  "stack_ok adj F up [] \<longleftrightarrow> True"
| "stack_ok adj F up ((n, ns) # rest) \<longleftrightarrow>
     set (succs adj n) \<subseteq> F \<union> set_option up \<union> set ns \<and> set_option up \<union> set ns \<subseteq> set (succs adj n) \<and>
     stack_ok adj F (Some n) rest"

definition complete_of :: "(string \<rightharpoonup> dfs_mark) \<Rightarrow> string set" where
  "complete_of st = {n. st n = Some Complete}"

definition active_of :: "(string \<rightharpoonup> dfs_mark) \<Rightarrow> string set" where
  "active_of st = {n. st n = Some Active}"

definition dfs_inv :: "adjacency \<Rightarrow> dfs \<Rightarrow> bool" where
  "dfs_inv adj s \<longleftrightarrow>
     settled (succs adj) (complete_of (df_state s)) \<and> df_path s = rev (map fst (df_stack s)) \<and>
     distinct (df_path s) \<and> active_of (df_state s) = set (df_path s) \<and>
     (\<forall>i < length (df_path s). df_positions s (df_path s ! i) = Some i) \<and>
     stack_ok adj (complete_of (df_state s)) None (df_stack s)"

lemma stack_ok_mono: "stack_ok adj F up st \<Longrightarrow> F \<subseteq> G \<Longrightarrow> stack_ok adj G up st"
  by (induction adj F up st rule: stack_ok.induct) auto

lemma stack_ok_chain: "stack_ok adj F up ((n, ns) # rest) \<Longrightarrow> chain (succs adj) (rev (map fst rest) @ [n])"
proof (induction rest arbitrary: up n ns)
  case (Cons x rest)
  obtain m ms where x: "x = (m, ms)" by (cases x)
  have "chain (succs adj) (rev (map fst rest) @ [m])" "n \<in> set (succs adj m)"
    using Cons.prems Cons.IH [of "Some n" m ms] by (auto simp: x)
  then show ?case using chain_append [of "succs adj" "rev (map fst rest)" m n] by (simp add: x)
qed simp

lemma dfs_invD:
  assumes "dfs_inv adj s"
  shows "settled (succs adj) (complete_of (df_state s))" "df_path s = rev (map fst (df_stack s))" "distinct (df_path s)"
    "active_of (df_state s) = set (df_path s)" "\<And>i. i < length (df_path s) \<Longrightarrow> df_positions s (df_path s ! i) = Some i"
    "stack_ok adj (complete_of (df_state s)) None (df_stack s)"
  using assms unfolding dfs_inv_def by blast+

lemma dfs_inv_active: "dfs_inv adj s \<Longrightarrow> df_state s n = Some Active \<longleftrightarrow> n \<in> set (df_path s)"
  unfolding dfs_inv_def active_of_def by blast

lemma dfs_inv_pop:
  assumes "dfs_inv adj s" "df_stack s = (node, []) # rest"
  shows "dfs_inv adj (dfs_pop s)"
proof -
  let ?F = "complete_of (df_state s)"
  have path: "df_path s = rev (map fst rest) @ [node]" using assms by (simp add: dfs_inv_def)
  have dist: "distinct (rev (map fst rest) @ [node])" using assms(1) unfolding dfs_inv_def path by blast
  have act: "active_of (df_state s) = insert node (set (map fst rest))"
    using assms(1) unfolding dfs_inv_def path by simp
  have node: "set (succs adj node) \<subseteq> ?F" "node \<notin> ?F"
    using assms dfs_inv_active [OF assms(1), of node] by (simp_all add: dfs_inv_def path complete_of_def)
  have F: "complete_of ((df_state s)(node \<mapsto> Complete)) = insert node ?F" by (auto simp: complete_of_def)
  have A: "active_of ((df_state s)(node \<mapsto> Complete)) = set (map fst rest)"
  proof -
    have "active_of ((df_state s)(node \<mapsto> Complete)) = active_of (df_state s) - {node}" by (auto simp: active_of_def)
    then show ?thesis using act dist by simp
  qed
  have "stack_ok adj (insert node ?F) None rest"
  proof (cases rest)
    case (Cons x rest')
    obtain m ms where x: "x = (m, ms)" by (cases x)
    have "stack_ok adj ?F (Some node) rest" using assms by (simp add: dfs_inv_def)
    then show ?thesis using stack_ok_mono [of adj ?F "Some m" rest' "insert node ?F"] unfolding Cons x by auto
  qed simp
  moreover have "settled (succs adj) (insert node ?F)"
    using dfs_invD(1) [OF assms(1)] node by (intro settled_insert) auto
  moreover have "\<forall>i < length (rev (map fst rest)). ((df_positions s)(node := None)) (rev (map fst rest) ! i) = Some i"
  proof (intro allI impI)
    fix i assume i: "i < length (rev (map fst rest))"
    have "df_positions s ((rev (map fst rest) @ [node]) ! i) = Some i"
      using dfs_invD(5) [OF assms(1), of i] i unfolding path by simp
    moreover have "rev (map fst rest) ! i \<noteq> node"
      using dist nth_mem [OF i] unfolding distinct_append by auto
    ultimately show "((df_positions s)(node := None)) (rev (map fst rest) ! i) = Some i"
      using i by (simp add: nth_append)
  qed
  ultimately show ?thesis
    using assms(2) dist by (simp add: dfs_inv_def dfs_pop_def path F A)
qed

lemma dfs_inv_skip:
  assumes "dfs_inv adj s" "df_stack s = (node, nb # nbs) # rest" "df_state s nb = Some Complete"
  shows "dfs_inv adj (s\<lparr>df_stack := (node, nbs) # rest\<rparr>)"
proof -
  have "nb \<in> complete_of (df_state s)" using assms(3) by (simp add: complete_of_def)
  then have "stack_ok adj (complete_of (df_state s)) None ((node, nbs) # rest)"
    using assms(1,2) by (auto simp: dfs_inv_def)
  then show ?thesis using dfs_invD(1-5) [OF assms(1)] assms(2) by (simp add: dfs_inv_def)
qed

lemma dfs_inv_push:
  assumes "dfs_inv adj s" "df_stack s = (node, nb # nbs) # rest" "df_state s nb = None"
  shows "dfs_inv adj (dfs_push adj nb (s\<lparr>df_stack := (node, nbs) # rest\<rparr>))"
proof -
  have F: "complete_of ((df_state s)(nb \<mapsto> Active)) = complete_of (df_state s)"
    using assms(3) by (auto simp: complete_of_def)
  have A: "active_of ((df_state s)(nb \<mapsto> Active)) = insert nb (active_of (df_state s))"
    by (auto simp: active_of_def)
  have fresh: "nb \<notin> set (df_path s)" using assms(3) dfs_inv_active [OF assms(1), of nb] by simp
  have "\<forall>i < length (df_path s @ [nb]). ((df_positions s)(nb \<mapsto> length (df_path s))) ((df_path s @ [nb]) ! i) = Some i"
  proof (intro allI impI)
    fix i assume "i < length (df_path s @ [nb])"
    then consider "i < length (df_path s)" | "i = length (df_path s)" by fastforce
    then show "((df_positions s)(nb \<mapsto> length (df_path s))) ((df_path s @ [nb]) ! i) = Some i"
    proof cases
      case 1
      then have "df_path s ! i \<noteq> nb" using fresh nth_mem by fastforce
      then show ?thesis using 1 dfs_invD(5) [OF assms(1), of i] by (simp add: nth_append)
    qed simp
  qed
  moreover have "stack_ok adj (complete_of (df_state s)) None ((nb, succs adj nb) # (node, nbs) # rest)"
    using assms(1,2) by (auto simp: dfs_inv_def)
  ultimately show ?thesis using dfs_invD(1-4) [OF assms(1)] assms(2) fresh
    by (simp add: dfs_inv_def dfs_push_def F A) blast
qed

lemma dfs_cycle_is_cycle:
  assumes "dfs_inv adj s" "df_stack s = (node, nb # nbs) # rest" "df_state s nb = Some Active"
  shows "is_cycle (succs adj) (dfs_cycle nb (s\<lparr>df_stack := (node, nbs) # rest\<rparr>))"
proof -
  have path: "df_path s = rev (map fst rest) @ [node]" using assms by (simp add: dfs_inv_def)
  have "nb \<in> set (df_path s)" using assms(3) dfs_inv_active [OF assms(1), of nb] by simp
  then obtain i where i: "i < length (df_path s)" "df_path s ! i = nb" by (auto simp: in_set_conv_nth)
  then have pos: "df_positions s nb = Some i" using assms(1) by (auto simp: dfs_inv_def)
  have st: "stack_ok adj (complete_of (df_state s)) None ((node, nb # nbs) # rest)"
    using assms(1,2) by (simp add: dfs_inv_def)
  have "is_cycle (succs adj) (drop i (rev (map fst rest) @ [node]) @ [nb])"
    using stack_ok_chain [OF st] st i by (intro back_edge_cycle) (auto simp: path)
  then show ?thesis by (simp add: dfs_cycle_def pos path)
qed

lemma dfs_loop_right:
  "dfs_inv adj s \<Longrightarrow>
     (case dfs_loop adj s of
        Inl cyc \<Rightarrow> is_cycle (succs adj) cyc
      | Inr s' \<Rightarrow> dfs_inv adj s' \<and> df_stack s' = [] \<and>
          complete_of (df_state s) \<union> set (df_path s) \<subseteq> complete_of (df_state s'))"
proof (induction adj s rule: dfs_loop.induct)
  case (1 adj s)
  note IH = 1
  show ?case
  proof (cases "df_stack s")
    case Nil
    then show ?thesis using IH(4) by (simp add: dfs_loop.simps dfs_inv_def)
  next
    case (Cons x rest)
    obtain node ns where x: "x = (node, ns)" by (cases x)
    show ?thesis
    proof (cases ns)
      case Nil
      note st = Cons [unfolded x Nil]
      have path: "df_path s = rev (map fst rest) @ [node]" using IH(4) st by (simp add: dfs_inv_def)
      have cov: "complete_of (df_state s) \<union> set (df_path s) \<subseteq>
          complete_of (df_state (dfs_pop s)) \<union> set (df_path (dfs_pop s))"
        by (auto simp: dfs_pop_def st path complete_of_def)
      show ?thesis
        using IH(1) [OF Cons x [symmetric] Nil dfs_inv_pop [OF IH(4) st]] cov
        by (subst dfs_loop.simps) (auto simp: st split: sum.splits)
    next
      case (Cons nb nbs)
      note st = \<open>df_stack s = x # rest\<close> [unfolded x Cons]
      define s' where "s' = s\<lparr>df_stack := (node, nbs) # rest\<rparr>"
      consider "df_state s nb = Some Active" | "df_state s nb = Some Complete" | "df_state s nb = None"
        by (cases "df_state s nb") (auto intro: dfs_mark.exhaust)
      then show ?thesis
      proof cases
        case 1
        then show ?thesis using dfs_cycle_is_cycle [OF IH(4) st 1]
          by (subst dfs_loop.simps) (simp add: st)
      next
        case 2
        have "dfs_loop adj s = dfs_loop adj s'" by (subst dfs_loop.simps) (simp add: st 2 s'_def)
        then show ?thesis
          using IH(3) [OF \<open>df_stack s = x # rest\<close> x [symmetric] Cons s'_def] 2 dfs_inv_skip [OF IH(4) st 2]
          by (auto simp: s'_def split: sum.splits)
      next
        case 3
        have "dfs_loop adj s = dfs_loop adj (dfs_push adj nb s')" by (subst dfs_loop.simps) (simp add: st 3 s'_def)
        moreover have "complete_of (df_state s) \<union> set (df_path s) \<subseteq>
            complete_of (df_state (dfs_push adj nb s')) \<union> set (df_path (dfs_push adj nb s'))"
          using 3 by (auto simp: dfs_push_def s'_def complete_of_def)
        ultimately show ?thesis
          using IH(2) [OF \<open>df_stack s = x # rest\<close> x [symmetric] Cons s'_def] 3 dfs_inv_push [OF IH(4) st 3]
          by (auto simp: s'_def split: sum.splits)
      qed
    qed
  qed
qed

lemma dfs_inv_start:
  assumes "settled (succs adj) (complete_of st)" "active_of st = {}" "st start \<noteq> Some Complete"
  shows "dfs_inv adj (dfs_start adj start st)"
proof -
  have "complete_of (st(start \<mapsto> Active)) = complete_of st" using assms(3) by (auto simp: complete_of_def)
  moreover have "active_of (st(start \<mapsto> Active)) = insert start (active_of st)" by (auto simp: active_of_def)
  ultimately show ?thesis using assms(1,2) by (simp add: dfs_inv_def dfs_start_def)
qed

lemma dfs_all_right:
  "settled (succs adj) (complete_of st) \<Longrightarrow> active_of st = {} \<Longrightarrow>
     (case dfs_all adj starts st of
        Inl cyc \<Rightarrow> is_cycle (succs adj) cyc
      | Inr st' \<Rightarrow> settled (succs adj) (complete_of st') \<and> complete_of st \<union> set starts \<subseteq> complete_of st')"
proof (induction starts arbitrary: st)
  case (Cons start starts)
  show ?case
  proof (cases "st start = Some Complete")
    case True
    then have "start \<in> complete_of st" by (simp add: complete_of_def)
    then show ?thesis using Cons.IH [OF Cons.prems] True by (auto split: sum.splits)
  next
    case False
    note right = dfs_loop_right [OF dfs_inv_start [OF Cons.prems False]]
    show ?thesis
    proof (cases "dfs_loop adj (dfs_start adj start st)")
      case (Inl cyc)
      then show ?thesis using right False by simp
    next
      case (Inr s)
      then have s: "dfs_inv adj s" "df_stack s = []"
        "complete_of (df_state (dfs_start adj start st)) \<union> {start} \<subseteq> complete_of (df_state s)"
        using right by (simp_all add: dfs_start_def)
      have "complete_of (df_state (dfs_start adj start st)) = complete_of st"
        using False by (auto simp: dfs_start_def complete_of_def)
      then have sub: "complete_of st \<union> {start} \<subseteq> complete_of (df_state s)" using s(3) by simp
      have "active_of (df_state s) = {}" using dfs_invD(2,4) [OF s(1)] s(2) by simp
      then have "case dfs_all adj starts (df_state s) of Inl cyc \<Rightarrow> is_cycle (succs adj) cyc
          | Inr st' \<Rightarrow> settled (succs adj) (complete_of st') \<and> complete_of (df_state s) \<union> set starts \<subseteq> complete_of st'"
        by (rule Cons.IH [OF dfs_invD(1) [OF s(1)]])
      then show ?thesis using False sub by (auto simp: Inr split: sum.splits)
    qed
  qed
qed simp

lemma succs_key: "v \<in> set (succs adj u) \<Longrightarrow> u \<in> fst ` set adj"
  by (rule ccontr) (simp add: succs_def map_of_eq_None_iff [THEN iffD2])

lemma dfs_all_decides:
  "(\<exists>cyc. dfs_all adj (map fst adj) (\<lambda>_. None) = Inl cyc \<and> is_cycle (succs adj) cyc) \<or>
   (\<exists>st. dfs_all adj (map fst adj) (\<lambda>_. None) = Inr st \<and> acyclic (edge_rel (succs adj)))"
proof -
  have right: "case dfs_all adj (map fst adj) (\<lambda>_. None) of Inl cyc \<Rightarrow> is_cycle (succs adj) cyc
    | Inr st \<Rightarrow> settled (succs adj) (complete_of st) \<and> complete_of (\<lambda>_. None) \<union> set (map fst adj) \<subseteq> complete_of st"
    by (rule dfs_all_right) (simp_all add: complete_of_def active_of_def)
  show ?thesis
  proof (cases "dfs_all adj (map fst adj) (\<lambda>_. None)")
    case (Inr st)
    then have st: "settled (succs adj) (complete_of st)" "fst ` set adj \<subseteq> complete_of st" using right by auto
    have "(u, u) \<notin> (edge_rel (succs adj))\<^sup>+" for u
    proof
      assume c: "(u, u) \<in> (edge_rel (succs adj))\<^sup>+"
      then obtain v where "(u, v) \<in> edge_rel (succs adj)" by (auto dest: tranclD)
      then have "u \<in> complete_of st" using st(2) succs_key by fastforce
      then show False using settled_acyclic [OF st(1)] c by blast
    qed
    then show ?thesis using Inr by (auto simp: acyclic_def)
  qed (use right in auto)
qed

end
