(* ===== verification/Plan_Validation.thy ===== *)
theory Plan_Validation
  imports Json_Text Plan_Cycles
begin

text \<open>
  Validation of repository plan files, \<open>repo_plan/schema_validation.py\<close>: path rules, identifier
  patterns, the dependency graph and the order in which \<open>validate_plan_dict\<close> checks them.
  The JSON Schema validator is a package: \<open>schema_error\<close> gives its first error.  \<open>escapes\<close> is the
  file system's answer to \<open>(root / path).resolve().relative_to(root)\<close>, constantly false when no root
  is given.  Error texts are shortened to their fixed part.
\<close>

datatype plan_error =
    Invalid_Plan string
  | Cyclic_Dependency "string list"
  | Attribute_Error
  | Type_Error
  | Value_Error string
  | Key_Error string

section \<open>Python operations on parsed JSON\<close>

definition get_attr :: "pyval \<Rightarrow> string \<Rightarrow> pyval \<Rightarrow> plan_error + pyval" where
  "get_attr v k dflt = (case v of PDict d \<Rightarrow> Inr (get_default d k dflt) | _ \<Rightarrow> Inl Attribute_Error)"

definition py_iter :: "pyval \<Rightarrow> plan_error + pyval list" where
  "py_iter v = (case v of PList vs \<Rightarrow> Inr vs | PDict d \<Rightarrow> Inr (map (PStr \<circ> fst) d)
     | PStr s \<Rightarrow> Inr (map (\<lambda>c. PStr [c]) s) | _ \<Rightarrow> Inl Type_Error)"

fun for_each :: "('a \<Rightarrow> 'e + unit) \<Rightarrow> 'a list \<Rightarrow> 'e + unit" where
  "for_each f [] = Inr ()"
| "for_each f (x # xs) = bindr (f x) (\<lambda>_. for_each f xs)"

lemma for_each_Inr [simp]: "for_each f xs = Inr u \<longleftrightarrow> (\<forall>x \<in> set xs. f x = Inr ())"
  by (induction xs) auto

section \<open>Patterns\<close>

abbreviation newline :: char where "newline \<equiv> CHR 0x0A"

definition is_alnum :: "char \<Rightarrow> bool" where
  "is_alnum c = (let n = of_char c :: nat in
     (48 \<le> n \<and> n \<le> 57) \<or> (65 \<le> n \<and> n \<le> 90) \<or> (97 \<le> n \<and> n \<le> 122))"

text \<open>\<open>re.match\<close> with a pattern that ends in \<open>$\<close>: it also matches before a final newline.\<close>

definition dollar :: "(string \<Rightarrow> bool) \<Rightarrow> string \<Rightarrow> bool" where
  "dollar body s \<longleftrightarrow> body s \<or> (s \<noteq> [] \<and> last s = newline \<and> body (butlast s))"

definition id_body :: "string \<Rightarrow> string \<Rightarrow> bool" where
  "id_body pre s \<longleftrightarrow> prefix pre s \<and>
     (case drop (length pre) s of
        [] \<Rightarrow> False
      | c # cs \<Rightarrow> is_alnum c \<and> list_all (\<lambda>x. is_alnum x \<or> x = CHR ''_'' \<or> x = CHR ''-'') cs \<and> length cs \<le> 79)"

definition plan_id_regex :: "string \<Rightarrow> bool" where "plan_id_regex = dollar (id_body ''plan_'')"
definition task_id_regex :: "string \<Rightarrow> bool" where "task_id_regex = dollar (id_body ''task_'')"
definition change_id_regex :: "string \<Rightarrow> bool" where "change_id_regex = dollar (id_body ''change_'')"
definition delivery_id_regex :: "string \<Rightarrow> bool" where "delivery_id_regex = dollar (id_body ''delivery_'')"

definition target_ref_regex :: "string \<Rightarrow> bool" where
  "target_ref_regex = dollar (\<lambda>s. prefix ''refs/heads/'' s \<and>
     (let r = drop 11 s in 1 \<le> length r \<and> length r \<le> 245 \<and> list_all (\<lambda>c. \<not> is_space c \<and> c \<noteq> nul) r))"

definition match_or_raise :: "(string \<Rightarrow> bool) \<Rightarrow> string \<Rightarrow> pyval \<Rightarrow> plan_error + unit" where
  "match_or_raise regex msg v = (case v of PStr s \<Rightarrow> require (regex s) (Invalid_Plan msg) | _ \<Rightarrow> Inl Type_Error)"

section \<open>Paths\<close>

definition is_letter :: "char \<Rightarrow> bool" where
  "is_letter c = (let n = of_char c :: nat in (65 \<le> n \<and> n \<le> 90) \<or> (97 \<le> n \<and> n \<le> 122))"

definition drive_prefix :: "string \<Rightarrow> bool" where
  "drive_prefix s = (case s of c # d # _ \<Rightarrow> is_letter c \<and> d = CHR '':'' | _ \<Rightarrow> False)"

definition validate_repo_path :: "(string \<Rightarrow> bool) \<Rightarrow> pyval \<Rightarrow> plan_error + unit" where
  "validate_repo_path escapes v =
     (case v of
        PStr s \<Rightarrow>
          bindr (require (s \<noteq> [] \<and> int (length s) \<le> 1024) (Invalid_Plan ''Path length must be between 1 and 1024'')) (\<lambda>_.
          bindr (require (bslash \<notin> set s) (Invalid_Plan ''Path must use forward slashes only'')) (\<lambda>_.
          bindr (require (\<not> prefix [slash] s) (Invalid_Plan ''Path must be relative'')) (\<lambda>_.
          bindr (require (\<not> drive_prefix s) (Invalid_Plan ''Path cannot include Windows drive letter'')) (\<lambda>_.
          bindr (for_each (\<lambda>seg. require (seg \<notin> {''.'', ''..''}) (Invalid_Plan ''Path cannot contain . or .. segments''))
                   (split_on slash s)) (\<lambda>_.
          bindr (require (list_all (\<lambda>c. 32 \<le> (of_char c :: nat)) s) (Invalid_Plan ''Path cannot contain control characters'')) (\<lambda>_.
          require (\<not> escapes s) (Invalid_Plan ''Path escapes repository root'')))))))
      | _ \<Rightarrow> Inl (Invalid_Plan ''Path must be a string''))"

section \<open>Dependencies\<close>

fun same_plan_deps :: "string list \<Rightarrow> pyval \<Rightarrow> pyval list \<Rightarrow> plan_error + string list" where
  "same_plan_deps tids plan_id [] = Inr []"
| "same_plan_deps tids plan_id (dep # deps) =
     (case dep of
        PDict d \<Rightarrow>
          if dict_get d ''plan_id'' = plan_id then
            (case dict_get d ''task_id'' of
               PStr t \<Rightarrow> if t \<in> set tids then bindr (same_plan_deps tids plan_id deps) (\<lambda>r. Inr (t # r))
                         else same_plan_deps tids plan_id deps
             | PList _ \<Rightarrow> Inl Type_Error
             | PDict _ \<Rightarrow> Inl Type_Error
             | _ \<Rightarrow> same_plan_deps tids plan_id deps)
          else same_plan_deps tids plan_id deps
      | _ \<Rightarrow> same_plan_deps tids plan_id deps)"

definition task_deps :: "pyval \<Rightarrow> plan_error + pyval list" where
  "task_deps td = (case td of PDict d \<Rightarrow> py_iter (get_default d ''depends_on'' (PList [])) | _ \<Rightarrow> Inr [])"

fun build_adj :: "string list \<Rightarrow> pyval \<Rightarrow> (string \<times> pyval) list \<Rightarrow> plan_error + adjacency" where
  "build_adj tids plan_id [] = Inr []"
| "build_adj tids plan_id ((tid, td) # ts) =
     bindr (task_deps td) (\<lambda>deps. bindr (same_plan_deps tids plan_id deps) (\<lambda>ns.
     bindr (build_adj tids plan_id ts) (\<lambda>r. Inr ((tid, ns) # r))))"

definition detect_dependency_cycles :: "(string \<times> pyval) list \<Rightarrow> pyval \<Rightarrow> plan_error + unit" where
  "detect_dependency_cycles tasks plan_id =
     bindr (build_adj (map fst tasks) plan_id tasks) (\<lambda>adj.
     (case dfs_all adj (map fst tasks) (\<lambda>_. None) of
        Inl cyc \<Rightarrow> Inl (Cyclic_Dependency cyc)
      | Inr _ \<Rightarrow> Inr ()))"

section \<open>The whole plan\<close>

definition max_plan_tasks :: int where
  "max_plan_tasks = 1000"

text \<open>\<open>_bounded_json_bytes\<close>; the values here are always serialisable once they are finite.\<close>

definition bounded_json :: "(real \<Rightarrow> string) \<Rightarrow> pyval \<Rightarrow> plan_error + unit" where
  "bounded_json fl v =
     bindr (require (check_nesting_depth v) (Invalid_Plan ''Plan exceeds maximum nesting depth'')) (\<lambda>_.
     bindr (require (check_finite v) (Invalid_Plan ''Non-finite JSON number is not allowed'')) (\<lambda>_.
     require (int (utf8_len (json_compact fl v)) \<le> max_plan_file_bytes) (Invalid_Plan ''Plan file exceeds maximum size'')))"

definition iter_attr :: "pyval \<Rightarrow> string \<Rightarrow> (pyval \<Rightarrow> plan_error + unit) \<Rightarrow> plan_error + unit" where
  "iter_attr v k f = bindr (get_attr v k (PList [])) (\<lambda>x. bindr (py_iter x) (for_each f))"

definition check_spec_refs :: "(string \<Rightarrow> bool) \<Rightarrow> pyval \<Rightarrow> plan_error + unit" where
  "check_spec_refs escapes v =
     iter_attr v ''spec_refs'' (\<lambda>spec. bindr (get_attr spec ''path'' (PStr [])) (validate_repo_path escapes))"

definition check_scope :: "(string \<Rightarrow> bool) \<Rightarrow> pyval \<Rightarrow> plan_error + unit" where
  "check_scope escapes td =
     bindr (get_attr td ''scope'' PNone) (\<lambda>scope.
     (case scope of
        PDict d \<Rightarrow> if d = [] then Inr () else iter_attr scope ''paths'' (validate_repo_path escapes)
      | _ \<Rightarrow> Inr ()))"

definition check_clarifications :: "(string \<Rightarrow> bool) \<Rightarrow> pyval \<Rightarrow> plan_error + unit" where
  "check_clarifications escapes td =
     iter_attr td ''clarifications'' (\<lambda>clar.
       bindr (get_attr clar ''id'' (PStr [])) (\<lambda>cid.
       bindr (match_or_raise change_id_regex ''Invalid clarification ID format'' cid) (\<lambda>_.
       check_spec_refs escapes clar)))"

definition check_deliveries :: "pyval \<Rightarrow> plan_error + unit" where
  "check_deliveries td =
     bindr (get_attr td ''deliveries'' (PDict [])) (\<lambda>deliveries.
     (case deliveries of
        PDict d \<Rightarrow> for_each (\<lambda>(del_id, delivery).
          bindr (require (delivery_id_regex del_id) (Invalid_Plan ''Invalid delivery ID format'')) (\<lambda>_.
          bindr (get_attr delivery ''target_ref'' (PStr [])) (\<lambda>target_ref.
          match_or_raise target_ref_regex ''Invalid delivery target_ref'' target_ref))) d
      | _ \<Rightarrow> Inr ()))"

definition check_depends_on :: "string list \<Rightarrow> pyval \<Rightarrow> pyval \<Rightarrow> plan_error + unit" where
  "check_depends_on tids plan_id td =
     iter_attr td ''depends_on'' (\<lambda>dep.
       bindr (get_attr dep ''plan_id'' (PStr [])) (\<lambda>dep_plan.
       bindr (get_attr dep ''task_id'' (PStr [])) (\<lambda>dep_task.
       bindr (match_or_raise plan_id_regex ''Invalid dependency plan_id'' dep_plan) (\<lambda>_.
       bindr (match_or_raise task_id_regex ''Invalid dependency task_id'' dep_task) (\<lambda>_.
       require (\<not> (dep_plan = plan_id \<and> dep_task \<notin> PStr ` set tids))
         (Invalid_Plan ''depends on non-existent task''))))))"

definition check_task :: "(string \<Rightarrow> bool) \<Rightarrow> string list \<Rightarrow> pyval \<Rightarrow> string \<times> pyval \<Rightarrow> plan_error + unit" where
  "check_task escapes tids plan_id kv =
     bindr (require (task_id_regex (fst kv)) (Invalid_Plan ''Invalid task ID format'')) (\<lambda>_.
     bindr (check_spec_refs escapes (snd kv)) (\<lambda>_.
     bindr (check_scope escapes (snd kv)) (\<lambda>_.
     bindr (check_clarifications escapes (snd kv)) (\<lambda>_.
     bindr (check_deliveries (snd kv)) (\<lambda>_.
     check_depends_on tids plan_id (snd kv))))))"

definition validate_plan_dict ::
  "(real \<Rightarrow> string) \<Rightarrow> (pyval \<Rightarrow> string option) \<Rightarrow> (string \<Rightarrow> bool) \<Rightarrow> pyval \<Rightarrow> plan_error + unit" where
  "validate_plan_dict fl schema_error escapes data =
     (case data of
        PDict d \<Rightarrow>
          bindr (bounded_json fl data) (\<lambda>_.
          bindr (case schema_error data of Some msg \<Rightarrow> Inl (Invalid_Plan msg) | None \<Rightarrow> Inr ()) (\<lambda>_.
          bindr (require (equals_one (dict_get d ''schema_version'')) (Invalid_Plan ''Unsupported schema_version'')) (\<lambda>_.
          (case get_default d ''tasks'' (PDict []) of
             PDict tasks \<Rightarrow>
               (let plan_id = get_default d ''id'' (PStr []) in
                bindr (require (int (length tasks) \<le> max_plan_tasks) (Invalid_Plan ''Plan exceeds maximum task limit'')) (\<lambda>_.
                bindr (match_or_raise plan_id_regex ''Invalid plan ID format'' plan_id) (\<lambda>_.
                bindr (check_spec_refs escapes data) (\<lambda>_.
                bindr (for_each (check_task escapes (map fst tasks) plan_id) tasks) (\<lambda>_.
                detect_dependency_cycles tasks plan_id)))))
           | _ \<Rightarrow> Inl (Invalid_Plan ''tasks must be an object'')))))
      | _ \<Rightarrow> Inl (Invalid_Plan ''Plan data must be a dictionary''))"

definition serialize_plan_json :: "(real \<Rightarrow> string) \<Rightarrow> (pyval \<Rightarrow> string option) \<Rightarrow> pyval \<Rightarrow> plan_error + string" where
  "serialize_plan_json fl schema_error data =
     bindr (validate_plan_dict fl schema_error (\<lambda>_. False) data) (\<lambda>_.
     (let text = json_pretty fl data @ [newline] in
      bindr (require (int (utf8_len text) \<le> max_plan_file_bytes) (Invalid_Plan ''Plan file exceeds maximum size'')) (\<lambda>_.
      Inr text)))"

section \<open>What acceptance means\<close>

text \<open>The dependencies a plan declares between its own tasks.\<close>

definition depends :: "(string \<times> pyval) list \<Rightarrow> pyval \<Rightarrow> string \<Rightarrow> string \<Rightarrow> bool" where
  "depends tasks plan_id t u \<longleftrightarrow>
     u \<in> fst ` set tasks \<and>
     (\<exists>td deps d. (t, td) \<in> set tasks \<and> task_deps td = Inr deps \<and> PDict d \<in> set deps \<and>
        dict_get d ''plan_id'' = plan_id \<and> dict_get d ''task_id'' = PStr u)"

lemma same_plan_deps_set:
  "same_plan_deps tids plan_id deps = Inr ns \<Longrightarrow>
     u \<in> set ns \<longleftrightarrow> u \<in> set tids \<and> (\<exists>d. PDict d \<in> set deps \<and> dict_get d ''plan_id'' = plan_id \<and> dict_get d ''task_id'' = PStr u)"
proof (induction deps arbitrary: ns)
  case (Cons dep deps)
  show ?case
  proof (cases dep)
    case (PDict d)
    show ?thesis
    proof (cases "dict_get d ''plan_id'' = plan_id")
      case True
      then show ?thesis using Cons PDict by (cases "dict_get d ''task_id''") (auto split: if_splits)
    qed (use Cons PDict in auto)
  qed (use Cons in auto)
qed auto

lemma build_adj_fst: "build_adj tids plan_id ts = Inr adj \<Longrightarrow> map fst adj = map fst ts"
  by (induction ts arbitrary: adj) auto

lemma build_adj_succs:
  "build_adj tids plan_id ts = Inr adj \<Longrightarrow> distinct (map fst ts) \<Longrightarrow>
     u \<in> set (succs adj t) \<longleftrightarrow>
       u \<in> set tids \<and> (\<exists>td deps d. (t, td) \<in> set ts \<and> task_deps td = Inr deps \<and> PDict d \<in> set deps \<and>
         dict_get d ''plan_id'' = plan_id \<and> dict_get d ''task_id'' = PStr u)"
proof (induction ts arbitrary: adj)
  case (Cons x ts)
  obtain tid td where x: "x = (tid, td)" by (cases x)
  obtain deps ns adj' where r: "task_deps td = Inr deps" "same_plan_deps tids plan_id deps = Inr ns"
    "build_adj tids plan_id ts = Inr adj'" "adj = (tid, ns) # adj'"
    using Cons.prems(1) by (auto simp: x)
  show ?case
  proof (cases "t = tid")
    case True
    then have "\<And>td'. (t, td') \<in> set (x # ts) \<longleftrightarrow> td' = td" using Cons.prems(2) x by force
    then show ?thesis using same_plan_deps_set [OF r(2)] r True by (auto simp: succs_def)
  next
    case False
    then have "succs adj t = succs adj' t" "\<And>td'. (t, td') \<in> set (x # ts) \<longleftrightarrow> (t, td') \<in> set ts"
      by (auto simp: r(4) succs_def x)
    then show ?thesis using Cons.IH [OF r(3)] Cons.prems(2) by simp
  qed
qed (simp add: succs_def)

lemma detect_exact:
  assumes "distinct (map fst tasks)" and "build_adj (map fst tasks) plan_id tasks = Inr adj"
  shows "(detect_dependency_cycles tasks plan_id = Inr () \<longleftrightarrow> (\<nexists>t. (depends tasks plan_id)\<^sup>+\<^sup>+ t t)) \<and>
         (\<forall>cyc. detect_dependency_cycles tasks plan_id = Inl (Cyclic_Dependency cyc) \<longrightarrow>
            2 \<le> length cyc \<and> hd cyc = last cyc \<and>
            (\<forall>i. Suc i < length cyc \<longrightarrow> depends tasks plan_id (cyc ! i) (cyc ! Suc i)))"
proof -
  have dep: "u \<in> set (succs adj t) \<longleftrightarrow> depends tasks plan_id t u" for t u
    using build_adj_succs [OF assms(2,1)] by (simp add: depends_def)
  then have rel: "edge_rel (succs adj) = {(t, u). depends tasks plan_id t u}" by (simp add: edge_rel_def)
  have tr: "(depends tasks plan_id)\<^sup>+\<^sup>+ t t \<longleftrightarrow> (t, t) \<in> (edge_rel (succs adj))\<^sup>+" for t
    unfolding rel tranclp_unfold by simp
  have ch: "chain (succs adj) cyc \<Longrightarrow> Suc i < length cyc \<Longrightarrow> depends tasks plan_id (cyc ! i) (cyc ! Suc i)" for cyc i
  proof (induction i arbitrary: cyc)
    case 0
    then show ?case by (cases cyc rule: remdups_adj.cases) (auto simp: dep)
  next
    case (Suc i)
    then obtain x y r where c: "cyc = x # y # r" by (cases cyc rule: remdups_adj.cases) auto
    then have "chain (succs adj) (y # r)" "Suc i < length (y # r)" using Suc.prems by simp_all
    from Suc.IH [OF this] show ?case by (simp add: c)
  qed
  have fst: "map fst tasks = map fst adj" using build_adj_fst [OF assms(2)] by simp
  have run: "detect_dependency_cycles tasks plan_id = (case dfs_all adj (map fst adj) (\<lambda>_. None) of
      Inl cyc \<Rightarrow> Inl (Cyclic_Dependency cyc) | Inr _ \<Rightarrow> Inr ())"
    using assms(2) by (simp add: detect_dependency_cycles_def fst)
  from dfs_all_decides [of adj] show ?thesis
  proof (elim disjE exE conjE)
    fix cyc assume r: "dfs_all adj (map fst adj) (\<lambda>_. None) = Inl cyc" and c: "is_cycle (succs adj) cyc"
    then show ?thesis using is_cycle_trancl [OF c] ch [of cyc] c unfolding run tr r by (auto simp: is_cycle_def)
  next
    fix st assume r: "dfs_all adj (map fst adj) (\<lambda>_. None) = Inr st" and c: "acyclic (edge_rel (succs adj))"
    then show ?thesis unfolding run tr r by (simp add: acyclic_def)
  qed
qed

lemma acyclic_of_detect:
  assumes "distinct (map fst tasks)" "build_adj (map fst tasks) plan_id tasks = Inr adj"
    "detect_dependency_cycles tasks plan_id = Inr ()"
  shows "\<nexists>t. (depends tasks plan_id)\<^sup>+\<^sup>+ t t"
  using detect_exact [OF assms(1,2)] assms(3) by blast

text \<open>
  C25. On a plan whose dependency lists can be read, \<open>detect_dependency_cycles\<close> ends; it accepts
  exactly when no task depends, directly or through others, on itself, and otherwise the cycle it
  reports is one of the declared graph.
\<close>

theorem dependency_cycles_exact:
  assumes "distinct (map fst tasks)" and "build_adj (map fst tasks) plan_id tasks = Inr adj"
  shows "(detect_dependency_cycles tasks plan_id = Inr () \<longleftrightarrow> (\<nexists>t. (depends tasks plan_id)\<^sup>+\<^sup>+ t t)) \<and>
         (\<forall>cyc. detect_dependency_cycles tasks plan_id = Inl (Cyclic_Dependency cyc) \<longrightarrow>
            2 \<le> length cyc \<and> hd cyc = last cyc \<and>
            (\<forall>i. Suc i < length cyc \<longrightarrow> depends tasks plan_id (cyc ! i) (cyc ! Suc i)))"
  using detect_exact [OF assms] .

abbreviation demo_dep :: "string \<Rightarrow> pyval" where
  "demo_dep t \<equiv> PDict [(''plan_id'', PStr ''plan_a''), (''task_id'', PStr t)]"

definition demo_tasks :: "(string \<times> pyval) list" where
  "demo_tasks = [(''task_1'', PDict [(''depends_on'', PList [demo_dep ''task_2''])]),
     (''task_2'', PDict [(''depends_on'', PList [demo_dep ''task_1''])])]"

theorem dependency_cycles_exact_witness:
  "\<exists>t. (depends demo_tasks (PStr ''plan_a''))\<^sup>+\<^sup>+ t t"
proof -
  have b: "build_adj (map fst demo_tasks) (PStr ''plan_a'') demo_tasks = Inr [(''task_1'', [''task_2'']), (''task_2'', [''task_1''])]"
    and d: "distinct (map fst demo_tasks)"
    by code_simp+
  have "isl (dfs_all [(''task_1'', [''task_2'']), (''task_2'', [''task_1''])] (map fst demo_tasks) (\<lambda>_. None))"
    by code_simp
  then have "detect_dependency_cycles demo_tasks (PStr ''plan_a'') \<noteq> Inr ()"
    by (auto simp: detect_dependency_cycles_def b split: sum.splits)
  then show ?thesis using dependency_cycles_exact [OF d b] by blast
qed

section \<open>Every path of an accepted plan\<close>

definition attr :: "pyval \<Rightarrow> string \<Rightarrow> pyval \<Rightarrow> pyval" where
  "attr v k dflt = (case v of PDict d \<Rightarrow> get_default d k dflt | _ \<Rightarrow> PNone)"

definition items :: "pyval \<Rightarrow> pyval list" where
  "items v = (case py_iter v of Inr xs \<Rightarrow> xs | Inl _ \<Rightarrow> [])"

definition spec_paths :: "pyval \<Rightarrow> pyval list" where
  "spec_paths v = map (\<lambda>spec. attr spec ''path'' (PStr [])) (items (attr v ''spec_refs'' (PList [])))"

definition task_paths :: "pyval \<Rightarrow> pyval list" where
  "task_paths td = spec_paths td @
     (case attr td ''scope'' PNone of PDict d \<Rightarrow> if d = [] then [] else items (get_default d ''paths'' (PList [])) | _ \<Rightarrow> []) @
     concat (map spec_paths (items (attr td ''clarifications'' (PList []))))"

definition plan_tasks :: "pyval \<Rightarrow> (string \<times> pyval) list" where
  "plan_tasks data = (case attr data ''tasks'' (PDict []) of PDict t \<Rightarrow> t | _ \<Rightarrow> [])"

definition plan_paths :: "pyval \<Rightarrow> pyval list" where
  "plan_paths data = spec_paths data @ concat (map (\<lambda>kv. task_paths (snd kv)) (plan_tasks data))"

text \<open>Where a path leads from a directory, when no component is a symbolic link.\<close>

fun walk :: "string list \<Rightarrow> string list \<Rightarrow> string list" where
  "walk dir [] = dir"
| "walk dir (seg # segs) =
     walk (if seg = [] \<or> seg = ''.'' then dir else if seg = ''..'' then butlast dir else dir @ [seg]) segs"

lemma walk_down: "''..'' \<notin> set segs \<Longrightarrow> prefix dir (walk dir segs)"
proof (induction dir segs rule: walk.induct)
  case (2 dir seg segs)
  then show ?case by (auto dest: append_prefixD)
qed simp

lemma get_attr_Inr: "get_attr v k dflt = Inr x \<Longrightarrow> attr v k dflt = x"
  by (cases v) (auto simp: get_attr_def attr_def)

lemma iter_attr_items: "iter_attr v k f = Inr () \<Longrightarrow> x \<in> set (items (attr v k (PList []))) \<Longrightarrow> f x = Inr ()"
  by (auto simp: iter_attr_def items_def dest: get_attr_Inr)

lemma valid_path_confined:
  assumes "validate_repo_path escapes v = Inr ()"
  shows "\<exists>s. v = PStr s \<and> s \<noteq> [] \<and> length s \<le> 1024 \<and> \<not> prefix [slash] s \<and> bslash \<notin> set s \<and> \<not> escapes s \<and>
    (\<forall>root. prefix root (walk root (split_on slash s)))"
  using assms by (cases v) (auto simp: validate_repo_path_def intro: walk_down)

lemma spec_paths_ok:
  assumes "check_spec_refs escapes v = Inr ()" "p \<in> set (spec_paths v)"
  shows "validate_repo_path escapes p = Inr ()"
proof -
  obtain spec where "spec \<in> set (items (attr v ''spec_refs'' (PList [])))" "p = attr spec ''path'' (PStr [])"
    using assms(2) by (auto simp: spec_paths_def)
  then show ?thesis
    using iter_attr_items [OF assms(1) [unfolded check_spec_refs_def]] by (auto dest: get_attr_Inr)
qed

lemma task_paths_ok:
  assumes "check_task escapes tids plan_id kv = Inr ()" "p \<in> set (task_paths (snd kv))"
  shows "validate_repo_path escapes p = Inr ()"
proof -
  have ch: "check_spec_refs escapes (snd kv) = Inr ()" "check_scope escapes (snd kv) = Inr ()"
    "check_clarifications escapes (snd kv) = Inr ()"
    using assms(1) by (auto simp: check_task_def)
  consider "p \<in> set (spec_paths (snd kv))"
    | d where "attr (snd kv) ''scope'' PNone = PDict d" "d \<noteq> []" "p \<in> set (items (get_default d ''paths'' (PList [])))"
    | c where "c \<in> set (items (attr (snd kv) ''clarifications'' (PList [])))" "p \<in> set (spec_paths c)"
    using assms(2) by (cases "attr (snd kv) ''scope'' PNone") (auto simp: task_paths_def split: if_splits)
  then show ?thesis
  proof cases
    case 1
    then show ?thesis using spec_paths_ok ch(1) by blast
  next
    case (2 d)
    have "iter_attr (PDict d) ''paths'' (validate_repo_path escapes) = Inr ()"
      using ch(2) 2 by (auto simp: check_scope_def dest: get_attr_Inr)
    from iter_attr_items [OF this, of p] show ?thesis using 2 by (simp add: attr_def)
  next
    case (3 c)
    have "check_spec_refs escapes c = Inr ()"
      using iter_attr_items [OF ch(3) [unfolded check_clarifications_def] 3(1)] by auto
    then show ?thesis using spec_paths_ok 3(2) by blast
  qed
qed

lemma validate_plan_InrE:
  assumes "validate_plan_dict fl schema_error escapes data = Inr ()"
  obtains d where "data = PDict d" "bounded_json fl data = Inr ()" "get_default d ''tasks'' (PDict []) = PDict (plan_tasks data)"
    "int (length (plan_tasks data)) \<le> max_plan_tasks" "match_or_raise plan_id_regex ''Invalid plan ID format'' (attr data ''id'' (PStr [])) = Inr ()"
    "check_spec_refs escapes data = Inr ()"
    "\<forall>kv \<in> set (plan_tasks data). check_task escapes (map fst (plan_tasks data)) (attr data ''id'' (PStr [])) kv = Inr ()"
    "detect_dependency_cycles (plan_tasks data) (attr data ''id'' (PStr [])) = Inr ()"
    "schema_error data = None"
proof -
  obtain d where d: "data = PDict d" using assms by (cases data) (auto simp: validate_plan_dict_def)
  then obtain t where t: "get_default d ''tasks'' (PDict []) = PDict t"
    using assms by (cases "get_default d ''tasks'' (PDict [])") (auto simp: validate_plan_dict_def)
  then have p: "plan_tasks data = t" by (simp add: plan_tasks_def d attr_def)
  show thesis
    using that [OF d] assms t unfolding p by (auto simp: validate_plan_dict_def d attr_def Let_def split: option.splits)
qed

text \<open>
  C35. Every path an accepted plan mentions, in its own references or in those, the scope and the
  clarifications of a task, is a short relative path that never climbs out of a directory it is
  resolved from, and one the file system confirmed to be inside the root.
\<close>

theorem accepted_plan_paths_confined:
  assumes "validate_plan_dict fl schema_error escapes data = Inr ()" and "p \<in> set (plan_paths data)"
  shows "\<exists>s. p = PStr s \<and> s \<noteq> [] \<and> length s \<le> 1024 \<and> \<not> prefix [slash] s \<and> bslash \<notin> set s \<and> \<not> escapes s \<and>
    (\<forall>root. prefix root (walk root (split_on slash s)))"
proof (rule validate_plan_InrE [OF assms(1)])
  assume own: "check_spec_refs escapes data = Inr ()"
    and each: "\<forall>kv \<in> set (plan_tasks data).
        check_task escapes (map fst (plan_tasks data)) (attr data ''id'' (PStr [])) kv = Inr ()"
  have "validate_repo_path escapes p = Inr ()"
    using assms(2) spec_paths_ok [OF own] task_paths_ok each by (auto simp: plan_paths_def)
  then show ?thesis by (rule valid_path_confined)
qed

abbreviation "demo_spec \<equiv> PList [PDict [(''path'', PStr ''docs/a.md'')]]"

definition demo_plan :: "pyval \<Rightarrow> pyval" where
  "demo_plan deps = PDict [(''schema_version'', PInt 1), (''id'', PStr ''plan_a''), (''spec_refs'', demo_spec),
     (''tasks'', PDict [(''task_1'', PDict [(''depends_on'', deps)]), (''task_2'', PDict [])])]"

abbreviation "demo_validate v \<equiv> validate_plan_dict (\<lambda>_. ''0.5'') (\<lambda>_. None) (\<lambda>_. False) v"

lemma not_isl_unit: "\<not> isl x \<Longrightarrow> x = Inr ()"
  by (cases x) auto

abbreviation "demo_good \<equiv> demo_plan (PList [demo_dep ''task_2''])"

lemma demo_good_parts:
  "bounded_json (\<lambda>_. ''0.5'') demo_good = Inr ()" "check_spec_refs (\<lambda>_. False) demo_good = Inr ()"
  "for_each (check_task (\<lambda>_. False) (map fst (plan_tasks demo_good)) (PStr ''plan_a'')) (plan_tasks demo_good) = Inr ()"
  "detect_dependency_cycles (plan_tasks demo_good) (PStr ''plan_a'') = Inr ()"
  "match_or_raise plan_id_regex ''Invalid plan ID format'' (PStr ''plan_a'') = Inr ()"
  by (rule not_isl_unit, code_simp)+

lemma demo_plan_valid: "demo_validate demo_good = Inr ()"
  using demo_good_parts unfolding demo_plan_def
  by (simp add: validate_plan_dict_def get_default_def dict_get_def plan_tasks_def attr_def equals_one_def
      max_plan_tasks_def del: for_each_Inr for_each.simps)

theorem accepted_plan_paths_confined_witness:
  "prefix [''r''] (walk [''r''] (split_on slash ''docs/a.md''))"
proof -
  have "PStr ''docs/a.md'' \<in> set (plan_paths demo_good)" by code_simp
  from accepted_plan_paths_confined [OF demo_plan_valid this] show ?thesis by auto
qed

section \<open>The dependencies of an accepted plan\<close>

lemma match_or_raise_Inr: "match_or_raise r msg v = Inr () \<longleftrightarrow> (\<exists>s. v = PStr s \<and> r s)"
  by (cases v) (auto simp: match_or_raise_def)

lemma depends_on_ok:
  assumes "check_depends_on tids plan_id td = Inr ()" "dep \<in> set (items (attr td ''depends_on'' (PList [])))"
    "attr dep ''plan_id'' (PStr []) = plan_id"
  shows "\<exists>t \<in> set tids. attr dep ''task_id'' (PStr []) = PStr t"
  using iter_attr_items [OF assms(1) [unfolded check_depends_on_def] assms(2)] assms(3)
  by (auto dest!: get_attr_Inr)

text \<open>
  C34. An accepted plan holds at most 1000 tasks with well-formed identifiers, is nested at most 32
  deep, each dependency on the plan itself names one of its tasks, and no task waits for itself.
\<close>

theorem accepted_plan_is_executable:
  assumes "validate_plan_dict fl schema_error escapes data = Inr ()" and "distinct (map fst (plan_tasks data))"
  shows "length (plan_tasks data) \<le> 1000 \<and> py_depth data \<le> 32 \<and>
         (\<exists>i. attr data ''id'' (PStr []) = PStr i \<and> plan_id_regex i) \<and>
         (\<forall>(tid, td) \<in> set (plan_tasks data). task_id_regex tid \<and>
            (\<forall>dep \<in> set (items (attr td ''depends_on'' (PList []))).
               attr dep ''plan_id'' (PStr []) = attr data ''id'' (PStr []) \<longrightarrow>
               (\<exists>u. attr dep ''task_id'' (PStr []) = PStr u \<and> u \<in> fst ` set (plan_tasks data)))) \<and>
         (\<nexists>t. (depends (plan_tasks data) (attr data ''id'' (PStr [])))\<^sup>+\<^sup>+ t t)"
proof (rule validate_plan_InrE [OF assms(1)])
  let ?ts = "plan_tasks data" and ?id = "attr data ''id'' (PStr [])"
  assume b: "bounded_json fl data = Inr ()" and len: "int (length ?ts) \<le> max_plan_tasks"
    and i: "match_or_raise plan_id_regex ''Invalid plan ID format'' ?id = Inr ()"
    and each: "\<forall>kv \<in> set ?ts. check_task escapes (map fst ?ts) ?id kv = Inr ()"
    and det: "detect_dependency_cycles ?ts ?id = Inr ()"
  obtain adj where adj: "build_adj (map fst ?ts) ?id ?ts = Inr adj"
    using det by (auto simp: detect_dependency_cycles_def)
  have "\<nexists>t. (depends ?ts ?id)\<^sup>+\<^sup>+ t t"
    using acyclic_of_detect [OF assms(2) adj det] .
  moreover have "py_depth data \<le> 32"
    using b by (auto simp: bounded_json_def check_nesting_depth_iff max_plan_nesting_depth_def)
  moreover have "task_id_regex tid \<and> (\<forall>dep \<in> set (items (attr td ''depends_on'' (PList []))).
      attr dep ''plan_id'' (PStr []) = ?id \<longrightarrow> (\<exists>u. attr dep ''task_id'' (PStr []) = PStr u \<and> u \<in> fst ` set ?ts))"
    if "(tid, td) \<in> set ?ts" for tid td
  proof -
    have c: "check_task escapes (map fst ?ts) ?id (tid, td) = Inr ()" using each that by blast
    then have "task_id_regex tid" "check_depends_on (map fst ?ts) ?id td = Inr ()" by (auto simp: check_task_def)
    then show ?thesis using depends_on_ok by fastforce
  qed
  ultimately show ?thesis using len i by (auto simp: max_plan_tasks_def match_or_raise_Inr)
qed

theorem accepted_plan_is_executable_witness:
  "py_depth demo_good \<le> 32 \<and>
   \<not> (depends (plan_tasks demo_good) (PStr ''plan_a''))\<^sup>+\<^sup>+ ''task_1'' ''task_1''"
proof -
  have "distinct (map fst (plan_tasks demo_good))"
    and "attr demo_good ''id'' (PStr []) = PStr ''plan_a''"
    by code_simp+
  with accepted_plan_is_executable [OF demo_plan_valid] show ?thesis by auto
qed

section \<open>What is written can be read\<close>

text \<open>
  A plan that is serialised fits the size limit of the reader and passes its check of the raw
  text's nesting, as long as the decimal text of a float holds no quote and no bracket.
\<close>

theorem serialized_plan_is_readable:
  assumes "serialize_plan_json fl schema_error data = Inr text" and "\<forall>r. plain (fl r)"
  shows "utf8_len text \<le> 1024 * 1024 \<and> check_raw_json_depth text \<and> validate_plan_dict fl schema_error (\<lambda>_. False) data = Inr ()"
proof -
  have v: "validate_plan_dict fl schema_error (\<lambda>_. False) data = Inr ()"
    and t: "text = json_pretty fl data @ [newline]" "int (utf8_len text) \<le> max_plan_file_bytes"
    using assms(1) by (auto simp: serialize_plan_json_def Let_def)
  have "bounded_json fl data = Inr ()" using v by (rule validate_plan_InrE)
  then have "check_nesting_depth (sort_keys data)" by (simp add: bounded_json_def check_nesting_depth_iff)
  then have "check_raw_json_depth text"
    unfolding t(1) json_pretty_def using assms(2)
    by (intro raw_check_json_text) (auto simp: plain_def)
  then show ?thesis using v t(2) by (simp add: max_plan_file_bytes_def)
qed

theorem serialized_plan_is_readable_witness:
  "\<exists>text. serialize_plan_json (\<lambda>_. ''0.5'') (\<lambda>_. None) demo_good = Inr text \<and> check_raw_json_depth text"
proof -
  have "int (utf8_len (json_pretty (\<lambda>_. ''0.5'') demo_good @ [newline])) \<le> max_plan_file_bytes" by code_simp
  then obtain doc where "serialize_plan_json (\<lambda>_. ''0.5'') (\<lambda>_. None) demo_good = Inr doc"
    by (simp add: serialize_plan_json_def demo_plan_valid)
  with serialized_plan_is_readable [OF this] show ?thesis by (auto simp: plain_def)
qed

end
