(* ===== verification/Plan_Models.thy ===== *)
theory Plan_Models
  imports Plan_Validation
begin

text \<open>
  The data model of plan files, \<open>repo_plan/models.py\<close>: each dataclass a record, with its \<open>to_dict\<close> and
  \<open>from_dict\<close>.  A field that \<open>from_dict\<close> copies unchecked is a Python value.
\<close>

section \<open>Checks\<close>

fun map_err :: "('a \<Rightarrow> 'e + 'b) \<Rightarrow> 'a list \<Rightarrow> 'e + 'b list" where
  "map_err f [] = Inr []"
| "map_err f (x # xs) = bindr (f x) (\<lambda>y. bindr (map_err f xs) (\<lambda>ys. Inr (y # ys)))"

lemma map_err_inverse: "(\<And>x. x \<in> set xs \<Longrightarrow> f (g x) = Inr x) \<Longrightarrow> map_err f (map g xs) = Inr xs"
  by (induction xs) auto

definition require_object :: "pyval \<Rightarrow> string set \<Rightarrow> string set \<Rightarrow> plan_error + (string \<times> pyval) list" where
  "require_object v required allowed =
     (case v of
        PDict d \<Rightarrow>
          if \<not> required \<subseteq> fst ` set d then Inl (Value_Error ''is missing required fields'')
          else if \<not> fst ` set d \<subseteq> allowed then Inl (Value_Error ''has unknown fields'')
          else Inr d
      | _ \<Rightarrow> Inl (Value_Error ''must be an object''))"

definition require_list :: "pyval \<Rightarrow> plan_error + pyval list" where
  "require_list v = (case v of PList vs \<Rightarrow> Inr vs | _ \<Rightarrow> Inl (Value_Error ''must be an array''))"

definition list_of :: "pyval \<Rightarrow> (pyval \<Rightarrow> plan_error + 'a) \<Rightarrow> plan_error + 'a list" where
  "list_of v f = bindr (require_list v) (map_err f)"

lemma list_of_inverse: "(\<And>x. x \<in> set xs \<Longrightarrow> f (g x) = Inr x) \<Longrightarrow> list_of (PList (map g xs)) f = Inr xs"
  by (simp add: list_of_def require_list_def map_err_inverse)

lemma list_of_id [simp]: "list_of (PList xs) Inr = Inr xs"
  using map_err_inverse [of xs Inr "\<lambda>x. x"] by (simp add: list_of_def require_list_def)

lemma dict_get_simps [simp]:
  "dict_get [] k = PNone" "dict_get ((k', v) # d) k = (if k = k' then v else dict_get d k)"
  "get_default [] k w = w" "get_default ((k', v) # d) k w = (if k = k' then v else get_default d k w)"
  by (auto simp: dict_get_def get_default_def)

definition or_empty :: "pyval \<Rightarrow> pyval" where
  "or_empty v = (if py_truthy v then v else PStr [])"

section \<open>Revisions and references\<close>

record revision =
  rv_kind :: pyval
  rv_commit :: pyval
  rv_sha :: pyval

definition revision_to_dict :: "revision \<Rightarrow> pyval" where
  "revision_to_dict r = PDict ((''kind'', rv_kind r) #
     (if rv_kind r = PStr ''git_commit'' then [(''commit'', or_empty (rv_commit r))]
      else if rv_kind r = PStr ''working'' then [(''content_sha256'', or_empty (rv_sha r))] else []))"

definition revision_from_dict :: "pyval \<Rightarrow> plan_error + revision" where
  "revision_from_dict v =
     (case v of
        PDict d \<Rightarrow>
          (let kind = dict_get d ''kind'' in
           if (case kind of PList _ \<Rightarrow> True | PDict _ \<Rightarrow> True | _ \<Rightarrow> False) then Inl Type_Error
           else if kind \<noteq> PStr ''git_commit'' \<and> kind \<noteq> PStr ''working'' then Inl (Value_Error ''revision has unsupported kind'')
           else
             (let fields = (if kind = PStr ''git_commit'' then {''kind'', ''commit''} else {''kind'', ''content_sha256''}) in
              bindr (require_object v fields fields) (\<lambda>d.
              Inr \<lparr>rv_kind = kind, rv_commit = dict_get d ''commit'', rv_sha = dict_get d ''content_sha256''\<rparr>)))
      | _ \<Rightarrow> Inl (Value_Error ''revision must be an object''))"

record spec_ref =
  sp_path :: pyval
  sp_revision :: revision

definition spec_ref_to_dict :: "spec_ref \<Rightarrow> pyval" where
  "spec_ref_to_dict s = PDict [(''path'', sp_path s), (''revision'', revision_to_dict (sp_revision s))]"

definition spec_ref_from_dict :: "pyval \<Rightarrow> plan_error + spec_ref" where
  "spec_ref_from_dict v =
     bindr (require_object v {''path'', ''revision''} {''path'', ''revision''}) (\<lambda>d.
     bindr (revision_from_dict (dict_get d ''revision'')) (\<lambda>r.
     Inr \<lparr>sp_path = dict_get d ''path'', sp_revision = r\<rparr>))"

record dependency =
  dp_plan :: pyval
  dp_task :: pyval

definition dependency_to_dict :: "dependency \<Rightarrow> pyval" where
  "dependency_to_dict x = PDict [(''plan_id'', dp_plan x), (''task_id'', dp_task x)]"

definition dependency_from_dict :: "pyval \<Rightarrow> plan_error + dependency" where
  "dependency_from_dict v =
     bindr (require_object v {''plan_id'', ''task_id''} {''plan_id'', ''task_id''}) (\<lambda>d.
     Inr \<lparr>dp_plan = dict_get d ''plan_id'', dp_task = dict_get d ''task_id''\<rparr>)"

record result_ref =
  rr_kind :: pyval
  rr_commit :: pyval
  rr_evidence :: pyval
  rr_summary :: pyval

definition result_ref_to_dict :: "result_ref \<Rightarrow> pyval" where
  "result_ref_to_dict r = PDict ((''kind'', rr_kind r) #
     (if rr_kind r = PStr ''git_commit'' then [(''commit'', or_empty (rr_commit r))]
      else if rr_kind r = PStr ''evidence_reference''
      then [(''evidence_id'', or_empty (rr_evidence r)), (''summary'', rr_summary r)] else []))"

definition result_ref_from_dict :: "pyval \<Rightarrow> plan_error + result_ref" where
  "result_ref_from_dict v =
     (case v of
        PDict d \<Rightarrow>
          (let kind = dict_get d ''kind'' in
           bindr (if kind = PStr ''git_commit'' then require_object v {''kind'', ''commit''} {''kind'', ''commit''}
                  else if kind = PStr ''evidence_reference''
                  then require_object v {''kind'', ''evidence_id'', ''summary''} {''kind'', ''evidence_id'', ''summary''}
                  else Inl (Value_Error ''result_ref has unsupported kind'')) (\<lambda>d.
           Inr \<lparr>rr_kind = kind, rr_commit = dict_get d ''commit'', rr_evidence = dict_get d ''evidence_id'',
                rr_summary = get_default d ''summary'' (PStr [])\<rparr>))
      | _ \<Rightarrow> Inl (Value_Error ''result_ref must be an object''))"

record task_scope =
  sc_paths :: "pyval list"

definition scope_to_dict :: "task_scope \<Rightarrow> pyval" where
  "scope_to_dict s = PDict [(''paths'', PList (sc_paths s))]"

definition scope_from_dict :: "pyval \<Rightarrow> plan_error + task_scope" where
  "scope_from_dict v =
     bindr (require_object v {''paths''} {''paths''}) (\<lambda>d.
     bindr (list_of (dict_get d ''paths'') Inr) (\<lambda>ps. Inr \<lparr>sc_paths = ps\<rparr>))"

section \<open>Clarifications and deliveries\<close>

record clarification =
  cl_id :: pyval
  cl_summary :: pyval
  cl_adoption :: pyval
  cl_specs :: "spec_ref list"
  cl_supersedes :: "pyval list"

definition clarification_to_dict :: "clarification \<Rightarrow> pyval" where
  "clarification_to_dict c = PDict [(''id'', cl_id c), (''summary'', cl_summary c), (''adoption'', cl_adoption c),
     (''spec_refs'', PList (map spec_ref_to_dict (cl_specs c))), (''supersedes'', PList (cl_supersedes c))]"

definition clarification_from_dict :: "pyval \<Rightarrow> plan_error + clarification" where
  "clarification_from_dict v =
     (let fields = {''id'', ''summary'', ''adoption'', ''spec_refs'', ''supersedes''} in
      bindr (require_object v fields fields) (\<lambda>d.
      bindr (list_of (dict_get d ''spec_refs'') spec_ref_from_dict) (\<lambda>specs.
      bindr (list_of (dict_get d ''supersedes'') Inr) (\<lambda>sups.
      Inr \<lparr>cl_id = dict_get d ''id'', cl_summary = dict_get d ''summary'', cl_adoption = dict_get d ''adoption'',
           cl_specs = specs, cl_supersedes = sups\<rparr>))))"

record delivery =
  dl_target :: pyval
  dl_role :: pyval
  dl_disposition :: pyval
  dl_reason :: pyval
  dl_results :: "result_ref list"

definition delivery_to_dict :: "delivery \<Rightarrow> pyval" where
  "delivery_to_dict x = PDict [(''target_ref'', dl_target x), (''accountable_role'', dl_role x),
     (''disposition'', dl_disposition x), (''reason'', dl_reason x),
     (''results'', PList (map result_ref_to_dict (dl_results x)))]"

definition delivery_from_dict :: "pyval \<Rightarrow> plan_error + delivery" where
  "delivery_from_dict v =
     (let fields = {''target_ref'', ''accountable_role'', ''disposition'', ''reason'', ''results''} in
      bindr (require_object v fields fields) (\<lambda>d.
      bindr (list_of (dict_get d ''results'') result_ref_from_dict) (\<lambda>rs.
      Inr \<lparr>dl_target = dict_get d ''target_ref'', dl_role = dict_get d ''accountable_role'',
           dl_disposition = dict_get d ''disposition'', dl_reason = dict_get d ''reason'', dl_results = rs\<rparr>)))"

section \<open>Round trips of the parts\<close>

text \<open>
  A reference whose optional fields are those its kind has, none of them falsy but the empty string:
  \<open>or_empty\<close> writes anything else falsy as the empty string.
\<close>

definition kept :: "pyval \<Rightarrow> bool" where
  "kept v \<longleftrightarrow> or_empty v = v"

definition wf_revision :: "revision \<Rightarrow> bool" where
  "wf_revision r \<longleftrightarrow>
     (rv_kind r = PStr ''git_commit'' \<and> kept (rv_commit r) \<and> rv_sha r = PNone) \<or>
     (rv_kind r = PStr ''working'' \<and> kept (rv_sha r) \<and> rv_commit r = PNone)"

definition wf_result_ref :: "result_ref \<Rightarrow> bool" where
  "wf_result_ref r \<longleftrightarrow>
     (rr_kind r = PStr ''git_commit'' \<and> kept (rr_commit r) \<and> rr_evidence r = PNone \<and> rr_summary r = PStr []) \<or>
     (rr_kind r = PStr ''evidence_reference'' \<and> kept (rr_evidence r) \<and> rr_commit r = PNone)"

lemma revision_roundtrip: "wf_revision r \<Longrightarrow> revision_from_dict (revision_to_dict r) = Inr r"
  by (auto simp: wf_revision_def kept_def revision_from_dict_def revision_to_dict_def require_object_def Let_def)

lemma result_ref_roundtrip: "wf_result_ref r \<Longrightarrow> result_ref_from_dict (result_ref_to_dict r) = Inr r"
  by (auto simp: wf_result_ref_def kept_def result_ref_from_dict_def result_ref_to_dict_def require_object_def Let_def)

lemma spec_ref_roundtrip: "wf_revision (sp_revision s) \<Longrightarrow> spec_ref_from_dict (spec_ref_to_dict s) = Inr s"
  by (simp add: spec_ref_from_dict_def spec_ref_to_dict_def require_object_def revision_roundtrip)

lemma dependency_roundtrip: "dependency_from_dict (dependency_to_dict x) = Inr x"
  by (simp add: dependency_from_dict_def dependency_to_dict_def require_object_def)

lemma scope_roundtrip: "scope_from_dict (scope_to_dict s) = Inr s"
  by (simp add: scope_from_dict_def scope_to_dict_def require_object_def)

lemma clarification_roundtrip:
  "list_all (\<lambda>s. wf_revision (sp_revision s)) (cl_specs c) \<Longrightarrow> clarification_from_dict (clarification_to_dict c) = Inr c"
  by (simp add: clarification_from_dict_def clarification_to_dict_def require_object_def list_of_inverse
      spec_ref_roundtrip list_all_iff)

lemma delivery_roundtrip: "list_all wf_result_ref (dl_results x) \<Longrightarrow> delivery_from_dict (delivery_to_dict x) = Inr x"
  by (simp add: delivery_from_dict_def delivery_to_dict_def require_object_def list_of_inverse
      result_ref_roundtrip list_all_iff)

section \<open>Tasks and plans\<close>

record plan_task =
  tk_id :: string
  tk_title :: pyval
  tk_description :: pyval
  tk_kind :: pyval
  tk_status :: pyval
  tk_depends :: "dependency list"
  tk_clarifications :: "clarification list"
  tk_criteria :: "pyval list"
  tk_next :: pyval
  tk_blocker :: pyval
  tk_order :: pyval
  tk_role :: pyval
  tk_phase :: pyval
  tk_specs :: "spec_ref list"
  tk_scope :: "task_scope option"
  tk_results :: "result_ref list"
  tk_deliveries :: "(string \<times> delivery) list"

text \<open>\<open>if value is not None: data[key] = value\<close> and \<open>if values: data[key] = ...\<close>.\<close>

definition unless_none :: "string \<Rightarrow> pyval \<Rightarrow> (string \<times> pyval) list" where
  "unless_none k v = (if v = PNone then [] else [(k, v)])"

definition unless_empty :: "string \<Rightarrow> ('a \<Rightarrow> pyval) \<Rightarrow> 'a list \<Rightarrow> (string \<times> pyval) list" where
  "unless_empty k f xs = (if xs = [] then [] else [(k, PList (map f xs))])"

definition task_base :: "plan_task \<Rightarrow> (string \<times> pyval) list" where
  "task_base t =
     [(''title'', tk_title t), (''description'', tk_description t), (''kind'', tk_kind t),
      (''work_status'', tk_status t), (''depends_on'', PList (map dependency_to_dict (tk_depends t))),
      (''clarifications'', PList (map clarification_to_dict (tk_clarifications t))),
      (''acceptance_criteria'', PList (tk_criteria t)), (''next_action'', tk_next t), (''blocker'', tk_blocker t)]"

definition task_optional :: "plan_task \<Rightarrow> (string \<times> pyval) list" where
  "task_optional t =
     unless_none ''order'' (tk_order t) @ unless_none ''accountable_role'' (tk_role t) @
     unless_none ''work_phase'' (tk_phase t) @ unless_empty ''spec_refs'' spec_ref_to_dict (tk_specs t) @
     unless_none ''scope'' (case tk_scope t of None \<Rightarrow> PNone | Some s \<Rightarrow> scope_to_dict s) @
     unless_empty ''results'' result_ref_to_dict (tk_results t) @
     (if tk_deliveries t = [] then []
      else [(''deliveries'', PDict (map (\<lambda>(k, v). (k, delivery_to_dict v)) (tk_deliveries t)))])"

definition task_to_dict :: "plan_task \<Rightarrow> pyval" where
  "task_to_dict t = PDict (task_base t @ task_optional t)"

definition task_required :: "string set" where
  "task_required = {''title'', ''description'', ''kind'', ''work_status'', ''depends_on'', ''clarifications'',
     ''acceptance_criteria'', ''next_action'', ''blocker''}"

definition task_allowed :: "string set" where
  "task_allowed = task_required \<union> {''order'', ''accountable_role'', ''work_phase'', ''spec_refs'', ''scope'',
     ''results'', ''deliveries''}"

definition named :: "(pyval \<Rightarrow> plan_error + 'a) \<Rightarrow> string \<times> pyval \<Rightarrow> plan_error + string \<times> 'a" where
  "named f kv = bindr (f (snd kv)) (\<lambda>x. Inr (fst kv, x))"

definition task_from_dict :: "string \<Rightarrow> pyval \<Rightarrow> plan_error + plan_task" where
  "task_from_dict task_id v =
     bindr (require_object v task_required task_allowed) (\<lambda>d.
     bindr (case get_default d ''deliveries'' (PDict []) of
              PDict ds \<Rightarrow> map_err (named delivery_from_dict) ds
            | _ \<Rightarrow> Inl (Value_Error ''task.deliveries must be an object'')) (\<lambda>deliveries.
     bindr (case dict_get d ''scope'' of
              PNone \<Rightarrow> Inr None
            | scope \<Rightarrow> bindr (scope_from_dict scope) (\<lambda>s. Inr (Some s))) (\<lambda>scope.
     bindr (list_of (dict_get d ''depends_on'') dependency_from_dict) (\<lambda>deps.
     bindr (list_of (dict_get d ''clarifications'') clarification_from_dict) (\<lambda>clars.
     bindr (list_of (dict_get d ''acceptance_criteria'') Inr) (\<lambda>crit.
     bindr (list_of (get_default d ''spec_refs'' (PList [])) spec_ref_from_dict) (\<lambda>specs.
     bindr (list_of (get_default d ''results'' (PList [])) result_ref_from_dict) (\<lambda>rs.
     Inr \<lparr>tk_id = task_id, tk_title = dict_get d ''title'', tk_description = dict_get d ''description'',
          tk_kind = dict_get d ''kind'', tk_status = dict_get d ''work_status'', tk_depends = deps,
          tk_clarifications = clars, tk_criteria = crit, tk_next = dict_get d ''next_action'',
          tk_blocker = dict_get d ''blocker'', tk_order = dict_get d ''order'',
          tk_role = dict_get d ''accountable_role'', tk_phase = dict_get d ''work_phase'', tk_specs = specs,
          tk_scope = scope, tk_results = rs, tk_deliveries = deliveries\<rparr>))))))))"

record repo_plan =
  pl_version :: pyval
  pl_id :: pyval
  pl_title :: pyval
  pl_description :: pyval
  pl_lifecycle :: pyval
  pl_target :: pyval
  pl_specs :: "spec_ref list"
  pl_tasks :: "(string \<times> plan_task) list"
  pl_role :: pyval

definition plan_to_dict :: "repo_plan \<Rightarrow> pyval" where
  "plan_to_dict p = PDict (
     [(''schema_version'', pl_version p), (''id'', pl_id p), (''title'', pl_title p),
      (''description'', pl_description p), (''lifecycle'', pl_lifecycle p), (''default_target_ref'', pl_target p),
      (''spec_refs'', PList (map spec_ref_to_dict (pl_specs p))),
      (''tasks'', PDict (map (\<lambda>(k, t). (k, task_to_dict t)) (pl_tasks p)))] @
     unless_none ''accountable_role'' (pl_role p))"

text \<open>
  \<open>data[key]\<close> on the validated mapping: a missing key raises \<open>KeyError\<close>.
\<close>

definition subscript :: "(string \<times> pyval) list \<Rightarrow> string \<Rightarrow> plan_error + pyval" where
  "subscript d k = (case map_of d k of None \<Rightarrow> Inl (Key_Error k) | Some v \<Rightarrow> Inr v)"

definition tasks_from_dict :: "pyval \<Rightarrow> plan_error + (string \<times> plan_task) list" where
  "tasks_from_dict v =
     (case v of
        PDict ts \<Rightarrow> map_err (\<lambda>kv. bindr (task_from_dict (fst kv) (snd kv)) (\<lambda>t. Inr (fst kv, t))) ts
      | _ \<Rightarrow> Inl Attribute_Error)"

definition plan_from_dict :: "(real \<Rightarrow> string) \<Rightarrow> (pyval \<Rightarrow> string option) \<Rightarrow> pyval \<Rightarrow> plan_error + repo_plan" where
  "plan_from_dict fl schema_error v =
     bindr (validate_plan_dict fl schema_error (\<lambda>_. False) v) (\<lambda>_.
     (case v of
        PDict d \<Rightarrow>
          bindr (tasks_from_dict (get_default d ''tasks'' (PDict []))) (\<lambda>tasks.
          bindr (subscript d ''schema_version'') (\<lambda>version.
          bindr (subscript d ''id'') (\<lambda>i.
          bindr (subscript d ''title'') (\<lambda>title.
          bindr (subscript d ''description'') (\<lambda>description.
          bindr (subscript d ''lifecycle'') (\<lambda>lifecycle.
          bindr (subscript d ''default_target_ref'') (\<lambda>target.
          bindr (subscript d ''spec_refs'') (\<lambda>sr.
          bindr (list_of sr spec_ref_from_dict) (\<lambda>specs.
          Inr \<lparr>pl_version = version, pl_id = i, pl_title = title, pl_description = description,
               pl_lifecycle = lifecycle, pl_target = target, pl_specs = specs, pl_tasks = tasks,
               pl_role = dict_get d ''accountable_role''\<rparr>)))))))))
      | _ \<Rightarrow> Inl Attribute_Error))"

section \<open>Round trips of tasks and plans\<close>

definition wf_task :: "plan_task \<Rightarrow> bool" where
  "wf_task t \<longleftrightarrow> list_all (\<lambda>s. wf_revision (sp_revision s)) (tk_specs t) \<and>
     list_all (\<lambda>c. list_all (\<lambda>s. wf_revision (sp_revision s)) (cl_specs c)) (tk_clarifications t) \<and>
     list_all wf_result_ref (tk_results t) \<and> list_all (\<lambda>(_, x). list_all wf_result_ref (dl_results x)) (tk_deliveries t)"

lemma get_default_append:
  "get_default (xs @ ys) k w = (if k \<in> fst ` set xs then get_default xs k w else get_default ys k w)"
proof -
  have "k \<notin> fst ` set xs \<Longrightarrow> get_default (xs @ ys) k w = get_default ys k w" by (induction xs) auto
  moreover have "k \<in> fst ` set xs \<Longrightarrow> get_default (xs @ ys) k w = get_default xs k w" by (induction xs) force+
  ultimately show ?thesis by simp
qed

lemma dict_get_append:
  "dict_get (xs @ ys) k = (if k \<in> fst ` set xs then dict_get xs k else dict_get ys k)"
  using get_default_append [of xs ys k PNone] by (simp add: get_default_def dict_get_def)

lemma deliveries_inverse:
  "list_all (\<lambda>(_, x). list_all wf_result_ref (dl_results x)) ds \<Longrightarrow>
     map_err (named delivery_from_dict) (map (\<lambda>(k, v). (k, delivery_to_dict v)) ds) = Inr ds"
  by (induction ds) (auto simp: named_def delivery_roundtrip)

lemma optional_fields:
  "dict_get (unless_none k v) k' = (if k' = k then v else PNone)"
  "get_default (unless_none k v) k' w = (if k' = k \<and> v \<noteq> PNone then v else w)"
  "dict_get (unless_empty k f xs) k' = (if k' = k \<and> xs \<noteq> [] then PList (map f xs) else PNone)"
  "get_default (unless_empty k f xs) k' (PList []) = (if k' = k then PList (map f xs) else PList [])"
  "fst ` set (unless_none k v) = (if v = PNone then {} else {k})"
  "fst ` set (unless_empty k f xs) = (if xs = [] then {} else {k})"
  by (auto simp: unless_none_def unless_empty_def)

lemma base_keys: "fst ` set (task_base t) = task_required"
  by (simp add: task_base_def task_required_def)

lemma optional_keys: "fst ` set (task_optional t) \<subseteq> task_allowed"
proof -
  have "fst ` set (task_optional t) \<subseteq> {''order''} \<union> ({''accountable_role''} \<union> ({''work_phase''} \<union> ({''spec_refs''} \<union>
      ({''scope''} \<union> ({''results''} \<union> {''deliveries''})))))"
    unfolding task_optional_def set_append image_Un
    by (intro Un_mono) (simp_all add: optional_fields)
  then show ?thesis by (auto simp: task_allowed_def)
qed

lemma task_object: "require_object (task_to_dict t) task_required task_allowed = Inr (task_base t @ task_optional t)"
  using optional_keys [of t] base_keys [of t]
  by (auto simp: require_object_def task_to_dict_def task_allowed_def)

lemma base_fields:
  "k \<in> task_required \<Longrightarrow> dict_get (task_base t @ task_optional t) k = dict_get (task_base t) k"
  "k \<notin> task_required \<Longrightarrow> dict_get (task_base t @ task_optional t) k = dict_get (task_optional t) k"
  "k \<notin> task_required \<Longrightarrow> get_default (task_base t @ task_optional t) k w = get_default (task_optional t) k w"
  by (simp_all add: dict_get_append get_default_append base_keys)

lemma not_required: "k \<in> {''order'', ''accountable_role'', ''work_phase'', ''spec_refs'', ''scope'', ''results'', ''deliveries''}
    \<Longrightarrow> k \<notin> task_required"
  by (auto simp: task_required_def)

lemma optional_values:
  "dict_get (task_optional t) ''order'' = tk_order t"
  "dict_get (task_optional t) ''accountable_role'' = tk_role t"
  "dict_get (task_optional t) ''work_phase'' = tk_phase t"
  "get_default (task_optional t) ''spec_refs'' (PList []) = PList (map spec_ref_to_dict (tk_specs t))"
  "dict_get (task_optional t) ''scope'' = (case tk_scope t of None \<Rightarrow> PNone | Some s \<Rightarrow> scope_to_dict s)"
  "get_default (task_optional t) ''results'' (PList []) = PList (map result_ref_to_dict (tk_results t))"
  "get_default (task_optional t) ''deliveries'' (PDict []) =
     PDict (map (\<lambda>(k, v). (k, delivery_to_dict v)) (tk_deliveries t))"
  unfolding task_optional_def
  by (simp_all add: dict_get_append get_default_append optional_fields)

lemma task_roundtrip:
  assumes "wf_task t" shows "task_from_dict (tk_id t) (task_to_dict t) = Inr t"
proof -
  let ?d = "task_base t @ task_optional t"
  have req: "dict_get ?d ''title'' = tk_title t" "dict_get ?d ''description'' = tk_description t"
    "dict_get ?d ''kind'' = tk_kind t" "dict_get ?d ''work_status'' = tk_status t"
    "dict_get ?d ''depends_on'' = PList (map dependency_to_dict (tk_depends t))"
    "dict_get ?d ''clarifications'' = PList (map clarification_to_dict (tk_clarifications t))"
    "dict_get ?d ''acceptance_criteria'' = PList (tk_criteria t)" "dict_get ?d ''next_action'' = tk_next t"
    "dict_get ?d ''blocker'' = tk_blocker t"
    by (simp_all add: task_base_def)
  have scope: "(case dict_get ?d ''scope'' of PNone \<Rightarrow> Inr None | scope \<Rightarrow> bindr (scope_from_dict scope) (\<lambda>s. Inr (Some s))) =
      Inr (tk_scope t)"
    by (cases "tk_scope t")
      (simp_all add: base_fields(2) not_required optional_values scope_to_dict_def scope_roundtrip [unfolded scope_to_dict_def])
  have "list_of (PList (map spec_ref_to_dict (tk_specs t))) spec_ref_from_dict = Inr (tk_specs t)"
    "list_of (PList (map clarification_to_dict (tk_clarifications t))) clarification_from_dict = Inr (tk_clarifications t)"
    "list_of (PList (map result_ref_to_dict (tk_results t))) result_ref_from_dict = Inr (tk_results t)"
    "list_of (PList (map dependency_to_dict (tk_depends t))) dependency_from_dict = Inr (tk_depends t)"
    "map_err (named delivery_from_dict) (map (\<lambda>(k, v). (k, delivery_to_dict v)) (tk_deliveries t)) = Inr (tk_deliveries t)"
    using assms
    by (auto simp: wf_task_def list_all_iff spec_ref_roundtrip clarification_roundtrip result_ref_roundtrip dependency_roundtrip
        intro!: list_of_inverse deliveries_inverse)
  then show ?thesis
    unfolding task_from_dict_def task_object bindr_simps scope req
    by (simp add: base_fields(2,3) not_required optional_values)
qed

definition wf_plan :: "repo_plan \<Rightarrow> bool" where
  "wf_plan p \<longleftrightarrow> list_all (\<lambda>s. wf_revision (sp_revision s)) (pl_specs p) \<and>
     list_all (\<lambda>(k, t). wf_task t \<and> tk_id t = k) (pl_tasks p)"

lemma tasks_inverse:
  "list_all (\<lambda>(k, t). wf_task t \<and> tk_id t = k) ts \<Longrightarrow>
     tasks_from_dict (PDict (map (\<lambda>(k, t). (k, task_to_dict t)) ts)) = Inr ts"
  unfolding tasks_from_dict_def by (induction ts) (auto simp: task_roundtrip)

lemma plan_roundtrip_core:
  assumes "wf_plan p" "validate_plan_dict fl schema_error (\<lambda>_. False) (plan_to_dict p) = Inr ()"
  shows "plan_from_dict fl schema_error (plan_to_dict p) = Inr p"
proof -
  have "tasks_from_dict (PDict (map (\<lambda>(k, t). (k, task_to_dict t)) (pl_tasks p))) = Inr (pl_tasks p)"
    "list_of (PList (map spec_ref_to_dict (pl_specs p))) spec_ref_from_dict = Inr (pl_specs p)"
    using assms(1) by (auto simp: wf_plan_def list_all_iff spec_ref_roundtrip intro!: tasks_inverse list_of_inverse)
  then show ?thesis
    unfolding plan_from_dict_def assms(2) unfolding plan_to_dict_def
    by (simp add: subscript_def optional_fields)
qed

section \<open>Properties\<close>

text \<open>
  \<open>from_dict\<close> reads back every plan \<open>to_dict\<close> writes, optional and empty fields included, provided the
  written data passes validation and the plan's references carry the fields of their kind.
\<close>

theorem plan_dict_roundtrip:
  assumes "wf_plan p" and "validate_plan_dict fl schema_error (\<lambda>_. False) (plan_to_dict p) = Inr ()"
  shows "plan_from_dict fl schema_error (plan_to_dict p) = Inr p"
  using assms by (rule plan_roundtrip_core)

definition demo_task_record :: plan_task where
  "demo_task_record = \<lparr>tk_id = ''task_1'', tk_title = PStr ''t'', tk_description = PStr [], tk_kind = PStr ''code'',
     tk_status = PStr ''planned'', tk_depends = [], tk_clarifications = [], tk_criteria = [PStr ''c''], tk_next = PStr [],
     tk_blocker = PNone, tk_order = PNone, tk_role = PStr ''dev'', tk_phase = PNone,
     tk_specs = [\<lparr>sp_path = PStr ''a'', sp_revision = \<lparr>rv_kind = PStr ''git_commit'', rv_commit = PStr ''0'', rv_sha = PNone\<rparr>\<rparr>],
     tk_scope = Some \<lparr>sc_paths = [PStr ''b'']\<rparr>, tk_results = [], tk_deliveries = []\<rparr>"

definition demo_plan_record :: repo_plan where
  "demo_plan_record = \<lparr>pl_version = PInt 1, pl_id = PStr ''plan_a'', pl_title = PStr ''t'', pl_description = PStr [],
     pl_lifecycle = PStr ''draft'', pl_target = PNone, pl_specs = [], pl_tasks = [(''task_1'', demo_task_record)], pl_role = PNone\<rparr>"

theorem plan_dict_roundtrip_witness:
  "plan_from_dict (\<lambda>_. ''0.5'') (\<lambda>_. None) (plan_to_dict demo_plan_record) = Inr demo_plan_record"
proof (rule plan_dict_roundtrip)
  show "wf_plan demo_plan_record" by code_simp
  have p: "plan_to_dict demo_plan_record = PDict [(''schema_version'', PInt 1), (''id'', PStr ''plan_a''), (''title'', PStr ''t''),
      (''description'', PStr []), (''lifecycle'', PStr ''draft''), (''default_target_ref'', PNone), (''spec_refs'', PList []),
      (''tasks'', PDict [(''task_1'', task_to_dict demo_task_record)])]" (is "_ = PDict ?d")
    by (simp add: plan_to_dict_def demo_plan_record_def unless_none_def)
  have parts: "bounded_json (\<lambda>_. ''0.5'') (plan_to_dict demo_plan_record) = Inr ()"
    "check_spec_refs (\<lambda>_. False) (plan_to_dict demo_plan_record) = Inr ()"
    "check_task (\<lambda>_. False) [''task_1''] (PStr ''plan_a'') (''task_1'', task_to_dict demo_task_record) = Inr ()"
    "detect_dependency_cycles [(''task_1'', task_to_dict demo_task_record)] (PStr ''plan_a'') = Inr ()"
    "match_or_raise plan_id_regex ''Invalid plan ID format'' (PStr ''plan_a'') = Inr ()"
    by (rule not_isl_unit, code_simp)+
  show "validate_plan_dict (\<lambda>_. ''0.5'') (\<lambda>_. None) (\<lambda>_. False) (plan_to_dict demo_plan_record) = Inr ()"
    using parts unfolding p by (simp add: validate_plan_dict_def equals_one_def max_plan_tasks_def)
qed

end
