(* ===== verification/Gpu_Reservation.thy ===== *)
theory Gpu_Reservation
  imports Hub_Prelude
begin

text \<open>
  The cross-process GPU reservation of \<open>external_gpu_reservation.py\<close>: a digest file that fences the
  GPU and a metadata file beside it that holds the lease.  Each operation runs under the sidecar
  lock.  Any file operation may fail: \<open>io\<close> says which calls of one operation raise \<open>OSError\<close>, a
  write of the fence after any number of bytes, so the theorems hold whatever fails.  The retries on a Windows sharing violation are left out.  A
  metadata text is kept as its decoded JSON; a record whose fields Python cannot even compare (an
  unhashable \<open>state\<close>, an integer beyond a float) is refused here where the code raises.
\<close>

section \<open>Files\<close>

record gpu_record =
  gp_generation :: string
  gp_digest :: string
  gp_owner :: string
  gp_state :: string
  gp_created :: seconds
  gp_updated :: seconds
  gp_expires :: seconds

text \<open>A fence file with its bytes (\<open>None\<close> when it cannot be read) and its modification time.\<close>

datatype fence_file = No_Fence | Fence "string option" seconds

datatype meta_file = No_Meta | Unreadable_Meta | Meta_Json pyval

text \<open>How \<open>_write_digest_exclusive\<close> ends: whole, not created, or failed after so many bytes.\<close>

datatype fence_write = Written | Not_Created | Torn nat

text \<open>\<open>io_make_temp\<close>: \<open>mkstemp\<close> fails, outside the \<open>try\<close> of the two functions that call it.\<close>

record gpu_io =
  io_unlink_fence :: bool
  io_unlink_meta :: bool
  io_write_fence :: fence_write
  io_make_temp :: bool
  io_write_meta :: bool
  io_append_audit :: bool
  io_write_marker :: bool

record gpu_event =
  ge_action :: string
  ge_generation :: string
  ge_owner :: string
  ge_reason :: string

record gpu_fs =
  gf_fence :: fence_file
  gf_meta :: meta_file
  gf_audit :: "gpu_event list"
  gf_marker :: "string option"

definition empty_gpu_fs :: gpu_fs where
  "empty_gpu_fs = \<lparr>gf_fence = No_Fence, gf_meta = No_Meta, gf_audit = [], gf_marker = None\<rparr>"

section \<open>Reading\<close>

definition hex_char :: "char \<Rightarrow> bool" where
  "hex_char c = (let n = of_char c :: nat in (48 \<le> n \<and> n \<le> 57) \<or> (97 \<le> n \<and> n \<le> 102))"

definition valid_digest :: "string \<Rightarrow> bool" where
  "valid_digest s \<longleftrightarrow> length s = 64 \<and> list_all hex_char s"

definition finite_time :: "pyval \<Rightarrow> seconds option" where
  "finite_time v = (case v of PInt i \<Rightarrow> Some (of_int i) | PFloat (Fin r) \<Rightarrow> Some r | _ \<Rightarrow> None)"

definition parse_record :: "pyval \<Rightarrow> gpu_record option" where
  "parse_record v =
     (case v of
        PDict d \<Rightarrow>
          (if \<not> equals_one (dict_get d ''schema_version'') then None
           else
             (case (dict_get d ''token_digest'', dict_get d ''generation'', dict_get d ''owner'', dict_get d ''state'') of
                (PStr dg, PStr gen, PStr ow, PStr st) \<Rightarrow>
                  if \<not> valid_digest dg \<or> gen = [] \<or> st \<notin> {''idle'', ''active''} then None
                  else
                    (case (finite_time (dict_get d ''created_at''), finite_time (dict_get d ''updated_at''),
                           finite_time (dict_get d ''expires_at'')) of
                       (Some c, Some u, Some e) \<Rightarrow>
                         Some \<lparr>gp_generation = gen, gp_digest = dg, gp_owner = ow, gp_state = st, gp_created = c,
                               gp_updated = u, gp_expires = e\<rparr>
                     | _ \<Rightarrow> None)
              | _ \<Rightarrow> None))
      | _ \<Rightarrow> None)"

definition record_json :: "gpu_record \<Rightarrow> pyval" where
  "record_json r = PDict [(''schema_version'', PInt 1), (''generation'', PStr (gp_generation r)),
     (''token_digest'', PStr (gp_digest r)), (''owner'', PStr (gp_owner r)), (''state'', PStr (gp_state r)),
     (''created_at'', PFloat (Fin (gp_created r))), (''updated_at'', PFloat (Fin (gp_updated r))),
     (''expires_at'', PFloat (Fin (gp_expires r)))]"

definition read_metadata :: "gpu_fs \<Rightarrow> gpu_record option" where
  "read_metadata fs = (case gf_meta fs of Meta_Json v \<Rightarrow> parse_record v | _ \<Rightarrow> None)"

definition gpu_read :: "gpu_fs \<Rightarrow> gpu_record option" where
  "gpu_read fs =
     (case read_metadata fs of
        None \<Rightarrow> None
      | Some r \<Rightarrow>
          (case gf_fence fs of
             Fence (Some digest) _ \<Rightarrow>
               if length digest \<le> 64 \<and> digest = gp_digest r \<and> valid_digest digest then Some r else None
           | _ \<Rightarrow> None))"

definition record_matches :: "gpu_record option \<Rightarrow> string \<Rightarrow> string \<Rightarrow> bool" where
  "record_matches rec digest gen =
     (case rec of None \<Rightarrow> False | Some r \<Rightarrow> gp_generation r = gen \<and> gp_digest r = digest)"

section \<open>Removing and writing\<close>

text \<open>\<open>_remove_unlocked\<close>: first the fence, then the metadata.\<close>

definition remove_record :: "gpu_io \<Rightarrow> string \<Rightarrow> gpu_fs \<Rightarrow> gpu_fs \<times> bool" where
  "remove_record io gen fs =
     (case gpu_read fs of
        None \<Rightarrow> (fs, False)
      | Some r \<Rightarrow>
          if gp_generation r \<noteq> gen then (fs, False)
          else if io_unlink_fence io then (fs, False)
          else if io_unlink_meta io then (fs\<lparr>gf_fence := No_Fence\<rparr>, False)
          else (fs\<lparr>gf_fence := No_Fence, gf_meta := No_Meta\<rparr>, True))"

text \<open>\<open>_write_digest_exclusive\<close>: \<open>open("xb")\<close> refuses an existing file; \<open>None\<close> is \<open>OSError\<close>.\<close>

definition write_fence :: "gpu_io \<Rightarrow> seconds \<Rightarrow> string \<Rightarrow> gpu_fs \<Rightarrow> gpu_fs \<times> bool" where
  "write_fence io now digest fs =
     (case gf_fence fs of
        Fence _ _ \<Rightarrow> (fs, False)
      | No_Fence \<Rightarrow>
          (case io_write_fence io of
             Written \<Rightarrow> (fs\<lparr>gf_fence := Fence (Some digest) now\<rparr>, True)
           | Not_Created \<Rightarrow> (fs, False)
           | Torn k \<Rightarrow> (fs\<lparr>gf_fence := Fence (Some (take k digest)) now\<rparr>, False)))"

text \<open>\<open>None\<close> is the \<open>OSError\<close> of \<open>mkstemp\<close>.\<close>

definition write_metadata :: "gpu_io \<Rightarrow> gpu_record \<Rightarrow> gpu_fs \<Rightarrow> gpu_fs \<times> bool option" where
  "write_metadata io r fs =
     (if io_make_temp io then (fs, None)
      else if io_write_meta io then (fs, Some False)
      else (fs\<lparr>gf_meta := Meta_Json (record_json r)\<rparr>, Some True))"

text \<open>\<open>_reap_expired_legacy_fence_unlocked\<close>: a digest alone, older than the lease time.\<close>

definition legacy_expired :: "seconds \<Rightarrow> seconds \<Rightarrow> gpu_fs \<Rightarrow> bool" where
  "legacy_expired ttl now fs =
     (gf_meta fs = No_Meta \<and>
      (case gf_fence fs of Fence (Some digest) mtime \<Rightarrow> valid_digest digest \<and> mtime + ttl \<le> now | _ \<Rightarrow> False))"

definition reap_legacy :: "gpu_io \<Rightarrow> seconds \<Rightarrow> seconds \<Rightarrow> gpu_fs \<Rightarrow> gpu_fs \<times> bool" where
  "reap_legacy io ttl now fs =
     (if \<not> legacy_expired ttl now fs then (fs, False)
      else if io_append_audit io then (fs, False)
      else
        (let fs' = fs\<lparr>gf_audit := gf_audit fs @ [\<lparr>ge_action = ''legacy_fence_expired'', ge_generation = [],
               ge_owner = ''unknown'', ge_reason = ''valid digest-only legacy fence exceeded the configured lease TTL''\<rparr>]\<rparr> in
         if io_unlink_fence io then (fs', False) else (fs'\<lparr>gf_fence := No_Fence\<rparr>, True)))"

definition gpu_reap_expired :: "gpu_io \<Rightarrow> seconds \<Rightarrow> seconds \<Rightarrow> gpu_fs \<Rightarrow> gpu_fs \<times> bool" where
  "gpu_reap_expired io ttl now fs =
     (case gpu_read fs of
        None \<Rightarrow> reap_legacy io ttl now fs
      | Some r \<Rightarrow> if now < gp_expires r then (fs, False) else remove_record io (gp_generation r) fs)"

section \<open>The operations\<close>

definition fence_exists :: "gpu_fs \<Rightarrow> bool" where
  "fence_exists fs \<longleftrightarrow> gf_fence fs \<noteq> No_Fence"

definition meta_exists :: "gpu_fs \<Rightarrow> bool" where
  "meta_exists fs \<longleftrightarrow> gf_meta fs \<noteq> No_Meta"

text \<open>\<open>claim_internal\<close>; \<open>now'\<close> is the time the file is written.  \<open>None\<close> is \<open>ValueError\<close>.\<close>

definition claim_internal :: "gpu_io \<Rightarrow> seconds \<Rightarrow> seconds \<Rightarrow> seconds \<Rightarrow> string \<Rightarrow> gpu_fs \<Rightarrow> gpu_fs \<times> bool option" where
  "claim_internal io ttl now now' digest fs =
     (if \<not> valid_digest digest then (fs, None)
      else
        (let fs1 = (case gpu_read fs of
                      Some r \<Rightarrow> if gp_expires r \<le> now then fst (remove_record io (gp_generation r) fs) else fs
                    | None \<Rightarrow> fst (reap_legacy io ttl now fs)) in
         if fence_exists fs1 \<or> meta_exists fs1 then (fs1, Some False)
         else (let (fs2, ok) = write_fence io now' digest fs1 in (fs2, Some ok))))"

definition release_internal :: "gpu_io \<Rightarrow> string \<Rightarrow> gpu_fs \<Rightarrow> gpu_fs \<times> bool option" where
  "release_internal io digest fs =
     (if \<not> valid_digest digest then (fs, None)
      else if meta_exists fs then (fs, Some False)
      else
        (case gf_fence fs of
           No_Fence \<Rightarrow> (fs, Some True)
         | Fence None _ \<Rightarrow> (fs, Some False)
         | Fence (Some current) _ \<Rightarrow>
             if current \<noteq> digest then (fs, Some False)
             else if io_unlink_fence io then (fs, Some False)
             else (fs\<lparr>gf_fence := No_Fence\<rparr>, Some True)))"

text \<open>
  \<open>reserve\<close>: the clock is read for the check, and again for the three times of the record.  \<open>None\<close> is
  \<open>ValueError\<close>, \<open>Some None\<close> a refusal.
\<close>

record gpu_clock =
  ck_check :: seconds
  ck_created :: seconds
  ck_updated :: seconds
  ck_expires :: seconds
  ck_mtime :: seconds

definition new_record :: "seconds \<Rightarrow> gpu_clock \<Rightarrow> string \<Rightarrow> string \<Rightarrow> string \<Rightarrow> gpu_record" where
  "new_record ttl ck gen digest owner =
     \<lparr>gp_generation = gen, gp_digest = digest, gp_owner = py_strip owner, gp_state = ''idle'',
      gp_created = ck_created ck, gp_updated = ck_updated ck, gp_expires = ck_expires ck + ttl\<rparr>"

definition gpu_reserve ::
  "gpu_io \<Rightarrow> seconds \<Rightarrow> gpu_clock \<Rightarrow> string \<Rightarrow> string \<Rightarrow> string \<Rightarrow> gpu_fs \<Rightarrow> gpu_fs \<times> gpu_record option option" where
  "gpu_reserve io ttl ck gen digest owner fs =
     (if \<not> valid_digest digest \<or> py_strip owner = [] \<or> 256 < length owner then (fs, None)
      else
        (let (fs1, cleared) =
           (case gpu_read fs of
              Some r \<Rightarrow> if ck_check ck < gp_expires r then (fs, False) else remove_record io (gp_generation r) fs
            | None \<Rightarrow> if fence_exists fs \<or> meta_exists fs then reap_legacy io ttl (ck_check ck) fs else (fs, True)) in
         if \<not> cleared then (fs1, Some None)
         else
           (let (fs2, fenced) = write_fence io (ck_mtime ck) digest fs1 in
            if \<not> fenced then (fs2, Some None)
            else
              (let (fs3, stored) = write_metadata io (new_record ttl ck gen digest owner) fs2 in
               if stored = Some True then (fs3, Some (Some (new_record ttl ck gen digest owner))) else (fs3, Some None)))))"

text \<open>\<open>None\<close> is \<open>ValueError\<close>, or the \<open>OSError\<close> of \<open>mkstemp\<close>.\<close>

definition gpu_renew :: "gpu_io \<Rightarrow> seconds \<Rightarrow> seconds \<Rightarrow> string \<Rightarrow> string \<Rightarrow> string \<Rightarrow> gpu_fs \<Rightarrow> gpu_fs \<times> bool option" where
  "gpu_renew io ttl now digest gen st fs =
     (if \<not> valid_digest digest then (fs, None)
      else if gen = [] \<or> st \<notin> {''idle'', ''active''} then (fs, Some False)
      else
        (case gpu_read fs of
           None \<Rightarrow> (fs, Some False)
         | Some r \<Rightarrow>
             if \<not> record_matches (Some r) digest gen then (fs, Some False)
             else write_metadata io (r\<lparr>gp_state := st, gp_updated := now, gp_expires := now + ttl\<rparr>) fs))"

definition gpu_release :: "gpu_io \<Rightarrow> string \<Rightarrow> string \<Rightarrow> gpu_fs \<Rightarrow> gpu_fs \<times> bool option" where
  "gpu_release io digest gen fs =
     (if \<not> valid_digest digest then (fs, None)
      else
        (case gpu_read fs of
           None \<Rightarrow> (fs, Some False)
         | Some r \<Rightarrow>
             if \<not> record_matches (Some r) digest gen \<or> gp_state r \<noteq> ''idle'' then (fs, Some False)
             else (let (fs', ok) = remove_record io gen fs in (fs', Some ok))))"

section \<open>Release by an operator\<close>

definition audit :: "gpu_io \<Rightarrow> gpu_event \<Rightarrow> gpu_fs \<Rightarrow> gpu_fs \<times> bool" where
  "audit io ev fs = (if io_append_audit io then (fs, False) else (fs\<lparr>gf_audit := gf_audit fs @ [ev]\<rparr>, True))"

definition write_marker :: "gpu_io \<Rightarrow> string \<Rightarrow> gpu_fs \<Rightarrow> gpu_fs \<times> bool option" where
  "write_marker io uid fs =
     (if io_make_temp io then (fs, None)
      else if io_write_marker io then (fs, Some False)
      else (fs\<lparr>gf_marker := Some uid\<rparr>, Some True))"

definition valid_reason :: "string \<Rightarrow> bool" where
  "valid_reason reason \<longleftrightarrow> py_strip reason \<noteq> [] \<and> length reason \<le> 1000"

definition event_of :: "string \<Rightarrow> gpu_record \<Rightarrow> string \<Rightarrow> gpu_event" where
  "event_of action r reason =
     \<lparr>ge_action = action, ge_generation = gp_generation r, ge_owner = gp_owner r, ge_reason = py_strip reason\<rparr>"

text \<open>\<open>dead\<close> is \<open>_owner_process_is_gone\<close>: whether the owner text names a process that is not alive.\<close>

definition release_with_consent ::
  "gpu_io \<Rightarrow> (string \<Rightarrow> bool) \<Rightarrow> seconds \<Rightarrow> string \<Rightarrow> bool \<Rightarrow> string \<Rightarrow> gpu_fs \<Rightarrow> gpu_fs \<times> bool" where
  "release_with_consent io dead now gen consent reason fs =
     (if \<not> consent \<or> gen = [] \<or> \<not> valid_reason reason then (fs, False)
      else
        (let (rec, orphan) =
           (case gpu_read fs of
              Some r \<Rightarrow> (Some r, False)
            | None \<Rightarrow> if fence_exists fs \<or> \<not> meta_exists fs then (None, False)
                      else (read_metadata fs, read_metadata fs \<noteq> None)) in
         case rec of
           None \<Rightarrow> (fs, False)
         | Some r \<Rightarrow>
             if gp_generation r \<noteq> gen then (fs, False)
             else
               (let expired = gp_expires r \<le> now; dead_owner = \<not> expired \<and> dead (gp_owner r) in
                if \<not> expired \<and> \<not> dead_owner then (fs, False)
                else
                  (let action = (if orphan then ''consented_release_recovery''
                                 else if dead_owner then ''consented_release_dead_owner'' else ''consented_release'');
                       (fs1, ok) = audit io (event_of action r reason) fs in
                   if \<not> ok then (fs1, False)
                   else if orphan then (if io_unlink_meta io then (fs1, False) else (fs1\<lparr>gf_meta := No_Meta\<rparr>, True))
                   else remove_record io gen fs1))))"

definition plain_event :: "string \<Rightarrow> string \<Rightarrow> gpu_event" where
  "plain_event action reason = \<lparr>ge_action = action, ge_generation = [], ge_owner = ''unknown'', ge_reason = py_strip reason\<rparr>"

text \<open>The audit line, then the marker; \<open>Some True\<close> when both were written, \<open>None\<close> when \<open>mkstemp\<close> raised.\<close>

definition audit_and_mark :: "gpu_io \<Rightarrow> string \<Rightarrow> gpu_event \<Rightarrow> gpu_fs \<Rightarrow> gpu_fs \<times> bool option" where
  "audit_and_mark io uid ev fs =
     (let (fs1, logged) = audit io ev fs in if \<not> logged then (fs1, Some False) else write_marker io uid fs1)"

text \<open>
  \<open>None\<close> is the \<open>OSError\<close> of \<open>mkstemp\<close>, which is caught where the metadata is an orphan or the fence has
  no metadata, and not in the other two cases.
\<close>

definition release_current_with_consent :: "gpu_io \<Rightarrow> string \<Rightarrow> bool \<Rightarrow> string \<Rightarrow> gpu_fs \<Rightarrow> gpu_fs \<times> bool option" where
  "release_current_with_consent io uid consent reason fs =
     (if \<not> consent \<or> \<not> valid_reason reason then (fs, Some False)
      else
        (case gpu_read fs of
           Some r \<Rightarrow>
             (let (fs1, ok) = audit_and_mark io uid (event_of ''consented_release_current_reservation'' r reason) fs in
              if ok \<noteq> Some True then (fs1, ok) else map_prod id Some (remove_record io (gp_generation r) fs1))
         | None \<Rightarrow>
             if \<not> fence_exists fs \<and> meta_exists fs then
               (case read_metadata fs of
                  None \<Rightarrow> (fs, Some False)
                | Some r \<Rightarrow>
                    (let (fs1, ok) = audit_and_mark io uid (event_of ''consented_release_orphaned_metadata'' r reason) fs in
                     if ok \<noteq> Some True then (fs1, Some False)
                     else if io_unlink_meta io then (fs1, Some False) else (fs1\<lparr>gf_meta := No_Meta\<rparr>, Some True)))
             else if meta_exists fs then (fs, Some False)
             else
               (case gf_fence fs of
                  No_Fence \<Rightarrow> audit_and_mark io uid (plain_event ''consented_release_no_current_reservation'' reason) fs
                | Fence content _ \<Rightarrow>
                    (case content of
                       None \<Rightarrow> (fs, Some False)
                     | Some digest \<Rightarrow>
                         if \<not> valid_digest digest then (fs, Some False)
                         else
                           (let (fs1, ok) = audit_and_mark io uid (plain_event ''consented_release_current_legacy_fence'' reason) fs in
                            if ok \<noteq> Some True then (fs1, Some False)
                            else if io_unlink_fence io then (fs1, Some False) else (fs1\<lparr>gf_fence := No_Fence\<rparr>, Some True))))))"

text \<open>
  \<open>keepalive\<close>: the renewals of its worker, one per tick with the faults and the time of each; the flag
  is the event \<open>lost\<close>, set by the first renewal that fails, after which the worker stops.
\<close>

fun keepalive_ticks :: "(gpu_io \<times> seconds) list \<Rightarrow> seconds \<Rightarrow> string \<Rightarrow> string \<Rightarrow> string \<Rightarrow> gpu_fs \<Rightarrow> gpu_fs \<times> bool" where
  "keepalive_ticks [] ttl digest gen st fs = (fs, False)"
| "keepalive_ticks ((io, now) # ticks) ttl digest gen st fs =
     (case gpu_renew io ttl now digest gen st fs of
        (fs', Some True) \<Rightarrow> keepalive_ticks ticks ttl digest gen st fs'
      | (fs', _) \<Rightarrow> (fs', True))"

section \<open>Operations as steps\<close>

datatype gpu_op =
    Op_Reap seconds
  | Op_Claim_Internal seconds seconds string
  | Op_Release_Internal string
  | Op_Reserve gpu_clock string string string
  | Op_Renew seconds string string string
  | Op_Release string string
  | Op_Consent seconds string bool string
  | Op_Consent_Current string bool string

fun gpu_exec :: "(string \<Rightarrow> bool) \<Rightarrow> seconds \<Rightarrow> gpu_fs \<Rightarrow> gpu_io \<times> gpu_op \<Rightarrow> gpu_fs" where
  "gpu_exec dead ttl fs (io, Op_Reap now) = fst (gpu_reap_expired io ttl now fs)"
| "gpu_exec dead ttl fs (io, Op_Claim_Internal now now' dg) = fst (claim_internal io ttl now now' dg fs)"
| "gpu_exec dead ttl fs (io, Op_Release_Internal dg) = fst (release_internal io dg fs)"
| "gpu_exec dead ttl fs (io, Op_Reserve ck gen dg ow) = fst (gpu_reserve io ttl ck gen dg ow fs)"
| "gpu_exec dead ttl fs (io, Op_Renew now dg gen st) = fst (gpu_renew io ttl now dg gen st fs)"
| "gpu_exec dead ttl fs (io, Op_Release dg gen) = fst (gpu_release io dg gen fs)"
| "gpu_exec dead ttl fs (io, Op_Consent now gen c reason) = fst (release_with_consent io dead now gen c reason fs)"
| "gpu_exec dead ttl fs (io, Op_Consent_Current uid c reason) = fst (release_current_with_consent io uid c reason fs)"

end
