(* ===== verification/Gpu_Lock.thy ===== *)
theory Gpu_Lock
  imports Gpu_Reservation
begin

text \<open>
  The lock that the reservation files implement.  Abstractly the GPU is free, held by a reservation,
  held by a bare digest (internal work, or a reservation whose metadata could not be written), closed
  by an orphaned record, or jammed by a fence of which only a beginning was written.  Every file
  operation, whatever fails inside it, is a sequence of steps of this lock, and no step leaves the
  jammed state.
\<close>

section \<open>The lock\<close>

datatype gpu_lock = Free | Bare string seconds | Held gpu_record | Orphan gpu_record | Jammed string seconds

text \<open>What may end a reservation: its holder when idle, its expiry, or an operator's consent.\<close>

fun may_end :: "(string \<Rightarrow> bool) \<Rightarrow> gpu_op \<Rightarrow> gpu_record \<Rightarrow> bool" where
  "may_end dead (Op_Reap now) r \<longleftrightarrow> gp_expires r \<le> now"
| "may_end dead (Op_Claim_Internal now _ _) r \<longleftrightarrow> gp_expires r \<le> now"
| "may_end dead (Op_Reserve ck _ _ _) r \<longleftrightarrow> gp_expires r \<le> ck_check ck"
| "may_end dead (Op_Release dg gen) r \<longleftrightarrow> dg = gp_digest r \<and> gen = gp_generation r \<and> gp_state r = ''idle''"
| "may_end dead (Op_Consent now gen c _) r \<longleftrightarrow> c \<and> gen = gp_generation r \<and> (gp_expires r \<le> now \<or> dead (gp_owner r))"
| "may_end dead (Op_Consent_Current _ c _) r \<longleftrightarrow> c"
| "may_end dead (Op_Release_Internal _) r \<longleftrightarrow> False"
| "may_end dead (Op_Renew _ _ _ _) r \<longleftrightarrow> False"

text \<open>What may remove a bare digest: its owner, its age, or an operator's consent.\<close>

fun may_clear :: "seconds \<Rightarrow> gpu_op \<Rightarrow> string \<Rightarrow> seconds \<Rightarrow> bool" where
  "may_clear ttl (Op_Reap now) dg m \<longleftrightarrow> m + ttl \<le> now"
| "may_clear ttl (Op_Claim_Internal now _ _) dg m \<longleftrightarrow> m + ttl \<le> now"
| "may_clear ttl (Op_Reserve ck _ _ _) dg m \<longleftrightarrow> m + ttl \<le> ck_check ck"
| "may_clear ttl (Op_Release_Internal dg') dg m \<longleftrightarrow> dg' = dg"
| "may_clear ttl (Op_Consent_Current _ c _) dg m \<longleftrightarrow> c"
| "may_clear ttl _ dg m \<longleftrightarrow> False"

inductive lock_step :: "(string \<Rightarrow> bool) \<Rightarrow> seconds \<Rightarrow> gpu_op \<Rightarrow> gpu_lock \<Rightarrow> gpu_lock \<Rightarrow> bool"
  for dead :: "string \<Rightarrow> bool" and ttl :: seconds where
  End: "may_end dead op r \<Longrightarrow> lock_step dead ttl op (Held r) Free"
| Half_End: "may_end dead op r \<Longrightarrow> lock_step dead ttl op (Held r) (Orphan r)"
| Recover: "may_end dead op r \<Longrightarrow> lock_step dead ttl op (Orphan r) Free"
| Clear: "may_clear ttl op dg m \<Longrightarrow> lock_step dead ttl op (Bare dg m) Free"
| Claim: "lock_step dead ttl (Op_Claim_Internal now now' dg) Free (Bare dg now')"
| Fence: "lock_step dead ttl (Op_Reserve ck gen dg ow) Free (Bare dg (ck_mtime ck))"
| Jam_Claim: "k < 64 \<Longrightarrow> lock_step dead ttl (Op_Claim_Internal now now' dg) Free (Jammed (take k dg) now')"
| Jam_Reserve: "k < 64 \<Longrightarrow> lock_step dead ttl (Op_Reserve ck gen dg ow) Free (Jammed (take k dg) (ck_mtime ck))"
| Take: "lock_step dead ttl (Op_Reserve ck gen dg ow) Free (Held (new_record ttl ck gen dg ow))"
| Renew: "gp_digest r = dg \<Longrightarrow> gp_generation r = gen \<Longrightarrow>
     lock_step dead ttl (Op_Renew now dg gen st) (Held r)
       (Held (r\<lparr>gp_state := st, gp_updated := now, gp_expires := now + ttl\<rparr>))"

inductive_cases lock_step_HeldE: "lock_step dead ttl op (Held r) L"
inductive_cases lock_step_FreeE: "lock_step dead ttl op Free L"
inductive_cases lock_step_JammedE: "lock_step dead ttl op (Jammed part m) L"

abbreviation "lock_steps dead ttl op \<equiv> (lock_step dead ttl op)\<^sup>*\<^sup>*"

section \<open>The files as a lock\<close>

definition wf_record :: "gpu_record \<Rightarrow> bool" where
  "wf_record r \<longleftrightarrow> valid_digest (gp_digest r) \<and> gp_generation r \<noteq> [] \<and> gp_state r \<in> {''idle'', ''active''}"

lemma parse_record_json [simp]: "parse_record (record_json r) = (if wf_record r then Some r else None)"
  by (cases r) (simp add: parse_record_def record_json_def dict_get_def equals_one_def finite_time_def wf_record_def)

lemma parse_record_wf: "parse_record v = Some r \<Longrightarrow> wf_record r"
  by (auto simp: parse_record_def wf_record_def split: pyval.splits if_splits option.splits)

text \<open>The relation between the files and the lock.\<close>

fun is_lock :: "gpu_fs \<Rightarrow> gpu_lock \<Rightarrow> bool" where
  "is_lock fs Free \<longleftrightarrow> gf_fence fs = No_Fence \<and> gf_meta fs = No_Meta"
| "is_lock fs (Bare dg m) \<longleftrightarrow> gf_fence fs = Fence (Some dg) m \<and> valid_digest dg \<and> gf_meta fs = No_Meta"
| "is_lock fs (Held r) \<longleftrightarrow> (\<exists>m. gf_fence fs = Fence (Some (gp_digest r)) m) \<and> gf_meta fs = Meta_Json (record_json r) \<and> wf_record r"
| "is_lock fs (Orphan r) \<longleftrightarrow> gf_fence fs = No_Fence \<and> gf_meta fs = Meta_Json (record_json r) \<and> wf_record r"
| "is_lock fs (Jammed part m) \<longleftrightarrow> gf_fence fs = Fence (Some part) m \<and> \<not> valid_digest part \<and> gf_meta fs = No_Meta"

lemma read_lock:
  "is_lock fs Free \<Longrightarrow> gpu_read fs = None" "is_lock fs (Bare dg m) \<Longrightarrow> gpu_read fs = None"
  "is_lock fs (Held r) \<Longrightarrow> gpu_read fs = Some r" "is_lock fs (Orphan r) \<Longrightarrow> gpu_read fs = None"
  "is_lock fs (Orphan r) \<Longrightarrow> read_metadata fs = Some r" "is_lock fs (Jammed part m) \<Longrightarrow> gpu_read fs = None"
  by (auto simp: gpu_read_def read_metadata_def wf_record_def valid_digest_def)

lemma lock_exists:
  "is_lock fs Free \<Longrightarrow> \<not> fence_exists fs \<and> \<not> meta_exists fs" "is_lock fs (Bare dg m) \<Longrightarrow> fence_exists fs \<and> \<not> meta_exists fs"
  "is_lock fs (Held r) \<Longrightarrow> fence_exists fs \<and> meta_exists fs" "is_lock fs (Orphan r) \<Longrightarrow> \<not> fence_exists fs \<and> meta_exists fs"
  "is_lock fs (Jammed part m) \<Longrightarrow> fence_exists fs \<and> \<not> meta_exists fs"
  by (auto simp: fence_exists_def meta_exists_def)

lemmas lock_facts = read_lock lock_exists

text \<open>A write of the fence into a free GPU, whichever way it ends.\<close>

lemma take_not_digest: "k < 64 \<Longrightarrow> \<not> valid_digest (take k dg)"
  by (auto simp: valid_digest_def)

lemma take_digest: "valid_digest dg \<Longrightarrow> \<not> k < 64 \<Longrightarrow> take k dg = dg"
  by (simp add: valid_digest_def)

lemma fence_written:
  assumes "is_lock fs Free" "valid_digest dg"
  obtains "fst (write_fence io m dg fs) = fs" "\<not> snd (write_fence io m dg fs)"
  | "is_lock (fst (write_fence io m dg fs)) (Bare dg m)"
  | k where "k < 64" "is_lock (fst (write_fence io m dg fs)) (Jammed (take k dg) m)" "\<not> snd (write_fence io m dg fs)"
proof (cases "io_write_fence io")
  case (Torn k)
  then show thesis
    using that(2) that(3) [of k] assms take_not_digest [of k dg] take_digest [of dg k]
    by (cases "k < 64") (auto simp: write_fence_def)
qed (use that assms in \<open>auto simp: write_fence_def\<close>)

text \<open>The generation that \<open>reserve\<close> draws is \<open>uuid4().hex\<close>, never empty.\<close>

fun fresh_op :: "gpu_op \<Rightarrow> bool" where
  "fresh_op (Op_Reserve ck gen dg ow) \<longleftrightarrow> gen \<noteq> []"
| "fresh_op _ \<longleftrightarrow> True"

lemma remove_record_lock:
  assumes "is_lock fs (Held r)"
  shows "\<exists>L. is_lock (fst (remove_record io (gp_generation r) fs)) L \<and> L \<in> {Held r, Free, Orphan r} \<and>
    (snd (remove_record io (gp_generation r) fs) \<longleftrightarrow> L = Free)"
proof -
  consider "io_unlink_fence io" | "\<not> io_unlink_fence io" "io_unlink_meta io" | "\<not> io_unlink_fence io" "\<not> io_unlink_meta io"
    by blast
  then show ?thesis
  proof cases
    case 1
    then show ?thesis using assms read_lock(3) [OF assms] by (intro exI [of _ "Held r"]) (simp add: remove_record_def)
  next
    case 2
    then show ?thesis using assms read_lock(3) [OF assms] by (intro exI [of _ "Orphan r"]) (simp add: remove_record_def)
  next
    case 3
    then show ?thesis using assms read_lock(3) [OF assms] by (intro exI [of _ Free]) (simp add: remove_record_def)
  qed
qed

lemma ended:
  assumes "is_lock fs (Held r)" "may_end dead op r"
  obtains L where "is_lock (fst (remove_record io (gp_generation r) fs)) L" "lock_steps dead ttl op (Held r) L"
    "snd (remove_record io (gp_generation r) fs) \<longleftrightarrow> L = Free"
  using remove_record_lock [OF assms(1), of io] assms(2)
  by (metis Half_End End insertE r_into_rtranclp rtranclp.rtrancl_refl singletonD)

lemma legacy_lock:
  "is_lock fs L \<Longrightarrow> legacy_expired ttl now fs \<longleftrightarrow> (\<exists>dg m. L = Bare dg m \<and> m + ttl \<le> now)"
  by (cases L) (auto simp: legacy_expired_def)

lemma reaped:
  assumes "is_lock fs L" "gpu_read fs = None" "\<And>dg m. m + ttl \<le> now \<Longrightarrow> may_clear ttl op dg m"
  obtains L' where "is_lock (fst (reap_legacy io ttl now fs)) L'" "lock_steps dead ttl op L L'"
    "snd (reap_legacy io ttl now fs) \<longrightarrow> L' = Free"
proof (cases "snd (reap_legacy io ttl now fs)")
  case True
  then have leg: "legacy_expired ttl now fs" and ok: "\<not> io_append_audit io" "\<not> io_unlink_fence io"
    by (auto simp: reap_legacy_def Let_def split: if_splits)
  obtain dg m where L: "L = Bare dg m" "m + ttl \<le> now" using leg legacy_lock [OF assms(1)] by blast
  have "is_lock (fst (reap_legacy io ttl now fs)) Free" using assms(1) leg ok L by (simp add: reap_legacy_def Let_def)
  moreover have "lock_steps dead ttl op L Free" unfolding L(1) by (intro r_into_rtranclp Clear assms(3) L(2))
  ultimately show thesis using that by blast
next
  case False
  have "gf_fence (fst (reap_legacy io ttl now fs)) = gf_fence fs \<and> gf_meta (fst (reap_legacy io ttl now fs)) = gf_meta fs"
    using False by (auto simp: reap_legacy_def Let_def split: if_splits)
  then have "is_lock (fst (reap_legacy io ttl now fs)) L" using assms(1) by (cases L) auto
  then show thesis using that False by blast
qed

section \<open>Each operation is a sequence of lock steps\<close>

abbreviation refines :: "(string \<Rightarrow> bool) \<Rightarrow> seconds \<Rightarrow> gpu_op \<Rightarrow> gpu_lock \<Rightarrow> gpu_fs \<Rightarrow> bool" where
  "refines dead ttl op L fs \<equiv> \<exists>L'. is_lock fs L' \<and> lock_steps dead ttl op L L'"

lemma refines_stay: "is_lock fs L \<Longrightarrow> refines dead ttl op L fs"
  by blast

lemma refines_one: "is_lock fs L' \<Longrightarrow> lock_step dead ttl op L L' \<Longrightarrow> refines dead ttl op L fs"
  by blast

lemma refines_after: "lock_steps dead ttl op L L1 \<Longrightarrow> refines dead ttl op L1 fs \<Longrightarrow> refines dead ttl op L fs"
  by (meson rtranclp_trans)

lemma refines_removed:
  assumes "is_lock fs (Held r)" "may_end dead op r"
  shows "refines dead ttl op (Held r) (fst (remove_record io (gp_generation r) fs))"
  using ended [OF assms] by metis

lemma refines_reaped:
  assumes "is_lock fs L" "gpu_read fs = None" "\<And>dg m. m + ttl \<le> now \<Longrightarrow> may_clear ttl op dg m"
  shows "refines dead ttl op L (fst (reap_legacy io ttl now fs))"
  using reaped [OF assms] by metis

lemma reap_refines:
  assumes "is_lock fs L" shows "refines dead ttl (Op_Reap now) L (fst (gpu_reap_expired io ttl now fs))"
proof (cases "\<exists>r. L = Held r")
  case True
  then obtain r where L: "L = Held r" by blast
  note h = assms [unfolded L]
  show ?thesis
  proof (cases "now < gp_expires r")
    case True
    then show ?thesis using h read_lock(3) [OF h] unfolding L by (intro refines_stay) (simp add: gpu_reap_expired_def)
  next
    case False
    then have "may_end dead (Op_Reap now) r" by simp
    from refines_removed [OF h this] show ?thesis
      using False read_lock(3) [OF h] unfolding L gpu_reap_expired_def by simp
  qed
next
  case False
  then have none: "gpu_read fs = None" using assms lock_facts by (cases L) auto
  have "refines dead ttl (Op_Reap now) L (fst (reap_legacy io ttl now fs))"
    by (rule refines_reaped [OF assms none]) simp
  then show ?thesis unfolding gpu_reap_expired_def none by simp
qed

lemma claim_refines:
  assumes "is_lock fs L" "valid_digest dg"
  shows "refines dead ttl (Op_Claim_Internal now now' dg) L (fst (claim_internal io ttl now now' dg fs))"
proof -
  let ?op = "Op_Claim_Internal now now' dg"
  define fs1 where "fs1 = (case gpu_read fs of
      Some r \<Rightarrow> if gp_expires r \<le> now then fst (remove_record io (gp_generation r) fs) else fs
    | None \<Rightarrow> fst (reap_legacy io ttl now fs))"
  have "\<exists>L1. is_lock fs1 L1 \<and> lock_steps dead ttl ?op L L1"
  proof (cases "\<exists>r. L = Held r")
    case True
    then obtain r where L: "L = Held r" by blast
    note h = assms(1) [unfolded L]
    show ?thesis
    proof (cases "gp_expires r \<le> now")
      case True
      then have "may_end dead ?op r" by simp
      from refines_removed [OF h this] show ?thesis using True read_lock(3) [OF h] unfolding L fs1_def by simp
    next
      case False
      then have "fs1 = fs" using read_lock(3) [OF h] by (simp add: fs1_def)
      then show ?thesis using assms(1) by (simp only:) (rule refines_stay)
    qed
  next
    case False
    then have none: "gpu_read fs = None" using assms(1) lock_facts by (cases L) auto
    have "refines dead ttl ?op L (fst (reap_legacy io ttl now fs))" by (rule refines_reaped [OF assms(1) none]) simp
    then show ?thesis unfolding fs1_def none by simp
  qed
  then obtain L1 where L1: "is_lock fs1 L1" "lock_steps dead ttl ?op L L1" by blast
  have run: "fst (claim_internal io ttl now now' dg fs) =
      (if fence_exists fs1 \<or> meta_exists fs1 then fs1 else fst (write_fence io now' dg fs1))"
    using assms(2) by (simp add: claim_internal_def fs1_def [symmetric] Let_def case_prod_beta)
  show ?thesis
  proof (cases "L1 = Free")
    case True
    note free = L1 [unfolded True]
    have out: "fst (claim_internal io ttl now now' dg fs) = fst (write_fence io now' dg fs1)"
      using lock_exists(1) [OF free(1)] unfolding run by simp
    from free(1) assms(2) have "refines dead ttl ?op Free (fst (write_fence io now' dg fs1))"
    proof (cases rule: fence_written [of _ _ io now'])
      case 1
      then show ?thesis using free(1) by (simp only:) (rule refines_stay)
    next
      case 2
      then show ?thesis by (rule refines_one) (rule Claim)
    next
      case (3 k)
      show ?thesis by (rule refines_one [OF 3(2)]) (rule Jam_Claim [OF 3(1)])
    qed
    then show ?thesis unfolding out by (rule refines_after [OF free(2)])
  next
    case False
    then have "fst (claim_internal io ttl now now' dg fs) = fs1"
      using L1(1) lock_exists unfolding run by (cases L1) auto
    then show ?thesis using L1 by auto
  qed
qed

lemma reserve_refines:
  assumes "is_lock fs L" "gen \<noteq> []"
  shows "refines dead ttl (Op_Reserve ck gen dg ow) L (fst (gpu_reserve io ttl ck gen dg ow fs))"
proof (cases "\<not> valid_digest dg \<or> py_strip ow = [] \<or> 256 < length ow")
  case True
  then show ?thesis using assms(1) by (auto simp: gpu_reserve_def)
next
  case args: False
  let ?op = "Op_Reserve ck gen dg ow"
  define pre where "pre = (case gpu_read fs of
      Some r \<Rightarrow> if ck_check ck < gp_expires r then (fs, False) else remove_record io (gp_generation r) fs
    | None \<Rightarrow> if fence_exists fs \<or> meta_exists fs then reap_legacy io ttl (ck_check ck) fs else (fs, True))"
  have "\<exists>L1. is_lock (fst pre) L1 \<and> lock_steps dead ttl ?op L L1 \<and> (snd pre \<longrightarrow> L1 = Free)"
  proof (cases "\<exists>r. L = Held r")
    case True
    then obtain r where L: "L = Held r" by blast
    note h = assms(1) [unfolded L]
    show ?thesis
    proof (cases "ck_check ck < gp_expires r")
      case False
      then have "may_end dead ?op r" by simp
      then obtain L1 where "is_lock (fst (remove_record io (gp_generation r) fs)) L1" "lock_steps dead ttl ?op (Held r) L1"
        "snd (remove_record io (gp_generation r) fs) \<longleftrightarrow> L1 = Free"
        by (rule ended [OF h])
      then show ?thesis using False read_lock(3) [OF h] unfolding L pre_def by auto
    next
      case True
      then have "pre = (fs, False)" using read_lock(3) [OF h] by (simp add: pre_def)
      then show ?thesis using assms(1) by auto
    qed
  next
    case False
    then have none: "gpu_read fs = None" using assms(1) lock_facts by (cases L) auto
    show ?thesis
    proof (cases "fence_exists fs \<or> meta_exists fs")
      case True
      have age: "\<And>dg m. m + ttl \<le> ck_check ck \<Longrightarrow> may_clear ttl ?op dg m" by simp
      obtain L1 where "is_lock (fst (reap_legacy io ttl (ck_check ck) fs)) L1" "lock_steps dead ttl ?op L L1"
        "snd (reap_legacy io ttl (ck_check ck) fs) \<longrightarrow> L1 = Free"
        by (rule reaped [OF assms(1) none age])
      moreover have "pre = reap_legacy io ttl (ck_check ck) fs" using True unfolding pre_def none by simp
      ultimately show ?thesis by auto
    next
      case False
      then have "L = Free" using lock_exists assms(1) by (cases L) auto
      then show ?thesis using False assms(1) none by (auto simp: pre_def)
    qed
  qed
  then obtain L1 where L1: "is_lock (fst pre) L1" "lock_steps dead ttl ?op L L1" "snd pre \<longrightarrow> L1 = Free" by blast
  have run: "fst (gpu_reserve io ttl ck gen dg ow fs) =
      (if \<not> snd pre then fst pre
       else (let (fs2, fenced) = write_fence io (ck_mtime ck) dg (fst pre) in
             if \<not> fenced then fs2 else fst (write_metadata io (new_record ttl ck gen dg ow) fs2)))"
    using args by (simp add: gpu_reserve_def pre_def [symmetric] Let_def case_prod_beta)
  show ?thesis
  proof (cases "snd pre")
    case False
    then show ?thesis using L1 unfolding run by auto
  next
    case True
    then have free: "is_lock (fst pre) Free" "L1 = Free" using L1 by auto
    have wf: "wf_record (new_record ttl ck gen dg ow)" using args assms(2) by (simp add: wf_record_def new_record_def)
    let ?w = "write_fence io (ck_mtime ck) dg (fst pre)"
    have out: "fst (gpu_reserve io ttl ck gen dg ow fs) =
        (if snd ?w then fst (write_metadata io (new_record ttl ck gen dg ow) (fst ?w)) else fst ?w)"
      using True unfolding run by (simp add: Let_def case_prod_beta)
    have valid: "valid_digest dg" using args by simp
    from free(1) valid have "refines dead ttl ?op Free (fst (gpu_reserve io ttl ck gen dg ow fs))"
    proof (cases rule: fence_written [of _ _ io "ck_mtime ck"])
      case 1
      then show ?thesis using free(1) unfolding out by (simp add: refines_stay)
    next
      case 2
      show ?thesis
      proof (cases "snd ?w \<and> \<not> io_make_temp io \<and> \<not> io_write_meta io")
        case True
        then have "is_lock (fst (gpu_reserve io ttl ck gen dg ow fs)) (Held (new_record ttl ck gen dg ow))"
          using 2 wf unfolding out by (simp add: write_metadata_def) (simp add: new_record_def)
        then show ?thesis by (rule refines_one) (rule Take)
      next
        case False
        then have "fst (gpu_reserve io ttl ck gen dg ow fs) = fst ?w" unfolding out by (auto simp: write_metadata_def)
        then show ?thesis using 2 by (simp only:) (rule refines_one, assumption, rule Fence)
      qed
    next
      case (3 k)
      then have "is_lock (fst (gpu_reserve io ttl ck gen dg ow fs)) (Jammed (take k dg) (ck_mtime ck))"
        unfolding out by simp
      then show ?thesis by (rule refines_one) (rule Jam_Reserve [OF 3(1)])
    qed
    then show ?thesis using L1(2) free(2) by (auto intro: refines_after)
  qed
qed

lemma renew_refines:
  assumes "is_lock fs L"
  shows "refines dead ttl (Op_Renew now dg gen st) L (fst (gpu_renew io ttl now dg gen st fs))"
proof (cases "\<exists>r. L = Held r \<and> gp_digest r = dg \<and> gp_generation r = gen \<and> valid_digest dg \<and> gen \<noteq> [] \<and>
    st \<in> {''idle'', ''active''} \<and> \<not> io_make_temp io \<and> \<not> io_write_meta io")
  case True
  then obtain r where r: "L = Held r" "gp_digest r = dg" "gp_generation r = gen" "valid_digest dg" "gen \<noteq> []"
    "st \<in> {''idle'', ''active''}" "\<not> io_make_temp io" "\<not> io_write_meta io" by blast
  let ?r = "r\<lparr>gp_state := st, gp_updated := now, gp_expires := now + ttl\<rparr>"
  have "fst (gpu_renew io ttl now dg gen st fs) = fs\<lparr>gf_meta := Meta_Json (record_json ?r)\<rparr>"
    using assms r by (auto simp: gpu_renew_def read_lock(3) record_matches_def write_metadata_def Let_def)
  moreover have "is_lock (fs\<lparr>gf_meta := Meta_Json (record_json ?r)\<rparr>) (Held ?r)"
    using assms r by (auto simp: wf_record_def)
  ultimately have "is_lock (fst (gpu_renew io ttl now dg gen st fs)) (Held ?r)" by (simp only:)
  then show ?thesis unfolding r(1) by (rule refines_one) (rule Renew [OF r(2,3)])
next
  case False
  have "fst (gpu_renew io ttl now dg gen st fs) = fs"
  proof (cases "gpu_read fs")
    case (Some r)
    then have "L = Held r" using assms lock_facts by (cases L) auto
    then show ?thesis using False Some
      by (auto simp: gpu_renew_def record_matches_def write_metadata_def Let_def)
  qed (simp add: gpu_renew_def)
  then show ?thesis using assms by (simp only:) (rule refines_stay)
qed

lemma release_refines:
  assumes "is_lock fs L"
  shows "refines dead ttl (Op_Release dg gen) L (fst (gpu_release io dg gen fs))"
proof (cases "\<exists>r. L = Held r \<and> may_end dead (Op_Release dg gen) r \<and> valid_digest dg")
  case True
  then obtain r where r: "L = Held r" "may_end dead (Op_Release dg gen) r" "valid_digest dg" by blast
  note h = assms [unfolded r(1)]
  have "fst (gpu_release io dg gen fs) = fst (remove_record io (gp_generation r) fs)"
    using r(2,3) by (simp add: gpu_release_def read_lock(3) [OF h] record_matches_def Let_def case_prod_beta)
  then show ?thesis unfolding r(1) by (simp only:) (rule refines_removed [OF h r(2)])
next
  case False
  have "fst (gpu_release io dg gen fs) = fs"
  proof (cases "gpu_read fs")
    case (Some r)
    then have "L = Held r" using assms lock_facts by (cases L) auto
    then show ?thesis using False Some by (auto simp: gpu_release_def record_matches_def)
  qed (simp add: gpu_release_def)
  then show ?thesis using assms by (simp only:) (rule refines_stay)
qed

lemma release_internal_refines:
  assumes "is_lock fs L"
  shows "refines dead ttl (Op_Release_Internal dg) L (fst (release_internal io dg fs))"
proof (cases "(\<exists>m. L = Bare dg m) \<and> \<not> io_unlink_fence io")
  case True
  then obtain m where L: "L = Bare dg m" "\<not> io_unlink_fence io" by blast
  have "is_lock (fst (release_internal io dg fs)) Free"
    using L assms by (simp add: release_internal_def meta_exists_def)
  then show ?thesis unfolding L(1) by (rule refines_one) (rule Clear, simp)
next
  case False
  then have "fst (release_internal io dg fs) = fs"
    using assms by (cases L) (auto simp: release_internal_def meta_exists_def)
  then show ?thesis using assms by (simp only:) (rule refines_stay)
qed

lemma is_lock_audit [simp]: "is_lock (fst (audit io ev fs)) L \<longleftrightarrow> is_lock fs L"
  by (cases L) (auto simp: audit_def)

lemma is_lock_mark [simp]: "is_lock (fst (audit_and_mark io uid ev fs)) L \<longleftrightarrow> is_lock fs L"
proof -
  have "is_lock (fst (write_marker io uid fs')) L \<longleftrightarrow> is_lock fs' L" for fs'
    by (cases L) (auto simp: write_marker_def)
  then show ?thesis by (auto simp: audit_and_mark_def Let_def case_prod_beta)
qed

lemma unlink_orphan:
  "is_lock fs (Orphan r) \<Longrightarrow> is_lock (fs\<lparr>gf_meta := No_Meta\<rparr>) Free"
  by simp

lemma consent_refines:
  assumes "is_lock fs L"
  shows "refines dead ttl (Op_Consent now gen c reason) L (fst (release_with_consent io dead now gen c reason fs))"
proof (cases "c \<and> gen \<noteq> [] \<and> valid_reason reason")
  case False
  then show ?thesis using assms by (auto simp: release_with_consent_def)
next
  case True
  let ?op = "Op_Consent now gen c reason"
  show ?thesis
  proof (cases L)
    case (Held r)
    note h = assms [unfolded Held]
    show ?thesis
    proof (cases "may_end dead ?op r")
      case end_ok: True
      have aud: "is_lock (fst (audit io ev fs)) (Held r)" for ev using h by (simp only: is_lock_audit)
      have gen: "gp_generation r = gen" using end_ok by simp
      have "\<exists>ev. fst (release_with_consent io dead now gen c reason fs) \<in>
          {fst (audit io ev fs), fst (remove_record io (gp_generation r) (fst (audit io ev fs)))}"
        using True end_ok read_lock(3) [OF h] gen
        by (auto simp: release_with_consent_def Let_def case_prod_beta)
      then obtain ev where "fst (release_with_consent io dead now gen c reason fs) = fst (audit io ev fs) \<or>
          fst (release_with_consent io dead now gen c reason fs) =
            fst (remove_record io (gp_generation r) (fst (audit io ev fs)))" by blast
      then show ?thesis
      proof
        assume eq: "fst (release_with_consent io dead now gen c reason fs) = fst (audit io ev fs)"
        show ?thesis unfolding Held eq by (rule refines_stay [OF aud])
      next
        assume eq: "fst (release_with_consent io dead now gen c reason fs) =
            fst (remove_record io (gp_generation r) (fst (audit io ev fs)))"
        show ?thesis unfolding Held eq by (rule refines_removed [OF aud end_ok])
      qed
    next
      case False
      then have "fst (release_with_consent io dead now gen c reason fs) = fs"
        using True read_lock(3) [OF h] by (auto simp: release_with_consent_def Let_def)
      then show ?thesis using h unfolding Held by (simp only:) (rule refines_stay)
    qed
  next
    case (Orphan r)
    note h = assms [unfolded Orphan]
    have read: "gpu_read fs = None" "read_metadata fs = Some r" "\<not> fence_exists fs" "meta_exists fs"
      using read_lock(4,5) [OF h] lock_exists(4) [OF h] by simp_all
    show ?thesis
    proof (cases "may_end dead ?op r \<and> snd (audit io (event_of ''consented_release_recovery'' r reason) fs) \<and> \<not> io_unlink_meta io")
      case True': True
      let ?fs = "fst (audit io (event_of ''consented_release_recovery'' r reason) fs)"
      have run: "fst (release_with_consent io dead now gen c reason fs) = ?fs\<lparr>gf_meta := No_Meta\<rparr>"
        using True True' read by (auto simp: release_with_consent_def Let_def case_prod_beta)
      have "is_lock (?fs\<lparr>gf_meta := No_Meta\<rparr>) Free" using h by (intro unlink_orphan) (simp only: is_lock_audit)
      then show ?thesis unfolding run Orphan using True' by (intro refines_one [OF _ Recover]) simp_all
    next
      case False
      then have "fst (release_with_consent io dead now gen c reason fs) \<in>
          {fs, fst (audit io (event_of ''consented_release_recovery'' r reason) fs)}"
        using True read by (auto simp: release_with_consent_def Let_def case_prod_beta)
      then have "is_lock (fst (release_with_consent io dead now gen c reason fs)) (Orphan r)"
        using h by (metis insertE is_lock_audit singletonD)
      then show ?thesis unfolding Orphan by (rule refines_stay)
    qed
  next
    case Free
    then have "fst (release_with_consent io dead now gen c reason fs) = fs"
      using assms read_lock(1) lock_exists(1) by (auto simp: release_with_consent_def Let_def)
    then show ?thesis using assms by (simp only:) (rule refines_stay)
  next
    case (Bare dg m)
    note h = assms [unfolded Bare]
    have "fst (release_with_consent io dead now gen c reason fs) = fs"
      using read_lock(2) [OF h] lock_exists(2) [OF h] by (auto simp: release_with_consent_def Let_def)
    then show ?thesis using assms by (simp only:) (rule refines_stay)
  next
    case (Jammed part m)
    note h = assms [unfolded Jammed]
    have "fst (release_with_consent io dead now gen c reason fs) = fs"
      using read_lock(6) [OF h] lock_exists(5) [OF h] by (auto simp: release_with_consent_def Let_def)
    then show ?thesis using assms by (simp only:) (rule refines_stay)
  qed
qed

lemma current_refines:
  assumes "is_lock fs L"
  shows "refines dead ttl (Op_Consent_Current uid c reason) L (fst (release_current_with_consent io uid c reason fs))"
proof (cases "c \<and> valid_reason reason")
  case False
  then have "fst (release_current_with_consent io uid c reason fs) = fs"
    by (auto simp: release_current_with_consent_def)
  then show ?thesis using assms by (simp only:) (rule refines_stay)
next
  case ok: True
  let ?op = "Op_Consent_Current uid c reason"
  let ?out = "fst (release_current_with_consent io uid c reason fs)"
  have c: "may_end dead ?op r" for r using ok by simp
  show ?thesis
  proof (cases L)
    case Free
    have "?out = fst (audit_and_mark io uid (plain_event ''consented_release_no_current_reservation'' reason) fs)"
      using ok assms [unfolded Free] read_lock(1) [OF assms [unfolded Free]] lock_exists(1) [OF assms [unfolded Free]]
      by (simp add: release_current_with_consent_def)
    then have "is_lock ?out L" using assms by (simp only: is_lock_mark)
    then show ?thesis by (rule refines_stay)
  next
    case (Held r)
    note h = assms [unfolded Held]
    let ?m = "audit_and_mark io uid (event_of ''consented_release_current_reservation'' r reason) fs"
    have m: "is_lock (fst ?m) (Held r)" using h by (simp only: is_lock_mark)
    have out: "?out = (if snd ?m = Some True then fst (remove_record io (gp_generation r) (fst ?m)) else fst ?m)"
      using ok by (simp add: release_current_with_consent_def read_lock(3) [OF h] Let_def case_prod_beta)
    show ?thesis
    proof (cases "snd ?m = Some True")
      case True
      show ?thesis unfolding out Held using True by (simp only: if_True simp_thms) (rule refines_removed [OF m c])
    next
      case False
      show ?thesis unfolding out Held using False by (simp only: if_False) (rule refines_stay [OF m])
    qed
  next
    case (Orphan r)
    note h = assms [unfolded Orphan]
    let ?m = "audit_and_mark io uid (event_of ''consented_release_orphaned_metadata'' r reason) fs"
    have m: "is_lock (fst ?m) (Orphan r)" using h by (simp only: is_lock_mark)
    have out: "?out = (if snd ?m = Some True \<and> \<not> io_unlink_meta io then (fst ?m)\<lparr>gf_meta := No_Meta\<rparr> else fst ?m)"
      using ok lock_exists(4) [OF h]
      by (simp add: release_current_with_consent_def read_lock(4,5) [OF h] Let_def case_prod_beta)
    show ?thesis
    proof (cases "snd ?m = Some True \<and> \<not> io_unlink_meta io")
      case True
      show ?thesis unfolding out Orphan using True
        by (simp only: if_True not_False_eq_True conj_absorb simp_thms) (rule refines_one [OF unlink_orphan [OF m] Recover [OF c]])
    next
      case False
      show ?thesis unfolding out Orphan using False by (simp only: if_False) (rule refines_stay [OF m])
    qed
  next
    case (Bare dg t)
    note h = assms [unfolded Bare]
    let ?m = "audit_and_mark io uid (plain_event ''consented_release_current_legacy_fence'' reason) fs"
    have m: "is_lock (fst ?m) (Bare dg t)" using h by (simp only: is_lock_mark)
    have out: "?out = (if snd ?m = Some True \<and> \<not> io_unlink_fence io then (fst ?m)\<lparr>gf_fence := No_Fence\<rparr> else fst ?m)"
      using ok h lock_exists(2) [OF h]
      by (simp add: release_current_with_consent_def read_lock(2) [OF h] Let_def case_prod_beta)
    show ?thesis
    proof (cases "snd ?m = Some True \<and> \<not> io_unlink_fence io")
      case True
      have free: "is_lock ((fst ?m)\<lparr>gf_fence := No_Fence\<rparr>) Free" using m by simp
      have "may_clear ttl ?op dg t" using ok by simp
      then show ?thesis unfolding out Bare using True by (simp only: if_True not_False_eq_True conj_absorb simp_thms) (rule refines_one [OF free Clear])
    next
      case False
      show ?thesis unfolding out Bare using False by (simp only: if_False) (rule refines_stay [OF m])
    qed
  next
    case (Jammed part t)
    note h = assms [unfolded Jammed]
    have "?out = fs"
      using h read_lock(6) [OF h] lock_exists(5) [OF h] by (simp add: release_current_with_consent_def)
    then show ?thesis using assms by (simp only:) (rule refines_stay)
  qed
qed

lemma claim_invalid: "\<not> valid_digest dg \<Longrightarrow> fst (claim_internal io ttl now now' dg fs) = fs"
  by (simp add: claim_internal_def)

lemma exec_refines:
  assumes "is_lock fs L" "fresh_op op"
  shows "refines dead ttl op L (gpu_exec dead ttl fs (io, op))"
proof (cases op)
  case (Op_Claim_Internal now now' dg)
  show ?thesis
  proof (cases "valid_digest dg")
    case True
    show ?thesis unfolding Op_Claim_Internal gpu_exec.simps by (rule claim_refines [OF assms(1) True])
  next
    case False
    show ?thesis unfolding Op_Claim_Internal gpu_exec.simps claim_invalid [OF False] by (rule refines_stay [OF assms(1)])
  qed
next
  case (Op_Reserve ck gen dg ow)
  have "gen \<noteq> []" using assms(2) Op_Reserve by simp
  then show ?thesis unfolding Op_Reserve gpu_exec.simps by (rule reserve_refines [OF assms(1)])
qed (simp_all only: gpu_exec.simps reap_refines [OF assms(1)] release_internal_refines [OF assms(1)]
      renew_refines [OF assms(1)] release_refines [OF assms(1)] consent_refines [OF assms(1)] current_refines [OF assms(1)])

section \<open>Runs\<close>

abbreviation gpu_run :: "(string \<Rightarrow> bool) \<Rightarrow> seconds \<Rightarrow> gpu_fs \<Rightarrow> (gpu_io \<times> gpu_op) list \<Rightarrow> gpu_fs" where
  "gpu_run dead ttl \<equiv> foldl (gpu_exec dead ttl)"

lemma run_is_lock:
  assumes "list_all (\<lambda>(io, op). fresh_op op) ops" "is_lock fs L"
  shows "\<exists>L'. is_lock (gpu_run dead ttl fs ops) L'"
  using assms
proof (induction ops arbitrary: fs L)
  case (Cons x ops)
  obtain io op where x: "x = (io, op)" by (cases x)
  then obtain L1 where "is_lock (gpu_exec dead ttl fs x) L1" using exec_refines [OF Cons.prems(2)] Cons.prems(1) by fastforce
  then show ?case using Cons.IH Cons.prems(1) by auto
qed auto

lemma empty_is_free: "is_lock empty_gpu_fs Free"
  by (simp add: empty_gpu_fs_def)


section \<open>A held reservation stays held\<close>

text \<open>Whether the operation may end the reservation that the files hold before it.\<close>

definition ends_now :: "(string \<Rightarrow> bool) \<Rightarrow> gpu_fs \<Rightarrow> gpu_op \<Rightarrow> bool" where
  "ends_now dead fs op = (case gpu_read fs of None \<Rightarrow> False | Some r \<Rightarrow> may_end dead op r)"

fun undisturbed :: "(string \<Rightarrow> bool) \<Rightarrow> seconds \<Rightarrow> gpu_fs \<Rightarrow> (gpu_io \<times> gpu_op) list \<Rightarrow> bool" where
  "undisturbed dead ttl fs [] \<longleftrightarrow> True"
| "undisturbed dead ttl fs (x # ops) \<longleftrightarrow> \<not> ends_now dead fs (snd x) \<and> undisturbed dead ttl (gpu_exec dead ttl fs x) ops"

definition same_hold :: "gpu_record \<Rightarrow> gpu_record \<Rightarrow> bool" where
  "same_hold r r' \<longleftrightarrow> gp_generation r' = gp_generation r \<and> gp_digest r' = gp_digest r \<and> gp_owner r' = gp_owner r"

lemma gpu_read_cong: "gf_fence fs' = gf_fence fs \<Longrightarrow> gf_meta fs' = gf_meta fs \<Longrightarrow> gpu_read fs' = gpu_read fs"
  by (simp only: gpu_read_def read_metadata_def)

lemma read_someD:
  assumes "gpu_read fs = Some r"
  obtains m where "gf_fence fs = Fence (Some (gp_digest r)) m" "wf_record r" "fence_exists fs" "meta_exists fs"
  using assms parse_record_wf
  by (auto simp: gpu_read_def read_metadata_def fence_exists_def meta_exists_def
      split: option.splits meta_file.splits fence_file.splits if_splits)

lemma gpu_read_audit [simp]: "gpu_read (fst (audit io ev fs)) = gpu_read fs"
  by (rule gpu_read_cong) (simp_all add: audit_def)

lemma gpu_read_mark [simp]: "gpu_read (fst (audit_and_mark io uid ev fs)) = gpu_read fs"
  by (rule gpu_read_cong) (auto simp: audit_and_mark_def audit_def write_marker_def Let_def case_prod_beta)

lemma read_renewed:
  assumes "gpu_read fs = Some r" "st \<in> {''idle'', ''active''}"
  shows "gpu_read (fs\<lparr>gf_meta := Meta_Json (record_json (r\<lparr>gp_state := st, gp_updated := u, gp_expires := e\<rparr>))\<rparr>) =
    Some (r\<lparr>gp_state := st, gp_updated := u, gp_expires := e\<rparr>)"
proof -
  obtain m where m: "gf_fence fs = Fence (Some (gp_digest r)) m" "wf_record r" using read_someD [OF assms(1)] by metis
  then have "wf_record (r\<lparr>gp_state := st, gp_updated := u, gp_expires := e\<rparr>)" using assms(2) by (auto simp: wf_record_def)
  then show ?thesis using m by (auto simp: gpu_read_def read_metadata_def wf_record_def valid_digest_def)
qed

lemma exec_keeps:
  assumes "gpu_read fs = Some r" "\<not> may_end dead op r"
  shows "\<exists>r'. gpu_read (gpu_exec dead ttl fs (io, op)) = Some r' \<and> same_hold r r'"
proof (cases op)
  case (Op_Renew now dg gen st)
  have "gpu_exec dead ttl fs (io, op) = fs \<or> (st \<in> {''idle'', ''active''} \<and> gpu_exec dead ttl fs (io, op) =
      fs\<lparr>gf_meta := Meta_Json (record_json (r\<lparr>gp_state := st, gp_updated := now, gp_expires := now + ttl\<rparr>))\<rparr>)"
    using assms(1) Op_Renew by (auto simp: gpu_renew_def write_metadata_def Let_def)
  then show ?thesis
  proof
    assume "gpu_exec dead ttl fs (io, op) = fs"
    then show ?thesis using assms(1) by (simp add: same_hold_def)
  next
    assume "st \<in> {''idle'', ''active''} \<and> gpu_exec dead ttl fs (io, op) =
        fs\<lparr>gf_meta := Meta_Json (record_json (r\<lparr>gp_state := st, gp_updated := now, gp_expires := now + ttl\<rparr>))\<rparr>"
    then have "gpu_read (gpu_exec dead ttl fs (io, op)) = Some (r\<lparr>gp_state := st, gp_updated := now, gp_expires := now + ttl\<rparr>)"
      using read_renewed [OF assms(1)] by simp
    then show ?thesis by (intro exI conjI) (assumption, simp add: same_hold_def)
  qed
next
  case (Op_Consent now gen c reason)
  have "gpu_exec dead ttl fs (io, op) = fs"
    using assms Op_Consent by (auto simp: release_with_consent_def Let_def)
  then show ?thesis using assms(1) by (simp add: same_hold_def)
next
  case (Op_Release_Internal dg)
  have "meta_exists fs" using read_someD [OF assms(1)] by metis
  then have "gpu_exec dead ttl fs (io, op) = fs" using Op_Release_Internal by (simp add: release_internal_def)
  then show ?thesis using assms(1) by (simp add: same_hold_def)
next
  case (Op_Claim_Internal now now' dg)
  have "fence_exists fs" using read_someD [OF assms(1)] by metis
  then have "gpu_exec dead ttl fs (io, op) = fs" using assms Op_Claim_Internal by (simp add: claim_internal_def Let_def)
  then show ?thesis using assms(1) by (simp add: same_hold_def)
next
  case (Op_Reap now)
  then have "gpu_exec dead ttl fs (io, op) = fs" using assms by (simp add: gpu_reap_expired_def)
  then show ?thesis using assms(1) by (simp add: same_hold_def)
next
  case (Op_Reserve ck gen dg ow)
  then have "gpu_exec dead ttl fs (io, op) = fs" using assms by (simp add: gpu_reserve_def)
  then show ?thesis using assms(1) by (simp add: same_hold_def)
next
  case (Op_Release dg gen)
  then have "gpu_exec dead ttl fs (io, op) = fs" using assms by (auto simp: gpu_release_def record_matches_def)
  then show ?thesis using assms(1) by (simp add: same_hold_def)
next
  case (Op_Consent_Current uid c reason)
  then have "gpu_exec dead ttl fs (io, op) = fs" using assms by (simp add: release_current_with_consent_def)
  then show ?thesis using assms(1) by (simp add: same_hold_def)
qed

lemma same_hold_trans: "same_hold a b \<Longrightarrow> same_hold b c \<Longrightarrow> same_hold a c"
  by (simp add: same_hold_def)

lemma run_keeps:
  assumes "gpu_read fs = Some r" "undisturbed dead ttl fs ops"
  shows "\<exists>r'. gpu_read (gpu_run dead ttl fs ops) = Some r' \<and> same_hold r r'"
  using assms
proof (induction ops arbitrary: fs r)
  case (Cons x ops)
  obtain io op where x: "x = (io, op)" by (cases x)
  have "\<not> may_end dead op r" using Cons.prems x by (simp add: ends_now_def)
  then obtain r1 where r1: "gpu_read (gpu_exec dead ttl fs x) = Some r1" "same_hold r r1"
    using exec_keeps [OF Cons.prems(1)] x by metis
  then show ?case using Cons.IH [OF r1(1)] Cons.prems(2) same_hold_trans by (auto simp: x)
qed (simp add: same_hold_def)

lemma claims_refused:
  assumes "gpu_read fs = Some r"
  shows "now < gp_expires r \<Longrightarrow> snd (claim_internal io ttl now now' dg fs) \<in> {None, Some False}"
    "ck_check ck < gp_expires r \<Longrightarrow> snd (gpu_reserve io ttl ck gen dg ow fs) \<in> {None, Some None}"
proof -
  have "fence_exists fs" using read_someD [OF assms] by metis
  then show "now < gp_expires r \<Longrightarrow> snd (claim_internal io ttl now now' dg fs) \<in> {None, Some False}"
    using assms by (simp add: claim_internal_def Let_def)
  show "ck_check ck < gp_expires r \<Longrightarrow> snd (gpu_reserve io ttl ck gen dg ow fs) \<in> {None, Some None}"
    using assms by (simp add: gpu_reserve_def)
qed

section \<open>Properties of the reservation\<close>

text \<open>
  C20. Whatever file call fails inside it, a fence written in part included, an operation on the
  reservation files of a lock state leaves files that are a lock state again, reached from the old one
  by steps of the lock: a reservation ends only when its holder releases it idle, when it has expired,
  or with an operator's consent; it is taken only from the free state, and so is the jammed state that
  a fence written in part leaves.
\<close>

theorem gpu_files_refine_lock:
  assumes "is_lock fs L" "fresh_op op"
  shows "\<exists>L'. is_lock (gpu_exec dead ttl fs (io, op)) L' \<and> (lock_step dead ttl op)\<^sup>*\<^sup>* L L'"
  by (rule exec_refines [OF assms])

definition ok_io :: gpu_io where
  "ok_io = \<lparr>io_unlink_fence = False, io_unlink_meta = False, io_write_fence = Written, io_make_temp = False, io_write_meta = False,
     io_append_audit = False, io_write_marker = False\<rparr>"

lemma ok_io_sel: "io_write_fence ok_io = Written" "\<not> io_make_temp ok_io" "\<not> io_write_meta ok_io"
  by (simp_all add: ok_io_def)

theorem gpu_files_refine_lock_witness:
  "\<exists>L'. is_lock (gpu_exec (\<lambda>_. False) 60 empty_gpu_fs
        (ok_io\<lparr>io_write_fence := Torn 10\<rparr>, Op_Claim_Internal 0 1 (replicate 64 CHR ''a''))) L' \<and>
    (lock_step (\<lambda>_. False) 60 (Op_Claim_Internal 0 1 (replicate 64 CHR ''a'')))\<^sup>*\<^sup>* Free L'"
  by (rule gpu_files_refine_lock [OF empty_is_free]) simp

text \<open>
  C19. A GPU reservation is exclusive.  From a state whose files hold it, whatever operations other
  processes run and whatever file calls fail in them, a torn fence included, as long as none of them
  is a release of it by its holder while idle, a removal at or after its expiry, or an operator's
  consent, the files still hold it for the same token, generation and owner; and until it expires
  every claim for internal work and every other reservation is refused.
\<close>

theorem gpu_reservation_exclusive:
  assumes "gpu_read fs = Some r" "undisturbed dead ttl fs ops"
  shows "\<exists>r'. gpu_read (gpu_run dead ttl fs ops) = Some r' \<and> same_hold r r' \<and>
    (now < gp_expires r' \<longrightarrow> snd (claim_internal io ttl now now' dg (gpu_run dead ttl fs ops)) \<in> {None, Some False}) \<and>
    (ck_check ck < gp_expires r' \<longrightarrow> snd (gpu_reserve io ttl ck gen dg ow (gpu_run dead ttl fs ops)) \<in> {None, Some None})"
proof -
  obtain r' where r': "gpu_read (gpu_run dead ttl fs ops) = Some r'" "same_hold r r'" using run_keeps [OF assms] by blast
  show ?thesis
  proof (intro exI conjI impI)
    show "snd (claim_internal io ttl now now' dg (gpu_run dead ttl fs ops)) \<in> {None, Some False}" if "now < gp_expires r'"
      by (rule claims_refused(1) [OF r'(1) that])
    show "snd (gpu_reserve io ttl ck gen dg ow (gpu_run dead ttl fs ops)) \<in> {None, Some None}" if "ck_check ck < gp_expires r'"
      by (rule claims_refused(2) [OF r'(1) that])
  qed (rule r')+
qed

definition ex_digest :: string where
  "ex_digest = replicate 64 CHR ''a''"

definition ex_record :: gpu_record where
  "ex_record = \<lparr>gp_generation = ''g1'', gp_digest = ex_digest, gp_owner = ''embedding:7:9'', gp_state = ''idle'',
     gp_created = 0, gp_updated = 0, gp_expires = 60\<rparr>"

definition ex_held :: gpu_fs where
  "ex_held = \<lparr>gf_fence = Fence (Some ex_digest) 0, gf_meta = Meta_Json (record_json ex_record), gf_audit = [], gf_marker = None\<rparr>"

lemma ex_digest_valid: "valid_digest ex_digest"
  by code_simp

lemma ex_held_lock: "is_lock ex_held (Held ex_record)"
  using ex_digest_valid by (simp add: ex_held_def ex_record_def wf_record_def)

lemmas ex_held_read = read_lock(3) [OF ex_held_lock]

theorem gpu_reservation_exclusive_witness:
  "\<exists>r'. gpu_read (gpu_run (\<lambda>_. False) 60 ex_held [(ok_io, Op_Reap 30), (ok_io, Op_Release_Internal ex_digest)]) = Some r' \<and>
    same_hold ex_record r'"
proof -
  have u: "undisturbed (\<lambda>_. False) 60 ex_held [(ok_io, Op_Reap 30), (ok_io, Op_Release_Internal ex_digest)]"
  proof -
    have "gpu_exec (\<lambda>_. False) 60 ex_held (ok_io, Op_Reap 30) = ex_held"
      using ex_held_read by (simp add: gpu_reap_expired_def ex_record_def)
    then show ?thesis using ex_held_read by (simp add: ends_now_def ex_record_def)
  qed
  show ?thesis using gpu_reservation_exclusive [OF ex_held_read u] by blast
qed

text \<open>The files are jammed: a fence that is no digest, and no metadata beside it.\<close>

definition jammed :: "gpu_fs \<Rightarrow> bool" where
  "jammed fs \<longleftrightarrow> gf_meta fs = No_Meta \<and> (\<exists>part m. gf_fence fs = Fence (Some part) m \<and> \<not> valid_digest part)"

lemma jammed_exec:
  assumes "jammed fs" shows "gpu_exec dead ttl fs (io, op) = fs"
proof -
  obtain part m where j: "gf_meta fs = No_Meta" "gf_fence fs = Fence (Some part) m" "\<not> valid_digest part"
    using assms by (auto simp: jammed_def)
  have n: "gpu_read fs = None" "fence_exists fs" "\<not> meta_exists fs" "\<not> legacy_expired t u fs" for t u
    using j by (simp_all add: gpu_read_def read_metadata_def fence_exists_def meta_exists_def legacy_expired_def)
  show ?thesis using j n
    by (cases op) (auto simp: gpu_reap_expired_def claim_internal_def reap_legacy_def release_internal_def gpu_reserve_def
        gpu_renew_def gpu_release_def release_with_consent_def release_current_with_consent_def Let_def)
qed

lemma jammed_run: "jammed fs \<Longrightarrow> gpu_run dead ttl fs ops = fs"
  by (induction ops) (auto simp: jammed_exec)

lemma jammed_closed:
  assumes "jammed fs" "valid_digest dg" "py_strip ow \<noteq> []" "length ow \<le> 256"
  shows "snd (claim_internal io ttl now now' dg fs) = Some False" "snd (gpu_reserve io ttl ck gen dg ow fs) = Some None"
    "snd (release_current_with_consent io uid c reason fs) = Some False"
proof -
  obtain part m where j: "gf_meta fs = No_Meta" "gf_fence fs = Fence (Some part) m" "\<not> valid_digest part"
    using assms(1) by (auto simp: jammed_def)
  have n: "gpu_read fs = None" "fence_exists fs" "\<not> meta_exists fs" "\<not> legacy_expired t u fs" for t u
    using j by (simp_all add: gpu_read_def read_metadata_def fence_exists_def meta_exists_def legacy_expired_def)
  show "snd (claim_internal io ttl now now' dg fs) = Some False" "snd (gpu_reserve io ttl ck gen dg ow fs) = Some None"
    "snd (release_current_with_consent io uid c reason fs) = Some False"
    using assms(2-4) j n
    by (auto simp: claim_internal_def reap_legacy_def gpu_reserve_def release_current_with_consent_def Let_def)
qed

text \<open>Only a fence written in part jams the files.\<close>

definition whole :: "gpu_io \<Rightarrow> bool" where
  "whole io \<longleftrightarrow> (\<forall>k. io_write_fence io = Torn k \<longrightarrow> \<not> k < 64)"

definition sound_fence :: "gpu_fs \<Rightarrow> bool" where
  "sound_fence fs \<longleftrightarrow> (\<forall>part m. gf_fence fs = Fence (Some part) m \<longrightarrow> valid_digest part)"

lemma sound_parts:
  assumes "sound_fence fs"
  shows "sound_fence (fst (remove_record io gen fs))" "sound_fence (fst (reap_legacy io ttl now fs))"
    "sound_fence (fst (write_metadata io r fs))" "sound_fence (fst (audit io ev fs))" "sound_fence (fst (write_marker io uid fs))"
    "sound_fence (fs\<lparr>gf_meta := mt\<rparr>)" "sound_fence (fs\<lparr>gf_fence := No_Fence\<rparr>)"
    "whole io \<Longrightarrow> valid_digest dg \<Longrightarrow> sound_fence (fst (write_fence io m dg fs))"
  using assms
  by (auto simp: sound_fence_def remove_record_def reap_legacy_def write_metadata_def audit_def write_marker_def Let_def
      write_fence_def whole_def take_digest split: option.splits fence_file.splits fence_write.splits)

lemma sound_mark: "sound_fence fs \<Longrightarrow> sound_fence (fst (audit_and_mark io uid ev fs))"
  by (simp add: audit_and_mark_def Let_def case_prod_beta sound_parts)

lemma sound_exec:
  assumes "sound_fence fs" "whole io"
  shows "sound_fence (gpu_exec dead ttl fs (io, op))"
proof (cases op)
  case (Op_Claim_Internal now now' dg)
  then show ?thesis using assms
    by (auto simp: claim_internal_def Let_def case_prod_beta sound_parts split: option.splits)
next
  case (Op_Reserve ck gen dg ow)
  then show ?thesis using assms
    by (auto simp: gpu_reserve_def Let_def case_prod_beta sound_parts split: option.splits)
next
  case (Op_Consent now gen c reason)
  then show ?thesis using assms
    by (auto simp: release_with_consent_def Let_def case_prod_beta sound_parts split: option.splits)
next
  case (Op_Consent_Current uid c reason)
  then show ?thesis using assms
    by (auto simp: release_current_with_consent_def Let_def case_prod_beta sound_parts sound_mark
        split: option.splits fence_file.splits)
qed (use assms in \<open>auto simp: gpu_reap_expired_def release_internal_def gpu_renew_def gpu_release_def Let_def case_prod_beta
      sound_parts split: option.splits fence_file.splits\<close>)

lemma sound_run: "sound_fence fs \<Longrightarrow> list_all (\<lambda>(io, op). whole io) ops \<Longrightarrow> sound_fence (gpu_run dead ttl fs ops)"
  by (induction ops arbitrary: fs) (auto simp: sound_exec)

text \<open>The operator's release of the current reservation, and the reservation after it.\<close>

lemma current_frees:
  assumes "is_lock fs L" "\<not> jammed fs" "valid_reason reason"
  shows "is_lock (fst (release_current_with_consent ok_io uid True reason fs)) Free"
  using assms
  by (cases L) (auto simp: jammed_def release_current_with_consent_def audit_and_mark_def audit_def write_marker_def remove_record_def
      ok_io_def Let_def fence_exists_def meta_exists_def read_metadata_def gpu_read_def wf_record_def valid_digest_def)

lemma reserve_free:
  assumes "is_lock fs Free" "valid_digest dg" "py_strip ow \<noteq> []" "length ow \<le> 256"
  shows "snd (gpu_reserve ok_io ttl ck gen dg ow fs) = Some (Some (new_record ttl ck gen dg ow))"
  using assms read_lock(1) [OF assms(1)] lock_exists(1) [OF assms(1)]
  by (auto simp: gpu_reserve_def write_fence_def write_metadata_def ok_io_def)

text \<open>
  C22. What a run can leave of the GPU.  However the runs of reservations, claims, renewals, releases and
  reaps ended, and whichever of their file calls failed: unless the files are jammed, one release of
  the current reservation with the operator's consent, when its own file calls succeed, clears what
  is left, orphaned metadata and bare digests included, and the next reservation is granted.  The files
  are jammed when a fence was written in part, and only then; nothing clears that: no operation
  changes the files any more, and every claim, reservation and operator release is refused.
\<close>

theorem gpu_recoverable:
  assumes "list_all (\<lambda>(io, op). fresh_op op) ops" "fs = gpu_run dead ttl empty_gpu_fs ops" "valid_reason reason"
    and "valid_digest dg" "py_strip ow \<noteq> []" "length ow \<le> 256"
  shows "(\<not> jammed fs \<longrightarrow>
        snd (gpu_reserve ok_io ttl ck gen dg ow (fst (release_current_with_consent ok_io uid True reason fs))) =
          Some (Some (new_record ttl ck gen dg ow))) \<and>
     (list_all (\<lambda>(io, op). whole io) ops \<longrightarrow> \<not> jammed fs) \<and>
     (jammed fs \<longrightarrow> gpu_run dead ttl fs later = fs \<and>
        snd (claim_internal io ttl now now' dg fs) = Some False \<and>
        snd (gpu_reserve io ttl ck gen dg ow fs) = Some None \<and>
        snd (release_current_with_consent io uid True reason fs) = Some False)"
proof (intro conjI impI)
  assume ok: "\<not> jammed fs"
  obtain L where "is_lock fs L" unfolding assms(2) using run_is_lock [OF assms(1) empty_is_free] by blast
  from current_frees [OF this ok assms(3)]
  show "snd (gpu_reserve ok_io ttl ck gen dg ow (fst (release_current_with_consent ok_io uid True reason fs))) =
      Some (Some (new_record ttl ck gen dg ow))"
    by (rule reserve_free) (rule assms(4,5,6))+
next
  assume "list_all (\<lambda>(io, op). whole io) ops"
  moreover have "sound_fence empty_gpu_fs" by (simp add: sound_fence_def empty_gpu_fs_def)
  ultimately have "sound_fence fs" unfolding assms(2) by (intro sound_run)
  then show "\<not> jammed fs" by (auto simp: jammed_def sound_fence_def)
next
  assume j: "jammed fs"
  show "gpu_run dead ttl fs later = fs" by (rule jammed_run [OF j])
  show "snd (claim_internal io ttl now now' dg fs) = Some False" "snd (gpu_reserve io ttl ck gen dg ow fs) = Some None"
    "snd (release_current_with_consent io uid True reason fs) = Some False"
    by (rule jammed_closed [OF j assms(4,5,6)])+
qed

definition ex_clock :: "seconds \<Rightarrow> gpu_clock" where
  "ex_clock t = \<lparr>ck_check = t, ck_created = t, ck_updated = t, ck_expires = t, ck_mtime = t\<rparr>"

text \<open>A reservation whose metadata is not written is recovered; one whose fence is torn jams the GPU.\<close>

theorem gpu_recoverable_witness:
  "snd (gpu_reserve ok_io 60 (ex_clock 5) ''g2'' ex_digest ''me''
      (fst (release_current_with_consent ok_io ''u'' True ''stuck''
        (gpu_run (\<lambda>_. False) 60 empty_gpu_fs
          [(ok_io\<lparr>io_write_meta := True\<rparr>, Op_Reserve (ex_clock 0) ''g1'' ex_digest ''you'')])))) =
     Some (Some (new_record 60 (ex_clock 5) ''g2'' ex_digest ''me'')) \<and>
   snd (release_current_with_consent ok_io ''u'' True ''stuck''
      (gpu_run (\<lambda>_. False) 60 empty_gpu_fs
        [(ok_io\<lparr>io_write_fence := Torn 10\<rparr>, Op_Claim_Internal 0 1 ex_digest)])) = Some False"
proof
  have args: "valid_reason ''stuck''" "valid_digest ex_digest" "py_strip ''me'' \<noteq> []" "length ''me'' \<le> 256"
    by (code_simp, rule ex_digest_valid, code_simp, simp)
  show "snd (gpu_reserve ok_io 60 (ex_clock 5) ''g2'' ex_digest ''me''
      (fst (release_current_with_consent ok_io ''u'' True ''stuck''
        (gpu_run (\<lambda>_. False) 60 empty_gpu_fs
          [(ok_io\<lparr>io_write_meta := True\<rparr>, Op_Reserve (ex_clock 0) ''g1'' ex_digest ''you'')])))) =
     Some (Some (new_record 60 (ex_clock 5) ''g2'' ex_digest ''me''))"
    using gpu_recoverable [OF _ refl args, of "[(ok_io\<lparr>io_write_meta := True\<rparr>, Op_Reserve (ex_clock 0) ''g1'' ex_digest ''you'')]"]
    by (auto simp: whole_def ok_io_def)
  let ?torn = "[(ok_io\<lparr>io_write_fence := Torn 10\<rparr>, Op_Claim_Internal 0 1 ex_digest)]"
  have "jammed (gpu_run (\<lambda>_. False) 60 empty_gpu_fs ?torn)"
    using ex_digest_valid take_not_digest [of 10 ex_digest]
    by (simp add: claim_internal_def empty_gpu_fs_def gpu_read_def read_metadata_def reap_legacy_def legacy_expired_def
        fence_exists_def meta_exists_def write_fence_def ok_io_def Let_def jammed_def)
  then show "snd (release_current_with_consent ok_io ''u'' True ''stuck'' (gpu_run (\<lambda>_. False) 60 empty_gpu_fs ?torn)) = Some False"
    using gpu_recoverable [OF _ refl args, of ?torn] by simp
qed

section \<open>Claims of internal work\<close>

text \<open>
  A claim of internal work is a bare digest with no expiry of its own, and nothing renews it: one
  lease time after it was made, another reservation takes the GPU although its owner never released.
\<close>

lemma reserve_expired_bare:
  assumes "is_lock fs (Bare dg m)" "m + ttl \<le> ck_check ck" "valid_digest dg'" "py_strip ow \<noteq> []" "length ow \<le> 256"
  shows "snd (gpu_reserve ok_io ttl ck gen dg' ow fs) = Some (Some (new_record ttl ck gen dg' ow))"
proof -
  have "snd (reap_legacy ok_io ttl (ck_check ck) fs)" "gf_fence (fst (reap_legacy ok_io ttl (ck_check ck) fs)) = No_Fence"
    using assms(2) legacy_lock [OF assms(1)] by (simp_all add: reap_legacy_def ok_io_def Let_def)
  then obtain fs1 where "reap_legacy ok_io ttl (ck_check ck) fs = (fs1, True)" "gf_fence fs1 = No_Fence"
    by (cases "reap_legacy ok_io ttl (ck_check ck) fs") auto
  then show ?thesis using assms(3-5) read_lock(2) [OF assms(1)] lock_exists(2) [OF assms(1)]
    by (simp add: gpu_reserve_def write_fence_def write_metadata_def ok_io_sel)
qed

lemma internal_claim_expires_under_holder:
  assumes "valid_digest dg" "valid_digest dg'" "py_strip ow \<noteq> []" "length ow \<le> 256" "now' + ttl \<le> ck_check ck"
  shows "snd (claim_internal ok_io ttl now now' dg empty_gpu_fs) = Some True \<and>
    snd (gpu_reserve ok_io ttl ck gen dg' ow (fst (claim_internal ok_io ttl now now' dg empty_gpu_fs))) =
      Some (Some (new_record ttl ck gen dg' ow))"
proof -
  have r: "claim_internal ok_io ttl now now' dg empty_gpu_fs =
      (empty_gpu_fs\<lparr>gf_fence := Fence (Some dg) now'\<rparr>, Some True)"
    using assms(1) by (simp add: claim_internal_def empty_gpu_fs_def gpu_read_def read_metadata_def reap_legacy_def
        legacy_expired_def fence_exists_def meta_exists_def write_fence_def ok_io_def Let_def)
  have "is_lock (empty_gpu_fs\<lparr>gf_fence := Fence (Some dg) now'\<rparr>) (Bare dg now')" using assms(1) by (simp add: empty_gpu_fs_def)
  from reserve_expired_bare [OF this assms(5,2,3,4)] show ?thesis unfolding r by simp
qed

end
