(* ===== verification/Pubsub_Limits.thy ===== *)
theory Pubsub_Limits
  imports Json_Text
begin

text \<open>
  The bounds of the process-local publish and subscribe service (\<open>pubsub_limits.py\<close>): names, and the
  bounded copy of a message.  The copy charges the bytes of the message as it goes, so an oversized
  message is refused before it is serialised; the theorems show that it accepts exactly the messages
  within the limits, returns them unchanged, and that what it charged is the length of the compact
  JSON text.  Values are trees, so the test for cycles never fires; tuples are lists.
\<close>

section \<open>Names\<close>

datatype name_error = Name_Too_Long | Name_Empty

definition bounded_name :: "bool \<Rightarrow> bool \<Rightarrow> string \<Rightarrow> name_error + string" where
  "bounded_name allow_empty strip value =
     (if 512 < length value \<or> nul \<in> set value then Inl Name_Too_Long
      else if py_strip value = [] \<and> \<not> allow_empty then Inl Name_Empty
      else Inr (if strip then py_strip value else value))"

section \<open>Compact JSON\<close>

text \<open>\<open>json.dumps(value, ensure_ascii=False, separators=(",", ":"))\<close>; \<open>fl\<close> is \<open>float.__repr__\<close>.\<close>

fun json_min :: "(real \<Rightarrow> string) \<Rightarrow> pyval \<Rightarrow> string" where
  "json_min fl PNone = ''null''"
| "json_min fl (PBool b) = (if b then ''true'' else ''false'')"
| "json_min fl (PInt i) = json_int i"
| "json_min fl (PFloat x) = (case x of Fin r \<Rightarrow> fl r | _ \<Rightarrow> [])"
| "json_min fl (PStr s) = json_string s"
| "json_min fl (PList vs) = ''['' @ join_str '','' (map (json_min fl) vs) @ '']''"
| "json_min fl (PDict d) =
     ''{'' @ join_str '','' (map (\<lambda>kv. json_string (fst kv) @ '':'' @ json_min fl (snd kv)) d) @ ''}''"

definition json_bytes :: "(real \<Rightarrow> string) \<Rightarrow> pyval \<Rightarrow> nat" where
  "json_bytes fl v = utf8_len (json_min fl v)"

lemma utf8_len_simps [simp]:
  "utf8_len [] = 0" "utf8_len (s @ t) = utf8_len s + utf8_len t"
  "utf8_len (c # s) = (if (of_char c :: nat) < 128 then 1 else 2) + utf8_len s"
  by (simp_all add: utf8_len_def)

lemma utf8_len_join: "utf8_len (join_str '','' ws) = sum_list (map utf8_len ws) + (length ws - 1)"
  by (induction "'',''" ws rule: join_str.induct) simp_all

lemma json_bytes_list:
  "json_bytes fl (PList vs) = 2 + (length vs - 1) + sum_list (map (json_bytes fl) vs)"
proof -
  have "map utf8_len (map (json_min fl) vs) = map (json_bytes fl) vs" by (simp add: json_bytes_def)
  then show ?thesis by (simp only: json_bytes_def [of fl "PList vs"] json_min.simps utf8_len_simps utf8_len_join length_map) simp
qed

lemma json_bytes_dict:
  "json_bytes fl (PDict d) =
     2 + (length d - 1) + sum_list (map (\<lambda>kv. json_bytes fl (PStr (fst kv)) + 1 + json_bytes fl (snd kv)) d)"
proof -
  have "map utf8_len (map (\<lambda>kv. json_string (fst kv) @ '':'' @ json_min fl (snd kv)) d) =
      map (\<lambda>kv. json_bytes fl (PStr (fst kv)) + 1 + json_bytes fl (snd kv)) d"
    by (simp add: json_bytes_def)
  then show ?thesis by (simp only: json_bytes_def [of fl "PDict d"] json_min.simps utf8_len_simps utf8_len_join length_map) simp
qed

section \<open>The bounded copy\<close>

lemma val_size_pos: "0 < val_size v"
  by (cases v) auto


datatype snap_error = Byte_Limit | Int_Size | Structure_Limit | Cyclic_Or_Wide | Float_Range

definition charge :: "nat \<Rightarrow> nat \<Rightarrow> nat \<Rightarrow> snap_error + nat" where
  "charge max_bytes amount used = (if max_bytes < used + amount then Inl Byte_Limit else Inr (used + amount))"

definition snap_scalar :: "(real \<Rightarrow> string) \<Rightarrow> nat \<Rightarrow> pyval \<Rightarrow> nat \<Rightarrow> snap_error + nat" where
  "snap_scalar fl max_bytes v used =
     (if (case v of PStr s \<Rightarrow> max_bytes < length s | _ \<Rightarrow> False) then Inl Byte_Limit
      else if (case v of PInt i \<Rightarrow> 2 ^ 4096 \<le> \<bar>i\<bar> | _ \<Rightarrow> False) then Inl Int_Size
      else if (case v of PFloat (Fin r) \<Rightarrow> False | PFloat _ \<Rightarrow> True | _ \<Rightarrow> False) then Inl Float_Range
      else charge max_bytes (json_bytes fl v) used)"

text \<open>The counters are the nodes and the bytes so far.\<close>

function (sequential)
  snap :: "(real \<Rightarrow> string) \<Rightarrow> nat \<Rightarrow> nat \<Rightarrow> pyval \<Rightarrow> nat \<times> nat \<Rightarrow> snap_error + pyval \<times> nat \<times> nat"
  and snap_list :: "(real \<Rightarrow> string) \<Rightarrow> nat \<Rightarrow> nat \<Rightarrow> pyval list \<Rightarrow> nat \<times> nat \<Rightarrow> snap_error + pyval list \<times> nat \<times> nat"
  and snap_dict :: "(real \<Rightarrow> string) \<Rightarrow> nat \<Rightarrow> nat \<Rightarrow> (string \<times> pyval) list \<Rightarrow> nat \<times> nat \<Rightarrow>
        snap_error + (string \<times> pyval) list \<times> nat \<times> nat"
where
  "snap fl mb depth v (nodes, used) =
     (if 4096 < nodes + 1 \<or> 32 < depth then Inl Structure_Limit
      else
        (case v of
           PList vs \<Rightarrow>
             if 4096 < length vs then Inl Cyclic_Or_Wide
             else bindr (charge mb (2 + (length vs - 1)) used) (\<lambda>used1.
                  bindr (snap_list fl mb (depth + 1) vs (nodes + 1, used1)) (\<lambda>(ws, st). Inr (PList ws, st)))
         | PDict d \<Rightarrow>
             if 4096 < length d then Inl Cyclic_Or_Wide
             else bindr (charge mb (2 + (length d - 1)) used) (\<lambda>used1.
                  bindr (snap_dict fl mb (depth + 1) d (nodes + 1, used1)) (\<lambda>(ws, st). Inr (PDict ws, st)))
         | _ \<Rightarrow> bindr (snap_scalar fl mb v used) (\<lambda>used1. Inr (v, nodes + 1, used1))))"
| "snap_list fl mb depth [] st = Inr ([], st)"
| "snap_list fl mb depth (v # vs) st =
     bindr (snap fl mb depth v st) (\<lambda>(w, st1).
     bindr (snap_list fl mb depth vs st1) (\<lambda>(ws, st2). Inr (w # ws, st2)))"
| "snap_dict fl mb depth [] st = Inr ([], st)"
| "snap_dict fl mb depth ((k, v) # d) (nodes, used) =
     (if 4096 < nodes + 1 then Inl Structure_Limit
      else bindr (snap_scalar fl mb (PStr k) used) (\<lambda>used1.
           bindr (charge mb 1 used1) (\<lambda>used2.
           bindr (snap fl mb depth v (nodes + 1, used2)) (\<lambda>(w, st1).
           bindr (snap_dict fl mb depth d st1) (\<lambda>(ws, st2). Inr ((k, w) # ws, st2))))))"
  by pat_completeness auto
termination
  by (relation "measure (case_sum (\<lambda>(_, _, _, v, _). 2 * val_size v)
        (case_sum (\<lambda>(_, _, _, vs, _). 2 * sum_list (map val_size vs) + 1)
           (\<lambda>(_, _, _, d, _). 2 * sum_list (map (\<lambda>kv. val_size (snd kv)) d) + 1)))") (auto simp: val_size_pos)

definition snapshot_message :: "(real \<Rightarrow> string) \<Rightarrow> pyval \<Rightarrow> nat \<Rightarrow> snap_error + pyval \<times> nat" where
  "snapshot_message fl value max_bytes =
     bindr (snap fl max_bytes 0 value (0, 0)) (\<lambda>(w, nodes, used). Inr (w, used))"

section \<open>What the copy accepts\<close>

fun node_count :: "pyval \<Rightarrow> nat" where
  "node_count (PDict d) = Suc (sum_list (map (\<lambda>kv. Suc (node_count (snd kv))) d))"
| "node_count (PList vs) = Suc (sum_list (map node_count vs))"
| "node_count _ = 1"

text \<open>The numbers of a value can be written: integers of at most 4096 bits, finite floats.\<close>

fun numbers_ok :: "pyval \<Rightarrow> bool" where
  "numbers_ok (PDict d) = list_all (\<lambda>kv. numbers_ok (snd kv)) d"
| "numbers_ok (PList vs) = list_all numbers_ok vs"
| "numbers_ok (PInt i) = (\<bar>i\<bar> < 2 ^ 4096)"
| "numbers_ok (PFloat x) = (case x of Fin _ \<Rightarrow> True | _ \<Rightarrow> False)"
| "numbers_ok _ = True"

definition list_depth :: "pyval list \<Rightarrow> nat" where
  "list_depth vs = foldr max (map py_depth vs) 0"

lemma list_depth_simps [simp]: "list_depth [] = 0" "list_depth (v # vs) = max (py_depth v) (list_depth vs)"
  by (simp_all add: list_depth_def)

lemma length_le_utf8: "length s \<le> utf8_len s"
  by (induction s) auto

lemma json_char_nonempty: "json_char c \<noteq> []"
  by (simp add: json_char_def Let_def)

lemma str_len_le: "length s \<le> json_bytes fl (PStr s)"
proof -
  have "length s \<le> length (concat (map json_char s))"
  proof (induction s)
    case (Cons c s)
    have "1 \<le> length (json_char c)" using json_char_nonempty [of c] by (cases "json_char c") auto
    then show ?case using Cons by simp
  qed simp
  also have "\<dots> \<le> utf8_len (concat (map json_char s))" by (rule length_le_utf8)
  finally show ?thesis by (simp add: json_bytes_def json_string_def)
qed

definition is_leaf :: "pyval \<Rightarrow> bool" where
  "is_leaf v = (case v of PList _ \<Rightarrow> False | PDict _ \<Rightarrow> False | _ \<Rightarrow> True)"

lemma snap_scalar_iff:
  assumes "is_leaf v"
  shows "snap_scalar fl mb v used = Inr u \<longleftrightarrow> numbers_ok v \<and> u = used + json_bytes fl v \<and> u \<le> mb"
proof (cases "\<exists>s. v = PStr s")
  case True
  then obtain s where v: "v = PStr s" by blast
  have "length s \<le> json_bytes fl v" unfolding v by (rule str_len_le)
  then show ?thesis by (auto simp: v snap_scalar_def charge_def)
next
  case False
  then show ?thesis using assms
    by (cases v) (auto simp: snap_scalar_def charge_def is_leaf_def not_less split: pyfloat.splits if_splits)
qed

text \<open>One value, a list of values and the entries of a dictionary, from given counters.\<close>

definition fits :: "nat \<Rightarrow> nat \<Rightarrow> nat \<Rightarrow> nat \<Rightarrow> bool" where
  "fits mb depth nodes bytes \<longleftrightarrow> nodes \<le> 4096 \<and> bytes \<le> mb \<and> depth \<le> 33"

definition entries_depth :: "(string \<times> pyval) list \<Rightarrow> nat" where
  "entries_depth d = list_depth (map snd d)"

definition entries_bytes :: "(real \<Rightarrow> string) \<Rightarrow> (string \<times> pyval) list \<Rightarrow> nat" where
  "entries_bytes fl d = sum_list (map (\<lambda>kv. json_bytes fl (PStr (fst kv)) + 1 + json_bytes fl (snd kv)) d)"

definition entries_nodes :: "(string \<times> pyval) list \<Rightarrow> nat" where
  "entries_nodes d = sum_list (map (\<lambda>kv. Suc (node_count (snd kv))) d)"

lemma entries_simps [simp]:
  "entries_depth [] = 0" "entries_depth (kv # d) = max (py_depth (snd kv)) (entries_depth d)"
  "entries_bytes fl [] = 0"
  "entries_bytes fl (kv # d) = json_bytes fl (PStr (fst kv)) + 1 + json_bytes fl (snd kv) + entries_bytes fl d"
  "entries_nodes [] = 0" "entries_nodes (kv # d) = Suc (node_count (snd kv)) + entries_nodes d"
  by (simp_all add: entries_depth_def entries_bytes_def entries_nodes_def)

lemma node_count_pos: "0 < node_count v"
  by (cases v) auto

lemma width_le_nodes: "length vs \<le> sum_list (map node_count vs)"
proof (induction vs)
  case (Cons v vs)
  then show ?case using node_count_pos [of v] by simp
qed simp

lemma entries_width: "length d \<le> entries_nodes d"
  by (induction d) auto

lemma py_depth_dict: "py_depth (PDict d) = Suc (entries_depth d)"
  by (simp add: entries_depth_def list_depth_def comp_def)

lemma py_depth_list: "py_depth (PList vs) = Suc (list_depth vs)"
  by (simp add: list_depth_def)

lemma leaf_simps: "is_leaf v \<Longrightarrow> node_count v = 1" "is_leaf v \<Longrightarrow> py_depth v = 1"
  by (cases v; simp add: is_leaf_def)+

lemma snap_leaf: "is_leaf v \<Longrightarrow> snap fl mb depth v (n, u) =
   (if 4096 < n + 1 \<or> 32 < depth then Inl Structure_Limit else bindr (snap_scalar fl mb v u) (\<lambda>u1. Inr (v, n + 1, u1)))"
  by (cases v) (simp_all add: is_leaf_def)

declare snap.simps [simp del]

lemma snap_accepts:
  "n \<le> 4096 \<Longrightarrow> u \<le> mb \<Longrightarrow> snap fl mb depth v (n, u) = Inr r \<longleftrightarrow>
     r = (v, n + node_count v, u + json_bytes fl v) \<and> numbers_ok v \<and>
     fits mb (depth + py_depth v) (n + node_count v) (u + json_bytes fl v)"
  "n \<le> 4096 \<Longrightarrow> u \<le> mb \<Longrightarrow> depth \<le> 33 \<Longrightarrow> snap_list fl mb depth vs (n, u) = Inr rs \<longleftrightarrow>
     rs = (vs, n + sum_list (map node_count vs), u + sum_list (map (json_bytes fl) vs)) \<and> list_all numbers_ok vs \<and>
     fits mb (depth + list_depth vs) (n + sum_list (map node_count vs)) (u + sum_list (map (json_bytes fl) vs))"
  "n \<le> 4096 \<Longrightarrow> u \<le> mb \<Longrightarrow> depth \<le> 33 \<Longrightarrow> snap_dict fl mb depth d (n, u) = Inr rd \<longleftrightarrow>
     rd = (d, n + entries_nodes d, u + entries_bytes fl d) \<and> list_all (\<lambda>kv. numbers_ok (snd kv)) d \<and>
     fits mb (depth + entries_depth d) (n + entries_nodes d) (u + entries_bytes fl d)"
proof (induction fl mb depth v "(n, u)" and fl mb depth vs "(n, u)" and fl mb depth d "(n, u)"
    arbitrary: n u r and n u rs and n u rd rule: snap_snap_list_snap_dict.induct)
  case (1 fl mb depth v n u)
  show ?case
  proof (cases "4096 < n + 1 \<or> 32 < depth")
    case True
    then show ?thesis using node_count_pos [of v] py_depth_children [of v] by (auto simp: fits_def snap.simps)
  next
    case False
    consider vs where "v = PList vs" | d where "v = PDict d" | "is_leaf v" by (cases v) (auto simp: is_leaf_def)
    then show ?thesis
    proof cases
      case 1
      let ?u = "u + (2 + (length vs - 1))"
      have step: "snap fl mb depth (PList vs) (n, u) = (if 4096 < length vs then Inl Cyclic_Or_Wide
          else if mb < ?u then Inl Byte_Limit
          else bindr (snap_list fl mb (depth + 1) vs (n + 1, ?u)) (\<lambda>(ws, st). Inr (PList ws, st)))"
        using False 1 by (simp add: charge_def snap.simps)
      have rec: "snap_list fl mb (depth + 1) vs (n + 1, ?u) = Inr (ws, st) \<longleftrightarrow>
          (ws, st) = (vs, n + 1 + sum_list (map node_count vs), ?u + sum_list (map (json_bytes fl) vs)) \<and>
          list_all numbers_ok vs \<and> fits mb (depth + 1 + list_depth vs) (n + 1 + sum_list (map node_count vs))
            (?u + sum_list (map (json_bytes fl) vs))" if "length vs \<le> 4096" "?u \<le> mb" for ws st
        by (rule "1.hyps"(1) [OF False 1]) (use that False in \<open>auto simp: charge_def\<close>)
      show ?thesis using width_le_nodes [of vs] rec unfolding 1 step json_bytes_list py_depth_list
        by (auto simp: fits_def)
    next
      case 2
      let ?u = "u + (2 + (length d - 1))"
      have step: "snap fl mb depth (PDict d) (n, u) = (if 4096 < length d then Inl Cyclic_Or_Wide
          else if mb < ?u then Inl Byte_Limit
          else bindr (snap_dict fl mb (depth + 1) d (n + 1, ?u)) (\<lambda>(ws, st). Inr (PDict ws, st)))"
        using False 2 by (simp add: charge_def snap.simps)
      have rec: "snap_dict fl mb (depth + 1) d (n + 1, ?u) = Inr (ws, st) \<longleftrightarrow>
          (ws, st) = (d, n + 1 + entries_nodes d, ?u + entries_bytes fl d) \<and> list_all (\<lambda>kv. numbers_ok (snd kv)) d \<and>
          fits mb (depth + 1 + entries_depth d) (n + 1 + entries_nodes d) (?u + entries_bytes fl d)"
        if "length d \<le> 4096" "?u \<le> mb" for ws st
        by (rule "1.hyps"(2) [OF False 2]) (use that False in \<open>auto simp: charge_def\<close>)
      have nodes: "node_count (PDict d) = Suc (entries_nodes d)" by (simp add: entries_nodes_def)
      have bytes: "json_bytes fl (PDict d) = 2 + (length d - 1) + entries_bytes fl d"
        by (simp only: json_bytes_dict entries_bytes_def)
      show ?thesis using entries_width [of d] rec unfolding 2 step nodes bytes py_depth_dict by (auto simp: fits_def)
    next
      case 3
      then show ?thesis using False unfolding snap_leaf [OF 3] by (auto simp: snap_scalar_iff leaf_simps fits_def)
    qed
  qed
next
  case (2 fl mb depth n u)
  then show ?case by (auto simp: fits_def)
next
  case (3 fl mb depth v vs n u)
  let ?n = "n + node_count v" and ?u = "u + json_bytes fl v"
  have head: "snap fl mb depth v (n, u) = Inr (w, st) \<longleftrightarrow> (w, st) = (v, ?n, ?u) \<and> numbers_ok v \<and>
      fits mb (depth + py_depth v) ?n ?u" for w st
    by (rule "3.hyps"(1)) (rule 3)+
  have tail: "snap_list fl mb depth vs (?n, ?u) = Inr (ws, st) \<longleftrightarrow>
      (ws, st) = (vs, ?n + sum_list (map node_count vs), ?u + sum_list (map (json_bytes fl) vs)) \<and> list_all numbers_ok vs \<and>
      fits mb (depth + list_depth vs) (?n + sum_list (map node_count vs)) (?u + sum_list (map (json_bytes fl) vs))"
    if "?n \<le> 4096" "?u \<le> mb" "snap fl mb depth v (n, u) = Inr (v, ?n, ?u)" for ws st
    by (rule "3.hyps"(2) [OF that(3) refl]) (use that 3 in auto)
  show ?case
  proof (cases "numbers_ok v \<and> fits mb (depth + py_depth v) ?n ?u")
    case True
    then have eq: "snap fl mb depth v (n, u) = Inr (v, ?n, ?u)" using head by blast
    have "?n \<le> 4096" "?u \<le> mb" using True by (simp_all add: fits_def)
    note rec = tail [OF this eq]
    show ?thesis using True by (auto simp: eq rec fits_def)
  next
    case False
    then obtain e where eq: "snap fl mb depth v (n, u) = Inl e"
      using head by (cases "snap fl mb depth v (n, u)") auto
    then show ?thesis using False by (auto simp: fits_def)
  qed
next
  case (4 fl mb depth n u)
  then show ?case by (auto simp: fits_def)
next
  case (5 fl mb depth k v d n u)
  let ?u1 = "u + json_bytes fl (PStr k)" and ?n = "n + 1 + node_count v"
  let ?u = "?u1 + 1 + json_bytes fl v"
  have key: "snap_scalar fl mb (PStr k) u = Inr x \<longleftrightarrow> x = ?u1 \<and> ?u1 \<le> mb" for x
    by (subst snap_scalar_iff) (auto simp: is_leaf_def)
  have head: "snap fl mb depth v (n + 1, ?u1 + 1) = Inr (w, st) \<longleftrightarrow> (w, st) = (v, ?n, ?u) \<and> numbers_ok v \<and>
      fits mb (depth + py_depth v) ?n ?u" if "n + 1 \<le> 4096" "?u1 + 1 \<le> mb" for w st
    by (rule "5.hyps"(1)) (use that 5 key in \<open>auto simp: charge_def\<close>)
  have tail: "snap_dict fl mb depth d (?n, ?u) = Inr (ws, st) \<longleftrightarrow>
      (ws, st) = (d, ?n + entries_nodes d, ?u + entries_bytes fl d) \<and> list_all (\<lambda>kv. numbers_ok (snd kv)) d \<and>
      fits mb (depth + entries_depth d) (?n + entries_nodes d) (?u + entries_bytes fl d)"
    if "?n \<le> 4096" "?u \<le> mb" "snap fl mb depth v (n + 1, ?u1 + 1) = Inr (v, ?n, ?u)" for ws st
    by (rule "5.hyps"(2) [OF _ _ _ that(3) refl]) (use that 5 key in \<open>auto simp: charge_def\<close>)
  show ?case
  proof (cases "n + 1 \<le> 4096 \<and> ?u1 + 1 \<le> mb")
    case start: True
    then have k: "snap_scalar fl mb (PStr k) u = Inr ?u1" "charge mb 1 ?u1 = Inr (?u1 + 1)"
      by (auto simp: key charge_def)
    have step: "snap_dict fl mb depth ((k, v) # d) (n, u) = bindr (snap fl mb depth v (n + 1, ?u1 + 1)) (\<lambda>(w, st1).
        bindr (snap_dict fl mb depth d st1) (\<lambda>(ws, st2). Inr ((k, w) # ws, st2)))"
      using start by (simp del: One_nat_def add: k)
    show ?thesis
    proof (cases "numbers_ok v \<and> fits mb (depth + py_depth v) ?n ?u")
      case True
      then have eq: "snap fl mb depth v (n + 1, ?u1 + 1) = Inr (v, ?n, ?u)" using head start by blast
      have "?n \<le> 4096" "?u \<le> mb" using True by (simp_all add: fits_def)
      note rec = tail [OF this eq]
      show ?thesis using True start unfolding step eq bindr_simps prod.case by (auto simp: rec [simplified] fits_def)
    next
      case False
      then obtain e where eq: "snap fl mb depth v (n + 1, ?u1 + 1) = Inl e"
        using head start by (cases "snap fl mb depth v (n + 1, ?u1 + 1)") auto
      then show ?thesis using False start unfolding step eq by (auto simp: fits_def)
    qed
  next
    case False
    then have "snap_dict fl mb depth ((k, v) # d) (n, u) \<noteq> Inr rd"
      by (auto simp: charge_def key)
    then show ?thesis using False node_count_pos [of v] by (auto simp: fits_def)
  qed
qed

lemma snapshot_iff:
  "snapshot_message fl v mb = Inr (w, bytes) \<longleftrightarrow>
     w = v \<and> bytes = json_bytes fl v \<and> bytes \<le> mb \<and> node_count v \<le> 4096 \<and> py_depth v \<le> 33 \<and> numbers_ok v"
  by (auto simp: snapshot_message_def snap_accepts(1) fits_def)

text \<open>
  The bounded copy of a message accepts exactly the values within the limits: at most 4096 nodes
  (dictionary keys count), at most 33 levels, integers of at most 4096 bits, finite floats and a
  compact JSON text of at most \<open>max_bytes\<close> bytes.  What it returns is the value itself with the exact
  number of bytes of that text.
\<close>

theorem snapshot_accepts_exactly:
  "(\<exists>w bytes. snapshot_message fl v mb = Inr (w, bytes)) = (json_bytes fl v \<le> mb \<and> node_count v \<le> 4096 \<and> py_depth v \<le> 33 \<and> numbers_ok v)
   \<and> snapshot_message fl v mb \<in> range Inl \<union> {Inr (v, utf8_len (json_min fl v))}"
proof
  show "(\<exists>w bytes. snapshot_message fl v mb = Inr (w, bytes)) = (json_bytes fl v \<le> mb \<and> node_count v \<le> 4096 \<and> py_depth v \<le> 33 \<and> numbers_ok v)"
    by (simp add: snapshot_iff)
  show "snapshot_message fl v mb \<in> range Inl \<union> {Inr (v, utf8_len (json_min fl v))}"
  proof (cases "snapshot_message fl v mb")
    case (Inr r)
    obtain w bytes where r: "r = (w, bytes)" by (cases r)
    show ?thesis using snapshot_iff [THEN iffD1, OF Inr [unfolded r]] by (auto simp: Inr r json_bytes_def)
  qed simp
qed

end
