(* ===== verification/Pubsub_Queue.thy ===== *)
theory Pubsub_Queue
  imports Pubsub_Limits "HOL-Library.Product_Lexorder" "HOL-Library.Sublist"
begin

text \<open>
  The bounded queue of one live subscriber (\<open>SwarmPubSub._enqueue\<close> of \<open>agent_events.py\<close>).  A full queue
  drops its oldest items and puts a marker in their place that counts what was lost and names the
  sequence numbers lost.  The theorems show that the account is exact through any number of
  overflows, markers dropped themselves included: nothing is lost silently.
\<close>

section \<open>Items\<close>

record pub_event =
  pe_id :: string
  pe_topic :: string
  pe_sender :: string
  pe_time :: seconds
  pe_payload :: pyval
  pe_seq :: "int option"

text \<open>The marker of kind \<open>pubsub.gap\<close>; its payload repeats the ranges and holds the lost count.\<close>

record gap_marker =
  gm_id :: string
  gm_topic :: string
  gm_time :: seconds
  gm_seq :: "int option"
  gm_ranges :: "(int \<times> int) list"
  gm_lost :: int

datatype q_item = Live pub_event | Gap gap_marker

record sub_queue =
  sq_max :: nat
  sq_items :: "q_item list"

section \<open>The ranges of a marker\<close>

fun item_topic :: "q_item \<Rightarrow> string" where
  "item_topic (Live e) = pe_topic e"
| "item_topic (Gap g) = gm_topic g"

fun item_intervals :: "q_item \<Rightarrow> (int \<times> int) list" where
  "item_intervals (Gap g) = gm_ranges g"
| "item_intervals (Live e) = (case pe_seq e of None \<Rightarrow> [] | Some s \<Rightarrow> [(s, s)])"

definition dict_append :: "(string \<times> 'a list) list \<Rightarrow> string \<Rightarrow> 'a \<Rightarrow> (string \<times> 'a list) list" where
  "dict_append d k x = dict_set d k ((case map_of d k of None \<Rightarrow> [] | Some xs \<Rightarrow> xs) @ [x])"

definition by_topic :: "q_item list \<Rightarrow> (string \<times> (int \<times> int) list) list" where
  "by_topic dropped =
     foldl (\<lambda>d item. foldl (\<lambda>d iv. dict_append d (item_topic item) iv) d (item_intervals item)) [] dropped"

text \<open>The merged intervals so far, the last one first.\<close>

fun merge_into :: "(int \<times> int) list \<Rightarrow> int \<times> int \<Rightarrow> (int \<times> int) list" where
  "merge_into [] (lo, hi) = [(lo, hi)]"
| "merge_into ((a, b) # merged) (lo, hi) = (if lo \<le> b + 1 then (a, max b hi) # merged else (lo, hi) # (a, b) # merged)"

definition merge_intervals :: "(int \<times> int) list \<Rightarrow> (int \<times> int) list" where
  "merge_intervals intervals = rev (foldl merge_into [] (sort intervals))"

definition sequence_gap_ranges :: "q_item list \<Rightarrow> (int \<times> int) list" where
  "sequence_gap_ranges dropped = concat (map (\<lambda>(topic, intervals). merge_intervals intervals) (by_topic dropped))"

section \<open>Putting a message\<close>

fun drop_oldest :: "nat \<Rightarrow> q_item list \<Rightarrow> q_item list \<times> q_item list" where
  "drop_oldest maxsize [] = ([], [])"
| "drop_oldest maxsize (x # xs) =
     (if maxsize < length (x # xs) + 2 then (let (dropped, rest) = drop_oldest maxsize xs in (x # dropped, rest))
      else ([], x # xs))"

fun item_lost :: "q_item \<Rightarrow> int" where
  "item_lost (Gap g) = gm_lost g"
| "item_lost (Live e) = 1"

definition gap_of :: "string \<Rightarrow> seconds \<Rightarrow> pub_event \<Rightarrow> q_item list \<Rightarrow> gap_marker" where
  "gap_of uid now message dropped =
     \<lparr>gm_id = ''gap_'' @ uid, gm_topic = pe_topic message, gm_time = now, gm_seq = pe_seq message,
      gm_ranges = sequence_gap_ranges dropped, gm_lost = sum_list (map item_lost dropped)\<rparr>"

definition enqueue :: "sub_queue \<Rightarrow> string \<times> seconds \<times> pub_event \<Rightarrow> sub_queue" where
  "enqueue q m =
     (case m of (uid, now, message) \<Rightarrow>
        if length (sq_items q) < sq_max q then q\<lparr>sq_items := sq_items q @ [Live message]\<rparr>
        else
          (let (dropped, rest) = drop_oldest (sq_max q) (sq_items q) in
           q\<lparr>sq_items := rest @ [Gap (gap_of uid now message dropped), Live message]\<rparr>))"

text \<open>\<open>q.get\<close> by the subscriber.\<close>

definition dequeue :: "sub_queue \<Rightarrow> (q_item \<times> sub_queue) option" where
  "dequeue q = (case sq_items q of [] \<Rightarrow> None | x # xs \<Rightarrow> Some (x, q\<lparr>sq_items := xs\<rparr>))"

section \<open>Exact ranges\<close>

definition range_seqs :: "(int \<times> int) list \<Rightarrow> int set" where
  "range_seqs rs = (\<Union>(a, b) \<in> set rs. {a..b})"

lemma range_seqs_simps [simp]:
  "range_seqs [] = {}" "range_seqs ((a, b) # rs) = {a..b} \<union> range_seqs rs"
  "range_seqs (rs @ ss) = range_seqs rs \<union> range_seqs ss" "range_seqs (rev rs) = range_seqs rs"
  by (auto simp: range_seqs_def)

lemma merge_into_seqs:
  assumes "\<forall>(a, b) \<in> set (take 1 acc). a \<le> lo"
  shows "range_seqs (merge_into acc (lo, hi)) = range_seqs acc \<union> {lo..hi} \<and>
    (\<forall>(a, b) \<in> set (take 1 (merge_into acc (lo, hi))). a \<le> lo)"
proof (cases acc)
  case (Cons x xs)
  then show ?thesis using assms by (cases x) auto
qed simp

lemma merge_fold_seqs:
  assumes "sorted ivs" "\<forall>(a, b) \<in> set (take 1 acc). \<forall>(lo, hi) \<in> set ivs. a \<le> lo"
  shows "range_seqs (foldl merge_into acc ivs) = range_seqs acc \<union> range_seqs ivs"
  using assms
proof (induction ivs arbitrary: acc)
  case (Cons iv ivs)
  obtain lo hi where iv: "iv = (lo, hi)" by (cases iv)
  have head: "\<forall>(a, b) \<in> set (take 1 acc). a \<le> lo" using Cons.prems(2) iv by auto
  have above: "lo \<le> lo'" if "(lo', hi') \<in> set ivs" for lo' hi'
  proof -
    have "(lo, hi) \<le> (lo', hi')" using Cons.prems(1) that iv by auto
    then show ?thesis by auto
  qed
  have "\<forall>(a, b) \<in> set (take 1 (merge_into acc (lo, hi))). \<forall>(lo', hi') \<in> set ivs. a \<le> lo'"
    using merge_into_seqs [OF head, of hi] above by fastforce
  then have "range_seqs (foldl merge_into (merge_into acc (lo, hi)) ivs) =
      range_seqs (merge_into acc (lo, hi)) \<union> range_seqs ivs"
    using Cons.IH Cons.prems(1) by simp
  then show ?case using merge_into_seqs [OF head] iv by auto
qed simp

lemma merge_intervals_seqs: "range_seqs (merge_intervals ivs) = range_seqs ivs"
proof -
  have "range_seqs (merge_intervals ivs) = range_seqs (sort ivs)"
    by (simp add: merge_intervals_def merge_fold_seqs)
  then show ?thesis by (simp add: range_seqs_def)
qed

definition grouped_seqs :: "(string \<times> (int \<times> int) list) list \<Rightarrow> int set" where
  "grouped_seqs d = (\<Union>kv \<in> set d. range_seqs (snd kv))"

lemma dict_append_simps [simp]:
  "dict_append [] k x = [(k, [x])]"
  "dict_append ((k', v) # d) k x = (if k' = k then (k, v @ [x]) # d else (k', v) # dict_append d k x)"
  by (simp_all add: dict_append_def)

lemma grouped_seqs_simps [simp]: "grouped_seqs [] = {}" "grouped_seqs (kv # d) = range_seqs (snd kv) \<union> grouped_seqs d"
  by (simp_all add: grouped_seqs_def)

lemma grouped_append: "grouped_seqs (dict_append d k (a, b)) = grouped_seqs d \<union> {a..b}"
proof (induction d)
  case (Cons kv d)
  then show ?case by (cases kv) auto
qed simp

lemma grouped_item:
  "grouped_seqs (foldl (\<lambda>d iv. dict_append d k iv) d ivs) = grouped_seqs d \<union> range_seqs ivs"
proof (induction ivs arbitrary: d)
  case (Cons iv ivs)
  then show ?case by (cases iv) (auto simp: grouped_append)
qed simp

definition item_seqs :: "q_item \<Rightarrow> int set" where
  "item_seqs x = range_seqs (item_intervals x)"

lemma grouped_by_topic: "grouped_seqs (by_topic dropped) = (\<Union>x \<in> set dropped. item_seqs x)"
proof -
  have "grouped_seqs (foldl (\<lambda>d item. foldl (\<lambda>d iv. dict_append d (item_topic item) iv) d (item_intervals item)) d dropped) =
      grouped_seqs d \<union> (\<Union>x \<in> set dropped. item_seqs x)" for d
    by (induction dropped arbitrary: d) (auto simp: grouped_item item_seqs_def)
  then show ?thesis by (simp add: by_topic_def grouped_seqs_def)
qed

lemma sequence_gap_ranges_exact: "range_seqs (sequence_gap_ranges dropped) = (\<Union>x \<in> set dropped. item_seqs x)"
proof -
  have "range_seqs (concat (map (\<lambda>(topic, ivs). merge_intervals ivs) d)) = grouped_seqs d" for d
    by (induction d) (auto simp: grouped_seqs_def merge_intervals_seqs)
  then show ?thesis by (simp add: sequence_gap_ranges_def grouped_by_topic)
qed

section \<open>An accounted queue\<close>

text \<open>
  What a subscriber relies on: a quantity of the items that putting a message increases by the
  message's own quantity, whatever the queue drops, and that taking an item hands over.  \<open>rel\<close> is how
  exact the account is: equality, or a relation that lets it become unknown.
\<close>

definition total_mass :: "('a \<Rightarrow> 'a \<Rightarrow> 'a) \<Rightarrow> 'a \<Rightarrow> ('i \<Rightarrow> 'a) \<Rightarrow> 'i list \<Rightarrow> 'a" where
  "total_mass join zero mass xs = foldr (\<lambda>x acc. join (mass x) acc) xs zero"

datatype 'm queue_op = Put 'm | Take

fun queue_step :: "('q \<Rightarrow> 'm \<Rightarrow> 'q) \<Rightarrow> ('q \<Rightarrow> ('i \<times> 'q) option) \<Rightarrow> 'i list \<times> 'q \<Rightarrow> 'm queue_op \<Rightarrow> 'i list \<times> 'q" where
  "queue_step put get (taken, q) (Put m) = (taken, put q m)"
| "queue_step put get (taken, q) Take = (case get q of None \<Rightarrow> (taken, q) | Some (x, q') \<Rightarrow> (taken @ [x], q'))"

fun puts :: "'m queue_op list \<Rightarrow> 'm list" where
  "puts [] = []"
| "puts (Put m # ops) = m # puts ops"
| "puts (Take # ops) = puts ops"

locale accounted_queue =
  fixes put :: "'q \<Rightarrow> 'm \<Rightarrow> 'q"
    and get :: "'q \<Rightarrow> ('i \<times> 'q) option"
    and content :: "'q \<Rightarrow> 'i list"
    and ok :: "'q \<Rightarrow> bool"
    and msg_ok :: "'m \<Rightarrow> bool"
    and rel :: "'a \<Rightarrow> 'a \<Rightarrow> bool"
    and join :: "'a \<Rightarrow> 'a \<Rightarrow> 'a"
    and zero :: 'a
    and mass :: "'i \<Rightarrow> 'a"
    and unit_mass :: "'m \<Rightarrow> 'a"
  assumes join_assoc: "join (join x y) z = join x (join y z)"
    and join_zero: "join zero x = x" "join x zero = x"
    and rel_refl: "rel x x"
    and rel_trans: "rel x y \<Longrightarrow> rel y z \<Longrightarrow> rel x z"
    and rel_join: "rel x y \<Longrightarrow> rel (join u (join x v)) (join u (join y v))"
    and ok_put: "ok q \<Longrightarrow> msg_ok m \<Longrightarrow> ok (put q m)"
    and mass_put: "ok q \<Longrightarrow> msg_ok m \<Longrightarrow>
      rel (total_mass join zero mass (content (put q m))) (join (total_mass join zero mass (content q)) (unit_mass m))"
    and ok_get: "ok q \<Longrightarrow> get q = Some (it, q') \<Longrightarrow> ok q'"
    and mass_get: "ok q \<Longrightarrow> get q = Some (it, q') \<Longrightarrow> content q = it # content q'"
begin

lemma mass_append: "total_mass join zero mass (xs @ ys) = join (total_mass join zero mass xs) (total_mass join zero mass ys)"
  by (induction xs) (simp_all add: total_mass_def join_zero join_assoc)

lemma rel_left: "rel x y \<Longrightarrow> rel (join u x) (join u y)"
  using rel_join [of x y u zero] by (simp add: join_zero)

lemma rel_right: "rel x y \<Longrightarrow> rel (join x v) (join y v)"
  using rel_join [of x y zero v] by (simp add: join_zero)

lemma step_account:
  assumes "ok q" "\<forall>m \<in> set (puts [oper]). msg_ok m" "queue_step put get (taken, q) oper = (taken', q')"
  shows "ok q'" "rel (total_mass join zero mass (taken' @ content q'))
    (join (total_mass join zero mass (taken @ content q)) (total_mass join zero unit_mass (puts [oper])))"
proof -
  have "ok q' \<and> rel (total_mass join zero mass (taken' @ content q'))
      (join (total_mass join zero mass (taken @ content q)) (total_mass join zero unit_mass (puts [oper])))"
  proof (cases oper)
    case (Put m)
    then have s: "taken' = taken" "q' = put q m" and m: "msg_ok m" using assms(2,3) by auto
    have one: "total_mass join zero unit_mass (puts [oper]) = unit_mass m"
      using Put by (simp add: total_mass_def join_zero)
    show ?thesis unfolding s one mass_append join_assoc
      using rel_left [OF mass_put [OF assms(1) m]] by (simp add: ok_put [OF assms(1) m])
  next
    case Take
    have none: "total_mass join zero unit_mass (puts [oper]) = zero" using Take by (simp add: total_mass_def)
    show ?thesis
    proof (cases "get q")
      case None
      then have "taken' = taken" "q' = q" using assms(3) Take by auto
      then show ?thesis using assms(1) rel_refl unfolding none join_zero by simp
    next
      case (Some r)
      obtain x q1 where r: "r = (x, q1)" by (cases r)
      have s: "taken' = taken @ [x]" "q' = q1" using assms(3) Take Some r by auto
      have "taken @ content q = taken' @ content q'" using mass_get [OF assms(1)] Some r s by simp
      moreover have "ok q'" using ok_get [OF assms(1)] Some r s by simp
      ultimately show ?thesis using rel_refl unfolding none join_zero by simp
    qed
  qed
  then show "ok q'" "rel (total_mass join zero mass (taken' @ content q'))
      (join (total_mass join zero mass (taken @ content q)) (total_mass join zero unit_mass (puts [oper])))" by blast+
qed

lemma run_account:
  assumes "ok q" "\<forall>m \<in> set (puts ops). msg_ok m" "foldl (queue_step put get) (taken, q) ops = (taken', q')"
  shows "ok q' \<and> rel (total_mass join zero mass (taken' @ content q'))
    (join (total_mass join zero mass (taken @ content q)) (total_mass join zero unit_mass (puts ops)))"
  using assms
proof (induction ops arbitrary: taken q)
  case Nil
  then show ?case using rel_refl by (simp add: total_mass_def join_zero)
next
  case (Cons oper ops)
  obtain taken1 q1 where s: "queue_step put get (taken, q) oper = (taken1, q1)" by (cases "queue_step put get (taken, q) oper")
  have p: "\<forall>m \<in> set (puts [oper]). msg_ok m" "\<forall>m \<in> set (puts ops). msg_ok m" using Cons.prems(2) by (cases oper; simp)+
  note st = step_account [OF Cons.prems(1) p(1) s]
  have "foldl (queue_step put get) (taken1, q1) ops = (taken', q')" using Cons.prems(3) s by simp
  from Cons.IH [OF st(1) p(2) this] have rest: "ok q'" "rel (total_mass join zero mass (taken' @ content q'))
      (join (total_mass join zero mass (taken1 @ content q1)) (total_mass join zero unit_mass (puts ops)))" by auto
  have "total_mass join zero unit_mass (puts (oper # ops)) =
      join (total_mass join zero unit_mass (puts [oper])) (total_mass join zero unit_mass (puts ops))"
    by (cases oper) (simp_all add: total_mass_def join_zero join_assoc)
  then show ?case using rest(1) rel_trans [OF rest(2) rel_right [OF st(2)]] by (simp add: join_assoc)
qed

end

section \<open>The account of a subscriber's queue\<close>

lemma drop_oldest_split:
  "fst (drop_oldest n xs) @ snd (drop_oldest n xs) = xs \<and> (snd (drop_oldest n xs) = [] \<or> length (snd (drop_oldest n xs)) + 2 \<le> n)"
  by (induction n xs rule: drop_oldest.induct) (auto simp: case_prod_beta Let_def)

definition queue_ok :: "sub_queue \<Rightarrow> bool" where
  "queue_ok q \<longleftrightarrow> 2 \<le> sq_max q \<and> length (sq_items q) \<le> sq_max q"

lemma enqueue_full:
  assumes "\<not> length (sq_items q) < sq_max q"
  obtains dropped rest where "sq_items q = dropped @ rest" "rest = [] \<or> length rest + 2 \<le> sq_max q"
    "enqueue q (uid, now, m) = q\<lparr>sq_items := rest @ [Gap (gap_of uid now m dropped), Live m]\<rparr>"
proof -
  obtain dropped rest where d: "drop_oldest (sq_max q) (sq_items q) = (dropped, rest)"
    by (cases "drop_oldest (sq_max q) (sq_items q)")
  have "sq_items q = dropped @ rest" "rest = [] \<or> length rest + 2 \<le> sq_max q"
    using drop_oldest_split [of "sq_max q" "sq_items q"] d by auto
  moreover have "enqueue q (uid, now, m) = q\<lparr>sq_items := rest @ [Gap (gap_of uid now m dropped), Live m]\<rparr>"
    using assms d by (simp add: enqueue_def)
  ultimately show thesis by (rule that)
qed

lemma enqueue_ok:
  assumes "queue_ok q"
  shows "queue_ok (enqueue q m) \<and> sq_max (enqueue q m) = sq_max q"
proof -
  obtain uid now e where m: "m = (uid, now, e)" by (cases m)
  show ?thesis
  proof (cases "length (sq_items q) < sq_max q")
    case True
    then show ?thesis using assms by (simp add: enqueue_def m queue_ok_def)
  next
    case False
    show ?thesis unfolding m
      by (rule enqueue_full [OF False, of uid now e]) (use assms in \<open>auto simp: queue_ok_def\<close>)
  qed
qed

lemma dequeue_ok:
  "dequeue q = Some (x, q') \<Longrightarrow> queue_ok q \<Longrightarrow> queue_ok q'"
  "dequeue q = Some (x, q') \<Longrightarrow> sq_items q = x # sq_items q'"
  by (auto simp: dequeue_def queue_ok_def split: list.splits)

definition msg_seqs :: "string \<times> seconds \<times> pub_event \<Rightarrow> int set" where
  "msg_seqs m = item_seqs (Live (snd (snd m)))"

interpretation lost_count: accounted_queue enqueue dequeue sq_items queue_ok "\<lambda>_. True" "(=)" "(+)" "0::int" item_lost "\<lambda>_. 1"
proof unfold_locales
  fix q :: sub_queue and m :: "string \<times> seconds \<times> pub_event"
  have sum: "total_mass (+) 0 item_lost xs = sum_list (map item_lost xs)" for xs
    by (induction xs) (simp_all add: total_mass_def)
  obtain uid now e where m: "m = (uid, now, e)" by (cases m)
  show "total_mass (+) 0 item_lost (sq_items (enqueue q m)) = total_mass (+) 0 item_lost (sq_items q) + 1"
  proof (cases "length (sq_items q) < sq_max q")
    case True
    then show ?thesis by (simp add: enqueue_def m sum)
  next
    case False
    show ?thesis unfolding m by (rule enqueue_full [OF False, of uid now e]) (simp add: sum gap_of_def)
  qed
qed (auto simp: enqueue_ok dest: dequeue_ok)

interpretation lost_seqs: accounted_queue enqueue dequeue sq_items queue_ok "\<lambda>_. True" "(=)" "(\<union>)" "{}::int set" item_seqs msg_seqs
proof unfold_locales
  fix q :: sub_queue and m :: "string \<times> seconds \<times> pub_event"
  have union: "total_mass (\<union>) {} item_seqs xs = (\<Union>x \<in> set xs. item_seqs x)" for xs
    by (induction xs) (simp_all add: total_mass_def)
  obtain uid now e where m: "m = (uid, now, e)" by (cases m)
  have gap: "item_seqs (Gap (gap_of uid now e dropped)) = (\<Union>x \<in> set dropped. item_seqs x)" for dropped
    by (subst item_seqs_def) (simp add: gap_of_def sequence_gap_ranges_exact)
  show "total_mass (\<union>) {} item_seqs (sq_items (enqueue q m)) = total_mass (\<union>) {} item_seqs (sq_items q) \<union> msg_seqs m"
  proof (cases "length (sq_items q) < sq_max q")
    case True
    then show ?thesis by (simp add: enqueue_def m union msg_seqs_def Un_commute)
  next
    case False
    show ?thesis unfolding m by (rule enqueue_full [OF False, of uid now e]) (auto simp: union gap msg_seqs_def)
  qed
qed (auto simp: enqueue_ok dest: dequeue_ok)

text \<open>The messages among the items.\<close>

fun lives :: "q_item list \<Rightarrow> pub_event list" where
  "lives [] = []"
| "lives (Live e # xs) = e # lives xs"
| "lives (Gap g # xs) = lives xs"

lemma lives_append [simp]: "lives (xs @ ys) = lives xs @ lives ys"
  by (induction xs rule: lives.induct) auto

abbreviation queue_run :: "q_item list \<times> sub_queue \<Rightarrow> (string \<times> seconds \<times> pub_event) queue_op list \<Rightarrow> q_item list \<times> sub_queue" where
  "queue_run \<equiv> foldl (queue_step enqueue dequeue)"

lemma lives_step:
  assumes "queue_step enqueue dequeue (taken, q) oper = (taken', q')"
  shows "subseq (lives (taken' @ sq_items q')) (lives (taken @ sq_items q) @ map (snd \<circ> snd) (puts [oper]))"
proof (cases oper)
  case (Put m)
  obtain uid now e where m: "m = (uid, now, e)" by (cases m)
  have s: "taken' = taken" "q' = enqueue q (uid, now, e)" using assms Put m by auto
  show ?thesis
  proof (cases "length (sq_items q) < sq_max q")
    case True
    then show ?thesis by (simp add: s Put m enqueue_def)
  next
    case False
    show ?thesis
    proof (rule enqueue_full [OF False, of uid now e])
      fix dropped rest
      assume "sq_items q = dropped @ rest"
        "enqueue q (uid, now, e) = q\<lparr>sq_items := rest @ [Gap (gap_of uid now e dropped), Live e]\<rparr>"
      moreover have "subseq (lives taken @ lives rest @ [e]) (lives taken @ lives dropped @ lives rest @ [e])"
        by (intro list_emb_append_mono [OF subseq_order.order_refl] list_emb_append2) simp
      ultimately show ?thesis by (simp add: s Put m)
    qed
  qed
next
  case Take
  have same: "taken' @ sq_items q' = taken @ sq_items q"
  proof (cases "dequeue q")
    case None
    then show ?thesis using assms Take by simp
  next
    case (Some r)
    then show ?thesis using assms Take dequeue_ok(2) [of q "fst r" "snd r"] by (cases r) simp
  qed
  show ?thesis unfolding same using Take by simp
qed

lemma lives_run:
  assumes "queue_run (taken, q) ops = (taken', q')"
  shows "subseq (lives (taken' @ sq_items q')) (lives (taken @ sq_items q) @ map (snd \<circ> snd) (puts ops))"
  using assms
proof (induction ops arbitrary: taken q)
  case (Cons oper ops)
  obtain taken1 q1 where s: "queue_step enqueue dequeue (taken, q) oper = (taken1, q1)"
    by (cases "queue_step enqueue dequeue (taken, q) oper")
  have "subseq (lives (taken' @ sq_items q')) (lives (taken1 @ sq_items q1) @ map (snd \<circ> snd) (puts ops))"
    by (rule Cons.IH) (use Cons.prems s in simp)
  also have "subseq \<dots> ((lives (taken @ sq_items q) @ map (snd \<circ> snd) (puts [oper])) @ map (snd \<circ> snd) (puts ops))"
    by (rule list_emb_append_mono [OF lives_step [OF s]]) simp
  also have "\<dots> = lives (taken @ sq_items q) @ map (snd \<circ> snd) (puts (oper # ops))" by (cases oper) simp_all
  finally show ?case .
qed simp

text \<open>
  A live subscriber never loses a message silently.  After any number of messages put into its
  bounded queue and any number of items taken from it, the messages it took or still finds plus the
  losses its markers count are exactly the messages put; the sequence numbers it saw and the ranges
  of the markers cover exactly the sequence numbers put; the messages it sees are in the order of
  publication; and the queue never exceeds its size.
\<close>

theorem no_silent_loss:
  assumes "2 \<le> n" "queue_run ([], \<lparr>sq_max = n, sq_items = []\<rparr>) ops = (taken, q)"
  shows "(\<Sum>x\<leftarrow>taken @ sq_items q. item_lost x) = int (length (puts ops)) \<and>
    (\<Union>x \<in> set (taken @ sq_items q). item_seqs x) = (\<Union>m \<in> set (puts ops). msg_seqs m) \<and>
    subseq (lives (taken @ sq_items q)) (map (snd \<circ> snd) (puts ops)) \<and> length (sq_items q) \<le> sq_max q"
proof -
  have ok: "queue_ok \<lparr>sq_max = n, sq_items = []\<rparr>" using assms(1) by (simp add: queue_ok_def)
  have sum: "total_mass (+) 0 f xs = (\<Sum>x\<leftarrow>xs. f x)" for f :: "'x \<Rightarrow> int" and xs
    by (induction xs) (simp_all add: total_mass_def)
  have union: "total_mass (\<union>) {} f xs = (\<Union>x \<in> set xs. f x)" for f :: "'y \<Rightarrow> int set" and xs
    by (induction xs) (simp_all add: total_mass_def)
  have one: "(\<Sum>x\<leftarrow>xs. 1) = int (length xs)" for xs :: "(string \<times> seconds \<times> pub_event) list" by (induction xs) simp_all
  show ?thesis
    using lost_count.run_account [OF ok _ assms(2)] lost_seqs.run_account [OF ok _ assms(2)] lives_run [OF assms(2)]
    unfolding sum union one by (simp add: queue_ok_def)
qed

definition ex_event :: "int \<Rightarrow> pub_event" where
  "ex_event i = \<lparr>pe_id = ''pub'', pe_topic = ''t'', pe_sender = ''s'', pe_time = 0, pe_payload = PNone, pe_seq = Some i\<rparr>"

definition ex_puts :: "(string \<times> seconds \<times> pub_event) queue_op list" where
  "ex_puts = map (\<lambda>i. Put ([], 0, ex_event i)) [1, 2, 3] @ [Take]"

theorem no_silent_loss_witness:
  "\<exists>taken q. queue_run ([], \<lparr>sq_max = 2, sq_items = []\<rparr>) ex_puts = (taken, q) \<and>
     lives (taken @ sq_items q) = [ex_event 3] \<and> (\<Sum>x\<leftarrow>taken @ sq_items q. item_lost x) = 3"
proof -
  obtain taken q where r: "queue_run ([], \<lparr>sq_max = 2, sq_items = []\<rparr>) ex_puts = (taken, q)"
    by (cases "queue_run ([], \<lparr>sq_max = 2, sq_items = []\<rparr>) ex_puts")
  have l: "lives (taken @ sq_items q) = [ex_event 3]" using r by (auto simp: ex_puts_def enqueue_def dequeue_def)
  have p: "length (puts ex_puts) = 3" by (simp add: ex_puts_def)
  have "(\<Sum>x\<leftarrow>taken @ sq_items q. item_lost x) = 3" using no_silent_loss [OF order_refl r] unfolding p by simp
  then show ?thesis using r l by blast
qed

end
