(* ===== verification/Pubsub.thy ===== *)
theory Pubsub
  imports Pubsub_Queue
begin

text \<open>
  The publish and subscribe service (\<open>SwarmPubSub\<close> of \<open>agent_events.py\<close>): a bounded cache of recent
  messages per topic and the bounded queues of live subscribers.  Every operation runs under the
  service's lock.  The durable store is an argument of \<open>publish\<close>: \<open>None\<close> when there is none, otherwise
  what its append answered.  Python dicts are association lists in insertion order.
\<close>

section \<open>Dictionaries of lists\<close>

definition dict_list :: "(string \<times> 'a list) list \<Rightarrow> string \<Rightarrow> 'a list" where
  "dict_list d k = (case map_of d k of None \<Rightarrow> [] | Some xs \<Rightarrow> xs)"

definition dict_pop :: "(string \<times> 'v) list \<Rightarrow> string \<Rightarrow> (string \<times> 'v) list" where
  "dict_pop d k = filter (\<lambda>kv. fst kv \<noteq> k) d"

section \<open>State\<close>

record pubsub_config =
  pc_max_age :: seconds
  pc_max_topics :: nat
  pc_max_subscribers :: nat
  pc_max_slots :: nat
  pc_max_bytes :: nat
  pc_max_message :: nat

text \<open>The checks of the constructor.\<close>

definition valid_config :: "pubsub_config \<Rightarrow> bool" where
  "valid_config c \<longleftrightarrow> 0 \<le> pc_max_age c \<and> 1 \<le> pc_max_topics c \<and> pc_max_topics c \<le> 4096 \<and>
     1 \<le> pc_max_subscribers c \<and> pc_max_subscribers c \<le> 4096 \<and> 1 \<le> pc_max_slots c \<and> pc_max_slots c \<le> 100000 \<and>
     1 \<le> pc_max_bytes c \<and> pc_max_bytes c \<le> 67108864 \<and> 1 \<le> pc_max_message c \<and> pc_max_message c \<le> 1048576"

record pubsub =
  pb_topics :: "(string \<times> pub_event list) list"
  pb_sizes :: "(string \<times> int list) list"
  pb_cached :: int
  pb_count :: int
  pb_slots :: int
  pb_floor :: seconds
  pb_subs :: "(string \<times> (string \<times> sub_queue) list) list"

definition new_pubsub :: pubsub where
  "new_pubsub = \<lparr>pb_topics = [], pb_sizes = [], pb_cached = 0, pb_count = 0, pb_slots = 0, pb_floor = 0, pb_subs = []\<rparr>"

datatype pubsub_error =
    Bad_Name name_error
  | Bad_Message snap_error
  | Not_A_Message
  | Bad_Argument
  | Capacity
  | Cache_Full
  | Append_Failed

definition named_topic :: "string \<Rightarrow> pubsub_error + string" where
  "named_topic topic =
     (case bounded_name False True topic of Inl e \<Rightarrow> Inl (Bad_Name e) | Inr s \<Rightarrow> Inr (py_lower s))"

section \<open>Subscribers\<close>

definition subscribe :: "pubsub_config \<Rightarrow> string \<Rightarrow> string \<Rightarrow> int \<Rightarrow> pubsub \<Rightarrow> pubsub \<times> (pubsub_error + string)" where
  "subscribe c sub_id topic maxsize st =
     (case named_topic topic of
        Inl e \<Rightarrow> (st, Inl e)
      | Inr t \<Rightarrow>
          if maxsize < 1 \<or> 1000 < maxsize then (st, Inl Bad_Argument)
          else
            (let slots = max 10 maxsize in
             if int (pc_max_subscribers c) \<le> pb_count st \<or> int (pc_max_slots c) < pb_slots st + slots
             then (st, Inl Capacity)
             else
               (st\<lparr>pb_subs := dict_set (pb_subs st) t
                     (dict_set (dict_list (pb_subs st) t) sub_id \<lparr>sq_max = nat slots, sq_items = []\<rparr>),
                   pb_count := pb_count st + 1, pb_slots := pb_slots st + slots\<rparr>, Inr sub_id)))"

definition unsubscribe :: "string \<Rightarrow> string \<Rightarrow> pubsub \<Rightarrow> pubsub \<times> (pubsub_error + bool)" where
  "unsubscribe topic sub_id st =
     (case named_topic topic of
        Inl e \<Rightarrow> (st, Inl e)
      | Inr t \<Rightarrow>
          (let subs = dict_list (pb_subs st) t in
           case map_of subs sub_id of
             None \<Rightarrow> (st, Inr False)
           | Some q \<Rightarrow>
               (let subs' = dict_pop subs sub_id in
                (st\<lparr>pb_slots := pb_slots st - int (sq_max q), pb_count := pb_count st - 1,
                    pb_subs := (if subs' = [] then dict_pop (pb_subs st) t else dict_set (pb_subs st) t subs')\<rparr>,
                 Inr True))))"

section \<open>The cache\<close>

text \<open>\<open>_prune_expired_locked\<close>, the loop over the messages of a topic and their sizes.\<close>

fun prune_scan :: "seconds \<Rightarrow> (pub_event \<times> int) list \<Rightarrow> int \<times> seconds \<Rightarrow>
    (pub_event list \<times> int list) \<times> (int \<times> seconds) \<times> nat" where
  "prune_scan cutoff [] acc = (([], []), acc, 0)"
| "prune_scan cutoff ((m, bytes) # rest) (cached, low) =
     (if pe_time m < cutoff then
        (let (kept, acc, removed) = prune_scan cutoff rest (cached - bytes, max low (pe_time m)) in (kept, acc, Suc removed))
      else
        (let ((ms, bs), acc, removed) = prune_scan cutoff rest (cached, low) in ((m # ms, bytes # bs), acc, removed)))"

definition prune_topic :: "pubsub_config \<Rightarrow> seconds \<Rightarrow> string \<Rightarrow> pubsub \<Rightarrow> pubsub \<times> nat" where
  "prune_topic c now t st =
     (let ((ms, bs), (cached, low), removed) =
        prune_scan (now - pc_max_age c) (zip (dict_list (pb_topics st) t) (dict_list (pb_sizes st) t)) (pb_cached st, pb_floor st);
          st1 = st\<lparr>pb_cached := cached, pb_floor := low\<rparr> in
      (if ms \<noteq> [] then st1\<lparr>pb_topics := dict_set (pb_topics st) t ms, pb_sizes := dict_set (pb_sizes st) t bs\<rparr>
       else st1\<lparr>pb_topics := dict_pop (pb_topics st) t, pb_sizes := dict_pop (pb_sizes st) t\<rparr>, removed))"

definition prune_all :: "pubsub_config \<Rightarrow> seconds \<Rightarrow> pubsub \<Rightarrow> pubsub" where
  "prune_all c now st = foldl (\<lambda>s t. fst (prune_topic c now t s)) st (map fst (pb_topics st))"

definition compact :: "pubsub_config \<Rightarrow> seconds \<Rightarrow> pubsub \<Rightarrow> pubsub \<times> nat \<times> nat \<times> int" where
  "compact c now st =
     (let (st', removed) =
        foldl (\<lambda>(s, n) t. case prune_topic c now t s of (s', k) \<Rightarrow> (s', n + k)) (st, 0) (map fst (pb_topics st)) in
      (st', length (pb_topics st) - length (pb_topics st'), removed, pb_cached st'))"

definition clear_topic :: "string \<Rightarrow> pubsub \<Rightarrow> pubsub \<times> (pubsub_error + nat)" where
  "clear_topic topic st =
     (case named_topic topic of
        Inl e \<Rightarrow> (st, Inl e)
      | Inr t \<Rightarrow>
          (let messages = dict_list (pb_topics st) t;
               st1 = st\<lparr>pb_topics := dict_pop (pb_topics st) t, pb_sizes := dict_pop (pb_sizes st) t,
                        pb_cached := pb_cached st - sum_list (dict_list (pb_sizes st) t)\<rparr> in
           (if messages \<noteq> [] then st1\<lparr>pb_floor := max (pb_floor st) (Max (set (map pe_time messages)))\<rparr> else st1,
            Inr (length messages))))"

section \<open>Publishing\<close>

text \<open>What the durable store answered: a failure, or the stored event and whether it was there before.\<close>

datatype append_result = Failed | Stored bool string seconds int

record publish_result =
  pr_duplicate :: bool
  pr_topic :: string
  pr_id :: string
  pr_time :: seconds
  pr_cursor :: "int option"
  pr_durable :: bool
  pr_cached :: bool

definition event_json :: "pub_event \<Rightarrow> pyval" where
  "event_json e = PDict [(''id'', PStr (pe_id e)), (''topic'', PStr (pe_topic e)), (''sender'', PStr (pe_sender e)),
     (''timestamp'', PFloat (Fin (pe_time e))), (''payload'', pe_payload e),
     (''sequence'', case pe_seq e of None \<Rightarrow> PNone | Some s \<Rightarrow> PInt s), (''kind'', PStr ''pubsub.message'')]"

definition event_bytes :: "(real \<Rightarrow> string) \<Rightarrow> pub_event \<Rightarrow> int" where
  "event_bytes fl e = int (json_bytes fl (event_json e))"

text \<open>The checks before the clock is read: the names and the bounded copy of the payload.\<close>

definition checked_message ::
  "pubsub_config \<Rightarrow> (real \<Rightarrow> string) \<Rightarrow> string \<Rightarrow> pyval \<Rightarrow> string \<Rightarrow> string \<Rightarrow> pubsub_error + string \<times> pyval" where
  "checked_message c fl topic message sender key =
     bindr (named_topic topic) (\<lambda>t.
     case bounded_name False False sender of Inl e \<Rightarrow> Inl (Bad_Name e) | Inr _ \<Rightarrow>
     case bounded_name True False key of Inl e \<Rightarrow> Inl (Bad_Name e) | Inr _ \<Rightarrow>
     (case (case message of PDict d \<Rightarrow> Some (PDict d) | PStr s \<Rightarrow> Some (PDict [(''text'', PStr s)]) | _ \<Rightarrow> None) of
        None \<Rightarrow> Inl Not_A_Message
      | Some body \<Rightarrow>
          (case snapshot_message fl (PDict [(''sender'', PStr sender), (''message'', body)]) (pc_max_message c) of
             Inl e \<Rightarrow> Inl (Bad_Message e)
           | Inr (PDict d, _) \<Rightarrow> Inr (t, dict_get d ''message'')
           | Inr _ \<Rightarrow> Inl Not_A_Message)))"

text \<open>The body under the lock.  \<open>marks\<close> gives the identifier and the clock of a marker, per subscriber.\<close>

definition fan_out :: "(string \<Rightarrow> string \<times> seconds) \<Rightarrow> pub_event \<Rightarrow> pubsub \<Rightarrow> pubsub" where
  "fan_out marks e st =
     (case map_of (pb_subs st) (pe_topic e) of
        None \<Rightarrow> st
      | Some subs \<Rightarrow>
          st\<lparr>pb_subs := dict_set (pb_subs st) (pe_topic e)
               (map (\<lambda>(s, q). (s, enqueue q (fst (marks s), snd (marks s), e))) subs)\<rparr>)"

definition cache_event :: "(real \<Rightarrow> string) \<Rightarrow> pub_event \<Rightarrow> pubsub \<Rightarrow> pubsub" where
  "cache_event fl e st =
     (let bucket = dict_list (pb_topics st) (pe_topic e); sizes = dict_list (pb_sizes st) (pe_topic e);
          full = 200 \<le> length bucket;
          st1 = (if full then st\<lparr>pb_floor := max (pb_floor st) (pe_time (hd bucket)), pb_cached := pb_cached st - hd sizes\<rparr> else st);
          bucket1 = (if full then tl bucket else bucket); sizes1 = (if full then tl sizes else sizes) in
      st1\<lparr>pb_topics := dict_set (pb_topics st) (pe_topic e) (bucket1 @ [e]),
          pb_sizes := dict_set (pb_sizes st) (pe_topic e) (sizes1 @ [event_bytes fl e]),
          pb_cached := pb_cached st1 + event_bytes fl e\<rparr>)"

definition deliver :: "pubsub_config \<Rightarrow> (real \<Rightarrow> string) \<Rightarrow> (string \<Rightarrow> string \<times> seconds) \<Rightarrow> bool \<Rightarrow> pub_event \<Rightarrow>
    pubsub \<Rightarrow> pubsub \<times> bool option" where
  "deliver c fl marks durable e st =
     (let bytes = event_bytes fl e;
          st1 = (if map_of (pb_topics st) (pe_topic e) = None \<or> int (pc_max_bytes c) < pb_cached st + bytes
                 then prune_all c (pe_time e) st else st);
          bucket = dict_list (pb_topics st1) (pe_topic e);
          reclaimed = (if 200 \<le> length bucket then hd (dict_list (pb_sizes st1) (pe_topic e)) else 0);
          retained = ((bucket \<noteq> [] \<or> length (pb_topics st1) < pc_max_topics c) \<and>
                      pb_cached st1 + bytes - reclaimed \<le> int (pc_max_bytes c)) in
      if \<not> retained \<and> \<not> durable then (st1, None)
      else (fan_out marks e (if retained then cache_event fl e st1 else st1), Some retained))"

definition new_event :: "append_result option \<Rightarrow> string \<Rightarrow> string \<Rightarrow> string \<Rightarrow> seconds \<Rightarrow> pyval \<Rightarrow> pub_event" where
  "new_event store first_id t sender now body =
     (case store of
        Some (Stored _ eid time seq) \<Rightarrow>
          \<lparr>pe_id = eid, pe_topic = t, pe_sender = sender, pe_time = time, pe_payload = body, pe_seq = Some seq\<rparr>
      | _ \<Rightarrow> \<lparr>pe_id = first_id, pe_topic = t, pe_sender = sender, pe_time = now, pe_payload = body, pe_seq = None\<rparr>)"

text \<open>
  \<open>uid\<close> is the random part of the identifier, \<open>hashed\<close> the hash of an idempotency key (\<open>uuid5\<close>), \<open>store\<close>
  what the durable store answers for the event.
\<close>

definition publish ::
  "pubsub_config \<Rightarrow> (real \<Rightarrow> string) \<Rightarrow> (string \<Rightarrow> string) \<Rightarrow> (string \<Rightarrow> string \<times> seconds) \<Rightarrow> append_result option \<Rightarrow> string \<Rightarrow>
   seconds \<Rightarrow> string \<Rightarrow> pyval \<Rightarrow> string \<Rightarrow> string \<Rightarrow> pubsub \<Rightarrow> pubsub \<times> (pubsub_error + publish_result)" where
  "publish c fl hashed marks store uid now topic message sender key st =
     (case checked_message c fl topic message sender key of
        Inl e \<Rightarrow> (st, Inl e)
      | Inr (t, body) \<Rightarrow>
          (let first_id = ''pub_'' @ (if key = [] then uid else hashed (''pubsub:'' @ t @ '':'' @ key)) in
           case store of
             Some Failed \<Rightarrow> (st, Inl Append_Failed)
           | Some (Stored True eid time seq) \<Rightarrow>
               (st, Inr \<lparr>pr_duplicate = True, pr_topic = t, pr_id = eid, pr_time = time, pr_cursor = Some seq,
                         pr_durable = True, pr_cached = False\<rparr>)
           | _ \<Rightarrow>
               (let e = new_event store first_id t sender now body in
                case deliver c fl marks (store \<noteq> None) e st of
                  (st', None) \<Rightarrow> (st', Inl Cache_Full)
                | (st', Some cached) \<Rightarrow>
                    (st', Inr \<lparr>pr_duplicate = False, pr_topic = t, pr_id = pe_id e, pr_time = pe_time e,
                               pr_cursor = pe_seq e, pr_durable = (store \<noteq> None), pr_cached = cached\<rparr>))))"

section \<open>Polling without a durable store\<close>

record poll_result =
  po_messages :: "pub_event list"
  po_has_more :: bool
  po_first :: "seconds option"
  po_gap :: bool

definition poll :: "pubsub_config \<Rightarrow> seconds \<Rightarrow> string \<Rightarrow> seconds \<Rightarrow> int \<Rightarrow> int \<Rightarrow> pubsub \<Rightarrow> pubsub \<times> (pubsub_error + poll_result)" where
  "poll c now topic since limit after_seq st =
     (case named_topic topic of
        Inl e \<Rightarrow> (st, Inl e)
      | Inr t \<Rightarrow>
          if limit < 1 \<or> 1000 < limit \<or> since < 0 then (st, Inl Bad_Argument)
          else
            (let st' = fst (prune_topic c now t st);
                 bucket = dict_list (pb_topics st') t;
                 selected = filter (\<lambda>e. since < pe_time e \<and>
                   (after_seq \<le> 0 \<or> after_seq < (case pe_seq e of None \<Rightarrow> 0 | Some s \<Rightarrow> s))) bucket in
             (st', Inr \<lparr>po_messages = take (nat limit) selected, po_has_more = limit < int (length selected),
                po_first = (if bucket = [] then None else Some (pe_time (hd bucket))),
                po_gap = (0 < since \<and> (if bucket \<noteq> [] then since < pe_time (hd bucket) else since \<le> pb_floor st'))\<rparr>)))"

text \<open>
  \<open>wait_for_event\<close>: what a waiter returns from the items of its queue; with a filter it takes only a
  message whose payload matches, and an item that does not match is dropped.
\<close>

definition py_number :: "pyval \<Rightarrow> pyfloat option" where
  "py_number v = (case v of PBool b \<Rightarrow> Some (Fin (if b then 1 else 0)) | PInt i \<Rightarrow> Some (Fin (of_int i)) | PFloat x \<Rightarrow> Some x | _ \<Rightarrow> None)"

lemma val_size_member:
  "kv \<in> set d \<Longrightarrow> val_size (snd kv) < val_size (PDict d)" "v \<in> set vs \<Longrightarrow> val_size v < val_size (PList vs)"
  by (auto simp: less_Suc_eq_le intro!: member_le_sum_list)

text \<open>\<open>==\<close> of Python on these values.\<close>

function py_eq :: "pyval \<Rightarrow> pyval \<Rightarrow> bool" where
  "py_eq v w =
     (case (v, w) of
        (PNone, PNone) \<Rightarrow> True
      | (PStr s, PStr t) \<Rightarrow> s = t
      | (PList vs, PList ws) \<Rightarrow> length vs = length ws \<and> list_all (\<lambda>(a, b). py_eq a b) (zip vs ws)
      | (PDict d, PDict e) \<Rightarrow>
          length d = length e \<and> list_all (\<lambda>kv. case map_of e (fst kv) of None \<Rightarrow> False | Some b \<Rightarrow> py_eq (snd kv) b) d
      | _ \<Rightarrow> (case (py_number v, py_number w) of (Some a, Some b) \<Rightarrow> a = b \<and> a \<noteq> NaN | _ \<Rightarrow> False))"
  by pat_completeness auto
termination
  by (relation "measure (\<lambda>(v, _). val_size v)") (auto dest!: set_zip_leftD val_size_member simp del: val_size.simps)

declare py_eq.simps [simp del]

definition payload_matches :: "(string \<times> pyval) list \<Rightarrow> pyval \<Rightarrow> bool" where
  "payload_matches flt payload = (case payload of PDict d \<Rightarrow> list_all (\<lambda>(k, v). py_eq (dict_get d k) v) flt | _ \<Rightarrow> False)"

definition gap_payload :: "gap_marker \<Rightarrow> pyval" where
  "gap_payload g = PDict
     [(''gap_ranges'', PList (map (\<lambda>(a, b). PDict [(''from_seq'', PInt a), (''to_seq'', PInt b)]) (gm_ranges g))),
      (''cursor'', case gm_seq g of None \<Rightarrow> PNone | Some s \<Rightarrow> PInt s), (''lost_count'', PInt (gm_lost g)),
      (''replay_required'', PBool (gm_seq g \<noteq> None))]"

fun item_payload :: "q_item \<Rightarrow> pyval" where
  "item_payload (Live e) = pe_payload e"
| "item_payload (Gap g) = gap_payload g"

fun wait_scan :: "(string \<times> pyval) list \<Rightarrow> q_item list \<Rightarrow> (q_item \<times> q_item list) option" where
  "wait_scan flt [] = None"
| "wait_scan flt (x # xs) =
     (if flt \<noteq> [] \<and> \<not> payload_matches flt (item_payload x) then wait_scan flt xs else Some (x, xs))"

text \<open>A subscriber takes the next item of its own queue.\<close>

definition take_item :: "string \<Rightarrow> string \<Rightarrow> pubsub \<Rightarrow> pubsub \<times> q_item option" where
  "take_item t sub_id st =
     (case map_of (dict_list (pb_subs st) t) sub_id of
        None \<Rightarrow> (st, None)
      | Some q \<Rightarrow>
          (case dequeue q of
             None \<Rightarrow> (st, None)
           | Some (x, q') \<Rightarrow>
               (st\<lparr>pb_subs := dict_set (pb_subs st) t (dict_set (dict_list (pb_subs st) t) sub_id q')\<rparr>, Some x)))"

section \<open>Steps\<close>

text \<open>One call of the service; the identifier of a subscription is new (\<open>uuid4\<close>).\<close>

inductive pubsub_step ::
  "pubsub_config \<Rightarrow> (real \<Rightarrow> string) \<Rightarrow> (string \<Rightarrow> string) \<Rightarrow> pubsub \<Rightarrow> pubsub \<Rightarrow> bool" for c fl hashed where
  Subscribe: "(\<And>t. map_of (dict_list (pb_subs st) t) sub_id = None) \<Longrightarrow>
     pubsub_step c fl hashed st (fst (subscribe c sub_id topic n st))"
| Unsubscribe: "pubsub_step c fl hashed st (fst (unsubscribe topic sub_id st))"
| Publish: "pubsub_step c fl hashed st (fst (publish c fl hashed marks store uid now topic message sender key st))"
| Clear: "pubsub_step c fl hashed st (fst (clear_topic topic st))"
| Compact: "pubsub_step c fl hashed st (fst (compact c now st))"
| Poll: "pubsub_step c fl hashed st (fst (poll c now topic since limit after_seq st))"
| Get: "pubsub_step c fl hashed st (fst (take_item t sub_id st))"

end
