(* ===== verification/Pubsub_Cache.thy ===== *)
theory Pubsub_Cache
  imports Pubsub
begin

text \<open>
  The bounds of the publish and subscribe service: after any operations the cached messages fit the
  byte limit and the account of their bytes is exact, no topic keeps more than 200 messages, and the
  counts of subscribers and queue slots are those of the registered queues and within their limits.
\<close>

section \<open>Dictionaries\<close>

lemma map_of_dict_pop [simp]: "map_of (dict_pop d k) = (map_of d)(k := None)"
  by (induction d) (auto simp: dict_pop_def)

lemma distinct_dict_pop: "distinct (map fst d) \<Longrightarrow> distinct (map fst (dict_pop d k))"
  by (simp add: dict_pop_def distinct_map_filter)

lemma set_dict_pop: "set (dict_pop d k) \<subseteq> set d"
  by (auto simp: dict_pop_def)

lemma dict_list_simps [simp]:
  "dict_list (dict_set d k v) k' = (if k' = k then v else dict_list d k')"
  "dict_list (dict_pop d k) k' = (if k' = k then [] else dict_list d k')"
  by (simp_all add: dict_list_def)

lemma dict_set_nonempty [simp]: "dict_set d k v \<noteq> []"
  by (cases "(d, k, v)" rule: dict_set.cases) auto

lemma length_dict_pop: "length (dict_pop d k) \<le> length d"
  by (simp add: dict_pop_def)

lemma dict_pop_absent: "k \<notin> fst ` set d \<Longrightarrow> dict_pop d k = d"
  by (auto simp: dict_pop_def filter_id_conv)

abbreviation "map_vals g d \<equiv> map (\<lambda>kv. (fst kv, g (snd kv))) d"

lemma map_vals_set: "map_vals g (dict_set d k v) = dict_set (map_vals g d) k (g v)"
  by (induction d k v rule: dict_set.induct) auto

lemma map_vals_pop: "map_vals g (dict_pop d k) = dict_pop (map_vals g d) k"
  by (simp add: dict_pop_def filter_map comp_def)

lemma map_of_map_vals: "map_of (map_vals g d) k = map_option g (map_of d k)"
  by (induction d) auto

lemma dict_list_map_vals: "dict_list (map_vals (map f) d) k = map f (dict_list d k)"
  by (simp add: dict_list_def map_of_map_vals split: option.splits)

lemma sum_dict_set:
  "distinct (map fst d) \<Longrightarrow> (\<Sum>kv\<leftarrow>dict_set d k v. f (snd kv)) =
     (\<Sum>kv\<leftarrow>d. f (snd kv)) - (case map_of d k of None \<Rightarrow> 0 | Some u \<Rightarrow> f u) + (f v :: int)"
  by (induction d k v rule: dict_set.induct) (auto simp: map_of_eq_None_iff split: option.splits)

lemma sum_dict_pop:
  "distinct (map fst d) \<Longrightarrow> (\<Sum>kv\<leftarrow>dict_pop d k. f (snd kv)) =
     (\<Sum>kv\<leftarrow>d. f (snd kv)) - ((case map_of d k of None \<Rightarrow> 0 | Some u \<Rightarrow> f u) :: int)"
proof (induction d)
  case (Cons kv d)
  show ?case
  proof (cases "fst kv = k")
    case True
    then have "dict_pop d k = d" using Cons.prems by (intro dict_pop_absent) auto
    then show ?thesis using True by (simp add: dict_pop_def)
  next
    case False
    then show ?thesis using Cons by (simp add: dict_pop_def)
  qed
qed (simp add: dict_pop_def)

lemma sum_dict_list: "f [] = 0 \<Longrightarrow> (case map_of d k of None \<Rightarrow> 0 | Some u \<Rightarrow> f u) = (f (dict_list d k) :: int)"
  by (simp add: dict_list_def split: option.splits)

section \<open>Pruning\<close>

definition old_before :: "seconds \<Rightarrow> pub_event \<Rightarrow> bool" where
  "old_before cutoff m \<longleftrightarrow> pe_time m < cutoff"

lemma prune_scan_eq:
  "prune_scan cutoff (zip b (map f b)) (cached, low) =
     ((filter (\<lambda>m. \<not> old_before cutoff m) b, map f (filter (\<lambda>m. \<not> old_before cutoff m) b)),
      (cached - (\<Sum>m\<leftarrow>filter (old_before cutoff) b. f m), foldl max low (map pe_time (filter (old_before cutoff) b))),
      length (filter (old_before cutoff) b))"
  by (induction b arbitrary: cached low) (auto simp: old_before_def)

text \<open>The cache: one list of sizes per topic, exact, and the bytes cached are their sum.\<close>

definition bucket_bytes :: "(real \<Rightarrow> string) \<Rightarrow> pub_event list \<Rightarrow> int" where
  "bucket_bytes fl b = (\<Sum>m\<leftarrow>b. event_bytes fl m)"

definition cached_total :: "(real \<Rightarrow> string) \<Rightarrow> (string \<times> pub_event list) list \<Rightarrow> int" where
  "cached_total fl d = (\<Sum>kv\<leftarrow>d. bucket_bytes fl (snd kv))"

definition cache_wf :: "(real \<Rightarrow> string) \<Rightarrow> pubsub \<Rightarrow> bool" where
  "cache_wf fl st \<longleftrightarrow> distinct (map fst (pb_topics st)) \<and> pb_sizes st = map_vals (map (event_bytes fl)) (pb_topics st) \<and>
     (\<forall>kv \<in> set (pb_topics st). snd kv \<noteq> [] \<and> length (snd kv) \<le> 200) \<and> pb_cached st = cached_total fl (pb_topics st)"

lemma bucket_bytes_simps [simp]:
  "bucket_bytes fl [] = 0" "bucket_bytes fl (m # b) = event_bytes fl m + bucket_bytes fl b"
  "bucket_bytes fl (a @ b) = bucket_bytes fl a + bucket_bytes fl b"
  by (simp_all add: bucket_bytes_def)

lemma bucket_bytes_pos: "0 \<le> bucket_bytes fl b"
  by (induction b) (simp_all add: event_bytes_def)

lemma bucket_bytes_filter: "bucket_bytes fl (filter P b) + bucket_bytes fl (filter (\<lambda>m. \<not> P m) b) = bucket_bytes fl b"
  by (induction b) auto

lemma cached_total_set:
  "distinct (map fst d) \<Longrightarrow> cached_total fl (dict_set d k b) = cached_total fl d - bucket_bytes fl (dict_list d k) + bucket_bytes fl b"
  unfolding cached_total_def sum_dict_set by (simp add: sum_dict_list)

lemma cached_total_pop:
  "distinct (map fst d) \<Longrightarrow> cached_total fl (dict_pop d k) = cached_total fl d - bucket_bytes fl (dict_list d k)"
  unfolding cached_total_def sum_dict_pop by (simp add: sum_dict_list)

lemma cache_sizes: "cache_wf fl st \<Longrightarrow> dict_list (pb_sizes st) t = map (event_bytes fl) (dict_list (pb_topics st) t)"
  by (simp add: cache_wf_def dict_list_map_vals)

definition pruned_bucket :: "pubsub_config \<Rightarrow> seconds \<Rightarrow> string \<Rightarrow> pubsub \<Rightarrow> pub_event list" where
  "pruned_bucket c now t st = filter (\<lambda>m. \<not> old_before (now - pc_max_age c) m) (dict_list (pb_topics st) t)"

lemma prune_topic_eq:
  assumes "cache_wf fl st"
  shows "fst (prune_topic c now t st) = st\<lparr>
    pb_cached := pb_cached st - bucket_bytes fl (filter (old_before (now - pc_max_age c)) (dict_list (pb_topics st) t)),
    pb_floor := foldl max (pb_floor st) (map pe_time (filter (old_before (now - pc_max_age c)) (dict_list (pb_topics st) t))),
    pb_topics := (if pruned_bucket c now t st = [] then dict_pop (pb_topics st) t else dict_set (pb_topics st) t (pruned_bucket c now t st)),
    pb_sizes := (if pruned_bucket c now t st = [] then dict_pop (pb_sizes st) t
                 else dict_set (pb_sizes st) t (map (event_bytes fl) (pruned_bucket c now t st)))\<rparr>"
  unfolding prune_topic_def cache_sizes [OF assms] prune_scan_eq
  by (simp add: pruned_bucket_def bucket_bytes_def)

lemma wf_pop:
  assumes "cache_wf fl st"
  shows "cache_wf fl (st\<lparr>pb_topics := dict_pop (pb_topics st) t, pb_sizes := dict_pop (pb_sizes st) t,
    pb_cached := pb_cached st - bucket_bytes fl (dict_list (pb_topics st) t)\<rparr>)"
  using assms set_dict_pop [of "pb_topics st" t]
  by (auto simp: cache_wf_def map_vals_pop distinct_dict_pop cached_total_pop)

lemma wf_set:
  assumes "cache_wf fl st" "b \<noteq> []" "length b \<le> 200"
  shows "cache_wf fl (st\<lparr>pb_topics := dict_set (pb_topics st) t b, pb_sizes := dict_set (pb_sizes st) t (map (event_bytes fl) b),
    pb_cached := pb_cached st - bucket_bytes fl (dict_list (pb_topics st) t) + bucket_bytes fl b\<rparr>)"
  using assms set_dict_set [of "pb_topics st" t b]
  by (auto simp: cache_wf_def map_vals_set distinct_dict_set cached_total_set)

lemma bucket_length: "cache_wf fl st \<Longrightarrow> length (dict_list (pb_topics st) t) \<le> 200"
  by (auto simp: cache_wf_def dict_list_def split: option.splits dest!: map_of_SomeD)

lemma cache_wf_cong:
  "pb_topics st' = pb_topics st \<Longrightarrow> pb_sizes st' = pb_sizes st \<Longrightarrow> pb_cached st' = pb_cached st \<Longrightarrow> cache_wf fl st' = cache_wf fl st"
  by (simp only: cache_wf_def)

lemma prune_topic_wf:
  assumes "cache_wf fl st"
  shows "cache_wf fl (fst (prune_topic c now t st))" "pb_cached (fst (prune_topic c now t st)) \<le> pb_cached st"
    "length (pb_topics (fst (prune_topic c now t st))) \<le> length (pb_topics st)"
proof -
  let ?old = "filter (old_before (now - pc_max_age c)) (dict_list (pb_topics st) t)"
  let ?new = "pruned_bucket c now t st"
  have sum: "bucket_bytes fl ?old = bucket_bytes fl (dict_list (pb_topics st) t) - bucket_bytes fl ?new"
    using bucket_bytes_filter [of fl "old_before (now - pc_max_age c)" "dict_list (pb_topics st) t"]
    by (simp add: pruned_bucket_def)
  show "pb_cached (fst (prune_topic c now t st)) \<le> pb_cached st"
    using bucket_bytes_pos by (simp add: prune_topic_eq [OF assms])
  show "cache_wf fl (fst (prune_topic c now t st))"
  proof (cases "?new = []")
    case True
    show ?thesis using wf_pop [OF assms, of t] True sum
      by (subst cache_wf_cong [rotated 3]) (auto simp: prune_topic_eq [OF assms])
  next
    case False
    have "length ?new \<le> 200" using bucket_length [OF assms, of t] length_filter_le le_trans unfolding pruned_bucket_def by blast
    from wf_set [OF assms False this, of t] show ?thesis using False sum
      by (subst cache_wf_cong [rotated 3]) (auto simp: prune_topic_eq [OF assms])
  qed
  show "length (pb_topics (fst (prune_topic c now t st))) \<le> length (pb_topics st)"
  proof (cases "?new = []")
    case True
    then show ?thesis by (simp add: prune_topic_eq [OF assms] dict_pop_def)
  next
    case False
    then have "dict_list (pb_topics st) t \<noteq> []" by (auto simp: pruned_bucket_def)
    then have "t \<in> fst ` set (pb_topics st)"
      by (auto simp: dict_list_def split: option.splits dest!: map_of_SomeD intro: rev_image_eqI)
    then show ?thesis using False by (simp add: prune_topic_eq [OF assms] length_dict_set)
  qed
qed

section \<open>The cache stays within its limits\<close>

definition cache_bounded :: "pubsub_config \<Rightarrow> pubsub \<Rightarrow> bool" where
  "cache_bounded c st \<longleftrightarrow> pb_cached st \<le> int (pc_max_bytes c) \<and> length (pb_topics st) \<le> pc_max_topics c"

definition cache_ok :: "pubsub_config \<Rightarrow> (real \<Rightarrow> string) \<Rightarrow> pubsub \<Rightarrow> bool" where
  "cache_ok c fl st \<longleftrightarrow> cache_wf fl st \<and> cache_bounded c st"

lemma cache_ok_cong:
  "pb_topics st' = pb_topics st \<Longrightarrow> pb_sizes st' = pb_sizes st \<Longrightarrow> pb_cached st' = pb_cached st \<Longrightarrow> cache_ok c fl st' = cache_ok c fl st"
  by (simp only: cache_ok_def cache_wf_def cache_bounded_def)

lemma prune_topic_ok: "cache_ok c fl st \<Longrightarrow> cache_ok c fl (fst (prune_topic c now t st))"
  using prune_topic_wf [of fl st c now t] by (auto simp: cache_ok_def cache_bounded_def)

lemma prune_fold_ok: "cache_ok c fl st \<Longrightarrow> cache_ok c fl (foldl (\<lambda>s t. fst (prune_topic c now t s)) st ts)"
  by (induction ts arbitrary: st) (simp_all add: prune_topic_ok)

lemma prune_all_ok: "cache_ok c fl st \<Longrightarrow> cache_ok c fl (prune_all c now st)"
  by (simp add: prune_all_def prune_fold_ok)

lemma compact_state: "fst (compact c now st) = prune_all c now st"
proof -
  have "fst (foldl (\<lambda>(s, n) t. case prune_topic c now t s of (s', k) \<Rightarrow> (s', n + k)) (st, n) ts) =
      foldl (\<lambda>s t. fst (prune_topic c now t s)) st ts" for n :: nat and ts
    by (induction ts arbitrary: st n) (simp_all add: case_prod_beta)
  then show ?thesis by (simp add: compact_def prune_all_def case_prod_beta Let_def)
qed

lemma sum_map_bytes: "sum_list (map (event_bytes fl) b) = bucket_bytes fl b"
  by (simp add: bucket_bytes_def)

lemma clear_topic_ok:
  assumes "cache_ok c fl st"
  shows "cache_ok c fl (fst (clear_topic topic st))"
proof (cases "named_topic topic")
  case (Inl e)
  then show ?thesis using assms by (simp add: clear_topic_def)
next
  case (Inr t)
  have wf: "cache_wf fl st" using assms by (simp add: cache_ok_def)
  let ?st = "st\<lparr>pb_topics := dict_pop (pb_topics st) t, pb_sizes := dict_pop (pb_sizes st) t,
    pb_cached := pb_cached st - bucket_bytes fl (dict_list (pb_topics st) t)\<rparr>"
  have "cache_bounded c ?st"
    using assms bucket_bytes_pos [of fl "dict_list (pb_topics st) t"] length_dict_pop [of "pb_topics st" t]
    by (simp add: cache_ok_def cache_bounded_def)
  then have "cache_ok c fl ?st" using wf_pop [OF wf] by (simp add: cache_ok_def)
  then show ?thesis
    by (subst cache_ok_cong [rotated 3]) (auto simp: clear_topic_def Inr Let_def cache_sizes [OF wf] sum_map_bytes)
qed

lemma in_dict_list: "b = dict_list d k \<Longrightarrow> b \<noteq> [] \<Longrightarrow> k \<in> fst ` set d"
  by (auto simp: dict_list_def split: option.splits dest!: map_of_SomeD intro: rev_image_eqI)

text \<open>What the cache keeps of a topic beside the new message.\<close>

definition kept_bucket :: "string \<Rightarrow> pubsub \<Rightarrow> pub_event list" where
  "kept_bucket t st = (let b = dict_list (pb_topics st) t in if 200 \<le> length b then tl b else b)"

lemma cache_event_eq:
  assumes "cache_wf fl st"
  shows "pb_topics (cache_event fl e st) = dict_set (pb_topics st) (pe_topic e) (kept_bucket (pe_topic e) st @ [e])"
    "pb_sizes (cache_event fl e st) =
      dict_set (pb_sizes st) (pe_topic e) (map (event_bytes fl) (kept_bucket (pe_topic e) st @ [e]))"
    "pb_cached (cache_event fl e st) =
      pb_cached st - bucket_bytes fl (dict_list (pb_topics st) (pe_topic e)) + bucket_bytes fl (kept_bucket (pe_topic e) st @ [e])"
proof -
  let ?b = "dict_list (pb_topics st) (pe_topic e)"
  have full: "hd (map (event_bytes fl) ?b) = bucket_bytes fl ?b - bucket_bytes fl (tl ?b)" if "200 \<le> length ?b"
    using that by (cases ?b) auto
  show "pb_topics (cache_event fl e st) = dict_set (pb_topics st) (pe_topic e) (kept_bucket (pe_topic e) st @ [e])"
    "pb_sizes (cache_event fl e st) =
      dict_set (pb_sizes st) (pe_topic e) (map (event_bytes fl) (kept_bucket (pe_topic e) st @ [e]))"
    by (simp_all add: cache_event_def Let_def kept_bucket_def cache_sizes [OF assms] map_tl)
  show "pb_cached (cache_event fl e st) =
      pb_cached st - bucket_bytes fl ?b + bucket_bytes fl (kept_bucket (pe_topic e) st @ [e])"
    using full by (simp add: cache_event_def Let_def kept_bucket_def cache_sizes [OF assms])
qed

lemma cache_event_wf:
  assumes "cache_wf fl st"
  shows "cache_wf fl (cache_event fl e st)"
proof -
  have "length (kept_bucket (pe_topic e) st @ [e]) \<le> 200"
    using bucket_length [OF assms, of "pe_topic e"] by (simp add: kept_bucket_def Let_def)
  from wf_set [OF assms _ this, of "pe_topic e"] show ?thesis
    by (subst cache_wf_cong [rotated 3]) (simp_all add: cache_event_eq [OF assms])
qed

text \<open>The guard of \<open>publish\<close> is what keeps the bounds.\<close>

lemma cache_event_bounded:
  assumes "cache_wf fl st" "cache_bounded c st"
    and "dict_list (pb_topics st) (pe_topic e) \<noteq> [] \<or> length (pb_topics st) < pc_max_topics c"
    and "pb_cached st + event_bytes fl e -
      (if 200 \<le> length (dict_list (pb_topics st) (pe_topic e)) then hd (dict_list (pb_sizes st) (pe_topic e)) else 0) \<le> int (pc_max_bytes c)"
  shows "cache_bounded c (cache_event fl e st)"
proof -
  let ?b = "dict_list (pb_topics st) (pe_topic e)"
  have full: "200 \<le> length ?b \<Longrightarrow> hd (map (event_bytes fl) ?b) + bucket_bytes fl (tl ?b) = bucket_bytes fl ?b"
    by (cases ?b) auto
  have "pb_cached (cache_event fl e st) \<le> int (pc_max_bytes c)"
    using assms(4) full unfolding cache_event_eq [OF assms(1)]
    by (auto simp: kept_bucket_def Let_def cache_sizes [OF assms(1)] split: if_splits)
  moreover have "length (pb_topics (cache_event fl e st)) \<le> pc_max_topics c"
    using assms(2,3) in_dict_list [OF refl, of "pb_topics st" "pe_topic e"]
    by (auto simp: cache_event_eq [OF assms(1)] length_dict_set cache_bounded_def)
  ultimately show ?thesis by (simp add: cache_bounded_def)
qed

lemma fan_out_sel [simp]:
  "pb_topics (fan_out marks e st) = pb_topics st" "pb_sizes (fan_out marks e st) = pb_sizes st"
  "pb_cached (fan_out marks e st) = pb_cached st" "pb_floor (fan_out marks e st) = pb_floor st"
  "pb_count (fan_out marks e st) = pb_count st" "pb_slots (fan_out marks e st) = pb_slots st"
  by (simp_all add: fan_out_def split: option.splits)

lemma deliver_ok:
  assumes "cache_ok c fl st"
  shows "cache_ok c fl (fst (deliver c fl marks durable e st))"
proof -
  define st1 where "st1 = (if map_of (pb_topics st) (pe_topic e) = None \<or> int (pc_max_bytes c) < pb_cached st + event_bytes fl e
     then prune_all c (pe_time e) st else st)"
  have ok1: "cache_ok c fl st1" using assms prune_all_ok by (simp add: st1_def)
  define retained where "retained \<longleftrightarrow> (dict_list (pb_topics st1) (pe_topic e) \<noteq> [] \<or> length (pb_topics st1) < pc_max_topics c) \<and>
    pb_cached st1 + event_bytes fl e -
      (if 200 \<le> length (dict_list (pb_topics st1) (pe_topic e)) then hd (dict_list (pb_sizes st1) (pe_topic e)) else 0) \<le> int (pc_max_bytes c)"
  have ev: "cache_ok c fl (cache_event fl e st1)" if retained
    using ok1 that cache_event_wf cache_event_bounded unfolding cache_ok_def retained_def by blast
  have "deliver c fl marks durable e st = (if \<not> retained \<and> \<not> durable then (st1, None)
      else (fan_out marks e (if retained then cache_event fl e st1 else st1), Some retained))"
    unfolding deliver_def Let_def st1_def [symmetric] retained_def [symmetric] ..
  then show ?thesis using ok1 ev cache_ok_cong [of "fan_out marks e (if retained then cache_event fl e st1 else st1)"
        "if retained then cache_event fl e st1 else st1"] by (auto split: if_splits)
qed

section \<open>The subscribers\<close>

definition subs_sum :: "(sub_queue \<Rightarrow> int) \<Rightarrow> (string \<times> (string \<times> sub_queue) list) list \<Rightarrow> int" where
  "subs_sum f d = (\<Sum>kv\<leftarrow>d. \<Sum>sq\<leftarrow>snd kv. f (snd sq))"

definition sub_ok :: "sub_queue \<Rightarrow> bool" where
  "sub_ok q \<longleftrightarrow> queue_ok q \<and> 10 \<le> sq_max q \<and> sq_max q \<le> 1000"

definition subs_wf :: "pubsub \<Rightarrow> bool" where
  "subs_wf st \<longleftrightarrow> distinct (map fst (pb_subs st)) \<and>
     (\<forall>kv \<in> set (pb_subs st). distinct (map fst (snd kv)) \<and> snd kv \<noteq> [] \<and> (\<forall>sq \<in> set (snd kv). sub_ok (snd sq))) \<and>
     pb_count st = subs_sum (\<lambda>_. 1) (pb_subs st) \<and> pb_slots st = subs_sum (\<lambda>q. int (sq_max q)) (pb_subs st)"

definition subs_bounded :: "pubsub_config \<Rightarrow> pubsub \<Rightarrow> bool" where
  "subs_bounded c st \<longleftrightarrow> pb_count st \<le> int (pc_max_subscribers c) \<and> pb_slots st \<le> int (pc_max_slots c)"

lemma subs_wf_cong:
  "pb_subs st' = pb_subs st \<Longrightarrow> pb_count st' = pb_count st \<Longrightarrow> pb_slots st' = pb_slots st \<Longrightarrow> subs_wf st' = subs_wf st"
  by (simp only: subs_wf_def)

lemma subs_sum_set:
  "distinct (map fst d) \<Longrightarrow> subs_sum f (dict_set d k v) =
     subs_sum f d - (\<Sum>sq\<leftarrow>dict_list d k. f (snd sq)) + (\<Sum>sq\<leftarrow>v. f (snd sq))"
  unfolding subs_sum_def by (subst sum_dict_set [where f = "\<lambda>v. \<Sum>sq\<leftarrow>v. f (snd sq)"]) (simp_all add: sum_dict_list [where f = "\<lambda>v. \<Sum>sq\<leftarrow>v. f (snd sq)"])

lemma subs_sum_pop:
  "distinct (map fst d) \<Longrightarrow> subs_sum f (dict_pop d k) = subs_sum f d - (\<Sum>sq\<leftarrow>dict_list d k. f (snd sq))"
  unfolding subs_sum_def by (subst sum_dict_pop [where f = "\<lambda>v. \<Sum>sq\<leftarrow>v. f (snd sq)"]) (simp_all add: sum_dict_list [where f = "\<lambda>v. \<Sum>sq\<leftarrow>v. f (snd sq)"])

lemma subs_entry:
  assumes "subs_wf st"
  shows "distinct (map fst (dict_list (pb_subs st) t))" "\<forall>sq \<in> set (dict_list (pb_subs st) t). sub_ok (snd sq)"
  using assms by (force simp: subs_wf_def dict_list_def split: option.splits dest!: map_of_SomeD)+

lemma sum_one: "(\<Sum>x\<leftarrow>xs. 1) = int (length xs)"
  by (induction xs) simp_all

text \<open>The queues of one topic replaced by others.\<close>

lemma subs_wf_set:
  assumes "subs_wf st" "distinct (map fst v)" "v \<noteq> []" "\<forall>sq \<in> set v. sub_ok (snd sq)"
    and "count = pb_count st - int (length (dict_list (pb_subs st) t)) + int (length v)"
    and "slots = pb_slots st - (\<Sum>sq\<leftarrow>dict_list (pb_subs st) t. int (sq_max (snd sq))) + (\<Sum>sq\<leftarrow>v. int (sq_max (snd sq)))"
  shows "subs_wf (st\<lparr>pb_subs := dict_set (pb_subs st) t v, pb_count := count, pb_slots := slots\<rparr>)"
proof -
  have "distinct (map fst (snd kv)) \<and> snd kv \<noteq> [] \<and> (\<forall>sq \<in> set (snd kv). sub_ok (snd sq))"
    if "kv \<in> set (dict_set (pb_subs st) t v)" for kv
  proof -
    have "kv = (t, v) \<or> kv \<in> set (pb_subs st)" using that set_dict_set by fastforce
    then show ?thesis using assms(1-4) by (auto simp only: subs_wf_def snd_conv)
  qed
  then show ?thesis using assms by (simp add: subs_wf_def distinct_dict_set subs_sum_set sum_one)
qed

lemma subs_wf_pop:
  assumes "subs_wf st" "count = pb_count st - int (length (dict_list (pb_subs st) t))"
    and "slots = pb_slots st - (\<Sum>sq\<leftarrow>dict_list (pb_subs st) t. int (sq_max (snd sq)))"
  shows "subs_wf (st\<lparr>pb_subs := dict_pop (pb_subs st) t, pb_count := count, pb_slots := slots\<rparr>)"
proof -
  have "\<forall>kv \<in> set (dict_pop (pb_subs st) t). distinct (map fst (snd kv)) \<and> snd kv \<noteq> [] \<and> (\<forall>sq \<in> set (snd kv). sub_ok (snd sq))"
    using assms(1) set_dict_pop [of "pb_subs st" t] unfolding subs_wf_def by blast
  then show ?thesis using assms by (simp add: subs_wf_def distinct_dict_pop subs_sum_pop sum_one)
qed

lemma subs_wf_same:
  assumes "subs_wf st" "distinct (map fst v)" "v \<noteq> []" "\<forall>sq \<in> set v. sub_ok (snd sq)"
    and "length v = length (dict_list (pb_subs st) t)"
    and "(\<Sum>sq\<leftarrow>v. int (sq_max (snd sq))) = (\<Sum>sq\<leftarrow>dict_list (pb_subs st) t. int (sq_max (snd sq)))"
  shows "subs_wf (st\<lparr>pb_subs := dict_set (pb_subs st) t v\<rparr>)"
  using subs_wf_set [OF assms(1-4) refl refl, of t] assms(5,6) by (simp add: subs_wf_def)

lemma length_dict_set_fresh: "map_of d k = None \<Longrightarrow> dict_set d k v = d @ [(k, v)]"
  by (induction d k v rule: dict_set.induct) (auto split: if_splits)

lemma subscribe_ok:
  assumes "subs_wf st" "subs_bounded c st" "\<And>t. named_topic topic = Inr t \<Longrightarrow> map_of (dict_list (pb_subs st) t) sub_id = None"
  shows "subs_wf (fst (subscribe c sub_id topic n st)) \<and> subs_bounded c (fst (subscribe c sub_id topic n st))"
proof (cases "\<exists>t. named_topic topic = Inr t \<and> \<not> (n < 1 \<or> 1000 < n) \<and>
    \<not> (int (pc_max_subscribers c) \<le> pb_count st \<or> int (pc_max_slots c) < pb_slots st + max 10 n)")
  case True
  then obtain t where t: "named_topic topic = Inr t" "\<not> (n < 1 \<or> 1000 < n)"
    "\<not> (int (pc_max_subscribers c) \<le> pb_count st \<or> int (pc_max_slots c) < pb_slots st + max 10 n)" by blast
  note fresh = length_dict_set_fresh [OF assms(3) [OF t(1)]]
  let ?v = "dict_set (dict_list (pb_subs st) t) sub_id \<lparr>sq_max = nat (max 10 n), sq_items = []\<rparr>"
  have run: "fst (subscribe c sub_id topic n st) = st\<lparr>pb_subs := dict_set (pb_subs st) t ?v,
      pb_count := pb_count st + 1, pb_slots := pb_slots st + max 10 n\<rparr>"
    using t by (simp add: subscribe_def Let_def)
  have "subs_wf (st\<lparr>pb_subs := dict_set (pb_subs st) t ?v, pb_count := pb_count st + 1, pb_slots := pb_slots st + max 10 n\<rparr>)"
  proof (rule subs_wf_set [OF assms(1)])
    show "distinct (map fst ?v)" using subs_entry(1) [OF assms(1)] by (rule distinct_dict_set)
    show "\<forall>sq \<in> set ?v. sub_ok (snd sq)"
      using subs_entry(2) [OF assms(1), of t] t(2) by (auto simp: fresh sub_ok_def queue_ok_def)
  qed (simp_all add: fresh)
  then show ?thesis unfolding run using t(3) by (simp add: subs_bounded_def)
next
  case False
  then have "fst (subscribe c sub_id topic n st) = st"
    by (auto simp: subscribe_def Let_def split: sum.splits)
  then show ?thesis using assms by simp
qed

lemma dict_pop_sum:
  "distinct (map fst d) \<Longrightarrow> map_of d k = Some q \<Longrightarrow> (\<Sum>sq\<leftarrow>dict_pop d k. f (snd sq)) = (\<Sum>sq\<leftarrow>d. f (snd sq)) - (f q :: int)"
  by (simp add: sum_dict_pop)

lemma dict_pop_length:
  assumes "distinct (map fst d)" "map_of d k = Some q"
  shows "int (length (dict_pop d k)) = int (length d) - 1"
  using dict_pop_sum [OF assms, of "\<lambda>_. 1"] by (simp only: sum_one)

lemma unsubscribe_ok:
  assumes "subs_wf st" "subs_bounded c st"
  shows "subs_wf (fst (unsubscribe topic sub_id st)) \<and> subs_bounded c (fst (unsubscribe topic sub_id st))"
proof (cases "\<exists>t q. named_topic topic = Inr t \<and> map_of (dict_list (pb_subs st) t) sub_id = Some q")
  case True
  then obtain t q where t: "named_topic topic = Inr t" "map_of (dict_list (pb_subs st) t) sub_id = Some q" by blast
  let ?subs = "dict_list (pb_subs st) t" and ?v = "dict_pop (dict_list (pb_subs st) t) sub_id"
  let ?new = "if ?v = [] then dict_pop (pb_subs st) t else dict_set (pb_subs st) t ?v"
  let ?st = "st\<lparr>pb_subs := ?new, pb_count := pb_count st - 1, pb_slots := pb_slots st - int (sq_max q)\<rparr>"
  have run: "fst (unsubscribe topic sub_id st) = ?st"
    using t by (simp add: unsubscribe_def Let_def)
  note sums = dict_pop_sum [OF subs_entry(1) [OF assms(1)] t(2)] dict_pop_length [OF subs_entry(1) [OF assms(1)] t(2)]
  have "subs_wf ?st"
  proof (cases "?v = []")
    case True
    have "subs_wf (st\<lparr>pb_subs := dict_pop (pb_subs st) t, pb_count := pb_count st - 1, pb_slots := pb_slots st - int (sq_max q)\<rparr>)"
      by (rule subs_wf_pop [OF assms(1)]) (use True sums(1) [of "\<lambda>q. int (sq_max q)"] sums(2) in simp_all)
    then show ?thesis using True by simp
  next
    case False
    have "distinct (map fst ?v)" using subs_entry(1) [OF assms(1)] by (rule distinct_dict_pop)
    moreover have "\<forall>sq \<in> set ?v. sub_ok (snd sq)" using subs_entry(2) [OF assms(1)] set_dict_pop by fastforce
    ultimately have "subs_wf (st\<lparr>pb_subs := dict_set (pb_subs st) t ?v, pb_count := pb_count st - 1, pb_slots := pb_slots st - int (sq_max q)\<rparr>)"
      using False sums(1) [of "\<lambda>q. int (sq_max q)"] sums(2) by (intro subs_wf_set [OF assms(1)]) simp_all
    then show ?thesis using False by simp
  qed
  then show ?thesis unfolding run using assms(2) by (simp add: subs_bounded_def)
next
  case False
  then have "fst (unsubscribe topic sub_id st) = st"
    by (auto simp: unsubscribe_def Let_def split: sum.splits option.splits)
  then show ?thesis using assms by simp
qed

lemma sub_ok_enqueue: "sub_ok q \<Longrightarrow> sub_ok (enqueue q m)"
  using enqueue_ok [of q m] by (simp add: sub_ok_def)

lemma fan_out_subs:
  assumes "subs_wf st"
  shows "subs_wf (fan_out marks e st)"
proof (cases "map_of (pb_subs st) (pe_topic e)")
  case None
  then show ?thesis using assms by (simp add: fan_out_def)
next
  case (Some subs)
  have l: "dict_list (pb_subs st) (pe_topic e) = subs" using Some by (simp add: dict_list_def)
  note ok = subs_entry [OF assms, of "pe_topic e", unfolded l]
  have max: "sq_max (enqueue (snd sq) m) = sq_max (snd sq)" if "sq \<in> set subs" for sq m
    using enqueue_ok [of "snd sq" m] ok(2) that by (simp add: sub_ok_def)
  have "subs \<noteq> []" using assms Some by (auto simp: subs_wf_def dest!: map_of_SomeD)
  then have "subs_wf (st\<lparr>pb_subs := dict_set (pb_subs st) (pe_topic e)
      (map (\<lambda>(s, q). (s, enqueue q (fst (marks s), snd (marks s), e))) subs)\<rparr>)"
    using ok max by (intro subs_wf_same [OF assms])
      (auto simp: l comp_def case_prod_beta sub_ok_enqueue intro!: arg_cong [where f = sum_list])
  then show ?thesis using Some by (simp add: fan_out_def)
qed

section \<open>Every reachable state is within its bounds\<close>

lemma take_item_subs:
  assumes "subs_wf st"
  shows "subs_wf (fst (take_item t sub_id st))"
proof (cases "\<exists>q x q'. map_of (dict_list (pb_subs st) t) sub_id = Some q \<and> dequeue q = Some (x, q')")
  case True
  then obtain q x q' where q: "map_of (dict_list (pb_subs st) t) sub_id = Some q" "dequeue q = Some (x, q')" by blast
  let ?d = "dict_list (pb_subs st) t" and ?v = "dict_set (dict_list (pb_subs st) t) sub_id q'"
  note d = subs_entry [OF assms, of t]
  have m: "sq_max q' = sq_max q" using q(2) by (auto simp: dequeue_def split: list.splits)
  have "sub_ok q" using d(2) q(1) by (auto dest!: map_of_SomeD)
  then have q': "sub_ok q'" using dequeue_ok(1) [OF q(2)] m by (simp add: sub_ok_def)
  have "subs_wf (st\<lparr>pb_subs := dict_set (pb_subs st) t ?v\<rparr>)"
  proof (rule subs_wf_same [OF assms])
    show "distinct (map fst ?v)" using d(1) by (rule distinct_dict_set)
    show "?v \<noteq> []" by simp
    show "\<forall>sq \<in> set ?v. sub_ok (snd sq)" using set_dict_set [of ?d sub_id q'] d(2) q' by fastforce
    have "sub_id \<in> fst ` set ?d" using q(1) by (auto dest!: map_of_SomeD intro: rev_image_eqI)
    then show "length ?v = length ?d" by (simp add: length_dict_set)
    show "(\<Sum>sq\<leftarrow>?v. int (sq_max (snd sq))) = (\<Sum>sq\<leftarrow>?d. int (sq_max (snd sq)))"
      by (subst sum_dict_set [OF d(1)]) (simp add: q(1) m)
  qed
  then show ?thesis using q by (simp add: take_item_def)
next
  case False
  then have "fst (take_item t sub_id st) = st" by (auto simp: take_item_def split: option.splits)
  then show ?thesis using assms by simp
qed

definition pubsub_ok :: "pubsub_config \<Rightarrow> (real \<Rightarrow> string) \<Rightarrow> pubsub \<Rightarrow> bool" where
  "pubsub_ok c fl st \<longleftrightarrow> cache_ok c fl st \<and> subs_wf st \<and> subs_bounded c st"

lemma prune_topic_subs:
  "pb_subs (fst (prune_topic c now t st)) = pb_subs st" "pb_count (fst (prune_topic c now t st)) = pb_count st"
  "pb_slots (fst (prune_topic c now t st)) = pb_slots st"
  by (simp_all add: prune_topic_def case_prod_beta Let_def)

lemma prune_all_subs:
  "pb_subs (prune_all c now st) = pb_subs st" "pb_count (prune_all c now st) = pb_count st"
  "pb_slots (prune_all c now st) = pb_slots st"
proof -
  have "pb_subs (foldl (\<lambda>s t. fst (prune_topic c now t s)) st ts) = pb_subs st \<and>
      pb_count (foldl (\<lambda>s t. fst (prune_topic c now t s)) st ts) = pb_count st \<and>
      pb_slots (foldl (\<lambda>s t. fst (prune_topic c now t s)) st ts) = pb_slots st" for ts
    by (induction ts arbitrary: st) (simp_all add: prune_topic_subs)
  then show "pb_subs (prune_all c now st) = pb_subs st" "pb_count (prune_all c now st) = pb_count st"
    "pb_slots (prune_all c now st) = pb_slots st" by (simp_all add: prune_all_def)
qed

lemma deliver_cases:
  obtains st1 where "st1 \<in> {st, prune_all c (pe_time e) st}"
    "fst (deliver c fl marks durable e st) \<in> {st1, fan_out marks e (cache_event fl e st1), fan_out marks e st1}"
proof -
  define st1 where "st1 = (if map_of (pb_topics st) (pe_topic e) = None \<or> int (pc_max_bytes c) < pb_cached st + event_bytes fl e
     then prune_all c (pe_time e) st else st)"
  have "fst (deliver c fl marks durable e st) \<in> {st1, fan_out marks e (cache_event fl e st1), fan_out marks e st1}"
    unfolding deliver_def Let_def st1_def [symmetric] by (simp split: if_split)
  moreover have "st1 \<in> {st, prune_all c (pe_time e) st}" by (simp add: st1_def)
  ultimately show thesis by (rule that [rotated])
qed

lemma cache_event_subs:
  "pb_subs (cache_event fl e st) = pb_subs st" "pb_count (cache_event fl e st) = pb_count st"
  "pb_slots (cache_event fl e st) = pb_slots st"
  by (simp_all add: cache_event_def Let_def)

lemma deliver_subs:
  assumes "subs_wf st" "subs_bounded c st"
  shows "subs_wf (fst (deliver c fl marks durable e st)) \<and> subs_bounded c (fst (deliver c fl marks durable e st))"
proof -
  obtain st1 where st1: "st1 \<in> {st, prune_all c (pe_time e) st}"
    "fst (deliver c fl marks durable e st) \<in> {st1, fan_out marks e (cache_event fl e st1), fan_out marks e st1}"
    by (rule deliver_cases)
  have "subs_wf st1" "subs_bounded c st1"
    using st1(1) assms subs_wf_cong [of "prune_all c (pe_time e) st" st] by (auto simp: prune_all_subs subs_bounded_def)
  moreover from this have "subs_wf (cache_event fl e st1)" "subs_bounded c (cache_event fl e st1)"
    using subs_wf_cong [of "cache_event fl e st1" st1] by (auto simp: cache_event_subs subs_bounded_def)
  ultimately show ?thesis using st1(2) fan_out_subs by (auto simp: subs_bounded_def)
qed

text \<open>What \<open>publish\<close> does to the state is nothing, or the delivery of one event.\<close>

lemma publish_state:
  "fst (publish c fl hashed marks store uid now topic message sender key st) = st \<or>
   (\<exists>e. fst (publish c fl hashed marks store uid now topic message sender key st) = fst (deliver c fl marks (store \<noteq> None) e st))"
proof (cases "checked_message c fl topic message sender key")
  case (Inr r)
  obtain t body where r: "r = (t, body)" by (cases r)
  show ?thesis
    by (auto simp: publish_def Inr r Let_def case_prod_beta split: option.splits append_result.splits bool.splits)
qed (simp add: publish_def)

lemma publish_ok: "pubsub_ok c fl st \<Longrightarrow> pubsub_ok c fl (fst (publish c fl hashed marks store uid now topic message sender key st))"
  using publish_state [of c fl hashed marks store uid now topic message sender key st] deliver_ok deliver_subs
  unfolding pubsub_ok_def by metis

lemma poll_state: "fst (poll c now topic since limit after_seq st) \<in> insert st (range (\<lambda>t. fst (prune_topic c now t st)))"
  by (auto simp: poll_def Let_def split: sum.splits)

lemma prune_topic_pubsub_ok: "pubsub_ok c fl st \<Longrightarrow> pubsub_ok c fl (fst (prune_topic c now t st))"
  using subs_wf_cong [of "fst (prune_topic c now t st)" st]
  by (simp add: pubsub_ok_def prune_topic_ok prune_topic_subs subs_bounded_def)

lemma clear_topic_subs:
  "pb_subs (fst (clear_topic topic st)) = pb_subs st" "pb_count (fst (clear_topic topic st)) = pb_count st"
  "pb_slots (fst (clear_topic topic st)) = pb_slots st"
  by (simp_all add: clear_topic_def Let_def split: sum.splits)

lemma subscribe_cache:
  "pb_topics (fst (subscribe c sub_id topic n st)) = pb_topics st" "pb_sizes (fst (subscribe c sub_id topic n st)) = pb_sizes st"
  "pb_cached (fst (subscribe c sub_id topic n st)) = pb_cached st" "pb_floor (fst (subscribe c sub_id topic n st)) = pb_floor st"
  by (simp_all add: subscribe_def Let_def split: sum.splits)

lemma unsubscribe_cache:
  "pb_topics (fst (unsubscribe topic sub_id st)) = pb_topics st" "pb_sizes (fst (unsubscribe topic sub_id st)) = pb_sizes st"
  "pb_cached (fst (unsubscribe topic sub_id st)) = pb_cached st" "pb_floor (fst (unsubscribe topic sub_id st)) = pb_floor st"
  by (simp_all add: unsubscribe_def Let_def split: sum.splits option.splits)

lemma take_item_cache:
  "pb_topics (fst (take_item t sub_id st)) = pb_topics st" "pb_sizes (fst (take_item t sub_id st)) = pb_sizes st"
  "pb_cached (fst (take_item t sub_id st)) = pb_cached st" "pb_floor (fst (take_item t sub_id st)) = pb_floor st"
  "pb_count (fst (take_item t sub_id st)) = pb_count st" "pb_slots (fst (take_item t sub_id st)) = pb_slots st"
  by (simp_all add: take_item_def split: option.splits)

lemmas cache_frame = subscribe_cache unsubscribe_cache take_item_cache

lemma step_ok: "pubsub_step c fl hashed st st' \<Longrightarrow> pubsub_ok c fl st \<Longrightarrow> pubsub_ok c fl st'"
proof (induction rule: pubsub_step.induct)
  case (Subscribe st sub_id topic n)
  then show ?case using subscribe_ok [of st c topic sub_id n] cache_ok_cong [of "fst (subscribe c sub_id topic n st)" st]
    by (simp add: pubsub_ok_def cache_frame)
next
  case (Unsubscribe st topic sub_id)
  then show ?case using unsubscribe_ok [of st c topic sub_id] cache_ok_cong [of "fst (unsubscribe topic sub_id st)" st]
    by (simp add: pubsub_ok_def cache_frame)
next
  case (Publish st marks store uid now topic message sender key)
  then show ?case by (rule publish_ok)
next
  case (Clear st topic)
  then show ?case using subs_wf_cong [of "fst (clear_topic topic st)" st]
    by (simp add: pubsub_ok_def clear_topic_ok clear_topic_subs subs_bounded_def)
next
  case (Compact st now)
  then show ?case using subs_wf_cong [of "prune_all c now st" st]
    by (simp add: pubsub_ok_def compact_state prune_all_ok prune_all_subs subs_bounded_def)
next
  case (Poll st now topic since limit after_seq)
  then show ?case using poll_state [of c now topic since limit after_seq st] prune_topic_pubsub_ok by auto
next
  case (Get st t sub_id)
  then show ?case using take_item_subs [of st t sub_id] cache_ok_cong [of "fst (take_item t sub_id st)" st]
    by (simp add: pubsub_ok_def cache_frame subs_bounded_def)
qed

lemma new_ok: "pubsub_ok c fl new_pubsub"
  by (simp add: pubsub_ok_def cache_ok_def cache_wf_def cache_bounded_def subs_wf_def subs_bounded_def new_pubsub_def
      cached_total_def subs_sum_def)

lemma reachable_ok: "(pubsub_step c fl hashed)\<^sup>*\<^sup>* new_pubsub st \<Longrightarrow> pubsub_ok c fl st"
  by (induction rule: rtranclp_induct) (simp_all add: new_ok step_ok)

text \<open>
  After any calls of the service by any publishers and subscribers, the bytes it accounts for are
  exactly those of the cached messages and within the limit, as are the topics and the 200 messages
  of each; the number of subscribers and of queue slots are exactly those of the registered queues
  and within their limits, and no queue holds more than its size.
\<close>

theorem pubsub_bounded:
  assumes "(pubsub_step c fl hashed)\<^sup>*\<^sup>* new_pubsub st"
  shows "pb_cached st = (\<Sum>kv\<leftarrow>pb_topics st. \<Sum>m\<leftarrow>snd kv. event_bytes fl m) \<and> pb_cached st \<le> int (pc_max_bytes c) \<and>
    length (pb_topics st) \<le> pc_max_topics c \<and> list_all (\<lambda>kv. length (snd kv) \<le> 200) (pb_topics st) \<and>
    pb_count st = (\<Sum>kv\<leftarrow>pb_subs st. int (length (snd kv))) \<and> pb_count st \<le> int (pc_max_subscribers c) \<and>
    pb_slots st = (\<Sum>kv\<leftarrow>pb_subs st. \<Sum>sq\<leftarrow>snd kv. int (sq_max (snd sq))) \<and> pb_slots st \<le> int (pc_max_slots c) \<and>
    list_all (\<lambda>kv. list_all (\<lambda>sq. length (sq_items (snd sq)) \<le> sq_max (snd sq)) (snd kv)) (pb_subs st)"
proof -
  have ok: "cache_wf fl st" "cache_bounded c st" "subs_wf st" "subs_bounded c st"
    using reachable_ok [OF assms] by (simp_all add: pubsub_ok_def cache_ok_def)
  have "list_all (\<lambda>kv. list_all (\<lambda>sq. length (sq_items (snd sq)) \<le> sq_max (snd sq)) (snd kv)) (pb_subs st)"
    using ok(3) by (auto simp: subs_wf_def sub_ok_def queue_ok_def list_all_iff)
  moreover have "list_all (\<lambda>kv. length (snd kv) \<le> 200) (pb_topics st)" using ok(1) by (auto simp: cache_wf_def list_all_iff)
  moreover have "pb_cached st = (\<Sum>kv\<leftarrow>pb_topics st. \<Sum>m\<leftarrow>snd kv. event_bytes fl m)"
    using ok(1) by (simp add: cache_wf_def cached_total_def bucket_bytes_def)
  ultimately show ?thesis using ok(2-4) by (simp add: cache_bounded_def subs_wf_def subs_bounded_def subs_sum_def sum_one)
qed

definition ex_config :: pubsub_config where
  "ex_config = \<lparr>pc_max_age = 3600, pc_max_topics = 500, pc_max_subscribers = 256, pc_max_slots = 4096,
     pc_max_bytes = 8388608, pc_max_message = 65536\<rparr>"

theorem pubsub_bounded_witness:
  "\<exists>st. st = fst (subscribe ex_config ''sub_1'' ''Jobs'' 5 new_pubsub) \<and> pb_count st = 1 \<and> pb_slots st = 10 \<and>
     pb_count st = (\<Sum>kv\<leftarrow>pb_subs st. int (length (snd kv)))"
proof -
  let ?st = "fst (subscribe ex_config ''sub_1'' ''Jobs'' 5 new_pubsub)"
  have "pubsub_step ex_config (\<lambda>_. []) id new_pubsub ?st"
    by (rule Subscribe) (simp add: new_pubsub_def dict_list_def)
  then have "(pubsub_step ex_config (\<lambda>_. []) id)\<^sup>*\<^sup>* new_pubsub ?st" by (rule r_into_rtranclp)
  from pubsub_bounded [OF this] have "pb_count ?st = (\<Sum>kv\<leftarrow>pb_subs ?st. int (length (snd kv)))" by blast
  moreover have "named_topic ''Jobs'' = Inr ''jobs''" by code_simp
  then have "pb_count ?st = 1 \<and> pb_slots ?st = 10"
    by (simp add: subscribe_def ex_config_def new_pubsub_def Let_def)
  ultimately show ?thesis by blast
qed

end
