(* ===== verification/Pubsub_Retention.thy ===== *)
theory Pubsub_Retention
  imports Pubsub_Cache
begin

text \<open>
  What a poller of the process-local cache is told.  Messages leave the cache by age, by the limit of
  200 a topic, and when a topic is cleared; a poll from a time later than zero reports a gap when it
  may have missed one.  The theorem shows the report is never missed when the clock does not run
  backwards between calls.
\<close>

section \<open>Runs with a clock and a log\<close>

text \<open>
  The calls of the process-local service with the time of each, and the accepted publications so far.
  The code reads the clock before it takes the lock; here the order of the calls is the order of
  their times.
\<close>

inductive clocked_run ::
  "pubsub_config \<Rightarrow> (real \<Rightarrow> string) \<Rightarrow> (string \<Rightarrow> string) \<Rightarrow> seconds \<Rightarrow> publish_result list \<Rightarrow> pubsub \<Rightarrow> bool"
  for c fl hashed where
  Start: "clocked_run c fl hashed 0 [] new_pubsub"
| Accepted: "clocked_run c fl hashed t past st \<Longrightarrow> t \<le> now \<Longrightarrow>
     publish c fl hashed marks None uid now topic message sender key st = (st', Inr r) \<Longrightarrow>
     clocked_run c fl hashed now (past @ [r]) st'"
| Refused: "clocked_run c fl hashed t past st \<Longrightarrow> t \<le> now \<Longrightarrow>
     publish c fl hashed marks None uid now topic message sender key st = (st', Inl e) \<Longrightarrow>
     clocked_run c fl hashed now past st'"
| Cleared: "clocked_run c fl hashed t past st \<Longrightarrow> clocked_run c fl hashed t past (fst (clear_topic topic st))"
| Compacted: "clocked_run c fl hashed t past st \<Longrightarrow> t \<le> now \<Longrightarrow> clocked_run c fl hashed now past (fst (compact c now st))"
| Polled: "clocked_run c fl hashed t past st \<Longrightarrow> t \<le> now \<Longrightarrow>
     clocked_run c fl hashed now past (fst (poll c now topic since limit after_seq st))"
| Subscribed: "clocked_run c fl hashed t past st \<Longrightarrow> clocked_run c fl hashed t past (fst (subscribe c sub_id topic n st))"
| Unsubscribed: "clocked_run c fl hashed t past st \<Longrightarrow> clocked_run c fl hashed t past (fst (unsubscribe topic sub_id st))"
| Taken: "clocked_run c fl hashed t past st \<Longrightarrow> clocked_run c fl hashed t past (fst (take_item tp sub_id st))"

section \<open>What is cached, and what the floor says of the rest\<close>

abbreviation bucket :: "pubsub \<Rightarrow> string \<Rightarrow> pub_event list" where
  "bucket st t \<equiv> dict_list (pb_topics st) t"

text \<open>An accepted publication is in its bucket, or older than the floor and all that is there.\<close>

definition retained_or_old :: "pubsub \<Rightarrow> publish_result \<Rightarrow> bool" where
  "retained_or_old st r \<longleftrightarrow>
     (\<exists>e \<in> set (bucket st (pr_topic r)). pe_id e = pr_id r \<and> pe_time e = pr_time r) \<or>
     (pr_time r \<le> pb_floor st \<and> (\<forall>e \<in> set (bucket st (pr_topic r)). pr_time r \<le> pe_time e))"

definition retention_ok :: "(real \<Rightarrow> string) \<Rightarrow> seconds \<Rightarrow> publish_result list \<Rightarrow> pubsub \<Rightarrow> bool" where
  "retention_ok fl clock past st \<longleftrightarrow> cache_wf fl st \<and>
     (\<forall>t. sorted (map pe_time (bucket st t)) \<and> (\<forall>e \<in> set (bucket st t). pe_time e \<le> clock)) \<and>
     (\<forall>r \<in> set past. pr_time r \<le> clock \<and> retained_or_old st r)"

lemma retention_later: "retention_ok fl t past st \<Longrightarrow> t \<le> now \<Longrightarrow> retention_ok fl now past st"
  unfolding retention_ok_def by (meson order_trans)

lemma retention_frame:
  assumes "retention_ok fl t past st" "pb_topics st' = pb_topics st" "pb_sizes st' = pb_sizes st"
    "pb_cached st' = pb_cached st" "pb_floor st' = pb_floor st"
  shows "retention_ok fl t past st'"
  using assms cache_wf_cong [OF assms(2-4)] by (simp add: retention_ok_def retained_or_old_def)

text \<open>Removing a part of one bucket whose messages are no later than the rest and than the new floor.\<close>

lemma retention_shrink:
  assumes "retention_ok fl clock past st" "cache_wf fl st'"
    and "\<And>t'. bucket st' t' = (if t' = t then kept else bucket st t')" "sorted (map pe_time kept)"
    and "set kept \<subseteq> set (bucket st t)" "pb_floor st \<le> pb_floor st'"
    and "\<And>e. e \<in> set (bucket st t) \<Longrightarrow> e \<in> set kept \<or> (pe_time e \<le> pb_floor st' \<and> (\<forall>k \<in> set kept. pe_time e \<le> pe_time k))"
  shows "retention_ok fl clock past st'"
proof -
  have "retained_or_old st' r" if "r \<in> set past" for r
  proof (cases "pr_topic r = t")
    case True
    have "retained_or_old st r" using assms(1) that by (simp add: retention_ok_def)
    then show ?thesis
      unfolding retained_or_old_def True
    proof
      assume "\<exists>e \<in> set (bucket st t). pe_id e = pr_id r \<and> pe_time e = pr_time r"
      then obtain e where e: "e \<in> set (bucket st t)" "pe_id e = pr_id r" "pe_time e = pr_time r" by blast
      then show "(\<exists>e \<in> set (bucket st' t). pe_id e = pr_id r \<and> pe_time e = pr_time r) \<or>
          (pr_time r \<le> pb_floor st' \<and> (\<forall>e \<in> set (bucket st' t). pr_time r \<le> pe_time e))"
        using assms(7) [OF e(1)] assms(3) [of t] by auto
    next
      assume old: "pr_time r \<le> pb_floor st \<and> (\<forall>e \<in> set (bucket st t). pr_time r \<le> pe_time e)"
      then have "pr_time r \<le> pb_floor st'" using assms(6) by linarith
      then show "(\<exists>e \<in> set (bucket st' t). pe_id e = pr_id r \<and> pe_time e = pr_time r) \<or>
          (pr_time r \<le> pb_floor st' \<and> (\<forall>e \<in> set (bucket st' t). pr_time r \<le> pe_time e))"
        using old assms(3) [of t] assms(5) by auto
    qed
  next
    case False
    have "retained_or_old st r" using assms(1) that by (simp add: retention_ok_def)
    then show ?thesis using assms(3) [of "pr_topic r"] assms(6) False unfolding retained_or_old_def
      by (auto intro: order_trans)
  qed
  moreover have "sorted (map pe_time (bucket st' t')) \<and> (\<forall>e \<in> set (bucket st' t'). pe_time e \<le> clock)" for t'
    using assms(1,4,5) assms(3) [of t'] by (auto simp: retention_ok_def)
  ultimately show ?thesis using assms(1,2) by (simp add: retention_ok_def)
qed

lemma foldl_max_ge: "(x::real) \<le> foldl max x xs \<and> (\<forall>y \<in> set xs. y \<le> foldl max x xs)"
proof (induction xs arbitrary: x)
  case (Cons y ys)
  then show ?case using Cons.IH [of "max x y"] by (auto intro: order_trans [of _ "max x y"])
qed simp

section \<open>Each call keeps the account\<close>

lemma prune_topic_retention:
  assumes "retention_ok fl clock past st"
  shows "retention_ok fl clock past (fst (prune_topic c now t st))"
proof -
  have wf: "cache_wf fl st" using assms by (simp add: retention_ok_def)
  let ?cut = "now - pc_max_age c" and ?st = "fst (prune_topic c now t st)"
  let ?kept = "pruned_bucket c now t st"
  have floor: "pb_floor ?st = foldl max (pb_floor st) (map pe_time (filter (old_before ?cut) (bucket st t)))"
    by (simp add: prune_topic_eq [OF wf])
  show ?thesis
  proof (rule retention_shrink [OF assms prune_topic_wf(1) [OF wf]])
    show "bucket ?st t' = (if t' = t then ?kept else bucket st t')" for t' by (simp add: prune_topic_eq [OF wf])
    show "sorted (map pe_time ?kept)"
      using assms by (simp add: retention_ok_def pruned_bucket_def sorted_filter)
    show "set ?kept \<subseteq> set (bucket st t)" by (auto simp: pruned_bucket_def)
    show "pb_floor st \<le> pb_floor ?st" using foldl_max_ge unfolding floor by blast
    fix e assume "e \<in> set (bucket st t)"
    then consider "e \<in> set ?kept" | "e \<in> set (filter (old_before ?cut) (bucket st t))" by (auto simp: pruned_bucket_def)
    then show "e \<in> set ?kept \<or> (pe_time e \<le> pb_floor ?st \<and> (\<forall>k \<in> set ?kept. pe_time e \<le> pe_time k))"
    proof cases
      case 2
      then have "pe_time e \<le> pb_floor ?st" unfolding floor using foldl_max_ge by simp
      moreover have "\<forall>k \<in> set ?kept. pe_time e \<le> pe_time k" using 2 by (auto simp: pruned_bucket_def old_before_def)
      ultimately show ?thesis by blast
    qed blast
  qed
qed

lemma prune_fold_retention:
  "retention_ok fl clock past st \<Longrightarrow> retention_ok fl clock past (foldl (\<lambda>s t. fst (prune_topic c now t s)) st ts)"
  by (induction ts arbitrary: st) (simp_all add: prune_topic_retention)

lemma prune_all_retention: "retention_ok fl clock past st \<Longrightarrow> retention_ok fl clock past (prune_all c now st)"
  by (simp add: prune_all_def prune_fold_retention)

lemma clear_topic_retention:
  assumes "retention_ok fl clock past st"
  shows "retention_ok fl clock past (fst (clear_topic topic st))"
proof (cases "named_topic topic")
  case (Inl e)
  then show ?thesis using assms by (simp add: clear_topic_def)
next
  case (Inr t)
  have wf: "cache_wf fl st" using assms by (simp add: retention_ok_def)
  let ?st = "fst (clear_topic topic st)"
  have sel: "pb_topics ?st = dict_pop (pb_topics st) t" "pb_sizes ?st = dict_pop (pb_sizes st) t"
    "pb_cached ?st = pb_cached st - bucket_bytes fl (bucket st t)"
    "pb_floor ?st = (if bucket st t = [] then pb_floor st else max (pb_floor st) (Max (set (map pe_time (bucket st t)))))"
    by (simp_all add: clear_topic_def Inr Let_def cache_sizes [OF wf] sum_map_bytes)
  show ?thesis
  proof (rule retention_shrink [OF assms])
    show "cache_wf fl ?st" using wf_pop [OF wf, of t] by (subst cache_wf_cong [rotated 3]) (simp_all add: sel)
    show "bucket ?st t' = (if t' = t then [] else bucket st t')" for t' by (simp add: sel)
    show "pb_floor st \<le> pb_floor ?st" by (simp add: sel)
    fix e assume e: "e \<in> set (bucket st t)"
    then have "pe_time e \<le> Max (set (map pe_time (bucket st t)))" by (intro Max_ge) auto
    then have "pe_time e \<le> pb_floor ?st" using e by (auto simp: sel le_max_iff_disj)
    then show "e \<in> set [] \<or> (pe_time e \<le> pb_floor ?st \<and> (\<forall>k \<in> set []. pe_time e \<le> pe_time k))" by simp
  qed simp_all
qed

text \<open>The oldest message makes room, then the new one is added at the end.\<close>

lemma cache_event_retention:
  assumes "retention_ok fl clock past st" "clock \<le> pe_time e" "pr_topic r = pe_topic e" "pr_id r = pe_id e" "pr_time r = pe_time e"
  shows "retention_ok fl (pe_time e) (past @ [r]) (cache_event fl e st)"
proof -
  have wf: "cache_wf fl st" using assms(1) by (simp add: retention_ok_def)
  let ?t = "pe_topic e" and ?st = "cache_event fl e st" and ?b = "bucket st (pe_topic e)"
  have b: "bucket ?st t = (if t = ?t then kept_bucket ?t st @ [e] else bucket st t)" for t
    by (simp add: cache_event_eq [OF wf])
  have ord: "sorted (map pe_time (bucket st t))" "\<forall>k \<in> set (bucket st t). pe_time k \<le> pe_time e" for t
    using assms(1,2) by (auto simp: retention_ok_def intro: order_trans)
  have kept: "set (kept_bucket ?t st) \<subseteq> set ?b" "sorted (map pe_time (kept_bucket ?t st))"
    using ord(1) [of ?t] by (auto simp: kept_bucket_def Let_def map_tl sorted_tl dest: list.set_sel(2) [rotated])
  have floor: "pb_floor st \<le> pb_floor ?st" by (simp add: cache_event_def Let_def)
  have lost: "k \<in> set (kept_bucket ?t st) \<or> (pe_time k \<le> pb_floor ?st \<and> (\<forall>x \<in> set (bucket ?st ?t). pe_time k \<le> pe_time x))"
    if k: "k \<in> set ?b" for k
  proof (cases "200 \<le> length ?b \<and> k = hd ?b")
    case True
    then obtain bs where bs: "?b = k # bs" using k by (cases ?b) auto
    have "pe_time k \<le> pb_floor ?st" using True bs by (simp add: cache_event_def Let_def)
    moreover have rest: "bucket ?st ?t = bs @ [e]" using True bs by (simp only: b kept_bucket_def Let_def simp_thms if_True list.sel)
    have "sorted (map pe_time (k # bs))" using ord(1) [of ?t] unfolding bs .
    then have "\<forall>x \<in> set bs. pe_time k \<le> pe_time x" by simp
    moreover have "pe_time k \<le> pe_time e" using ord(2) k by blast
    ultimately show ?thesis unfolding rest by simp
  next
    case False
    then have "k \<in> set (kept_bucket ?t st)" using k by (cases ?b) (auto simp: kept_bucket_def Let_def)
    then show ?thesis by blast
  qed
  have "retained_or_old ?st p" if "p \<in> set past" for p
  proof -
    have p: "pr_time p \<le> clock" "retained_or_old st p" using assms(1) that by (auto simp: retention_ok_def)
    show ?thesis
    proof (cases "pr_topic p = ?t")
      case True
      from p(2) show ?thesis
        unfolding retained_or_old_def True
      proof
        assume "\<exists>k \<in> set ?b. pe_id k = pr_id p \<and> pe_time k = pr_time p"
        then obtain k where k: "k \<in> set ?b" "pe_id k = pr_id p" "pe_time k = pr_time p" by blast
        show "(\<exists>k \<in> set (bucket ?st ?t). pe_id k = pr_id p \<and> pe_time k = pr_time p) \<or>
            (pr_time p \<le> pb_floor ?st \<and> (\<forall>k \<in> set (bucket ?st ?t). pr_time p \<le> pe_time k))"
          using lost [OF k(1)] k(2,3) b [of ?t] by auto
      next
        assume old: "pr_time p \<le> pb_floor st \<and> (\<forall>k \<in> set ?b. pr_time p \<le> pe_time k)"
        then have "pr_time p \<le> pb_floor ?st" using floor by linarith
        then show "(\<exists>k \<in> set (bucket ?st ?t). pe_id k = pr_id p \<and> pe_time k = pr_time p) \<or>
            (pr_time p \<le> pb_floor ?st \<and> (\<forall>k \<in> set (bucket ?st ?t). pr_time p \<le> pe_time k))"
          using old kept(1) p(1) assms(2) b [of ?t] by auto
      qed
    next
      case False
      then show ?thesis using p(2) floor b [of "pr_topic p"] by (auto simp: retained_or_old_def intro: order_trans)
    qed
  qed
  moreover have "retained_or_old ?st r" using assms(3-5) b [of ?t] by (auto simp: retained_or_old_def)
  moreover have "sorted (map pe_time (bucket ?st t)) \<and> (\<forall>k \<in> set (bucket ?st t). pe_time k \<le> pe_time e)" for t
    using ord [of t] kept ord(2) [of ?t] b [of t] by (auto simp: sorted_append)
  moreover have "pr_time p \<le> pe_time e" if "p \<in> set past" for p
    using assms(1,2) that by (auto simp: retention_ok_def intro: order_trans)
  ultimately show ?thesis using cache_event_wf [OF wf] assms(5) by (simp add: retention_ok_def)
qed

lemma fan_out_retention: "retention_ok fl clock past (fan_out marks e st) = retention_ok fl clock past st"
  using cache_wf_cong [of "fan_out marks e st" st] by (simp add: retention_ok_def retained_or_old_def)

lemma deliver_local:
  obtains st1 where "st1 \<in> {st, prune_all c (pe_time e) st}"
    "deliver c fl marks False e st = (st1, None) \<or> deliver c fl marks False e st = (fan_out marks e (cache_event fl e st1), Some True)"
proof -
  define st1 where "st1 = (if map_of (pb_topics st) (pe_topic e) = None \<or> int (pc_max_bytes c) < pb_cached st + event_bytes fl e
     then prune_all c (pe_time e) st else st)"
  have "deliver c fl marks False e st = (st1, None) \<or> deliver c fl marks False e st = (fan_out marks e (cache_event fl e st1), Some True)"
    unfolding deliver_def Let_def st1_def [symmetric] by (simp split: if_split)
  moreover have "st1 \<in> {st, prune_all c (pe_time e) st}" by (simp add: st1_def)
  ultimately show thesis by (rule that [rotated])
qed

lemma publish_checked:
  assumes "checked_message c fl topic message sender key = Inr (t, body)"
    and "e = new_event None (''pub_'' @ (if key = [] then uid else hashed (''pubsub:'' @ t @ '':'' @ key))) t sender now body"
  shows "publish c fl hashed marks None uid now topic message sender key st =
      (case deliver c fl marks False e st of (st', None) \<Rightarrow> (st', Inl Cache_Full)
       | (st', Some cached) \<Rightarrow> (st', Inr \<lparr>pr_duplicate = False, pr_topic = t, pr_id = pe_id e, pr_time = pe_time e,
           pr_cursor = pe_seq e, pr_durable = False, pr_cached = cached\<rparr>))"
  unfolding publish_def assms(1) sum.case prod.case option.case Let_def assms(2) [symmetric] by simp

lemma publish_local:
  assumes "publish c fl hashed marks None uid now topic message sender key st = (st', res)"
  obtains e st1 where "pe_time e = now" "st1 \<in> {st, prune_all c now st}" "\<not> isl res"
      "st' = fan_out marks e (cache_event fl e st1)" "pr_topic (projr res) = pe_topic e" "pr_id (projr res) = pe_id e"
      "pr_time (projr res) = pe_time e"
  | "st' \<in> {st, prune_all c now st}" "isl res"
proof (cases "checked_message c fl topic message sender key")
  case (Inl e)
  then show ?thesis using assms by (intro that(2)) (auto simp: publish_def)
next
  case (Inr m)
  obtain t body where m: "m = (t, body)" by (cases m)
  define e where "e = new_event None (''pub_'' @ (if key = [] then uid else hashed (''pubsub:'' @ t @ '':'' @ key))) t sender now body"
  have e: "pe_time e = now" "pe_topic e = t" by (simp_all add: e_def new_event_def)
  note pub = publish_checked [where fl = fl and hashed = hashed and uid = uid and marks = marks and st = st, OF Inr [unfolded m] e_def]
  obtain st1 where st1: "st1 \<in> {st, prune_all c (pe_time e) st}"
    "deliver c fl marks False e st = (st1, None) \<or> deliver c fl marks False e st = (fan_out marks e (cache_event fl e st1), Some True)"
    by (rule deliver_local)
  from st1(2) show ?thesis
  proof
    assume d: "deliver c fl marks False e st = (st1, None)"
    show ?thesis using assms st1(1) e(1) by (intro that(2)) (auto simp: pub d)
  next
    assume d: "deliver c fl marks False e st = (fan_out marks e (cache_event fl e st1), Some True)"
    show ?thesis using assms st1(1) e by (intro that(1) [of e st1]) (auto simp: pub d)
  qed
qed

lemma run_retention: "clocked_run c fl hashed clock past st \<Longrightarrow> retention_ok fl clock past st"
proof (induction rule: clocked_run.induct)
  case Start
  show ?case by (simp add: retention_ok_def cache_wf_def cached_total_def new_pubsub_def dict_list_def)
next
  case (Accepted t past st now marks uid topic message sender key st' r)
  note ok = retention_later [OF Accepted.IH Accepted.hyps(2)]
  from Accepted.hyps(3) show ?case
  proof (cases rule: publish_local)
    case (1 e st1)
    have "retention_ok fl now past st1" using 1(2) ok prune_all_retention by auto
    then have "retention_ok fl (pe_time e) (past @ [r]) (cache_event fl e st1)"
      by (rule cache_event_retention) (use 1 in simp_all)
    then show ?thesis using 1 by (simp add: fan_out_retention)
  qed simp
next
  case (Refused t past st now marks uid topic message sender key st' e)
  note ok = retention_later [OF Refused.IH Refused.hyps(2)]
  from Refused.hyps(3) show ?case
  proof (cases rule: publish_local)
    case 2
    then show ?thesis using ok prune_all_retention by auto
  qed simp
next
  case (Cleared t past st topic)
  then show ?case by (simp add: clear_topic_retention)
next
  case (Compacted t past st now)
  then show ?case using retention_later by (simp add: compact_state prune_all_retention)
next
  case (Polled t past st now topic since limit after_seq)
  then have "retention_ok fl now past st" using retention_later by blast
  then show ?case using poll_state [of c now topic since limit after_seq st] prune_topic_retention by auto
next
  case (Subscribed t past st sub_id topic n)
  then show ?case by (elim retention_frame) (simp_all add: cache_frame)
next
  case (Unsubscribed t past st topic sub_id)
  then show ?case by (elim retention_frame) (simp_all add: cache_frame)
next
  case (Taken t past st tp sub_id)
  then show ?case by (elim retention_frame) (simp_all add: cache_frame)
qed

section \<open>A poll tells of every message it may have missed\<close>

text \<open>
  A poll of the process-local cache from a time after zero either reports a gap, or says there is
  more, or returns every accepted message of the topic that was published after that time: whatever
  aged out, was pushed out by newer messages or was cleared in between, by whichever callers, as long
  as their clock did not run backwards.
\<close>

theorem poll_reports_loss:
  assumes "clocked_run c fl hashed clock past st" "named_topic topic = Inr t" "0 < since"
    and "snd (poll c now topic since limit 0 st) = Inr res" "\<not> po_gap res" "\<not> po_has_more res"
    and "r \<in> set past" "pr_topic r = t" "since < pr_time r"
  shows "\<exists>e \<in> set (po_messages res). pe_id e = pr_id r \<and> pe_time e = pr_time r"
proof -
  let ?st = "fst (prune_topic c now t st)"
  have ok: "retention_ok fl clock past ?st" by (rule prune_topic_retention [OF run_retention [OF assms(1)]])
  define selected where "selected = filter (\<lambda>e. since < pe_time e) (bucket ?st t)"
  have lim: "1 \<le> limit" and res: "po_messages res = take (nat limit) selected" "po_has_more res \<longleftrightarrow> limit < int (length selected)"
    "po_gap res \<longleftrightarrow> 0 < since \<and> (if bucket ?st t \<noteq> [] then since < pe_time (hd (bucket ?st t)) else since \<le> pb_floor ?st)"
    using assms(2,4) by (auto simp: poll_def selected_def Let_def split: if_splits)
  have all: "po_messages res = selected" using res(1,2) assms(6) lim by simp
  have "retained_or_old ?st r" using ok assms(7) by (simp add: retention_ok_def)
  then consider e where "e \<in> set (bucket ?st t)" "pe_id e = pr_id r" "pe_time e = pr_time r"
    | "pr_time r \<le> pb_floor ?st" "\<forall>e \<in> set (bucket ?st t). pr_time r \<le> pe_time e"
    using assms(8) by (auto simp: retained_or_old_def)
  then show ?thesis
  proof cases
    case (1 e)
    then show ?thesis using assms(9) unfolding all selected_def by auto
  next
    case 2
    have "po_gap res"
    proof (cases "bucket ?st t = []")
      case True
      then show ?thesis using res(3) assms(3,9) 2(1) by auto
    next
      case False
      then have "pr_time r \<le> pe_time (hd (bucket ?st t))" using 2(2) hd_in_set by blast
      then show ?thesis using res(3) assms(3,9) False by auto
    qed
    then show ?thesis using assms(5) by blast
  qed
qed

text \<open>Messages published at times 5 and 7, then polls.\<close>

definition ex_fl :: "real \<Rightarrow> string" where
  "ex_fl r = ''5.0''"

definition ex_publish :: "string \<Rightarrow> seconds \<Rightarrow> pubsub \<Rightarrow> pubsub \<times> (pubsub_error + publish_result)" where
  "ex_publish uid now st = publish ex_config ex_fl id (\<lambda>_. ([], 0)) None uid now ''Jobs'' (PStr ''hi'') ''me'' [] st"

definition ex_message :: "string \<Rightarrow> seconds \<Rightarrow> pub_event" where
  "ex_message uid now = new_event None (''pub_'' @ uid) ''jobs'' ''me'' now (PDict [(''text'', PStr ''hi'')])"

definition ex_result :: "string \<Rightarrow> seconds \<Rightarrow> publish_result" where
  "ex_result uid now = \<lparr>pr_duplicate = False, pr_topic = ''jobs'', pr_id = ''pub_'' @ uid, pr_time = now, pr_cursor = None,
     pr_durable = False, pr_cached = True\<rparr>"

definition ex_stored :: "pub_event list \<Rightarrow> pubsub" where
  "ex_stored b = new_pubsub\<lparr>pb_topics := [(''jobs'', b)], pb_sizes := [(''jobs'', map (event_bytes ex_fl) b)],
     pb_cached := bucket_bytes ex_fl b\<rparr>"

lemma ex_checked: "checked_message ex_config ex_fl ''Jobs'' (PStr ''hi'') ''me'' [] = Inr (''jobs'', PDict [(''text'', PStr ''hi'')])"
proof -
  have n: "named_topic ''Jobs'' = Inr ''jobs''" "bounded_name False False ''me'' = Inr ''me''" "bounded_name True False [] = Inr []"
    by code_simp+
  let ?m = "PDict [(''sender'', PStr ''me''), (''message'', PDict [(''text'', PStr ''hi'')])]"
  have "snapshot_message ex_fl ?m 65536 = Inr (?m, json_bytes ex_fl ?m)"
    by (simp add: snapshot_iff) (simp add: json_bytes_def json_string_def json_char_def)
  then show ?thesis by (simp add: checked_message_def n ex_config_def dict_get_def)
qed

lemma ex_message_sel [simp]: "pe_id (ex_message uid now) = ''pub_'' @ uid" "pe_topic (ex_message uid now) = ''jobs''"
  "pe_time (ex_message uid now) = now" "pe_seq (ex_message uid now) = None"
  by (simp_all add: ex_message_def new_event_def)

lemma ex_message_small: "event_bytes ex_fl (ex_message [d] now) \<le> 1000"
  by (simp add: ex_message_def event_bytes_def event_json_def new_event_def json_bytes_def json_string_def json_char_def ex_fl_def Let_def)

lemma ex_publish_by_deliver:
  "deliver ex_config ex_fl (\<lambda>_. ([], 0)) False (ex_message uid now) st = (st', Some True) \<Longrightarrow> ex_publish uid now st = (st', Inr (ex_result uid now))"
  unfolding ex_publish_def
  by (subst publish_checked [where e = "ex_message uid now", OF ex_checked]) (simp_all add: ex_result_def, simp add: ex_message_def)

lemma ex_first: "ex_publish ''1'' 5 new_pubsub = (ex_stored [ex_message ''1'' 5], Inr (ex_result ''1'' 5))"
proof (rule ex_publish_by_deliver)
  have "prune_all ex_config now new_pubsub = new_pubsub" for now by (simp add: prune_all_def new_pubsub_def)
  moreover have "dict_list (pb_topics new_pubsub) t = []" "dict_list (pb_sizes new_pubsub) t = []" "map_of (pb_topics new_pubsub) t = None"
    "pb_cached new_pubsub = 0" "pb_topics new_pubsub = []" "pb_sizes new_pubsub = []" "pb_subs new_pubsub = []" for t
    by (simp_all add: new_pubsub_def dict_list_def)
  moreover have "0 < pc_max_topics ex_config" "event_bytes ex_fl (ex_message ''1'' 5) \<le> int (pc_max_bytes ex_config)"
    using ex_message_small [of "CHR ''1''" 5] by (simp_all add: ex_config_def)
  ultimately show "deliver ex_config ex_fl (\<lambda>_. ([], 0)) False (ex_message ''1'' 5) new_pubsub = (ex_stored [ex_message ''1'' 5], Some True)"
    by (simp add: deliver_def Let_def cache_event_def fan_out_def ex_stored_def)
qed

lemma ex_second: "ex_publish ''2'' 7 (ex_stored [ex_message ''1'' 5]) = (ex_stored [ex_message ''1'' 5, ex_message ''2'' 7], Inr (ex_result ''2'' 7))"
proof (rule ex_publish_by_deliver)
  have "event_bytes ex_fl (ex_message ''1'' 5) + event_bytes ex_fl (ex_message ''2'' 7) \<le> int (pc_max_bytes ex_config)"
    using ex_message_small [of "CHR ''1''" 5] ex_message_small [of "CHR ''2''" 7] by (simp add: ex_config_def)
  then show "deliver ex_config ex_fl (\<lambda>_. ([], 0)) False (ex_message ''2'' 7) (ex_stored [ex_message ''1'' 5]) =
      (ex_stored [ex_message ''1'' 5, ex_message ''2'' 7], Some True)"
    by (simp add: deliver_def Let_def cache_event_def fan_out_def ex_stored_def new_pubsub_def dict_list_def)
qed

lemma ex_pruned:
  "fst (prune_topic ex_config 8 ''jobs'' (ex_stored [ex_message ''1'' 5, ex_message ''2'' 7])) = ex_stored [ex_message ''1'' 5, ex_message ''2'' 7]"
  "fst (prune_topic ex_config 8 ''jobs'' (ex_stored [ex_message ''1'' 5])) = ex_stored [ex_message ''1'' 5]"
  by (simp_all add: prune_topic_def ex_stored_def dict_list_def ex_config_def Let_def)

lemma ex_named: "named_topic ''jobs'' = Inr ''jobs''"
  by code_simp

theorem poll_reports_loss_witness:
  "\<exists>st res. snd (poll ex_config 8 ''jobs'' 5 10 0 st) = Inr res \<and>
     (\<exists>e \<in> set (po_messages res). pe_id e = ''pub_2'' \<and> pe_time e = 7)"
proof -
  let ?st = "ex_stored [ex_message ''1'' 5, ex_message ''2'' 7]"
  have first: "clocked_run ex_config ex_fl id 5 ([] @ [ex_result ''1'' 5]) (ex_stored [ex_message ''1'' 5])"
    by (rule Accepted [OF Start _ ex_first [unfolded ex_publish_def]]) simp
  have run: "clocked_run ex_config ex_fl id 7 (([] @ [ex_result ''1'' 5]) @ [ex_result ''2'' 7]) ?st"
    by (rule Accepted [OF first _ ex_second [unfolded ex_publish_def]]) simp
  let ?res = "\<lparr>po_messages = [ex_message ''2'' 7], po_has_more = False, po_first = Some 5, po_gap = False\<rparr>"
  have bucket: "dict_list (pb_topics ?st) ''jobs'' = [ex_message ''1'' 5, ex_message ''2'' 7]" by (simp add: ex_stored_def dict_list_def)
  have res: "snd (poll ex_config 8 ''jobs'' 5 10 0 ?st) = Inr ?res" "\<not> po_gap ?res" "\<not> po_has_more ?res"
    by (simp_all add: poll_def ex_named Let_def ex_pruned bucket)
  have "\<exists>e \<in> set (po_messages ?res). pe_id e = pr_id (ex_result ''2'' 7) \<and> pe_time e = pr_time (ex_result ''2'' 7)"
    by (rule poll_reports_loss [OF run ex_named _ res]) (simp_all add: ex_result_def)
  then have "\<exists>e \<in> set (po_messages ?res). pe_id e = ''pub_2'' \<and> pe_time e = 7" by (simp add: ex_result_def)
  then show ?thesis using res(1) by blast
qed

text \<open>
  The report has false alarms: after a single message, which is still there, a poll from an earlier
  time reports a gap although nothing was ever removed (the floor is zero), because with a message in
  the cache the floor is not consulted.
\<close>

lemma poll_false_alarm:
  "snd (poll ex_config 8 ''jobs'' 1 10 0 (fst (ex_publish ''1'' 5 new_pubsub))) =
     Inr \<lparr>po_messages = [ex_message ''1'' 5], po_has_more = False, po_first = Some 5, po_gap = True\<rparr> \<and>
   pb_floor (fst (ex_publish ''1'' 5 new_pubsub)) = 0"
proof -
  have bucket: "dict_list (pb_topics (ex_stored [ex_message ''1'' 5])) ''jobs'' = [ex_message ''1'' 5]"
    by (simp add: ex_stored_def dict_list_def)
  have "pb_floor (ex_stored b) = 0" for b by (simp add: ex_stored_def new_pubsub_def)
  then show ?thesis by (simp add: poll_def ex_named Let_def ex_pruned bucket ex_first)
qed

text \<open>
  A waiter with a filter on a field of the payload discards a marker without a word: the message it
  waits for may be among those the marker counts.
\<close>

lemma wait_discards_marker:
  assumes "k \<notin> {''gap_ranges'', ''cursor'', ''lost_count'', ''replay_required''}"
  shows "wait_scan [(k, PStr s)] (Gap g # items) = wait_scan [(k, PStr s)] items"
  using assms by (simp add: payload_matches_def gap_payload_def dict_get_def py_eq.simps py_number_def)

end
