(* ===== verification/Token_Budget.thy ===== *)
theory Token_Budget
  imports Hub_Prelude "HOL-Library.Sublist"
begin

text \<open>
  The budgets of \<open>budget.py\<close>: the admission guard of a root family (tokens in use and active scopes)
  and the fitting of a text into a token budget, which cuts UTF-8 bytes and keeps a head and a tail.
  The float arithmetic with 3.4 and 0.72 is done in the reals.
\<close>

section \<open>Numbers\<close>

text \<open>\<open>int(text)\<close>: optional white space and sign, digits with single underscores between them.\<close>

definition digit_val :: "char \<Rightarrow> nat option" where
  "digit_val c = (let n = of_char c :: nat in if 48 \<le> n \<and> n \<le> 57 then Some (n - 48) else None)"

fun int_digits :: "nat \<Rightarrow> string \<Rightarrow> nat option" where
  "int_digits acc [] = Some acc"
| "int_digits acc (c # cs) =
     (case digit_val c of
        Some d \<Rightarrow> int_digits (10 * acc + d) cs
      | None \<Rightarrow>
          (if c = CHR ''_'' then
             (case cs of [] \<Rightarrow> None
              | d # ds \<Rightarrow> (case digit_val d of Some v \<Rightarrow> int_digits (10 * acc + v) ds | None \<Rightarrow> None))
           else None))"

definition int_magnitude :: "string \<Rightarrow> nat option" where
  "int_magnitude s = (case s of [] \<Rightarrow> None | c # cs \<Rightarrow> (case digit_val c of None \<Rightarrow> None | Some d \<Rightarrow> int_digits d cs))"

definition int_of_text :: "string \<Rightarrow> int option" where
  "int_of_text s =
     (case py_strip s of
        CHR ''-'' # cs \<Rightarrow> map_option (\<lambda>n. - int n) (int_magnitude cs)
      | CHR ''+'' # cs \<Rightarrow> map_option int (int_magnitude cs)
      | cs \<Rightarrow> map_option int (int_magnitude cs))"

text \<open>\<open>_safe_int\<close>; \<open>int\<close> of a float rounds toward zero.\<close>

definition safe_int :: "pyval \<Rightarrow> int \<Rightarrow> int" where
  "safe_int v dflt =
     (case v of
        PInt i \<Rightarrow> i
      | PFloat (Fin r) \<Rightarrow> (if 0 \<le> r then \<lfloor>r\<rfloor> else \<lceil>r\<rceil>)
      | PStr s \<Rightarrow> (case int_of_text s of Some i \<Rightarrow> i | None \<Rightarrow> dflt)
      | _ \<Rightarrow> dflt)"

section \<open>The guard of a root family\<close>

record family_budget =
  fb_limit :: int
  fb_max_scopes :: int
  fb_used :: "(string \<times> int) list"
  fb_scopes :: "(string \<times> string set) list"

definition new_budget :: "pyval \<Rightarrow> pyval \<Rightarrow> family_budget" where
  "new_budget default_limit max_active_scopes =
     \<lparr>fb_limit = max 0 (safe_int default_limit 0), fb_max_scopes = max 1 (safe_int max_active_scopes 1),
      fb_used = [], fb_scopes = []\<rparr>"

definition clean_name :: "string \<Rightarrow> string" where
  "clean_name s = py_strip (filter (\<lambda>c. c \<noteq> nul) s)"

definition family_key :: "string \<Rightarrow> string" where
  "family_key family = (if clean_name family = [] then ''default'' else clean_name family)"

definition used_of :: "family_budget \<Rightarrow> string \<Rightarrow> int" where
  "used_of b key = (case map_of (fb_used b) key of None \<Rightarrow> 0 | Some n \<Rightarrow> n)"

definition scopes_of :: "family_budget \<Rightarrow> string \<Rightarrow> string set" where
  "scopes_of b key = (case map_of (fb_scopes b) key of None \<Rightarrow> {} | Some s \<Rightarrow> s)"

datatype budget_result =
    Coalesced int int string
  | Over_Budget int int
  | Over_Fanout int int
  | Accepted int "int option" string

definition requested :: "pyval \<Rightarrow> pyval \<Rightarrow> int" where
  "requested input_tokens output_tokens = max 0 (safe_int input_tokens 0) + max 0 (safe_int output_tokens 0)"

definition budget_reserve ::
  "string \<Rightarrow> pyval \<Rightarrow> pyval \<Rightarrow> pyval \<Rightarrow> string \<Rightarrow> string \<Rightarrow> family_budget \<Rightarrow> family_budget \<times> budget_result" where
  "budget_reserve family input_tokens output_tokens limit task scope b =
     (let key = family_key family; s = clean_name scope; amount = requested input_tokens output_tokens;
          cap = (if limit = PNone then fb_limit b else max 0 (safe_int limit 0));
          used = used_of b key; scopes = scopes_of b key;
          b1 = b\<lparr>fb_scopes := (if map_of (fb_scopes b) key = None then dict_set (fb_scopes b) key {} else fb_scopes b)\<rparr> in
      if s \<noteq> [] \<and> s \<in> scopes then (b1, Coalesced used (max 0 (cap - used)) s)
      else if cap \<noteq> 0 \<and> cap < used + amount then (b1, Over_Budget used (max 0 (cap - used)))
      else if s \<noteq> [] \<and> fb_max_scopes b \<le> int (card scopes) then (b1, Over_Fanout used (max 0 (cap - used)))
      else
        (b1\<lparr>fb_used := dict_set (fb_used b) key (used + amount),
            fb_scopes := (if s \<noteq> [] then dict_set (fb_scopes b1) key (insert s scopes) else fb_scopes b1)\<rparr>,
         Accepted (used + amount) (if cap \<noteq> 0 then Some (max 0 (cap - (used + amount))) else None) (take 96 (clean_name task))))"

definition budget_release :: "string \<Rightarrow> pyval \<Rightarrow> string \<Rightarrow> family_budget \<Rightarrow> family_budget \<times> int" where
  "budget_release family tokens scope b =
     (let key = family_key family; s = clean_name scope;
          left = max 0 (used_of b key - max 0 (safe_int tokens 0)) in
      (b\<lparr>fb_used := dict_set (fb_used b) key left,
         fb_scopes := (if s \<noteq> [] then dict_set (fb_scopes b) key (scopes_of b key - {s}) else fb_scopes b)\<rparr>, left))"

text \<open>\<open>reset\<close>: one family, or all.\<close>

definition budget_reset :: "string option \<Rightarrow> family_budget \<Rightarrow> family_budget" where
  "budget_reset family b =
     (case family of
        None \<Rightarrow> b\<lparr>fb_used := [], fb_scopes := []\<rparr>
      | Some f \<Rightarrow>
          b\<lparr>fb_used := filter (\<lambda>kv. fst kv \<noteq> family_key f) (fb_used b),
            fb_scopes := filter (\<lambda>kv. fst kv \<noteq> family_key f) (fb_scopes b)\<rparr>)"

datatype budget_op =
    Reserve string pyval pyval string string
  | Release string pyval string
  | Reset "string option"

text \<open>Reservations without a limit of their own.\<close>

fun budget_exec :: "family_budget \<Rightarrow> budget_op \<Rightarrow> family_budget" where
  "budget_exec b (Reserve family i oo task scope) = fst (budget_reserve family i oo PNone task scope b)"
| "budget_exec b (Release family tokens scope) = fst (budget_release family tokens scope b)"
| "budget_exec b (Reset family) = budget_reset family b"

section \<open>Fitting a text\<close>

text \<open>
  A text is the list of its code points, below \<open>0x110000\<close>. \<open>encode("utf-8", errors="replace")\<close> writes
  a code point with one to four bytes and a surrogate, which UTF-8 cannot write, as a question mark.
\<close>

type_synonym unicode_text = "nat list"

definition code_points :: "unicode_text \<Rightarrow> bool" where
  "code_points v = list_all (\<lambda>n. n < 1114112) v"

definition is_surrogate :: "nat \<Rightarrow> bool" where
  "is_surrogate n \<longleftrightarrow> 55296 \<le> n \<and> n \<le> 57343"

definition utf8_bytes :: "nat \<Rightarrow> nat list" where
  "utf8_bytes n =
     (if n < 128 then [n]
      else if n < 2048 then [192 + n div 64, 128 + n mod 64]
      else if is_surrogate n then [63]
      else if n < 65536 then [224 + n div 4096, 128 + n div 64 mod 64, 128 + n mod 64]
      else [240 + n div 262144, 128 + n div 4096 mod 64, 128 + n div 64 mod 64, 128 + n mod 64])"

definition utf8_encode :: "unicode_text \<Rightarrow> nat list" where
  "utf8_encode v = concat (map utf8_bytes v)"

text \<open>
  The character that starts with byte \<open>b\<close>, and the bytes after it: no overlong form, no surrogate and
  nothing above \<open>0x10FFFF\<close> is accepted.
\<close>

definition utf8_cont :: "nat \<Rightarrow> bool" where
  "utf8_cont c \<longleftrightarrow> 128 \<le> c \<and> c \<le> 191"

fun utf8_char :: "nat \<Rightarrow> nat list \<Rightarrow> (nat \<times> nat list) option" where
  "utf8_char b bs =
     (if b < 128 then Some (b, bs)
      else if b < 194 then None
      else if b < 224 then
        (case bs of
           c # r \<Rightarrow> if utf8_cont c then Some ((b - 192) * 64 + (c - 128), r) else None
         | _ \<Rightarrow> None)
      else if b < 240 then
        (case bs of
           c # d # r \<Rightarrow>
             if utf8_cont c \<and> utf8_cont d \<and> (b = 224 \<longrightarrow> 160 \<le> c) \<and> (b = 237 \<longrightarrow> c \<le> 159)
             then Some ((b - 224) * 4096 + (c - 128) * 64 + (d - 128), r) else None
         | _ \<Rightarrow> None)
      else if b < 245 then
        (case bs of
           c # d # e # r \<Rightarrow>
             if utf8_cont c \<and> utf8_cont d \<and> utf8_cont e \<and> (b = 240 \<longrightarrow> 144 \<le> c) \<and> (b = 244 \<longrightarrow> c \<le> 143)
             then Some ((b - 240) * 262144 + (c - 128) * 4096 + (d - 128) * 64 + (e - 128), r) else None
         | _ \<Rightarrow> None)
      else None)"

lemma utf8_char_shorter [termination_simp]: "utf8_char b bs = Some (n, r) \<Longrightarrow> length r \<le> length bs"
  by (auto split: if_splits list.splits)

text \<open>
  \<open>decode("utf-8", errors="ignore")\<close> of any bytes. Python drops an ill-formed sequence at once; its
  bytes after the first are continuation bytes, which are dropped one by one here.
\<close>

fun utf8_decode :: "nat list \<Rightarrow> unicode_text" where
  "utf8_decode [] = []"
| "utf8_decode (b # bs) =
     (case utf8_char b bs of Some (n, r) \<Rightarrow> n # utf8_decode r | None \<Rightarrow> utf8_decode bs)"

definition estimate_tokens :: "unicode_text \<Rightarrow> int" where
  "estimate_tokens v = (if v = [] then 0 else max 1 \<lceil>of_nat (length (utf8_encode v)) / (17 / 5 :: real)\<rceil>)"

definition truncation_marker :: unicode_text where
  "truncation_marker = [10, 10] @ map of_char ''[... context omitted to fit local budget ...]'' @ [10]"

definition cut_prefix :: "unicode_text \<Rightarrow> nat \<Rightarrow> unicode_text" where
  "cut_prefix value limit = utf8_decode (take limit (utf8_encode value))"

definition cut_suffix :: "unicode_text \<Rightarrow> nat \<Rightarrow> unicode_text" where
  "cut_suffix value limit =
     (if limit = 0 then [] else let bs = utf8_encode value in utf8_decode (drop (length bs - limit) bs))"

record packed_text =
  pk_text :: unicode_text
  pk_tokens :: int
  pk_truncated :: bool
  pk_original :: int

text \<open>\<open>PackedText.__post_init__\<close>.\<close>

definition packed :: "unicode_text \<Rightarrow> int \<Rightarrow> bool \<Rightarrow> int \<Rightarrow> packed_text" where
  "packed s tokens truncated original =
     \<lparr>pk_text = filter (\<lambda>c. c \<noteq> 0) s, pk_tokens = max 0 tokens, pk_truncated = truncated, pk_original = max 0 original\<rparr>"

definition fit_parts :: "unicode_text \<Rightarrow> nat \<Rightarrow> bool \<Rightarrow> unicode_text" where
  "fit_parts value usable preserve_tail =
     (if preserve_tail \<and> 800 \<le> usable then
        (let head = nat \<lfloor>of_nat usable * (18 / 25 :: real)\<rfloor> in
         cut_prefix value head @ truncation_marker @ cut_suffix value (usable - head))
      else cut_prefix value usable @ truncation_marker)"

definition fitted_text :: "unicode_text \<Rightarrow> int \<Rightarrow> bool \<Rightarrow> unicode_text" where
  "fitted_text value tokens preserve_tail =
     (let budget = nat (max 1 \<lfloor>of_int tokens * (17 / 5 :: real)\<rfloor>) in
      fit_parts value (budget - length (utf8_encode truncation_marker)) preserve_tail)"

definition fit_text :: "unicode_text \<Rightarrow> pyval \<Rightarrow> bool \<Rightarrow> packed_text" where
  "fit_text value max_tokens preserve_tail =
     (let tokens = max 64 (safe_int max_tokens 64); original = estimate_tokens value in
      if original \<le> tokens then packed value original False original
      else
        (let fitted = fitted_text value tokens preserve_tail in packed fitted (estimate_tokens fitted) True original))"

section \<open>The guard bounds tokens and scopes\<close>

definition budget_ok :: "int \<Rightarrow> int \<Rightarrow> family_budget \<Rightarrow> bool" where
  "budget_ok limit scopes b \<longleftrightarrow> fb_limit b = limit \<and> fb_max_scopes b = scopes \<and>
     (\<forall>key. 0 \<le> used_of b key \<and> (limit \<noteq> 0 \<longrightarrow> used_of b key \<le> limit) \<and>
       finite (scopes_of b key) \<and> int (card (scopes_of b key)) \<le> scopes)"

lemma used_of_set [simp]: "used_of (b\<lparr>fb_used := dict_set d k n\<rparr>) key = (if key = k then n else used_of (b\<lparr>fb_used := d\<rparr>) key)"
  by (simp add: used_of_def)

lemma scopes_of_set [simp]:
  "scopes_of (b\<lparr>fb_scopes := dict_set d k n\<rparr>) key = (if key = k then n else scopes_of (b\<lparr>fb_scopes := d\<rparr>) key)"
  by (simp add: scopes_of_def)

lemma used_of_frame [simp]: "used_of (b\<lparr>fb_scopes := d\<rparr>) = used_of b"
  by (rule ext) (simp add: used_of_def)

lemma scopes_of_frame [simp]: "scopes_of (b\<lparr>fb_used := d\<rparr>) = scopes_of b"
  by (rule ext) (simp add: scopes_of_def)

lemma budget_same [simp]: "b\<lparr>fb_used := fb_used b\<rparr> = b" "b\<lparr>fb_scopes := fb_scopes b\<rparr> = b"
  by simp_all

text \<open>A reservation adds its tokens to its family and its scope to the scopes, or changes neither.\<close>

lemma reserve_effect:
  fixes family scope :: string
  assumes "budget_reserve family i oo limit task scope b = (b', r)"
  defines "key \<equiv> family_key family"
  shows "fb_limit b' = fb_limit b" "fb_max_scopes b' = fb_max_scopes b"
    "\<And>k. used_of b' k = used_of b k + (if k = key \<and> (\<exists>n m t. r = Accepted n m t) then requested i oo else 0)"
    "\<And>k. scopes_of b' k = scopes_of b k \<union> (if k = key \<and> (\<exists>n m t. r = Accepted n m t) \<and> clean_name scope \<noteq> [] then {clean_name scope} else {})"
proof -
  have none: "map_of (fb_scopes b) key = None \<Longrightarrow> scopes_of b key = {}" by (simp add: scopes_of_def)
  show "fb_limit b' = fb_limit b" "fb_max_scopes b' = fb_max_scopes b"
    using assms(1) by (auto simp: budget_reserve_def Let_def split: if_splits)
  show "used_of b' k = used_of b k + (if k = key \<and> (\<exists>n m t. r = Accepted n m t) then requested i oo else 0)" for k
    using assms(1) unfolding key_def by (auto simp: budget_reserve_def Let_def split: if_splits)
  show "scopes_of b' k = scopes_of b k \<union> (if k = key \<and> (\<exists>n m t. r = Accepted n m t) \<and> clean_name scope \<noteq> [] then {clean_name scope} else {})" for k
    using assms(1) none unfolding key_def by (auto simp: budget_reserve_def Let_def split: if_splits)
qed

lemma reserve_guard:
  assumes "budget_reserve family i oo limit task scope b = (b', Accepted n m t)"
    and "cap = (if limit = PNone then fb_limit b else max 0 (safe_int limit 0))"
  shows "cap \<noteq> 0 \<longrightarrow> used_of b (family_key family) + requested i oo \<le> cap"
    "clean_name scope \<noteq> [] \<longrightarrow> int (card (scopes_of b (family_key family))) < fb_max_scopes b"
  using assms by (auto simp: budget_reserve_def Let_def split: if_splits)

lemma reserve_ok:
  assumes "budget_ok limit scopes b"
  shows "budget_ok limit scopes (fst (budget_reserve family i oo PNone task scope b))"
proof (cases "budget_reserve family i oo PNone task scope b")
  case (Pair b' r)
  note eff = reserve_effect [OF Pair]
  have pos: "0 \<le> requested i oo" by (simp add: requested_def)
  show ?thesis
  proof (cases "\<exists>n m t. r = Accepted n m t")
    case False
    then show ?thesis using assms by (simp add: Pair budget_ok_def eff)
  next
    case True
    then obtain n m t where r: "r = Accepted n m t" by blast
    note g = reserve_guard [OF Pair [unfolded r] refl]
    have "int (card (scopes_of b' k)) \<le> scopes" for k
      using assms g(2) card_insert_le_m1 unfolding eff budget_ok_def r
      by (auto simp: card_insert_if)
    then show ?thesis using assms g(1) pos by (auto simp: Pair budget_ok_def eff)
  qed
qed

lemma release_ok:
  assumes "budget_ok limit scopes b"
  shows "budget_ok limit scopes (fst (budget_release family tokens scope b))"
proof -
  let ?k = "family_key family"
  have u: "used_of b k - max 0 t \<le> used_of b k" for k and t :: int by simp
  have "card (scopes_of b ?k - {x}) \<le> card (scopes_of b ?k)" for x
    using assms by (intro card_mono) (auto simp: budget_ok_def)
  then have c: "int (card (scopes_of b ?k - {x})) \<le> scopes" for x
    using assms unfolding budget_ok_def by (meson of_nat_mono order_trans)
  have lim: "limit \<noteq> 0 \<Longrightarrow> 0 \<le> limit" using assms unfolding budget_ok_def by (meson order_trans)
  show ?thesis using assms c lim unfolding budget_ok_def budget_release_def Let_def by (auto intro: order_trans [OF u])
qed

lemma reset_ok:
  assumes "budget_ok limit scopes b"
  shows "budget_ok limit scopes (budget_reset family b)"
proof -
  have m: "map_of (filter (\<lambda>kv. fst kv \<noteq> k) d) k' = (if k' = k then None else map_of d k')" for k k' :: string and d :: "(string \<times> 'v) list"
    by (induction d) auto
  have "0 \<le> scopes" "limit \<noteq> 0 \<longrightarrow> 0 \<le> limit" using assms unfolding budget_ok_def by (meson order_trans of_nat_0_le_iff)+
  then show ?thesis using assms
    by (auto simp: budget_ok_def budget_reset_def used_of_def scopes_of_def m split: option.splits)
qed

lemma exec_budget_ok: "budget_ok limit scopes b \<Longrightarrow> budget_ok limit scopes (budget_exec b oper)"
  by (cases oper) (simp_all add: reserve_ok release_ok reset_ok)

interpretation family: inv_machine budget_exec "budget_ok limit scopes"
  by unfold_locales (rule exec_budget_ok)

lemma new_budget_ok: "budget_ok (max 0 (safe_int l 0)) (max 1 (safe_int m 1)) (new_budget l m)"
  by (auto simp: budget_ok_def new_budget_def used_of_def scopes_of_def le_max_iff_disj)

text \<open>
  However reservations, releases and resets of all families interleave, the tokens in use by a
  family stay between zero and the limit, when there is one, and its active scopes within the fan-out
  limit; and the next reservation is accepted exactly when its scope is not active already, the
  tokens fit what is left and a scope is free, and then adds exactly its tokens.
\<close>

theorem family_budget_bounded:
  assumes "b = foldl budget_exec (new_budget l m) ops" "limit = max 0 (safe_int l 0)"
    and "budget_reserve family i oo PNone task scope b = (b', r)" "key = family_key family"
  shows "0 \<le> used_of b k \<and> (limit = 0 \<or> used_of b k \<le> limit) \<and> int (card (scopes_of b k)) \<le> max 1 (safe_int m 1) \<and>
    ((\<exists>n left t. r = Accepted n left t) \<longleftrightarrow> clean_name scope \<notin> scopes_of b key - {[]} \<and>
       (limit = 0 \<or> used_of b key + requested i oo \<le> limit) \<and>
       (clean_name scope = [] \<or> int (card (scopes_of b key)) < max 1 (safe_int m 1))) \<and>
    used_of b' k = used_of b k + (if k = key \<and> (\<exists>n left t. r = Accepted n left t) then requested i oo else 0)"
proof -
  have ok: "budget_ok limit (max 1 (safe_int m 1)) b"
    unfolding assms(1,2) by (rule family.inv_run [OF new_budget_ok])
  have lim: "fb_limit b = limit" "fb_max_scopes b = max 1 (safe_int m 1)" using ok by (simp_all add: budget_ok_def)
  have "(\<exists>n left t. r = Accepted n left t) \<longleftrightarrow> clean_name scope \<notin> scopes_of b key - {[]} \<and>
       (limit = 0 \<or> used_of b key + requested i oo \<le> limit) \<and>
       (clean_name scope = [] \<or> int (card (scopes_of b key)) < max 1 (safe_int m 1))"
    using assms(3) by (auto simp: budget_reserve_def Let_def lim assms(4) split: if_splits)
  then show ?thesis using ok reserve_effect(3) [OF assms(3), of k] unfolding assms(4) by (auto simp: budget_ok_def)
qed

theorem family_budget_bounded_witness:
  "snd (budget_reserve ''root'' (PInt 70) (PInt 40) PNone ''t1'' ''docs'' (new_budget (PInt 100) (PInt 1))) = Over_Budget 0 100 \<and>
   used_of (new_budget (PInt 100) (PInt 1)) ''root'' \<le> 100"
proof -
  let ?b = "new_budget (PInt 100) (PInt 1)"
  have k: "family_key ''root'' = ''root''" "clean_name ''docs'' = ''docs''" by code_simp+
  have r: "snd (budget_reserve ''root'' (PInt 70) (PInt 40) PNone ''t1'' ''docs'' ?b) = Over_Budget 0 100"
    by (simp add: budget_reserve_def Let_def k new_budget_def safe_int_def requested_def used_of_def scopes_of_def)
  obtain b' r where run: "budget_reserve ''root'' (PInt 70) (PInt 40) PNone ''t1'' ''docs'' ?b = (b', r)"
    by (cases "budget_reserve ''root'' (PInt 70) (PInt 40) PNone ''t1'' ''docs'' ?b")
  have "?b = foldl budget_exec (new_budget (PInt 100) (PInt 1)) []" "(100::int) = max 0 (safe_int (PInt 100) 0)"
    by (simp_all add: safe_int_def)
  from family_budget_bounded [OF this run refl, of "''root''"] have "used_of ?b ''root'' \<le> 100" by simp
  then show ?thesis using r by blast
qed

section \<open>A fitted text is within its budget\<close>

lemma utf8_encode_simps [simp]:
  "utf8_encode [] = []" "utf8_encode (v @ w) = utf8_encode v @ utf8_encode w"
  "utf8_encode (n # v) = utf8_bytes n @ utf8_encode v"
  by (simp_all add: utf8_encode_def)

text \<open>The text that an encoding with \<open>errors="replace"\<close> keeps.\<close>

definition replaced :: "unicode_text \<Rightarrow> unicode_text" where
  "replaced v = map (\<lambda>n. if is_surrogate n then 63 else n) v"

lemma utf8_bytes_length: "length (utf8_bytes n) \<le> 4" "n < 65536 \<Longrightarrow> length (utf8_bytes n) \<le> 3"
  "n < 2048 \<Longrightarrow> length (utf8_bytes n) \<le> 2" "n < 128 \<Longrightarrow> length (utf8_bytes n) = 1"
  by (simp_all add: utf8_bytes_def)

lemma char_length: "utf8_char b bs = Some (n, r) \<Longrightarrow> length (utf8_bytes n) + length r \<le> Suc (length bs)"
proof -
  assume c: "utf8_char b bs = Some (n, r)"
  consider "b < 128" | "194 \<le> b" "b < 224" | "224 \<le> b" "b < 240" | "240 \<le> b" "b < 245"
    using c by (auto split: if_splits)
  then show ?thesis
  proof cases
    case 1
    then show ?thesis using c utf8_bytes_length(4) [of b] by simp
  next
    case 2
    then obtain x where "bs = x # r" "utf8_cont x" "n = (b - 192) * 64 + (x - 128)"
      using c by (auto split: if_splits list.splits)
    moreover from this 2 have "n < 2048" unfolding utf8_cont_def by linarith
    ultimately show ?thesis using utf8_bytes_length(3) [of n] by simp
  next
    case 3
    then obtain x y where "bs = x # y # r" "utf8_cont x" "utf8_cont y" "n = (b - 224) * 4096 + (x - 128) * 64 + (y - 128)"
      using c by (auto split: if_splits list.splits)
    moreover from this 3 have "n < 65536" unfolding utf8_cont_def by linarith
    ultimately show ?thesis using utf8_bytes_length(2) [of n] by simp
  next
    case 4
    then obtain x y z where "bs = x # y # z # r" using c by (auto split: if_splits list.splits)
    then show ?thesis using utf8_bytes_length(1) [of n] by simp
  qed
qed

declare utf8_char.simps [simp del]

lemma encode_decode_length: "length (utf8_encode (utf8_decode bs)) \<le> length bs"
proof (induction bs rule: utf8_decode.induct)
  case (2 b bs)
  then show ?case using char_length [of b bs] by (fastforce split: option.split)
qed simp

lemma char_ascii: "b < 128 \<Longrightarrow> utf8_char b bs = Some (b, bs)"
  by (simp add: utf8_char.simps)

lemma char_cont: "utf8_cont b \<Longrightarrow> utf8_char b bs = None"
  by (simp add: utf8_char.simps utf8_cont_def)

lemma decode_conts: "list_all utf8_cont bs \<Longrightarrow> utf8_decode (bs @ r) = utf8_decode r"
  by (induction bs) (simp_all add: char_cont)

lemma conts_of_bytes: "list_all utf8_cont (tl (utf8_bytes n))"
  by (simp add: utf8_bytes_def utf8_cont_def less_Suc_eq_le [symmetric])


text \<open>Every encoded character is read back, and none of its beginnings is.\<close>

lemma char_two: "2 \<le> h \<Longrightarrow> h < 32 \<Longrightarrow> l < 64 \<Longrightarrow> utf8_char (192 + h) ((128 + l) # r) = Some (h * 64 + l, r)"
  by (simp add: utf8_char.simps utf8_cont_def)

lemma char_three:
  assumes "h < 16" "m < 64" "l < 64" "h = 0 \<Longrightarrow> 32 \<le> m" "h = 13 \<Longrightarrow> m \<le> 31"
  shows "utf8_char (224 + h) ((128 + m) # (128 + l) # r) = Some (h * 4096 + m * 64 + l, r)"
  using assms by (simp add: utf8_char.simps utf8_cont_def)

lemma char_four:
  assumes "k < 5" "h < 64" "m < 64" "l < 64" "k = 0 \<Longrightarrow> 16 \<le> h" "k = 4 \<Longrightarrow> h \<le> 15"
  shows "utf8_char (240 + k) ((128 + h) # (128 + m) # (128 + l) # r) = Some (k * 262144 + h * 4096 + m * 64 + l, r)"
  using assms by (simp add: utf8_char.simps utf8_cont_def)

lemma char_of_bytes:
  assumes "n < 1114112" "utf8_bytes n = b # bs"
  shows "utf8_char b (bs @ r) = Some (if is_surrogate n then 63 else n, r)"
proof -
  have lt: "n mod 64 < 64" "n div 64 mod 64 < 64" "n div 4096 mod 64 < 64" by simp_all
  have "n div 64 = n div 4096 * 64 + n div 64 mod 64" using div_mult2_eq [of n 64 64] by simp
  then have split4: "n = n div 4096 * 4096 + n div 64 mod 64 * 64 + n mod 64"
    using div_mult_mod_eq [of n 64] by linarith
  have split8: "n div 4096 = n div 262144 * 64 + n div 4096 mod 64"
    using div_mult2_eq [of n 4096 64] by simp
  consider "n < 128" | "128 \<le> n" "n < 2048" | "is_surrogate n" | "2048 \<le> n" "n < 65536" "\<not> is_surrogate n" | "65536 \<le> n"
    by linarith
  then show ?thesis
  proof cases
    case 1
    then show ?thesis using assms by (auto simp: utf8_bytes_def utf8_char.simps is_surrogate_def)
  next
    case 2
    then have "2 \<le> n div 64" "n div 64 < 32" by (simp_all add: less_eq_div_iff_mult_less_eq div_less_iff_less_mult)
    then have "utf8_char (192 + n div 64) ((128 + n mod 64) # r) = Some (n, r)"
      using char_two [of "n div 64" "n mod 64" r] lt by simp
    moreover have "utf8_bytes n = [192 + n div 64, 128 + n mod 64]" "\<not> is_surrogate n"
      using 2 by (simp_all add: utf8_bytes_def is_surrogate_def)
    ultimately show ?thesis using assms(2) by auto
  next
    case 3
    then show ?thesis using assms by (auto simp: utf8_bytes_def utf8_char.simps is_surrogate_def)
  next
    case 4
    let ?h = "n div 4096" and ?m = "n div 64 mod 64" and ?l = "n mod 64"
    have h: "?h < 16" using 4 by (simp add: div_less_iff_less_mult)
    have "?h = 0 \<Longrightarrow> 32 \<le> ?m" using 4 split4 lt by linarith
    moreover have "?h = 13 \<Longrightarrow> ?m \<le> 31" using 4 split4 lt unfolding is_surrogate_def by linarith
    ultimately have "utf8_char (224 + ?h) ((128 + ?m) # (128 + ?l) # r) = Some (n, r)"
      using char_three [OF h lt(2,1)] split4 by metis
    moreover have "utf8_bytes n = [224 + ?h, 128 + ?m, 128 + ?l]" using 4 by (simp add: utf8_bytes_def)
    ultimately show ?thesis using assms(2) 4(3) by auto
  next
    case 5
    let ?k = "n div 262144" and ?h = "n div 4096 mod 64" and ?m = "n div 64 mod 64" and ?l = "n mod 64"
    have s: "n = ?k * 262144 + ?h * 4096 + ?m * 64 + ?l" using split4 split8 by linarith
    have k: "?k < 5" using assms(1) by (simp add: div_less_iff_less_mult)
    have "?k = 0 \<Longrightarrow> 16 \<le> ?h" using 5 s lt by linarith
    moreover have "?k = 4 \<Longrightarrow> ?h \<le> 15" using assms(1) s lt by linarith
    ultimately have "utf8_char (240 + ?k) ((128 + ?h) # (128 + ?m) # (128 + ?l) # r) = Some (n, r)"
      using char_four [OF k lt(3,2,1)] s by metis
    moreover have "utf8_bytes n = [240 + ?k, 128 + ?h, 128 + ?m, 128 + ?l]" "\<not> is_surrogate n"
      using 5 by (simp_all add: utf8_bytes_def is_surrogate_def)
    ultimately show ?thesis using assms(2) by auto
  qed
qed

lemma char_short:
  "192 \<le> b \<Longrightarrow> utf8_char b [] = None" "224 \<le> b \<Longrightarrow> utf8_char b [c] = None" "240 \<le> b \<Longrightarrow> utf8_char b [c, d] = None"
  by (simp_all add: utf8_char.simps)

lemma bytes_lead:
  assumes "utf8_bytes n = b # bs" "k < length bs"
  shows "192 \<le> b" "0 < k \<Longrightarrow> 224 \<le> b" "1 < k \<Longrightarrow> 240 \<le> b" "k < 3"
  using assms by (auto simp: utf8_bytes_def split: if_splits)

lemma char_cut:
  assumes "utf8_bytes n = b # bs" "k < length bs"
  shows "utf8_char b (take k bs) = None"
proof -
  note lead = bytes_lead [OF assms]
  consider "k = 0" | "k = Suc 0" | "k = Suc (Suc 0)" using lead(4) by linarith
  then show ?thesis
  proof cases
    case 1
    then show ?thesis using lead(1) by (simp add: char_short)
  next
    case 2
    then show ?thesis using lead(2) assms(2) by (cases bs) (simp_all add: char_short)
  next
    case 3
    then obtain c d r where "bs = c # d # r" using assms(2) by (cases bs; cases "tl bs") auto
    then show ?thesis using 3 lead(3) by (simp add: char_short)
  qed
qed

lemma bytes_cons: obtains b bs where "utf8_bytes n = b # bs" "list_all utf8_cont bs"
  using conts_of_bytes [of n] utf8_bytes_length(4) [of n] that by (cases "utf8_bytes n") (auto simp: utf8_bytes_def split: if_splits)

lemma decode_char: "n < 1114112 \<Longrightarrow> utf8_decode (utf8_bytes n @ r) = (if is_surrogate n then 63 else n) # utf8_decode r"
  by (rule bytes_cons [of n]) (simp add: char_of_bytes)

lemma decode_beginning:
  assumes "k < length (utf8_bytes n)"
  shows "utf8_decode (take k (utf8_bytes n)) = []"
proof (cases k)
  case (Suc j)
  obtain b bs where b: "utf8_bytes n = b # bs" "list_all utf8_cont bs" by (rule bytes_cons)
  have "list_all utf8_cont (take j bs)" using b(2) by (auto simp: list_all_iff dest: in_set_takeD)
  then have "utf8_decode (take j bs) = []" using decode_conts [of "take j bs" "[]"] by simp
  then show ?thesis using char_cut [OF b(1), of j] assms by (simp add: Suc b(1))
qed simp

lemma decode_ending: "0 < k \<Longrightarrow> utf8_decode (drop k (utf8_bytes n) @ r) = utf8_decode r"
proof -
  assume "0 < k"
  then obtain j where k: "k = Suc j" by (cases k) auto
  obtain b bs where b: "utf8_bytes n = b # bs" "list_all utf8_cont bs" by (rule bytes_cons)
  have "list_all utf8_cont (drop j bs)" using b(2) by (auto simp: list_all_iff dest: in_set_dropD)
  then show ?thesis by (simp add: k b(1) decode_conts)
qed

text \<open>Cutting the bytes and decoding what is left cuts the text.\<close>

lemma code_points_simps [simp]: "code_points []" "code_points (n # v) \<longleftrightarrow> n < 1114112 \<and> code_points v"
  by (simp_all add: code_points_def)

lemma replaced_simps [simp]: "replaced [] = []" "replaced (n # v) = (if is_surrogate n then 63 else n) # replaced v"
  by (simp_all add: replaced_def)

lemma decode_encode: "code_points v \<Longrightarrow> utf8_decode (utf8_encode v @ r) = replaced v @ utf8_decode r"
  by (induction v) (simp_all add: decode_char)

lemma cut_prefix_prefix: "code_points v \<Longrightarrow> prefix (cut_prefix v k) (replaced v)"
  unfolding cut_prefix_def
proof (induction v arbitrary: k)
  case (Cons n v)
  show ?case
  proof (cases "k < length (utf8_bytes n)")
    case True
    then show ?thesis using decode_beginning by simp
  next
    case False
    then show ?thesis using Cons by (simp add: decode_char)
  qed
qed simp

lemma drop_decode_suffix: "code_points v \<Longrightarrow> suffix (utf8_decode (drop k (utf8_encode v))) (replaced v)"
proof (induction v arbitrary: k)
  case (Cons n v)
  have IH: "suffix (utf8_decode (drop j (utf8_encode v))) (replaced (n # v))" for j
    using Cons by (simp add: suffix_ConsI)
  show ?case
  proof (cases "k = 0")
    case True
    then show ?thesis using decode_encode [OF Cons.prems, of "[]"] by (simp only: append_Nil2 utf8_decode.simps(1) drop_0 suffix_order.order_refl)
  next
    case False
    then show ?thesis using IH [of "k - length (utf8_bytes n)"] by (simp add: decode_ending)
  qed
qed simp

lemma cut_suffix_suffix: "code_points v \<Longrightarrow> suffix (cut_suffix v n) (replaced v)"
  using drop_decode_suffix by (auto simp: cut_suffix_def Let_def)

lemma cut_lengths:
  "length (utf8_encode (cut_prefix s n)) \<le> n" "length (utf8_encode (cut_suffix s n)) \<le> n"
proof -
  show "length (utf8_encode (cut_prefix s n)) \<le> n"
    unfolding cut_prefix_def using encode_decode_length [of "take n (utf8_encode s)"] by simp
  show "length (utf8_encode (cut_suffix s n)) \<le> n"
  proof (cases "n = 0")
    case False
    have "length (drop (length (utf8_encode s) - n) (utf8_encode s)) \<le> n" by simp
    then show ?thesis using False encode_decode_length order_trans unfolding cut_suffix_def Let_def
      by (metis (mono_tags, lifting))
  qed (simp add: cut_suffix_def)
qed

lemma marker_length: "length (utf8_encode truncation_marker) \<le> 60"
  by code_simp

lemma head_le: "nat \<lfloor>real usable * (18 / 25)\<rfloor> \<le> usable"
proof -
  have "\<lfloor>real usable * (18 / 25)\<rfloor> \<le> \<lfloor>real usable\<rfloor>" by (rule floor_mono) simp
  then show ?thesis by simp
qed

lemma fit_parts_cases:
  obtains n m where "fit_parts v usable keep = cut_prefix v n @ truncation_marker @ cut_suffix v m" "n + m \<le> usable"
proof (cases "keep \<and> 800 \<le> usable")
  case True
  then have "fit_parts v usable keep = cut_prefix v (nat \<lfloor>real usable * (18 / 25)\<rfloor>) @ truncation_marker @
      cut_suffix v (usable - nat \<lfloor>real usable * (18 / 25)\<rfloor>)"
    unfolding fit_parts_def Let_def by (simp only: if_True simp_thms)
  moreover have "nat \<lfloor>real usable * (18 / 25)\<rfloor> + (usable - nat \<lfloor>real usable * (18 / 25)\<rfloor>) \<le> usable"
    using head_le [of usable] by linarith
  ultimately show thesis by (rule that)
next
  case False
  then have "fit_parts v usable keep = cut_prefix v usable @ truncation_marker"
    unfolding fit_parts_def by (simp only: if_False)
  then have "fit_parts v usable keep = cut_prefix v usable @ truncation_marker @ cut_suffix v 0"
    by (simp add: cut_suffix_def)
  then show thesis by (rule that) simp
qed

lemma fitted_shape:
  assumes "code_points v"
  shows "\<exists>p s. prefix p (replaced v) \<and> suffix s (replaced v) \<and> fitted_text v tokens keep = p @ truncation_marker @ s"
proof -
  obtain n m where "fitted_text v tokens keep = cut_prefix v n @ truncation_marker @ cut_suffix v m"
    unfolding fitted_text_def Let_def by (rule fit_parts_cases)
  then show ?thesis using cut_prefix_prefix [OF assms] cut_suffix_suffix [OF assms] by blast
qed

lemma fitted_length:
  assumes "64 \<le> tokens"
  shows "real (length (utf8_encode (fitted_text v tokens keep))) \<le> of_int tokens * (17 / 5)"
proof -
  let ?x = "of_int tokens * (17 / 5 :: real)"
  define budget where "budget = nat (max 1 \<lfloor>?x\<rfloor>)"
  have "217 \<le> ?x" using assms by (simp add: field_simps)
  then have f: "217 \<le> \<lfloor>?x\<rfloor>" by (simp add: le_floor_iff)
  have "of_int \<lfloor>?x\<rfloor> \<le> ?x" by (rule of_int_floor_le)
  moreover have "budget = nat \<lfloor>?x\<rfloor>" using f unfolding budget_def by simp
  ultimately have b: "real budget \<le> ?x" "217 \<le> budget" using f by linarith+
  obtain n m where nm: "fitted_text v tokens keep = cut_prefix v n @ truncation_marker @ cut_suffix v m"
    "n + m \<le> budget - length (utf8_encode truncation_marker)"
    unfolding fitted_text_def Let_def budget_def by (rule fit_parts_cases)
  have "length (utf8_encode (fitted_text v tokens keep)) \<le> budget"
    using cut_lengths(1) [of v n] cut_lengths(2) [of v m] nm marker_length b(2) by simp
  then show ?thesis using b(1) by linarith
qed

lemma estimate_bound:
  assumes "real (length (utf8_encode s)) \<le> of_int tokens * (17 / 5)" "1 \<le> tokens"
  shows "estimate_tokens s \<le> tokens"
proof -
  have "real (length (utf8_encode s)) / (17 / 5) \<le> of_int tokens" using assms(1) by (simp add: field_simps)
  then have "\<lceil>real (length (utf8_encode s)) / (17 / 5)\<rceil> \<le> tokens" by (simp add: ceiling_le_iff)
  then show ?thesis using assms(2) by (simp add: estimate_tokens_def)
qed

lemma filter_encode_length: "length (utf8_encode (filter P s)) \<le> length (utf8_encode s)"
  by (induction s) auto

lemma estimate_filter: "estimate_tokens (filter P s) \<le> estimate_tokens s"
proof (cases "filter P s = []")
  case False
  then have "s \<noteq> []" by auto
  have "real (length (utf8_encode (filter P s))) / (17 / 5) \<le> real (length (utf8_encode s)) / (17 / 5)"
    using filter_encode_length [of P s] by (simp add: divide_right_mono)
  then have "\<lceil>real (length (utf8_encode (filter P s))) / (17 / 5)\<rceil> \<le> \<lceil>real (length (utf8_encode s)) / (17 / 5)\<rceil>"
    by (rule ceiling_mono)
  then show ?thesis unfolding estimate_tokens_def using False \<open>s \<noteq> []\<close> by (simp only: if_False if_True max.mono)
qed (simp add: estimate_tokens_def le_max_iff_disj)

text \<open>
  C40. \<open>fit_text\<close> keeps its budget for every text of code points: what it returns is estimated at no
  more than \<open>max 64\<close> of the tokens asked for (a smaller request is raised to 64), its recorded estimate
  too. A text is cut exactly when its own estimate is above that; an uncut one is returned without its
  NUL characters, and of a cut one a beginning and an end, in whole characters, around the marker of the
  omission, with the surrogates, which UTF-8 cannot write, as question marks.
\<close>

theorem fit_text_within_budget:
  assumes "code_points v" "tokens = max 64 (safe_int max_tokens 64)" "pk = fit_text v max_tokens keep"
  shows "estimate_tokens (pk_text pk) \<le> tokens \<and> pk_tokens pk \<le> tokens \<and>
    (pk_truncated pk \<longleftrightarrow> tokens < estimate_tokens v) \<and>
    (pk_truncated pk \<or> pk_text pk = filter (\<lambda>n. n \<noteq> 0) v) \<and>
    (\<not> pk_truncated pk \<or>
      (\<exists>p s. prefix p (replaced v) \<and> suffix s (replaced v) \<and>
        pk_text pk = filter (\<lambda>n. n \<noteq> 0) (p @ truncation_marker @ s)))"
proof (cases "estimate_tokens v \<le> tokens")
  case True
  have "estimate_tokens (filter (\<lambda>n. n \<noteq> 0) v) \<le> tokens" using estimate_filter order_trans [OF _ True] by blast
  moreover have "pk = packed v (estimate_tokens v) False (estimate_tokens v)"
    using True by (simp only: assms(2,3) fit_text_def Let_def if_True)
  ultimately show ?thesis using True by (simp only: packed_def packed_text.select_convs) (auto simp: assms(2))
next
  case False
  let ?f = "fitted_text v tokens keep"
  have e: "estimate_tokens ?f \<le> tokens" by (rule estimate_bound [OF fitted_length]) (simp_all add: assms(2))
  then have "estimate_tokens (filter (\<lambda>n. n \<noteq> 0) ?f) \<le> tokens" using estimate_filter order_trans by blast
  moreover have "pk = packed ?f (estimate_tokens ?f) True (estimate_tokens v)"
    using False by (simp only: assms(2,3) fit_text_def Let_def if_False)
  moreover obtain p s where ps: "prefix p (replaced v)" "suffix s (replaced v)" "?f = p @ truncation_marker @ s"
    using fitted_shape [OF assms(1)] by blast
  moreover have "max 0 (estimate_tokens ?f) \<le> tokens" using e assms(2) by simp
  ultimately show ?thesis using False by (simp only: packed_def packed_text.select_convs) (use not_le in blast)
qed

text \<open>Eighty euro signs (three bytes each) for at most 64 tokens: the cut falls inside a character.\<close>

theorem fit_text_within_budget_witness:
  "pk_text (fit_text (replicate 80 8364) (PInt 7) True) = replicate 56 8364 @ truncation_marker \<and>
   pk_tokens (fit_text (replicate 80 8364) (PInt 7) True) \<le> 64"
proof -
  let ?v = "replicate 80 8364 :: unicode_text"
  have v: "code_points ?v" by (simp add: code_points_def list_all_iff)
  have euro: "utf8_bytes 8364 = [226, 130, 172]" by (simp add: utf8_bytes_def is_surrogate_def)
  have enc: "length (utf8_encode (replicate m 8364)) = 3 * m" for m by (induction m) (simp_all add: euro)
  have len: "length (utf8_encode ?v) = 240" "length (utf8_encode truncation_marker) = 48"
    by (simp add: enc) code_simp
  have safe: "safe_int (PInt 7) 64 = 7" by (simp add: safe_int_def)
  have e: "estimate_tokens ?v = 71" unfolding estimate_tokens_def len by (simp add: ceiling_eq_iff)
  have b: "nat (max 1 \<lfloor>of_int 64 * (17 / 5 :: real)\<rfloor>) = 217" by simp
  have rep: "replaced (replicate m 8364) = replicate m 8364" "code_points (replicate m 8364)" for m
    by (induction m) (simp_all add: is_surrogate_def)
  have "cut_prefix (replicate m 8364 @ 8364 # w) (3 * m + 1) = replicate m 8364" for m w
    using decode_encode [OF rep(2), of m "take 1 (utf8_bytes 8364)"] decode_beginning [of 1 8364]
    by (simp add: cut_prefix_def enc euro rep(1))
  from this [of 56 "replicate 23 8364"] have "cut_prefix ?v 169 = replicate 56 8364"
    using replicate_add [of 56 24 "8364::nat"] replicate_Suc [of 23 "8364::nat"] by simp
  then have f: "fitted_text ?v 64 True = replicate 56 8364 @ truncation_marker"
    unfolding fitted_text_def Let_def b len fit_parts_def by simp
  have "pk_text (fit_text ?v (PInt 7) True) = filter (\<lambda>n. n \<noteq> 0) (replicate 56 8364 @ truncation_marker)"
    unfolding fit_text_def Let_def safe e by (simp add: f packed_def)
  moreover have "filter (\<lambda>n. n \<noteq> 0) truncation_marker = truncation_marker" by code_simp
  moreover have "pk_tokens (fit_text ?v (PInt 7) True) \<le> 64"
    using fit_text_within_budget [OF v refl refl, of "PInt 7" True] by (simp add: safe)
  ultimately show ?thesis by simp
qed

end
