(* ===== verification/Operational_Mode.thy ===== *)
theory Operational_Mode
  imports Hub_Prelude
begin

text \<open>
  The process-wide operational mode (\<open>operational_mode.py\<close>): one small file, replaced atomically, read
  by every entry point before heavy work.  The theorems show that whatever the file holds the snapshot
  is well formed and the gate fails closed, and that a crash at any point of a write leaves the old or
  the new mode.  The clean-up of the CUDA cache and the platform's file lock are left out; the lock
  serialises the writers.
\<close>

section \<open>Snapshots\<close>

record mode_snapshot =
  om_mode :: string
  om_revision :: int
  om_updated :: "string option"
  om_degraded :: bool
  om_error :: string

definition allowed_modes :: "string list" where
  "allowed_modes = [''active'', ''gaming'', ''maintenance'']"

definition snapshot_ok :: "string \<Rightarrow> int \<Rightarrow> string option \<Rightarrow> mode_snapshot" where
  "snapshot_ok mode revision updated =
     \<lparr>om_mode = mode, om_revision = revision, om_updated = updated, om_degraded = False, om_error = []\<rparr>"

definition degraded_snapshot :: "string \<Rightarrow> mode_snapshot" where
  "degraded_snapshot error =
     \<lparr>om_mode = ''maintenance'', om_revision = 0, om_updated = None, om_degraded = True, om_error = error\<rparr>"

definition snapshot_dict :: "mode_snapshot \<Rightarrow> pyval" where
  "snapshot_dict s = PDict [(''mode'', PStr (om_mode s)), (''revision'', PInt (om_revision s)),
     (''updated_at'', case om_updated s of None \<Rightarrow> PNone | Some t \<Rightarrow> PStr t), (''degraded'', PBool (om_degraded s)),
     (''error'', PStr (om_error s))]"

section \<open>Loading\<close>

text \<open>The file: absent, not readable, not UTF-8 or not JSON, or a JSON value.\<close>

datatype mode_file = Missing | Unreadable | Undecodable | Json pyval

definition valid_state_dir :: "string \<Rightarrow> bool" where
  "valid_state_dir dir \<longleftrightarrow> py_strip dir \<noteq> [] \<and> nul \<notin> set dir"

definition load_mode :: "string \<Rightarrow> mode_file \<Rightarrow> mode_snapshot" where
  "load_mode dir file =
     (if \<not> valid_state_dir dir then degraded_snapshot ''state_dir must be a nonempty path''
      else
        (case file of
           Missing \<Rightarrow> snapshot_ok ''active'' 0 None
         | Unreadable \<Rightarrow> degraded_snapshot ''operational mode state is unreadable''
         | Json (PDict d) \<Rightarrow>
             (case (dict_get d ''mode'', dict_get d ''revision'', dict_get d ''updated_at'') of
                (PStr mode, PInt revision, PStr updated) \<Rightarrow>
                  if mode \<notin> set allowed_modes \<or> revision < 1 \<or> updated = []
                  then degraded_snapshot ''operational mode state is invalid''
                  else snapshot_ok mode revision (Some updated)
              | _ \<Rightarrow> degraded_snapshot ''operational mode state is invalid'')
         | _ \<Rightarrow> degraded_snapshot ''operational mode state is invalid''))"

section \<open>Writing\<close>

text \<open>The state file and the temporary file beside it.\<close>

record mode_fs =
  mf_file :: mode_file
  mf_temp :: "mode_file option"

datatype mode_step = Make_Temp | Write_Temp pyval | Replace | Unlink_Temp

fun mode_step_fs :: "mode_fs \<Rightarrow> mode_step \<Rightarrow> mode_fs" where
  "mode_step_fs fs Make_Temp = fs\<lparr>mf_temp := Some Undecodable\<rparr>"
| "mode_step_fs fs (Write_Temp v) = fs\<lparr>mf_temp := map_option (\<lambda>_. Json v) (mf_temp fs)\<rparr>"
| "mode_step_fs fs Replace = (case mf_temp fs of None \<Rightarrow> fs | Some content \<Rightarrow> \<lparr>mf_file = content, mf_temp = None\<rparr>)"
| "mode_step_fs fs Unlink_Temp = fs\<lparr>mf_temp := None\<rparr>"

definition next_snapshot :: "string \<Rightarrow> string \<Rightarrow> string \<Rightarrow> mode_fs \<Rightarrow> mode_snapshot" where
  "next_snapshot dir mode now fs = snapshot_ok mode (om_revision (load_mode dir (mf_file fs)) + 1) (Some now)"

definition write_steps :: "mode_snapshot \<Rightarrow> mode_step list" where
  "write_steps s = [Make_Temp, Write_Temp (snapshot_dict s), Replace]"

text \<open>Which call raises: none, the lock, the creation of the temporary file, its writing, or the replacement.\<close>

datatype mode_fault = No_Fault | Lock_Fails | Temp_Fails | Write_Fails | Replace_Fails

datatype mode_error = Bad_Dir | Bad_Mode | Os_Error

definition set_mode :: "mode_fault \<Rightarrow> string \<Rightarrow> string \<Rightarrow> string \<Rightarrow> mode_fs \<Rightarrow> mode_fs \<times> (mode_error + mode_snapshot)" where
  "set_mode fault dir mode now fs =
     (if \<not> valid_state_dir dir then (fs, Inl Bad_Dir)
      else if mode \<notin> set allowed_modes then (fs, Inl Bad_Mode)
      else
        (let s = next_snapshot dir mode now fs in
         case fault of
           Lock_Fails \<Rightarrow> (fs, Inl Os_Error)
         | Temp_Fails \<Rightarrow> (fs, Inl Os_Error)
         | Write_Fails \<Rightarrow> (foldl mode_step_fs fs [Make_Temp, Unlink_Temp], Inl Os_Error)
         | Replace_Fails \<Rightarrow> (foldl mode_step_fs fs [Make_Temp, Write_Temp (snapshot_dict s), Unlink_Temp], Inl Os_Error)
         | No_Fault \<Rightarrow> (foldl mode_step_fs fs (write_steps s), Inr s)))"

text \<open>A process killed during a write has run the first \<open>k\<close> steps of it.\<close>

definition killed_write :: "nat \<Rightarrow> string \<Rightarrow> string \<Rightarrow> string \<Rightarrow> mode_fs \<Rightarrow> mode_fs" where
  "killed_write k dir mode now fs =
     (if valid_state_dir dir \<and> mode \<in> set allowed_modes
      then foldl mode_step_fs fs (take k (write_steps (next_snapshot dir mode now fs))) else fs)"

section \<open>The gate\<close>

definition safe_job_actions :: "string list" where
  "safe_job_actions = [''status'', ''wait'', ''result'', ''cancel'', ''evaluation_report'']"

record gate_error =
  ga_mode :: string
  ga_action :: string

text \<open>\<open>operational_mode_gate_error\<close>; the fixed fields of the response are left out.\<close>

definition gate :: "mode_snapshot option \<Rightarrow> string \<Rightarrow> bool \<Rightarrow> gate_error option" where
  "gate snapshot action requires_heavy_work =
     (if (case snapshot of Some s \<Rightarrow> om_mode s = ''active'' \<and> \<not> om_degraded s | None \<Rightarrow> False) then None
      else
        (let mode = (case snapshot of Some s \<Rightarrow> om_mode s | None \<Rightarrow> ''maintenance'');
             degraded = (case snapshot of Some s \<Rightarrow> om_degraded s | None \<Rightarrow> True) in
         if \<not> degraded \<and> mode = ''gaming'' \<and> action \<in> set safe_job_actions then None
         else if \<not> degraded \<and> mode = ''gaming'' \<and> \<not> requires_heavy_work then None
         else Some \<lparr>ga_mode = mode, ga_action = action\<rparr>))"

section \<open>Every snapshot is well formed and the gate fails closed\<close>

definition wf_snapshot :: "mode_snapshot \<Rightarrow> bool" where
  "wf_snapshot s \<longleftrightarrow> om_mode s \<in> set allowed_modes \<and> 0 \<le> om_revision s \<and>
     (if om_degraded s then om_mode s = ''maintenance'' \<and> om_revision s = 0 \<and> om_error s \<noteq> [] else om_error s = []) \<and>
     (om_updated s = None \<longleftrightarrow> om_revision s = 0)"

lemma wf_degraded: "e \<noteq> [] \<Longrightarrow> wf_snapshot (degraded_snapshot e)"
  by (simp add: wf_snapshot_def degraded_snapshot_def allowed_modes_def)

lemma wf_ok: "m \<in> set allowed_modes \<Longrightarrow> 1 \<le> r \<Longrightarrow> wf_snapshot (snapshot_ok m r (Some t))"
  by (simp add: wf_snapshot_def snapshot_ok_def)

lemma wf_load: "wf_snapshot (load_mode dir content)"
proof (cases "valid_state_dir dir")
  case True
  have active: "wf_snapshot (snapshot_ok ''active'' 0 None)"
    by (simp add: wf_snapshot_def snapshot_ok_def allowed_modes_def)
  show ?thesis using True active wf_ok wf_degraded
    by (auto simp: load_mode_def not_less split: mode_file.splits pyval.splits)
qed (simp add: load_mode_def wf_degraded)

text \<open>What a file must hold for the mode to be \<open>mode\<close>, not degraded.\<close>

definition file_says :: "mode_file \<Rightarrow> string \<Rightarrow> bool" where
  "file_says content mode \<longleftrightarrow> (content = Missing \<and> mode = ''active'') \<or>
     (\<exists>d r t. content = Json (PDict d) \<and> dict_get d ''mode'' = PStr mode \<and> dict_get d ''revision'' = PInt r \<and> 1 \<le> r \<and>
        dict_get d ''updated_at'' = PStr t \<and> t \<noteq> [] \<and> mode \<in> set allowed_modes)"

lemma load_not_degraded: "\<not> om_degraded (load_mode dir content) \<Longrightarrow> file_says content (om_mode (load_mode dir content))"
  by (auto simp: load_mode_def degraded_snapshot_def snapshot_ok_def file_says_def not_less
      split: mode_file.splits pyval.splits if_splits)

text \<open>
  C30. Whatever bytes the mode file holds, or none, the snapshot read from it is well formed: one of the
  three modes, and degraded exactly with the maintenance mode, revision zero and a reason.  And the
  gate fails closed: it lets heavy work through only if the directory is valid and the file is absent
  or says active in a valid record, or says gaming in a valid record and the action is one of the safe
  ones on jobs.
\<close>

theorem mode_gate_fails_closed:
  "wf_snapshot (load_mode dir content) \<and>
   (gate (Some (load_mode dir content)) action True = None) =
     (valid_state_dir dir \<and> (file_says content ''active'' \<or> (file_says content ''gaming'' \<and> action \<in> set safe_job_actions)))"
proof -
  have load: "\<not> om_degraded (load_mode dir content) \<and> om_mode (load_mode dir content) = m \<longleftrightarrow> valid_state_dir dir \<and> file_says content m" for m
  proof
    assume "\<not> om_degraded (load_mode dir content) \<and> om_mode (load_mode dir content) = m"
    then show "valid_state_dir dir \<and> file_says content m"
      using load_not_degraded [of dir content] by (auto simp: load_mode_def degraded_snapshot_def split: if_splits)
  next
    assume "valid_state_dir dir \<and> file_says content m"
    then consider "valid_state_dir dir" "content = Missing" "m = ''active''"
      | d r t where "valid_state_dir dir" "content = Json (PDict d)" "dict_get d ''mode'' = PStr m" "dict_get d ''revision'' = PInt r"
        "1 \<le> r" "dict_get d ''updated_at'' = PStr t" "t \<noteq> []" "m \<in> set allowed_modes" unfolding file_says_def by blast
    then show "\<not> om_degraded (load_mode dir content) \<and> om_mode (load_mode dir content) = m"
      by cases (simp_all add: load_mode_def snapshot_ok_def)
  qed
  have passes: "(gate (Some s) action True = None) \<longleftrightarrow> (\<not> om_degraded s \<and> om_mode s = ''active'') \<or>
      (\<not> om_degraded s \<and> om_mode s = ''gaming'') \<and> action \<in> set safe_job_actions" for s
    by (cases "om_degraded s"; cases "om_mode s = ''active''"; simp add: gate_def Let_def)
  show ?thesis using passes [of "load_mode dir content"] wf_load [of dir content] unfolding load by blast
qed

section \<open>Writes are atomic\<close>

lemma load_next:
  assumes "valid_state_dir dir" "mode \<in> set allowed_modes" "now \<noteq> []"
  shows "load_mode dir (Json (snapshot_dict (next_snapshot dir mode now fs))) = next_snapshot dir mode now fs"
proof -
  have "0 \<le> om_revision (load_mode dir (mf_file fs))" using wf_load by (simp add: wf_snapshot_def)
  then show ?thesis using assms by (simp add: load_mode_def next_snapshot_def snapshot_dict_def snapshot_ok_def dict_get_def)
qed

lemma killed_file:
  "mf_file (killed_write k dir mode now fs) \<in>
     {mf_file fs} \<union> (if valid_state_dir dir \<and> mode \<in> set allowed_modes then {Json (snapshot_dict (next_snapshot dir mode now fs))} else {})"
proof -
  consider "k = 0" | "k = 1" | "k = 2" | "3 \<le> k" by linarith
  then show ?thesis by cases (auto simp: killed_write_def write_steps_def numeral_2_eq_2 take_Suc_Cons)
qed

text \<open>
  The revision is not monotone: it restarts at one when the file was damaged, and the file of a
  remote status keyed by revision then keeps the older, larger one.
\<close>

lemma revision_restarts:
  assumes "valid_state_dir dir" "mode \<in> set allowed_modes" "mf_file fs \<in> {Unreadable, Undecodable}"
  shows "\<exists>s. snd (set_mode No_Fault dir mode now fs) = Inr s \<and> om_revision s = 1"
  using assms by (auto simp: set_mode_def Let_def next_snapshot_def snapshot_ok_def load_mode_def degraded_snapshot_def)

text \<open>
  A write of the mode is atomic and durable in sequence.  If it returns, a later read gives exactly
  the snapshot it returned, the mode asked for with the next revision; if it raises, whichever of its
  calls failed, and whichever argument was bad, a later read gives what it gave before; and if the
  process is killed after any number of its steps, a later read gives the one or the other.  No
  temporary file is left behind by a call that returns or raises.
\<close>

theorem mode_write_atomic:
  assumes "now \<noteq> []"
  shows "(\<forall>s. snd (set_mode fault dir mode now fs) = Inr s \<longrightarrow>
      load_mode dir (mf_file (fst (set_mode fault dir mode now fs))) = s \<and> om_mode s = mode \<and>
      om_revision s = om_revision (load_mode dir (mf_file fs)) + 1) \<and>
    (isl (snd (set_mode fault dir mode now fs)) \<longrightarrow> mf_file (fst (set_mode fault dir mode now fs)) = mf_file fs) \<and>
    (mf_temp fs = None \<longrightarrow> mf_temp (fst (set_mode fault dir mode now fs)) = None) \<and>
    load_mode dir (mf_file (killed_write k dir mode now fs)) \<in> {load_mode dir (mf_file fs), next_snapshot dir mode now fs}"
proof (intro conjI allI impI)
  fix s assume s: "snd (set_mode fault dir mode now fs) = Inr s"
  then have "valid_state_dir dir" "mode \<in> set allowed_modes" and new: "s = next_snapshot dir mode now fs"
    "mf_file (fst (set_mode fault dir mode now fs)) = Json (snapshot_dict s)"
    by (auto simp: set_mode_def Let_def write_steps_def split: if_splits mode_fault.splits)
  then show "load_mode dir (mf_file (fst (set_mode fault dir mode now fs))) = s" using load_next assms by simp
  show "om_mode s = mode" "om_revision s = om_revision (load_mode dir (mf_file fs)) + 1"
    by (simp_all add: new next_snapshot_def snapshot_ok_def)
next
  assume "isl (snd (set_mode fault dir mode now fs))"
  then show "mf_file (fst (set_mode fault dir mode now fs)) = mf_file fs"
    by (auto simp: set_mode_def Let_def split: if_splits mode_fault.splits)
next
  assume "mf_temp fs = None"
  then show "mf_temp (fst (set_mode fault dir mode now fs)) = None"
    by (auto simp: set_mode_def Let_def write_steps_def split: mode_fault.splits)
next
  show "load_mode dir (mf_file (killed_write k dir mode now fs)) \<in> {load_mode dir (mf_file fs), next_snapshot dir mode now fs}"
    using killed_file [of k dir mode now fs] load_next [OF _ _ assms] by (auto split: if_splits)
qed

theorem mode_write_atomic_witness:
  "\<exists>s. snd (set_mode No_Fault ''/state'' ''gaming'' ''2026'' \<lparr>mf_file = Missing, mf_temp = None\<rparr>) = Inr s \<and>
     load_mode ''/state'' (mf_file (fst (set_mode No_Fault ''/state'' ''gaming'' ''2026'' \<lparr>mf_file = Missing, mf_temp = None\<rparr>))) = s"
proof -
  have "valid_state_dir ''/state''" "''gaming'' \<in> set allowed_modes" by code_simp+
  then have "\<not> isl (snd (set_mode No_Fault ''/state'' ''gaming'' ''2026'' \<lparr>mf_file = Missing, mf_temp = None\<rparr>))"
    by (simp add: set_mode_def Let_def)
  then show ?thesis
    using mode_write_atomic [of "''2026''" No_Fault "''/state''" "''gaming''" "\<lparr>mf_file = Missing, mf_temp = None\<rparr>"]
    by (metis list.distinct(1) sum.collapse(2))
qed

end
