(* ===== verification/Event_Fanout.thy ===== *)
theory Event_Fanout
  imports Pubsub_Queue
begin

text \<open>
  The events of the agent state store and their live subscribers (\<open>AgentEvent\<close>, \<open>AppendResult\<close>,
  \<open>AgentStateStore.subscribe\<close>, \<open>unsubscribe\<close> and \<open>_publish\<close> of \<open>agent_events.py\<close>).  A full queue
  replaces its oldest events by one event of kind \<open>stream.gap\<close> whose payload counts what was lost and
  names the lost ranges per stream, at most 128 of them.  The payload of a marker is an ordinary
  payload, so reading it back can fail on an event of that kind that somebody else appended.

  \<open>rep\<close> is \<open>str(v)\<close> of a value that is not a string.
\<close>

section \<open>Events\<close>

datatype event_error =
    Ev_Value string
  | Ev_Type string
  | Ev_Key string
  | Ev_Runtime string
  | Ev_Overflow
  | Ev_Integrity
  | Ev_Busy

type_synonym payload = "(string \<times> pyval) list"

record agent_event =
  ae_id :: string
  ae_stream :: string
  ae_kind :: string
  ae_payload :: payload
  ae_key :: string
  ae_correlation :: string
  ae_actor :: string
  ae_created :: real
  ae_seq :: "int option"

text \<open>The checks of \<open>__post_init__\<close>, field by field.\<close>

definition identity_field :: "string \<Rightarrow> pyval \<Rightarrow> event_error + string" where
  "identity_field name v =
     (case v of
        PStr s \<Rightarrow> if nul \<in> set s \<or> (name \<noteq> ''correlation_id'' \<and> py_strip s = []) then Inl (Ev_Value name) else Inr s
      | _ \<Rightarrow> Inl (Ev_Value name))"

definition payload_field :: "pyval \<Rightarrow> event_error + payload" where
  "payload_field v = (case v of PDict d \<Rightarrow> Inr d | _ \<Rightarrow> Inl (Ev_Type ''payload must be a mapping''))"

text \<open>An integer from which \<open>float\<close> raises \<open>OverflowError\<close>.\<close>

definition float_limit :: int where
  "float_limit = 2 ^ 1024 - 2 ^ 970"

definition created_field :: "pyval \<Rightarrow> event_error + real" where
  "created_field v =
     (case v of
        PInt i \<Rightarrow> if i < 0 \<or> float_limit \<le> i then Inl (Ev_Value ''created_at'') else Inr (of_int i)
      | PFloat (Fin r) \<Rightarrow> if r < 0 then Inl (Ev_Value ''created_at'') else Inr r
      | _ \<Rightarrow> Inl (Ev_Value ''created_at''))"

definition seq_field :: "pyval \<Rightarrow> event_error + int option" where
  "seq_field v =
     (case v of
        PNone \<Rightarrow> Inr None
      | PInt i \<Rightarrow> if i < 0 then Inl (Ev_Value ''seq'') else Inr (Some i)
      | _ \<Rightarrow> Inl (Ev_Value ''seq''))"

text \<open>\<open>AgentEvent(...)\<close>.\<close>

definition make_event ::
  "pyval \<Rightarrow> pyval \<Rightarrow> pyval \<Rightarrow> pyval \<Rightarrow> pyval \<Rightarrow> pyval \<Rightarrow> pyval \<Rightarrow> pyval \<Rightarrow> pyval \<Rightarrow> event_error + agent_event" where
  "make_event event_id stream_id kind payload key correlation_id actor created_at seq =
     bindr (identity_field ''event_id'' event_id) (\<lambda>i.
     bindr (identity_field ''stream_id'' stream_id) (\<lambda>s.
     bindr (identity_field ''kind'' kind) (\<lambda>k.
     bindr (identity_field ''idempotency_key'' key) (\<lambda>ik.
     bindr (identity_field ''correlation_id'' correlation_id) (\<lambda>c.
     bindr (identity_field ''actor'' actor) (\<lambda>a.
     bindr (payload_field payload) (\<lambda>p.
     bindr (created_field created_at) (\<lambda>t.
     bindr (seq_field seq) (\<lambda>n.
       Inr \<lparr>ae_id = i, ae_stream = s, ae_kind = k, ae_payload = p, ae_key = ik, ae_correlation = c,
            ae_actor = a, ae_created = t, ae_seq = n\<rparr>)))))))))"

definition is_persisted :: "agent_event \<Rightarrow> bool" where
  "is_persisted e = (case ae_seq e of None \<Rightarrow> False | Some n \<Rightarrow> 0 < n)"

definition has_correlation :: "agent_event \<Rightarrow> bool" where
  "has_correlation e \<longleftrightarrow> ae_correlation e \<noteq> []"

text \<open>\<open>AgentEvent.create\<close>; \<open>uid\<close> and \<open>uid'\<close> are the two \<open>uuid4().hex\<close>, \<open>now\<close> the clock.\<close>

definition create_event ::
  "string \<Rightarrow> string \<Rightarrow> seconds \<Rightarrow> string \<Rightarrow> string \<Rightarrow> payload option \<Rightarrow> string \<Rightarrow> string \<Rightarrow> string \<Rightarrow> real option
     \<Rightarrow> event_error + agent_event" where
  "create_event uid uid' now stream_id kind payload key actor correlation_id created_at =
     make_event (PStr (''evt_'' @ uid)) (PStr stream_id) (PStr kind)
       (PDict (case payload of None \<Rightarrow> [] | Some p \<Rightarrow> p))
       (PStr (if key = [] then ''idemp_'' @ uid' else key)) (PStr correlation_id) (PStr actor)
       (PFloat (Fin (case created_at of None \<Rightarrow> now | Some t \<Rightarrow> t))) PNone"

definition with_seq :: "agent_event \<Rightarrow> int \<Rightarrow> event_error + agent_event" where
  "with_seq e n =
     make_event (PStr (ae_id e)) (PStr (ae_stream e)) (PStr (ae_kind e)) (PDict (ae_payload e)) (PStr (ae_key e))
       (PStr (ae_correlation e)) (PStr (ae_actor e)) (PFloat (Fin (ae_created e))) (PInt n)"

definition event_dict :: "agent_event \<Rightarrow> payload" where
  "event_dict e =
     [(''event_id'', PStr (ae_id e)), (''stream_id'', PStr (ae_stream e)), (''kind'', PStr (ae_kind e)),
      (''payload'', PDict (ae_payload e)), (''idempotency_key'', PStr (ae_key e)),
      (''correlation_id'', PStr (ae_correlation e)), (''actor'', PStr (ae_actor e)),
      (''created_at'', PFloat (Fin (ae_created e))),
      (''seq'', (case ae_seq e of None \<Rightarrow> PNone | Some n \<Rightarrow> PInt n))]"

definition event_fields :: "string list" where
  "event_fields =
     [''event_id'', ''stream_id'', ''kind'', ''payload'', ''idempotency_key'', ''correlation_id'', ''actor'',
      ''created_at'', ''seq'']"

definition event_from_dict :: "pyval \<Rightarrow> event_error + agent_event" where
  "event_from_dict data =
     (case data of
        PDict d \<Rightarrow>
          (case find (\<lambda>f. f \<notin> fst ` set d) event_fields of
             Some f \<Rightarrow> Inl (Ev_Key f)
           | None \<Rightarrow>
               if \<exists>k \<in> fst ` set d. k \<notin> set event_fields then Inl (Ev_Value ''unexpected AgentEvent fields'')
               else make_event (dict_get d ''event_id'') (dict_get d ''stream_id'') (dict_get d ''kind'')
                      (dict_get d ''payload'') (dict_get d ''idempotency_key'') (dict_get d ''correlation_id'')
                      (dict_get d ''actor'') (dict_get d ''created_at'') (dict_get d ''seq''))
      | _ \<Rightarrow> Inl (Ev_Type ''AgentEvent data must be a mapping''))"

text \<open>What \<open>__post_init__\<close> guarantees of every event there is.\<close>

definition identity_ok :: "string \<Rightarrow> bool" where
  "identity_ok s \<longleftrightarrow> nul \<notin> set s \<and> py_strip s \<noteq> []"

definition valid_event :: "agent_event \<Rightarrow> bool" where
  "valid_event e \<longleftrightarrow>
     identity_ok (ae_id e) \<and> identity_ok (ae_stream e) \<and> identity_ok (ae_kind e) \<and> identity_ok (ae_key e) \<and>
     nul \<notin> set (ae_correlation e) \<and> identity_ok (ae_actor e) \<and> 0 \<le> ae_created e \<and>
     (case ae_seq e of None \<Rightarrow> True | Some n \<Rightarrow> 0 \<le> n)"

lemma strip_prefix: "\<not> is_space c \<Longrightarrow> py_strip (c # s) \<noteq> []"
  by (auto simp: py_strip_def dropWhile_eq_Nil_conv)

lemma identity_field_Inr [simp]:
  "identity_field name v = Inr s \<longleftrightarrow>
     v = PStr s \<and> nul \<notin> set s \<and> (name \<noteq> ''correlation_id'' \<longrightarrow> py_strip s \<noteq> [])"
  by (auto simp: identity_field_def split: pyval.splits)

lemma make_event_valid: "make_event i s k p ik c a t n = Inr e \<Longrightarrow> valid_event e"
  by (auto simp: make_event_def valid_event_def identity_ok_def created_field_def seq_field_def
      split: pyval.splits pyfloat.splits if_splits)

lemma make_event_fields:
  "valid_event e \<Longrightarrow>
   make_event (PStr (ae_id e)) (PStr (ae_stream e)) (PStr (ae_kind e)) (PDict (ae_payload e)) (PStr (ae_key e))
     (PStr (ae_correlation e)) (PStr (ae_actor e)) (PFloat (Fin (ae_created e)))
     (case ae_seq e of None \<Rightarrow> PNone | Some n \<Rightarrow> PInt n) = Inr e"
  by (cases e) (auto simp: make_event_def valid_event_def identity_ok_def identity_field_def payload_field_def
      created_field_def seq_field_def split: option.splits)

lemma with_seq_valid: "valid_event e \<Longrightarrow> 0 \<le> n \<Longrightarrow> with_seq e n = Inr (e\<lparr>ae_seq := Some n\<rparr>)"
  using make_event_fields [of "e\<lparr>ae_seq := Some n\<rparr>"] by (simp add: with_seq_def valid_event_def)

lemma event_dict_roundtrip: "valid_event e \<Longrightarrow> event_from_dict (PDict (event_dict e)) = Inr e"
  using make_event_fields [of e] by (simp add: event_from_dict_def event_dict_def event_fields_def dict_get_def)

lemma event_from_dict_valid: "event_from_dict v = Inr e \<Longrightarrow> valid_event e"
  by (auto simp: event_from_dict_def split: pyval.splits option.splits if_splits intro: make_event_valid)

section \<open>Results of an append\<close>

record append_outcome =
  ao_seq :: int
  ao_duplicate :: bool
  ao_event :: "agent_event option"
  ao_retryable :: bool
  ao_error :: "event_error option"

definition append_succeeded :: "append_outcome \<Rightarrow> bool" where
  "append_succeeded r \<longleftrightarrow> ao_error r = None \<and> \<not> ao_retryable r \<and> 0 < ao_seq r \<and> ao_event r \<noteq> None"

definition append_is_error :: "append_outcome \<Rightarrow> bool" where
  "append_is_error r \<longleftrightarrow> \<not> append_succeeded r"

section \<open>Reading a marker back\<close>

text \<open>\<open>int(s)\<close> of a string: surrounding white space, a sign, digits with single underscores between
  them, at most 4300 digits.\<close>

definition digit_of :: "char \<Rightarrow> int option" where
  "digit_of c = (let n = of_char c :: int in if 48 \<le> n \<and> n \<le> 57 then Some (n - 48) else None)"

fun digits_from :: "int \<Rightarrow> string \<Rightarrow> int option" where
  "digits_from acc [] = Some acc"
| "digits_from acc (c # cs) =
     (case digit_of c of
        Some d \<Rightarrow> digits_from (10 * acc + d) cs
      | None \<Rightarrow>
          if c = CHR ''_'' then
            (case cs of [] \<Rightarrow> None
             | x # xs \<Rightarrow> (case digit_of x of None \<Rightarrow> None | Some d \<Rightarrow> digits_from (10 * acc + d) xs))
          else None)"

definition unsigned_int :: "string \<Rightarrow> int option" where
  "unsigned_int s =
     (if 4300 < length (filter (\<lambda>c. digit_of c \<noteq> None) s) then None
      else (case s of [] \<Rightarrow> None
            | c # cs \<Rightarrow> (case digit_of c of None \<Rightarrow> None | Some d \<Rightarrow> digits_from d cs)))"

definition int_text :: "string \<Rightarrow> int option" where
  "int_text s =
     (case py_strip s of [] \<Rightarrow> None
      | c # cs \<Rightarrow> if c = CHR ''-'' then map_option uminus (unsigned_int cs)
                else if c = CHR ''+'' then unsigned_int cs else unsigned_int (c # cs))"

text \<open>\<open>int(v)\<close>.\<close>

definition py_int :: "pyval \<Rightarrow> event_error + int" where
  "py_int v =
     (case v of
        PInt i \<Rightarrow> Inr i
      | PBool b \<Rightarrow> Inr (if b then 1 else 0)
      | PFloat (Fin r) \<Rightarrow> Inr (if r < 0 then \<lceil>r\<rceil> else \<lfloor>r\<rfloor>)
      | PFloat NaN \<Rightarrow> Inl (Ev_Value ''int'')
      | PFloat _ \<Rightarrow> Inl Ev_Overflow
      | PStr s \<Rightarrow> (case int_text s of None \<Rightarrow> Inl (Ev_Value ''int'') | Some i \<Rightarrow> Inr i)
      | _ \<Rightarrow> Inl (Ev_Type ''int''))"

text \<open>\<open>for gap in ranges\<close> over an arbitrary value.\<close>

definition py_items :: "pyval \<Rightarrow> event_error + pyval list" where
  "py_items v =
     (case v of
        PList vs \<Rightarrow> Inr vs
      | PDict d \<Rightarrow> Inr (map (PStr \<circ> fst) d)
      | PStr s \<Rightarrow> Inr (map (\<lambda>c. PStr [c]) s)
      | _ \<Rightarrow> Inl (Ev_Type ''not iterable''))"

definition py_str :: "(pyval \<Rightarrow> string) \<Rightarrow> pyval \<Rightarrow> string" where
  "py_str rep v = (case v of PStr s \<Rightarrow> s | _ \<Rightarrow> rep v)"

fun fold_res :: "('a \<Rightarrow> 'b \<Rightarrow> 'e + 'b) \<Rightarrow> 'a list \<Rightarrow> 'b \<Rightarrow> 'e + 'b" where
  "fold_res f [] b = Inr b"
| "fold_res f (x # xs) b = bindr (f x b) (fold_res f xs)"

type_synonym stream_ranges = "(string \<times> (int \<times> int) list) list"

record fan_account =
  fa_ranges :: stream_ranges
  fa_lost :: int
  fa_new :: int
  fa_truncated :: bool

definition add_gap :: "(pyval \<Rightarrow> string) \<Rightarrow> string \<Rightarrow> pyval \<Rightarrow> stream_ranges \<Rightarrow> event_error + stream_ranges" where
  "add_gap rep owner gap d =
     (case gap of
        PDict g \<Rightarrow>
          if dict_get g ''from_seq'' \<noteq> PNone \<and> dict_get g ''to_seq'' \<noteq> PNone then
            bindr (py_int (dict_get g ''from_seq'')) (\<lambda>lo.
            bindr (py_int (dict_get g ''to_seq'')) (\<lambda>hi.
              Inr (dict_append d (py_str rep (get_default g ''stream_id'' (PStr owner))) (lo, hi))))
          else Inr d
      | _ \<Rightarrow> Inr d)"

definition marker_lost :: "payload \<Rightarrow> event_error + int" where
  "marker_lost p =
     (let v = get_default p ''lost_count'' (PInt 0) in if py_truthy v then py_int v else Inr 0)"

definition account_item :: "(pyval \<Rightarrow> string) \<Rightarrow> agent_event \<Rightarrow> fan_account \<Rightarrow> event_error + fan_account" where
  "account_item rep e acc =
     (if ae_kind e = ''stream.gap'' then
        bindr (marker_lost (ae_payload e)) (\<lambda>lost.
        bindr (py_items (get_default (ae_payload e) ''gap_ranges'' (PList []))) (\<lambda>gaps.
        bindr (fold_res (add_gap rep (ae_stream e)) gaps (fa_ranges acc)) (\<lambda>ranges.
          Inr (acc\<lparr>fa_ranges := ranges, fa_lost := fa_lost acc + lost,
                   fa_truncated := (fa_truncated acc \<or>
                     py_truthy (get_default (ae_payload e) ''gap_ranges_truncated'' (PBool False)))\<rparr>))))
      else
        (case ae_seq e of
           None \<Rightarrow> Inr acc
         | Some n \<Rightarrow> Inr (acc\<lparr>fa_ranges := dict_append (fa_ranges acc) (ae_stream e) (n, n),
                             fa_lost := fa_lost acc + 1, fa_new := fa_new acc + 1\<rparr>)))"

definition no_loss :: fan_account where
  "no_loss = \<lparr>fa_ranges = [], fa_lost = 0, fa_new = 0, fa_truncated = False\<rparr>"

text \<open>A one-slot queue has room for the marker only, so the newest event is lost too.\<close>

definition one_slot :: "int \<Rightarrow> agent_event \<Rightarrow> fan_account \<Rightarrow> fan_account" where
  "one_slot maxsize e acc =
     (if maxsize = 1 then
        acc\<lparr>fa_ranges := (case ae_seq e of None \<Rightarrow> fa_ranges acc | Some n \<Rightarrow> dict_append (fa_ranges acc) (ae_stream e) (n, n)),
            fa_lost := fa_lost acc + 1, fa_new := fa_new acc + 1\<rparr>
      else acc)"

section \<open>Publishing to live subscribers\<close>

definition max_event_gap_ranges :: nat where "max_event_gap_ranges = 128"

definition stream_gap_ranges :: "stream_ranges \<Rightarrow> (string \<times> int \<times> int) list" where
  "stream_gap_ranges by_stream =
     concat (map (\<lambda>(stream, intervals). map (\<lambda>iv. (stream, iv)) (merge_intervals intervals)) by_stream)"

definition range_dict :: "string \<times> int \<times> int \<Rightarrow> pyval" where
  "range_dict r =
     PDict [(''stream_id'', PStr (fst r)), (''from_seq'', PInt (fst (snd r))), (''to_seq'', PInt (snd (snd r)))]"

definition marker_payload :: "(string \<times> int \<times> int) list \<Rightarrow> bool \<Rightarrow> int \<Rightarrow> bool \<Rightarrow> int option \<Rightarrow> payload" where
  "marker_payload ranges truncated lost enabled cursor =
     [(''reason'', PStr ''subscriber queue overflow''), (''gap_ranges'', PList (map range_dict ranges)),
      (''gap_ranges_truncated'', PBool truncated), (''lost_count'', PInt lost),
      (''replay_required'', PBool enabled), (''cursor'', (case cursor of None \<Rightarrow> PNone | Some n \<Rightarrow> PInt n))]"

record event_queue =
  eq_max :: int
  eq_items :: "agent_event list"

definition queue_full :: "event_queue \<Rightarrow> bool" where
  "queue_full q \<longleftrightarrow> 0 < eq_max q \<and> eq_max q \<le> int (length (eq_items q))"

fun drop_over :: "nat \<Rightarrow> 'i list \<Rightarrow> 'i list \<times> 'i list" where
  "drop_over target [] = ([], [])"
| "drop_over target (x # xs) =
     (if target < length (x # xs) then (let (dropped, rest) = drop_over target xs in (x # dropped, rest))
      else ([], x # xs))"

definition marker_event :: "bool \<Rightarrow> string \<times> string \<times> seconds \<Rightarrow> agent_event \<Rightarrow> fan_account \<Rightarrow> event_error + agent_event" where
  "marker_event enabled fresh e acc =
     (let ranges = stream_gap_ranges (fa_ranges acc) in
      create_event (fst fresh) (fst (snd fresh)) (snd (snd fresh)) (ae_stream e) ''stream.gap''
        (Some (marker_payload (take max_event_gap_ranges ranges)
                 (fa_truncated acc \<or> max_event_gap_ranges < length ranges) (fa_lost acc) enabled (ae_seq e)))
        [] ''system'' [] None)"

text \<open>One subscriber: its queue afterwards, the events newly lost, and the exception that leaves
  \<open>_publish\<close>, if any.  \<open>fresh\<close> is the pair of identifiers and the clock of a marker.\<close>

definition offer ::
  "(pyval \<Rightarrow> string) \<Rightarrow> bool \<Rightarrow> string \<times> string \<times> seconds \<Rightarrow> agent_event \<Rightarrow> event_queue
     \<Rightarrow> event_queue \<times> int \<times> event_error option" where
  "offer rep enabled fresh e q =
     (if \<not> queue_full q then (q\<lparr>eq_items := eq_items q @ [e]\<rparr>, 0, None)
      else
        (let (dropped, rest) = drop_over (nat (eq_max q - 2)) (eq_items q) in
         case fold_res (account_item rep) dropped no_loss of
           Inl err \<Rightarrow> (q\<lparr>eq_items := rest\<rparr>, 0, Some err)
         | Inr seen \<Rightarrow>
             (let acc = one_slot (eq_max q) e seen in
              case marker_event enabled fresh e acc of
                Inl err \<Rightarrow> (q\<lparr>eq_items := rest\<rparr>, 0, Some err)
              | Inr marker \<Rightarrow>
                  (q\<lparr>eq_items := rest @ marker # (if 1 < eq_max q then [e] else [])\<rparr>, fa_new acc, None))))"

fun publish_event ::
  "(pyval \<Rightarrow> string) \<Rightarrow> bool \<Rightarrow> (nat \<Rightarrow> string \<times> string \<times> seconds) \<Rightarrow> agent_event \<Rightarrow> event_queue list
     \<Rightarrow> event_queue list \<times> int \<times> event_error option" where
  "publish_event rep enabled fresh e [] = ([], 0, None)"
| "publish_event rep enabled fresh e (q # qs) =
     (case offer rep enabled (fresh 0) e q of
        (q', n, Some err) \<Rightarrow> (q' # qs, n, Some err)
      | (q', n, None) \<Rightarrow>
          (let (qs', m, err) = publish_event rep enabled (fresh \<circ> Suc) e qs in (q' # qs', n + m, err)))"

definition subscribe_events :: "int \<Rightarrow> event_queue list \<Rightarrow> event_queue list" where
  "subscribe_events maxsize qs = qs @ [\<lparr>eq_max = maxsize, eq_items = []\<rparr>]"

definition unsubscribe_events :: "nat \<Rightarrow> event_queue list \<Rightarrow> event_queue list" where
  "unsubscribe_events i qs = take i qs @ drop (Suc i) qs"

text \<open>\<open>q.get\<close>.\<close>

definition take_event :: "event_queue \<Rightarrow> (agent_event \<times> event_queue) option" where
  "take_event q = (case eq_items q of [] \<Rightarrow> None | x # xs \<Rightarrow> Some (x, q\<lparr>eq_items := xs\<rparr>))"

end
