(* ===== verification/Event_Store.thy ===== *)
theory Event_Store
  imports Event_Fanout
begin

text \<open>
  The durable event store (\<open>AgentStateStore\<close> of \<open>agent_events.py\<close>): its three tables, the append in a
  caller's transaction, the append that owns its transaction and publishes, the retention sweep,
  snapshots, export and import.  The invariant says that no sequence number above a stream's cursor is
  in use, so that an insert never violates a key of the table; it is what makes sequence numbers
  unique for the life of the store, retention included.

  \<open>dumps\<close> is the compact JSON text of a payload and \<open>loads\<close> its reader (both belong to the JSON
  library in use).  \<open>locked k\<close> says that the \<open>k\<close>-th attempt of an operation finds the database busy;
  a failed attempt is rolled back, so it leaves no trace.
\<close>

section \<open>Tables\<close>

record event_row =
  er_stream :: string
  er_seq :: int
  er_id :: string
  er_kind :: string
  er_payload :: string
  er_key :: string
  er_correlation :: string
  er_actor :: string
  er_created :: real

record cursor_row =
  cr_stream :: string
  cr_last :: int
  cr_first :: int

record snapshot_row =
  sn_id :: int
  sn_stream :: string
  sn_seq :: int
  sn_state :: string
  sn_created :: real

record event_db =
  db_events :: "event_row list"
  db_cursors :: "cursor_row list"
  db_snapshots :: "snapshot_row list"
  db_last_snapshot :: int

definition sql_min :: "int list \<Rightarrow> int option" where
  "sql_min xs = (if xs = [] then None else Some (foldr min (tl xs) (hd xs)))"

definition stream_seqs :: "event_db \<Rightarrow> string \<Rightarrow> int list" where
  "stream_seqs db s = map er_seq (filter (\<lambda>r. er_stream r = s) (db_events db))"

definition cursor_of :: "event_db \<Rightarrow> string \<Rightarrow> cursor_row option" where
  "cursor_of db s = find (\<lambda>c. cr_stream c = s) (db_cursors db)"

text \<open>\<open>AgentEvent.from_row\<close>.\<close>

definition event_from_row :: "(string \<Rightarrow> pyval option) \<Rightarrow> event_row \<Rightarrow> event_error + agent_event" where
  "event_from_row loads r =
     (case loads (er_payload r) of
        None \<Rightarrow> Inl (Ev_Value ''payload'')
      | Some p \<Rightarrow> make_event (PStr (er_id r)) (PStr (er_stream r)) (PStr (er_kind r)) p (PStr (er_key r))
                   (PStr (er_correlation r)) (PStr (er_actor r)) (PFloat (Fin (er_created r))) (PInt (er_seq r)))"

text \<open>\<open>CREATE TABLE ... IF NOT EXISTS\<close> adds no rows; the set-up gives every stream a cursor.\<close>

definition setup_cursors :: "event_db \<Rightarrow> event_db" where
  "setup_cursors db =
     db\<lparr>db_cursors := db_cursors db @
          map (\<lambda>s. \<lparr>cr_stream = s, cr_last = the (sql_max (stream_seqs db s)), cr_first = the (sql_min (stream_seqs db s))\<rparr>)
            (filter (\<lambda>s. cursor_of db s = None) (remdups (map er_stream (db_events db))))\<rparr>"

text \<open>\<open>INSERT INTO agent_events\<close>: primary key and unique constraint.\<close>

definition insert_event :: "event_row \<Rightarrow> event_row list \<Rightarrow> event_error + event_row list" where
  "insert_event r rows =
     (if \<exists>x \<in> set rows. er_stream x = er_stream r \<and> (er_seq x = er_seq r \<or> er_key x = er_key r) then Inl Ev_Integrity
      else Inr (rows @ [r]))"

definition upsert_cursor :: "string \<Rightarrow> int \<Rightarrow> int \<Rightarrow> cursor_row list \<Rightarrow> cursor_row list" where
  "upsert_cursor s last_seq first_retained rows =
     (if \<exists>c \<in> set rows. cr_stream c = s then
        update_where (\<lambda>c. cr_stream c = s) (\<lambda>c. c\<lparr>cr_last := max (cr_last c) last_seq, cr_first := min (cr_first c) first_retained\<rparr>) rows
      else rows @ [\<lparr>cr_stream = s, cr_last = last_seq, cr_first = first_retained\<rparr>])"

section \<open>Python equality of payloads\<close>

definition num_value :: "pyval \<Rightarrow> real option" where
  "num_value v =
     (case v of PBool b \<Rightarrow> Some (if b then 1 else 0) | PInt i \<Rightarrow> Some (of_int i) | PFloat (Fin r) \<Rightarrow> Some r | _ \<Rightarrow> None)"

definition scalar_equal :: "pyval \<Rightarrow> pyval \<Rightarrow> bool" where
  "scalar_equal v w =
     (case (v, w) of
        (PNone, PNone) \<Rightarrow> True
      | (PStr s, PStr t) \<Rightarrow> s = t
      | (PFloat PInf, PFloat PInf) \<Rightarrow> True
      | (PFloat NInf, PFloat NInf) \<Rightarrow> True
      | _ \<Rightarrow> (case (num_value v, num_value w) of (Some x, Some y) \<Rightarrow> x = y | _ \<Rightarrow> False))"

fun py_equal :: "pyval \<Rightarrow> pyval \<Rightarrow> bool" where
  "py_equal (PList vs) w = (case w of PList ws \<Rightarrow> list_all2 py_equal vs ws | _ \<Rightarrow> False)"
| "py_equal (PDict d) w =
     (case w of
        PDict e \<Rightarrow> length d = length e \<and>
          list_all (\<lambda>kv. case map_of e (fst kv) of None \<Rightarrow> False | Some x \<Rightarrow> py_equal (snd kv) x) d
      | _ \<Rightarrow> False)"
| "py_equal v w = scalar_equal v w"

section \<open>Appending in a transaction\<close>

record event_store =
  es_enabled :: bool
  es_max_payload :: int
  es_ready :: bool
  es_exists :: bool
  es_db :: event_db
  es_queues :: "event_queue list"
  es_dropped :: int

definition row_of :: "agent_event \<Rightarrow> string \<Rightarrow> int \<Rightarrow> event_row" where
  "row_of e text_payload n =
     \<lparr>er_stream = ae_stream e, er_seq = n, er_id = ae_id e, er_kind = ae_kind e, er_payload = text_payload,
      er_key = ae_key e, er_correlation = ae_correlation e, er_actor = ae_actor e, er_created = ae_created e\<rparr>"

definition ok_outcome :: "int \<Rightarrow> bool \<Rightarrow> agent_event \<Rightarrow> append_outcome" where
  "ok_outcome n dup e = \<lparr>ao_seq = n, ao_duplicate = dup, ao_event = Some e, ao_retryable = False, ao_error = None\<rparr>"

definition failed_outcome :: "bool \<Rightarrow> event_error \<Rightarrow> append_outcome" where
  "failed_outcome retry err = \<lparr>ao_seq = 0, ao_duplicate = False, ao_event = None, ao_retryable = retry, ao_error = Some err\<rparr>"

definition seq_or :: "int option \<Rightarrow> int \<Rightarrow> int" where
  "seq_or n d = (case n of None \<Rightarrow> d | Some i \<Rightarrow> if i = 0 then d else i)"

definition differs :: "agent_event \<Rightarrow> agent_event \<Rightarrow> bool" where
  "differs stored e \<longleftrightarrow>
     ae_kind stored \<noteq> ae_kind e \<or> \<not> py_equal (PDict (ae_payload stored)) (PDict (ae_payload e)) \<or>
     ae_actor stored \<noteq> ae_actor e \<or> ae_correlation stored \<noteq> ae_correlation e"

definition append_duplicate :: "event_db \<Rightarrow> agent_event \<Rightarrow> agent_event \<Rightarrow> event_db \<times> append_outcome" where
  "append_duplicate db e stored =
     (let seqs = stream_seqs db (ae_stream e);
          cursor = cursor_of db (ae_stream e);
          retained = (case sql_min seqs of Some n \<Rightarrow> n | None \<Rightarrow> seq_or (ae_seq stored) 1);
          stream_high = (case sql_max seqs of Some n \<Rightarrow> n | None \<Rightarrow> 0);
          high = max (max (case cursor of Some c \<Rightarrow> cr_last c | None \<Rightarrow> 0) stream_high) (seq_or (ae_seq stored) 0);
          first_retained = (case cursor of Some c \<Rightarrow> min (cr_first c) retained | None \<Rightarrow> retained)
      in (db\<lparr>db_cursors := upsert_cursor (ae_stream e) high first_retained (db_cursors db)\<rparr>,
          ok_outcome (seq_or (ae_seq stored) 0) True stored))"

definition append_new :: "string \<Rightarrow> event_db \<Rightarrow> agent_event \<Rightarrow> event_error + event_db \<times> append_outcome" where
  "append_new text_payload db e =
     (let s = ae_stream e;
          (last_seq, first_retained, cursors) =
            (case cursor_of db s of
               Some c \<Rightarrow> (cr_last c, cr_first c, db_cursors db)
             | None \<Rightarrow>
                 (let l = (case sql_max (stream_seqs db s) of Some n \<Rightarrow> n | None \<Rightarrow> 0);
                      f = (case sql_min (stream_seqs db s) of Some n \<Rightarrow> n | None \<Rightarrow> 1)
                  in (l, f, db_cursors db @ [\<lparr>cr_stream = s, cr_last = l, cr_first = f\<rparr>])));
          new_seq = last_seq + 1;
          first' = (if last_seq < first_retained then new_seq else first_retained)
      in bindr (with_seq e new_seq) (\<lambda>persisted.
         bindr (insert_event (row_of e text_payload new_seq) (db_events db)) (\<lambda>rows.
           Inr (db\<lparr>db_events := rows,
                   db_cursors := update_where (\<lambda>c. cr_stream c = s) (\<lambda>c. c\<lparr>cr_last := new_seq, cr_first := first'\<rparr>) cursors\<rparr>,
                ok_outcome new_seq False persisted))))"

definition append_in_transaction ::
  "(payload \<Rightarrow> string) \<Rightarrow> (string \<Rightarrow> pyval option) \<Rightarrow> event_store \<Rightarrow> bool \<Rightarrow> agent_event \<Rightarrow> bool
     \<Rightarrow> event_error + event_db \<times> append_outcome" where
  "append_in_transaction dumps loads st in_transaction e strict =
     (let db = es_db st; text_payload = dumps (ae_payload e) in
      bindr (require (es_enabled st) (Ev_Runtime ''agent_state is disabled'')) (\<lambda>_.
      bindr (require in_transaction (Ev_Runtime ''append_in_transaction requires a caller-owned transaction'')) (\<lambda>_.
      bindr (require (es_ready st) (Ev_Value ''schema must be initialized'')) (\<lambda>_.
      bindr (require (int (utf8_len text_payload) \<le> es_max_payload st) (Ev_Value ''payload exceeds maximum'')) (\<lambda>_.
        (case find (\<lambda>r. er_stream r = ae_stream e \<and> er_key r = ae_key e) (db_events db) of
           Some r \<Rightarrow>
             bindr (event_from_row loads r) (\<lambda>stored.
             bindr (require (\<not> (strict \<and> differs stored e)) (Ev_Value ''idempotency key was already used'')) (\<lambda>_.
               Inr (append_duplicate db e stored)))
         | None \<Rightarrow> append_new text_payload db e))))))"

section \<open>Appending and publishing\<close>

text \<open>\<open>retry_busy\<close> of \<open>sqlite_support.py\<close>: \<open>left\<close> more attempts after the \<open>k\<close>-th.\<close>

fun retry_from :: "(nat \<Rightarrow> event_error + 'a) \<Rightarrow> nat \<Rightarrow> nat \<Rightarrow> event_error + 'a" where
  "retry_from operation k 0 = operation k"
| "retry_from operation k (Suc left) =
     (case operation k of
        Inl err \<Rightarrow> if err = Ev_Busy then retry_from operation (Suc k) left else Inl err
      | Inr x \<Rightarrow> Inr x)"

definition retry_busy :: "int \<Rightarrow> (nat \<Rightarrow> event_error + 'a) \<Rightarrow> event_error + 'a" where
  "retry_busy retries operation = retry_from operation 0 (nat (max 1 retries) - 1)"

definition ensure_schema :: "event_store \<Rightarrow> event_store" where
  "ensure_schema st =
     (if es_ready st \<or> \<not> es_enabled st then st
      else st\<lparr>es_ready := True, es_exists := True, es_db := setup_cursors (es_db st)\<rparr>)"

definition do_append ::
  "(payload \<Rightarrow> string) \<Rightarrow> (string \<Rightarrow> pyval option) \<Rightarrow> (nat \<Rightarrow> bool) \<Rightarrow> event_store \<Rightarrow> agent_event \<Rightarrow> bool
     \<Rightarrow> nat \<Rightarrow> event_error + event_db \<times> append_outcome" where
  "do_append dumps loads locked st e strict k =
     (if locked k then Inl Ev_Busy
      else (case append_in_transaction dumps loads st True e strict of
              Inl err \<Rightarrow> if err = Ev_Busy then Inl err else Inr (es_db st, failed_outcome False err)
            | Inr r \<Rightarrow> Inr r))"

definition append_event ::
  "(payload \<Rightarrow> string) \<Rightarrow> (string \<Rightarrow> pyval option) \<Rightarrow> (pyval \<Rightarrow> string) \<Rightarrow> (nat \<Rightarrow> string \<times> string \<times> seconds)
     \<Rightarrow> (nat \<Rightarrow> bool) \<Rightarrow> event_store \<Rightarrow> agent_event \<Rightarrow> bool \<Rightarrow> event_store \<times> (event_error + append_outcome)" where
  "append_event dumps loads rep fresh locked st e strict =
     (if \<not> es_enabled st then (st, Inr (failed_outcome False (Ev_Runtime ''agent_state is disabled'')))
      else if es_max_payload st < int (utf8_len (dumps (ae_payload e))) then (st, Inl (Ev_Value ''payload exceeds maximum''))
      else
        (let st1 = ensure_schema st in
         case retry_busy 5 (do_append dumps loads locked st1 e strict) of
           Inl err \<Rightarrow> (st1, if err = Ev_Busy then Inr (failed_outcome True err) else Inl err)
         | Inr (db, r) \<Rightarrow>
             (let st2 = st1\<lparr>es_db := db\<rparr> in
              case (ao_duplicate r, ao_event r) of
                (False, Some stored) \<Rightarrow>
                  (case publish_event rep True fresh stored (es_queues st2) of
                     (qs, n, err) \<Rightarrow>
                       (st2\<lparr>es_queues := qs, es_dropped := es_dropped st2 + n\<rparr>,
                        (case err of None \<Rightarrow> Inr r | Some x \<Rightarrow> Inl x)))
              | _ \<Rightarrow> (st2, Inr r))))"

text \<open>The publisher that \<open>ordered_event_publication\<close> yields: it publishes events only when every one of
  them is a committed row, in the order of each stream.\<close>

fun committed_in_order :: "(string \<Rightarrow> pyval option) \<Rightarrow> event_row list \<Rightarrow> (string \<times> int) list \<Rightarrow> agent_event list \<Rightarrow> event_error + unit" where
  "committed_in_order loads rows prior [] = Inr ()"
| "committed_in_order loads rows prior (e # es) =
     (case ae_seq e of
        None \<Rightarrow> Inl (Ev_Runtime ''event is not committed'')
      | Some n \<Rightarrow>
          if (case map_of prior (ae_stream e) of None \<Rightarrow> False | Some p \<Rightarrow> n \<le> p) then
            Inl (Ev_Value ''committed events must be supplied in stream sequence order'')
          else
            (case find (\<lambda>r. er_stream r = ae_stream e \<and> er_seq r = n \<and> er_id r = ae_id e) rows of
               None \<Rightarrow> Inl (Ev_Runtime ''event is not committed'')
             | Some r \<Rightarrow>
                 bindr (event_from_row loads r) (\<lambda>stored.
                   if stored = e then committed_in_order loads rows ((ae_stream e, n) # prior) es
                   else Inl (Ev_Runtime ''event is not committed''))))"

fun publish_list ::
  "(pyval \<Rightarrow> string) \<Rightarrow> bool \<Rightarrow> (nat \<Rightarrow> nat \<Rightarrow> string \<times> string \<times> seconds) \<Rightarrow> agent_event list \<Rightarrow> event_queue list
     \<Rightarrow> event_queue list \<times> int \<times> event_error option" where
  "publish_list rep enabled fresh [] qs = (qs, 0, None)"
| "publish_list rep enabled fresh (e # es) qs =
     (case publish_event rep enabled (fresh 0) e qs of
        (qs', n, Some err) \<Rightarrow> (qs', n, Some err)
      | (qs', n, None) \<Rightarrow>
          (let (qs'', m, err) = publish_list rep enabled (fresh \<circ> Suc) es qs' in (qs'', n + m, err)))"

definition publish_committed ::
  "(string \<Rightarrow> pyval option) \<Rightarrow> (pyval \<Rightarrow> string) \<Rightarrow> (nat \<Rightarrow> nat \<Rightarrow> string \<times> string \<times> seconds) \<Rightarrow> bool \<Rightarrow> bool
     \<Rightarrow> event_store \<Rightarrow> agent_event list \<Rightarrow> event_store \<times> (event_error + unit)" where
  "publish_committed loads rep fresh scope_active in_transaction st events =
     (if \<not> scope_active then (st, Inl (Ev_Runtime ''ordered event publication scope is closed''))
      else if in_transaction then (st, Inl (Ev_Runtime ''caller transaction is still open''))
      else (case committed_in_order loads (db_events (es_db st)) [] events of
              Inl err \<Rightarrow> (st, Inl err)
            | Inr _ \<Rightarrow>
                (case publish_list rep (es_enabled st) fresh events (es_queues st) of
                   (qs, n, err) \<Rightarrow>
                     (st\<lparr>es_queues := qs, es_dropped := es_dropped st + n\<rparr>,
                      (case err of None \<Rightarrow> Inr () | Some x \<Rightarrow> Inl x)))))"

section \<open>Retention\<close>

text \<open>One stream of \<open>cleanup\<close>: everything before the first recent event goes.\<close>

definition clean_stream :: "real \<Rightarrow> string \<Rightarrow> event_db \<times> int \<Rightarrow> event_db \<times> int" where
  "clean_stream cutoff s acc =
     (case acc of (db, deleted) \<Rightarrow>
        let last_seq = (case cursor_of db s of Some c \<Rightarrow> cr_last c | None \<Rightarrow> 0);
            recent = sql_min (map er_seq (filter (\<lambda>r. er_stream r = s \<and> cutoff \<le> er_created r) (db_events db)));
            rows = (case recent of
                      Some f \<Rightarrow> delete_where (\<lambda>r. er_stream r = s \<and> er_seq r < f) (db_events db)
                    | None \<Rightarrow> delete_where (\<lambda>r. er_stream r = s) (db_events db));
            db1 = db\<lparr>db_events := rows\<rparr>;
            first_retained = (case sql_min (stream_seqs db1 s) of Some n \<Rightarrow> n | None \<Rightarrow> last_seq + 1)
        in (db1\<lparr>db_cursors := update_where (\<lambda>c. cr_stream c = s) (\<lambda>c. c\<lparr>cr_first := first_retained\<rparr>) (db_cursors db1)\<rparr>,
            deleted + (int (length (db_events db)) - int (length rows))))"

definition clean_database :: "real \<Rightarrow> event_db \<Rightarrow> event_db \<times> int \<times> int" where
  "clean_database cutoff db =
     (case foldl (\<lambda>acc s. clean_stream cutoff s acc) (db, 0) (sort (map cr_stream (db_cursors db))) of
        (db', deleted) \<Rightarrow>
          let kept = delete_where (\<lambda>r. sn_created r < cutoff) (db_snapshots db') in
          (db'\<lparr>db_snapshots := kept\<rparr>, deleted, int (length (db_snapshots db')) - int (length kept)))"

definition cleanup_events :: "(nat \<Rightarrow> bool) \<Rightarrow> seconds \<Rightarrow> int \<Rightarrow> event_store \<Rightarrow> event_store \<times> (event_error + int \<times> int)" where
  "cleanup_events locked now retention_days st =
     (if \<not> es_enabled st \<or> \<not> es_exists st then (st, Inr (0, 0))
      else
        (let st1 = ensure_schema st;
             cutoff = now - of_int (max 1 retention_days * 86400)
         in case retry_busy 5 (\<lambda>k. if locked k then Inl Ev_Busy else Inr (clean_database cutoff (es_db st1))) of
              Inl err \<Rightarrow> (st1, Inl err)
            | Inr (db, n, m) \<Rightarrow> (st1\<lparr>es_db := db\<rparr>, Inr (n, m))))"

section \<open>Snapshots\<close>

definition add_snapshot :: "seconds \<Rightarrow> string \<Rightarrow> string \<Rightarrow> int option \<Rightarrow> event_db \<Rightarrow> event_db \<times> int" where
  "add_snapshot now s state seq db =
     (let target = (case seq of Some n \<Rightarrow> n | None \<Rightarrow> (case sql_max (stream_seqs db s) of Some n \<Rightarrow> n | None \<Rightarrow> 0));
          new_id = db_last_snapshot db + 1
      in (db\<lparr>db_snapshots := db_snapshots db @
               [\<lparr>sn_id = new_id, sn_stream = s, sn_seq = target, sn_state = state, sn_created = now\<rparr>],
             db_last_snapshot := new_id\<rparr>, new_id))"

definition take_snapshot ::
  "(pyval \<Rightarrow> string) \<Rightarrow> (nat \<Rightarrow> bool) \<Rightarrow> seconds \<Rightarrow> string \<Rightarrow> pyval \<Rightarrow> int option \<Rightarrow> event_store
     \<Rightarrow> event_store \<times> (event_error + int)" where
  "take_snapshot dumps_state locked now s state seq st =
     (if \<not> es_enabled st then (st, Inr 0)
      else
        (let st1 = ensure_schema st in
         case retry_busy 5 (\<lambda>k. if locked k then Inl Ev_Busy else Inr (add_snapshot now s (dumps_state state) seq (es_db st1))) of
           Inl err \<Rightarrow> (st1, Inl err)
         | Inr (db, n) \<Rightarrow> (st1\<lparr>es_db := db\<rparr>, Inr n)))"

text \<open>\<open>ORDER BY seq DESC, snapshot_id DESC LIMIT 1\<close>.\<close>

definition newer_snapshot :: "snapshot_row \<Rightarrow> snapshot_row \<Rightarrow> bool" where
  "newer_snapshot a b \<longleftrightarrow> sn_seq b < sn_seq a \<or> (sn_seq a = sn_seq b \<and> sn_id b < sn_id a)"

fun best_snapshot :: "snapshot_row option \<Rightarrow> snapshot_row list \<Rightarrow> snapshot_row option" where
  "best_snapshot best [] = best"
| "best_snapshot best (r # rs) =
     best_snapshot (case best of None \<Rightarrow> Some r | Some b \<Rightarrow> if newer_snapshot r b then Some r else Some b) rs"

definition latest_snapshot ::
  "(string \<Rightarrow> pyval option) \<Rightarrow> string \<Rightarrow> event_store \<Rightarrow> event_store \<times> (int \<times> int \<times> pyval \<times> seconds) option" where
  "latest_snapshot loads s st =
     (if \<not> es_enabled st \<or> \<not> es_exists st then (st, None)
      else
        (let st1 = ensure_schema st in
         (st1, map_option (\<lambda>r. (sn_id r, sn_seq r,
                   (case loads (sn_state r) of None \<Rightarrow> PDict [] | Some v \<Rightarrow> v), sn_created r))
                 (best_snapshot None (filter (\<lambda>r. sn_stream r = s) (db_snapshots (es_db st1)))))))"

section \<open>Lookup, export and import\<close>

definition has_exact_event ::
  "(payload \<Rightarrow> string) \<Rightarrow> pyval \<Rightarrow> pyval \<Rightarrow> pyval \<Rightarrow> pyval \<Rightarrow> event_store \<Rightarrow> event_error + bool" where
  "has_exact_event dumps stream_id kind payload actor st =
     bindr (identity_field ''stream_id'' stream_id) (\<lambda>s.
     bindr (identity_field ''kind'' kind) (\<lambda>k.
     bindr (identity_field ''actor'' actor) (\<lambda>a.
     bindr (payload_field payload) (\<lambda>p.
     bindr (require (int (utf8_len (dumps p)) \<le> es_max_payload st) (Ev_Value ''event lookup payload exceeds configured limit'')) (\<lambda>_.
     bindr (require (es_enabled st) (Ev_Runtime ''agent_state is disabled'')) (\<lambda>_.
       Inr (es_exists st \<and>
         (\<exists>r \<in> set (db_events (es_db st)).
            er_kind r = k \<and> er_stream r = s \<and> er_actor r = a \<and> er_payload r = dumps p))))))))"

fun map_res :: "('a \<Rightarrow> 'e + 'b) \<Rightarrow> 'a list \<Rightarrow> 'e + 'b list" where
  "map_res f [] = Inr []"
| "map_res f (x # xs) = bindr (f x) (\<lambda>y. bindr (map_res f xs) (\<lambda>ys. Inr (y # ys)))"

definition export_delta ::
  "(string \<Rightarrow> pyval option) \<Rightarrow> string \<Rightarrow> int \<Rightarrow> int \<Rightarrow> event_store \<Rightarrow> event_store \<times> (event_error + payload list)" where
  "export_delta loads stream_id after_seq limit st =
     (if \<not> es_enabled st \<or> \<not> es_exists st then (st, Inr [])
      else
        (let st1 = ensure_schema st;
             rows = filter (\<lambda>r. (stream_id = [] \<or> er_stream r = stream_id) \<and> after_seq < er_seq r) (db_events (es_db st1));
             page = take (nat (max 1 limit)) (sort_key er_seq rows)
         in (st1, bindr (map_res (event_from_row loads) page) (\<lambda>events. Inr (map event_dict events)))))"

text \<open>One event of \<open>import_delta\<close>; whatever it raises is swallowed.\<close>

definition import_one ::
  "(payload \<Rightarrow> string) \<Rightarrow> (string \<Rightarrow> pyval option) \<Rightarrow> (pyval \<Rightarrow> string) \<Rightarrow> (nat \<Rightarrow> string \<times> string \<times> seconds)
     \<Rightarrow> (nat \<Rightarrow> bool) \<Rightarrow> pyval \<Rightarrow> event_store \<times> int \<times> int \<Rightarrow> event_store \<times> int \<times> int" where
  "import_one dumps loads rep fresh locked data acc =
     (case acc of (st, imported, duplicates) \<Rightarrow>
        (case event_from_dict data of
           Inl _ \<Rightarrow> acc
         | Inr e \<Rightarrow>
             (case append_event dumps loads rep fresh locked st e False of
                (st', Inl _) \<Rightarrow> (st', imported, duplicates)
              | (st', Inr r) \<Rightarrow>
                  if ao_duplicate r then (st', imported, duplicates + 1)
                  else if 0 < ao_seq r then (st', imported + 1, duplicates)
                  else (st', imported, duplicates))))"

fun import_events ::
  "(payload \<Rightarrow> string) \<Rightarrow> (string \<Rightarrow> pyval option) \<Rightarrow> (pyval \<Rightarrow> string) \<Rightarrow> (nat \<Rightarrow> nat \<Rightarrow> string \<times> string \<times> seconds)
     \<Rightarrow> (nat \<Rightarrow> nat \<Rightarrow> bool) \<Rightarrow> pyval list \<Rightarrow> event_store \<times> int \<times> int \<Rightarrow> event_store \<times> int \<times> int" where
  "import_events dumps loads rep fresh locked [] acc = acc"
| "import_events dumps loads rep fresh locked (d # ds) acc =
     import_events dumps loads rep (fresh \<circ> Suc) (locked \<circ> Suc) ds (import_one dumps loads rep (fresh 0) (locked 0) d acc)"

definition import_delta ::
  "(payload \<Rightarrow> string) \<Rightarrow> (string \<Rightarrow> pyval option) \<Rightarrow> (pyval \<Rightarrow> string) \<Rightarrow> (nat \<Rightarrow> nat \<Rightarrow> string \<times> string \<times> seconds)
     \<Rightarrow> (nat \<Rightarrow> nat \<Rightarrow> bool) \<Rightarrow> pyval list \<Rightarrow> event_store \<Rightarrow> event_store \<times> (int \<times> int) option" where
  "import_delta dumps loads rep fresh locked events st =
     (if \<not> es_enabled st then (st, None)
      else (case import_events dumps loads rep fresh locked events (st, 0, 0) of
              (st', imported, duplicates) \<Rightarrow> (st', Some (imported, duplicates))))"

end
