(* ===== verification/Event_Invariant.thy ===== *)
theory Event_Invariant
  imports Event_Store
begin

text \<open>
  The invariant of the event store's tables and what every operation does to them: an append either
  changes no event or adds one row at the next sequence number of its stream, retention only removes
  rows, and no cursor ever moves back.
\<close>

section \<open>The invariant\<close>

definition event_inv :: "event_db \<Rightarrow> bool" where
  "event_inv db \<longleftrightarrow>
     distinct (map (\<lambda>r. (er_stream r, er_seq r)) (db_events db)) \<and>
     distinct (map (\<lambda>r. (er_stream r, er_key r)) (db_events db)) \<and>
     distinct (map cr_stream (db_cursors db)) \<and>
     (\<forall>r \<in> set (db_events db). 1 \<le> er_seq r) \<and>
     (\<forall>r \<in> set (db_events db). \<forall>c \<in> set (db_cursors db). cr_stream c = er_stream r \<longrightarrow> er_seq r \<le> cr_last c \<and> cr_first c \<le> er_seq r) \<and>
     (\<forall>c \<in> set (db_cursors db). 0 \<le> cr_last c \<and> 1 \<le> cr_first c \<and> cr_first c \<le> cr_last c + 1)"

lemma sql_bounds_Nil [simp]: "sql_max [] = None" "sql_min [] = None"
  by (simp_all add: sql_max_def sql_min_def)

text \<open>The highest sequence number a stream ever had.\<close>

definition stream_last :: "event_db \<Rightarrow> string \<Rightarrow> int" where
  "stream_last db s =
     (case cursor_of db s of
        Some c \<Rightarrow> cr_last c
      | None \<Rightarrow> (case sql_max (stream_seqs db s) of Some n \<Rightarrow> n | None \<Rightarrow> 0))"

definition empty_events :: event_db where
  "empty_events = \<lparr>db_events = [], db_cursors = [], db_snapshots = [], db_last_snapshot = 0\<rparr>"

lemma empty_events_ok [simp]: "event_inv empty_events" "stream_last empty_events s = 0"
  by (simp_all add: event_inv_def empty_events_def stream_last_def cursor_of_def stream_seqs_def)

section \<open>Least and greatest\<close>

lemma foldr_max_in: "foldr max ys (x::int) \<in> set (x # ys)"
  by (induction ys) (auto simp: max_def)

lemma foldr_min_in: "foldr min ys (x::int) \<in> set (x # ys)"
  by (induction ys) (auto simp: min_def)

lemma foldr_min_le: "(\<forall>y \<in> set ys. foldr min ys x \<le> y) \<and> foldr min ys x \<le> (x::int)"
  by (induction ys) auto

lemma sql_max_in: "sql_max xs = Some m \<Longrightarrow> m \<in> set xs"
  using foldr_max_in [of "tl xs" "hd xs"] by (cases xs) (auto simp: sql_max_def)

lemma sql_min_in: "sql_min xs = Some m \<Longrightarrow> m \<in> set xs"
  using foldr_min_in [of "tl xs" "hd xs"] by (cases xs) (auto simp: sql_min_def)

lemma sql_min_le: "sql_min xs = Some m \<Longrightarrow> x \<in> set xs \<Longrightarrow> m \<le> x"
  using foldr_min_le by (cases xs) (auto simp: sql_min_def)

lemma sql_min_None [simp]: "sql_min xs = None \<longleftrightarrow> xs = []"
  by (simp add: sql_min_def)

lemma set_stream_seqs: "n \<in> set (stream_seqs db s) \<longleftrightarrow> (\<exists>r \<in> set (db_events db). er_stream r = s \<and> er_seq r = n)"
  by (auto simp: stream_seqs_def)

lemma cursor_of_SomeD: "cursor_of db s = Some c \<Longrightarrow> c \<in> set (db_cursors db) \<and> cr_stream c = s"
  by (auto simp: cursor_of_def dest: find_SomeD)

lemma cursor_of_None: "cursor_of db s = None \<longleftrightarrow> (\<forall>c \<in> set (db_cursors db). cr_stream c \<noteq> s)"
  by (auto simp: cursor_of_def find_None_iff)

lemma cursor_of_in: "event_inv db \<Longrightarrow> c \<in> set (db_cursors db) \<Longrightarrow> cursor_of db (cr_stream c) = Some c"
  unfolding cursor_of_def by (rule find_distinct_key) (auto simp: event_inv_def)

lemma stream_last_ge:
  assumes "event_inv db" "r \<in> set (db_events db)"
  shows "er_seq r \<le> stream_last db (er_stream r)"
proof (cases "cursor_of db (er_stream r)")
  case (Some c)
  then show ?thesis using assms cursor_of_SomeD [OF Some] by (auto simp: stream_last_def event_inv_def)
next
  case None
  have "er_seq r \<in> set (stream_seqs db (er_stream r))" using assms(2) by (auto simp: set_stream_seqs)
  then show ?thesis using None sql_max_ge by (cases "sql_max (stream_seqs db (er_stream r))") (auto simp: stream_last_def)
qed

lemma stream_last_nonneg:
  assumes "event_inv db" shows "0 \<le> stream_last db s"
proof (cases "cursor_of db s")
  case (Some c)
  then show ?thesis using assms cursor_of_SomeD [OF Some] by (auto simp: stream_last_def event_inv_def)
next
  case None
  show ?thesis
  proof (cases "sql_max (stream_seqs db s)")
    case (Some m)
    then have "m \<in> set (stream_seqs db s)" by (rule sql_max_in)
    then have "1 \<le> m" using assms by (auto simp: set_stream_seqs event_inv_def)
    then show ?thesis using None Some by (simp add: stream_last_def)
  qed (use None in \<open>simp add: stream_last_def\<close>)
qed

section \<open>The cursor table\<close>

lemma find_snoc_other: "\<not> P x \<Longrightarrow> find P (xs @ [x]) = find P xs"
  by (induction xs) auto

lemma find_update_key:
  assumes "\<And>c. key (f c) = key c"
  shows "find (\<lambda>c. key c = k) (update_where (\<lambda>c. key c = s) f rows) =
    map_option (\<lambda>c. if k = s then f c else c) (find (\<lambda>c. key c = k) rows)"
  by (induction rows) (auto simp: update_where_def assms)

lemma cursor_of_events [simp]: "cursor_of (db\<lparr>db_events := rows\<rparr>) s = cursor_of db s"
  by (simp add: cursor_of_def)

lemma stream_seqs_cursors [simp]: "stream_seqs (db\<lparr>db_cursors := cs\<rparr>) s = stream_seqs db s"
  by (simp add: stream_seqs_def)

text \<open>Setting a stream's cursor to bounds that fit its rows keeps the invariant.\<close>

lemma set_cursor_inv:
  assumes inv: "event_inv db"
    and cs: "distinct (map cr_stream cs)" "\<forall>c \<in> set cs. cr_stream c \<noteq> s \<longrightarrow> c \<in> set (db_cursors db)"
    and fit: "\<forall>c \<in> set cs. cr_stream c = s \<longrightarrow> 0 \<le> cr_last c \<and> 1 \<le> cr_first c \<and> cr_first c \<le> cr_last c + 1 \<and>
      (\<forall>n \<in> set (stream_seqs db s). n \<le> cr_last c \<and> cr_first c \<le> n)"
  shows "event_inv (db\<lparr>db_cursors := cs\<rparr>)"
  unfolding event_inv_def
proof (intro conjI ballI impI)
  fix r c assume r: "r \<in> set (db_events (db\<lparr>db_cursors := cs\<rparr>))" and c: "c \<in> set (db_cursors (db\<lparr>db_cursors := cs\<rparr>))"
    and eq: "cr_stream c = er_stream r"
  have "er_seq r \<le> cr_last c \<and> cr_first c \<le> er_seq r"
  proof (cases "cr_stream c = s")
    case True
    then have "er_seq r \<in> set (stream_seqs db s)" using r eq by (auto simp: set_stream_seqs)
    then show ?thesis using fit c True by auto
  next
    case False
    then show ?thesis using inv cs(2) c r eq by (auto simp: event_inv_def)
  qed
  then show "er_seq r \<le> cr_last c" "cr_first c \<le> er_seq r" by auto
next
  fix c assume c: "c \<in> set (db_cursors (db\<lparr>db_cursors := cs\<rparr>))"
  have "0 \<le> cr_last c \<and> 1 \<le> cr_first c \<and> cr_first c \<le> cr_last c + 1"
    using inv cs(2) fit c by (cases "cr_stream c = s") (auto simp: event_inv_def)
  then show "0 \<le> cr_last c" "1 \<le> cr_first c" "cr_first c \<le> cr_last c + 1" by auto
qed (use inv cs in \<open>auto simp: event_inv_def\<close>)

section \<open>An append that finds its key\<close>

lemma upsert_known:
  assumes "c \<in> set cs" "cr_stream c = s"
  shows "upsert_cursor s l f cs =
    update_where (\<lambda>c. cr_stream c = s) (\<lambda>c. c\<lparr>cr_last := max (cr_last c) l, cr_first := min (cr_first c) f\<rparr>) cs"
  using assms by (auto simp: upsert_cursor_def)

lemma distinct_update_where: "(\<And>c. key (f c) = key c) \<Longrightarrow> distinct (map key cs) \<Longrightarrow> distinct (map key (update_where P f cs))"
  by (simp add: map_update_where)

lemma event_from_row_seq:
  "event_from_row loads r = Inr e \<Longrightarrow>
     ae_seq e = Some (er_seq r) \<and> ae_stream e = er_stream r \<and> ae_key e = er_key r \<and> ae_kind e = er_kind r \<and> ae_id e = er_id r"
  by (auto simp: event_from_row_def make_event_def seq_field_def split: option.splits if_splits)

lemma append_duplicate_ok:
  assumes inv: "event_inv db" and r: "r \<in> set (db_events db)" "er_stream r = ae_stream e"
    and stored: "event_from_row loads r = Inr stored"
  shows "event_inv (fst (append_duplicate db e stored))" "db_events (fst (append_duplicate db e stored)) = db_events db"
    "stream_last (fst (append_duplicate db e stored)) s = stream_last db s"
    "snd (append_duplicate db e stored) = ok_outcome (er_seq r) True stored"
proof -
  define st where "st = ae_stream e"
  have pos: "1 \<le> er_seq r" using inv r(1) by (auto simp: event_inv_def)
  have seq: "ae_seq stored = Some (er_seq r)" using event_from_row_seq [OF stored] by simp
  have sor: "seq_or (ae_seq stored) d = er_seq r" for d using seq pos by (simp add: seq_or_def)
  have ne: "er_seq r \<in> set (stream_seqs db st)" using r by (auto simp: set_stream_seqs st_def)
  obtain hi where hi: "sql_max (stream_seqs db st) = Some hi" using ne by (cases "sql_max (stream_seqs db st)") auto
  obtain lo where lo: "sql_min (stream_seqs db st) = Some lo" using ne by (cases "sql_min (stream_seqs db st)") auto
  have b: "er_seq r \<le> hi" "lo \<le> er_seq r" "\<forall>n \<in> set (stream_seqs db st). n \<le> hi \<and> lo \<le> n"
    using sql_max_ge [OF hi] sql_min_le [OF lo] ne by auto
  have seqs1: "\<forall>n \<in> set (stream_seqs db st). 1 \<le> n" using inv by (auto simp: set_stream_seqs event_inv_def)
  have lo1: "1 \<le> lo" using seqs1 sql_min_in [OF lo] by auto
  show outcome: "snd (append_duplicate db e stored) = ok_outcome (er_seq r) True stored"
    unfolding append_duplicate_def sor by (simp add: Let_def)
  show ev: "db_events (fst (append_duplicate db e stored)) = db_events db" by (simp add: append_duplicate_def Let_def)
  show "event_inv (fst (append_duplicate db e stored))" "stream_last (fst (append_duplicate db e stored)) s = stream_last db s"
  proof -
    have "event_inv (fst (append_duplicate db e stored)) \<and> stream_last (fst (append_duplicate db e stored)) s = stream_last db s"
    proof (cases "cursor_of db st")
      case (Some c)
      have c: "c \<in> set (db_cursors db)" "cr_stream c = st" using cursor_of_SomeD [OF Some] by auto
      have cb: "er_seq r \<le> cr_last c" "hi \<le> cr_last c" "cr_first c \<le> lo" "0 \<le> cr_last c" "1 \<le> cr_first c" "cr_first c \<le> cr_last c + 1"
        using inv c r sql_max_in [OF hi] sql_min_in [OF lo] by (auto simp: event_inv_def set_stream_seqs st_def)
      have same: "update_where (\<lambda>c. cr_stream c = st)
          (\<lambda>d. d\<lparr>cr_last := max (cr_last d) (cr_last c), cr_first := min (cr_first d) (cr_first c)\<rparr>) (db_cursors db) = db_cursors db"
      proof -
        have "d\<lparr>cr_last := max (cr_last d) (cr_last c), cr_first := min (cr_first d) (cr_first c)\<rparr> = d"
          if "d \<in> set (db_cursors db)" "cr_stream d = st" for d
          using cursor_of_in [OF inv that(1)] that(2) Some by simp
        then show ?thesis unfolding update_where_def by (intro map_idI) auto
      qed
      have "max (max (cr_last c) hi) (er_seq r) = cr_last c" "min (cr_first c) lo = cr_first c" using cb by auto
      then have "fst (append_duplicate db e stored) = db"
        unfolding append_duplicate_def sor st_def [symmetric] using Some hi lo same upsert_known [OF c]
        by (simp add: Let_def)
      then show ?thesis using inv by simp
    next
      case None
      then have fresh: "\<not> (\<exists>c \<in> set (db_cursors db). cr_stream c = st)" by (auto simp: cursor_of_None)
      define cs where "cs = db_cursors db @ [\<lparr>cr_stream = st, cr_last = hi, cr_first = lo\<rparr>]"
      have db': "fst (append_duplicate db e stored) = db\<lparr>db_cursors := cs\<rparr>"
        unfolding append_duplicate_def sor st_def [symmetric] using None hi lo b pos fresh
        by (simp add: Let_def upsert_cursor_def cs_def max_def)
      have "event_inv (db\<lparr>db_cursors := cs\<rparr>)"
        by (rule set_cursor_inv [OF inv, of cs st]) (use inv fresh b lo1 in \<open>auto simp: cs_def event_inv_def\<close>)
      moreover have "stream_last (db\<lparr>db_cursors := cs\<rparr>) s = stream_last db s"
      proof (cases "s = st")
        case True
        then have "cursor_of (db\<lparr>db_cursors := cs\<rparr>) s = Some \<lparr>cr_stream = st, cr_last = hi, cr_first = lo\<rparr>"
          using None unfolding cursor_of_def cs_def by (simp add: find_append_None)
        then show ?thesis using None hi True by (simp add: stream_last_def)
      next
        case False
        then have "cursor_of (db\<lparr>db_cursors := cs\<rparr>) s = cursor_of db s"
          unfolding cursor_of_def cs_def by (simp add: find_snoc_other)
        then show ?thesis by (simp add: stream_last_def cong: option.case_cong)
      qed
      ultimately show ?thesis unfolding db' by simp
    qed
    then show "event_inv (fst (append_duplicate db e stored))" "stream_last (fst (append_duplicate db e stored)) s = stream_last db s" by auto
  qed
qed

section \<open>An append of a new event\<close>

definition ensure_cursor :: "string \<Rightarrow> event_db \<Rightarrow> event_db" where
  "ensure_cursor s db =
     (if cursor_of db s = None then
        db\<lparr>db_cursors := db_cursors db @
          [\<lparr>cr_stream = s, cr_last = (case sql_max (stream_seqs db s) of Some n \<Rightarrow> n | None \<Rightarrow> 0),
            cr_first = (case sql_min (stream_seqs db s) of Some n \<Rightarrow> n | None \<Rightarrow> 1)\<rparr>]\<rparr>
      else db)"

lemma ensure_cursor_ok:
  assumes inv: "event_inv db"
  shows "event_inv (ensure_cursor s db)" "stream_last (ensure_cursor s db) t = stream_last db t"
    "db_events (ensure_cursor s db) = db_events db" "\<exists>c. cursor_of (ensure_cursor s db) s = Some c"
proof -
  have "event_inv (ensure_cursor s db) \<and> stream_last (ensure_cursor s db) t = stream_last db t \<and>
    db_events (ensure_cursor s db) = db_events db \<and> (\<exists>c. cursor_of (ensure_cursor s db) s = Some c)"
  proof (cases "cursor_of db s")
    case None
    define l where "l = (case sql_max (stream_seqs db s) of Some n \<Rightarrow> n | None \<Rightarrow> 0)"
    define f where "f = (case sql_min (stream_seqs db s) of Some n \<Rightarrow> n | None \<Rightarrow> 1)"
    define cs where "cs = db_cursors db @ [\<lparr>cr_stream = s, cr_last = l, cr_first = f\<rparr>]"
    have e: "ensure_cursor s db = db\<lparr>db_cursors := cs\<rparr>" using None by (simp add: ensure_cursor_def cs_def l_def f_def)
    have fresh: "\<forall>c \<in> set (db_cursors db). cr_stream c \<noteq> s" using None by (simp add: cursor_of_None)
    have pos: "1 \<le> n" if "n \<in> set (stream_seqs db s)" for n using inv that by (auto simp: set_stream_seqs event_inv_def)
    have fit: "0 \<le> l \<and> 1 \<le> f \<and> f \<le> l + 1 \<and> (\<forall>n \<in> set (stream_seqs db s). n \<le> l \<and> f \<le> n)"
    proof (cases "stream_seqs db s = []")
      case False
      then obtain hi lo where hi: "sql_max (stream_seqs db s) = Some hi" and lo: "sql_min (stream_seqs db s) = Some lo"
        by (cases "sql_max (stream_seqs db s)"; cases "sql_min (stream_seqs db s)") auto
      have "lo \<in> set (stream_seqs db s)" by (rule sql_min_in [OF lo])
      then show ?thesis using hi lo sql_max_ge [OF hi] sql_min_le [OF lo] pos [of lo] by (fastforce simp: l_def f_def)
    qed (simp add: l_def f_def)
    have "event_inv (db\<lparr>db_cursors := cs\<rparr>)"
      by (rule set_cursor_inv [OF inv, of cs s]) (use inv fresh fit in \<open>auto simp: cs_def event_inv_def\<close>)
    moreover have "stream_last (db\<lparr>db_cursors := cs\<rparr>) t = stream_last db t"
    proof (cases "t = s")
      case True
      then show ?thesis using None by (simp add: stream_last_def cursor_of_def cs_def find_append_None l_def)
    next
      case False
      then show ?thesis by (simp add: stream_last_def cursor_of_def cs_def find_snoc_other cong: option.case_cong)
    qed
    moreover have "cursor_of (db\<lparr>db_cursors := cs\<rparr>) s = Some \<lparr>cr_stream = s, cr_last = l, cr_first = f\<rparr>"
      using None by (simp add: cursor_of_def cs_def find_append_None)
    ultimately show ?thesis unfolding e by simp
  qed (use inv in \<open>simp add: ensure_cursor_def\<close>)
  then show "event_inv (ensure_cursor s db)" "stream_last (ensure_cursor s db) t = stream_last db t"
    "db_events (ensure_cursor s db) = db_events db" "\<exists>c. cursor_of (ensure_cursor s db) s = Some c" by auto
qed

lemma append_new_cursor:
  assumes "cursor_of (ensure_cursor (ae_stream e) db) (ae_stream e) = Some c"
  shows "append_new body db e =
    (let s = ae_stream e; n = cr_last c + 1 in
     bindr (with_seq e n) (\<lambda>persisted.
     bindr (insert_event (row_of e body n) (db_events db)) (\<lambda>rows.
       Inr (db\<lparr>db_events := rows,
               db_cursors := update_where (\<lambda>c. cr_stream c = s)
                 (\<lambda>d. d\<lparr>cr_last := n, cr_first := (if cr_last c < cr_first c then n else cr_first c)\<rparr>)
                 (db_cursors (ensure_cursor s db))\<rparr>,
            ok_outcome n False persisted))))"
proof (cases "cursor_of db (ae_stream e)")
  case None
  have "c = \<lparr>cr_stream = ae_stream e,
      cr_last = (case sql_max (stream_seqs db (ae_stream e)) of Some n \<Rightarrow> n | None \<Rightarrow> 0),
      cr_first = (case sql_min (stream_seqs db (ae_stream e)) of Some n \<Rightarrow> n | None \<Rightarrow> 1)\<rparr>"
    using assms None by (simp add: ensure_cursor_def cursor_of_def find_append_None)
  then show ?thesis using None by (simp add: append_new_def ensure_cursor_def Let_def)
next
  case (Some c')
  then show ?thesis using assms by (simp add: append_new_def ensure_cursor_def Let_def)
qed

lemma append_new_ok:
  assumes inv: "event_inv db" and e: "valid_event e"
    and free: "\<forall>r \<in> set (db_events db). \<not> (er_stream r = ae_stream e \<and> er_key r = ae_key e)"
  defines "n \<equiv> stream_last db (ae_stream e) + 1"
  obtains db' where "append_new body db e = Inr (db', ok_outcome n False (e\<lparr>ae_seq := Some n\<rparr>))" "event_inv db'"
    "db_events db' = db_events db @ [row_of e body n]"
    "\<And>t. stream_last db' t = (if t = ae_stream e then n else stream_last db t)"
proof -
  define s where "s = ae_stream e"
  define db1 where "db1 = ensure_cursor s db"
  note one_cursor = ensure_cursor_ok [OF inv, of s, folded db1_def]
  obtain c where c: "cursor_of db1 s = Some c" using one_cursor(4) by blast
  have c_in: "c \<in> set (db_cursors db1)" "cr_stream c = s" using cursor_of_SomeD [OF c] by auto
  have last_eq: "cr_last c = stream_last db s" using one_cursor(2) [of s] c by (simp add: stream_last_def)
  have n: "n = cr_last c + 1" by (simp add: n_def last_eq s_def)
  have bounds: "0 \<le> cr_last c" "1 \<le> cr_first c" "cr_first c \<le> cr_last c + 1" using one_cursor(1) c_in by (auto simp: event_inv_def)
  have below: "er_seq r < n \<and> cr_first c \<le> er_seq r" if "r \<in> set (db_events db)" "er_stream r = s" for r
    using one_cursor(1,3) c_in that by (auto simp: event_inv_def n)
  have n1: "1 \<le> n" using bounds by (simp add: n)
  define f where "f = (if cr_last c < cr_first c then n else cr_first c)"
  define cs where "cs = update_where (\<lambda>c. cr_stream c = s) (\<lambda>d. d\<lparr>cr_last := n, cr_first := f\<rparr>) (db_cursors db1)"
  define db' where "db' = db\<lparr>db_events := db_events db @ [row_of e body n], db_cursors := cs\<rparr>"
  have ins: "insert_event (row_of e body n) (db_events db) = Inr (db_events db @ [row_of e body n])"
    using free below by (auto simp: insert_event_def row_of_def s_def)
  have res: "append_new body db e = Inr (db', ok_outcome n False (e\<lparr>ae_seq := Some n\<rparr>))"
    using append_new_cursor [of e db c body] c ins with_seq_valid [OF e, of n] n1
    by (simp add: db1_def s_def n Let_def db'_def cs_def f_def)
  have c_eq: "d = c" if "d \<in> set (db_cursors db1)" "cr_stream d = s" for d
    using cursor_of_in [OF one_cursor(1) that(1)] that(2) c by simp
  have ev: "db_events db' = db_events db @ [row_of e body n]" by (simp add: db'_def)
  have lasts: "stream_last db' t = (if t = ae_stream e then n else stream_last db t)" for t
  proof (cases "t = s")
    case True
    have "cursor_of db' s = Some (c\<lparr>cr_last := n, cr_first := f\<rparr>)"
      using c find_update_key [of cr_stream "\<lambda>d. d\<lparr>cr_last := n, cr_first := f\<rparr>" s s "db_cursors db1"]
      by (simp add: cursor_of_def db'_def cs_def)
    then show ?thesis using True by (simp add: stream_last_def s_def)
  next
    case False
    have "cursor_of db' t = cursor_of db1 t"
      using False find_update_key [of cr_stream "\<lambda>d. d\<lparr>cr_last := n, cr_first := f\<rparr>" t s "db_cursors db1"]
      by (simp add: cursor_of_def db'_def cs_def option.map_ident)
    moreover have "stream_seqs db' t = stream_seqs db1 t"
      using False one_cursor(3) by (simp add: stream_seqs_def ev row_of_def s_def)
    ultimately show ?thesis using False one_cursor(2) [of t] by (simp add: stream_last_def s_def cong: option.case_cong)
  qed
  have "event_inv db'"
  proof -
    have new: "er_stream (row_of e body n) = s" "er_seq (row_of e body n) = n" "er_key (row_of e body n) = ae_key e"
      by (simp_all add: row_of_def s_def)
    have d1: "distinct (map (\<lambda>r. (er_stream r, er_seq r)) (db_events db'))"
      using inv below by (auto simp: event_inv_def ev new)
    have d2: "distinct (map (\<lambda>r. (er_stream r, er_key r)) (db_events db'))"
      using inv free by (auto simp: event_inv_def ev new s_def)
    have d3: "distinct (map cr_stream (db_cursors db'))"
      using one_cursor(1) by (auto simp: event_inv_def db'_def cs_def intro!: distinct_update_where)
    have p: "\<forall>r \<in> set (db_events db'). 1 \<le> er_seq r" using inv n1 by (auto simp: event_inv_def ev new)
    have cur: "(\<exists>c0 \<in> set (db_cursors db1). cr_stream c0 \<noteq> s \<and> c' = c0) \<or> c' = c\<lparr>cr_last := n, cr_first := f\<rparr>"
      if "c' \<in> set (db_cursors db')" for c'
      using that c_eq by (auto simp: db'_def cs_def elim!: in_update_whereE split: if_splits)
    have f: "1 \<le> f" "f \<le> n" using bounds by (auto simp: f_def n)
    have rows: "er_seq r \<le> cr_last c' \<and> cr_first c' \<le> er_seq r"
      if "r \<in> set (db_events db')" "c' \<in> set (db_cursors db')" "cr_stream c' = er_stream r" for r c'
      using cur [OF that(2)]
    proof
      assume "\<exists>c0 \<in> set (db_cursors db1). cr_stream c0 \<noteq> s \<and> c' = c0"
      then show ?thesis using that one_cursor(1,3) new(1) by (auto simp: event_inv_def ev)
    next
      assume c': "c' = c\<lparr>cr_last := n, cr_first := f\<rparr>"
      then have "er_stream r = s" using that(3) c_in(2) by simp
      then show ?thesis using that(1) c' below [of r] f new by (auto simp: ev f_def n split: if_splits)
    qed
    have cb: "0 \<le> cr_last c' \<and> 1 \<le> cr_first c' \<and> cr_first c' \<le> cr_last c' + 1" if "c' \<in> set (db_cursors db')" for c'
      using cur [OF that] one_cursor(1) f n1 by (auto simp: event_inv_def)
    show ?thesis unfolding event_inv_def using d1 d2 d3 p rows cb by blast
  qed
  then show thesis using that res ev lasts by blast
qed

section \<open>What every operation does to the tables\<close>

definition positions :: "event_db \<Rightarrow> (string \<times> int) set" where
  "positions db = (\<lambda>r. (er_stream r, er_seq r)) ` set (db_events db)"

definition new_rows :: "event_db \<Rightarrow> event_db \<Rightarrow> event_row list" where
  "new_rows db db' = filter (\<lambda>r. (er_stream r, er_seq r) \<notin> positions db) (db_events db')"

text \<open>From \<open>db\<close> to \<open>db'\<close>: the invariant holds, \<open>news\<close> holds the new rows, and they have the next
  sequence numbers of their streams, in order.\<close>

definition advances :: "event_db \<Rightarrow> event_db \<Rightarrow> event_row list \<Rightarrow> bool" where
  "advances db db' news \<longleftrightarrow>
     event_inv db' \<and> new_rows db db' = news \<and>
     (\<forall>s. stream_last db s \<le> stream_last db' s \<and>
        map er_seq (filter (\<lambda>r. er_stream r = s) news) = [stream_last db s + 1..stream_last db' s])"

lemma advances_same:
  assumes "event_inv db'" "set (db_events db') \<subseteq> set (db_events db)" "\<And>s. stream_last db' s = stream_last db s"
  shows "advances db db' []"
  using assms by (auto simp: advances_def new_rows_def positions_def filter_empty_conv)

lemma new_rows_append:
  assumes "event_inv db'" "db_events db' = db_events db @ news"
  shows "new_rows db db' = news"
proof -
  have "filter (\<lambda>r. (er_stream r, er_seq r) \<notin> positions db) (db_events db) = []"
    by (auto simp: filter_empty_conv positions_def)
  moreover have "filter (\<lambda>r. (er_stream r, er_seq r) \<notin> positions db) news = news"
    using assms by (auto simp: filter_id_conv positions_def event_inv_def)
  ultimately show ?thesis by (simp add: new_rows_def assms(2))
qed

lemma ensure_cursor_fold:
  assumes "distinct ss" "\<forall>s \<in> set ss. cursor_of db s = None \<and> stream_seqs db s \<noteq> []"
  shows "db\<lparr>db_cursors := db_cursors db @
      map (\<lambda>s. \<lparr>cr_stream = s, cr_last = the (sql_max (stream_seqs db s)), cr_first = the (sql_min (stream_seqs db s))\<rparr>) ss\<rparr> =
    foldl (\<lambda>d s. ensure_cursor s d) db ss"
  using assms
proof (induction ss arbitrary: db)
  case (Cons s ss)
  define mk where "mk = (\<lambda>s. \<lparr>cr_stream = s, cr_last = the (sql_max (stream_seqs db s)), cr_first = the (sql_min (stream_seqs db s))\<rparr>)"
  have ne: "stream_seqs db s \<noteq> []" "cursor_of db s = None" using Cons.prems(2) by auto
  obtain hi lo where "sql_max (stream_seqs db s) = Some hi" "sql_min (stream_seqs db s) = Some lo"
    using ne(1) by (cases "sql_max (stream_seqs db s)"; cases "sql_min (stream_seqs db s)") auto
  then have step: "ensure_cursor s db = db\<lparr>db_cursors := db_cursors db @ [mk s]\<rparr>"
    using ne(2) by (simp add: ensure_cursor_def mk_def)
  have rest: "\<forall>t \<in> set ss. cursor_of (ensure_cursor s db) t = None \<and> stream_seqs (ensure_cursor s db) t \<noteq> []"
    using Cons.prems by (auto simp: step cursor_of_None mk_def)
  have "foldl (\<lambda>d s. ensure_cursor s d) (ensure_cursor s db) ss =
      (ensure_cursor s db)\<lparr>db_cursors := db_cursors (ensure_cursor s db) @ map mk ss\<rparr>"
    using Cons.IH [OF _ rest] Cons.prems(1) by (simp add: mk_def step)
  then show ?case by (simp add: step mk_def)
qed simp

lemma setup_cursors_ok:
  assumes inv: "event_inv db"
  shows "event_inv (setup_cursors db)" "stream_last (setup_cursors db) t = stream_last db t"
    "db_events (setup_cursors db) = db_events db"
proof -
  define ss where "ss = filter (\<lambda>s. cursor_of db s = None) (remdups (map er_stream (db_events db)))"
  have eq: "setup_cursors db = foldl (\<lambda>d s. ensure_cursor s d) db ss"
    unfolding setup_cursors_def ss_def
    by (rule ensure_cursor_fold) (auto simp: stream_seqs_def filter_empty_conv)
  have "event_inv (foldl (\<lambda>d s. ensure_cursor s d) d ss) \<and>
      stream_last (foldl (\<lambda>d s. ensure_cursor s d) d ss) t = stream_last d t \<and>
      db_events (foldl (\<lambda>d s. ensure_cursor s d) d ss) = db_events d" if "event_inv d" for d
    using that by (induction ss arbitrary: d) (auto simp: ensure_cursor_ok)
  then show "event_inv (setup_cursors db)" "stream_last (setup_cursors db) t = stream_last db t"
    "db_events (setup_cursors db) = db_events db"
    using inv unfolding eq by blast+
qed

lemma append_in_transaction_cases:
  assumes inv: "event_inv (es_db st)" and e: "valid_event e"
    and ok: "append_in_transaction dumps loads st tx e strict = Inr (db', r)"
  obtains
    (duplicate) row stored where "row \<in> set (db_events (es_db st))" "er_stream row = ae_stream e" "er_key row = ae_key e"
      "event_from_row loads row = Inr stored" "r = ok_outcome (er_seq row) True stored" "event_inv db'"
      "db_events db' = db_events (es_db st)" "\<And>s. stream_last db' s = stream_last (es_db st) s" "\<not> (strict \<and> differs stored e)"
  | (new) n where "n = stream_last (es_db st) (ae_stream e) + 1"
      "\<forall>row \<in> set (db_events (es_db st)). \<not> (er_stream row = ae_stream e \<and> er_key row = ae_key e)"
      "r = ok_outcome n False (e\<lparr>ae_seq := Some n\<rparr>)" "event_inv db'"
      "db_events db' = db_events (es_db st) @ [row_of e (dumps (ae_payload e)) n]"
      "\<And>s. stream_last db' s = (if s = ae_stream e then n else stream_last (es_db st) s)"
proof (cases "find (\<lambda>r. er_stream r = ae_stream e \<and> er_key r = ae_key e) (db_events (es_db st))")
  case (Some row)
  note row = find_SomeD [OF Some]
  obtain stored where s: "event_from_row loads row = Inr stored" "\<not> (strict \<and> differs stored e)"
    "append_duplicate (es_db st) e stored = (db', r)"
    using ok Some by (auto simp: append_in_transaction_def Let_def)
  note dup = append_duplicate_ok [OF inv, of row e loads stored]
  show thesis
    by (rule duplicate [of row stored]) (use row s dup in auto)
next
  case None
  have none: "\<forall>row \<in> set (db_events (es_db st)). \<not> (er_stream row = ae_stream e \<and> er_key row = ae_key e)"
    using None by (auto simp: find_None_iff)
  have "append_new (dumps (ae_payload e)) (es_db st) e = Inr (db', r)"
    using ok None by (auto simp: append_in_transaction_def Let_def)
  then show thesis
    using append_new_ok [OF inv e none, of "dumps (ae_payload e)"] new none by (metis Inr_inject Pair_inject)
qed

lemma append_in_transaction_advances:
  assumes "event_inv (es_db st)" "valid_event e" "append_in_transaction dumps loads st tx e strict = Inr (db', r)"
  shows "advances (es_db st) db' (new_rows (es_db st) db')"
proof (cases rule: append_in_transaction_cases [OF assms, case_names duplicate new])
  case (duplicate row stored)
  then have "advances (es_db st) db' []" by (intro advances_same) auto
  then show ?thesis by (simp add: advances_def)
next
  case (new n)
  have "new_rows (es_db st) db' = [row_of e (dumps (ae_payload e)) n]" by (rule new_rows_append [OF new(4,5)])
  then show ?thesis using new by (auto simp: advances_def row_of_def)
qed

section \<open>A sample store\<close>

text \<open>A stream of three events whose second one is gone, read with a trivial JSON reader.\<close>

definition sample_row :: "int \<Rightarrow> real \<Rightarrow> event_row" where
  "sample_row n t =
     \<lparr>er_stream = ''task'', er_seq = n, er_id = ''evt'', er_kind = ''step'', er_payload = ''{}'',
      er_key = (if n = 1 then ''k1'' else ''k3''), er_correlation = [], er_actor = ''agent'', er_created = t\<rparr>"

definition sample_db :: event_db where
  "sample_db =
     \<lparr>db_events = [sample_row 1 0, sample_row 3 10], db_cursors = [\<lparr>cr_stream = ''task'', cr_last = 3, cr_first = 1\<rparr>],
      db_snapshots = [], db_last_snapshot = 0\<rparr>"

definition sample_store :: event_store where
  "sample_store =
     \<lparr>es_enabled = True, es_max_payload = 100, es_ready = True, es_exists = True, es_db = sample_db, es_queues = [], es_dropped = 0\<rparr>"

definition sample_event :: agent_event where
  "sample_event =
     \<lparr>ae_id = ''evt'', ae_stream = ''task'', ae_kind = ''step'', ae_payload = [], ae_key = ''k9'', ae_correlation = [],
      ae_actor = ''agent'', ae_created = 5, ae_seq = None\<rparr>"

definition sample_loads :: "string \<Rightarrow> pyval option" where "sample_loads t = Some (PDict [])"
definition sample_dumps :: "payload \<Rightarrow> string" where "sample_dumps p = ''{}''"

lemma sample_ok: "event_inv sample_db" "es_db sample_store = sample_db" "es_exists sample_store" "es_enabled sample_store"
  "es_ready sample_store" "ensure_schema sample_store = sample_store" "es_max_payload sample_store = 100"
  by (simp_all add: event_inv_def sample_db_def sample_row_def sample_store_def ensure_schema_def)

lemma sample_event_ok: "valid_event sample_event"
  by (simp add: valid_event_def sample_event_def identity_ok_def strip_prefix is_space_def)

end
