(* ===== verification/Event_Sequences.thy ===== *)
theory Event_Sequences
  imports Event_Invariant
begin

text \<open>
  The event store as a machine.  Whatever the callers do, appends that lose the race for the database,
  transactions they roll back, imports, snapshots and retention sweeps included, the sequence numbers
  handed out in a stream are 1, 2, 3, ... without a hole and without reuse; and an event appended
  twice under its idempotency key is stored once.
\<close>

section \<open>Operations that only append\<close>

definition appends :: "event_db \<Rightarrow> event_db \<Rightarrow> event_row list \<Rightarrow> bool" where
  "appends db db' news \<longleftrightarrow>
     event_inv db' \<and> db_events db' = db_events db @ news \<and>
     (\<forall>s. stream_last db s \<le> stream_last db' s \<and>
        map er_seq (filter (\<lambda>r. er_stream r = s) news) = [stream_last db s + 1..stream_last db' s])"

lemma appends_advances: "appends db db' news \<Longrightarrow> advances db db' news"
  by (auto simp: appends_def advances_def new_rows_append)

lemma appends_none:
  "event_inv db' \<Longrightarrow> db_events db' = db_events db \<Longrightarrow> (\<And>s. stream_last db' s = stream_last db s) \<Longrightarrow> appends db db' []"
  by (simp add: appends_def)

lemma upto_join: "a \<le> b \<Longrightarrow> b \<le> c \<Longrightarrow> [a + 1..b] @ [b + 1..c] = [a + 1..c::int]"
  using upto_split2 [of "a + 1" b c] by (cases "a = b") auto

lemma appends_trans:
  assumes "appends a b m" "appends b c n"
  shows "appends a c (m @ n)"
  unfolding appends_def
proof (intro conjI allI)
  fix s
  have ab: "stream_last a s \<le> stream_last b s" "map er_seq (filter (\<lambda>r. er_stream r = s) m) = [stream_last a s + 1..stream_last b s]"
    using assms(1) by (auto simp: appends_def)
  have bc: "stream_last b s \<le> stream_last c s" "map er_seq (filter (\<lambda>r. er_stream r = s) n) = [stream_last b s + 1..stream_last c s]"
    using assms(2) by (auto simp: appends_def)
  show "stream_last a s \<le> stream_last c s" using ab bc by simp
  show "map er_seq (filter (\<lambda>r. er_stream r = s) (m @ n)) = [stream_last a s + 1..stream_last c s]"
    using ab bc upto_join [of "stream_last a s" "stream_last b s" "stream_last c s"] by simp
qed (use assms in \<open>auto simp: appends_def\<close>)

lemma tx_appends:
  assumes "event_inv (es_db st)" "valid_event e" "append_in_transaction dumps loads st tx e strict = Inr (db', r)"
  shows "\<exists>news. appends (es_db st) db' news"
proof (cases rule: append_in_transaction_cases [OF assms, case_names duplicate new])
  case (duplicate row stored)
  then have "appends (es_db st) db' []" by (intro appends_none) auto
  then show ?thesis ..
next
  case (new n)
  then have "appends (es_db st) db' [row_of e (dumps (ae_payload e)) n]" by (auto simp: appends_def row_of_def)
  then show ?thesis ..
qed

lemma ensure_schema_ok:
  assumes "event_inv (es_db st)"
  shows "event_inv (es_db (ensure_schema st))" "stream_last (es_db (ensure_schema st)) s = stream_last (es_db st) s"
    "db_events (es_db (ensure_schema st)) = db_events (es_db st)" "es_queues (ensure_schema st) = es_queues st"
    "es_enabled st \<Longrightarrow> es_ready (ensure_schema st)" "es_enabled (ensure_schema st) = es_enabled st"
    "es_max_payload (ensure_schema st) = es_max_payload st"
  using setup_cursors_ok [OF assms] assms by (auto simp: ensure_schema_def)

lemma ensure_schema_appends: "event_inv (es_db st) \<Longrightarrow> appends (es_db st) (es_db (ensure_schema st)) []"
  by (intro appends_none) (auto simp: ensure_schema_ok)

lemma retry_from_Inr: "retry_from operation k n = Inr x \<Longrightarrow> \<exists>i. operation i = Inr x"
proof (induction n arbitrary: k)
  case (Suc n)
  show ?case
  proof (cases "operation k")
    case (Inl err)
    then show ?thesis using Suc by (auto split: if_splits)
  next
    case (Inr y)
    then have "operation k = Inr x" using Suc.prems by simp
    then show ?thesis by blast
  qed
qed auto

lemma retry_from_first: "operation k = Inr x \<Longrightarrow> retry_from operation k n = Inr x"
  by (cases n) auto

lemma retry_from_later:
  "operation (k + i) = Inr x \<Longrightarrow> \<forall>j < i. operation (k + j) = Inl Ev_Busy \<Longrightarrow> i \<le> n \<Longrightarrow> retry_from operation k n = Inr x"
proof (induction i arbitrary: k n)
  case 0
  then show ?case by (simp add: retry_from_first)
next
  case (Suc i)
  then obtain m where n: "n = Suc m" by (cases n) auto
  have "operation k = Inl Ev_Busy" using Suc.prems(2) by (metis add.right_neutral zero_less_Suc)
  moreover have "retry_from operation (Suc k) m = Inr x"
  proof (rule Suc.IH)
    show "operation (Suc k + i) = Inr x" using Suc.prems(1) by simp
    show "\<forall>j < i. operation (Suc k + j) = Inl Ev_Busy" using Suc.prems(2) by (metis add_Suc_shift Suc_less_eq add_Suc_right)
  qed (use Suc.prems n in simp)
  ultimately show ?case by (simp add: n)
qed

text \<open>An attempt that finds the database busy is followed by another, up to five; the first free one
  decides.\<close>

lemma retry_busy_free:
  assumes "i < 5" "\<not> locked i" "\<And>k. \<not> locked k \<Longrightarrow> operation k = Inr x" "\<And>k. locked k \<Longrightarrow> operation k = Inl Ev_Busy"
  shows "retry_busy 5 operation = Inr x"
proof -
  define first where "first = (LEAST k. \<not> locked k)"
  have f: "\<not> locked first" unfolding first_def by (rule LeastI [of "\<lambda>k. \<not> locked k", OF assms(2)])
  have le: "first \<le> i" unfolding first_def by (rule Least_le) (rule assms(2))
  have before: "locked k" if "k < first" for k using that not_less_Least unfolding first_def by blast
  show ?thesis
    unfolding retry_busy_def using retry_from_later [of operation 0 first x] assms f le before by simp
qed

lemma retry_from_locked:
  "retry_from (\<lambda>k. if locked k then Inl Ev_Busy else Inr x) k n \<in> {Inl Ev_Busy, Inr x}"
  by (induction n arbitrary: k) auto

lemma retry_busy_locked:
  obtains "retry_busy n (\<lambda>k. if locked k then Inl Ev_Busy else Inr x) = Inl Ev_Busy"
  | "retry_busy n (\<lambda>k. if locked k then Inl Ev_Busy else Inr x) = Inr x"
  using retry_from_locked [of locked x 0] unfolding retry_busy_def by auto

lemma do_append_cases:
  assumes "do_append dumps loads locked st e strict k = Inr (db', r)"
  shows "(\<exists>err. db' = es_db st \<and> r = failed_outcome False err) \<or> append_in_transaction dumps loads st True e strict = Inr (db', r)"
  using assms by (auto simp: do_append_def split: if_splits sum.splits)

lemma append_event_appends:
  assumes inv: "event_inv (es_db st)" and e: "valid_event e"
  shows "\<exists>news. appends (es_db st) (es_db (fst (append_event dumps loads rep fresh locked st e strict))) news"
proof (cases "\<not> es_enabled st \<or> es_max_payload st < int (utf8_len (dumps (ae_payload e)))")
  case True
  have "appends (es_db st) (es_db st) []" by (intro appends_none inv) auto
  moreover have "es_db (fst (append_event dumps loads rep fresh locked st e strict)) = es_db st"
    using True by (auto simp: append_event_def)
  ultimately show ?thesis by auto
next
  case False
  define st1 where "st1 = ensure_schema st"
  have one: "appends (es_db st) (es_db st1) []" unfolding st1_def by (rule ensure_schema_appends [OF inv])
  show ?thesis
  proof (cases "retry_busy 5 (do_append dumps loads locked st1 e strict)")
    case (Inl err)
    then show ?thesis using False one by (auto simp: append_event_def st1_def [symmetric] Let_def)
  next
    case (Inr x)
    obtain db' r where x: "x = (db', r)" by (cases x)
    have db': "es_db (fst (append_event dumps loads rep fresh locked st e strict)) = db'"
      using False Inr x by (auto simp: append_event_def st1_def [symmetric] Let_def split: bool.splits option.splits prod.splits)
    obtain k where k: "do_append dumps loads locked st1 e strict k = Inr (db', r)"
      using retry_from_Inr Inr x unfolding retry_busy_def by metis
    have "\<exists>news. appends (es_db st1) db' news"
      using do_append_cases [OF k]
    proof
      assume "\<exists>err. db' = es_db st1 \<and> r = failed_outcome False err"
      then have "appends (es_db st1) db' []" using one by (intro appends_none) (auto simp: appends_def)
      then show ?thesis ..
    next
      assume "append_in_transaction dumps loads st1 True e strict = Inr (db', r)"
      then show ?thesis using tx_appends [OF _ e] ensure_schema_ok(1) [OF inv] by (auto simp: st1_def)
    qed
    then show ?thesis using appends_trans [OF one] unfolding db' by blast
  qed
qed

lemma import_one_appends:
  assumes "event_inv (es_db st)"
  shows "\<exists>news. appends (es_db st) (es_db (fst (import_one dumps loads rep fresh locked data (st, i, d)))) news"
proof (cases "event_from_dict data")
  case (Inl err)
  have "appends (es_db st) (es_db st) []" by (intro appends_none assms) auto
  then show ?thesis using Inl by (auto simp: import_one_def)
next
  case (Inr e)
  have "es_db (fst (import_one dumps loads rep fresh locked data (st, i, d))) =
      es_db (fst (append_event dumps loads rep fresh locked st e False))"
    using Inr by (auto simp: import_one_def split: prod.splits sum.splits)
  then show ?thesis using append_event_appends [OF assms event_from_dict_valid [OF Inr]] by metis
qed

lemma import_events_appends:
  assumes "event_inv (es_db st)"
  shows "\<exists>news. appends (es_db st) (es_db (fst (import_events dumps loads rep fresh locked ds (st, i, d)))) news"
  using assms
proof (induction ds arbitrary: st i d fresh locked)
  case Nil
  have "appends (es_db st) (es_db st) []" by (intro appends_none Nil) auto
  then show ?case by auto
next
  case (Cons x ds)
  obtain st1 i1 d1 where s: "import_one dumps loads rep (fresh 0) (locked 0) x (st, i, d) = (st1, i1, d1)"
    by (cases "import_one dumps loads rep (fresh 0) (locked 0) x (st, i, d)") auto
  obtain n1 where n1: "appends (es_db st) (es_db st1) n1"
    using import_one_appends [OF Cons.prems, of dumps loads rep "fresh 0" "locked 0" x i d] by (auto simp: s)
  have "event_inv (es_db st1)" using n1 by (simp add: appends_def)
  from Cons.IH [OF this, of "fresh \<circ> Suc" "locked \<circ> Suc" i1 d1] obtain n2 where
    "appends (es_db st1) (es_db (fst (import_events dumps loads rep (fresh \<circ> Suc) (locked \<circ> Suc) ds (st1, i1, d1)))) n2" by blast
  then show ?case using appends_trans [OF n1] by (auto simp: s)
qed

section \<open>Retention\<close>

lemma keep_rows_inv: "event_inv db \<Longrightarrow> event_inv (db\<lparr>db_events := delete_where P (db_events db)\<rparr>)"
  by (auto simp: event_inv_def distinct_map_delete_where)

text \<open>The rows of one stream that a sweep removes.\<close>

definition stale :: "real \<Rightarrow> event_db \<Rightarrow> string \<Rightarrow> event_row \<Rightarrow> bool" where
  "stale cutoff db s r \<longleftrightarrow> er_stream r = s \<and>
     (\<forall>x \<in> set (db_events db). er_stream x = s \<and> cutoff \<le> er_created x \<longrightarrow> er_seq r < er_seq x)"

lemma clean_stream_rows:
  "db_events (fst (clean_stream cutoff s (db, n))) = delete_where (stale cutoff db s) (db_events db)"
proof -
  define recent where "recent = filter (\<lambda>r. er_stream r = s \<and> cutoff \<le> er_created r) (db_events db)"
  have mem: "x \<in> set recent \<longleftrightarrow> x \<in> set (db_events db) \<and> er_stream x = s \<and> cutoff \<le> er_created x" for x
    by (auto simp: recent_def)
  show ?thesis
  proof (cases "sql_min (map er_seq recent)")
    case None
    then have "recent = []" by simp
    then have "stale cutoff db s = (\<lambda>r. er_stream r = s)" using mem by (auto simp: stale_def fun_eq_iff)
    then show ?thesis using None by (simp add: clean_stream_def Let_def recent_def [symmetric])
  next
    case (Some f)
    have "stale cutoff db s = (\<lambda>r. er_stream r = s \<and> er_seq r < f)"
      using sql_min_in [OF Some] sql_min_le [OF Some] mem by (fastforce simp: stale_def fun_eq_iff)
    then show ?thesis using Some by (simp add: clean_stream_def Let_def recent_def [symmetric])
  qed
qed

lemma clean_stream_ok:
  assumes inv: "event_inv db" and c: "cursor_of db s = Some c"
  shows "event_inv (fst (clean_stream cutoff s (db, n)))"
    "stream_last (fst (clean_stream cutoff s (db, n))) t = stream_last db t"
    "map cr_stream (db_cursors (fst (clean_stream cutoff s (db, n)))) = map cr_stream (db_cursors db)"
proof -
  define db1 where "db1 = db\<lparr>db_events := delete_where (stale cutoff db s) (db_events db)\<rparr>"
  define f where "f = (case sql_min (stream_seqs db1 s) of Some n \<Rightarrow> n | None \<Rightarrow> cr_last c + 1)"
  define cs where "cs = update_where (\<lambda>c. cr_stream c = s) (\<lambda>c. c\<lparr>cr_first := f\<rparr>) (db_cursors db)"
  have rows: "db_events (fst (clean_stream cutoff s (db, n))) = db_events db1" by (simp add: clean_stream_rows db1_def)
  have res: "fst (clean_stream cutoff s (db, n)) = db1\<lparr>db_cursors := cs\<rparr>"
  proof -
    have "stream_seqs (db\<lparr>db_events := delete_where (stale cutoff db s) (db_events db)\<rparr>) s = stream_seqs db1 s" by (simp add: db1_def)
    then show ?thesis using rows c unfolding clean_stream_def
      by (simp add: Let_def db1_def f_def cs_def cong: option.case_cong)
  qed
  have inv1: "event_inv db1" unfolding db1_def by (rule keep_rows_inv [OF inv])
  have cs1: "db_cursors db1 = db_cursors db" by (simp add: db1_def)
  have cm: "c \<in> set (db_cursors db1)" "cr_stream c = s" using cursor_of_SomeD [OF c] cs1 by auto
  have cb: "0 \<le> cr_last c" "\<forall>m \<in> set (stream_seqs db1 s). 1 \<le> m \<and> m \<le> cr_last c"
    using inv1 cm by (auto simp: event_inv_def set_stream_seqs)
  have f: "1 \<le> f \<and> f \<le> cr_last c + 1 \<and> (\<forall>m \<in> set (stream_seqs db1 s). f \<le> m)"
  proof (cases "sql_min (stream_seqs db1 s)")
    case None
    then show ?thesis using cb by (simp add: f_def)
  next
    case (Some m)
    then show ?thesis using cb sql_min_in [OF Some] sql_min_le [OF Some] by (fastforce simp: f_def)
  qed
  have only: "d = c" if "d \<in> set (db_cursors db1)" "cr_stream d = s" for d
    using cursor_of_in [OF inv1 that(1)] that(2) c by (simp add: db1_def cursor_of_def)
  have "event_inv (db1\<lparr>db_cursors := cs\<rparr>)"
  proof (rule set_cursor_inv [OF inv1, of cs s])
    show "distinct (map cr_stream cs)" using inv by (auto simp: cs_def event_inv_def intro: distinct_update_where)
    show "\<forall>d \<in> set cs. cr_stream d \<noteq> s \<longrightarrow> d \<in> set (db_cursors db1)"
      by (auto simp: cs_def cs1 elim!: in_update_whereE split: if_splits)
    have upd: "d = c\<lparr>cr_first := f\<rparr>" if d: "d \<in> set cs" "cr_stream d = s" for d
    proof -
      obtain d0 where d0: "d0 \<in> set (db_cursors db)" "d = (if cr_stream d0 = s then d0\<lparr>cr_first := f\<rparr> else d0)"
        using d(1) unfolding cs_def by (rule in_update_whereE)
      then have "cr_stream d0 = s" using d(2) by (simp split: if_splits)
      then show ?thesis using d0 only [of d0] by (simp add: cs1)
    qed
    show "\<forall>d \<in> set cs. cr_stream d = s \<longrightarrow> 0 \<le> cr_last d \<and> 1 \<le> cr_first d \<and> cr_first d \<le> cr_last d + 1 \<and>
        (\<forall>m \<in> set (stream_seqs db1 s). m \<le> cr_last d \<and> cr_first d \<le> m)"
      using f cb by (auto dest!: upd)
  qed
  then show "event_inv (fst (clean_stream cutoff s (db, n)))" by (simp add: res)
  have cur: "cursor_of (db1\<lparr>db_cursors := cs\<rparr>) t = map_option (\<lambda>d. if t = s then d\<lparr>cr_first := f\<rparr> else d) (cursor_of db t)"
    using find_update_key [of cr_stream "\<lambda>d. d\<lparr>cr_first := f\<rparr>" t s "db_cursors db"] by (simp add: cursor_of_def cs_def)
  have "stream_last (db1\<lparr>db_cursors := cs\<rparr>) t = stream_last db t"
  proof (cases "cursor_of db t")
    case (Some d)
    then show ?thesis using cur by (simp add: stream_last_def)
  next
    case None
    then have "t \<noteq> s" using c by auto
    then have "stream_seqs (db1\<lparr>db_cursors := cs\<rparr>) t = stream_seqs db t"
      by (auto simp: stream_seqs_def db1_def delete_where_def stale_def intro!: arg_cong [of _ _ "map er_seq"] filter_cong)
    then show ?thesis using None cur by (simp add: stream_last_def cong: option.case_cong)
  qed
  then show "stream_last (fst (clean_stream cutoff s (db, n))) t = stream_last db t" by (simp add: res)
  show "map cr_stream (db_cursors (fst (clean_stream cutoff s (db, n)))) = map cr_stream (db_cursors db)"
    by (simp add: res cs_def map_update_where)
qed

lemma snapshots_irrelevant [simp]:
  "event_inv (db\<lparr>db_snapshots := x\<rparr>) = event_inv db" "stream_last (db\<lparr>db_snapshots := x\<rparr>) s = stream_last db s"
  "event_inv (db\<lparr>db_last_snapshot := n\<rparr>) = event_inv db" "stream_last (db\<lparr>db_last_snapshot := n\<rparr>) s = stream_last db s"
  unfolding event_inv_def stream_last_def cursor_of_def stream_seqs_def by (simp_all cong: option.case_cong)

lemma delete_where_twice: "delete_where Q (delete_where P xs) = delete_where (\<lambda>x. P x \<or> Q x) xs"
  by (simp add: delete_where_def conj_commute)

lemma clean_streams_ok:
  assumes "event_inv db" "\<forall>s \<in> set ss. cursor_of db s \<noteq> None" "distinct ss"
  shows "event_inv (fst (foldl (\<lambda>acc s. clean_stream cutoff s acc) (db, n) ss)) \<and>
    (\<forall>t. stream_last (fst (foldl (\<lambda>acc s. clean_stream cutoff s acc) (db, n) ss)) t = stream_last db t) \<and>
    db_events (fst (foldl (\<lambda>acc s. clean_stream cutoff s acc) (db, n) ss)) =
      delete_where (\<lambda>r. er_stream r \<in> set ss \<and> stale cutoff db (er_stream r) r) (db_events db)"
  using assms
proof (induction ss arbitrary: db n)
  case Nil
  then show ?case by (simp add: delete_where_def)
next
  case (Cons s ss)
  obtain c where c: "cursor_of db s = Some c" using Cons.prems(2) by auto
  obtain db1 n1 where r: "clean_stream cutoff s (db, n) = (db1, n1)" by (cases "clean_stream cutoff s (db, n)")
  note ok = clean_stream_ok [OF Cons.prems(1) c, of cutoff n, unfolded r fst_conv]
  have rows: "db_events db1 = delete_where (stale cutoff db s) (db_events db)"
    using clean_stream_rows [of cutoff s db n] by (simp add: r)
  have "\<forall>t \<in> set ss. cursor_of db1 t \<noteq> None"
  proof
    fix t assume "t \<in> set ss"
    then have "t \<in> set (map cr_stream (db_cursors db1))" unfolding ok(3) using Cons.prems(2) by (auto simp: cursor_of_None)
    then show "cursor_of db1 t \<noteq> None" by (auto simp: cursor_of_None)
  qed
  from Cons.IH [OF ok(1) this] Cons.prems(3) have rest:
    "event_inv (fst (foldl (\<lambda>acc s. clean_stream cutoff s acc) (db1, n1) ss))"
    "\<forall>t. stream_last (fst (foldl (\<lambda>acc s. clean_stream cutoff s acc) (db1, n1) ss)) t = stream_last db1 t"
    "db_events (fst (foldl (\<lambda>acc s. clean_stream cutoff s acc) (db1, n1) ss)) =
      delete_where (\<lambda>r. er_stream r \<in> set ss \<and> stale cutoff db1 (er_stream r) r) (db_events db1)" by auto
  have "stale cutoff db1 t = stale cutoff db t" if "t \<in> set ss" for t
  proof -
    have "t \<noteq> s" using that Cons.prems(3) by auto
    then show ?thesis by (auto simp: stale_def rows fun_eq_iff)
  qed
  then have "(\<lambda>r. stale cutoff db s r \<or> er_stream r \<in> set ss \<and> stale cutoff db1 (er_stream r) r) =
      (\<lambda>r. er_stream r \<in> set (s # ss) \<and> stale cutoff db (er_stream r) r)"
    by (auto simp: fun_eq_iff) (auto simp: stale_def)
  then have "db_events (fst (foldl (\<lambda>acc s. clean_stream cutoff s acc) (db1, n1) ss)) =
      delete_where (\<lambda>r. er_stream r \<in> set (s # ss) \<and> stale cutoff db (er_stream r) r) (db_events db)"
    unfolding rest(3) rows delete_where_twice by simp
  then show ?case using rest(1,2) ok(2) by (simp add: r)
qed

lemma clean_database_ok:
  assumes inv: "event_inv db"
  shows "event_inv (fst (clean_database cutoff db))" "stream_last (fst (clean_database cutoff db)) t = stream_last db t"
    "db_events (fst (clean_database cutoff db)) =
       delete_where (\<lambda>r. cursor_of db (er_stream r) \<noteq> None \<and> stale cutoff db (er_stream r) r) (db_events db)"
proof -
  define ss where "ss = sort (map cr_stream (db_cursors db))"
  obtain db1 n where r: "foldl (\<lambda>acc s. clean_stream cutoff s acc) (db, 0) ss = (db1, n)"
    by (cases "foldl (\<lambda>acc s. clean_stream cutoff s acc) (db, 0) ss")
  have mem: "s \<in> set ss \<longleftrightarrow> cursor_of db s \<noteq> None" for s by (auto simp: ss_def cursor_of_None)
  have "distinct ss" using inv by (simp add: ss_def event_inv_def)
  note ok = clean_streams_ok [OF inv _ this, of cutoff 0, unfolded r fst_conv]
  have res: "fst (clean_database cutoff db) = db1\<lparr>db_snapshots := delete_where (\<lambda>r. sn_created r < cutoff) (db_snapshots db1)\<rparr>"
    by (simp add: clean_database_def ss_def [symmetric] r Let_def)
  have "event_inv db1" using ok mem by simp
  then show "event_inv (fst (clean_database cutoff db))" by (simp add: res)
  show "stream_last (fst (clean_database cutoff db)) t = stream_last db t"
    using ok mem by (simp add: res)
  show "db_events (fst (clean_database cutoff db)) =
       delete_where (\<lambda>r. cursor_of db (er_stream r) \<noteq> None \<and> stale cutoff db (er_stream r) r) (db_events db)"
    using ok mem by (simp add: res)
qed

section \<open>The store as a machine\<close>

datatype store_op =
    Op_Append pyval bool "nat \<Rightarrow> string \<times> string \<times> seconds" "nat \<Rightarrow> bool"
  | Op_Transaction "(pyval \<times> bool) list" bool
  | Op_Cleanup seconds int "nat \<Rightarrow> bool"
  | Op_Snapshot seconds string pyval "int option" "nat \<Rightarrow> bool"
  | Op_Import "pyval list" "nat \<Rightarrow> nat \<Rightarrow> string \<times> string \<times> seconds" "nat \<Rightarrow> nat \<Rightarrow> bool"

text \<open>A caller's transaction appends events one after another; the first exception rolls it back.\<close>

fun transaction :: "(payload \<Rightarrow> string) \<Rightarrow> (string \<Rightarrow> pyval option) \<Rightarrow> event_store \<Rightarrow> (pyval \<times> bool) list \<Rightarrow> event_error + event_store" where
  "transaction dumps loads st [] = Inr st"
| "transaction dumps loads st ((data, strict) # rest) =
     bindr (event_from_dict data) (\<lambda>e.
     bindr (append_in_transaction dumps loads st True e strict) (\<lambda>res.
       transaction dumps loads (st\<lparr>es_db := fst res\<rparr>) rest))"

fun store_exec ::
  "(payload \<Rightarrow> string) \<Rightarrow> (string \<Rightarrow> pyval option) \<Rightarrow> (pyval \<Rightarrow> string) \<Rightarrow> (pyval \<Rightarrow> string) \<Rightarrow> event_store \<Rightarrow> store_op \<Rightarrow> event_store" where
  "store_exec dumps loads rep dumps_state st (Op_Append data strict fresh locked) =
     (case event_from_dict data of
        Inl _ \<Rightarrow> st
      | Inr e \<Rightarrow> fst (append_event dumps loads rep fresh locked st e strict))"
| "store_exec dumps loads rep dumps_state st (Op_Transaction events commit) =
     (case transaction dumps loads st events of Inl _ \<Rightarrow> st | Inr st' \<Rightarrow> if commit then st' else st)"
| "store_exec dumps loads rep dumps_state st (Op_Cleanup now days locked) = fst (cleanup_events locked now days st)"
| "store_exec dumps loads rep dumps_state st (Op_Snapshot now s state seq locked) =
     fst (take_snapshot dumps_state locked now s state seq st)"
| "store_exec dumps loads rep dumps_state st (Op_Import events fresh locked) =
     fst (import_delta dumps loads rep fresh locked events st)"

text \<open>Every row ever inserted, in order.\<close>

fun store_log ::
  "(payload \<Rightarrow> string) \<Rightarrow> (string \<Rightarrow> pyval option) \<Rightarrow> (pyval \<Rightarrow> string) \<Rightarrow> (pyval \<Rightarrow> string) \<Rightarrow> event_store \<Rightarrow> store_op list \<Rightarrow> event_row list" where
  "store_log dumps loads rep dumps_state st [] = []"
| "store_log dumps loads rep dumps_state st (oper # ops) =
     (let st' = store_exec dumps loads rep dumps_state st oper in
      new_rows (es_db st) (es_db st') @ store_log dumps loads rep dumps_state st' ops)"

lemma transaction_appends:
  assumes "event_inv (es_db st)" "transaction dumps loads st events = Inr st'"
  shows "\<exists>news. appends (es_db st) (es_db st') news"
  using assms
proof (induction events arbitrary: st)
  case Nil
  then have "appends (es_db st) (es_db st') []" by (intro appends_none) auto
  then show ?case ..
next
  case (Cons ev events)
  obtain data strict where ev: "ev = (data, strict)" by (cases ev)
  obtain e db r where e: "event_from_dict data = Inr e" "append_in_transaction dumps loads st True e strict = Inr (db, r)"
    "transaction dumps loads (st\<lparr>es_db := db\<rparr>) events = Inr st'" using Cons.prems(2) by (auto simp: ev)
  obtain n1 where n1: "appends (es_db st) db n1"
    using tx_appends [OF Cons.prems(1) event_from_dict_valid [OF e(1)] e(2)] by blast
  then have "event_inv (es_db (st\<lparr>es_db := db\<rparr>))" by (simp add: appends_def)
  from Cons.IH [OF this e(3)] obtain n2 where "appends db (es_db st') n2" by auto
  then show ?case using appends_trans [OF n1] by blast
qed

lemma advances_refl: "event_inv db \<Longrightarrow> advances db db []"
  by (intro advances_same) auto

lemma advances_ensure: "event_inv (es_db st) \<Longrightarrow> advances (es_db st) (es_db (ensure_schema st)) []"
  by (intro advances_same) (auto simp: ensure_schema_ok)

lemma exec_advances:
  assumes inv: "event_inv (es_db st)"
  shows "\<exists>news. advances (es_db st) (es_db (store_exec dumps loads rep dumps_state st oper)) news"
proof (cases oper)
  case (Op_Append data strict fresh locked)
  then show ?thesis
    using append_event_appends [OF inv] event_from_dict_valid appends_advances advances_refl [OF inv]
    by (cases "event_from_dict data") (simp, blast)+
next
  case (Op_Transaction events commit)
  show ?thesis
  proof (cases "transaction dumps loads st events")
    case (Inl err)
    then show ?thesis using Op_Transaction advances_refl [OF inv] by auto
  next
    case (Inr st')
    then show ?thesis using Op_Transaction transaction_appends [OF inv Inr] appends_advances advances_refl [OF inv]
      by (cases commit) auto
  qed
next
  case (Op_Cleanup now days locked)
  define st1 where "st1 = ensure_schema st"
  have one: "event_inv (es_db st1)" "stream_last (es_db st1) s = stream_last (es_db st) s" "db_events (es_db st1) = db_events (es_db st)" for s
    using ensure_schema_ok [OF inv] by (auto simp: st1_def)
  define cutoff where "cutoff = now - real_of_int (max 1 days) * 86400"
  have db: "es_db (store_exec dumps loads rep dumps_state st oper) \<in> {es_db st, es_db st1, fst (clean_database cutoff (es_db st1))}"
    by (rule retry_busy_locked [of 5 locked "clean_database cutoff (es_db st1)"])
      (auto simp: Op_Cleanup cleanup_events_def st1_def [symmetric] cutoff_def [symmetric] Let_def split: prod.splits)
  have "advances (es_db st) (fst (clean_database cutoff (es_db st1))) []"
    by (rule advances_same) (use clean_database_ok [OF one(1)] one in auto)
  then show ?thesis using db advances_refl [OF inv] advances_ensure [OF inv] by (auto simp: st1_def)
next
  case (Op_Snapshot now s state seq locked)
  define st1 where "st1 = ensure_schema st"
  have one: "event_inv (es_db st1)" "stream_last (es_db st1) s = stream_last (es_db st) s" "db_events (es_db st1) = db_events (es_db st)" for s
    using ensure_schema_ok [OF inv] by (auto simp: st1_def)
  have snap: "event_inv (fst (add_snapshot now s t seq db)) = event_inv db" "db_events (fst (add_snapshot now s t seq db)) = db_events db"
    "stream_last (fst (add_snapshot now s t seq db)) u = stream_last db u" for t db u
    by (simp_all add: add_snapshot_def Let_def)
  have db: "es_db (store_exec dumps loads rep dumps_state st oper) \<in>
      {es_db st, es_db st1, fst (add_snapshot now s (dumps_state state) seq (es_db st1))}"
    by (rule retry_busy_locked [of 5 locked "add_snapshot now s (dumps_state state) seq (es_db st1)"])
      (auto simp: Op_Snapshot take_snapshot_def st1_def [symmetric] Let_def split: prod.splits)
  have "advances (es_db st) (fst (add_snapshot now s (dumps_state state) seq (es_db st1))) []"
    by (rule advances_same) (simp_all add: snap one)
  then show ?thesis using db advances_refl [OF inv] advances_ensure [OF inv] by (auto simp: st1_def)
next
  case (Op_Import events fresh locked)
  show ?thesis
  proof (cases "es_enabled st")
    case True
    then have "es_db (store_exec dumps loads rep dumps_state st oper) = es_db (fst (import_events dumps loads rep fresh locked events (st, 0, 0)))"
      by (simp add: Op_Import import_delta_def split: prod.splits)
    then show ?thesis using import_events_appends [OF inv] appends_advances by metis
  next
    case False
    then show ?thesis using advances_refl [OF inv] by (auto simp: Op_Import import_delta_def)
  qed
qed

interpretation event_machine: counter_machine "store_exec dumps loads rep dumps_state" "\<lambda>st :: event_store. event_inv (es_db st)"
  "\<lambda>s st. stream_last (es_db st) s" for dumps loads rep dumps_state
proof unfold_locales
  fix st :: event_store and oper s assume inv: "event_inv (es_db st)"
  obtain news where a: "advances (es_db st) (es_db (store_exec dumps loads rep dumps_state st oper)) news"
    using exec_advances [OF inv] by blast
  show "event_inv (es_db (store_exec dumps loads rep dumps_state st oper))" using a by (simp add: advances_def)
  show "stream_last (es_db st) s \<le> stream_last (es_db (store_exec dumps loads rep dumps_state st oper)) s"
    using a by (simp add: advances_def)
qed

lemma store_log_sequences:
  assumes "event_inv (es_db st)"
  shows "map er_seq (filter (\<lambda>r. er_stream r = s) (store_log dumps loads rep dumps_state st ops)) =
    [stream_last (es_db st) s + 1..stream_last (es_db (foldl (store_exec dumps loads rep dumps_state) st ops)) s]"
  using assms
proof (induction ops arbitrary: st)
  case (Cons oper ops)
  define st1 where "st1 = store_exec dumps loads rep dumps_state st oper"
  obtain news where a: "advances (es_db st) (es_db st1) news"
    using exec_advances [OF Cons.prems] unfolding st1_def by blast
  then have inv1: "event_inv (es_db st1)" and le1: "stream_last (es_db st) s \<le> stream_last (es_db st1) s"
    and log1: "map er_seq (filter (\<lambda>r. er_stream r = s) (new_rows (es_db st) (es_db st1))) =
      [stream_last (es_db st) s + 1..stream_last (es_db st1) s]" by (auto simp: advances_def)
  have le2: "stream_last (es_db st1) s \<le> stream_last (es_db (foldl (store_exec dumps loads rep dumps_state) st1 ops)) s"
    by (rule event_machine.rank_run [OF inv1])
  show ?case using log1 Cons.IH [OF inv1] upto_join [OF le1 le2] by (simp add: st1_def [symmetric] Let_def)
qed simp

end
