(* ===== verification/Event_Account.thy ===== *)
theory Event_Account
  imports Event_Fanout
begin

text \<open>
  The account of a live subscriber of the event store (\<open>Event_Fanout\<close>): whatever its queue drops,
  the events it sees and the losses its markers count are the events published, and the ranges of the
  markers are exact unless one of them says it was truncated.  Two instances of \<open>accounted_queue\<close>.
\<close>

section \<open>What an item accounts for\<close>

definition marker_truncated :: "payload \<Rightarrow> bool" where
  "marker_truncated p \<longleftrightarrow> dict_get p ''gap_ranges_truncated'' = PBool True"

fun range_of_dict :: "pyval \<Rightarrow> (string \<times> int \<times> int) option" where
  "range_of_dict (PDict [(_, PStr s), (_, PInt a), (_, PInt b)]) = Some (s, a, b)"
| "range_of_dict _ = None"

definition marker_ranges :: "payload \<Rightarrow> (string \<times> int \<times> int) list" where
  "marker_ranges p = (case dict_get p ''gap_ranges'' of PList vs \<Rightarrow> List.map_filter range_of_dict vs | _ \<Rightarrow> [])"

definition triple_seqs :: "(string \<times> int \<times> int) list \<Rightarrow> (string \<times> int) set" where
  "triple_seqs rs = (\<Union>r \<in> set rs. {fst r} \<times> {fst (snd r)..snd (snd r)})"

definition is_marker :: "agent_event \<Rightarrow> bool" where
  "is_marker e \<longleftrightarrow> ae_kind e = ''stream.gap''"

definition loss_of :: "agent_event \<Rightarrow> int" where
  "loss_of e = (if is_marker e then (case dict_get (ae_payload e) ''lost_count'' of PInt n \<Rightarrow> n | _ \<Rightarrow> 0) else 1)"

text \<open>The positions an item stands for, unknown for a truncated marker.\<close>

definition positions_of :: "agent_event \<Rightarrow> (string \<times> int) set option" where
  "positions_of e =
     (if is_marker e then
        (if marker_truncated (ae_payload e) then None else Some (triple_seqs (marker_ranges (ae_payload e))))
      else Some (case ae_seq e of None \<Rightarrow> {} | Some n \<Rightarrow> {(ae_stream e, n)}))"

definition join_known :: "'a set option \<Rightarrow> 'a set option \<Rightarrow> 'a set option" where
  "join_known x y = (case (x, y) of (Some a, Some b) \<Rightarrow> Some (a \<union> b) | _ \<Rightarrow> None)"

definition known_as :: "'a option \<Rightarrow> 'a option \<Rightarrow> bool" where
  "known_as x y \<longleftrightarrow> x = None \<or> x = y"

definition item_ok :: "agent_event \<Rightarrow> bool" where
  "item_ok e \<longleftrightarrow> valid_event e \<and>
     (if is_marker e then (\<exists>rs t l b c. ae_payload e = marker_payload rs t l b c) else ae_seq e \<noteq> None)"

definition published_ok :: "(string \<times> string \<times> seconds) \<times> agent_event \<Rightarrow> bool" where
  "published_ok m \<longleftrightarrow>
     (case m of ((uid, uid', now), e) \<Rightarrow>
        valid_event e \<and> \<not> is_marker e \<and> ae_seq e \<noteq> None \<and> nul \<notin> set uid \<and> nul \<notin> set uid' \<and> 0 \<le> now)"

definition event_queue_ok :: "event_queue \<Rightarrow> bool" where
  "event_queue_ok q \<longleftrightarrow> 1 \<le> eq_max q \<and> int (length (eq_items q)) \<le> eq_max q \<and> list_all item_ok (eq_items q)"

section \<open>Reading markers back\<close>

lemma marker_payload_get [simp]:
  "dict_get (marker_payload rs t l b c) ''lost_count'' = PInt l"
  "dict_get (marker_payload rs t l b c) ''gap_ranges'' = PList (map range_dict rs)"
  "dict_get (marker_payload rs t l b c) ''gap_ranges_truncated'' = PBool t"
  "get_default (marker_payload rs t l b c) ''lost_count'' v = PInt l"
  "get_default (marker_payload rs t l b c) ''gap_ranges'' v = PList (map range_dict rs)"
  "get_default (marker_payload rs t l b c) ''gap_ranges_truncated'' v = PBool t"
  by (simp_all add: dict_get_def get_default_def marker_payload_def)

lemma range_of_dict [simp]: "range_of_dict (range_dict r) = Some r"
  by (simp add: range_dict_def)

lemma marker_ranges [simp]: "marker_ranges (marker_payload rs t l b c) = rs"
proof -
  have "List.map_filter range_of_dict (map range_dict rs) = rs"
    by (induction rs) (simp_all add: List.map_filter_simps)
  then show ?thesis by (simp add: marker_ranges_def)
qed

lemma marker_truncated [simp]: "marker_truncated (marker_payload rs t l b c) \<longleftrightarrow> t"
  by (simp add: marker_truncated_def)

lemma triple_seqs_simps [simp]:
  "triple_seqs [] = {}" "triple_seqs (r # rs) = {fst r} \<times> {fst (snd r)..snd (snd r)} \<union> triple_seqs rs"
  "triple_seqs (rs @ rs') = triple_seqs rs \<union> triple_seqs rs'"
  by (auto simp: triple_seqs_def)

definition stream_positions :: "stream_ranges \<Rightarrow> (string \<times> int) set" where
  "stream_positions d = (\<Union>kv \<in> set d. {fst kv} \<times> range_seqs (snd kv))"

lemma stream_positions_simps [simp]:
  "stream_positions [] = {}" "stream_positions (kv # d) = {fst kv} \<times> range_seqs (snd kv) \<union> stream_positions d"
  by (auto simp: stream_positions_def)

lemma stream_positions_append:
  "stream_positions (dict_append d s (a, b)) = stream_positions d \<union> {s} \<times> {a..b}"
proof (induction d)
  case (Cons kv d)
  then show ?case by (cases kv) auto
qed simp

lemma add_range_dict: "add_gap rep owner (range_dict r) d = Inr (dict_append d (fst r) (snd r))"
  by (simp add: add_gap_def range_dict_def dict_get_def get_default_def py_int_def py_str_def)

lemma add_range_dicts:
  "\<exists>d'. fold_res (add_gap rep owner) (map range_dict rs) d = Inr d' \<and>
     stream_positions d' = stream_positions d \<union> triple_seqs rs"
proof (induction rs arbitrary: d)
  case (Cons r rs)
  obtain d' where d': "fold_res (add_gap rep owner) (map range_dict rs) (dict_append d (fst r) (snd r)) = Inr d'"
    "stream_positions d' = stream_positions (dict_append d (fst r) (snd r)) \<union> triple_seqs rs"
    using Cons.IH by blast
  show ?case by (cases r) (use d' in \<open>auto simp: add_range_dict stream_positions_append\<close>)
qed simp

text \<open>The account so far, as a mass.\<close>

definition seen_positions :: "fan_account \<Rightarrow> (string \<times> int) set option" where
  "seen_positions acc = (if fa_truncated acc then None else Some (stream_positions (fa_ranges acc)))"

lemma account_item_ok:
  assumes "item_ok e"
  obtains acc' where "account_item rep e acc = Inr acc'" "fa_lost acc' = fa_lost acc + loss_of e"
    "seen_positions acc' = join_known (seen_positions acc) (positions_of e)"
proof (cases "is_marker e")
  case True
  then obtain rs t l b c where p: "ae_payload e = marker_payload rs t l b c" using assms by (auto simp: item_ok_def)
  obtain d' where d': "fold_res (add_gap rep (ae_stream e)) (map range_dict rs) (fa_ranges acc) = Inr d'"
    "stream_positions d' = stream_positions (fa_ranges acc) \<union> triple_seqs rs"
    using add_range_dicts by blast
  have lost: "marker_lost (ae_payload e) = Inr l" by (simp add: marker_lost_def p py_int_def)
  show thesis
  proof (rule that)
    show "account_item rep e acc = Inr (acc\<lparr>fa_ranges := d', fa_lost := fa_lost acc + l, fa_truncated := (fa_truncated acc \<or> t)\<rparr>)"
      using True d'(1) lost by (simp add: account_item_def is_marker_def p py_items_def)
  qed (use True d'(2) in \<open>auto simp: loss_of_def p seen_positions_def positions_of_def join_known_def\<close>)
next
  case False
  then obtain n where n: "ae_seq e = Some n" using assms by (auto simp: item_ok_def)
  show thesis
  proof (rule that)
    show "account_item rep e acc = Inr (acc\<lparr>fa_ranges := dict_append (fa_ranges acc) (ae_stream e) (n, n),
        fa_lost := fa_lost acc + 1, fa_new := fa_new acc + 1\<rparr>)"
      using False n by (simp add: account_item_def is_marker_def)
  qed (use False n in \<open>auto simp: loss_of_def seen_positions_def positions_of_def join_known_def stream_positions_append\<close>)
qed

lemma known_mass_None: "total_mass join_known (Some {}) f (x # xs) = join_known (f x) (total_mass join_known (Some {}) f xs)"
  by (simp add: total_mass_def)

lemma join_known_assoc: "join_known (join_known x y) z = join_known x (join_known y z)"
  by (auto simp: join_known_def split: option.splits)

lemma join_known_zero [simp]: "join_known (Some {}) x = x" "join_known x (Some {}) = x"
  by (auto simp: join_known_def split: option.splits)

lemma join_known_None [simp]: "join_known None x = None" "join_known x None = None"
  by (simp_all add: join_known_def split: option.splits)

lemma account_items_ok:
  assumes "list_all item_ok xs"
  shows "\<exists>acc'. fold_res (account_item rep) xs acc = Inr acc' \<and>
    fa_lost acc' = fa_lost acc + sum_list (map loss_of xs) \<and>
    seen_positions acc' = join_known (seen_positions acc) (total_mass join_known (Some {}) positions_of xs)"
  using assms
proof (induction xs arbitrary: acc)
  case Nil
  then show ?case by (simp add: total_mass_def)
next
  case (Cons x xs)
  have x: "item_ok x" and xs: "list_all item_ok xs" using Cons.prems by auto
  obtain acc1 where 1: "account_item rep x acc = Inr acc1" "fa_lost acc1 = fa_lost acc + loss_of x"
    "seen_positions acc1 = join_known (seen_positions acc) (positions_of x)" by (rule account_item_ok [OF x])
  obtain acc' where 2: "fold_res (account_item rep) xs acc1 = Inr acc'"
    "fa_lost acc' = fa_lost acc1 + sum_list (map loss_of xs)"
    "seen_positions acc' = join_known (seen_positions acc1) (total_mass join_known (Some {}) positions_of xs)"
    using Cons.IH [OF xs] by blast
  show ?case using 1 2 by (auto simp: known_mass_None join_known_assoc)
qed

section \<open>One full queue\<close>

lemma drop_over_split:
  "fst (drop_over n xs) @ snd (drop_over n xs) = xs \<and> length (snd (drop_over n xs)) \<le> n"
  by (induction n xs rule: drop_over.induct) (auto simp: case_prod_beta Let_def)

lemma triple_seqs_map: "triple_seqs (map (\<lambda>iv. (s, iv)) ivs) = {s} \<times> range_seqs ivs"
proof (induction ivs)
  case (Cons iv ivs)
  then show ?case by (cases iv) auto
qed simp

lemma stream_gap_ranges_exact: "triple_seqs (stream_gap_ranges d) = stream_positions d"
proof (induction d)
  case Nil
  then show ?case by (simp add: stream_gap_ranges_def)
next
  case (Cons kv d)
  then show ?case
    by (cases kv) (simp add: stream_gap_ranges_def triple_seqs_map merge_intervals_seqs)
qed

lemma marker_event_ok:
  assumes "published_ok ((uid, uid', now), e)"
  obtains marker where "marker_event en (uid, uid', now) e acc = Inr marker" "item_ok marker" "is_marker marker"
    "loss_of marker = fa_lost acc" "known_as (positions_of marker) (seen_positions acc)"
proof -
  define ranges where "ranges = stream_gap_ranges (fa_ranges acc)"
  define t where "t = (fa_truncated acc \<or> max_event_gap_ranges < length ranges)"
  define p where "p = marker_payload (take max_event_gap_ranges ranges) t (fa_lost acc) en (ae_seq e)"
  define marker where "marker = \<lparr>ae_id = ''evt_'' @ uid, ae_stream = ae_stream e, ae_kind = ''stream.gap'', ae_payload = p,
    ae_key = ''idemp_'' @ uid', ae_correlation = [], ae_actor = ''system'', ae_created = now, ae_seq = None\<rparr>"
  have e: "identity_ok (ae_stream e)" "nul \<notin> set uid" "nul \<notin> set uid'" "0 \<le> now"
    using assms by (auto simp: published_ok_def valid_event_def)
  have strips: "py_strip (''evt_'' @ uid) \<noteq> []" "py_strip (''idemp_'' @ uid') \<noteq> []" "py_strip ''stream.gap'' \<noteq> []"
    "py_strip ''system'' \<noteq> []" by (simp_all add: strip_prefix is_space_def)
  have v: "valid_event marker" using e strips by (simp add: marker_def valid_event_def identity_ok_def)
  have eq: "marker_event en (uid, uid', now) e acc = make_event (PStr (ae_id marker)) (PStr (ae_stream marker))
      (PStr (ae_kind marker)) (PDict (ae_payload marker)) (PStr (ae_key marker)) (PStr (ae_correlation marker))
      (PStr (ae_actor marker)) (PFloat (Fin (ae_created marker))) (case ae_seq marker of None \<Rightarrow> PNone | Some n \<Rightarrow> PInt n)"
    by (simp add: marker_event_def create_event_def marker_def p_def t_def ranges_def Let_def)
  have m: "marker_event en (uid, uid', now) e acc = Inr marker" unfolding eq by (rule make_event_fields [OF v])
  have mk: "is_marker marker" "ae_payload marker = p" by (simp_all add: is_marker_def marker_def)
  show thesis
  proof (rule that [OF m])
    have "\<exists>rs t l b c. ae_payload marker = marker_payload rs t l b c"
      unfolding mk(2) p_def by (intro exI) (rule refl)
    then show "item_ok marker" using v mk(1) by (simp add: item_ok_def)
    show "is_marker marker" by (rule mk)
    show "loss_of marker = fa_lost acc" by (simp add: loss_of_def mk p_def)
    show "known_as (positions_of marker) (seen_positions acc)"
      by (auto simp: known_as_def positions_of_def mk p_def t_def seen_positions_def ranges_def stream_gap_ranges_exact)
  qed
qed

lemma one_slot_account:
  assumes "ae_seq e = Some n" "\<not> is_marker e"
  shows "fa_lost (one_slot k e acc) = fa_lost acc + (if k = 1 then 1 else 0)"
    "seen_positions (one_slot k e acc) = (if k = 1 then join_known (seen_positions acc) (positions_of e) else seen_positions acc)"
  using assms by (auto simp: one_slot_def seen_positions_def positions_of_def join_known_def stream_positions_append)

text \<open>What a publish does to a queue in order: it never raises, and the account is exact.\<close>

lemma offer_ok:
  assumes q: "event_queue_ok q" and m: "published_ok ((uid, uid', now), e)"
  obtains q' n where "offer rep en (uid, uid', now) e q = (q', n, None)" "eq_max q' = eq_max q" "event_queue_ok q'"
    "sum_list (map loss_of (eq_items q')) = sum_list (map loss_of (eq_items q)) + 1"
    "known_as (total_mass join_known (Some {}) positions_of (eq_items q'))
       (join_known (total_mass join_known (Some {}) positions_of (eq_items q)) (positions_of e))"
proof -
  note append = total_mass_def
  have mass_append: "total_mass join_known (Some {}) f (xs @ ys) =
      join_known (total_mass join_known (Some {}) f xs) (total_mass join_known (Some {}) f ys)" for f :: "agent_event \<Rightarrow> (string \<times> int) set option" and xs ys
    by (induction xs) (simp_all add: total_mass_def join_known_assoc)
  obtain n where e: "valid_event e" "\<not> is_marker e" "ae_seq e = Some n" using m by (auto simp: published_ok_def)
  have eok: "item_ok e" "loss_of e = 1" using e by (simp_all add: item_ok_def loss_of_def)
  have single: "total_mass join_known (Some {}) positions_of [e] = positions_of e" by (simp add: total_mass_def)
  show thesis
  proof (cases "queue_full q")
    case False
    show thesis
    proof (rule that)
      show "offer rep en (uid, uid', now) e q = (q\<lparr>eq_items := eq_items q @ [e]\<rparr>, 0, None)" using False by (simp add: offer_def)
      show "event_queue_ok (q\<lparr>eq_items := eq_items q @ [e]\<rparr>)" using False q eok by (auto simp: event_queue_ok_def queue_full_def)
    qed (use eok in \<open>simp_all add: mass_append single known_as_def\<close>)
  next
    case True
    obtain dropped rest where d: "drop_over (nat (eq_max q - 2)) (eq_items q) = (dropped, rest)"
      by (cases "drop_over (nat (eq_max q - 2)) (eq_items q)")
    have split: "eq_items q = dropped @ rest" and len: "length rest \<le> nat (eq_max q - 2)"
      using drop_over_split [of "nat (eq_max q - 2)" "eq_items q"] d by auto
    have oks: "list_all item_ok dropped" "list_all item_ok rest" using q split by (auto simp: event_queue_ok_def)
    obtain seen where seen: "fold_res (account_item rep) dropped no_loss = Inr seen"
      "fa_lost seen = fa_lost no_loss + sum_list (map loss_of dropped)"
      "seen_positions seen = join_known (seen_positions no_loss) (total_mass join_known (Some {}) positions_of dropped)"
      using account_items_ok [OF oks(1)] by blast
    define acc where "acc = one_slot (eq_max q) e seen"
    obtain marker where mk: "marker_event en (uid, uid', now) e acc = Inr marker" "item_ok marker" "is_marker marker"
      "loss_of marker = fa_lost acc" "known_as (positions_of marker) (seen_positions acc)" by (rule marker_event_ok [OF m])
    have none: "seen_positions no_loss = Some {}" "fa_lost no_loss = 0" by (simp_all add: seen_positions_def no_loss_def)
    have max1: "1 \<le> eq_max q" using q by (simp add: event_queue_ok_def)
    define tail where "tail = (if 1 < eq_max q then [e] else [])"
    have key: "known_as (join_known (positions_of marker) (total_mass join_known (Some {}) positions_of tail))
        (join_known (total_mass join_known (Some {}) positions_of dropped) (positions_of e))"
    proof (cases "1 < eq_max q")
      case True
      then show ?thesis
        using mk(5) seen(3) by (auto simp: known_as_def acc_def one_slot_def none tail_def single)
    next
      case False
      then have "eq_max q = 1" using max1 by simp
      then show ?thesis
        using mk(5) seen(3) one_slot_account(2) [OF e(3,2), of 1 seen] by (simp add: acc_def none tail_def total_mass_def)
    qed
    have comm: "join_known a b = join_known b a" for a b :: "(string \<times> int) set option"
      by (auto simp: join_known_def split: option.splits)
    have rest0: "eq_max q = 1 \<Longrightarrow> rest = []" using len by simp
    show thesis
    proof (rule that)
      show "offer rep en (uid, uid', now) e q = (q\<lparr>eq_items := rest @ marker # tail\<rparr>, fa_new acc, None)"
        using True d seen(1) mk(1) by (simp add: offer_def acc_def tail_def Let_def)
      show "event_queue_ok (q\<lparr>eq_items := rest @ marker # tail\<rparr>)"
        using max1 oks(2) mk(2) eok(1) len by (auto simp: event_queue_ok_def tail_def)
      show "sum_list (map loss_of (eq_items (q\<lparr>eq_items := rest @ marker # tail\<rparr>))) = sum_list (map loss_of (eq_items q)) + 1"
        using mk(4) seen(2) one_slot_account(1) [OF e(3,2), of "eq_max q" seen] max1 eok(2)
        by (auto simp: split tail_def none acc_def)
      show "known_as (total_mass join_known (Some {}) positions_of (eq_items (q\<lparr>eq_items := rest @ marker # tail\<rparr>)))
          (join_known (total_mass join_known (Some {}) positions_of (eq_items q)) (positions_of e))"
        using key by (auto simp: split mass_append known_mass_None known_as_def join_known_assoc comm [of _ "total_mass join_known (Some {}) positions_of rest"])
    qed simp
  qed
qed


definition put_event :: "(pyval \<Rightarrow> string) \<Rightarrow> bool \<Rightarrow> event_queue \<Rightarrow> (string \<times> string \<times> seconds) \<times> agent_event \<Rightarrow> event_queue" where
  "put_event rep en q m = fst (offer rep en (fst m) (snd m) q)"

section \<open>The account of a subscriber\<close>

lemma take_event_ok:
  "event_queue_ok q \<Longrightarrow> take_event q = Some (x, q') \<Longrightarrow> event_queue_ok q'"
  "take_event q = Some (x, q') \<Longrightarrow> eq_items q = x # eq_items q'"
  by (auto simp: take_event_def event_queue_ok_def split: list.splits)

lemma put_event_ok:
  assumes "event_queue_ok q" "published_ok m"
  shows "event_queue_ok (put_event rep en q m)" "eq_max (put_event rep en q m) = eq_max q"
    "sum_list (map loss_of (eq_items (put_event rep en q m))) = sum_list (map loss_of (eq_items q)) + 1"
    "known_as (total_mass join_known (Some {}) positions_of (eq_items (put_event rep en q m)))
       (join_known (total_mass join_known (Some {}) positions_of (eq_items q)) (positions_of (snd m)))"
proof -
  obtain uid uid' now e where m: "m = ((uid, uid', now), e)" by (cases m) auto
  obtain q' k where o: "offer rep en (uid, uid', now) e q = (q', k, None)" "eq_max q' = eq_max q" "event_queue_ok q'"
    "sum_list (map loss_of (eq_items q')) = sum_list (map loss_of (eq_items q)) + 1"
    "known_as (total_mass join_known (Some {}) positions_of (eq_items q'))
       (join_known (total_mass join_known (Some {}) positions_of (eq_items q)) (positions_of e))"
    by (rule offer_ok [OF assms(1) assms(2) [unfolded m]])
  have "put_event rep en q m = q'" by (simp add: put_event_def m o(1))
  then show "event_queue_ok (put_event rep en q m)" "eq_max (put_event rep en q m) = eq_max q"
    "sum_list (map loss_of (eq_items (put_event rep en q m))) = sum_list (map loss_of (eq_items q)) + 1"
    "known_as (total_mass join_known (Some {}) positions_of (eq_items (put_event rep en q m)))
       (join_known (total_mass join_known (Some {}) positions_of (eq_items q)) (positions_of (snd m)))"
    using o(2-5) by (simp_all add: m)
qed

interpretation event_loss: accounted_queue "put_event rep en" take_event eq_items event_queue_ok published_ok
  "(=)" "(+)" "0::int" loss_of "\<lambda>_. 1"
proof unfold_locales
  fix q :: event_queue and m :: "(string \<times> string \<times> seconds) \<times> agent_event"
  assume a: "event_queue_ok q" "published_ok m"
  have sum: "total_mass (+) 0 loss_of xs = sum_list (map loss_of xs)" for xs
    by (induction xs) (simp_all add: total_mass_def)
  show "total_mass (+) 0 loss_of (eq_items (put_event rep en q m)) = total_mass (+) 0 loss_of (eq_items q) + 1"
    unfolding sum by (rule put_event_ok(3) [OF a])
qed (auto simp: put_event_ok dest: take_event_ok)

interpretation event_positions: accounted_queue "put_event rep en" take_event eq_items event_queue_ok published_ok
  known_as join_known "Some {}" positions_of "\<lambda>m. positions_of (snd m)"
proof unfold_locales
  fix x y u v :: "(string \<times> int) set option"
  assume "known_as x y"
  then show "known_as (join_known u (join_known x v)) (join_known u (join_known y v))" by (auto simp: known_as_def)
next
  fix q :: event_queue and m :: "(string \<times> string \<times> seconds) \<times> agent_event"
  assume "event_queue_ok q" "published_ok m"
  then show "known_as (total_mass join_known (Some {}) positions_of (eq_items (put_event rep en q m)))
      (join_known (total_mass join_known (Some {}) positions_of (eq_items q)) (positions_of (snd m)))" by (rule put_event_ok(4))
next
  show "known_as x z" if "known_as x y" "known_as y z" for x y z :: "(string \<times> int) set option"
    using that by (auto simp: known_as_def)
qed (auto simp: put_event_ok(1) join_known_assoc known_as_def dest: take_event_ok)

abbreviation event_run ::
  "(pyval \<Rightarrow> string) \<Rightarrow> bool \<Rightarrow> agent_event list \<times> event_queue
     \<Rightarrow> ((string \<times> string \<times> seconds) \<times> agent_event) queue_op list \<Rightarrow> agent_event list \<times> event_queue" where
  "event_run rep en \<equiv> foldl (queue_step (put_event rep en) take_event)"

lemma event_run_max:
  assumes "event_queue_ok q" "\<forall>m \<in> set (puts ops). published_ok m" "event_run rep en (taken, q) ops = (taken', q')"
  shows "event_queue_ok q' \<and> eq_max q' = eq_max q"
  using assms
proof (induction ops arbitrary: taken q)
  case (Cons oper ops)
  show ?case
  proof (cases oper)
    case (Put m)
    then have "published_ok m" using Cons.prems(2) by simp
    then show ?thesis
      using Cons.IH [of "put_event rep en q m" taken] Cons.prems Put put_event_ok(1,2) [OF Cons.prems(1)] by simp
  next
    case Take
    show ?thesis
    proof (cases "take_event q")
      case None
      then show ?thesis using Cons.IH [of q taken] Cons.prems Take by simp
    next
      case (Some r)
      obtain x q1 where r: "r = (x, q1)" by (cases r)
      have "event_queue_ok q1" "eq_max q1 = eq_max q"
        using Some r take_event_ok(1) [OF Cons.prems(1), of x q1] by (auto simp: take_event_def split: list.splits)
      then show ?thesis using Cons.IH [of q1 "taken @ [x]"] Cons.prems Take Some r by simp
    qed
  qed
qed simp

text \<open>
  A live subscriber of the event store accounts for every published event.  After any number of
  events put into its bounded queue and any number taken, the events it took or still finds plus the
  losses counted by its markers are exactly the events published; unless one of the markers says its
  ranges were truncated, the positions it saw and the ranges of the markers are exactly the positions
  (stream and sequence number) published; and the queue stays within its size, even of one slot.
\<close>

theorem subscriber_account_exact:
  assumes "1 \<le> n" "\<forall>m \<in> set (puts ops). published_ok m"
    "event_run rep en ([], \<lparr>eq_max = n, eq_items = []\<rparr>) ops = (taken, q)"
  shows "(\<Sum>x\<leftarrow>taken @ eq_items q. loss_of x) = int (length (puts ops)) \<and>
    ((\<exists>x \<in> set (taken @ eq_items q). positions_of x = None) \<or>
     (\<Union>x \<in> set (taken @ eq_items q). the (positions_of x)) =
       (\<lambda>m. (ae_stream (snd m), the (ae_seq (snd m)))) ` set (puts ops)) \<and>
    int (length (eq_items q)) \<le> n"
proof -
  have ok: "event_queue_ok \<lparr>eq_max = n, eq_items = []\<rparr>" using assms(1) by (simp add: event_queue_ok_def)
  have sum: "total_mass (+) 0 f xs = (\<Sum>x\<leftarrow>xs. f x)" for f :: "'x \<Rightarrow> int" and xs
    by (induction xs) (simp_all add: total_mass_def)
  have one: "(\<Sum>x\<leftarrow>xs. 1) = int (length xs)" for xs :: "((string \<times> string \<times> seconds) \<times> agent_event) list" by (induction xs) simp_all
  have known: "total_mass join_known (Some {}) f xs = (if \<exists>x \<in> set xs. f x = None then None else Some (\<Union>x \<in> set xs. the (f x)))"
    for f :: "'y \<Rightarrow> (string \<times> int) set option" and xs
    by (induction xs) (auto simp: total_mass_def join_known_def split: option.splits)
  have put: "positions_of (snd m) = Some {(ae_stream (snd m), the (ae_seq (snd m)))}" if "m \<in> set (puts ops)" for m
    using assms(2) that by (auto simp: published_ok_def positions_of_def split: option.splits)
  have puts: "total_mass join_known (Some {}) (\<lambda>m. positions_of (snd m)) (puts ops) =
      Some ((\<lambda>m. (ae_stream (snd m), the (ae_seq (snd m)))) ` set (puts ops))"
    unfolding known using put by auto
  show ?thesis
    using event_loss.run_account [OF ok assms(2,3)] event_positions.run_account [OF ok assms(2,3)]
      event_run_max [OF ok assms(2,3)]
    unfolding puts unfolding sum one known by (auto simp: known_as_def event_queue_ok_def total_mass_def split: if_splits)
qed

definition ex_published :: "int \<Rightarrow> agent_event" where
  "ex_published n =
     \<lparr>ae_id = ''evt'', ae_stream = ''task'', ae_kind = ''step'', ae_payload = [], ae_key = ''k'', ae_correlation = [],
      ae_actor = ''agent'', ae_created = 5, ae_seq = Some n\<rparr>"

definition ex_publishing :: "((string \<times> string \<times> seconds) \<times> agent_event) queue_op list" where
  "ex_publishing = map (\<lambda>n. Put ((''a'', ''b'', 0), ex_published n)) [1, 2, 3]"

theorem subscriber_account_exact_witness:
  "\<exists>taken q. event_run (\<lambda>_. []) True ([], \<lparr>eq_max = 1, eq_items = []\<rparr>) ex_publishing = (taken, q) \<and>
     (\<Sum>x\<leftarrow>taken @ eq_items q. loss_of x) = 3 \<and> length (eq_items q) \<le> 1"
proof -
  obtain taken q where r: "event_run (\<lambda>_. []) True ([], \<lparr>eq_max = 1, eq_items = []\<rparr>) ex_publishing = (taken, q)"
    by (cases "event_run (\<lambda>_. []) True ([], \<lparr>eq_max = 1, eq_items = []\<rparr>) ex_publishing")
  have ok: "\<forall>m \<in> set (puts ex_publishing). published_ok m"
    by (simp add: ex_publishing_def published_ok_def ex_published_def valid_event_def identity_ok_def is_marker_def
        strip_prefix is_space_def)
  have "length (puts ex_publishing) = 3" by (simp add: ex_publishing_def)
  then show ?thesis using subscriber_account_exact [OF order_refl ok r] r by auto
qed

text \<open>
  Anyone may append an event of kind \<open>stream.gap\<close> (the import route takes any kind).  When its payload
  is not a marker's, the next overflow of a subscriber's queue raises while it reads the payload back:
  the append of an unrelated event, already committed, raises; the subscriber has lost the events taken
  out of its queue without a marker.
\<close>

definition ex_forged :: agent_event where
  "ex_forged = (ex_published 1)\<lparr>ae_kind := ''stream.gap'', ae_payload := [(''lost_count'', PStr ''many'')]\<rparr>"

lemma forged_marker_raises:
  "offer (\<lambda>_. []) True fresh (ex_published 3) \<lparr>eq_max = 2, eq_items = [ex_forged, ex_published 2]\<rparr> =
     (\<lparr>eq_max = 2, eq_items = []\<rparr>, 0, Some (Ev_Value ''int''))"
proof -
  have "int_text ''many'' = None"
    by (simp add: int_text_def py_strip_def is_space_def unsigned_int_def digit_of_def)
  then show ?thesis
    by (simp add: offer_def queue_full_def ex_forged_def account_item_def marker_lost_def get_default_def py_int_def Let_def
        ex_published_def)
qed

end
