(* ===== verification/Event_Guarantees.thy ===== *)
theory Event_Guarantees
  imports Event_Sequences Event_Account
begin

text \<open>
  What the event store promises its callers: gap-free sequence numbers that are never reused, one
  stored event per idempotency key, no trace of an append that fails, and a retention sweep that keeps
  every recent event.
\<close>

section \<open>The result of an append\<close>

text \<open>The store after an append that returned: either it failed and left the tables and the subscribers
  alone, or the transaction committed.\<close>

lemma append_event_result:
  assumes "append_event dumps loads rep fresh locked st e strict = (st', Inr r)"
  obtains (failed) err retry where "r = failed_outcome retry err" "es_db st' \<in> {es_db st, es_db (ensure_schema st)}"
      "es_queues st' = es_queues st" "es_dropped st' = es_dropped st"
  | (committed) db where "append_in_transaction dumps loads (ensure_schema st) True e strict = Inr (db, r)" "es_db st' = db"
      "es_enabled st" "int (utf8_len (dumps (ae_payload e))) \<le> es_max_payload st" "st' = (ensure_schema st)\<lparr>es_db := db\<rparr> \<or> \<not> ao_duplicate r"
      "es_enabled st'" "es_ready st'" "es_max_payload st' = es_max_payload st"
proof (cases "\<not> es_enabled st \<or> es_max_payload st < int (utf8_len (dumps (ae_payload e)))")
  case True
  then have "st' = st" "r = failed_outcome False (Ev_Runtime ''agent_state is disabled'')"
    using assms by (auto simp: append_event_def split: if_splits)
  then show thesis using failed by auto
next
  case False
  define st1 where "st1 = ensure_schema st"
  have st1: "es_queues st1 = es_queues st" "es_dropped st1 = es_dropped st" "es_enabled st1" "es_ready st1"
    "es_max_payload st1 = es_max_payload st"
    using False by (auto simp: st1_def ensure_schema_def)
  show thesis
  proof (cases "retry_busy 5 (do_append dumps loads locked st1 e strict)")
    case (Inl err)
    then have "st' = st1" "r = failed_outcome True err"
      using assms False by (auto simp: append_event_def st1_def [symmetric] Let_def split: if_splits)
    then show thesis using failed st1 by (auto simp: st1_def)
  next
    case (Inr x)
    obtain db r0 where x: "x = (db, r0)" by (cases x)
    have res: "append_event dumps loads rep fresh locked st e strict =
        (let st2 = st1\<lparr>es_db := db\<rparr> in
              case (ao_duplicate r0, ao_event r0) of
                (False, Some stored) \<Rightarrow>
                  (case publish_event rep True fresh stored (es_queues st2) of
                     (qs, n, err) \<Rightarrow>
                       (st2\<lparr>es_queues := qs, es_dropped := es_dropped st2 + n\<rparr>,
                        (case err of None \<Rightarrow> Inr r0 | Some x \<Rightarrow> Inl x)))
              | _ \<Rightarrow> (st2, Inr r0))"
      using False Inr x by (simp add: append_event_def st1_def [symmetric] Let_def)
    have r: "r = r0" "es_db st' = db" "es_enabled st'" "es_ready st'" "es_max_payload st' = es_max_payload st"
      "st' = st1\<lparr>es_db := db\<rparr> \<or> \<not> ao_duplicate r0" "ao_event r0 = None \<Longrightarrow> st' = st1\<lparr>es_db := db\<rparr>"
      using assms res st1 by (auto simp: Let_def split: bool.splits option.splits prod.splits)
    obtain k where k: "do_append dumps loads locked st1 e strict k = Inr (db, r0)"
      using retry_from_Inr Inr x unfolding retry_busy_def by metis
    from do_append_cases [OF k] show thesis
    proof
      assume "\<exists>err. db = es_db st1 \<and> r0 = failed_outcome False err"
      then obtain err where f: "db = es_db st1" "r0 = failed_outcome False err" by blast
      then have "st' = st1" using r(7) by (simp add: failed_outcome_def)
      then show thesis using failed [of False err] f r(1) st1 by (simp add: st1_def)
    next
      assume "append_in_transaction dumps loads st1 True e strict = Inr (db, r0)"
      then show thesis using committed [of db] r False by (auto simp: st1_def)
    qed
  qed
qed

lemma committed_succeeds:
  assumes "event_inv (es_db st)" "valid_event e" "append_in_transaction dumps loads st tx e strict = Inr (db, r)"
  shows "append_succeeded r"
proof (cases rule: append_in_transaction_cases [OF assms, case_names duplicate new])
  case (duplicate row stored)
  then have "1 \<le> er_seq row" using assms(1) by (auto simp: event_inv_def)
  then show ?thesis using duplicate by (simp add: append_succeeded_def ok_outcome_def)
next
  case (new n)
  then show ?thesis using stream_last_nonneg [OF assms(1)] by (simp add: append_succeeded_def ok_outcome_def)
qed

section \<open>Properties\<close>

text \<open>
  C9. The sequence numbers of a stream are handed out as 1, 2, 3, ... without a hole and are never reused,
  whatever the store went through: appends that found the database busy or were refused, transactions
  their callers rolled back, imports, snapshots and retention sweeps that deleted rows.
\<close>

theorem sequences_never_reused:
  assumes "es_db st = empty_events"
  shows "map er_seq (filter (\<lambda>r. er_stream r = s) (store_log dumps loads rep dumps_state st ops)) =
      [1..stream_last (es_db (foldl (store_exec dumps loads rep dumps_state) st ops)) s] \<and>
    event_inv (es_db (foldl (store_exec dumps loads rep dumps_state) st ops))"
proof -
  have inv: "event_inv (es_db st)" by (simp add: assms)
  show ?thesis
    using store_log_sequences [OF inv, of s dumps loads rep dumps_state ops]
      event_machine.inv_run [OF inv] by (simp add: assms)
qed

lemma first_committed:
  assumes "event_inv (es_db st)" "valid_event e" "append_event dumps loads rep fresh locked st e strict = (st1, Inr r)" "append_succeeded r"
  shows "event_inv (es_db st1) \<and> es_enabled st1 \<and> int (utf8_len (dumps (ae_payload e))) \<le> es_max_payload st1"
proof (cases rule: append_event_result [OF assms(3), case_names failed committed])
  case (failed err retry)
  then show ?thesis using assms(4) by (simp add: append_succeeded_def failed_outcome_def)
next
  case (committed db)
  have "event_inv db"
    by (cases rule: append_in_transaction_cases [OF ensure_schema_ok(1) [OF assms(1)] assms(2) committed(1), case_names duplicate new])
  then show ?thesis using committed by simp
qed

text \<open>The row that holds the event of a successful append, and what it reads back as.\<close>

lemma appended_row:
  assumes inv: "event_inv (es_db st)" and e: "valid_event e"
    and codec: "loads (dumps (ae_payload e)) = Some (PDict p)"
    and first: "append_event dumps loads rep fresh locked st e strict = (st1, Inr r1)" "append_succeeded r1"
  obtains row stored where "row \<in> set (db_events (es_db st1))" "er_stream row = ae_stream e" "er_key row = ae_key e"
    "er_seq row = ao_seq r1" "event_from_row loads row = Inr stored"
proof (cases rule: append_event_result [OF first(1), case_names failed committed])
  case (failed err retry)
  then show thesis using first(2) by (simp add: append_succeeded_def failed_outcome_def)
next
  case (committed db)
  have inv1: "event_inv (es_db (ensure_schema st))" by (rule ensure_schema_ok(1) [OF inv])
  show thesis
  proof (cases rule: append_in_transaction_cases [OF inv1 e committed(1), case_names duplicate new])
    case (duplicate row stored)
    then show thesis using that [of row stored] committed(2) by (simp add: ok_outcome_def)
  next
    case (new n)
    define row where "row = row_of e (dumps (ae_payload e)) n"
    have "valid_event (e\<lparr>ae_payload := p, ae_seq := Some n\<rparr>)"
      using e new(1) stream_last_nonneg [OF inv1, of "ae_stream e"] by (simp add: valid_event_def)
    then have "event_from_row loads row = Inr (e\<lparr>ae_payload := p, ae_seq := Some n\<rparr>)"
      using codec make_event_fields [of "e\<lparr>ae_payload := p, ae_seq := Some n\<rparr>"] by (simp add: event_from_row_def row_def row_of_def)
    then show thesis using that [of row] new committed(2) by (simp add: row_def row_of_def ok_outcome_def)
  qed
qed

text \<open>What the transaction answers about a key that is in use.\<close>

definition known_answer :: "event_db \<Rightarrow> bool \<Rightarrow> agent_event \<Rightarrow> agent_event \<Rightarrow> event_db \<times> append_outcome" where
  "known_answer db strict stored e =
     (if strict \<and> differs stored e then (db, failed_outcome False (Ev_Value ''idempotency key was already used''))
      else append_duplicate db e stored)"

lemma do_append_known:
  assumes inv: "event_inv (es_db st)" and st: "es_enabled st" "es_ready st"
    and fits: "int (utf8_len (dumps (ae_payload e))) \<le> es_max_payload st"
    and row: "row \<in> set (db_events (es_db st))" "er_stream row = ae_stream e" "er_key row = ae_key e"
    and stored: "event_from_row loads row = Inr stored"
  shows "do_append dumps loads locked st e strict k =
    (if locked k then Inl Ev_Busy else Inr (known_answer (es_db st) strict stored e))"
proof -
  define same_key where "same_key = (\<lambda>r :: event_row. er_stream r = ae_stream e \<and> er_key r = ae_key e)"
  have "find same_key (db_events (es_db st)) = Some row"
  proof -
    obtain r where r: "find same_key (db_events (es_db st)) = Some r"
      using row by (cases "find same_key (db_events (es_db st))") (auto simp: find_None_iff same_key_def)
    then have "r \<in> set (db_events (es_db st))" "er_stream r = er_stream row" "er_key r = er_key row"
      using find_SomeD [OF r] row by (auto simp: same_key_def)
    then have "r = row"
      using inv row(1) distinct_map_inj [of "\<lambda>r. (er_stream r, er_key r)"] by (auto simp: event_inv_def)
    then show ?thesis using r by simp
  qed
  then show ?thesis using st fits stored
    by (simp add: do_append_def append_in_transaction_def same_key_def known_answer_def Let_def)
qed

lemma known_answer_ok:
  assumes "event_inv db" "row \<in> set (db_events db)" "er_stream row = ae_stream e" "event_from_row loads row = Inr stored"
  shows "db_events (fst (known_answer db strict stored e)) = db_events db"
    "snd (known_answer db strict stored e) = (if strict \<and> differs stored e
       then failed_outcome False (Ev_Value ''idempotency key was already used'') else ok_outcome (er_seq row) True stored)"
  using append_duplicate_ok(2,4) [OF assms] by (simp_all add: known_answer_def)

lemma append_known:
  assumes inv: "event_inv (es_db st)"
    and row: "row \<in> set (db_events (es_db st))" "er_stream row = ae_stream e" "er_key row = ae_key e"
    and stored: "event_from_row loads row = Inr stored"
    and run: "append_event dumps loads rep fresh locked st e strict = (st', answer)"
  defines "small \<equiv> int (utf8_len (dumps (ae_payload e))) \<le> es_max_payload st"
  shows "db_events (es_db st') = db_events (es_db st) \<and> es_queues st' = es_queues st \<and> es_dropped st' = es_dropped st \<and>
    (es_enabled st \<and> small \<and> (\<exists>i<5. \<not> locked i) \<longrightarrow>
      answer = Inr (if strict \<and> differs stored e
        then failed_outcome False (Ev_Value ''idempotency key was already used'') else ok_outcome (er_seq row) True stored))"
proof (cases "es_enabled st \<and> small")
  case False
  then show ?thesis using run by (auto simp: append_event_def small_def not_less split: if_splits)
next
  case True
  let ?st = "ensure_schema st" and ?op = "do_append dumps loads locked (ensure_schema st) e strict"
  note sch = ensure_schema_ok [OF inv]
  have same: "es_queues ?st = es_queues st" "es_dropped ?st = es_dropped st" by (simp_all add: ensure_schema_def)
  obtain db o' where k: "known_answer (es_db ?st) strict stored e = (db, o')"
    by (cases "known_answer (es_db ?st) strict stored e")
  have op: "?op k = (if locked k then Inl Ev_Busy else Inr (db, o'))" for k
    unfolding k [symmetric] using True sch row stored
    by (intro do_append_known) (simp_all add: small_def)
  have db: "db_events db = db_events (es_db st)"
    and o': "o' = (if strict \<and> differs stored e then failed_outcome False (Ev_Value ''idempotency key was already used'')
      else ok_outcome (er_seq row) True stored)"
    using known_answer_ok [OF sch(1), of row e loads stored strict] row stored k by (simp_all add: sch(3))
  have quiet: "ao_duplicate o' \<or> ao_event o' = None" by (simp add: o' ok_outcome_def failed_outcome_def)
  consider "retry_busy 5 ?op = Inl Ev_Busy" | "retry_busy 5 ?op = Inr (db, o')"
    unfolding op using retry_busy_locked [of 5 locked "(db, o')"] by blast
  then show ?thesis
  proof cases
    case 1
    have "\<not> (\<exists>i<5. \<not> locked i)"
    proof
      assume "\<exists>i<5. \<not> locked i"
      then obtain i where "i < 5" "\<not> locked i" by blast
      then have "retry_busy 5 ?op = Inr (db, o')" by (rule retry_busy_free) (simp_all add: op)
      then show False using 1 by simp
    qed
    moreover have "st' = ?st" using run True 1 by (simp add: append_event_def small_def not_less Let_def)
    ultimately show ?thesis using same sch(3) by auto
  next
    case 2
    then have "st' = ?st\<lparr>es_db := db\<rparr> \<and> answer = Inr o'"
      using run True quiet by (auto simp: append_event_def small_def not_less Let_def split: bool.splits option.splits)
    then show ?thesis using same db o' by simp
  qed
qed

text \<open>
  C10. An event is stored once per idempotency key.  After an append that succeeded, in whatever state the
  store is later while the row of the event is retained, an append under the same stream and key, from
  the same or another caller and with whatever payload, changes neither the rows nor the subscribers.
  When the store is enabled, the payload is within the limit and the database is free at one of five
  attempts, it reports the sequence number of the first as a duplicate, except that a strict append of
  an event that differs from the stored one is refused.
\<close>

theorem append_exactly_once:
  assumes inv: "event_inv (es_db st)" and e: "valid_event e"
    and codec: "loads (dumps (ae_payload e)) = Some (PDict p)"
    and first: "append_event dumps loads rep fresh locked st e strict = (st1, Inr r1)" "append_succeeded r1"
    and later: "event_inv (es_db st2)"
      "{row \<in> set (db_events (es_db st1)). er_stream row = ae_stream e \<and> er_key row = ae_key e} \<subseteq> set (db_events (es_db st2))"
    and same: "ae_stream e2 = ae_stream e" "ae_key e2 = ae_key e"
    and second: "append_event dumps loads rep fresh2 locked2 st2 e2 strict2 = (st3, answer)"
  shows "db_events (es_db st3) = db_events (es_db st2) \<and> es_queues st3 = es_queues st2 \<and> es_dropped st3 = es_dropped st2 \<and>
    (\<exists>row stored. row \<in> set (db_events (es_db st1)) \<and> er_stream row = ae_stream e \<and> er_key row = ae_key e \<and>
      er_seq row = ao_seq r1 \<and> event_from_row loads row = Inr stored \<and>
      (es_enabled st2 \<and> int (utf8_len (dumps (ae_payload e2))) \<le> es_max_payload st2 \<and> (\<exists>i<5. \<not> locked2 i) \<longrightarrow>
        answer = Inr (if strict2 \<and> differs stored e2
          then failed_outcome False (Ev_Value ''idempotency key was already used'') else ok_outcome (ao_seq r1) True stored)))"
proof -
  obtain row stored where row: "row \<in> set (db_events (es_db st1))" "er_stream row = ae_stream e" "er_key row = ae_key e"
    "er_seq row = ao_seq r1" "event_from_row loads row = Inr stored"
    by (rule appended_row [where loads = loads, OF inv e codec first])
  have "row \<in> set (db_events (es_db st2))" using later(2) row(1-3) by auto
  from append_known [OF later(1) this _ _ row(5) second] show ?thesis
    using row same by (intro conjI exI [of _ row] exI [of _ stored]) simp_all
qed

text \<open>
  C14. An append that returns an error leaves no trace: no row, no cursor moved, nothing put into any
  subscriber's queue.  That holds for a disabled store, a database that stays busy through every
  attempt, a stored row that cannot be read and a key used for a different event.
\<close>

theorem failed_append_no_trace:
  assumes "event_inv (es_db st)" "valid_event e"
    "append_event dumps loads rep fresh locked st e strict = (st', Inr r)" "append_is_error r"
  shows "db_events (es_db st') = db_events (es_db st) \<and> stream_last (es_db st') s = stream_last (es_db st) s \<and>
    es_queues st' = es_queues st \<and> es_dropped st' = es_dropped st \<and> ao_error r \<noteq> None"
proof (cases rule: append_event_result [OF assms(3), case_names failed committed])
  case (failed err retry)
  then show ?thesis using ensure_schema_ok [OF assms(1)] by (auto simp: failed_outcome_def)
next
  case (committed db)
  then have "append_succeeded r" using committed_succeeds ensure_schema_ok(1) [OF assms(1)] assms(2) by blast
  then show ?thesis using assms(4) by (simp add: append_is_error_def)
qed

text \<open>
  The retention sweep removes history only.  An event younger than the cutoff survives, and so does
  every later event of its stream; what is removed of a stream is what precedes its first recent event,
  and no stream's next sequence number changes.
\<close>

theorem cleanup_keeps_recent:
  assumes "event_inv db" "r \<in> set (db_events db)" "x \<in> set (db_events db)" "er_stream x = er_stream r"
    "cutoff \<le> er_created x" "er_seq x \<le> er_seq r"
  shows "r \<in> set (db_events (fst (clean_database cutoff db))) \<and>
    stream_last (fst (clean_database cutoff db)) s = stream_last db s \<and>
    set (db_events (fst (clean_database cutoff db))) \<subseteq> set (db_events db)"
proof -
  have "\<not> stale cutoff db (er_stream r) r" using assms(3-6) by (auto simp: stale_def)
  then show ?thesis using clean_database_ok [OF assms(1)] assms(2) by auto
qed

section \<open>Witnesses\<close>

definition new_store :: event_store where
  "new_store = \<lparr>es_enabled = True, es_max_payload = 100, es_ready = False, es_exists = False, es_db = empty_events, es_queues = [], es_dropped = 0\<rparr>"

definition ex_ops :: "store_op list" where
  "ex_ops = [Op_Append (PDict (event_dict sample_event)) False (\<lambda>_. ([], [], 0)) (\<lambda>_. False), Op_Cleanup 100000000 1 (\<lambda>_. False),
     Op_Append (PDict (event_dict (sample_event\<lparr>ae_key := ''k2''\<rparr>))) False (\<lambda>_. ([], [], 0)) (\<lambda>k. k < 2)]"

theorem sequences_never_reused_witness:
  "map er_seq (filter (\<lambda>r. er_stream r = ''task'') (store_log sample_dumps sample_loads (\<lambda>_. []) (\<lambda>_. []) new_store ex_ops)) =
     [1..stream_last (es_db (foldl (store_exec sample_dumps sample_loads (\<lambda>_. []) (\<lambda>_. [])) new_store ex_ops)) ''task'']"
proof -
  have "es_db new_store = empty_events" by (simp add: new_store_def)
  then show ?thesis using sequences_never_reused by blast
qed

lemma sample_append:
  obtains st1 where "append_event sample_dumps sample_loads (\<lambda>_. []) (\<lambda>_. ([], [], 0)) (\<lambda>_. False) sample_store sample_event False =
    (st1, Inr (ok_outcome 4 False (sample_event\<lparr>ae_seq := Some 4\<rparr>)))"
proof -
  have last: "stream_last sample_db ''task'' = 3" by (simp add: stream_last_def cursor_of_def sample_db_def)
  have stream: "ae_stream sample_event = ''task''" "ae_key sample_event = ''k9''" by (simp_all add: sample_event_def)
  have none: "\<forall>r \<in> set (db_events sample_db). \<not> (er_stream r = ae_stream sample_event \<and> er_key r = ae_key sample_event)"
    by (simp add: sample_db_def sample_row_def stream)
  have four: "stream_last sample_db (ae_stream sample_event) + 1 = 4" by (simp add: last stream)
  obtain db' where db': "append_new ''{}'' sample_db sample_event = Inr (db', ok_outcome 4 False (sample_event\<lparr>ae_seq := Some 4\<rparr>))"
    by (rule append_new_ok [OF sample_ok(1) sample_event_ok none, of "''{}''", unfolded four])
  have find: "find (\<lambda>r. er_stream r = ae_stream sample_event \<and> er_key r = ae_key sample_event) (db_events sample_db) = None"
    using none by (simp add: find_None_iff)
  have small: "int (utf8_len (sample_dumps p)) \<le> 100" for p by (simp add: sample_dumps_def utf8_len_def)
  have tx: "append_in_transaction sample_dumps sample_loads sample_store True sample_event False =
      Inr (db', ok_outcome 4 False (sample_event\<lparr>ae_seq := Some 4\<rparr>))"
    using small db' find by (simp add: append_in_transaction_def sample_ok Let_def) (simp add: sample_dumps_def)
  have "retry_busy 5 (do_append sample_dumps sample_loads (\<lambda>_. False) sample_store sample_event False) =
      Inr (db', ok_outcome 4 False (sample_event\<lparr>ae_seq := Some 4\<rparr>))"
    by (rule retry_busy_free [of 0 "\<lambda>_. False"]) (simp_all add: do_append_def tx)
  moreover have "es_queues sample_store = []" by (simp add: sample_store_def)
  ultimately show thesis using that small by (simp add: append_event_def sample_ok Let_def ok_outcome_def not_less)
qed

theorem append_exactly_once_witness:
  "\<exists>st1 st3. append_event sample_dumps sample_loads (\<lambda>_. []) (\<lambda>_. ([], [], 0)) (\<lambda>_. False) sample_store sample_event False =
       (st1, Inr (ok_outcome 4 False (sample_event\<lparr>ae_seq := Some 4\<rparr>))) \<and>
     (\<exists>stored. append_event sample_dumps sample_loads (\<lambda>_. []) (\<lambda>_. ([], [], 0)) (\<lambda>k. k < 3) (st1\<lparr>es_queues := []\<rparr>) sample_event False =
       (st3, Inr (ok_outcome 4 True stored)))"
proof -
  obtain st1 where first: "append_event sample_dumps sample_loads (\<lambda>_. []) (\<lambda>_. ([], [], 0)) (\<lambda>_. False) sample_store sample_event False =
    (st1, Inr (ok_outcome 4 False (sample_event\<lparr>ae_seq := Some 4\<rparr>)))" by (rule sample_append)
  let ?st2 = "st1\<lparr>es_queues := []\<rparr>"
  have ok: "append_succeeded (ok_outcome 4 False (sample_event\<lparr>ae_seq := Some 4\<rparr>))" by (simp add: append_succeeded_def ok_outcome_def)
  have codec: "sample_loads (sample_dumps (ae_payload sample_event)) = Some (PDict [])" by (simp add: sample_loads_def)
  have inv: "event_inv (es_db sample_store)" by (simp add: sample_ok)
  have st1: "event_inv (es_db ?st2)" "es_enabled ?st2" "int (utf8_len (sample_dumps (ae_payload sample_event))) \<le> es_max_payload ?st2"
    using first_committed [OF inv sample_event_ok first ok] by simp_all
  obtain st3 answer where second: "append_event sample_dumps sample_loads (\<lambda>_. []) (\<lambda>_. ([], [], 0)) (\<lambda>k. k < 3) ?st2 sample_event False =
    (st3, answer)" by (cases "append_event sample_dumps sample_loads (\<lambda>_. []) (\<lambda>_. ([], [], 0)) (\<lambda>k. k < 3) ?st2 sample_event False")
  have "\<exists>i<(5::nat). \<not> i < 3" by (intro exI [of _ 3]) simp
  moreover have "ao_seq (ok_outcome 4 False (sample_event\<lparr>ae_seq := Some 4\<rparr>)) = 4" by (simp add: ok_outcome_def)
  ultimately show ?thesis
    using append_exactly_once [where loads = sample_loads, OF inv sample_event_ok codec first ok st1(1) _ refl refl second] first second st1 by auto
qed

theorem failed_append_no_trace_witness:
  "\<exists>st' r. append_event sample_dumps sample_loads (\<lambda>_. []) (\<lambda>_. ([], [], 0)) (\<lambda>_. True) sample_store sample_event False = (st', Inr r) \<and>
     ao_retryable r \<and> db_events (es_db st') = db_events (es_db sample_store) \<and> ao_error r \<noteq> None"
proof -
  have small: "\<not> 100 < int (utf8_len (sample_dumps p))" for p by (simp add: sample_dumps_def utf8_len_def)
  have "retry_from (do_append sample_dumps sample_loads (\<lambda>_. True) sample_store sample_event False) k n = Inl Ev_Busy" for k n
    by (induction n arbitrary: k) (simp_all add: do_append_def)
  then have r: "append_event sample_dumps sample_loads (\<lambda>_. []) (\<lambda>_. ([], [], 0)) (\<lambda>_. True) sample_store sample_event False =
      (sample_store, Inr (failed_outcome True Ev_Busy))"
    using small by (simp add: append_event_def sample_ok Let_def retry_busy_def)
  have err: "append_is_error (failed_outcome True Ev_Busy)" by (simp add: append_is_error_def append_succeeded_def failed_outcome_def)
  have "event_inv (es_db sample_store)" by (simp add: sample_ok)
  then show ?thesis using failed_append_no_trace [OF _ sample_event_ok r err] r by (auto simp: failed_outcome_def)
qed

theorem cleanup_keeps_recent_witness:
  "sample_row 3 10 \<in> set (db_events (fst (clean_database 5 sample_db))) \<and> stream_last (fst (clean_database 5 sample_db)) ''task'' = 3"
proof -
  have "sample_row 3 10 \<in> set (db_events sample_db)" "5 \<le> er_created (sample_row 3 10)" "stream_last sample_db ''task'' = 3"
    by (simp_all add: sample_db_def sample_row_def stream_last_def cursor_of_def)
  then show ?thesis using cleanup_keeps_recent [OF sample_ok(1)] by (metis order_refl)
qed

text \<open>
  An export over all streams is ordered by sequence number alone, and every stream counts from 1.  A
  reader that takes the next page after the last number it saw misses the events of the other streams
  with that number.
\<close>

definition twin_store :: event_store where
  "twin_store = sample_store\<lparr>es_db := sample_db\<lparr>db_events := [sample_row 1 0, (sample_row 1 0)\<lparr>er_stream := ''other''\<rparr>]\<rparr>\<rparr>"

lemma export_resume_skips:
  "snd (export_delta sample_loads [] 0 1 twin_store) = Inr [event_dict (sample_event\<lparr>ae_key := ''k1'', ae_created := 0, ae_seq := Some 1\<rparr>)]"
  "snd (export_delta sample_loads [] 1 1 twin_store) = Inr []"
  "length (filter (\<lambda>r. er_seq r = 1) (db_events (es_db twin_store))) = 2"
proof -
  define e where "e = sample_event\<lparr>ae_key := ''k1'', ae_created := 0, ae_seq := Some 1\<rparr>"
  have "valid_event e" by (simp add: e_def valid_event_def sample_event_def identity_ok_def strip_prefix is_space_def)
  then have row: "event_from_row sample_loads (sample_row 1 0) = Inr e"
    using make_event_fields [of e] by (simp add: event_from_row_def sample_loads_def sample_row_def e_def sample_event_def)
  have ready: "ensure_schema twin_store = twin_store" "es_enabled twin_store" "es_exists twin_store"
    by (simp_all add: twin_store_def sample_store_def ensure_schema_def)
  have seqs: "er_seq (sample_row 1 0) = 1" by (simp add: sample_row_def)
  have rows: "db_events (es_db twin_store) = [sample_row 1 0, (sample_row 1 0)\<lparr>er_stream := ''other''\<rparr>]"
    by (simp add: twin_store_def)
  show "snd (export_delta sample_loads [] 0 1 twin_store) = Inr [event_dict (sample_event\<lparr>ae_key := ''k1'', ae_created := 0, ae_seq := Some 1\<rparr>)]"
    unfolding e_def [symmetric] by (simp add: export_delta_def ready Let_def rows seqs row)
  show "snd (export_delta sample_loads [] 1 1 twin_store) = Inr []"
    by (simp add: export_delta_def ready Let_def rows seqs)
  show "length (filter (\<lambda>r. er_seq r = 1) (db_events (es_db twin_store))) = 2" by (simp add: rows seqs)
qed

end
