(* ===== verification/Event_Paging.thy ===== *)
theory Event_Paging
  imports Event_Invariant
begin

text \<open>
  Reading the event store back: \<open>AgentStateStore.event_page\<close> and \<open>events\<close>.  A page answers for a range of
  sequence numbers, and the theorem says exactly which: the events returned and the gap ranges
  reported split the range between the cursor and the next cursor, so that a reader that follows the
  next cursor is told about every number once.
\<close>

section \<open>Pages\<close>

record event_page =
  pg_success :: bool
  pg_events :: "agent_event list"
  pg_next :: int
  pg_first :: "int option"
  pg_last :: int
  pg_more :: bool
  pg_gaps :: "(int \<times> int) list"
  pg_reset :: bool
  pg_error :: "string option"

definition page_error :: "int \<Rightarrow> event_page" where
  "page_error next_seq =
     \<lparr>pg_success = False, pg_events = [], pg_next = next_seq, pg_first = None, pg_last = 0, pg_more = False,
      pg_gaps = [], pg_reset = False, pg_error = Some ''event_page_unavailable''\<rparr>"

definition page_disabled :: "int \<Rightarrow> event_page" where
  "page_disabled next_seq =
     \<lparr>pg_success = False, pg_events = [], pg_next = next_seq, pg_first = Some 0, pg_last = 0, pg_more = False,
      pg_gaps = [], pg_reset = False, pg_error = Some ''agent_state_disabled''\<rparr>"

definition page_absent :: "int \<Rightarrow> event_page" where
  "page_absent next_seq =
     \<lparr>pg_success = True, pg_events = [], pg_next = next_seq, pg_first = Some 0, pg_last = 0, pg_more = False,
      pg_gaps = [], pg_reset = False, pg_error = None\<rparr>"

text \<open>The gaps before each event, and the number expected after the last one.\<close>

fun seq_gaps :: "int \<Rightarrow> int list \<Rightarrow> (int \<times> int) list \<times> int" where
  "seq_gaps expected [] = ([], expected)"
| "seq_gaps expected (n # ns) =
     (let (gaps, next_expected) = seq_gaps (n + 1) ns in
      ((if expected < n then [(expected, n - 1)] else []) @ gaps, next_expected))"

definition event_seq :: "agent_event \<Rightarrow> int" where
  "event_seq e = (case ae_seq e of None \<Rightarrow> 0 | Some n \<Rightarrow> n)"

text \<open>The read transaction.\<close>

definition rows_between :: "event_db \<Rightarrow> string \<Rightarrow> int \<Rightarrow> int \<Rightarrow> event_row list" where
  "rows_between db s after high =
     sort_key er_seq (filter (\<lambda>r. er_stream r = s \<and> after < er_seq r \<and> er_seq r \<le> high) (db_events db))"

definition current_last :: "event_db \<Rightarrow> string \<Rightarrow> int" where
  "current_last db s =
     (let high = (case sql_max (stream_seqs db s) of Some n \<Rightarrow> n | None \<Rightarrow> 0) in
      case cursor_of db s of None \<Rightarrow> high | Some c \<Rightarrow> max (cr_last c) high)"

definition effective_after :: "event_db \<Rightarrow> string \<Rightarrow> int \<Rightarrow> int" where
  "effective_after db s after =
     (if current_last db s < after then
        (case sql_min (stream_seqs db s) of Some n \<Rightarrow> max 0 (n - 1) | None \<Rightarrow> current_last db s)
      else after)"

definition read_page :: "(string \<Rightarrow> pyval option) \<Rightarrow> event_db \<Rightarrow> string \<Rightarrow> int \<Rightarrow> int \<Rightarrow> int option \<Rightarrow> event_error + event_page" where
  "read_page loads db s after limit through =
     (let last_seq = (case through of None \<Rightarrow> current_last db s | Some n \<Rightarrow> min (current_last db s) n);
          start = effective_after db s after;
          rows = take (Suc (nat limit)) (rows_between db s start last_seq);
          more = (nat limit < length rows)
      in bindr (map_res (event_from_row loads) (take (nat limit) rows)) (\<lambda>events.
        (let next_seq = (if events = [] then start else event_seq (last events));
             (gaps, expected) = seq_gaps (start + 1) (map event_seq events);
             trailing = (\<not> more \<and> expected \<le> last_seq)
         in Inr \<lparr>pg_success = True, pg_events = events, pg_next = (if trailing then last_seq else next_seq),
                pg_first = sql_min (stream_seqs db s), pg_last = last_seq, pg_more = more,
                pg_gaps = (if trailing then gaps @ [(expected, last_seq)] else gaps),
                pg_reset = (current_last db s < after), pg_error = None\<rparr>)))"

definition event_page :: "(string \<Rightarrow> pyval option) \<Rightarrow> event_store \<Rightarrow> string \<Rightarrow> pyval \<Rightarrow> pyval \<Rightarrow> pyval \<Rightarrow> event_page" where
  "event_page loads st s after_seq limit through_seq =
     (case py_int after_seq of
        Inl _ \<Rightarrow> page_error 0
      | Inr a \<Rightarrow>
          (let after = max 0 a in
           case py_int limit of
             Inl _ \<Rightarrow> page_error after
           | Inr l \<Rightarrow>
               (case (if through_seq = PNone then Inr None else map_sum id (\<lambda>n. Some (max 0 n)) (py_int through_seq)) of
                  Inl _ \<Rightarrow> page_error after
                | Inr through \<Rightarrow>
                    if \<not> es_enabled st then page_disabled after
                    else if \<not> es_exists st then page_absent after
                    else (case read_page loads (es_db (ensure_schema st)) s after (max 1 (min l 10000)) through of
                            Inl _ \<Rightarrow> page_error after
                          | Inr page \<Rightarrow> page))))"

text \<open>\<open>events\<close>: a failed page is an exception.\<close>

definition stored_events :: "(string \<Rightarrow> pyval option) \<Rightarrow> event_store \<Rightarrow> string \<Rightarrow> pyval \<Rightarrow> pyval \<Rightarrow> event_error + agent_event list" where
  "stored_events loads st s after_seq limit =
     (let page = event_page loads st s after_seq limit PNone in
      if pg_success page then map_res (\<lambda>e. event_from_dict (PDict (event_dict e))) (pg_events page)
      else Inl (Ev_Runtime (case pg_error page of None \<Rightarrow> [] | Some m \<Rightarrow> m)))"

section \<open>Gap ranges\<close>

definition gap_numbers :: "(int \<times> int) list \<Rightarrow> int set" where
  "gap_numbers gaps = (\<Union>g \<in> set gaps. {fst g..snd g})"

lemma gap_numbers_simps [simp]:
  "gap_numbers [] = {}" "gap_numbers (g # gs) = {fst g..snd g} \<union> gap_numbers gs"
  "gap_numbers (gs @ gs') = gap_numbers gs \<union> gap_numbers gs'"
  by (auto simp: gap_numbers_def)

lemma seq_gaps_ok:
  assumes "sorted_wrt (<) ns" "\<forall>n \<in> set ns. expected \<le> n"
  shows "snd (seq_gaps expected ns) = (if ns = [] then expected else last ns + 1)"
    "gap_numbers (fst (seq_gaps expected ns)) = {expected..<snd (seq_gaps expected ns)} - set ns"
    "expected \<le> snd (seq_gaps expected ns)" "\<forall>n \<in> set ns. n < snd (seq_gaps expected ns)"
proof -
  have "snd (seq_gaps expected ns) = (if ns = [] then expected else last ns + 1) \<and>
    gap_numbers (fst (seq_gaps expected ns)) = {expected..<snd (seq_gaps expected ns)} - set ns \<and>
    expected \<le> snd (seq_gaps expected ns) \<and> (\<forall>n \<in> set ns. n < snd (seq_gaps expected ns))"
    using assms
  proof (induction ns arbitrary: expected)
    case (Cons n ns)
    have le: "expected \<le> n" using Cons.prems by simp
    obtain gaps e' where r: "seq_gaps (n + 1) ns = (gaps, e')" by (cases "seq_gaps (n + 1) ns")
    have "sorted_wrt (<) ns" "\<forall>m \<in> set ns. n + 1 \<le> m" using Cons.prems(1) by auto
    note IH = Cons.IH [OF this, unfolded r fst_conv snd_conv]
    note ih = IH [THEN conjunct1] IH [THEN conjunct2, THEN conjunct1] IH [THEN conjunct2, THEN conjunct2, THEN conjunct1]
      IH [THEN conjunct2, THEN conjunct2, THEN conjunct2]
    have "set ns \<subseteq> {n + 1..}" using Cons.prems(1) by auto
    moreover have "{n + 1..<e'} - set ns \<union> {expected..n - 1} = {expected..<e'} - insert n (set ns)"
      using le ih(3) calculation by auto
    ultimately show ?case using ih le by (auto simp: r)
  qed simp
  then show "snd (seq_gaps expected ns) = (if ns = [] then expected else last ns + 1)"
    "gap_numbers (fst (seq_gaps expected ns)) = {expected..<snd (seq_gaps expected ns)} - set ns"
    "expected \<le> snd (seq_gaps expected ns)" "\<forall>n \<in> set ns. n < snd (seq_gaps expected ns)" by blast+
qed

section \<open>Rows of a range\<close>

lemma map_res_Inr: "map_res f xs = Inr ys \<longleftrightarrow> list_all2 (\<lambda>x y. f x = Inr y) xs ys"
proof (induction xs arbitrary: ys)
  case Nil
  then show ?case by auto
next
  case (Cons x xs)
  show ?case by (cases ys) (auto simp: Cons.IH)
qed

lemma stream_seqs_distinct:
  assumes "event_inv db" shows "distinct (stream_seqs db s)"
proof -
  have "distinct (map (\<lambda>r. (er_stream r, er_seq r)) (filter (\<lambda>r. er_stream r = s) (db_events db)))"
    using assms by (simp add: event_inv_def distinct_map_filter)
  moreover have "map (\<lambda>r. (er_stream r, er_seq r)) (filter (\<lambda>r. er_stream r = s) rows) =
      map (Pair s) (map er_seq (filter (\<lambda>r. er_stream r = s) rows))" for rows :: "event_row list"
    by (induction rows) auto
  ultimately show ?thesis unfolding stream_seqs_def by (metis distinct_map)
qed

lemma rows_between_seqs:
  assumes "event_inv db"
  shows "sorted_wrt (<) (map er_seq (rows_between db s a b))"
    "r \<in> set (rows_between db s a b) \<longleftrightarrow> r \<in> set (db_events db) \<and> er_stream r = s \<and> a < er_seq r \<and> er_seq r \<le> b"
proof -
  define rows where "rows = filter (\<lambda>r. er_stream r = s \<and> a < er_seq r \<and> er_seq r \<le> b) (db_events db)"
  have split: "rows = filter (\<lambda>r. a < er_seq r \<and> er_seq r \<le> b) (filter (\<lambda>r. er_stream r = s) (db_events db))"
    unfolding rows_def filter_filter by (rule filter_cong) auto
  have "distinct (map er_seq rows)"
    unfolding split using stream_seqs_distinct [OF assms, of s, unfolded stream_seqs_def] by (rule distinct_map_filter)
  then have "distinct (map er_seq (sort_key er_seq rows))"
    by (metis distinct_sort list.set_map set_sort distinct_map)
  moreover have "sorted (map er_seq (sort_key er_seq rows))" by simp
  ultimately show "sorted_wrt (<) (map er_seq (rows_between db s a b))"
    by (simp add: rows_between_def rows_def [symmetric] strict_sorted_iff)
  show "r \<in> set (rows_between db s a b) \<longleftrightarrow> r \<in> set (db_events db) \<and> er_stream r = s \<and> a < er_seq r \<and> er_seq r \<le> b"
    by (auto simp: rows_between_def)
qed

lemma current_last_eq:
  assumes "event_inv db" shows "current_last db s = stream_last db s"
proof (cases "cursor_of db s")
  case None
  then show ?thesis by (simp add: current_last_def stream_last_def Let_def)
next
  case (Some c)
  have "(case sql_max (stream_seqs db s) of Some n \<Rightarrow> n | None \<Rightarrow> 0) \<le> cr_last c"
  proof (cases "sql_max (stream_seqs db s)")
    case None
    then show ?thesis using assms cursor_of_SomeD [OF Some] by (auto simp: event_inv_def)
  next
    case (Some n)
    then show ?thesis
      using assms cursor_of_SomeD [OF \<open>cursor_of db s = Some c\<close>] sql_max_in [OF Some] by (auto simp: event_inv_def set_stream_seqs)
  qed
  then show ?thesis using Some by (simp add: current_last_def stream_last_def Let_def)
qed

section \<open>What a page says\<close>

definition page_seqs :: "event_page \<Rightarrow> int list" where
  "page_seqs page = map event_seq (pg_events page)"

text \<open>A page accounts for the numbers above \<open>start\<close> up to its next cursor.\<close>

definition accounts_for :: "(string \<Rightarrow> pyval option) \<Rightarrow> event_db \<Rightarrow> string \<Rightarrow> int \<Rightarrow> event_page \<Rightarrow> bool" where
  "accounts_for loads db s start page \<longleftrightarrow>
     sorted_wrt (<) (page_seqs page) \<and>
     set (page_seqs page) = er_seq ` {r \<in> set (db_events db). er_stream r = s \<and> start < er_seq r \<and> er_seq r \<le> pg_next page} \<and>
     gap_numbers (pg_gaps page) = {start<..pg_next page} - set (page_seqs page) \<and>
     start \<le> pg_next page \<and>
     (pg_more page \<longrightarrow> pg_events page \<noteq> [] \<and> start < pg_next page) \<and>
     (\<not> pg_more page \<longrightarrow> pg_next page = max start (pg_last page)) \<and>
     (\<forall>e \<in> set (pg_events page). \<exists>r \<in> set (db_events db). event_from_row loads r = Inr e)"

lemma event_row_seqs:
  "list_all2 (\<lambda>r e. event_from_row loads r = Inr e) rows events \<Longrightarrow> map event_seq events = map er_seq rows"
  by (induction rule: list_all2_induct) (auto simp: event_seq_def dest: event_from_row_seq)

lemma read_page_ok:
  assumes inv: "event_inv db" and limit: "1 \<le> limit" and page: "read_page loads db s after limit through = Inr page"
  shows "accounts_for loads db s (effective_after db s after) page" "pg_success page"
    "pg_last page = (case through of None \<Rightarrow> stream_last db s | Some n \<Rightarrow> min (stream_last db s) n)"
    "pg_reset page \<longleftrightarrow> stream_last db s < after" "pg_first page = sql_min (stream_seqs db s)"
    "int (length (pg_events page)) \<le> limit"
    "\<exists>t. pg_gaps page = fst (seq_gaps (effective_after db s after + 1) (page_seqs page)) @
        (if t then [(snd (seq_gaps (effective_after db s after + 1) (page_seqs page)), pg_next page)] else []) \<and>
      (if t then snd (seq_gaps (effective_after db s after + 1) (page_seqs page)) \<le> pg_next page
       else pg_next page = snd (seq_gaps (effective_after db s after + 1) (page_seqs page)) - 1)"
    "pg_next page \<le> max (effective_after db s after) (pg_last page)"
proof -
  define start where "start = effective_after db s after"
  define high where "high = (case through of None \<Rightarrow> current_last db s | Some n \<Rightarrow> min (current_last db s) n)"
  define all where "all = rows_between db s start high"
  define shown where "shown = take (nat limit) all"
  define more where "more = (nat limit < length (take (Suc (nat limit)) all))"
  have take2: "take (nat limit) (take (Suc (nat limit)) all) = shown" by (simp add: shown_def min_def)
  obtain events where ev: "list_all2 (\<lambda>r e. event_from_row loads r = Inr e) shown events"
    using page unfolding read_page_def Let_def start_def [symmetric] high_def [symmetric] all_def [symmetric] take2
    by (auto simp: map_res_Inr)
  obtain gaps expected where g: "seq_gaps (start + 1) (map event_seq events) = (gaps, expected)"
    by (cases "seq_gaps (start + 1) (map event_seq events)")
  define trailing where "trailing = (\<not> more \<and> expected \<le> high)"
  define last_shown where "last_shown = (if events = [] then start else event_seq (last events))"
  have page_eq: "page = \<lparr>pg_success = True, pg_events = events, pg_next = (if trailing then high else last_shown),
      pg_first = sql_min (stream_seqs db s), pg_last = high, pg_more = more,
      pg_gaps = (if trailing then gaps @ [(expected, high)] else gaps),
      pg_reset = (current_last db s < after), pg_error = None\<rparr>" (is "page = ?R")
  proof -
    have "map_res (event_from_row loads) shown = Inr events" using ev by (simp add: map_res_Inr)
    then have R: "read_page loads db s after limit through = Inr ?R" using g
      unfolding read_page_def Let_def start_def [symmetric] high_def [symmetric] all_def [symmetric] take2 more_def [symmetric]
      by (simp add: trailing_def last_shown_def)
    from trans [OF sym [OF page] R] show ?thesis by (simp only: sum.inject)
  qed
  have more_iff: "more \<longleftrightarrow> length shown < length all"
    by (auto simp: more_def shown_def min_def)
  have seqs: "map event_seq events = map er_seq shown" by (rule event_row_seqs [OF ev])
  have sorted_all: "sorted_wrt (<) (map er_seq all)"
    and mem: "\<And>r. r \<in> set all \<longleftrightarrow> r \<in> set (db_events db) \<and> er_stream r = s \<and> start < er_seq r \<and> er_seq r \<le> high"
    using rows_between_seqs [OF inv] by (auto simp: all_def)
  have split: "all = shown @ drop (nat limit) all" by (simp add: shown_def)
  have sorted: "sorted_wrt (<) (map er_seq shown)" using sorted_all by (subst (asm) split) (simp add: sorted_wrt_append)
  have later: "er_seq r < er_seq r'" if "r \<in> set shown" "r' \<in> set (drop (nat limit) all)" for r r'
    using sorted_all that by (subst (asm) split) (auto simp: sorted_wrt_append)
  have shown_mem: "r \<in> set all" if "r \<in> set shown" for r using that split by (metis in_set_conv_decomp append_assoc Un_iff set_append)
  have low: "\<forall>n \<in> set (map event_seq events). start + 1 \<le> n" 
    unfolding seqs set_map ball_simps using shown_mem mem by (metis add1_zle_eq)
  note gaps_ok = seq_gaps_ok [OF sorted [folded seqs] low, unfolded g fst_conv snd_conv]
  have lasts: "last_shown = expected - 1" using gaps_ok(1) by (auto simp: last_shown_def last_map)
  have below: "\<forall>r \<in> set shown. er_seq r \<le> last_shown" 
    using gaps_ok(4) lasts unfolding seqs set_map ball_simps by auto
  have next_ge: "start \<le> last_shown" using gaps_ok(3) lasts by simp
  have events_rows: "\<exists>r \<in> set (db_events db). event_from_row loads r = Inr e" if e_in: "e \<in> set events" for e
  proof -
    obtain i where i: "i < length events" "events ! i = e" using e_in by (auto simp: in_set_conv_nth)
    then have "shown ! i \<in> set shown" "event_from_row loads (shown ! i) = Inr e" using ev by (auto simp: list_all2_conv_all_nth)
    then show ?thesis using shown_mem mem by blast
  qed
  have last_row: "last_shown = er_seq (last shown) \<and> last shown \<in> set all" if ne: "shown \<noteq> []"
  proof -
    have "events \<noteq> []" using ne seqs by auto
    then have "last_shown = last (map event_seq events)" by (simp add: last_shown_def last_map)
    also have "\<dots> = er_seq (last shown)" unfolding seqs using ne by (simp add: last_map)
    finally show ?thesis using shown_mem last_in_set [OF ne] by blast
  qed
  have "accounts_for loads db s start page"
  proof (cases more)
    case True
    then have ne: "shown \<noteq> []" using limit more_iff by (auto simp: shown_def)
    have nx: "pg_next page = last_shown" using True by (simp add: page_eq trailing_def)
    have in_shown: "r \<in> set shown" if "r \<in> set all" "er_seq r \<le> last_shown" for r
    proof (rule ccontr)
      assume "r \<notin> set shown"
      then have "r \<in> set (drop (nat limit) all)" using that(1) split by (metis Un_iff set_append)
      moreover have "last shown \<in> set shown" using ne by simp
      ultimately have "er_seq (last shown) < er_seq r" using later by blast
      then show False using that(2) last_row [OF ne] by simp
    qed
    have high_ge: "last_shown \<le> high" using last_row [OF ne] mem by simp
    have set_eq: "set (map event_seq events) = er_seq ` {r \<in> set (db_events db). er_stream r = s \<and> start < er_seq r \<and> er_seq r \<le> last_shown}"
      unfolding seqs set_map
    proof (rule arg_cong [where f = "\<lambda>A. er_seq ` A"], rule set_eqI)
      fix r
      have "r \<in> set shown \<longleftrightarrow> r \<in> set all \<and> er_seq r \<le> last_shown" using in_shown [of r] shown_mem [of r] below by blast
      then show "r \<in> set shown \<longleftrightarrow> r \<in> {r \<in> set (db_events db). er_stream r = s \<and> start < er_seq r \<and> er_seq r \<le> last_shown}"
        using mem [of r] high_ge by auto
    qed
    have "events \<noteq> []" using ne seqs by auto
    moreover have "start < last_shown" using last_row [OF ne] mem by simp
    moreover have "{start + 1..<expected} = {start<..last_shown}" using lasts by auto
    ultimately show ?thesis
      using gaps_ok(2) set_eq sorted seqs next_ge nx events_rows True
      by (simp add: accounts_for_def page_seqs_def page_eq trailing_def)
  next
    case False
    then have shown_all: "shown = all" using more_iff by (simp add: shown_def)
    define nx where "nx = (if expected \<le> high then high else last_shown)"
    have nx_eq: "pg_next page = nx" using False by (simp add: page_eq trailing_def nx_def)
    have last_high: "events \<noteq> [] \<Longrightarrow> last_shown \<le> high"
    proof -
      assume "events \<noteq> []"
      then have ne: "shown \<noteq> []" using seqs by auto
      show "last_shown \<le> high" using last_row [OF ne] mem by simp
    qed
    have nx_max: "nx = max start high"
    proof (cases "events = []")
      case True
      then show ?thesis using lasts by (auto simp: nx_def last_shown_def)
    next
      case False
      then show ?thesis using last_high lasts next_ge by (auto simp: nx_def)
    qed
    have set_eq: "set (map event_seq events) = er_seq ` {r \<in> set (db_events db). er_stream r = s \<and> start < er_seq r \<and> er_seq r \<le> nx}"
      unfolding seqs set_map shown_all
    proof (rule arg_cong [where f = "\<lambda>A. er_seq ` A"], rule set_eqI)
      fix r show "r \<in> set all \<longleftrightarrow> r \<in> {r \<in> set (db_events db). er_stream r = s \<and> start < er_seq r \<and> er_seq r \<le> nx}"
        using mem [of r] nx_max by auto
    qed
    have gap_eq: "gap_numbers (pg_gaps page) = {start<..nx} - set (map event_seq events)"
    proof (cases "expected \<le> high")
      case True
      then have "gap_numbers (pg_gaps page) = ({start + 1..<expected} - set (map event_seq events)) \<union> {expected..high}"
        using False gaps_ok(2) by (simp add: page_eq trailing_def)
      also have "\<dots> = {start<..high} - set (map event_seq events)"
        using True gaps_ok(3,4) by fastforce
      finally show ?thesis using True by (simp add: nx_def)
    next
      case False
      have "{start + 1..<expected} = {start<..last_shown}" using lasts by auto
      then show ?thesis using False gaps_ok(2) by (simp add: page_eq trailing_def nx_def)
    qed
    show ?thesis
      using gap_eq set_eq sorted seqs nx_max nx_eq events_rows False
      by (simp add: accounts_for_def page_seqs_def page_eq)
  qed
  then show "accounts_for loads db s (effective_after db s after) page" by (simp add: start_def)
  show "pg_success page" "pg_first page = sql_min (stream_seqs db s)" by (simp_all add: page_eq)
  show "pg_last page = (case through of None \<Rightarrow> stream_last db s | Some n \<Rightarrow> min (stream_last db s) n)"
    unfolding current_last_eq [OF inv, symmetric] by (simp add: page_eq high_def)
  show "pg_reset page \<longleftrightarrow> stream_last db s < after" by (simp add: page_eq current_last_eq [OF inv])
  have "length events \<le> nat limit" using list_all2_lengthD [OF ev] by (simp add: shown_def)
  then show "int (length (pg_events page)) \<le> limit" using limit by (simp add: page_eq)
  show "\<exists>t. pg_gaps page = fst (seq_gaps (effective_after db s after + 1) (page_seqs page)) @
        (if t then [(snd (seq_gaps (effective_after db s after + 1) (page_seqs page)), pg_next page)] else []) \<and>
      (if t then snd (seq_gaps (effective_after db s after + 1) (page_seqs page)) \<le> pg_next page
       else pg_next page = snd (seq_gaps (effective_after db s after + 1) (page_seqs page)) - 1)"
    using g lasts by (intro exI [of _ trailing]) (simp add: start_def [symmetric] page_eq page_seqs_def trailing_def)
  have "last_shown \<le> max start high"
  proof (cases "shown = []")
    case True
    then have "events = []" using seqs by simp
    then show ?thesis by (simp add: last_shown_def)
  next
    case False
    then show ?thesis using last_row [OF False] mem by simp
  qed
  then show "pg_next page \<le> max (effective_after db s after) (pg_last page)"
    by (auto simp: start_def [symmetric] page_eq)
qed

text \<open>What \<open>event_page\<close> asks of the tables, when it reaches them.\<close>

lemma event_page_read:
  assumes "pg_success (event_page loads st s after_seq limit through_seq)" "es_exists st"
  obtains after lim through where "0 \<le> after" "1 \<le> lim" "lim \<le> 10000"
    "read_page loads (es_db (ensure_schema st)) s after lim through = Inr (event_page loads st s after_seq limit through_seq)"
    "\<And>a. after_seq = PInt a \<Longrightarrow> after = max 0 a" "through_seq = PNone \<Longrightarrow> through = None"
    "\<And>n. through_seq = PInt n \<Longrightarrow> through = Some (max 0 n)" "\<And>n. limit = PInt n \<Longrightarrow> lim = max 1 (min n 10000)"
proof (cases "py_int after_seq")
  case (Inl err)
  then show thesis using assms(1) by (simp add: event_page_def page_error_def)
next
  case (Inr a)
  note a = Inr
  show thesis
  proof (cases "py_int limit")
    case (Inl err)
    then show thesis using a assms(1) by (simp add: event_page_def page_error_def)
  next
    case (Inr l)
    note l = Inr
    define thr where "thr = (if through_seq = PNone then Inr None else map_sum id (\<lambda>n. Some (max 0 n)) (py_int through_seq))"
    show thesis
    proof (cases thr)
      case (Inl err)
      then show thesis using a l assms(1) by (simp add: event_page_def page_error_def thr_def [symmetric])
    next
      case (Inr through)
      have en: "es_enabled st"
        using assms(1) a l Inr by (auto simp: event_page_def page_disabled_def thr_def [symmetric] Let_def split: if_splits)
      have page: "event_page loads st s after_seq limit through_seq =
          (case read_page loads (es_db (ensure_schema st)) s (max 0 a) (max 1 (min l 10000)) through of
             Inl _ \<Rightarrow> page_error (max 0 a) | Inr page \<Rightarrow> page)"
        using en assms(2) a l Inr by (simp add: event_page_def thr_def [symmetric] Let_def)
      show thesis
      proof (rule that [of "max 0 a" "max 1 (min l 10000)" through])
        show "read_page loads (es_db (ensure_schema st)) s (max 0 a) (max 1 (min l 10000)) through =
            Inr (event_page loads st s after_seq limit through_seq)"
          using assms(1) unfolding page by (auto simp: page_error_def split: sum.splits)
      qed (use a l Inr in \<open>auto simp: thr_def py_int_def\<close>)
    qed
  qed
qed

lemma map_res_length: "map_res f xs = Inr ys \<Longrightarrow> length ys = length xs"
  by (simp add: map_res_Inr list_all2_lengthD)

lemma read_page_events:
  assumes "read_page loads db s after lmt through = Inr page"
  shows "\<exists>rows. map_res (event_from_row loads) (take (nat lmt) rows) = Inr (pg_events page) \<and> (pg_more page \<longleftrightarrow> nat lmt < length rows) \<and> pg_success page"
proof -
  define rows where "rows = take (Suc (nat lmt)) (rows_between db s (effective_after db s after)
      (case through of None \<Rightarrow> current_last db s | Some n \<Rightarrow> min (current_last db s) n))"
  obtain events where ev: "map_res (event_from_row loads) (take (nat lmt) rows) = Inr events"
    using assms unfolding read_page_def Let_def rows_def [symmetric] by auto
  obtain gaps expected where g: "seq_gaps (effective_after db s after + 1) (map event_seq events) = (gaps, expected)"
    by (cases "seq_gaps (effective_after db s after + 1) (map event_seq events)")
  have "pg_events page = events \<and> pg_success page \<and> (pg_more page \<longleftrightarrow> nat lmt < length rows)"
    using assms ev g unfolding read_page_def Let_def rows_def [symmetric] by auto
  then show ?thesis using ev by blast
qed

lemma event_page_shapes:
  obtains "event_page loads st s after_seq limit through_seq \<in> range page_error \<union> range page_disabled \<union> range page_absent"
  | db after lmt through where "1 \<le> lmt" "read_page loads db s after lmt through = Inr (event_page loads st s after_seq limit through_seq)"
proof -
  define page where "page = event_page loads st s after_seq limit through_seq"
  define thr where "thr = (if through_seq = PNone then Inr None else map_sum id (\<lambda>n. Some (max 0 n)) (py_int through_seq))"
  have "page \<in> range page_error \<union> range page_disabled \<union> range page_absent \<or>
      (\<exists>db after lmt through. 1 \<le> lmt \<and> read_page loads db s after lmt through = Inr page)"
  proof (cases "\<exists>a l t. py_int after_seq = Inr a \<and> py_int limit = Inr l \<and> thr = Inr t \<and> es_enabled st \<and> es_exists st")
    case True
    then obtain a l t where h: "py_int after_seq = Inr a" "py_int limit = Inr l" "thr = Inr t" "es_enabled st" "es_exists st" by blast
    show ?thesis
    proof (cases "read_page loads (es_db (ensure_schema st)) s (max 0 a) (max 1 (min l 10000)) t")
      case (Inl err)
      then have "page = page_error (max 0 a)" using h by (simp add: page_def event_page_def thr_def [symmetric] Let_def)
      then show ?thesis by simp
    next
      case (Inr p)
      then have "page = p" using h by (simp add: page_def event_page_def thr_def [symmetric] Let_def)
      moreover have "1 \<le> max 1 (min l 10000)" by simp
      ultimately show ?thesis using Inr by blast
    qed
  next
    case False
    note unfold = page_def event_page_def thr_def [symmetric] Let_def
    have "\<exists>n. page = page_error n \<or> page = page_disabled n \<or> page = page_absent n"
    proof (cases "py_int after_seq")
      case (Inl err)
      then have "page = page_error 0" by (simp add: unfold)
      then show ?thesis by blast
    next
      case a: (Inr a)
      show ?thesis
      proof (cases "py_int limit")
        case (Inl err)
        then have "page = page_error (max 0 a)" by (simp add: unfold a)
        then show ?thesis by blast
      next
        case l: (Inr l)
        show ?thesis
        proof (cases thr)
          case (Inl err)
          then have "page = page_error (max 0 a)" by (simp add: unfold a l)
          then show ?thesis by blast
        next
          case t: (Inr t)
          have "\<not> es_enabled st \<or> \<not> es_exists st" using False a l t by blast
          then have "page = page_disabled (max 0 a) \<or> page = page_absent (max 0 a)"
            by (cases "es_enabled st") (simp_all add: unfold a l t)
          then show ?thesis by blast
        qed
      qed
    qed
    then show ?thesis by blast
  qed
  then show thesis using that unfolding page_def by blast
qed

lemma event_page_more:
  assumes "pg_more (event_page loads st s after_seq limit through_seq)"
  shows "pg_events (event_page loads st s after_seq limit through_seq) \<noteq> []"
proof -
  have read: "pg_events page \<noteq> []" if rp: "read_page loads db s after lmt through = Inr page" and mo: "pg_more page" and one: "1 \<le> lmt" for db after lmt through page
  proof -
    obtain rows where "map_res (event_from_row loads) (take (nat lmt) rows) = Inr (pg_events page)" "nat lmt < length rows"
      using read_page_events [OF rp] mo by blast
    then show ?thesis using one by (auto dest!: map_res_length)
  qed
  have no_more: "\<not> pg_more (page_error n)" "\<not> pg_more (page_disabled n)" "\<not> pg_more (page_absent n)" for n
    by (simp_all add: page_error_def page_disabled_def page_absent_def)
  show ?thesis
  proof (cases rule: event_page_shapes [of loads st s after_seq limit through_seq])
    case 1
    then show ?thesis using assms no_more by auto
  next
    case (2 db after lmt through)
    then show ?thesis using read assms by blast
  qed
qed

text \<open>
  C13. A successful page accounts for its whole range.  The events it returns are the stored events of the
  stream above the cursor it started from up to its next cursor, in order, and its gap ranges are
  exactly the other numbers of that range; with nothing more to read the next cursor is the end of the
  range asked for, and otherwise it has moved on.
\<close>

theorem page_accounts_for_range:
  assumes "event_inv (es_db st)" "es_exists st" "pg_success (event_page loads st s (PInt a) limit through_seq)"
  shows "accounts_for loads (es_db (ensure_schema st)) s (effective_after (es_db (ensure_schema st)) s (max 0 a))
      (event_page loads st s (PInt a) limit through_seq)"
proof (rule event_page_read [OF assms(3,2)])
  fix after lim through
  assume h: "1 \<le> lim" "\<And>b. PInt a = PInt b \<Longrightarrow> after = max 0 b"
    "read_page loads (es_db (ensure_schema st)) s after lim through = Inr (event_page loads st s (PInt a) limit through_seq)"
  have inv: "event_inv (es_db (ensure_schema st))"
    using setup_cursors_ok(1) [OF assms(1)] assms(1) by (auto simp: ensure_schema_def)
  show ?thesis using read_page_ok(1) [OF inv h(1,3)] h(2) [OF refl] by simp
qed

section \<open>A page of the sample store\<close>

definition sample_read :: "int \<Rightarrow> agent_event" where
  "sample_read n =
     \<lparr>ae_id = ''evt'', ae_stream = ''task'', ae_kind = ''step'', ae_payload = [],
      ae_key = (if n = 1 then ''k1'' else ''k3''), ae_correlation = [], ae_actor = ''agent'',
      ae_created = (if n = 1 then 0 else 10), ae_seq = Some n\<rparr>"

lemma sample_from_row:
  "event_from_row sample_loads (sample_row 1 0) = Inr (sample_read 1)" "event_from_row sample_loads (sample_row 3 10) = Inr (sample_read 3)"
proof -
  have v: "valid_event (sample_read 1)" "valid_event (sample_read 3)"
    by (simp_all add: valid_event_def sample_read_def identity_ok_def strip_prefix is_space_def)
  show "event_from_row sample_loads (sample_row 1 0) = Inr (sample_read 1)"
    using make_event_fields [OF v(1)] by (simp add: event_from_row_def sample_loads_def sample_row_def sample_read_def)
  show "event_from_row sample_loads (sample_row 3 10) = Inr (sample_read 3)"
    using make_event_fields [OF v(2)] by (simp add: event_from_row_def sample_loads_def sample_row_def sample_read_def)
qed

lemma sample_last: "current_last sample_db ''task'' = 3" "stream_last sample_db ''task'' = 3"
  by (simp_all add: current_last_def cursor_of_def sample_db_def stream_seqs_def sample_row_def stream_last_def sql_max_def)

lemma sample_page:
  "event_page sample_loads sample_store ''task'' (PInt 0) (PInt 100) PNone =
     \<lparr>pg_success = True, pg_events = [sample_read 1, sample_read 3], pg_next = 3, pg_first = Some 1, pg_last = 3,
      pg_more = False, pg_gaps = [(2, 2)], pg_reset = False, pg_error = None\<rparr>"
proof -
  have min1: "sql_min (stream_seqs sample_db ''task'') = Some 1"
    by (simp add: sql_min_def stream_seqs_def sample_db_def sample_row_def)
  have rows: "rows_between sample_db ''task'' 0 3 = [sample_row 1 0, sample_row 3 10]"
    by (simp add: rows_between_def sample_db_def sample_row_def insort_key.simps)
  have seqs: "event_seq (sample_read 1) = 1" "event_seq (sample_read 3) = 3" by (simp_all add: event_seq_def sample_read_def)
  show ?thesis
    by (simp add: event_page_def py_int_def sample_ok read_page_def Let_def effective_after_def sample_last rows min1 sample_from_row seqs)
qed

theorem page_accounts_for_range_witness:
  "accounts_for sample_loads sample_db ''task'' 0 (event_page sample_loads sample_store ''task'' (PInt 0) (PInt 100) PNone) \<and>
   pg_gaps (event_page sample_loads sample_store ''task'' (PInt 0) (PInt 100) PNone) = [(2, 2)]"
proof -
  have ok: "event_inv (es_db sample_store)" "pg_success (event_page sample_loads sample_store ''task'' (PInt 0) (PInt 100) PNone)"
    by (simp_all add: sample_ok sample_page)
  have "effective_after sample_db ''task'' (max 0 0) = 0" by (simp add: effective_after_def sample_last)
  then show ?thesis using page_accounts_for_range [OF ok(1) sample_ok(3) ok(2)] by (simp add: sample_ok sample_page)
qed

end
