(* ===== verification/Event_Replay.thy ===== *)
theory Event_Replay
  imports Event_Paging
begin

text \<open>
  The replay of stored events at the start of an event stream (\<open>Handler._stream_agent_events\<close> of
  \<open>http_server.py\<close>): pages are read from the store one after another and written as server-sent
  events, gaps included, up to the stream's last sequence number when the replay began.  The store
  may change between two pages: \<open>stores i\<close> is the store the \<open>i\<close>-th page is read from.  The client stays
  connected; a client that leaves sees a prefix of the messages.

  A client resumes with a plain number or with a cursor that names its stream (\<open>prefixed\<close>).
\<close>

section \<open>Messages\<close>

datatype sse =
    Sse_Event agent_event
  | Sse_Gap string int int
  | Sse_Page event_page "int option"
  | Sse_Reset int int int "(int \<times> int) option"
  | Sse_Retention "(int \<times> int) list" int
  | Sse_Limit int
  | Sse_Error event_page

definition page_max_limit :: int where "page_max_limit = 100"
definition sse_replay_max :: int where "sse_replay_max = 10000"

record replay =
  ry_cursor :: int
  ry_through :: "int option"
  ry_count :: int
  ry_reported :: "(int \<times> int) list"
  ry_last :: int
  ry_delivered :: int
  ry_noted :: "int option"
  ry_out :: "sse list"

definition start_replay :: "int \<Rightarrow> replay" where
  "start_replay after =
     \<lparr>ry_cursor = after, ry_through = None, ry_count = 0, ry_reported = [], ry_last = after, ry_delivered = after,
      ry_noted = None, ry_out = []\<rparr>"

text \<open>\<open>write_sse\<close>, with or without a sequence number.\<close>

definition write_sse :: "sse \<Rightarrow> int option \<Rightarrow> replay \<Rightarrow> replay" where
  "write_sse m seq r = r\<lparr>ry_out := ry_out r @ [m], ry_delivered := (case seq of None \<Rightarrow> ry_delivered r | Some n \<Rightarrow> n)\<rparr>"

definition note_seq :: "int \<Rightarrow> int \<Rightarrow> replay \<Rightarrow> replay" where
  "note_seq after n r = r\<lparr>ry_noted := Some (max (case ry_noted r of None \<Rightarrow> after | Some m \<Rightarrow> m) n)\<rparr>"

text \<open>What a page contributes, in order of sequence numbers.\<close>

datatype replay_entry = Entry_Gap int int | Entry_Event agent_event

fun entry_seq :: "replay_entry \<Rightarrow> int" where
  "entry_seq (Entry_Gap a b) = b"
| "entry_seq (Entry_Event e) = event_seq e"

definition gap_entries :: "int \<Rightarrow> int \<Rightarrow> (int \<times> int) list \<Rightarrow> (int \<times> int) list \<Rightarrow> replay_entry list" where
  "gap_entries last_seq page_cursor reported gaps =
     concat (map (\<lambda>g.
       let a = max (fst g) (last_seq + 1); b = min (snd g) page_cursor in
       if a < 0 \<or> b < a \<or> (a, b) \<in> set reported then [] else [Entry_Gap a b]) gaps)"

definition event_entries :: "int \<Rightarrow> agent_event list \<Rightarrow> replay_entry list" where
  "event_entries last_seq events = map Entry_Event (filter (\<lambda>e. last_seq < event_seq e) events)"

definition write_entry :: "bool \<Rightarrow> string \<Rightarrow> int \<Rightarrow> replay_entry \<Rightarrow> replay \<Rightarrow> replay" where
  "write_entry prefixed kind after entry r =
     (if entry_seq entry \<le> ry_last r then r
      else
        (let written =
               (case entry of
                  Entry_Gap a b \<Rightarrow>
                    (write_sse (Sse_Gap (if prefixed then ''retention_gap'' else ''stream.gap'') a b) (Some b) r)
                      \<lparr>ry_reported := (a, b) # ry_reported r\<rparr>
                | Entry_Event e \<Rightarrow>
                    if kind = [] \<or> ae_kind e = kind then write_sse (Sse_Event e) (Some (event_seq e)) r else r)
         in note_seq after (entry_seq entry) (written\<lparr>ry_last := entry_seq entry\<rparr>)))"

text \<open>The cursor lies beyond the stream: the stream restarts at a checkpoint.\<close>

definition reset_needed :: "bool \<Rightarrow> event_page \<Rightarrow> replay \<Rightarrow> int \<Rightarrow> bool" where
  "reset_needed prefixed page r through \<longleftrightarrow> through < ry_cursor r \<or> (pg_reset page \<and> prefixed)"

definition first_of :: "event_page \<Rightarrow> int" where
  "first_of page = max 0 (case pg_first page of None \<Rightarrow> 0 | Some n \<Rightarrow> n)"

definition checkpoint_of :: "bool \<Rightarrow> event_page \<Rightarrow> int \<Rightarrow> int" where
  "checkpoint_of prefixed page through =
     (if prefixed then pg_next page else min (max 0 (first_of page - 1)) through)"

definition write_reset :: "bool \<Rightarrow> event_page \<Rightarrow> int \<Rightarrow> replay \<Rightarrow> replay" where
  "write_reset prefixed page through r =
     (let checkpoint = checkpoint_of prefixed page through;
          missing = (if 1 < first_of page then Some (1, min (first_of page - 1) through) else None);
          r' = write_sse (Sse_Reset (ry_cursor r) through checkpoint missing) (Some checkpoint) r
      in r'\<lparr>ry_cursor := checkpoint, ry_last := checkpoint, ry_noted := Some checkpoint\<rparr>)"

text \<open>After the entries: the page itself, the replay limit, and whether to read on.\<close>

definition finish_page :: "event_page \<Rightarrow> replay \<Rightarrow> replay \<times> bool" where
  "finish_page page r =
     (let r1 = write_sse (Sse_Page page (if ry_delivered r < pg_next page then Some (pg_next page) else None))
                 (if ry_delivered r < pg_next page then Some (pg_next page) else None) r;
          r2 = r1\<lparr>ry_count := ry_count r1 + int (length (pg_events page))\<rparr>
      in if sse_replay_max \<le> ry_count r2 then
           ((if pg_more page then r2\<lparr>ry_out := ry_out r2 @ [Sse_Limit (ry_last r2)]\<rparr> else r2), False)
         else if \<not> pg_more page \<or> pg_next page \<le> ry_cursor r2 then (r2, False)
         else (r2\<lparr>ry_cursor := pg_next page\<rparr>, True))"

definition replay_body :: "bool \<Rightarrow> string \<Rightarrow> int \<Rightarrow> event_page \<Rightarrow> replay \<Rightarrow> replay \<times> bool" where
  "replay_body prefixed kind after page r =
     (if prefixed \<and> pg_gaps page \<noteq> [] \<and> pg_events page = [] then
        (let r' = note_seq after (pg_next page)
                    ((write_sse (Sse_Retention (pg_gaps page) (pg_next page)) (Some (pg_next page)) r)\<lparr>ry_last := pg_next page\<rparr>)
         in (r'\<lparr>ry_delivered := pg_next page\<rparr>, False))
      else
        (let gaps = gap_entries (ry_last r) (pg_next page) (ry_reported r) (pg_gaps page);
             r1 = (if pg_reset page \<and> \<not> prefixed then
                     r\<lparr>ry_last := max 0 ((case pg_first page of None \<Rightarrow> 0 | Some n \<Rightarrow> n) - 1)\<rparr> else r);
             entries = sort_key entry_seq (gaps @ event_entries (ry_last r1) (pg_events page))
         in finish_page page (fold (write_entry prefixed kind after) entries r1)))"

definition replay_page :: "bool \<Rightarrow> string \<Rightarrow> int \<Rightarrow> event_page \<Rightarrow> replay \<Rightarrow> replay \<times> bool" where
  "replay_page prefixed kind after page r =
     (if \<not> pg_success page then (write_sse (Sse_Error page) None r, False)
      else
        (case ry_through r of
           Some _ \<Rightarrow> replay_body prefixed kind after page r
         | None \<Rightarrow>
             (let through = max 0 (pg_last page);
                  r1 = r\<lparr>ry_through := Some through\<rparr>
              in if reset_needed prefixed page r1 through then
                   (let r2 = write_reset prefixed page through r1 in
                    if prefixed then
                      (if \<not> pg_more page \<and> pg_events page = [] then (r2, False)
                       else replay_body prefixed kind after page r2)
                    else (r2, True))
                 else replay_body prefixed kind after page r1)))"

text \<open>The loop.  \<open>fuel\<close> bounds the iterations; \<open>None\<close> is a loop that has not ended yet.\<close>

definition next_page :: "(string \<Rightarrow> pyval option) \<Rightarrow> string \<Rightarrow> event_store \<Rightarrow> replay \<Rightarrow> event_page" where
  "next_page loads s st r =
     event_page loads st s (PInt (ry_cursor r)) (PInt (min page_max_limit (sse_replay_max - ry_count r)))
       (case ry_through r of None \<Rightarrow> PNone | Some n \<Rightarrow> PInt n)"

fun replay_loop ::
  "(string \<Rightarrow> pyval option) \<Rightarrow> bool \<Rightarrow> string \<Rightarrow> string \<Rightarrow> int \<Rightarrow> (nat \<Rightarrow> event_store) \<Rightarrow> nat \<Rightarrow> replay \<Rightarrow> replay option" where
  "replay_loop loads prefixed s kind after stores 0 r = None"
| "replay_loop loads prefixed s kind after stores (Suc fuel) r =
     (if sse_replay_max \<le> ry_count r then Some r
      else
        (case replay_page prefixed kind after (next_page loads s (stores 0) r) r of
           (r', False) \<Rightarrow> Some r'
         | (r', True) \<Rightarrow> replay_loop loads prefixed s kind after (stores \<circ> Suc) fuel r'))"

section \<open>The loop ends\<close>

text \<open>What no entry of a page touches.\<close>

lemma write_entry_frame [simp]:
  "ry_count (write_entry p k a x r) = ry_count r" "ry_through (write_entry p k a x r) = ry_through r"
  "ry_cursor (write_entry p k a x r) = ry_cursor r"
  by (simp_all add: write_entry_def write_sse_def note_seq_def Let_def split: replay_entry.split)

lemma write_entries_frame [simp]:
  "ry_count (fold (write_entry p k a) xs r) = ry_count r" "ry_through (fold (write_entry p k a) xs r) = ry_through r"
  "ry_cursor (fold (write_entry p k a) xs r) = ry_cursor r"
  by (induction xs arbitrary: r) simp_all

lemma finish_page_goes_on:
  assumes "finish_page page r = (r', True)"
  shows "pg_more page" "ry_cursor r < pg_next page" "ry_count r' = ry_count r + int (length (pg_events page))"
    "ry_count r' < sse_replay_max" "ry_through r' = ry_through r" "ry_cursor r' = pg_next page"
  using assms by (auto simp: finish_page_def Let_def write_sse_def split: if_splits)

lemma replay_body_goes_on:
  assumes "replay_body p k a page r = (r', True)"
  shows "pg_more page" "ry_count r' = ry_count r + int (length (pg_events page))" "ry_count r' < sse_replay_max"
    "ry_through r' = ry_through r" "ry_cursor r' = pg_next page" "ry_cursor r < pg_next page"
proof -
  obtain xs r1 where f: "finish_page page (fold (write_entry p k a) xs r1) = (r', True)"
    "ry_count r1 = ry_count r" "ry_through r1 = ry_through r" "ry_cursor r1 = ry_cursor r"
    using assms by (auto simp: replay_body_def Let_def split: if_splits)
  show "pg_more page" "ry_count r' = ry_count r + int (length (pg_events page))" "ry_count r' < sse_replay_max"
    "ry_through r' = ry_through r" "ry_cursor r' = pg_next page" "ry_cursor r < pg_next page"
    using finish_page_goes_on [OF f(1)] f(2-4) by simp_all
qed

definition replay_left :: "replay \<Rightarrow> nat" where
  "replay_left r = nat (sse_replay_max - ry_count r) + (if ry_through r = None then 1 else 0)"

text \<open>Every iteration that goes on has replayed an event or fixed the end of the replay.\<close>

lemma page_branches:
  "(if a then (x, False) else if b then (if c then (if d then (y, False) else m) else (y, True)) else n) = (z, True) \<Longrightarrow>
     n = (z, True) \<or> m = (z, True) \<or> y = z"
  by (auto split: if_splits)

lemma replay_page_progress:
  assumes "replay_page p k a page r = (r', True)" "ry_count r < sse_replay_max" "pg_more page \<Longrightarrow> pg_events page \<noteq> []"
  shows "replay_left r' < replay_left r"
proof -
  have body: "replay_left r' < replay_left r"
    if b: "replay_body p k a page r1 = (r', True)" and c: "ry_count r1 = ry_count r" and t: "ry_through r1 \<noteq> None" for r1
  proof -
    have "0 < length (pg_events page)" using assms(3) replay_body_goes_on(1) [OF b] by auto
    then show ?thesis using replay_body_goes_on(2-4) [OF b] c t assms(2) by (auto simp: replay_left_def)
  qed
  show ?thesis
  proof (cases "ry_through r")
    case (Some n)
    then show ?thesis using assms(1) body [of r] by (auto simp: replay_page_def split: if_splits)
  next
    case None
    define r1 where "r1 = r\<lparr>ry_through := Some (max 0 (pg_last page))\<rparr>"
    define r2 where "r2 = write_reset p page (max 0 (pg_last page)) r1"
    have f: "ry_count r1 = ry_count r" "ry_through r1 \<noteq> None" "ry_count r2 = ry_count r" "ry_through r2 \<noteq> None"
      by (simp_all add: r1_def r2_def write_reset_def write_sse_def Let_def)
    consider "replay_body p k a page r1 = (r', True)" | "replay_body p k a page r2 = (r', True)" | "r' = r2"
    proof -
      have eq: "replay_page p k a page r =
          (if \<not> pg_success page then (write_sse (Sse_Error page) None r, False)
           else if reset_needed p page r1 (max 0 (pg_last page)) then
             (if p then (if \<not> pg_more page \<and> pg_events page = [] then (r2, False) else replay_body p k a page r2) else (r2, True))
           else replay_body p k a page r1)"
        unfolding replay_page_def None option.case Let_def r1_def r2_def by (rule refl)
      have "replay_body p k a page r1 = (r', True) \<or> replay_body p k a page r2 = (r', True) \<or> r2 = r'"
        by (rule page_branches [OF trans [OF sym [OF eq] assms(1)]])
      then show thesis using that by blast
    qed
    then show ?thesis
    proof cases
      case 1
      then show ?thesis by (rule body [OF _ f(1,2)])
    next
      case 2
      then show ?thesis by (rule body [OF _ f(3,4)])
    next
      case 3
      then show ?thesis using f None by (auto simp: replay_left_def)
    qed
  qed
qed

lemma replay_loop_ends:
  "replay_left r < fuel \<Longrightarrow> \<exists>r'. replay_loop loads p s k a stores fuel r = Some r'"
proof (induction fuel arbitrary: r stores)
  case (Suc fuel)
  show ?case
  proof (cases "sse_replay_max \<le> ry_count r")
    case False
    define page where "page = next_page loads s (stores 0) r"
    obtain r' go where step: "replay_page p k a page r = (r', go)" by (cases "replay_page p k a page r")
    have "replay_left r' < replay_left r" if go
      using replay_page_progress [of p k a page r r'] step that False event_page_more
      by (auto simp: page_def next_page_def)
    then have "replay_left r' < fuel" if go using Suc.prems that by simp
    then have "\<exists>r''. replay_loop loads p s k a (stores \<circ> Suc) fuel r' = Some r''" if go
      using Suc.IH that by blast
    then show ?thesis using False step by (cases go) (auto simp: page_def)
  qed simp
qed simp

text \<open>
  C12. The replay at the start of an event stream ends, whatever other processes do to the store between
  its pages (rows appended, rows swept, the file replaced by a shorter one): at most 10002 iterations
  happen.  Each one that goes on has fixed the end of the replay or replayed an event.
\<close>

theorem replay_terminates:
  "\<exists>r. replay_loop loads prefixed s kind after stores 10002 (start_replay after) = Some r"
  by (rule replay_loop_ends) (simp add: replay_left_def start_replay_def sse_replay_max_def)

end
