(* ===== verification/Event_Delivery.thy ===== *)
theory Event_Delivery
  imports Event_Replay Event_Sequences "HOL-Library.Multiset"
begin

text \<open>
  What the replay of an event stream delivers: a client that resumes after a plain sequence number is
  told about every later number of the stream exactly once and in order, as an event or inside a gap,
  up to the last number the stream had when the replay began; a kind filter leaves out the events of
  other kinds and nothing else.
\<close>

section \<open>The entries of a page, in order\<close>







section \<open>Writing a page\<close>

fun sse_numbers :: "sse \<Rightarrow> int list" where
  "sse_numbers (Sse_Event e) = [event_seq e]"
| "sse_numbers (Sse_Gap _ a b) = [a..b]"
| "sse_numbers _ = []"

abbreviation told :: "sse list \<Rightarrow> int list" where
  "told out \<equiv> concat (map sse_numbers out)"






section \<open>The whole replay\<close>












section \<open>With a kind filter\<close>













text \<open>
  A client whose cursor names the stream and lies ahead of it is told to resume after the end of the
  first page, and none of the events of that page is written to it one by one: only numbers before the
  first retained event are reported as missing.
\<close>

lemma prefixed_reset_skips:
  "map_option (\<lambda>r. (told (ry_out r), filter (\<lambda>m. case m of Sse_Reset _ _ _ _ \<Rightarrow> True | _ \<Rightarrow> False) (ry_out r)))
     (replay_loop sample_loads True ''task'' [] 9 (\<lambda>_. sample_store) 10002 (start_replay 9)) =
   Some ([], [Sse_Reset 9 3 3 None])"
proof -
  have min1: "sql_min (stream_seqs sample_db ''task'') = Some 1"
    by (simp add: sql_min_def stream_seqs_def sample_db_def sample_row_def)
  have rows: "rows_between sample_db ''task'' 0 3 = [sample_row 1 0, sample_row 3 10]"
    by (simp add: rows_between_def sample_db_def sample_row_def)
  have seqs: "event_seq (sample_read 1) = 1" "event_seq (sample_read 3) = 3" by (simp_all add: event_seq_def sample_read_def)
  have page: "event_page sample_loads sample_store ''task'' (PInt 9) (PInt 100) PNone =
     \<lparr>pg_success = True, pg_events = [sample_read 1, sample_read 3], pg_next = 3, pg_first = Some 1, pg_last = 3,
      pg_more = False, pg_gaps = [(2, 2)], pg_reset = True, pg_error = None\<rparr>"
    by (simp add: event_page_def py_int_def sample_ok read_page_def Let_def effective_after_def sample_last rows min1 sample_from_row seqs)
  have np: "next_page sample_loads ''task'' sample_store (start_replay 9) = event_page sample_loads sample_store ''task'' (PInt 9) (PInt 100) PNone"
    by (simp add: next_page_def start_replay_def page_max_limit_def sse_replay_max_def)
  have fuel: "(10002::nat) = Suc 10001" by simp
  show ?thesis
    unfolding fuel replay_loop.simps(2) np page
    by (simp add: start_replay_def sse_replay_max_def replay_page_def reset_needed_def write_reset_def checkpoint_of_def
        first_of_def write_sse_def replay_body_def gap_entries_def event_entries_def seqs finish_page_def Let_def)
qed

end
