(* ===== verification/Swarm_Dag.thy ===== *)
theory Swarm_Dag
  imports Plan_Cycles
begin

text \<open>
  The execution of a step graph (\<open>execute_swarm_dag\<close> of \<open>swarm.py\<close>): the checks before any step is
  started, the depth-first search for dependency cycles, the waves of steps whose dependencies have
  completed, and the classification of what did not run.

  What a callback or a command returns, what the clock shows and whether a cancellation is pending
  at each place that looks are an environment (\<open>dag_env\<close>); the threads of a wave complete in an order
  that is an argument (\<open>order\<close>).  The errors of the checks are values instead of texts.
\<close>

section \<open>Arguments\<close>

text \<open>
  The entries of a step's dict that are read: \<open>id\<close> (\<open>PNone\<close> if missing), \<open>depends_on\<close> (\<open>[]\<close> if missing),
  whether \<open>fn\<close> is present and then callable, \<open>command\<close> if present, and the truth value of \<open>required\<close>
  (true if missing).
\<close>

record dag_step =
  ds_id :: pyval
  ds_depends :: pyval
  ds_fn :: "bool option"
  ds_command :: "pyval option"
  ds_required :: bool

datatype step_value = Not_Dict | Step_Dict dag_step

text \<open>
  The keyword arguments: \<open>dc_cancel\<close> and \<open>dc_worktree\<close> are \<open>None\<close> when the argument is, otherwise they say
  whether it provides a callable \<open>is_set\<close>, is an existing directory; \<open>dc_broker\<close> says that the broker has a
  callable \<open>run\<close>, \<open>dc_fence\<close> that a fence is given.
\<close>

record dag_call =
  dc_max_workers :: pyval
  dc_overall :: pyval
  dc_command_timeout :: pyval
  dc_cancel :: "bool option"
  dc_broker :: bool
  dc_worktree :: "bool option"
  dc_task :: pyval
  dc_paths :: pyval
  dc_fence :: bool

datatype dag_error =
    Call_Error string
  | At_Index nat string
  | Of_Step string string
  | Duplicate_Step string
  | Unknown_Dependency string pyval
  | Cycle_At string

section \<open>Checks\<close>

definition strings_of :: "pyval list \<Rightarrow> string list" where
  "strings_of vs = concat (map (\<lambda>v. case v of PStr s \<Rightarrow> [s] | _ \<Rightarrow> []) vs)"

definition step_id_of :: "pyval \<Rightarrow> string option" where
  "step_id_of v = (case v of PStr s \<Rightarrow> if py_strip s = [] then None else Some s | _ \<Rightarrow> None)"

fun collect_steps ::
  "nat \<Rightarrow> step_value list \<Rightarrow> (string \<times> dag_step) list \<Rightarrow> dag_error list \<Rightarrow> (string \<times> dag_step) list \<times> dag_error list" where
  "collect_steps i [] steps errors = (steps, errors)"
| "collect_steps i (Not_Dict # vs) steps errors =
     collect_steps (Suc i) vs steps (errors @ [At_Index i ''must be a dictionary''])"
| "collect_steps i (Step_Dict s # vs) steps errors =
     (case step_id_of (ds_id s) of
        None \<Rightarrow> collect_steps (Suc i) vs steps (errors @ [At_Index i ''must have a non-empty string id''])
      | Some k \<Rightarrow>
          if k \<in> fst ` set steps then collect_steps (Suc i) vs steps (errors @ [Duplicate_Step k])
          else collect_steps (Suc i) vs (steps @ [(k, s)]) errors)"

definition dep_values :: "dag_step \<Rightarrow> pyval list" where
  "dep_values s = (case ds_depends s of PList vs \<Rightarrow> vs | _ \<Rightarrow> [])"

definition dep_error :: "string list \<Rightarrow> string \<Rightarrow> pyval \<Rightarrow> dag_error list" where
  "dep_error known k v =
     (case v of
        PStr d \<Rightarrow>
          if d \<notin> set known then [Unknown_Dependency k v]
          else if d = k then [Of_Step k ''self dependency is invalid''] else []
      | _ \<Rightarrow> [Unknown_Dependency k v])"

definition argv_ok :: "pyval \<Rightarrow> bool" where
  "argv_ok v =
     (case v of
        PList (PStr exe # args) \<Rightarrow>
          exe \<noteq> [] \<and> list_all (\<lambda>a. case a of PStr s \<Rightarrow> nul \<notin> set s | _ \<Rightarrow> False) (PStr exe # args)
      | _ \<Rightarrow> False)"

definition filled :: "pyval \<Rightarrow> bool" where
  "filled v = (case v of PStr s \<Rightarrow> py_strip s \<noteq> [] | _ \<Rightarrow> False)"

definition command_errors :: "dag_call \<Rightarrow> string \<Rightarrow> pyval \<Rightarrow> dag_error list" where
  "command_errors c k command =
     (if argv_ok command then [] else [Of_Step k ''command must be argv'']) @
     (if dc_broker c then [] else [Of_Step k ''command broker is required'']) @
     (case dc_worktree c of
        None \<Rightarrow> [Of_Step k ''worktree_path is required for commands'']
      | Some is_dir \<Rightarrow> if is_dir then [] else [Of_Step k ''worktree_path must be an existing directory'']) @
     (if filled (dc_task c) then [] else [Of_Step k ''explicit task_id is required for commands'']) @
     (case dc_paths c of
        PList ps \<Rightarrow> if ps \<noteq> [] \<and> list_all filled ps then [] else [Of_Step k ''explicit write paths are required'']
      | _ \<Rightarrow> [Of_Step k ''explicit write paths are required'']) @
     (if dc_fence c then [] else [Of_Step k ''explicit work_attempt_fence is required for commands'']) @
     (if dc_cancel c \<noteq> None then [] else [Of_Step k ''explicit request_cancel_event is required for commands''])"

definition action_errors :: "dag_call \<Rightarrow> string \<Rightarrow> dag_step \<Rightarrow> dag_error list" where
  "action_errors c k s =
     (case (ds_fn s, ds_command s) of
        (Some callable, None) \<Rightarrow> if callable then [] else [Of_Step k ''fn must be callable'']
      | (None, Some command) \<Rightarrow> command_errors c k command
      | _ \<Rightarrow> [Of_Step k ''provide exactly one callable fn or command''])"

definition step_errors :: "dag_call \<Rightarrow> string list \<Rightarrow> string \<Rightarrow> dag_step \<Rightarrow> dag_error list" where
  "step_errors c known k s =
     (case ds_depends s of PList _ \<Rightarrow> [] | _ \<Rightarrow> [Of_Step k ''depends_on must be a list'']) @
     (if length (remdups (strings_of (dep_values s))) = length (dep_values s) then []
      else [Of_Step k ''depends_on contains duplicates or invalid values'']) @
     concat (map (dep_error known k) (dep_values s)) @
     action_errors c k s"

definition int_between :: "int \<Rightarrow> int \<Rightarrow> pyval \<Rightarrow> bool" where
  "int_between lo hi v = (case v of PInt n \<Rightarrow> lo \<le> n \<and> n \<le> hi | _ \<Rightarrow> False)"

text \<open>The deadline: none, refused, or a number of seconds after the start.\<close>

definition overall_of :: "pyval \<Rightarrow> dag_error + real option" where
  "overall_of v =
     (let bad = Inl (Call_Error ''overall_timeout must be greater than 0 and at most 3600 seconds'') in
      case v of
        PNone \<Rightarrow> Inr None
      | PInt n \<Rightarrow> if 0 < n \<and> n \<le> 3600 then Inr (Some (of_int n)) else bad
      | PFloat (Fin r) \<Rightarrow> if 0 < r \<and> r \<le> 3600 then Inr (Some r) else bad
      | _ \<Rightarrow> bad)"

definition graph_of :: "(string \<times> dag_step) list \<Rightarrow> adjacency" where
  "graph_of steps = map (\<lambda>(k, s). (k, strings_of (dep_values s))) steps"

lemma succs_known: "d \<in> set (succs adj k) \<Longrightarrow> k \<in> fst ` set adj"
  by (metis succs_def empty_iff image_eqI fst_conv list.set(1) map_of_SomeD not_None_eq option.simps(4))

text \<open>
  \<open>visit\<close>: the steps on the current path are \<open>visiting\<close>, \<open>visited\<close> and the errors are threaded through.
  A cycle does not end the search.
\<close>

function visit :: "adjacency \<Rightarrow> string set \<Rightarrow> string \<Rightarrow> string list \<times> dag_error list \<Rightarrow> string list \<times> dag_error list" where
  "visit adj visiting k (visited, errors) =
     (if k \<in> visiting then (visited, errors @ [Cycle_At k])
      else if k \<in> set visited then (visited, errors)
      else (case fold (visit adj (insert k visiting)) (succs adj k) (visited, errors) of
              (visited', errors') \<Rightarrow> (visited' @ [k], errors')))"
  by pat_completeness auto

termination
proof (relation "measure (\<lambda>(adj, visiting, k, acc). card (fst ` set adj - visiting))", goal_cases)
  case (2 adj visiting k visited errors d acc)
  then have "k \<in> fst ` set adj" by (auto dest: succs_known)
  with 2 have "fst ` set adj - insert k visiting \<subset> fst ` set adj - visiting" by auto
  then show ?case by (auto intro: psubset_card_mono)
qed simp

declare visit.simps [simp del]

text \<open>\<open>dict.fromkeys(errors)\<close>: the first of equal errors stays.\<close>

definition first_distinct :: "'a list \<Rightarrow> 'a list" where
  "first_distinct xs = rev (remdups (rev xs))"

definition sorted_ids :: "(string \<times> 'a) list \<Rightarrow> string list" where
  "sorted_ids steps = sort (map fst steps)"

definition static_errors :: "dag_call \<Rightarrow> (string \<times> dag_step) list \<Rightarrow> dag_error list" where
  "static_errors c steps =
     concat (map (\<lambda>(k, s). step_errors c (map fst steps) k s) steps) @
     (if int_between 1 600 (dc_command_timeout c) then [] else [Call_Error ''command_timeout''])"

definition preflight :: "dag_call \<Rightarrow> step_value list \<Rightarrow> (string \<times> dag_step) list \<times> dag_error list" where
  "preflight c vs =
     (case collect_steps 0 vs [] [] of
        (steps, errors) \<Rightarrow>
          (let errors1 = errors @ static_errors c steps
           in (steps, if errors1 = [] then snd (fold (visit (graph_of steps) {}) (sorted_ids steps) ([], [])) else errors1)))"

section \<open>Running\<close>

text \<open>
  The environment.  Before the \<open>n\<close>-th wave and at the end the loop looks at the cancellation (\<open>None\<close>: looking
  raises) and at the clock; every started step does so once, and then calls its function or the broker
  with the timeout it computes; \<open>Inl\<close> is an exception.
\<close>

record dag_env =
  dv_start :: seconds
  dv_cancel :: "nat \<Rightarrow> bool option"
  dv_clock :: "nat \<Rightarrow> seconds"
  dv_step_cancel :: "string \<Rightarrow> bool option"
  dv_step_clock :: "string \<Rightarrow> seconds"
  dv_call :: "string \<Rightarrow> string + pyval"
  dv_broker :: "string \<Rightarrow> int \<Rightarrow> string + pyval"

definition cancel_requested :: "dag_call \<Rightarrow> bool option \<Rightarrow> bool" where
  "cancel_requested c look \<longleftrightarrow> dc_cancel c \<noteq> None \<and> look \<noteq> Some False"

definition past :: "real option \<Rightarrow> seconds \<Rightarrow> bool" where
  "past deadline now = (case deadline of None \<Rightarrow> False | Some d \<Rightarrow> d \<le> now)"

definition cancelled_result :: pyval where
  "cancelled_result = PDict [(''success'', PBool False), (''status'', PStr ''cancelled''), (''cancelled'', PBool True)]"

definition timed_out_result :: pyval where
  "timed_out_result = PDict [(''success'', PBool False), (''status'', PStr ''timed_out''), (''timed_out'', PBool True)]"

definition skipped_result :: "bool \<Rightarrow> pyval" where
  "skipped_result aborted =
     PDict [(''success'', PBool False), (''status'', PStr ''skipped''),
            (''error'', PStr (if aborted then ''aborted_after_required_failure'' else ''unmet_dependencies''))]"

definition has_true :: "string \<Rightarrow> pyval \<Rightarrow> bool" where
  "has_true key out = (case out of PDict d \<Rightarrow> dict_get d key = PBool True | _ \<Rightarrow> False)"

definition call_succeeded :: "pyval \<Rightarrow> bool" where
  "call_succeeded out =
     (case out of PDict d \<Rightarrow> get_default d ''success'' (PBool True) = PBool True | PBool b \<Rightarrow> b | _ \<Rightarrow> True)"

definition step_timeout :: "dag_call \<Rightarrow> real option \<Rightarrow> int" where
  "step_timeout c budget =
     (let t = (case dc_command_timeout c of PInt n \<Rightarrow> n | _ \<Rightarrow> 0) in
      case budget of None \<Rightarrow> t | Some b \<Rightarrow> min t \<lfloor>b\<rfloor>)"

definition run_single_step :: "dag_call \<Rightarrow> dag_env \<Rightarrow> real option \<Rightarrow> string \<Rightarrow> dag_step \<Rightarrow> bool \<times> pyval" where
  "run_single_step c env deadline k s =
     (let budget = map_option (\<lambda>d. d - dv_step_clock env k) deadline in
      if cancel_requested c (dv_step_cancel env k) then (False, cancelled_result)
      else if (case budget of None \<Rightarrow> False | Some b \<Rightarrow> b < 1) then (False, timed_out_result)
      else if ds_fn s = Some True then
        (case dv_call env k of
           Inl err \<Rightarrow> (False, PDict [(''error'', PStr err)])
         | Inr out \<Rightarrow> (call_succeeded out, out))
      else
        (case dv_broker env k (step_timeout c budget) of
           Inl err \<Rightarrow> (False, PDict [(''error'', PStr err)])
         | Inr out \<Rightarrow> (has_true ''success'' out, out)))"

text \<open>The locals of the loop.\<close>

record dag_run =
  dg_completed :: "string list"
  dg_failed :: "string list"
  dg_cancelled :: "string list"
  dg_timed_out :: "string list"
  dg_remaining :: "string list"
  dg_results :: "(string \<times> pyval) list"
  dg_aborted :: bool

definition start_dag :: "(string \<times> dag_step) list \<Rightarrow> dag_run" where
  "start_dag steps =
     \<lparr>dg_completed = [], dg_failed = [], dg_cancelled = [], dg_timed_out = [],
      dg_remaining = sorted_ids steps, dg_results = [], dg_aborted = False\<rparr>"

definition step_of :: "(string \<times> dag_step) list \<Rightarrow> string \<Rightarrow> dag_step" where
  "step_of steps k = the (map_of steps k)"

text \<open>One completed future.\<close>

definition settle_step :: "(string \<times> dag_step) list \<Rightarrow> (string \<Rightarrow> bool \<times> pyval) \<Rightarrow> string \<Rightarrow> dag_run \<Rightarrow> dag_run" where
  "settle_step steps outcome k g =
     (case outcome k of (success, out) \<Rightarrow>
        (let g1 = g\<lparr>dg_results := dict_set (dg_results g) k out, dg_remaining := remove1 k (dg_remaining g)\<rparr> in
         if has_true ''cancelled'' out then g1\<lparr>dg_cancelled := dg_cancelled g1 @ [k]\<rparr>
         else if has_true ''timed_out'' out then g1\<lparr>dg_timed_out := dg_timed_out g1 @ [k]\<rparr>
         else if success then g1\<lparr>dg_completed := dg_completed g1 @ [k]\<rparr>
         else g1\<lparr>dg_failed := dg_failed g1 @ [k],
                 dg_aborted := (dg_aborted g1 \<or> ds_required (step_of steps k))\<rparr>))"

definition ready_steps :: "adjacency \<Rightarrow> dag_run \<Rightarrow> string list" where
  "ready_steps adj g =
     filter (\<lambda>k. list_all (\<lambda>d. d \<in> set (dg_completed g)) (succs adj k)) (dg_remaining g)"

text \<open>
  The loop, with the number of the wave.  It stops on a cancellation, at the deadline, after a required
  step has failed, and when nothing is ready.
\<close>

definition wave :: "dag_call \<Rightarrow> dag_env \<Rightarrow> (nat \<Rightarrow> string \<Rightarrow> nat) \<Rightarrow> (string \<times> dag_step) list \<Rightarrow> real option \<Rightarrow> nat
    \<Rightarrow> dag_run \<Rightarrow> dag_run" where
  "wave c env order steps deadline n g =
     fold (settle_step steps (\<lambda>k. run_single_step c env deadline k (step_of steps k)))
       (sort_key (order n) (ready_steps (graph_of steps) g)) g"

definition wave_starts :: "dag_call \<Rightarrow> dag_env \<Rightarrow> (string \<times> dag_step) list \<Rightarrow> real option \<Rightarrow> nat \<Rightarrow> dag_run \<Rightarrow> bool" where
  "wave_starts c env steps deadline n g \<longleftrightarrow>
     dg_remaining g \<noteq> [] \<and> \<not> dg_aborted g \<and> \<not> cancel_requested c (dv_cancel env n) \<and>
     \<not> past deadline (dv_clock env n) \<and> ready_steps (graph_of steps) g \<noteq> []"

lemma settle_remaining [simp]: "dg_remaining (settle_step steps outcome k g) = remove1 k (dg_remaining g)"
  by (simp add: settle_step_def Let_def split: prod.splits)

lemma settle_all_remaining [simp]:
  "dg_remaining (fold (settle_step steps outcome) ks g) = fold remove1 ks (dg_remaining g)"
  by (induction ks arbitrary: g) simp_all

lemma length_remove1_le: "length (remove1 k xs) \<le> length xs"
  by (simp add: length_remove1)

lemma length_remove_all: "length (fold remove1 ks xs) \<le> length xs"
proof (induction ks arbitrary: xs)
  case (Cons k ks)
  show ?case using le_trans [OF Cons.IH length_remove1_le [of k xs]] by simp
qed simp

lemma length_remove1_less: "k \<in> set xs \<Longrightarrow> length (remove1 k xs) < length xs"
  using length_pos_if_in_set [of k xs] by (simp add: length_remove1)

lemma wave_shrinks:
  assumes "wave_starts c env steps deadline n g"
  shows "length (dg_remaining (wave c env order steps deadline n g)) < length (dg_remaining g)"
proof -
  define ks where "ks = sort_key (order n) (ready_steps (graph_of steps) g)"
  have same: "set ks = set (ready_steps (graph_of steps) g)" by (simp add: ks_def)
  have "ready_steps (graph_of steps) g \<noteq> []" using assms by (simp add: wave_starts_def)
  then have "ks \<noteq> []" using same by (metis set_empty)
  then obtain k ks' where ks: "ks = k # ks'" by (cases ks) simp_all
  have k: "k \<in> set (dg_remaining g)" using same by (simp add: ks ready_steps_def) blast
  have "length (fold remove1 ks' (remove1 k (dg_remaining g))) < length (dg_remaining g)"
    by (rule le_less_trans [OF length_remove_all length_remove1_less [OF k]])
  then show ?thesis by (simp add: wave_def ks_def [symmetric] ks)
qed

function dag_loop :: "dag_call \<Rightarrow> dag_env \<Rightarrow> (nat \<Rightarrow> string \<Rightarrow> nat) \<Rightarrow> (string \<times> dag_step) list \<Rightarrow> real option \<Rightarrow> nat
    \<Rightarrow> dag_run \<Rightarrow> dag_run" where
  "dag_loop c env order steps deadline n g =
     (if wave_starts c env steps deadline n g
      then dag_loop c env order steps deadline (Suc n) (wave c env order steps deadline n g) else g)"
  by pat_completeness auto
termination
  by (relation "measure (\<lambda>(c, env, order, steps, deadline, n, g). length (dg_remaining g))") (auto intro: wave_shrinks)

declare dag_loop.simps [simp del]

section \<open>The result\<close>

text \<open>\<open>dr_skipped\<close> and the other lists are in ascending order, \<open>dr_results\<close> by step.\<close>

record dag_result =
  dr_success :: bool
  dr_completed :: "string list"
  dr_failed :: "string list"
  dr_skipped :: "string list"
  dr_cancelled :: "string list"
  dr_timed_out :: "string list"
  dr_was_cancelled :: bool
  dr_deadline_exceeded :: bool
  dr_results :: "(string \<times> pyval) list"

datatype dag_outcome =
    Preflight_Failed "dag_error list" "string list"
  | Finished dag_result

definition sort_results :: "(string \<times> pyval) list \<Rightarrow> (string \<times> pyval) list" where
  "sort_results rs = map (\<lambda>k. (k, the (map_of rs k))) (sorted_ids rs)"

text \<open>What did not run is cancelled, timed out or skipped.\<close>

definition finish_dag :: "bool \<Rightarrow> bool \<Rightarrow> dag_run \<Rightarrow> dag_result" where
  "finish_dag looked_cancelled deadline_exceeded g =
     (let was_cancelled = (dg_cancelled g \<noteq> [] \<or> looked_cancelled);
          rest = sort (dg_remaining g);
          cancelled = (if was_cancelled then dg_cancelled g @ rest else dg_cancelled g);
          timed_out = (if \<not> was_cancelled \<and> deadline_exceeded then dg_timed_out g @ rest else dg_timed_out g);
          skipped = (if \<not> was_cancelled \<and> \<not> deadline_exceeded then rest else []);
          out = (if was_cancelled then cancelled_result
                 else if deadline_exceeded then timed_out_result else skipped_result (dg_aborted g));
          results = fold (\<lambda>k rs. dict_set rs k out) rest (dg_results g)
      in \<lparr>dr_success = (dg_failed g = [] \<and> skipped = [] \<and> cancelled = [] \<and> timed_out = [] \<and> \<not> deadline_exceeded),
          dr_completed = sort (dg_completed g), dr_failed = sort (dg_failed g), dr_skipped = skipped,
          dr_cancelled = sort cancelled, dr_timed_out = sort timed_out,
          dr_was_cancelled = was_cancelled, dr_deadline_exceeded = deadline_exceeded,
          dr_results = sort_results results\<rparr>)"

text \<open>\<open>last_cancel\<close> and \<open>last_clock\<close> are what the two looks after the loop see.\<close>

definition execute_swarm_dag ::
  "dag_call \<Rightarrow> dag_env \<Rightarrow> (nat \<Rightarrow> string \<Rightarrow> nat) \<Rightarrow> bool option \<Rightarrow> seconds \<Rightarrow> step_value list option \<Rightarrow> dag_outcome" where
  "execute_swarm_dag c env order last_cancel last_clock steps_arg =
     (case steps_arg of
        None \<Rightarrow> Preflight_Failed [Call_Error ''steps must be a non-empty list''] []
      | Some vs \<Rightarrow>
          if vs = [] then Preflight_Failed [Call_Error ''steps must be a non-empty list''] []
          else if 256 < length vs then Preflight_Failed [Call_Error ''steps cannot exceed 256 entries''] []
          else if \<not> int_between 1 64 (dc_max_workers c) then Preflight_Failed [Call_Error ''max_workers''] []
          else
            (case overall_of (dc_overall c) of
               Inl e \<Rightarrow> Preflight_Failed [e] []
             | Inr overall \<Rightarrow>
                 if dc_cancel c = Some False then Preflight_Failed [Call_Error ''request_cancel_event''] []
                 else
                   (case preflight c vs of
                      (steps, errors) \<Rightarrow>
                        if errors \<noteq> [] then Preflight_Failed (first_distinct errors) (sorted_ids steps)
                        else
                          (let deadline = map_option (\<lambda>t. dv_start env + t) overall;
                               g = dag_loop c env order steps deadline 0 (start_dag steps)
                           in Finished (finish_dag (cancel_requested c last_cancel) (past deadline last_clock) g)))))"

end
