(* ===== verification/Swarm_Checks.thy ===== *)
theory Swarm_Checks
  imports Swarm_Dag
begin

text \<open>
  The checks before a step graph runs: the search for dependency cycles finds one exactly when there
  is one and names steps that lie on a cycle, and a graph is accepted exactly when the entries are
  well formed and no step depends on itself through others.
\<close>

section \<open>The search\<close>

text \<open>
  What one visit does to the accumulator, whatever the rest of the search: it only adds errors, each
  names a node of a cycle, and without a new error the visited nodes stay settled.
\<close>

definition cycle_errors :: "adjacency \<Rightarrow> dag_error list \<Rightarrow> bool" where
  "cycle_errors adj es \<longleftrightarrow> (\<forall>e \<in> set es. \<exists>x. e = Cycle_At x \<and> (x, x) \<in> (edge_rel (succs adj))\<^sup>+)"

definition searched :: "adjacency \<Rightarrow> string set \<Rightarrow> string list \<Rightarrow> bool" where
  "searched adj visiting visited \<longleftrightarrow> settled (succs adj) (set visited) \<and> set visited \<inter> visiting = {}"

definition visits_ok ::
  "adjacency \<Rightarrow> string set \<Rightarrow> string set \<Rightarrow> string list \<times> dag_error list \<Rightarrow> string list \<times> dag_error list \<Rightarrow> bool" where
  "visits_ok adj visiting goals a b \<longleftrightarrow>
     (\<exists>es. snd b = snd a @ es \<and> cycle_errors adj es) \<and>
     (snd b = snd a \<longrightarrow> searched adj visiting (fst a) \<longrightarrow>
        searched adj visiting (fst b) \<and> set (fst a) \<union> goals \<subseteq> set (fst b))"

lemma visits_ok_refl: "visits_ok adj visiting {} a a"
  by (simp add: visits_ok_def cycle_errors_def)

lemma visits_ok_trans:
  assumes "visits_ok adj visiting A a b" "visits_ok adj visiting B b c"
  shows "visits_ok adj visiting (A \<union> B) a c"
proof -
  obtain es es' where e: "snd b = snd a @ es" "snd c = snd b @ es'" "cycle_errors adj es" "cycle_errors adj es'"
    using assms by (auto simp: visits_ok_def)
  then have "snd c = snd a @ (es @ es')" "cycle_errors adj (es @ es')" by (auto simp: cycle_errors_def)
  moreover have "snd c = snd a \<Longrightarrow> snd b = snd a \<and> snd c = snd b" using e by simp
  ultimately show ?thesis using assms unfolding visits_ok_def by blast
qed

lemma visits_ok_fold:
  assumes "\<And>d acc. d \<in> set ds \<Longrightarrow> visits_ok adj visiting {d} acc (f d acc)"
  shows "visits_ok adj visiting (set ds) acc (fold f ds acc)"
  using assms
proof (induction ds arbitrary: acc)
  case Nil
  show ?case by (simp add: visits_ok_refl)
next
  case (Cons d ds)
  have "visits_ok adj visiting {d} acc (f d acc)" using Cons.prems by simp
  moreover have "visits_ok adj visiting (set ds) (f d acc) (fold f ds (f d acc))" using Cons by simp
  ultimately have "visits_ok adj visiting ({d} \<union> set ds) acc (fold f ds (f d acc))" by (rule visits_ok_trans)
  then show ?case by simp
qed

text \<open>A node whose successors are all visited without an error is settled.\<close>

lemma visits_ok_finish:
  assumes ok: "visits_ok adj (insert k visiting) (set (succs adj k)) (vs, es) (vs', es')"
    and new: "k \<notin> visiting" "k \<notin> set vs"
  shows "visits_ok adj visiting {k} (vs, es) (vs' @ [k], es')"
proof -
  have "searched adj visiting (vs' @ [k]) \<and> set vs \<union> {k} \<subseteq> set (vs' @ [k])"
    if eq: "es' = es" and sr: "searched adj visiting vs"
  proof -
    have "searched adj (insert k visiting) vs" using sr new by (auto simp: searched_def)
    then have done': "searched adj (insert k visiting) vs'" "set vs \<union> set (succs adj k) \<subseteq> set vs'"
      using ok eq by (auto simp: visits_ok_def)
    then have "settled (succs adj) (insert k (set vs'))"
      by (intro settled_insert) (auto simp: searched_def)
    then show ?thesis using done' new by (auto simp: searched_def)
  qed
  then show ?thesis using ok by (auto simp: visits_ok_def)
qed

lemma visit_ok:
  assumes "\<forall>v \<in> visiting. (v, k) \<in> (edge_rel (succs adj))\<^sup>+"
  shows "visits_ok adj visiting {k} acc (visit adj visiting k acc)"
proof -
  obtain vs es where acc: "acc = (vs, es)" by (cases acc)
  have "\<forall>v \<in> visiting. (v, k) \<in> (edge_rel (succs adj))\<^sup>+ \<Longrightarrow>
      visits_ok adj visiting {k} (vs, es) (visit adj visiting k (vs, es))"
  proof (induction adj visiting k "(vs, es)" arbitrary: vs es rule: visit.induct)
    case (1 adj visiting k vs es)
    show ?case
    proof (cases "k \<in> visiting \<or> k \<in> set vs")
      case True
      then show ?thesis using 1(2) by (auto simp: visit.simps visits_ok_def cycle_errors_def)
    next
      case False
      have inner: "visits_ok adj (insert k visiting) {d} a (visit adj (insert k visiting) d a)"
        if d: "d \<in> set (succs adj k)" for d a
      proof -
        have "(v, d) \<in> (edge_rel (succs adj))\<^sup>+" if "v \<in> insert k visiting" for v
          using that d 1(2) by (auto intro: trancl_into_trancl)
        then show ?thesis using False d by (cases a) (auto intro!: 1(1))
      qed
      have "visits_ok adj (insert k visiting) (set (succs adj k)) (vs, es)
          (fold (visit adj (insert k visiting)) (succs adj k) (vs, es))"
        by (rule visits_ok_fold) (rule inner)
      then show ?thesis using False visits_ok_finish [of adj k visiting vs es]
        by (auto simp: visit.simps split: prod.splits)
    qed
  qed
  then show ?thesis using assms acc by simp
qed

text \<open>The whole search, over a list of starts that holds every node with a successor.\<close>

lemma search_exact:
  assumes starts: "fst ` set adj \<subseteq> set ks"
  shows "cycle_errors adj (snd (fold (visit adj {}) ks ([], []))) \<and>
    (snd (fold (visit adj {}) ks ([], [])) = [] \<longleftrightarrow> (\<forall>k. (k, k) \<notin> (edge_rel (succs adj))\<^sup>+))"
proof -
  let ?r = "fold (visit adj {}) ks ([], [])"
  have ok: "visits_ok adj {} (set ks) ([], []) ?r"
    by (rule visits_ok_fold) (rule visit_ok, simp)
  then have errors: "cycle_errors adj (snd ?r)" by (auto simp: visits_ok_def)
  have "(k, k) \<notin> (edge_rel (succs adj))\<^sup>+" if none: "snd ?r = []" for k
  proof
    assume cyc: "(k, k) \<in> (edge_rel (succs adj))\<^sup>+"
    then obtain d where "(k, d) \<in> edge_rel (succs adj)" by (auto dest: tranclD)
    then have "k \<in> set ks" using starts succs_known [of d adj k] by auto
    moreover have "searched adj {} (fst ?r) \<and> set ks \<subseteq> set (fst ?r)"
      using ok none by (auto simp: visits_ok_def searched_def)
    ultimately show False using cyc settled_acyclic by (force simp: searched_def)
  qed
  moreover have "snd ?r = []" if "\<forall>k. (k, k) \<notin> (edge_rel (succs adj))\<^sup>+"
    using errors that by (cases "snd ?r") (auto simp: cycle_errors_def)
  ultimately show ?thesis using errors by blast
qed

section \<open>The checks\<close>

lemma fst_graph_of [simp]: "map fst (graph_of steps) = map fst steps"
  by (simp add: graph_of_def case_prod_beta comp_def)

lemma keys_graph_of [simp]: "fst ` set (graph_of steps) = fst ` set steps"
  by (metis fst_graph_of set_map)

lemma set_sorted_ids [simp]: "set (sorted_ids steps) = fst ` set steps"
  by (simp add: sorted_ids_def)

lemma no_cycle_error_command: "Cycle_At x \<notin> set (command_errors c k v)"
  by (simp add: command_errors_def split: option.split pyval.split)

lemma no_cycle_error_action: "Cycle_At x \<notin> set (action_errors c k s)"
  using no_cycle_error_command by (simp add: action_errors_def split: option.split)

lemma no_cycle_error_dep: "Cycle_At x \<notin> set (dep_error known k v)"
  by (simp add: dep_error_def split: pyval.split)

lemma no_cycle_error_step: "Cycle_At x \<notin> set (step_errors c known k s)"
  using no_cycle_error_action no_cycle_error_dep by (simp add: step_errors_def split: pyval.split)

lemma no_cycle_error_static: "Cycle_At k \<notin> set (static_errors c steps)"
  using no_cycle_error_step by (auto simp: static_errors_def)

lemma no_cycle_error_collect:
  "Cycle_At k \<notin> set errors \<Longrightarrow> Cycle_At k \<notin> set (snd (collect_steps i vs steps errors))"
  by (induction i vs steps errors rule: collect_steps.induct) (auto split: option.splits)

lemma preflight_exact:
  "(snd (preflight c vs) = [] \<longleftrightarrow>
      snd (collect_steps 0 vs [] []) = [] \<and> static_errors c (fst (preflight c vs)) = [] \<and>
      (\<forall>k. (k, k) \<notin> (edge_rel (succs (graph_of (fst (preflight c vs)))))\<^sup>+)) \<and>
   {k. Cycle_At k \<in> set (snd (preflight c vs))}
      \<subseteq> {k. (k, k) \<in> (edge_rel (succs (graph_of (fst (preflight c vs)))))\<^sup>+}"
proof -
  obtain steps errors where col: "collect_steps 0 vs [] [] = (steps, errors)" by fastforce
  let ?search = "snd (fold (visit (graph_of steps) {}) (sorted_ids steps) ([], []))"
  have exact: "cycle_errors (graph_of steps) ?search"
    "?search = [] \<longleftrightarrow> (\<forall>k. (k, k) \<notin> (edge_rel (succs (graph_of steps)))\<^sup>+)"
    using search_exact [of "graph_of steps" "sorted_ids steps"] by simp_all
  have "Cycle_At k \<notin> set (errors @ static_errors c steps)" for k
    using no_cycle_error_collect [of k "[]" 0 vs "[]"] no_cycle_error_static [of k c steps] col by simp
  then show ?thesis using exact by (auto simp: preflight_def col cycle_errors_def)
qed

lemma set_strings_of: "d \<in> set (strings_of vs) \<longleftrightarrow> PStr d \<in> set vs"
  by (induction vs) (auto simp: strings_of_def split: pyval.splits)

lemma succs_graph_of: "succs (graph_of steps) k = (case map_of steps k of None \<Rightarrow> [] | Some s \<Rightarrow> strings_of (dep_values s))"
  by (induction steps) (auto simp: succs_def graph_of_def)

lemma static_deps_known:
  assumes "static_errors c steps = []" and d: "d \<in> set (succs (graph_of steps) k)"
  shows "d \<in> fst ` set steps"
proof -
  obtain s where s: "(k, s) \<in> set steps" "PStr d \<in> set (dep_values s)"
    using d by (cases "map_of steps k") (auto simp: succs_graph_of set_strings_of dest: map_of_SomeD)
  have "step_errors c (map fst steps) k s = []" using assms(1) s(1) by (auto simp: static_errors_def)
  then have "dep_error (map fst steps) k (PStr d) = []" using s(2) by (auto simp: step_errors_def)
  then show ?thesis by (auto simp: dep_error_def split: if_splits)
qed

lemma accepted_known:
  assumes "snd (preflight c vs) = []" "d \<in> set (succs (graph_of (fst (preflight c vs))) k)"
  shows "d \<in> fst ` set (fst (preflight c vs))"
proof (rule static_deps_known [OF _ assms(2)])
  show "static_errors c (fst (preflight c vs)) = []" using assms(1) preflight_exact [of c vs] by blast
qed

text \<open>The dependencies of an accepted graph are well-founded.\<close>

lemma accepted_wf:
  assumes "snd (preflight c vs) = []"
  shows "wf ((edge_rel (succs (graph_of (fst (preflight c vs)))))\<inverse>)"
proof (rule finite_acyclic_wf_converse)
  let ?steps = "fst (preflight c vs)"
  have static: "static_errors c ?steps = []"
    and acyc: "\<forall>k. (k, k) \<notin> (edge_rel (succs (graph_of ?steps)))\<^sup>+"
    using assms preflight_exact [of c vs] by blast+
  have "edge_rel (succs (graph_of ?steps)) \<subseteq> (fst ` set ?steps) \<times> (fst ` set ?steps)"
    using static_deps_known [OF static] succs_known [of _ "graph_of ?steps"] by (auto simp: edge_rel_def)
  then show "finite (edge_rel (succs (graph_of ?steps)))" by (rule finite_subset) simp
  show "acyclic (edge_rel (succs (graph_of ?steps)))" using acyc by (simp add: acyclic_def)
qed

text \<open>
  C16. The checks before a run accept a step graph if and only if the entries are well formed (ids,
  dependencies, actions, timeout) and no step depends on itself, directly or through others; a step
  that is reported to lie on a cycle does.
\<close>

theorem dag_preflight_exact:
  "(snd (preflight c vs) = [] \<longleftrightarrow>
      snd (collect_steps 0 vs [] []) = [] \<and> static_errors c (fst (preflight c vs)) = [] \<and>
      (\<forall>k. (k, k) \<notin> (edge_rel (succs (graph_of (fst (preflight c vs)))))\<^sup>+)) \<and>
   {k. Cycle_At k \<in> set (snd (preflight c vs))}
      \<subseteq> {k. (k, k) \<in> (edge_rel (succs (graph_of (fst (preflight c vs)))))\<^sup>+}"
  by (rule preflight_exact)

end
