(* ===== verification/Swarm_Runs.thy ===== *)
theory Swarm_Runs
  imports Swarm_Checks "HOL-Library.Multiset"
begin

text \<open>
  What a run of a step graph guarantees: every step ends in exactly one list of the result, a step is
  started only when all its dependencies have completed, the result does not depend on the order in
  which the threads of a wave complete, and what is skipped is behind a step that did not complete.
\<close>

section \<open>A wave\<close>

datatype step_status = Completed | Failed | Cancelled | Timed_Out

definition status_of :: "bool \<times> pyval \<Rightarrow> step_status" where
  "status_of res =
     (if has_true ''cancelled'' (snd res) then Cancelled
      else if has_true ''timed_out'' (snd res) then Timed_Out
      else if fst res then Completed else Failed)"

definition settled_ids :: "dag_run \<Rightarrow> string list" where
  "settled_ids g = dg_completed g @ dg_failed g @ dg_cancelled g @ dg_timed_out g"

text \<open>The fields after the futures \<open>ks\<close> have completed in this order.\<close>

lemma settle_step_fields:
  "dg_completed (settle_step steps outcome k g) = dg_completed g @ (if status_of (outcome k) = Completed then [k] else [])"
  "dg_failed (settle_step steps outcome k g) = dg_failed g @ (if status_of (outcome k) = Failed then [k] else [])"
  "dg_cancelled (settle_step steps outcome k g) = dg_cancelled g @ (if status_of (outcome k) = Cancelled then [k] else [])"
  "dg_timed_out (settle_step steps outcome k g) = dg_timed_out g @ (if status_of (outcome k) = Timed_Out then [k] else [])"
  "dg_results (settle_step steps outcome k g) = dict_set (dg_results g) k (snd (outcome k))"
  "dg_aborted (settle_step steps outcome k g) \<longleftrightarrow>
     dg_aborted g \<or> status_of (outcome k) = Failed \<and> ds_required (step_of steps k)"
  by (simp_all add: settle_step_def status_of_def Let_def split: prod.splits)

lemma settle_all_fields:
  "dg_completed (fold (settle_step steps outcome) ks g) = dg_completed g @ filter (\<lambda>k. status_of (outcome k) = Completed) ks"
  "dg_failed (fold (settle_step steps outcome) ks g) = dg_failed g @ filter (\<lambda>k. status_of (outcome k) = Failed) ks"
  "dg_cancelled (fold (settle_step steps outcome) ks g) = dg_cancelled g @ filter (\<lambda>k. status_of (outcome k) = Cancelled) ks"
  "dg_timed_out (fold (settle_step steps outcome) ks g) = dg_timed_out g @ filter (\<lambda>k. status_of (outcome k) = Timed_Out) ks"
  "dg_results (fold (settle_step steps outcome) ks g) = fold (\<lambda>k rs. dict_set rs k (snd (outcome k))) ks (dg_results g)"
  "dg_aborted (fold (settle_step steps outcome) ks g) \<longleftrightarrow>
     dg_aborted g \<or> (\<exists>k \<in> set ks. status_of (outcome k) = Failed \<and> ds_required (step_of steps k))"
  by (induction ks arbitrary: g) (simp_all add: settle_step_fields)

lemma fold_remove1_distinct: "distinct xs \<Longrightarrow> fold remove1 ks xs = filter (\<lambda>x. x \<notin> set ks) xs"
proof (induction ks arbitrary: xs)
  case (Cons k ks)
  then show ?case by (auto simp: distinct_remove1 distinct_remove1_removeAll removeAll_filter_not_eq intro: filter_cong)
qed simp

lemma map_of_dict_sets:
  "map_of (fold (\<lambda>k rs. dict_set rs k (f k)) ks rs) = (\<lambda>k. if k \<in> set ks then Some (f k) else map_of rs k)"
  by (induction ks arbitrary: rs) (auto simp: fun_eq_iff)

lemma distinct_dict_sets:
  "distinct (map fst rs) \<Longrightarrow> distinct (map fst (fold (\<lambda>k rs. dict_set rs k (f k)) ks rs))"
  by (induction ks arbitrary: rs) (simp_all add: distinct_dict_set)

lemma keys_dict_sets:
  "fst ` set (fold (\<lambda>k rs. dict_set rs k (f k)) ks rs) = fst ` set rs \<union> set ks"
  by (induction ks arbitrary: rs) auto

lemma status_split:
  "mset ks = filter_mset (\<lambda>k. f k = Completed) (mset ks) + filter_mset (\<lambda>k. f k = Failed) (mset ks)
     + filter_mset (\<lambda>k. f k = Cancelled) (mset ks) + filter_mset (\<lambda>k. f k = Timed_Out) (mset ks)"
proof (induction ks)
  case (Cons k ks)
  then show ?case by (cases "f k") simp_all
qed simp

section \<open>The invariant of the loop\<close>

definition run_ok :: "adjacency \<Rightarrow> (string \<times> dag_step) list \<Rightarrow> (string \<Rightarrow> bool \<times> pyval) \<Rightarrow> dag_run \<Rightarrow> bool" where
  "run_ok adj steps outcome g \<longleftrightarrow>
     mset (settled_ids g) + mset (dg_remaining g) = mset (map fst steps) \<and>
     (\<forall>k \<in> set (settled_ids g). set (succs adj k) \<subseteq> set (dg_completed g) \<and>
        map_of (dg_results g) k = Some (snd (outcome k))) \<and>
     (\<forall>k \<in> set (dg_completed g). fst (outcome k)) \<and>
     fst ` set (dg_results g) = set (settled_ids g) \<and> distinct (map fst (dg_results g)) \<and>
     (dg_aborted g \<longleftrightarrow> (\<exists>k \<in> set (dg_failed g). ds_required (step_of steps k)))"

lemma start_ok: "run_ok adj steps outcome (start_dag steps)"
  by (simp add: run_ok_def start_dag_def settled_ids_def sorted_ids_def)

lemma run_ok_distinct:
  assumes "run_ok adj steps outcome g" "distinct (map fst steps)"
  shows "distinct (settled_ids g @ dg_remaining g)"
  using assms by (metis run_ok_def mset_append mset_eq_imp_distinct_iff)

lemma wave_ok:
  assumes g: "run_ok adj steps outcome g" and ids: "distinct (map fst steps)"
    and ks: "distinct ks" "set ks \<subseteq> set (dg_remaining g)" "\<forall>k \<in> set ks. set (succs adj k) \<subseteq> set (dg_completed g)"
  shows "run_ok adj steps outcome (fold (settle_step steps outcome) ks g)"
proof -
  let ?h = "fold (settle_step steps outcome) ks g"
  have dist: "distinct (settled_ids g @ dg_remaining g)" by (rule run_ok_distinct [OF g ids])
  have settled: "mset (settled_ids ?h) = mset (settled_ids g) + mset ks"
    using status_split [of ks "\<lambda>k. status_of (outcome k)"]
    by (simp add: settled_ids_def settle_all_fields ac_simps)
  have remaining: "dg_remaining ?h = filter (\<lambda>x. x \<notin> set ks) (dg_remaining g)"
    using dist by (simp add: fold_remove1_distinct)
  have "mset (filter (\<lambda>x. x \<in> set ks) (dg_remaining g)) = mset ks"
    using ks dist by (intro set_eq_iff_mset_eq_distinct [THEN iffD1]) auto
  then have "mset (dg_remaining g) = mset ks + mset (dg_remaining ?h)"
    by (metis remaining mset_filter multiset_partition)
  then have count: "mset (settled_ids ?h) + mset (dg_remaining ?h) = mset (map fst steps)"
    using g settled by (simp add: run_ok_def ac_simps)
  have ids_h: "set (settled_ids ?h) = set (settled_ids g) \<union> set ks"
    by (metis settled set_mset_mset set_mset_union)
  have done_h: "set (dg_completed g) \<subseteq> set (dg_completed ?h)" by (simp add: settle_all_fields)
  have "set (succs adj k) \<subseteq> set (dg_completed ?h) \<and> map_of (dg_results ?h) k = Some (snd (outcome k))"
    if "k \<in> set (settled_ids ?h)" for k
    using that g ks(3) done_h unfolding ids_h by (auto simp: run_ok_def settle_all_fields map_of_dict_sets)
  moreover have "\<forall>k \<in> set (dg_completed ?h). fst (outcome k)"
    using g by (auto simp: run_ok_def settle_all_fields status_of_def split: if_splits)
  moreover have "fst ` set (dg_results ?h) = set (settled_ids ?h)" "distinct (map fst (dg_results ?h))"
    using g by (simp_all add: run_ok_def settle_all_fields keys_dict_sets ids_h distinct_dict_sets)
  moreover have "dg_aborted ?h \<longleftrightarrow> (\<exists>k \<in> set (dg_failed ?h). ds_required (step_of steps k))"
    using g by (auto simp: run_ok_def settle_all_fields)
  ultimately show ?thesis using count by (simp add: run_ok_def)
qed

definition outcome_of :: "dag_call \<Rightarrow> dag_env \<Rightarrow> (string \<times> dag_step) list \<Rightarrow> real option \<Rightarrow> string \<Rightarrow> bool \<times> pyval" where
  "outcome_of c env steps deadline k = run_single_step c env deadline k (step_of steps k)"

lemma wave_alt:
  "wave c env order steps deadline n g =
     fold (settle_step steps (outcome_of c env steps deadline)) (sort_key (order n) (ready_steps (graph_of steps) g)) g"
  by (simp add: wave_def outcome_of_def [abs_def])

lemma loop_ok:
  assumes "run_ok (graph_of steps) steps (outcome_of c env steps deadline) g" "distinct (map fst steps)"
  shows "run_ok (graph_of steps) steps (outcome_of c env steps deadline) (dag_loop c env order steps deadline n g) \<and>
    (\<exists>m. \<not> wave_starts c env steps deadline m (dag_loop c env order steps deadline n g))"
  using assms
proof (induction c env order steps deadline n g rule: dag_loop.induct)
  case (1 c env order steps deadline n g)
  show ?case
  proof (cases "wave_starts c env steps deadline n g")
    case True
    have "distinct (dg_remaining g)" using run_ok_distinct [OF 1(2,3)] by simp
    then have "run_ok (graph_of steps) steps (outcome_of c env steps deadline) (wave c env order steps deadline n g)"
      unfolding wave_alt by (intro wave_ok [OF 1(2,3)]) (auto simp: ready_steps_def list_all_iff)
    then show ?thesis using 1 True by (subst (1 2) dag_loop.simps) simp
  next
    case False
    then show ?thesis using 1(2) by (subst (1 2) dag_loop.simps) auto
  qed
qed

lemma collect_distinct: "distinct (map fst steps) \<Longrightarrow> distinct (map fst (fst (collect_steps i vs steps errors)))"
  by (induction i vs steps errors rule: collect_steps.induct) (auto split: option.splits)

section \<open>The result\<close>

definition result_ids :: "dag_result \<Rightarrow> string list" where
  "result_ids r = dr_completed r @ dr_failed r @ dr_skipped r @ dr_cancelled r @ dr_timed_out r"

text \<open>The steps of an accepted call.\<close>

definition accepted_steps :: "dag_call \<Rightarrow> step_value list \<Rightarrow> (string \<times> dag_step) list" where
  "accepted_steps c vs = fst (preflight c vs)"

lemma finished_runE:
  assumes "execute_swarm_dag c env order last_cancel last_clock (Some vs) = Finished r"
  obtains deadline g where
    "run_ok (graph_of (accepted_steps c vs)) (accepted_steps c vs) (outcome_of c env (accepted_steps c vs) deadline) g"
    "g = dag_loop c env order (accepted_steps c vs) deadline 0 (start_dag (accepted_steps c vs))"
    "\<exists>m. \<not> wave_starts c env (accepted_steps c vs) deadline m g"
    "r = finish_dag (cancel_requested c last_cancel) (past deadline last_clock) g"
    "snd (preflight c vs) = []" "distinct (map fst (accepted_steps c vs))"
proof -
  let ?steps = "accepted_steps c vs"
  obtain deadline where r: "r = finish_dag (cancel_requested c last_cancel) (past deadline last_clock)
      (dag_loop c env order ?steps deadline 0 (start_dag ?steps))" and errors: "snd (preflight c vs) = []"
    using assms by (auto simp: execute_swarm_dag_def accepted_steps_def Let_def split: if_splits sum.splits prod.splits)
  have "?steps = fst (collect_steps 0 vs [] [])"
    by (simp add: accepted_steps_def preflight_def Let_def split: prod.splits)
  then have "distinct (map fst ?steps)" by (simp add: collect_distinct)
  note ids = this
  note ok = loop_ok [OF start_ok ids, of c env deadline order 0]
  show ?thesis by (rule that [OF conjunct1 [OF ok] refl conjunct2 [OF ok] r errors ids])
qed

lemma finish_ids: "mset (result_ids (finish_dag b d g)) = mset (settled_ids g) + mset (dg_remaining g)"
  by (simp add: result_ids_def settled_ids_def finish_dag_def Let_def ac_simps)

lemma finish_fields:
  "dr_completed (finish_dag b d g) = sort (dg_completed g)" "dr_failed (finish_dag b d g) = sort (dg_failed g)"
  by (simp_all add: finish_dag_def Let_def)

lemma sort_Nil_iff: "sort xs = [] \<longleftrightarrow> xs = []"
  by (metis set_empty set_sort)

lemma finish_success:
  "dr_success (finish_dag b d g) \<longleftrightarrow> dr_failed (finish_dag b d g) = [] \<and> dr_skipped (finish_dag b d g) = [] \<and>
     dr_cancelled (finish_dag b d g) = [] \<and> dr_timed_out (finish_dag b d g) = [] \<and> \<not> dr_deadline_exceeded (finish_dag b d g)"
  by (simp add: finish_dag_def Let_def sort_Nil_iff)

lemma sort_same: "mset xs = mset ys \<Longrightarrow> sort xs = sort ys"
  by (metis sorted_list_of_multiset_mset)

lemma finish_results:
  assumes ok: "run_ok adj steps outcome g" and ids: "distinct (map fst steps)"
  shows "map fst (dr_results (finish_dag b d g)) = sorted_ids steps"
proof -
  have fst_sorted: "map fst (sort_results rs) = sorted_ids rs" for rs
    by (simp add: sort_results_def comp_def)
  have keys: "sorted_ids (fold (\<lambda>k rs. dict_set rs k out) (sort (dg_remaining g)) (dg_results g)) = sorted_ids steps" for out
  proof -
    let ?rs = "fold (\<lambda>k rs. dict_set rs k out) (sort (dg_remaining g)) (dg_results g)"
    have dist: "distinct (map fst ?rs)"
      by (rule distinct_dict_sets [where f = "\<lambda>_. out"]) (use ok in \<open>simp only: run_ok_def\<close>)
    have "set (map fst ?rs) = set (settled_ids g) \<union> set (dg_remaining g)"
      unfolding set_map keys_dict_sets [where f = "\<lambda>_. out"] using ok by (simp add: run_ok_def)
    also have "\<dots> = set (map fst steps)" using ok by (metis run_ok_def set_mset_mset set_mset_union)
    finally have "set (map fst ?rs) = set (map fst steps)" .
    then have "mset (map fst ?rs) = mset (map fst steps)"
      using set_eq_iff_mset_eq_distinct [of "map fst ?rs" "map fst steps"] ids dist by blast
    then show ?thesis unfolding sorted_ids_def by (rule sort_same)
  qed
  show ?thesis unfolding finish_dag_def Let_def by (simp add: fst_sorted keys)
qed

lemma finish_exact:
  assumes ok: "run_ok adj steps outcome g" and ids: "distinct (map fst steps)" and r: "r = finish_dag b d g"
  shows "mset (result_ids r) = mset (map fst steps)"
    and "dr_success r \<longleftrightarrow> dr_completed r = sorted_ids steps \<and> \<not> dr_deadline_exceeded r"
proof -
  show all: "mset (result_ids r) = mset (map fst steps)" using ok by (simp add: r finish_ids run_ok_def)
  have "dr_completed r = sorted_ids steps" if "dr_success r"
  proof -
    have "mset (dr_completed r) = mset (map fst steps)"
      using that all finish_success [of b d g] unfolding r [symmetric] by (simp add: result_ids_def)
    moreover have "sort (dr_completed r) = dr_completed r" by (simp add: r finish_fields sorted_sort_id)
    ultimately show ?thesis unfolding sorted_ids_def by (metis sort_same)
  qed
  moreover have "dr_success r" if full: "dr_completed r = sorted_ids steps" and early: "\<not> dr_deadline_exceeded r"
  proof -
    have "mset (dr_completed r) = mset (map fst steps)" using full by (simp add: sorted_ids_def)
    then have "mset (dr_failed r @ dr_skipped r @ dr_cancelled r @ dr_timed_out r) = {#}"
      using all by (simp add: result_ids_def)
    then show ?thesis using early finish_success [of b d g] unfolding r [symmetric] by simp
  qed
  moreover have "dr_success r \<Longrightarrow> \<not> dr_deadline_exceeded r"
    using finish_success [of b d g] unfolding r [symmetric] by blast
  ultimately show "dr_success r \<longleftrightarrow> dr_completed r = sorted_ids steps \<and> \<not> dr_deadline_exceeded r" by blast
qed

text \<open>
  C15. In the result of an accepted step graph every step is in exactly one list and has exactly one
  result; a step that completed or failed had all its dependencies completed; and the run is a
  success if and only if every step completed before the deadline.
\<close>

theorem dag_result_exact:
  assumes "execute_swarm_dag c env order last_cancel last_clock (Some vs) = Finished r"
  shows "mset (result_ids r) = mset (map fst (accepted_steps c vs)) \<and> distinct (result_ids r) \<and>
    map fst (dr_results r) = sorted_ids (accepted_steps c vs) \<and>
    (\<forall>k \<in> set (dr_completed r @ dr_failed r). set (succs (graph_of (accepted_steps c vs)) k) \<subseteq> set (dr_completed r)) \<and>
    (dr_success r \<longleftrightarrow> dr_completed r = sorted_ids (accepted_steps c vs) \<and> \<not> dr_deadline_exceeded r)"
  using assms
proof (cases rule: finished_runE)
  case (1 deadline g)
  note exact = finish_exact [OF 1(1,6,4)]
  have "distinct (result_ids r)" using exact(1) 1(6) by (metis mset_eq_imp_distinct_iff)
  moreover have "set (succs (graph_of (accepted_steps c vs)) k) \<subseteq> set (dr_completed r)"
    if "k \<in> set (dr_completed r @ dr_failed r)" for k
    using that 1(1) by (auto simp: 1(4) finish_fields run_ok_def settled_ids_def)
  ultimately show ?thesis using exact finish_results [OF 1(1,6)] unfolding 1(4) by blast
qed

section \<open>Skipped steps\<close>

text \<open>
  C17. When a run was not cancelled, did not reach its deadline and no required step failed, every
  skipped step depends, directly or through others, on a step that failed or timed out (the event of a
  cancellation stays set and the clock does not go back).
\<close>

theorem dag_skips_behind_failures:
  assumes run: "execute_swarm_dag c env order last_cancel last_clock (Some vs) = Finished r"
    and "\<forall>n. cancel_requested c (dv_cancel env n) \<longrightarrow> cancel_requested c last_cancel" "\<forall>n. dv_clock env n \<le> last_clock"
    and "\<not> dr_was_cancelled r" "\<not> dr_deadline_exceeded r"
    and "\<forall>k \<in> set (dr_failed r). \<not> ds_required (step_of (accepted_steps c vs) k)"
  shows "\<forall>k \<in> set (dr_skipped r). \<exists>f \<in> set (dr_failed r @ dr_timed_out r).
    (k, f) \<in> (edge_rel (succs (graph_of (accepted_steps c vs))))\<^sup>+"
  using run
proof (cases rule: finished_runE)
  case (1 deadline g)
  let ?E = "edge_rel (succs (graph_of (accepted_steps c vs)))"
  note ok = 1(1)
  obtain m where stop: "\<not> wave_starts c env (accepted_steps c vs) deadline m g" using 1(3) by blast
  have quiet: "\<not> cancel_requested c last_cancel" "dg_cancelled g = []" "\<not> past deadline last_clock"
    using assms(4,5) by (auto simp: 1(4) finish_dag_def Let_def)
  have "\<not> cancel_requested c (dv_cancel env m)" using assms(2) quiet(1) by blast
  moreover have "\<not> past deadline (dv_clock env m)"
    using quiet(3) assms(3) order_trans by (auto simp: past_def split: option.splits)
  moreover have "\<not> dg_aborted g"
    using 1(1) assms(6) by (auto simp: run_ok_def 1(4) finish_fields)
  ultimately have blocked: "dg_remaining g = [] \<or> ready_steps (graph_of (accepted_steps c vs)) g = []"
    using stop by (auto simp: wave_starts_def)
  have lists: "dr_skipped r = sort (dg_remaining g)" "dr_failed r = sort (dg_failed g)" "dr_timed_out r = sort (dg_timed_out g)"
    using quiet by (simp_all add: 1(4) finish_dag_def Let_def)
  have wf: "wf (?E\<inverse>)" using accepted_wf [OF 1(5)] by (simp add: accepted_steps_def)
  have "k \<in> set (dg_remaining g) \<Longrightarrow> \<exists>f \<in> set (dg_failed g @ dg_timed_out g). (k, f) \<in> ?E\<^sup>+" for k
  proof (induction k rule: wf_induct_rule [OF wf])
    case (1 k)
    then obtain d where d: "(k, d) \<in> ?E" "d \<notin> set (dg_completed g)"
      using blocked by (auto simp: ready_steps_def filter_empty_conv list_all_iff)
    have "d \<in> fst ` set (accepted_steps c vs)"
      using d(1) accepted_known [OF \<open>snd (preflight c vs) = []\<close>] by (simp add: accepted_steps_def)
    then have "d \<in> set (settled_ids g) \<union> set (dg_remaining g)"
      using ok by (metis list.set_map run_ok_def set_mset_mset set_mset_union)
    then consider "d \<in> set (dg_failed g @ dg_timed_out g)" | "d \<in> set (dg_remaining g)"
      using d(2) quiet(2) by (auto simp: settled_ids_def)
    then show ?case
    proof cases
      case 1
      then show ?thesis using d(1) by blast
    next
      case 2
      then show ?thesis using 1 d(1) by (metis converse_iff trancl_into_trancl2)
    qed
  qed
  then show ?thesis unfolding lists by simp
qed

section \<open>The order of completion\<close>

text \<open>Runs that differ only in the order in which the threads of their waves completed.\<close>

definition same_run :: "dag_run \<Rightarrow> dag_run \<Rightarrow> bool" where
  "same_run g h \<longleftrightarrow>
     mset (dg_completed g) = mset (dg_completed h) \<and> mset (dg_failed g) = mset (dg_failed h) \<and>
     mset (dg_cancelled g) = mset (dg_cancelled h) \<and> mset (dg_timed_out g) = mset (dg_timed_out h) \<and>
     dg_remaining g = dg_remaining h \<and> map_of (dg_results g) = map_of (dg_results h) \<and>
     distinct (map fst (dg_results g)) \<and> distinct (map fst (dg_results h)) \<and> dg_aborted g = dg_aborted h"

lemma same_ready: "same_run g h \<Longrightarrow> ready_steps adj g = ready_steps adj h"
  by (auto simp: same_run_def ready_steps_def dest: mset_eq_setD)

lemma same_starts: "same_run g h \<Longrightarrow> wave_starts c env steps deadline n g = wave_starts c env steps deadline n h"
  using same_ready by (simp add: wave_starts_def) (simp add: same_run_def)

lemma same_wave:
  assumes same: "same_run g h" and dist: "distinct (dg_remaining g)"
  shows "same_run (wave c env order steps deadline n g) (wave c env order' steps deadline n h)"
proof -
  let ?ks = "sort_key (order n) (ready_steps (graph_of steps) g)"
  let ?ks' = "sort_key (order' n) (ready_steps (graph_of steps) h)"
  have ks: "mset ?ks = mset ?ks'" using same_ready [OF same] by simp
  then have "set ?ks = set ?ks'" by (rule mset_eq_setD)
  then show ?thesis using same dist ks
    unfolding wave_alt same_run_def settle_all_fields settle_all_remaining
    by (simp add: fold_remove1_distinct map_of_dict_sets distinct_dict_sets cong: if_cong)
qed

lemma same_loop:
  assumes "same_run g h" "run_ok (graph_of steps) steps (outcome_of c env steps deadline) g" "distinct (map fst steps)"
  shows "same_run (dag_loop c env order steps deadline n g) (dag_loop c env order' steps deadline n h)"
  using assms
proof (induction c env order steps deadline n g arbitrary: h rule: dag_loop.induct)
  case (1 c env order steps deadline n g)
  have dist: "distinct (dg_remaining g)" using run_ok_distinct [OF 1(3,4)] by simp
  note step = same_wave [OF 1(2) dist, of c env order steps deadline n order']
  show ?case
  proof (cases "wave_starts c env steps deadline n g")
    case True
    have "run_ok (graph_of steps) steps (outcome_of c env steps deadline) (wave c env order steps deadline n g)"
      unfolding wave_alt using dist by (intro wave_ok [OF 1(3,4)]) (auto simp: ready_steps_def list_all_iff)
    then have "same_run (dag_loop c env order steps deadline (Suc n) (wave c env order steps deadline n g))
        (dag_loop c env order' steps deadline (Suc n) (wave c env order' steps deadline n h))"
      by (rule 1(1) [OF True step _ 1(4)])
    then show ?thesis using True same_starts [OF 1(2)] by (subst (1 2) dag_loop.simps) simp
  next
    case False
    then show ?thesis using 1(2) same_starts [OF 1(2)] by (subst (1 2) dag_loop.simps) simp
  qed
qed

lemma same_results:
  assumes "map_of rs = map_of rs'" "distinct (map fst rs)" "distinct (map fst rs')"
  shows "sort_results rs = sort_results rs'"
proof -
  have "set (map fst rs) = set (map fst rs')" using assms(1) by (metis dom_map_of_conv_image_fst set_map)
  then have "mset (map fst rs) = mset (map fst rs')"
    using set_eq_iff_mset_eq_distinct [of "map fst rs" "map fst rs'"] assms by blast
  then have "sort (map fst rs) = sort (map fst rs')" by (rule sort_same)
  then show ?thesis using assms(1) by (simp add: sort_results_def sorted_ids_def)
qed

lemma same_finish:
  assumes same: "same_run g h"
  shows "finish_dag b d g = finish_dag b d h"
proof -
  have "sort_results (fold (\<lambda>k rs. dict_set rs k out) ks (dg_results g)) =
      sort_results (fold (\<lambda>k rs. dict_set rs k out) ks (dg_results h))" for out ks
    using same unfolding same_run_def
    by (intro same_results) (simp_all only: map_of_dict_sets distinct_dict_sets [where f = "\<lambda>_. out"])
  moreover have "dg_failed g = [] \<longleftrightarrow> dg_failed h = []" "dg_cancelled g = [] \<longleftrightarrow> dg_cancelled h = []"
    "dg_timed_out g = [] \<longleftrightarrow> dg_timed_out h = []"
    using same by (metis same_run_def mset_zero_iff)+
  moreover have "sort (dg_completed g) = sort (dg_completed h)" "sort (dg_failed g) = sort (dg_failed h)"
    "sort (dg_cancelled g @ ks) = sort (dg_cancelled h @ ks)" "sort (dg_timed_out g @ ks) = sort (dg_timed_out h @ ks)" for ks
    using same by (auto simp: same_run_def intro!: sort_same)
  moreover have "sort (dg_cancelled g) = sort (dg_cancelled h)" "sort (dg_timed_out g) = sort (dg_timed_out h)"
    using same by (auto simp: same_run_def intro!: sort_same)
  moreover have "dg_remaining g = dg_remaining h" "dg_aborted g = dg_aborted h" using same by (simp_all add: same_run_def)
  ultimately show ?thesis unfolding finish_dag_def Let_def by simp
qed

text \<open>
  C18. The result of a step graph does not depend on the order in which the steps that run at the same
  time complete.
\<close>

theorem dag_order_irrelevant:
  "execute_swarm_dag c env order last_cancel last_clock steps_arg =
   execute_swarm_dag c env order' last_cancel last_clock steps_arg"
proof -
  have "finish_dag b d (dag_loop c env order steps deadline 0 (start_dag steps)) =
      finish_dag b d (dag_loop c env order' steps deadline 0 (start_dag steps))"
    if "collect_steps 0 vs [] [] = (steps, errors)" for b d deadline vs steps errors
  proof -
    have "distinct (map fst steps)" using collect_distinct [of "[]" 0 vs "[]"] that by simp
    then show ?thesis by (intro same_finish same_loop start_ok) (simp_all add: same_run_def start_dag_def)
  qed
  then show ?thesis
    by (auto simp: execute_swarm_dag_def preflight_def Let_def split: option.split sum.split prod.split)
qed

section \<open>A run\<close>

text \<open>
  Step \<open>c\<close> depends on \<open>b\<close> and \<open>b\<close> on \<open>a\<close>; \<open>b\<close> is optional and fails.  In \<open>late_steps\<close> the required command
  \<open>a\<close> runs into its timeout and \<open>c\<close> waits for \<open>b\<close>, which is independent of \<open>a\<close>.
\<close>

definition sample_step :: "string \<Rightarrow> string list \<Rightarrow> bool \<Rightarrow> step_value" where
  "sample_step k deps required =
     Step_Dict \<lparr>ds_id = PStr k, ds_depends = PList (map PStr deps), ds_fn = Some True, ds_command = None, ds_required = required\<rparr>"

definition sample_call :: dag_call where
  "sample_call = \<lparr>dc_max_workers = PInt 4, dc_overall = PNone, dc_command_timeout = PInt 120, dc_cancel = None, dc_broker = False,
     dc_worktree = None, dc_task = PNone, dc_paths = PNone, dc_fence = False\<rparr>"

definition sample_env :: "(string \<Rightarrow> pyval) \<Rightarrow> dag_env" where
  "sample_env outs = \<lparr>dv_start = 0, dv_cancel = (\<lambda>_. Some False), dv_clock = (\<lambda>_. 1), dv_step_cancel = (\<lambda>_. Some False),
     dv_step_clock = (\<lambda>_. 1), dv_call = (\<lambda>k. Inr (outs k)), dv_broker = (\<lambda>_ _. Inl [])\<rparr>"

definition sample_steps :: "step_value list" where
  "sample_steps = [sample_step ''c'' [''b''] True, sample_step ''a'' [] True, sample_step ''b'' [''a''] False]"

definition sample_outs :: "string \<Rightarrow> pyval" where
  "sample_outs k = (if k = ''b'' then PBool False else PNone)"

definition sample_result :: dag_result where
  "sample_result = \<lparr>dr_success = False, dr_completed = [''a''], dr_failed = [''b''], dr_skipped = [''c''], dr_cancelled = [],
     dr_timed_out = [], dr_was_cancelled = False, dr_deadline_exceeded = False,
     dr_results = [(''a'', PNone), (''b'', PBool False), (''c'', skipped_result False)]\<rparr>"

lemma sample_run:
  "execute_swarm_dag sample_call (sample_env sample_outs) (\<lambda>_ _. 0) None 1 (Some sample_steps) = Finished sample_result"
  by code_simp

lemma dag_result_exact_witness:
  "distinct (result_ids sample_result) \<and> mset (result_ids sample_result) = {#''a'', ''b'', ''c''#}"
proof -
  have "map fst (accepted_steps sample_call sample_steps) = [''c'', ''a'', ''b'']" by code_simp
  then show ?thesis using dag_result_exact [OF sample_run] by simp
qed

lemma dag_skips_behind_failures_witness:
  "(''c'', ''b'') \<in> (edge_rel (succs (graph_of (accepted_steps sample_call sample_steps))))\<^sup>+"
proof -
  have "dr_skipped sample_result = [''c'']" "dr_failed sample_result = [''b'']" "dr_timed_out sample_result = []"
    "\<not> dr_was_cancelled sample_result" "\<not> dr_deadline_exceeded sample_result"
    by (simp_all add: sample_result_def)
  moreover have "\<not> ds_required (step_of (accepted_steps sample_call sample_steps) ''b'')" by code_simp
  moreover have "\<not> cancel_requested sample_call look" for look by (simp add: cancel_requested_def sample_call_def)
  moreover have "dv_clock (sample_env sample_outs) n \<le> 1" for n by (simp add: sample_env_def)
  ultimately show ?thesis using dag_skips_behind_failures [OF sample_run] by simp
qed

text \<open>A required step that reports its own timeout does not end the run: the next wave starts.\<close>

definition late_steps :: "step_value list" where
  "late_steps = [sample_step ''a'' [] True, sample_step ''b'' [] True, sample_step ''c'' [''b''] True]"

definition late_outs :: "string \<Rightarrow> pyval" where
  "late_outs k = (if k = ''a'' then PDict [(''success'', PBool False), (''timed_out'', PBool True)] else PNone)"

lemma timed_out_required_goes_on:
  "case execute_swarm_dag sample_call (sample_env late_outs) (\<lambda>_ _. 0) None 1 (Some late_steps) of
     Finished r \<Rightarrow> dr_timed_out r = [''a''] \<and> dr_completed r = [''b'', ''c''] | _ \<Rightarrow> False"
  by code_simp

end
