(* ===== verification/Blackboard.thy ===== *)
theory Blackboard
  imports Event_Sequences
begin

text \<open>
  The shared blackboard (\<open>agent_blackboard.py\<close>): sections with a vector clock, the merge of two versions
  of a section, compare-and-set updates that append their change event in the same transaction, merges
  of remote sections, deletion and the reads.

  A row of \<open>agent_blackboard\<close> keeps the JSON text of the content; its vector clock, which only the
  operations below write, is kept decoded, as an association list of integers.  The JSON library, \<open>str\<close> of
  a value that is not a string, \<open>float\<close> of a string and SHA-256 are the fields of \<open>board_io\<close>.
\<close>

section \<open>Sections\<close>

type_synonym clock = "(string \<times> int) list"

record bb_section =
  sec_name :: string
  sec_content :: pyval
  sec_author :: string
  sec_clock :: clock
  sec_time :: pyfloat
  sec_version :: int

record board_io =
  bi_text :: "pyval \<Rightarrow> string"
  bi_canon :: "pyval \<Rightarrow> string"
  bi_load :: "string \<Rightarrow> pyval option"
  bi_str :: "pyval \<Rightarrow> string"
  bi_float :: "string \<Rightarrow> pyfloat option"
  bi_digest :: "payload \<Rightarrow> string"

fun dec_nat :: "nat \<Rightarrow> string" where
  "dec_nat n = (if n < 10 then [char_of (48 + n)] else dec_nat (n div 10) @ [char_of (48 + n mod 10)])"

declare dec_nat.simps [simp del]

definition dec_int :: "int \<Rightarrow> string" where
  "dec_int i = (if i < 0 then CHR ''-'' # dec_nat (nat (- i)) else dec_nat (nat i))"

definition clock_dict :: "clock \<Rightarrow> pyval" where
  "clock_dict c = PDict (map (\<lambda>(k, n). (k, PInt n)) c)"

definition section_dict :: "bb_section \<Rightarrow> payload" where
  "section_dict s =
     [(''section'', PStr (sec_name s)), (''content'', sec_content s), (''author'', PStr (sec_author s)),
      (''clock'', clock_dict (sec_clock s)), (''timestamp'', PFloat (sec_time s)),
      (''version'', PInt (sec_version s)), (''etag'', PStr (''v'' @ dec_int (sec_version s)))]"

text \<open>\<open>float(v)\<close>; an integer that rounds to more than the largest double overflows.\<close>

definition float_of :: "board_io \<Rightarrow> pyval \<Rightarrow> event_error + pyfloat" where
  "float_of io v =
     (case v of
        PFloat f \<Rightarrow> Inr f
      | PInt i \<Rightarrow> if 2 ^ 1024 - 2 ^ 970 \<le> \<bar>i\<bar> then Inl Ev_Overflow else Inr (Fin (of_int i))
      | PBool b \<Rightarrow> Inr (Fin (if b then 1 else 0))
      | PStr s \<Rightarrow> (case bi_float io s of None \<Rightarrow> Inl (Ev_Value ''float'') | Some f \<Rightarrow> Inr f)
      | _ \<Rightarrow> Inl (Ev_Type ''float''))"

definition is_finite :: "pyfloat \<Rightarrow> bool" where
  "is_finite f = (case f of Fin _ \<Rightarrow> True | _ \<Rightarrow> False)"

text \<open>The loop over \<open>raw_clock\<close>: entries that are no non-negative integers are left out.\<close>

definition clean_clock :: "pyval \<Rightarrow> clock" where
  "clean_clock v =
     (case v of
        PDict d \<Rightarrow>
          fold (\<lambda>(k, x) c. case x of PBool _ \<Rightarrow> c
                  | _ \<Rightarrow> (case py_int x of Inl _ \<Rightarrow> c | Inr i \<Rightarrow> if 0 \<le> i then dict_set c k i else c)) d []
      | _ \<Rightarrow> [])"

text \<open>\<open>str(a or b)\<close>.\<close>

definition str_or :: "board_io \<Rightarrow> pyval \<Rightarrow> string \<Rightarrow> string" where
  "str_or io v d = (if py_truthy v then py_str (bi_str io) v else d)"

text \<open>A version that is no positive integer is 1.\<close>

definition version_of :: "pyval \<Rightarrow> int" where
  "version_of v =
     (case v of PNone \<Rightarrow> 1 | _ \<Rightarrow> (case py_int v of Inl _ \<Rightarrow> 1 | Inr i \<Rightarrow> if i \<le> 0 then 1 else i))"

text \<open>\<open>BlackboardSection.from_dict\<close>: only the overflow of \<open>float\<close> is not caught.\<close>

definition section_from_dict :: "board_io \<Rightarrow> seconds \<Rightarrow> pyval \<Rightarrow> string \<Rightarrow> event_error + bb_section" where
  "section_from_dict io now data default_section =
     (case data of
        PDict d \<Rightarrow>
          bindr (case dict_get d ''timestamp'' of
                   PNone \<Rightarrow> Inr (Fin now)
                 | v \<Rightarrow> (case float_of io v of
                          Inl Ev_Overflow \<Rightarrow> Inl Ev_Overflow
                        | Inl _ \<Rightarrow> Inr (Fin now)
                        | Inr f \<Rightarrow> Inr (if is_finite f then f else Fin now))) (\<lambda>t.
          Inr \<lparr>sec_name = str_or io (dict_get d ''section'') default_section,
               sec_content = dict_get d ''content'',
               sec_author = str_or io (dict_get d ''author'') ''agent'',
               sec_clock = clean_clock (dict_get d ''clock''),
               sec_time = t,
               sec_version = version_of (dict_get d ''version'')\<rparr>)
      | _ \<Rightarrow> Inr \<lparr>sec_name = default_section, sec_content = PNone, sec_author = ''agent'', sec_clock = [],
                  sec_time = Fin now, sec_version = 1\<rparr>)"

section \<open>Merging two versions\<close>

definition clock_get :: "clock \<Rightarrow> string \<Rightarrow> int" where
  "clock_get c k = (case map_of c k of None \<Rightarrow> 0 | Some n \<Rightarrow> n)"

definition clock_keys :: "clock \<Rightarrow> clock \<Rightarrow> string list" where
  "clock_keys c d = sorted_set (map fst c @ map fst d)"

text \<open>The order of the merged dict is that of a set of keys, which Python leaves open: ascending here.\<close>

definition merged_clock :: "clock \<Rightarrow> clock \<Rightarrow> clock" where
  "merged_clock c d = map (\<lambda>k. (k, max (clock_get c k) (clock_get d k))) (clock_keys c d)"

text \<open>Equality of dicts, and \<open>c\<close> dominates \<open>d\<close>.\<close>

definition same_clock :: "clock \<Rightarrow> clock \<Rightarrow> bool" where
  "same_clock c d \<longleftrightarrow> (\<forall>k \<in> set (clock_keys c d). map_of c k = map_of d k)"

definition dominates :: "clock \<Rightarrow> clock \<Rightarrow> bool" where
  "dominates c d \<longleftrightarrow>
     clock_keys c d \<noteq> [] \<and> (\<forall>k \<in> set (clock_keys c d). clock_get d k \<le> clock_get c k) \<and> \<not> same_clock c d"

definition finite_or :: "pyfloat \<Rightarrow> real \<Rightarrow> real" where
  "finite_or f d = (case f of Fin r \<Rightarrow> r | _ \<Rightarrow> d)"

text \<open>The winner of concurrent versions: the later one, then the larger author and content.\<close>

definition tie_key :: "board_io \<Rightarrow> bb_section \<Rightarrow> string \<times> string" where
  "tie_key io s = (sec_author s, bi_canon io (sec_content s))"

definition last_writer :: "board_io \<Rightarrow> bb_section \<Rightarrow> bb_section \<Rightarrow> bb_section" where
  "last_writer io s1 s2 =
     (if finite_or (sec_time s2) (- 1) < finite_or (sec_time s1) (- 1) then s1
      else if finite_or (sec_time s1) (- 1) < finite_or (sec_time s2) (- 1) then s2
      else if tie_key io s1 < tie_key io s2 then s2 else s1)"

definition merge_sections :: "board_io \<Rightarrow> seconds \<Rightarrow> bb_section \<Rightarrow> bb_section \<Rightarrow> event_error + bb_section" where
  "merge_sections io now s1 s2 =
     (if sec_name s1 \<noteq> sec_name s2 then Inl (Ev_Value ''Cannot merge sections with different names'')
      else
        (let c1 = sec_clock s1; c2 = sec_clock s2;
             (winner, version) =
               (if dominates c1 c2 then (s1, sec_version s1)
                else if dominates c2 c1 then (s2, sec_version s2)
                else (last_writer io s1 s2,
                      max (sec_version s1) (sec_version s2) + (if same_clock c1 c2 then 0 else 1)));
             max_ts = max (finite_or (sec_time s1) 0) (finite_or (sec_time s2) 0)
         in Inr \<lparr>sec_name = sec_name s1, sec_content = sec_content winner, sec_author = sec_author winner,
                 sec_clock = merged_clock c1 c2, sec_time = Fin (if 0 < max_ts then max_ts else now),
                 sec_version = version\<rparr>))"

section \<open>Tables\<close>

record board_row =
  bo_board :: string
  bo_section :: string
  bo_content :: string
  bo_author :: string
  bo_clock :: clock
  bo_time :: pyfloat
  bo_version :: int

text \<open>\<open>bb_events\<close> is the state store that shares the database, if there is one.\<close>

record bb_store =
  bb_rows :: "board_row list"
  bb_events :: "event_store option"

definition logs_events :: "bb_store \<Rightarrow> bool" where
  "logs_events st = (case bb_events st of None \<Rightarrow> False | Some es \<Rightarrow> es_enabled es)"

definition section_row :: "bb_store \<Rightarrow> string \<Rightarrow> string \<Rightarrow> board_row option" where
  "section_row st b s = find (\<lambda>r. bo_board r = b \<and> bo_section r = s) (bb_rows st)"

definition section_key :: "string \<Rightarrow> string \<Rightarrow> board_row \<Rightarrow> bool" where
  "section_key b s r \<longleftrightarrow> bo_board r = b \<and> bo_section r = s"

text \<open>\<open>_safe_json_loads(raw, raw_string_fallback=True)\<close>.\<close>

definition read_content :: "board_io \<Rightarrow> string \<Rightarrow> pyval" where
  "read_content io raw = (case bi_load io raw of None \<Rightarrow> PStr raw | Some v \<Rightarrow> v)"

definition row_section :: "board_io \<Rightarrow> board_row \<Rightarrow> bb_section" where
  "row_section io r =
     \<lparr>sec_name = bo_section r, sec_content = read_content io (bo_content r), sec_author = bo_author r,
      sec_clock = bo_clock r, sec_time = bo_time r, sec_version = bo_version r\<rparr>"

definition section_to_row :: "board_io \<Rightarrow> string \<Rightarrow> bb_section \<Rightarrow> board_row" where
  "section_to_row io b s =
     \<lparr>bo_board = b, bo_section = sec_name s, bo_content = bi_text io (sec_content s), bo_author = sec_author s,
      bo_clock = sec_clock s, bo_time = sec_time s, bo_version = sec_version s\<rparr>"

text \<open>\<open>INSERT ... ON CONFLICT(board_id, section) DO UPDATE\<close>.\<close>

definition put_section :: "board_row \<Rightarrow> board_row list \<Rightarrow> board_row list" where
  "put_section r rows =
     (if \<exists>x \<in> set rows. section_key (bo_board r) (bo_section r) x then
        update_where (section_key (bo_board r) (bo_section r)) (\<lambda>_. r) rows
      else rows @ [r])"

text \<open>\<open>_validate_blackboard_identifier\<close>.\<close>

definition board_identifier :: "pyval \<Rightarrow> string option" where
  "board_identifier v =
     (case v of PStr s \<Rightarrow> if py_strip s = [] \<or> nul \<in> set (py_strip s) then None else Some (py_strip s) | _ \<Rightarrow> None)"

definition board_stream :: "string \<Rightarrow> string \<Rightarrow> string" where
  "board_stream b s = ''blackboard:'' @ b @ '':'' @ s"

end
