(* ===== verification/Blackboard_Ops.thy ===== *)
theory Blackboard_Ops
  imports Blackboard
begin

text \<open>
  The operations of \<open>BlackboardStore\<close> (\<open>agent_blackboard.py\<close>).  An operation is one immediate transaction
  on the sections and the events; what it raises leaves both as they were.  Events are published to
  the subscribers after the commit.  \<open>ids\<close> gives the identifiers and the time of the \<open>n\<close>-th event that is
  created.
\<close>

section \<open>Updating a section\<close>

text \<open>\<open>Bb_Duplicate\<close> carries the stored section, its version and content as the event has them.\<close>

datatype update_result =
    Bb_Refused
  | Bb_Conflict int int
  | Bb_Key_Conflict int
  | Bb_Duplicate pyval int pyval
  | Bb_Updated bb_section "agent_event option"

text \<open>\<open>(v or {})\<close> that is asked for a key: anything but a dict has no \<open>get\<close>.\<close>

definition dict_or_empty :: "pyval \<Rightarrow> event_error + payload" where
  "dict_or_empty v =
     (if \<not> py_truthy v then Inr [] else case v of PDict d \<Rightarrow> Inr d | _ \<Rightarrow> Inl (Ev_Type ''attribute get''))"

definition opt_int :: "int option \<Rightarrow> pyval" where
  "opt_int n = (case n of None \<Rightarrow> PNone | Some i \<Rightarrow> PInt i)"

text \<open>\<open>all(int(stored_clock.get(str(key), 0)) >= int(value) ...)\<close>.\<close>

fun clock_covers :: "pyval \<Rightarrow> (string \<times> pyval) list \<Rightarrow> event_error + bool" where
  "clock_covers stored [] = Inr True"
| "clock_covers stored ((k, v) # rest) =
     (case stored of
        PDict d \<Rightarrow>
          bindr (py_int (get_default d k (PInt 0))) (\<lambda>a.
          bindr (py_int v) (\<lambda>b. if b \<le> a then clock_covers stored rest else Inr False))
      | _ \<Rightarrow> Inl (Ev_Type ''attribute get''))"

definition expected_matches :: "payload \<Rightarrow> payload \<Rightarrow> int option \<Rightarrow> int \<Rightarrow> event_error + bool" where
  "expected_matches saved stored expected existing =
     (if ''expected_version'' \<in> fst ` set saved then
        Inr (py_equal (dict_get saved ''expected_version'') (opt_int expected))
      else
        bindr (py_int (get_default stored ''version'' (PInt existing))) (\<lambda>v.
          Inr (case expected of None \<Rightarrow> True | Some n \<Rightarrow> v = n + 1)))"

text \<open>An event with the same key exists: the same request again, or a different one.\<close>

definition answer_duplicate ::
  "agent_event \<Rightarrow> pyval \<Rightarrow> string \<Rightarrow> (string \<times> pyval) list \<Rightarrow> int option \<Rightarrow> int \<Rightarrow> event_error + update_result" where
  "answer_duplicate e content author clock expected existing =
     (let stored_section = dict_get (ae_payload e) ''section'' in
      bindr (dict_or_empty stored_section) (\<lambda>stored.
      bindr (expected_matches (ae_payload e) stored expected existing) (\<lambda>expected_ok.
      bindr (clock_covers (get_default stored ''clock'' (PDict [])) clock) (\<lambda>clock_ok.
        if ae_kind e \<noteq> ''blackboard.updated'' \<or> \<not> py_truthy stored_section \<or>
           \<not> py_equal (dict_get stored ''content'') content \<or> \<not> py_equal (dict_get stored ''author'') (PStr author) \<or>
           \<not> expected_ok \<or> \<not> clock_ok
        then Inr (Bb_Key_Conflict existing)
        else
          bindr (py_int (get_default stored ''version'' (PInt existing))) (\<lambda>v.
            Inr (Bb_Duplicate stored_section v (get_default stored ''content'' content)))))))"

fun raise_clock :: "clock \<Rightarrow> (string \<times> pyval) list \<Rightarrow> event_error + clock" where
  "raise_clock c [] = Inr c"
| "raise_clock c ((k, v) # rest) =
     bindr (py_int v) (\<lambda>i. raise_clock (dict_set c k (max (clock_get c k) i)) rest)"

definition key_payload :: "string \<Rightarrow> string \<Rightarrow> string \<Rightarrow> int \<Rightarrow> pyval \<Rightarrow> (string \<times> pyval) list \<Rightarrow> payload" where
  "key_payload b s author base content clock =
     [(''board_id'', PStr b), (''section'', PStr s), (''author'', PStr author), (''base_version'', PInt base),
      (''content'', content), (''clock'', PDict clock)]"

definition stored_event_row :: "event_store \<Rightarrow> string \<Rightarrow> string \<Rightarrow> event_row option" where
  "stored_event_row es s k = find (\<lambda>r. er_stream r = s \<and> er_key r = k) (db_events (es_db es))"

definition update_payload :: "string \<Rightarrow> bb_section \<Rightarrow> int option \<Rightarrow> payload" where
  "update_payload b sec expected =
     [(''board_id'', PStr b), (''section'', PDict (section_dict sec)), (''expected_version'', opt_int expected)]"

text \<open>Writing the section and its event; \<open>existing\<close> is the version read, 0 without a row.\<close>

definition write_section ::
  "board_io \<Rightarrow> string \<times> string \<times> seconds \<Rightarrow> bb_store \<Rightarrow> string \<Rightarrow> bb_section \<Rightarrow> int option \<Rightarrow> int \<Rightarrow> string
     \<Rightarrow> event_error + bb_store \<times> update_result" where
  "write_section io ids st b sec expected existing key =
     (let s = sec_name sec; target = (\<lambda>r. section_key b s r \<and> bo_version r = existing) in
      if section_row st b s \<noteq> None \<and> count_where target (bb_rows st) \<noteq> 1 then
        Inr (st, Bb_Conflict (case section_row st b s of None \<Rightarrow> 0 | Some r \<Rightarrow> bo_version r) existing)
      else
        (let new_row = section_to_row io b sec;
             rows = (if section_row st b s = None then bb_rows st @ [new_row]
                     else update_where target (\<lambda>_. new_row) (bb_rows st));
             st1 = st\<lparr>bb_rows := rows\<rparr>
         in case bb_events st of
              None \<Rightarrow> Inr (st1, Bb_Updated sec None)
            | Some es \<Rightarrow>
                if \<not> es_enabled es then Inr (st1, Bb_Updated sec None)
                else
                  (case ids of (uid, uid', created) \<Rightarrow>
                     bindr (create_event uid uid' created (board_stream b s) ''blackboard.updated''
                              (Some (update_payload b sec expected)) key (sec_author sec) [] None) (\<lambda>e.
                     bindr (append_in_transaction (\<lambda>p. bi_text io (PDict p)) (bi_load io) es True e True) (\<lambda>(db, r).
                     bindr (require (ao_error r = None \<and> ao_event r \<noteq> None) (Ev_Runtime ''event append'')) (\<lambda>_.
                     bindr (require (\<not> ao_duplicate r) Ev_Integrity) (\<lambda>_.
                       Inr (st1\<lparr>bb_events := Some (es\<lparr>es_db := db\<rparr>)\<rparr>, Bb_Updated sec (ao_event r)))))))))"

text \<open>\<open>_update_in_transaction\<close>.\<close>

definition update_in_transaction ::
  "board_io \<Rightarrow> string \<times> string \<times> seconds \<Rightarrow> seconds \<Rightarrow> bb_store \<Rightarrow> string \<Rightarrow> string \<Rightarrow> pyval \<Rightarrow> string
     \<Rightarrow> (string \<times> pyval) list \<Rightarrow> int option \<Rightarrow> string \<Rightarrow> event_error + bb_store \<times> update_result" where
  "update_in_transaction io ids now st b s content author clock expected key =
     (let (existing_clock, existing) =
            (case section_row st b s of
               None \<Rightarrow> ([], 0)
             | Some r \<Rightarrow> (bo_clock r, if bo_version r = 0 then 1 else bo_version r));
          key' = (if key = [] then
                    ''bb_'' @ bi_digest io (key_payload b s author (case expected of None \<Rightarrow> existing | Some n \<Rightarrow> n) content clock)
                  else key);
          earlier = (case bb_events st of
                       None \<Rightarrow> None
                     | Some es \<Rightarrow> if es_enabled es then stored_event_row es (board_stream b s) key' else None)
      in case earlier of
           Some row \<Rightarrow>
             bindr (event_from_row (bi_load io) row) (\<lambda>e.
             bindr (answer_duplicate e content author clock expected existing) (\<lambda>res. Inr (st, res)))
         | None \<Rightarrow>
             if expected \<noteq> None \<and> expected \<noteq> Some existing then Inr (st, Bb_Conflict existing (the expected))
             else
               bindr (raise_clock existing_clock clock) (\<lambda>c.
                 write_section io ids st b
                   \<lparr>sec_name = s, sec_content = content, sec_author = author,
                    sec_clock = dict_set c author (clock_get c author + 1), sec_time = Fin now, sec_version = existing + 1\<rparr>
                   expected existing key'))"

text \<open>
  \<open>update\<close> with a transaction of its own.  A busy database is tried again; a published event reaches
  the subscribers after the commit, and an error there is raised although the update is committed.
\<close>

definition publish_events ::
  "board_io \<Rightarrow> (nat \<Rightarrow> nat \<Rightarrow> string \<times> string \<times> seconds) \<Rightarrow> agent_event list \<Rightarrow> bb_store \<Rightarrow> bb_store \<times> event_error option" where
  "publish_events io fresh es st =
     (case bb_events st of
        None \<Rightarrow> (st, None)
      | Some ev \<Rightarrow>
          (case publish_list (bi_str io) (es_enabled ev) fresh es (es_queues ev) of
             (qs, n, err) \<Rightarrow> (st\<lparr>bb_events := Some (ev\<lparr>es_queues := qs, es_dropped := es_dropped ev + n\<rparr>)\<rparr>, err)))"

definition published :: "update_result \<Rightarrow> agent_event list" where
  "published res = (case res of Bb_Updated _ (Some e) \<Rightarrow> [e] | _ \<Rightarrow> [])"

definition expected_of :: "pyval \<Rightarrow> event_error + int option" where
  "expected_of v =
     (case v of
        PNone \<Rightarrow> Inr None
      | PInt n \<Rightarrow> if n < 0 then Inl (Ev_Value ''expected_version'') else Inr (Some n)
      | _ \<Rightarrow> Inl (Ev_Value ''expected_version''))"

definition author_of :: "string \<Rightarrow> string" where
  "author_of a = (if py_strip a = [] then ''agent'' else py_strip a)"

text \<open>Opening the store sets up the state store.\<close>

definition open_board :: "board_row list \<Rightarrow> event_store option \<Rightarrow> bb_store" where
  "open_board rows es = \<lparr>bb_rows = rows, bb_events = map_option ensure_schema es\<rparr>"

definition update_board ::
  "board_io \<Rightarrow> (nat \<Rightarrow> bool) \<Rightarrow> (nat \<Rightarrow> string \<times> string \<times> seconds) \<Rightarrow> (nat \<Rightarrow> nat \<Rightarrow> string \<times> string \<times> seconds) \<Rightarrow> (nat \<Rightarrow> seconds)
     \<Rightarrow> bb_store \<Rightarrow> pyval \<Rightarrow> pyval \<Rightarrow> pyval \<Rightarrow> string \<Rightarrow> (string \<times> pyval) list \<Rightarrow> pyval \<Rightarrow> string
     \<Rightarrow> bb_store \<times> (event_error + update_result)" where
  "update_board io locked ids fresh now st board_id section content author clock expected_version key =
     (case expected_of expected_version of
        Inl err \<Rightarrow> (st, Inl err)
      | Inr expected \<Rightarrow>
          (case (board_identifier board_id, board_identifier section) of
             (Some b, Some s) \<Rightarrow>
               (case retry_busy 5 (\<lambda>k. if locked k then Inl Ev_Busy
                        else update_in_transaction io (ids k) (now k) st b s content (author_of author) clock expected key) of
                  Inl err \<Rightarrow> (st, Inl err)
                | Inr (st1, res) \<Rightarrow>
                    (case publish_events io fresh (published res) st1 of
                       (st2, None) \<Rightarrow> (st2, Inr res)
                     | (st2, Some err) \<Rightarrow> (st2, Inl err)))
           | _ \<Rightarrow> (st, Inr Bb_Refused)))"

section \<open>Merging remote sections\<close>

text \<open>One section; the accumulator holds the merged sections and the events to publish, oldest first.\<close>

record merge_acc =
  ma_store :: bb_store
  ma_merged :: "bb_section list"
  ma_events :: "agent_event list"

definition log_event ::
  "board_io \<Rightarrow> string \<times> string \<times> seconds \<Rightarrow> string \<Rightarrow> string \<Rightarrow> payload \<Rightarrow> string \<Rightarrow> string \<Rightarrow> event_store
     \<Rightarrow> event_error + event_store \<times> agent_event list" where
  "log_event io ids stream kind payload key actor es =
     (case ids of (uid, uid', created) \<Rightarrow>
        bindr (create_event uid uid' created stream kind (Some payload) key actor [] None) (\<lambda>e.
        bindr (append_in_transaction (\<lambda>p. bi_text io (PDict p)) (bi_load io) es True e True) (\<lambda>(db, r).
        bindr (require (ao_error r = None \<and> ao_event r \<noteq> None) (Ev_Runtime ''event append'')) (\<lambda>_.
          Inr (es\<lparr>es_db := db\<rparr>, if ao_duplicate r then [] else [the (ao_event r)])))))"

definition merge_payload :: "string \<Rightarrow> string \<Rightarrow> bb_section \<Rightarrow> payload" where
  "merge_payload b name remote = [(''board_id'', PStr b), (''section'', PStr name), (''remote'', PDict (section_dict remote))]"

definition merge_one ::
  "board_io \<Rightarrow> (nat \<Rightarrow> string \<times> string \<times> seconds) \<Rightarrow> seconds \<Rightarrow> string \<Rightarrow> string \<times> pyval \<Rightarrow> merge_acc \<Rightarrow> event_error + merge_acc" where
  "merge_one io ids now b item acc =
     (case item of (name, raw) \<Rightarrow>
        (case (name, raw) of
           (_ # _, PDict _) \<Rightarrow>
             bindr (section_from_dict io now raw name) (\<lambda>remote.
             bindr (case section_row (ma_store acc) b name of
                      Some r \<Rightarrow> merge_sections io now (row_section io r) remote
                    | None \<Rightarrow> Inr remote) (\<lambda>final.
               let st1 = (ma_store acc)\<lparr>bb_rows := put_section (section_to_row io b final) (bb_rows (ma_store acc))\<rparr>;
                   merged = ma_merged acc @ [final]
               in case bb_events st1 of
                    None \<Rightarrow> Inr (acc\<lparr>ma_store := st1, ma_merged := merged\<rparr>)
                  | Some es \<Rightarrow>
                      if \<not> es_enabled es then Inr (acc\<lparr>ma_store := st1, ma_merged := merged\<rparr>)
                      else
                        bindr (log_event io (ids (length (ma_merged acc))) (board_stream b name) ''blackboard.merged''
                                 [(''board_id'', PStr b), (''section'', PDict (section_dict final))]
                                 (''merge_'' @ bi_digest io (merge_payload b name remote))
                                 (if sec_author remote = [] then ''agent'' else sec_author remote) es) (\<lambda>(es', new).
                          Inr \<lparr>ma_store = st1\<lparr>bb_events := Some es'\<rparr>, ma_merged = merged, ma_events = ma_events acc @ new\<rparr>)))
         | _ \<Rightarrow> Inr acc))"

text \<open>The sections by name: the keys of a dict, or the \<open>section\<close> entries of a list of dicts.\<close>

definition remote_items :: "board_io \<Rightarrow> pyval \<Rightarrow> (string \<times> pyval) list option" where
  "remote_items io v =
     (case v of
        PDict d \<Rightarrow> Some d
      | PList vs \<Rightarrow>
          Some (fold (\<lambda>x items. case x of PDict d \<Rightarrow> dict_set items (py_str (bi_str io) (get_default d ''section'' (PStr []))) x
                                  | _ \<Rightarrow> items) vs [])
      | _ \<Rightarrow> None)"

definition merge_all ::
  "board_io \<Rightarrow> (nat \<Rightarrow> string \<times> string \<times> seconds) \<Rightarrow> seconds \<Rightarrow> string \<Rightarrow> (string \<times> pyval) list \<Rightarrow> bb_store
     \<Rightarrow> event_error + merge_acc" where
  "merge_all io ids now b items st =
     fold_res (merge_one io ids now b) items \<lparr>ma_store = st, ma_merged = [], ma_events = []\<rparr>"

definition merge_board ::
  "board_io \<Rightarrow> (nat \<Rightarrow> bool) \<Rightarrow> (nat \<Rightarrow> nat \<Rightarrow> string \<times> string \<times> seconds) \<Rightarrow> (nat \<Rightarrow> nat \<Rightarrow> string \<times> string \<times> seconds)
     \<Rightarrow> (nat \<Rightarrow> seconds) \<Rightarrow> bb_store \<Rightarrow> pyval \<Rightarrow> pyval \<Rightarrow> bb_store \<times> (event_error + bb_section list option)" where
  "merge_board io locked ids fresh now st board_id remote =
     (case (board_identifier board_id, remote_items io remote) of
        (Some b, Some items) \<Rightarrow>
          (case retry_busy 5 (\<lambda>k. if locked k then Inl Ev_Busy else merge_all io (ids k) (now k) b items st) of
             Inl err \<Rightarrow> (st, Inl err)
           | Inr acc \<Rightarrow>
               (case publish_events io fresh (ma_events acc) (ma_store acc) of
                  (st2, None) \<Rightarrow> (st2, Inr (Some (ma_merged acc)))
                | (st2, Some err) \<Rightarrow> (st2, Inl err)))
      | _ \<Rightarrow> (st, Inr None))"

section \<open>Deleting\<close>

definition deleted_payload :: "string \<Rightarrow> board_row \<Rightarrow> payload" where
  "deleted_payload b r =
     [(''board_id'', PStr b), (''section'', PStr (bo_section r)), (''deleted_version'', PInt (bo_version r)),
      (''clock'', clock_dict (bo_clock r))]"

fun log_deletions ::
  "board_io \<Rightarrow> (nat \<Rightarrow> string \<times> string \<times> seconds) \<Rightarrow> string \<Rightarrow> board_row list \<Rightarrow> event_store
     \<Rightarrow> event_error + event_store \<times> agent_event list" where
  "log_deletions io ids b [] es = Inr (es, [])"
| "log_deletions io ids b (r # rs) es =
     bindr (log_event io (ids 0) (board_stream b (bo_section r)) ''blackboard.deleted'' (deleted_payload b r) [] ''system'' es) (\<lambda>(es1, new).
     bindr (log_deletions io (ids \<circ> Suc) b rs es1) (\<lambda>(es2, more). Inr (es2, new @ more)))"

definition delete_in_transaction ::
  "board_io \<Rightarrow> (nat \<Rightarrow> string \<times> string \<times> seconds) \<Rightarrow> string \<Rightarrow> string option \<Rightarrow> bb_store
     \<Rightarrow> event_error + bb_store \<times> int \<times> agent_event list" where
  "delete_in_transaction io ids b s st =
     (let hit = (\<lambda>r. bo_board r = b \<and> (case s of None \<Rightarrow> True | Some x \<Rightarrow> bo_section r = x));
          gone = filter hit (bb_rows st);
          st1 = st\<lparr>bb_rows := delete_where hit (bb_rows st)\<rparr>
      in case bb_events st of
           None \<Rightarrow> Inr (st1, int (length gone), [])
         | Some es \<Rightarrow>
             if \<not> es_enabled es then Inr (st1, int (length gone), [])
             else bindr (log_deletions io ids b gone es) (\<lambda>(es', new).
                    Inr (st1\<lparr>bb_events := Some es'\<rparr>, int (length gone), new)))"

definition delete_board ::
  "board_io \<Rightarrow> (nat \<Rightarrow> bool) \<Rightarrow> (nat \<Rightarrow> nat \<Rightarrow> string \<times> string \<times> seconds) \<Rightarrow> (nat \<Rightarrow> nat \<Rightarrow> string \<times> string \<times> seconds)
     \<Rightarrow> bb_store \<Rightarrow> pyval \<Rightarrow> pyval \<Rightarrow> bb_store \<times> (event_error + int option)" where
  "delete_board io locked ids fresh st board_id section =
     (case (board_identifier board_id, if section = PNone then Some None else map_option Some (board_identifier section)) of
        (Some b, Some s) \<Rightarrow>
          (case retry_busy 5 (\<lambda>k. if locked k then Inl Ev_Busy else delete_in_transaction io (ids k) b s st) of
             Inl err \<Rightarrow> (st, Inl err)
           | Inr (st1, n, new) \<Rightarrow>
               (case publish_events io fresh new st1 of
                  (st2, None) \<Rightarrow> (st2, Inr (Some n))
                | (st2, Some err) \<Rightarrow> (st2, Inl err)))
      | _ \<Rightarrow> (st, Inr None))"

section \<open>Reading\<close>

text \<open>\<open>get\<close>: \<open>None\<close> is a refused identifier or a section that is not there.\<close>

definition get_section :: "board_io \<Rightarrow> bb_store \<Rightarrow> pyval \<Rightarrow> pyval \<Rightarrow> bb_section option" where
  "get_section io st board_id section =
     (case (board_identifier board_id, board_identifier section) of
        (Some b, Some s) \<Rightarrow> map_option (\<lambda>r. (row_section io r)\<lparr>sec_name := s\<rparr>) (section_row st b s)
      | _ \<Rightarrow> None)"

definition get_board :: "board_io \<Rightarrow> bb_store \<Rightarrow> pyval \<Rightarrow> bb_section list option" where
  "get_board io st board_id =
     map_option (\<lambda>b. map (row_section io) (filter (\<lambda>r. bo_board r = b) (bb_rows st))) (board_identifier board_id)"

definition list_boards :: "bb_store \<Rightarrow> string list" where
  "list_boards st = sorted_set (map bo_board (bb_rows st))"

definition has_board :: "bb_store \<Rightarrow> pyval \<Rightarrow> bool" where
  "has_board st board_id =
     (case board_identifier board_id of None \<Rightarrow> False | Some b \<Rightarrow> \<exists>r \<in> set (bb_rows st). bo_board r = b)"

definition has_section :: "bb_store \<Rightarrow> pyval \<Rightarrow> pyval \<Rightarrow> bool" where
  "has_section st board_id section =
     (case (board_identifier board_id, board_identifier section) of
        (Some b, Some s) \<Rightarrow> \<exists>r \<in> set (bb_rows st). section_key b s r
      | _ \<Rightarrow> False)"

definition get_section_version :: "bb_store \<Rightarrow> pyval \<Rightarrow> pyval \<Rightarrow> int option" where
  "get_section_version st board_id section =
     (case (board_identifier board_id, board_identifier section) of
        (Some b, Some s) \<Rightarrow> map_option bo_version (section_row st b s)
      | _ \<Rightarrow> None)"

text \<open>Section count, highest version and latest timestamp; rows hold finite timestamps.\<close>

definition board_stats :: "bb_store \<Rightarrow> pyval \<Rightarrow> nat \<times> int \<times> real option" where
  "board_stats st board_id =
     (case board_identifier board_id of
        None \<Rightarrow> (0, 0, None)
      | Some b \<Rightarrow>
          (let rows = filter (\<lambda>r. bo_board r = b) (bb_rows st); times = map (\<lambda>r. finite_or (bo_time r) 0) rows in
           (length rows, (case sql_max (map bo_version rows) of None \<Rightarrow> 0 | Some v \<Rightarrow> v),
            if times = [] then None else Some (foldr max (tl times) (hd times)))))"

end
