(* ===== verification/Blackboard_Merge.thy ===== *)
theory Blackboard_Merge
  imports Blackboard_Ops
begin

text \<open>
  What \<open>merge_sections\<close> guarantees as the merge of a replicated section: the clock of the result is the
  least upper bound, and two replicas that exchange their versions hold the same section afterwards, and
  a version that is delivered again changes nothing, unless the two clocks differ in entries that are
  zero and in nothing else: then each clock dominates the other and each replica keeps its own version.
  The merge is not associative, so three replicas that merge in different orders need not agree.
\<close>

section \<open>Clocks\<close>

lemma set_clock_keys [simp]: "set (clock_keys c d) = fst ` set c \<union> fst ` set d"
  by (auto simp: clock_keys_def)

lemma clock_keys_commute: "clock_keys c d = clock_keys d c"
proof -
  have "set (clock_keys c d) = set (clock_keys d c)" by auto
  then show ?thesis unfolding clock_keys_def sorted_set_def by (simp add: sorted_distinct_set_unique)
qed

lemma clock_get_missing: "k \<notin> fst ` set c \<Longrightarrow> clock_get c k = 0"
  by (simp add: clock_get_def map_of_eq_None_iff [THEN iffD2])

lemma same_clock_map: "same_clock c d \<longleftrightarrow> map_of c = map_of d"
proof
  assume same: "same_clock c d"
  show "map_of c = map_of d"
  proof
    fix k
    show "map_of c k = map_of d k"
    proof (cases "k \<in> set (clock_keys c d)")
      case False
      then have "map_of c k = None" "map_of d k = None" by (simp_all add: map_of_eq_None_iff)
      then show ?thesis by simp
    qed (use same in \<open>simp only: same_clock_def\<close>)
  qed
qed (simp add: same_clock_def)

lemma same_clock_get: "same_clock c d \<Longrightarrow> clock_get c k = clock_get d k"
  by (simp add: same_clock_map clock_get_def)

lemma dominates_iff: "dominates c d \<longleftrightarrow> (\<forall>k. clock_get d k \<le> clock_get c k) \<and> \<not> same_clock c d"
proof -
  have "clock_get d k \<le> clock_get c k" if "k \<notin> set (clock_keys c d)" for k
    using that by (simp add: clock_get_missing)
  then have le: "(\<forall>k \<in> set (clock_keys c d). clock_get d k \<le> clock_get c k) \<longleftrightarrow> (\<forall>k. clock_get d k \<le> clock_get c k)"
    by blast
  have "clock_keys c d \<noteq> []" if "\<not> same_clock c d"
    using that by (auto simp: same_clock_def simp del: set_clock_keys)
  then show ?thesis unfolding dominates_def le by blast
qed

lemma clock_get_merged: "clock_get (merged_clock c d) k = max (clock_get c k) (clock_get d k)"
proof -
  have "map_of (merged_clock c d) k =
      (if k \<in> set (clock_keys c d) then Some (max (clock_get c k) (clock_get d k)) else None)"
    by (simp add: merged_clock_def map_of_map_restrict restrict_map_def)
  then show ?thesis by (simp add: clock_get_def [of "merged_clock c d"] clock_get_missing)
qed

text \<open>Clocks that differ in entries equal to zero only, as \<open>from_dict\<close> and \<open>update\<close> keep them.\<close>

definition zero_apart :: "clock \<Rightarrow> clock \<Rightarrow> bool" where
  "zero_apart c d \<longleftrightarrow> (\<forall>k. clock_get c k = clock_get d k) \<and> \<not> same_clock c d"

lemma zero_apart_iff: "zero_apart c d \<longleftrightarrow> dominates c d \<and> dominates d c"
  by (auto simp: zero_apart_def dominates_iff same_clock_map intro: order_antisym)

lemma positive_not_zero_apart:
  assumes "\<forall>n \<in> snd ` set c. 0 < n" "\<forall>n \<in> snd ` set d. 0 < n"
  shows "\<not> zero_apart c d"
proof
  assume z: "zero_apart c d"
  have pos: "map_of e k = Some n \<Longrightarrow> \<forall>n \<in> snd ` set e. 0 < n \<Longrightarrow> 0 < n" for e :: clock and k n
    by (force dest: map_of_SomeD)
  have "map_of c k = map_of d k" for k
    using z pos [of c k] pos [of d k] assms unfolding zero_apart_def clock_get_def
    by (cases "map_of c k"; cases "map_of d k") (metis option.case less_irrefl)+
  then show False using z by (auto simp: zero_apart_def same_clock_map)
qed

lemma merged_clock_commute: "merged_clock c d = merged_clock d c"
  by (simp add: merged_clock_def clock_keys_commute [of c d] max.commute)

lemma merged_clock_again: "merged_clock (merged_clock c d) d = merged_clock c d"
proof -
  have "set (map fst (merged_clock c d)) = set (clock_keys c d)" by (simp add: merged_clock_def comp_def)
  then have "set (clock_keys (merged_clock c d) d) = set (clock_keys c d)" by auto
  then have "clock_keys (merged_clock c d) d = clock_keys c d"
    unfolding clock_keys_def sorted_set_def by (simp add: sorted_distinct_set_unique)
  moreover have "max (clock_get (merged_clock c d) k) (clock_get d k) = max (clock_get c k) (clock_get d k)" for k
    by (simp add: clock_get_merged)
  ultimately show ?thesis by (simp add: merged_clock_def)
qed

section \<open>Exchanging and delivering again\<close>

lemma same_clock_commute: "same_clock c d \<longleftrightarrow> same_clock d c"
  by (auto simp: same_clock_map)

definition told_apart :: "board_io \<Rightarrow> bb_section \<Rightarrow> bb_section \<Rightarrow> bool" where
  "told_apart io s1 s2 \<longleftrightarrow>
     bi_canon io (sec_content s1) \<noteq> bi_canon io (sec_content s2) \<or> sec_content s1 = sec_content s2"

lemma last_writer_commute:
  assumes "told_apart io s1 s2"
  shows "sec_content (last_writer io s1 s2) = sec_content (last_writer io s2 s1) \<and>
    sec_author (last_writer io s1 s2) = sec_author (last_writer io s2 s1)"
  using assms by (auto simp: last_writer_def told_apart_def tie_key_def not_less antisym_conv)

lemma merge_total: "sec_name s1 = sec_name s2 \<Longrightarrow> \<exists>m. merge_sections io now s1 s2 = Inr m"
  by (simp add: merge_sections_def Let_def split: prod.split)

lemma merge_commutes:
  assumes "\<not> zero_apart (sec_clock s1) (sec_clock s2)" "told_apart io s1 s2" "sec_name s1 = sec_name s2"
  shows "merge_sections io now s1 s2 = merge_sections io now s2 s1"
  using assms(1) last_writer_commute [OF assms(2)] assms(3) unfolding zero_apart_iff
  by (auto simp: merge_sections_def Let_def merged_clock_commute [of "sec_clock s1"] max.commute
      same_clock_commute [of "sec_clock s1"] split: prod.split)

text \<open>The clock reading matters only where neither version has a positive time.\<close>

lemma merge_clock_reading:
  assumes "merge_sections io now s1 s2 = Inr m"
  shows "merge_sections io now' s1 s2 = Inr (m\<lparr>sec_time := sec_time (projr (merge_sections io now' s1 s2))\<rparr>)"
    "0 < max (finite_or (sec_time s1) 0) (finite_or (sec_time s2) 0) \<Longrightarrow> merge_sections io now' s1 s2 = Inr m"
  using assms by (auto simp: merge_sections_def Let_def split: if_splits)

text \<open>The winner's time is at least that of either version, so it wins again.\<close>

lemma last_writer_again:
  assumes "sec_author m = sec_author w" "sec_content m = sec_content w"
    and "w = last_writer io s1 s2 \<or> w = s2" and time: "finite_or (sec_time s2) (- 1) \<le> finite_or (sec_time m) (- 1)"
    and tie: "finite_or (sec_time m) (- 1) = finite_or (sec_time s2) (- 1) \<Longrightarrow>
      finite_or (sec_time s1) (- 1) \<le> finite_or (sec_time s2) (- 1)"
  shows "sec_content (last_writer io m s2) = sec_content m \<and> sec_author (last_writer io m s2) = sec_author m"
proof (cases "finite_or (sec_time s2) (- 1) < finite_or (sec_time m) (- 1)")
  case False
  then have eq: "finite_or (sec_time m) (- 1) = finite_or (sec_time s2) (- 1)" using time by simp
  have "\<not> tie_key io m < tie_key io s2 \<or> w = s2"
  proof (cases "w = s2")
    case False
    then have "w = s1" "\<not> tie_key io s1 < tie_key io s2"
      using assms(3) tie [OF eq] by (auto simp: last_writer_def split: if_splits)
    then show ?thesis using assms(1,2) by (simp add: tie_key_def)
  qed simp
  then show ?thesis using assms(1,2) eq by (auto simp: last_writer_def)
qed (simp add: last_writer_def)

text \<open>Delivering the second version again.\<close>

lemma merge_again:
  assumes apart: "\<not> zero_apart (sec_clock s1) (sec_clock s2)" and now: "0 < now"
    and m: "merge_sections io now s1 s2 = Inr m"
  shows "merge_sections io now' m s2 = Inr m"
proof -
  let ?t1 = "finite_or (sec_time s1) 0" and ?t2 = "finite_or (sec_time s2) 0"
  define T where "T = (if 0 < max ?t1 ?t2 then max ?t1 ?t2 else now)"
  have name: "sec_name m = sec_name s2" and clock: "sec_clock m = merged_clock (sec_clock s1) (sec_clock s2)" and time: "sec_time m = Fin T"
    using m by (auto simp: merge_sections_def Let_def T_def split: if_splits)
  have T: "0 < T" "max T ?t2 = T" using now by (auto simp: T_def)
  have sup: "clock_get (sec_clock m) k = max (clock_get (sec_clock s1) k) (clock_get (sec_clock s2) k)" for k
    by (simp add: clock clock_get_merged)
  have again: "merged_clock (sec_clock m) (sec_clock s2) = sec_clock m" by (simp add: clock merged_clock_again)
  have old: "sec_content (last_writer io m s2) = sec_content m \<and> sec_author (last_writer io m s2) = sec_author m \<and>
      max (sec_version m) (sec_version s2) = sec_version m" if same: "same_clock (sec_clock m) (sec_clock s2)"
  proof -
    have "\<forall>k. clock_get (sec_clock s1) k \<le> clock_get (sec_clock s2) k"
      using same_clock_get [OF same] sup by (metis max.cobounded1)
    then have "\<not> dominates (sec_clock s1) (sec_clock s2)"
      using apart unfolding zero_apart_def dominates_iff by (meson order_antisym)
    then obtain w where w: "sec_content m = sec_content w" "sec_author m = sec_author w" "w = last_writer io s1 s2 \<or> w = s2"
        and version: "sec_version s2 \<le> sec_version m"
      using m by (auto simp: merge_sections_def Let_def split: if_splits)
    have le: "finite_or f (- 1) \<le> finite_or f 0" for f by (simp add: finite_or_def split: pyfloat.split)
    have eq: "0 < finite_or f (- 1) \<Longrightarrow> finite_or f (- 1) = finite_or f 0" for f by (simp add: finite_or_def split: pyfloat.splits)
    have "finite_or (sec_time s2) (- 1) \<le> T" using le [of "sec_time s2"] T(2) by linarith
    moreover have "finite_or (sec_time s1) (- 1) \<le> finite_or (sec_time s2) (- 1)" if "T = finite_or (sec_time s2) (- 1)"
      using that T(1) le [of "sec_time s1"] eq [of "sec_time s2"] by (auto simp: T_def split: if_splits)
    ultimately show ?thesis
      using last_writer_again [OF w(2,1,3)] time version by (simp add: finite_or_def)
  qed
  have "same_clock (sec_clock m) (sec_clock s2) \<or> dominates (sec_clock m) (sec_clock s2)"
    unfolding dominates_iff sup by (metis max.cobounded2)
  moreover have "same_clock (sec_clock m) (sec_clock s2) \<Longrightarrow>
      \<not> dominates (sec_clock m) (sec_clock s2) \<and> \<not> dominates (sec_clock s2) (sec_clock m)"
    by (simp add: dominates_def same_clock_commute [of "sec_clock s2"])
  ultimately show ?thesis
    using old T name again
    by (auto simp: merge_sections_def Let_def time finite_or_def intro!: bb_section.equality)
qed

lemma merge_zero_apart:
  assumes "zero_apart (sec_clock s1) (sec_clock s2)" "merge_sections io now s1 s2 = Inr m"
  shows "sec_content m = sec_content s1 \<and> sec_author m = sec_author s1 \<and> sec_version m = sec_version s1"
  using assms by (auto simp: zero_apart_iff merge_sections_def Let_def split: if_splits)

text \<open>
  C24. When two replicas merge each other's version of a section, at their own clock readings, the clock
  of either result is the least upper bound of both.  Unless the clocks differ in zero entries only, the
  results agree in everything but a time taken from the clock reading (none is when a version has a
  positive time), and merging either version into the result again changes nothing.  If they do differ
  in zero entries only, each replica keeps the content, author and version it had.  Contents that differ
  are told apart by their canonical text.
\<close>

theorem merge_exchange_converges:
  assumes "sec_name s1 = sec_name s2" "told_apart io s1 s2" "0 < now1"
  shows "\<exists>m1 m2. merge_sections io now1 s1 s2 = Inr m1 \<and> merge_sections io now2 s2 s1 = Inr m2 \<and>
    (\<forall>k. clock_get (sec_clock m1) k = max (clock_get (sec_clock s1) k) (clock_get (sec_clock s2) k)) \<and>
    sec_clock m2 = sec_clock m1 \<and>
    (if zero_apart (sec_clock s1) (sec_clock s2)
     then (sec_content m1, sec_author m1, sec_version m1) = (sec_content s1, sec_author s1, sec_version s1) \<and>
       (sec_content m2, sec_author m2, sec_version m2) = (sec_content s2, sec_author s2, sec_version s2)
     else m2 = m1\<lparr>sec_time := sec_time m2\<rparr> \<and>
       (0 < max (finite_or (sec_time s1) 0) (finite_or (sec_time s2) 0) \<longrightarrow> m2 = m1) \<and>
       merge_sections io now' m1 s1 = Inr m1 \<and> merge_sections io now' m1 s2 = Inr m1)"
proof -
  obtain m1 where m1: "merge_sections io now1 s1 s2 = Inr m1" using merge_total [OF assms(1)] by blast
  obtain m2 where m2: "merge_sections io now2 s2 s1 = Inr m2" using merge_total [OF assms(1) [symmetric]] by blast
  have clocks: "sec_clock m1 = merged_clock (sec_clock s1) (sec_clock s2)" "sec_clock m2 = merged_clock (sec_clock s1) (sec_clock s2)"
    using m1 m2 assms(1) merged_clock_commute [of "sec_clock s1"] by (auto simp: merge_sections_def Let_def split: if_splits)
  show ?thesis
  proof (cases "zero_apart (sec_clock s1) (sec_clock s2)")
    case True
    then have "zero_apart (sec_clock s2) (sec_clock s1)" by (auto simp: zero_apart_iff)
    then show ?thesis using True merge_zero_apart m1 m2 clocks by (simp add: clock_get_merged)
  next
    case False
    then have False': "\<not> zero_apart (sec_clock s2) (sec_clock s1)" by (auto simp: zero_apart_iff)
    have m1': "merge_sections io now1 s2 s1 = Inr m1" using merge_commutes [OF False assms(2,1)] m1 by simp
    note reading = merge_clock_reading [OF m1', of now2, unfolded m2]
    have "m2 = m1\<lparr>sec_time := sec_time m2\<rparr>" using reading(1) by simp
    moreover have "0 < max (finite_or (sec_time s1) 0) (finite_or (sec_time s2) 0) \<Longrightarrow> m2 = m1"
      using reading(2) by (simp add: max.commute)
    ultimately show ?thesis
      using False m1 m2 clocks merge_again [OF False assms(3) m1] merge_again [OF False' assms(3) m1']
      by (auto simp: clock_get_merged)
  qed
qed

section \<open>Three replicas\<close>

definition plain_io :: board_io where
  "plain_io = \<lparr>bi_text = (\<lambda>_. ''{}''), bi_canon = (\<lambda>v. case v of PStr s \<Rightarrow> s | _ \<Rightarrow> []), bi_load = (\<lambda>_. Some (PDict [])),
     bi_str = (\<lambda>_. []), bi_float = (\<lambda>_. None), bi_digest = (\<lambda>_. ''d'')\<rparr>"

definition sec_a :: bb_section where
  "sec_a = \<lparr>sec_name = ''s'', sec_content = PStr ''A'', sec_author = ''x'', sec_clock = [(''x'', 1)], sec_time = Fin 10, sec_version = 1\<rparr>"

text \<open>\<open>sec_b\<close> has seen \<open>sec_a\<close>, but its writer's clock is behind; \<open>sec_c\<close> is concurrent to both.\<close>

definition sec_b :: bb_section where
  "sec_b = \<lparr>sec_name = ''s'', sec_content = PStr ''B'', sec_author = ''x'', sec_clock = [(''x'', 2)], sec_time = Fin 1, sec_version = 2\<rparr>"

definition sec_c :: bb_section where
  "sec_c = \<lparr>sec_name = ''s'', sec_content = PStr ''C'', sec_author = ''y'', sec_clock = [(''y'', 1)], sec_time = Fin 5, sec_version = 1\<rparr>"

lemmas sample_sections = sec_a_def sec_b_def sec_c_def plain_io_def

theorem merge_exchange_converges_witness:
  "\<exists>m. merge_sections plain_io 1 sec_a sec_c = Inr m \<and> merge_sections plain_io 2 sec_c sec_a = Inr m \<and>
    merge_sections plain_io 3 m sec_c = Inr m"
proof -
  have "sec_name sec_a = sec_name sec_c" "told_apart plain_io sec_a sec_c"
    and z: "\<not> zero_apart (sec_clock sec_a) (sec_clock sec_c)"
    and t: "0 < max (finite_or (sec_time sec_a) 0) (finite_or (sec_time sec_c) 0)"
    by (simp_all add: sample_sections told_apart_def finite_or_def positive_not_zero_apart)
  then show ?thesis using merge_exchange_converges [of sec_a sec_c plain_io 1 2 3] z t by auto
qed

text \<open>An entry that is zero makes each clock dominate the other: the replicas keep different contents.\<close>

lemma zero_entries_diverge:
  "zero_apart [(''x'', 0), (''a'', 1)] [(''a'', 1)]"
  "map_sum id sec_content (merge_sections plain_io 1 (sec_a\<lparr>sec_clock := [(''x'', 0), (''a'', 1)]\<rparr>) (sec_c\<lparr>sec_clock := [(''a'', 1)]\<rparr>))
     = Inr (PStr ''A'')"
  "map_sum id sec_content (merge_sections plain_io 1 (sec_c\<lparr>sec_clock := [(''a'', 1)]\<rparr>) (sec_a\<lparr>sec_clock := [(''x'', 0), (''a'', 1)]\<rparr>))
     = Inr (PStr ''C'')"
  by (simp_all add: zero_apart_def merge_sections_def sample_sections dominates_def same_clock_def clock_keys_def sorted_set_def
      clock_get_def merged_clock_def last_writer_def finite_or_def Let_def)

text \<open>The contents that two replicas end with when they merge the same three versions in different orders.\<close>

lemma merge_orders_diverge:
  "map_sum id sec_content (bindr (merge_sections plain_io 1 sec_a sec_b) (\<lambda>m. merge_sections plain_io 1 m sec_c)) = Inr (PStr ''B'')"
  "map_sum id sec_content (bindr (merge_sections plain_io 1 sec_b sec_c) (\<lambda>m. merge_sections plain_io 1 sec_a m)) = Inr (PStr ''C'')"
  by (simp_all add: merge_sections_def sample_sections dominates_def same_clock_def clock_keys_def sorted_set_def clock_get_def
      merged_clock_def last_writer_def finite_or_def Let_def)

text \<open>A version that a merge takes over can be lower than the one it replaces.\<close>

lemma merge_lowers_version:
  "map_sum id sec_version (merge_sections plain_io 1 (sec_a\<lparr>sec_version := 7\<rparr>) sec_b) = Inr 2"
  by (simp add: merge_sections_def sample_sections dominates_def same_clock_def clock_keys_def sorted_set_def clock_get_def
      merged_clock_def Let_def)

end
