(* ===== verification/Blackboard_Guarantees.thy ===== *)
theory Blackboard_Guarantees
  imports Blackboard_Merge Event_Guarantees
begin

text \<open>
  What the blackboard guarantees its writers: an update that succeeds raised the version it was asked
  to replace by one and touched no other section, at most one of the updates that expect a version
  wins, and an update that is sent again is answered without being applied again.
\<close>

section \<open>Rows\<close>

definition row_key :: "board_row \<Rightarrow> string \<times> string" where
  "row_key r = (bo_board r, bo_section r)"

definition version_at :: "bb_store \<Rightarrow> string \<Rightarrow> string \<Rightarrow> int" where
  "version_at st b s = (case section_row st b s of None \<Rightarrow> 0 | Some r \<Rightarrow> bo_version r)"

definition board_inv :: "bb_store \<Rightarrow> bool" where
  "board_inv st \<longleftrightarrow>
     distinct (map row_key (bb_rows st)) \<and> (\<forall>r \<in> set (bb_rows st). 1 \<le> bo_version r) \<and>
     (case bb_events st of None \<Rightarrow> True | Some es \<Rightarrow> event_inv (es_db es))"

lemma section_key_row_key: "section_key b s r \<longleftrightarrow> row_key r = (b, s)"
  by (simp add: section_key_def row_key_def)

lemma section_row_key: "section_row st b s = find (\<lambda>r. row_key r = (b, s)) (bb_rows st)"
  by (simp add: section_row_def row_key_def)

lemma section_row_SomeD: "section_row st b s = Some r \<Longrightarrow> r \<in> set (bb_rows st) \<and> row_key r = (b, s)"
  unfolding section_row_key by (rule find_SomeD)

lemma section_row_None: "section_row st b s = None \<longleftrightarrow> (\<forall>r \<in> set (bb_rows st). row_key r \<noteq> (b, s))"
  by (auto simp: section_row_key find_None_iff)

lemma section_row_events [simp]: "section_row (st\<lparr>bb_events := es\<rparr>) b s = section_row st b s"
  by (simp add: section_row_def)

lemma find_key_update:
  "key r = k \<Longrightarrow> find (\<lambda>x. key x = k') (update_where (\<lambda>x. key x = k) (\<lambda>_. r) rows) =
     (if k' = k then (if \<exists>x \<in> set rows. key x = k then Some r else None) else find (\<lambda>x. key x = k') rows)"
  by (induction rows) (auto simp: update_where_def)

lemma find_key_snoc:
  "key r = k \<Longrightarrow> \<forall>x \<in> set rows. key x \<noteq> k \<Longrightarrow>
     find (\<lambda>x. key x = k') (rows @ [r]) = (if k' = k then Some r else find (\<lambda>x. key x = k') rows)"
  by (induction rows) auto

lemma put_section_key:
  "put_section r rows =
     (if \<exists>x \<in> set rows. row_key x = row_key r then update_where (\<lambda>x. row_key x = row_key r) (\<lambda>_. r) rows else rows @ [r])"
proof -
  have "section_key (bo_board r) (bo_section r) = (\<lambda>x. row_key x = row_key r)"
    by (auto simp: fun_eq_iff section_key_def row_key_def)
  then show ?thesis by (simp only: put_section_def)
qed

lemma section_row_put:
  "bb_rows st' = put_section r (bb_rows st) \<Longrightarrow>
     section_row st' b s = (if row_key r = (b, s) then Some r else section_row st b s)"
  by (auto simp: section_row_key put_section_key find_key_update [of row_key r] find_key_snoc [of row_key r])

lemma put_section_ok:
  assumes "distinct (map row_key rows)" "\<forall>x \<in> set rows. 1 \<le> bo_version x" "1 \<le> bo_version r"
  shows "distinct (map row_key (put_section r rows)) \<and> (\<forall>x \<in> set (put_section r rows). 1 \<le> bo_version x)"
proof (cases "\<exists>x \<in> set rows. row_key x = row_key r")
  case True
  have keys: "map row_key (update_where (\<lambda>x. row_key x = row_key r) (\<lambda>_. r) rows) = map row_key rows"
    by (simp add: update_where_def)
  have "\<forall>x \<in> set (update_where (\<lambda>x. row_key x = row_key r) (\<lambda>_. r) rows). 1 \<le> bo_version x"
    using assms(2,3) by (auto simp: update_where_def)
  then show ?thesis unfolding put_section_key if_P [OF True] keys using assms(1) by blast
next
  case False
  then show ?thesis unfolding put_section_key if_not_P [OF False] using assms by auto
qed

lemma length_filter_same: "distinct xs \<Longrightarrow> x \<in> set xs \<Longrightarrow> length (filter (\<lambda>y. y = x) xs) = 1"
proof (induction xs)
  case (Cons y ys)
  then show ?case by (cases "y = x") (auto simp: filter_empty_conv)
qed simp

lemma version_at_row: "board_inv st \<Longrightarrow> section_row st b s = Some r \<Longrightarrow> 1 \<le> bo_version r \<and> version_at st b s = bo_version r"
  using section_row_SomeD [of st b s r] by (auto simp: board_inv_def version_at_def)

lemma version_at_nonneg: "board_inv st \<Longrightarrow> 0 \<le> version_at st b s"
  using version_at_row [of st b s] by (cases "section_row st b s") (auto simp: version_at_def)

text \<open>The conditional \<open>UPDATE\<close> of a unique row is an insertion under its key.\<close>

lemma update_version_put:
  assumes rows: "distinct (map row_key rows)" and r: "r \<in> set rows" "row_key r = row_key new"
  shows "update_where (\<lambda>x. row_key x = row_key new \<and> bo_version x = bo_version r) (\<lambda>_. new) rows = put_section new rows"
    and "count_where (\<lambda>x. row_key x = row_key new \<and> bo_version x = bo_version r) rows = 1"
proof -
  have only: "row_key x = row_key new \<Longrightarrow> x = r" if "x \<in> set rows" for x
    using distinct_map_inj [OF rows that r(1)] r(2) by simp
  have same: "row_key x = row_key new \<and> bo_version x = bo_version r \<longleftrightarrow> x = r" if "x \<in> set rows" for x
    using only [OF that] r(2) by auto
  have ex: "\<exists>x \<in> set rows. row_key x = row_key new" using r by auto
  show "update_where (\<lambda>x. row_key x = row_key new \<and> bo_version x = bo_version r) (\<lambda>_. new) rows = put_section new rows"
    unfolding put_section_key if_P [OF ex] update_where_def using only r(2) by (intro map_cong) auto
  have "filter (\<lambda>x. row_key x = row_key new \<and> bo_version x = bo_version r) rows = filter (\<lambda>x. x = r) rows"
    by (rule filter_cong) (use same in auto)
  moreover have "length (filter (\<lambda>x. x = r) rows) = 1"
    using r(1) rows by (intro length_filter_same) (auto simp: distinct_map)
  ultimately show "count_where (\<lambda>x. row_key x = row_key new \<and> bo_version x = bo_version r) rows = 1" by (simp add: count_where_def)
qed

section \<open>One update\<close>

text \<open>The event of an update: created from the update, appended as a new event.\<close>

definition update_event ::
  "board_io \<Rightarrow> string \<times> string \<times> seconds \<Rightarrow> string \<Rightarrow> bb_section \<Rightarrow> int option \<Rightarrow> string \<Rightarrow> event_error + agent_event" where
  "update_event io ids b sec expected key =
     (case ids of (uid, uid', created) \<Rightarrow>
        create_event uid uid' created (board_stream b (sec_name sec)) ''blackboard.updated''
          (Some (update_payload b sec expected)) key (sec_author sec) [] None)"

lemma write_section_cases:
  assumes inv: "board_inv st" and name: "sec_name sec = s"
    and ok: "write_section io ids st b sec expected (version_at st b s) key = Inr (st', res)"
  obtains ev where "res = Bb_Updated sec ev" "bb_rows st' = put_section (section_to_row io b sec) (bb_rows st)"
    "\<not> logs_events st \<and> ev = None \<and> bb_events st' = bb_events st \<or>
     (\<exists>es e db r. bb_events st = Some es \<and> es_enabled es \<and> update_event io ids b sec expected key = Inr e \<and>
        append_in_transaction (\<lambda>p. bi_text io (PDict p)) (bi_load io) es True e True = Inr (db, r) \<and> \<not> ao_duplicate r \<and>
        ev = ao_event r \<and> bb_events st' = Some (es\<lparr>es_db := db\<rparr>))"
proof -
  let ?row = "section_to_row io b sec" and ?t = "\<lambda>r. section_key b s r \<and> bo_version r = version_at st b s"
  have key_row: "row_key ?row = (b, s)" by (simp add: section_to_row_def row_key_def name)
  have t: "?t = (\<lambda>x. row_key x = row_key ?row \<and> bo_version x = version_at st b s)"
    by (simp add: section_key_row_key key_row)
  have rows: "distinct (map row_key (bb_rows st))" using inv by (simp add: board_inv_def)
  have found: "count_where ?t (bb_rows st) = 1 \<and> update_where ?t (\<lambda>_. ?row) (bb_rows st) = put_section ?row (bb_rows st)"
    if "section_row st b s = Some r" for r
  proof -
    have r: "r \<in> set (bb_rows st)" "row_key r = row_key ?row" using section_row_SomeD [OF that] key_row by auto
    have "version_at st b s = bo_version r" using version_at_row [OF inv that] by simp
    then show ?thesis unfolding t using update_version_put [OF rows r] by simp
  qed
  have new: "bb_rows st @ [?row] = put_section ?row (bb_rows st)" if "section_row st b s = None"
    using that by (simp add: put_section_key key_row section_row_None)
  define put where "put = (if section_row st b s = None then bb_rows st @ [?row] else update_where ?t (\<lambda>_. ?row) (bb_rows st))"
  have put: "put = put_section ?row (bb_rows st)" using found new by (cases "section_row st b s") (auto simp: put_def)
  have no_conflict: "\<not> (section_row st b s \<noteq> None \<and> count_where ?t (bb_rows st) \<noteq> 1)" using found by (cases "section_row st b s") auto
  have body: "write_section io ids st b sec expected (version_at st b s) key =
      (case bb_events st of
              None \<Rightarrow> Inr (st\<lparr>bb_rows := put\<rparr>, Bb_Updated sec None)
            | Some es \<Rightarrow>
                if \<not> es_enabled es then Inr (st\<lparr>bb_rows := put\<rparr>, Bb_Updated sec None)
                else
                     bindr (update_event io ids b sec expected key) (\<lambda>e.
                     bindr (append_in_transaction (\<lambda>p. bi_text io (PDict p)) (bi_load io) es True e True) (\<lambda>(db, r).
                     bindr (require (ao_error r = None \<and> ao_event r \<noteq> None) (Ev_Runtime ''event append'')) (\<lambda>_.
                     bindr (require (\<not> ao_duplicate r) Ev_Integrity) (\<lambda>_.
                       Inr (st\<lparr>bb_rows := put, bb_events := Some (es\<lparr>es_db := db\<rparr>)\<rparr>, Bb_Updated sec (ao_event r)))))))"
    unfolding write_section_def Let_def name put_def [symmetric] if_not_P [OF no_conflict]
    by (simp add: update_event_def name split: option.split prod.split)
  show thesis
  proof (cases "logs_events st")
    case False
    then have "st' = st\<lparr>bb_rows := put\<rparr>" "res = Bb_Updated sec None"
      using ok unfolding body by (auto simp: logs_events_def split: option.splits)
    then show thesis using that False put by simp
  next
    case True
    then obtain es where es: "bb_events st = Some es" "es_enabled es" by (auto simp: logs_events_def split: option.splits)
    then show thesis using ok that unfolding body by (auto simp: put)
  qed
qed

text \<open>The clock a successful update writes.\<close>

lemma clock_get_set: "clock_get (dict_set c j n) k = (if k = j then n else clock_get c k)"
  by (simp add: clock_get_def)

lemma raise_clock_ge:
  assumes "raise_clock c kvs = Inr c'"
  shows "clock_get c k \<le> clock_get c' k \<and> (\<forall>(j, v) \<in> set kvs. \<exists>i. py_int v = Inr i \<and> i \<le> clock_get c' j)"
  using assms
proof (induction kvs arbitrary: c k)
  case (Cons kv kvs)
  obtain j v where kv: "kv = (j, v)" by (cases kv)
  obtain i where i: "py_int v = Inr i" "raise_clock (dict_set c j (max (clock_get c j) i)) kvs = Inr c'"
    using Cons.prems by (auto simp: kv)
  note ih = Cons.IH [OF i(2), THEN conjunct1] Cons.IH [OF i(2), THEN conjunct2]
  have "i \<le> clock_get c' j" using ih(1) [of j] by (simp add: clock_get_set)
  moreover have "clock_get c k \<le> clock_get c' k" using ih(1) [of k] by (simp add: clock_get_set split: if_splits)
  ultimately show ?case using ih(2) i(1) by (auto simp: kv)
qed simp

lemma update_cases:
  assumes inv: "board_inv st"
    and ok: "update_in_transaction io ids now st b s content author clock expected key = Inr (st', res)"
  obtains (unchanged) "st' = st" "\<And>sec ev. res \<noteq> Bb_Updated sec ev"
  | (written) sec c key' where "expected = None \<or> expected = Some (version_at st b s)"
      "raise_clock (case section_row st b s of None \<Rightarrow> [] | Some r \<Rightarrow> bo_clock r) clock = Inr c"
      "sec = \<lparr>sec_name = s, sec_content = content, sec_author = author, sec_clock = dict_set c author (clock_get c author + 1),
              sec_time = Fin now, sec_version = version_at st b s + 1\<rparr>"
      "write_section io ids st b sec expected (version_at st b s) key' = Inr (st', res)"
      "key' = (if key = [] then ''bb_'' @ bi_digest io (key_payload b s author
                 (case expected of None \<Rightarrow> version_at st b s | Some n \<Rightarrow> n) content clock) else key)"
proof -
  define old where "old = (case section_row st b s of None \<Rightarrow> [] | Some r \<Rightarrow> bo_clock r)"
  have existing: "(case section_row st b s of None \<Rightarrow> ([], 0) | Some r \<Rightarrow> (bo_clock r, if bo_version r = 0 then 1 else bo_version r)) =
      (old, version_at st b s)"
    using version_at_row [OF inv, of b s] by (auto simp: old_def version_at_def split: option.split)
  define key' where "key' = (if key = [] then ''bb_'' @ bi_digest io (key_payload b s author
                 (case expected of None \<Rightarrow> version_at st b s | Some n \<Rightarrow> n) content clock) else key)"
  define earlier where "earlier = (case bb_events st of None \<Rightarrow> None
                     | Some es \<Rightarrow> if es_enabled es then stored_event_row es (board_stream b s) key' else None)"
  note def = ok [unfolded update_in_transaction_def existing Let_def prod.case, folded key'_def, folded earlier_def]
  show thesis
  proof (cases earlier)
    case (Some row)
    then obtain e where "answer_duplicate e content author clock expected (version_at st b s) = Inr res" "st' = st"
      using def by auto
    moreover from this(1) have "res \<noteq> Bb_Updated sec ev" for sec ev by (auto simp: answer_duplicate_def Let_def split: if_splits)
    ultimately show thesis using unchanged by blast
  next
    case None
    show thesis
    proof (cases "expected \<noteq> None \<and> expected \<noteq> Some (version_at st b s)")
      case True
      then have "st' = st" "res = Bb_Conflict (version_at st b s) (the expected)" using def None by auto
      then show thesis using unchanged by simp
    next
      case False
      then show thesis using def None written unfolding old_def [symmetric] key'_def [symmetric] by auto
    qed
  qed
qed

section \<open>What an update does\<close>

lemma create_event_valid: "create_event uid uid' now s k p key a c t = Inr e \<Longrightarrow> valid_event e"
  unfolding create_event_def by (rule make_event_valid)

lemma update_event_valid: "update_event io ids b sec expected key = Inr e \<Longrightarrow> valid_event e"
  by (auto simp: update_event_def split: prod.splits dest: create_event_valid)

lemma update_event_fields:
  assumes "update_event io ids b sec expected key = Inr e" "key \<noteq> []"
  shows "valid_event e \<and> ae_stream e = board_stream b (sec_name sec) \<and> ae_kind e = ''blackboard.updated'' \<and> ae_key e = key \<and>
    ae_payload e = update_payload b sec expected \<and> ae_actor e = sec_author sec"
  using assms update_event_valid [OF assms(1)] by (auto simp: update_event_def create_event_def make_event_def payload_field_def split: prod.splits)

lemma append_event_inv:
  assumes "event_inv (es_db es)" "valid_event e" "append_in_transaction dumps loads es tx e strict = Inr (db, r)"
  shows "event_inv db"
  using tx_appends [OF assms] by (auto simp: appends_def)

text \<open>Everything about a successful update in one place.\<close>

lemma update_written:
  assumes inv: "board_inv st"
    and ok: "update_in_transaction io ids now st b s content author clock expected key = Inr (st', Bb_Updated sec ev)"
  obtains c key' where "expected = None \<or> expected = Some (version_at st b s)"
      "raise_clock (case section_row st b s of None \<Rightarrow> [] | Some r \<Rightarrow> bo_clock r) clock = Inr c"
      "sec = \<lparr>sec_name = s, sec_content = content, sec_author = author, sec_clock = dict_set c author (clock_get c author + 1),
              sec_time = Fin now, sec_version = version_at st b s + 1\<rparr>"
      "bb_rows st' = put_section (section_to_row io b sec) (bb_rows st)"
      "key' = (if key = [] then ''bb_'' @ bi_digest io (key_payload b s author
                 (case expected of None \<Rightarrow> version_at st b s | Some n \<Rightarrow> n) content clock) else key)"
      "\<not> logs_events st \<and> ev = None \<and> bb_events st' = bb_events st \<or>
       (\<exists>es e db r. bb_events st = Some es \<and> es_enabled es \<and> update_event io ids b sec expected key' = Inr e \<and>
          append_in_transaction (\<lambda>p. bi_text io (PDict p)) (bi_load io) es True e True = Inr (db, r) \<and> \<not> ao_duplicate r \<and>
          ev = ao_event r \<and> bb_events st' = Some (es\<lparr>es_db := db\<rparr>))"
proof (cases rule: update_cases [OF inv ok, case_names unchanged written])
  case unchanged
  then show thesis by blast
next
  case (written sec' c key')
  have name: "sec_name sec' = s" using written(3) by simp
  show thesis
  proof (cases rule: write_section_cases [OF inv name written(4)])
    case (1 ev')
    then have eq: "sec' = sec" "ev' = ev" by simp_all
    show thesis by (rule that [OF written(1,2) written(3) [unfolded eq(1)] 1(2) [unfolded eq(1)] written(5) 1(3) [unfolded eq]])
  qed
qed

lemma update_unchanged:
  assumes inv: "board_inv st"
    and ok: "update_in_transaction io ids now st b s content author clock expected key = Inr (st', res)"
    and res: "\<not> (\<exists>sec ev. res = Bb_Updated sec ev)"
  shows "st' = st"
proof (cases rule: update_cases [OF inv ok, case_names unchanged written])
  case (written sec c key')
  have name: "sec_name sec = s" using written(3) by simp
  show ?thesis
    by (cases rule: write_section_cases [OF inv name written(4)]) (use res in blast)
qed

lemma row_key_to_row [simp]: "row_key (section_to_row io b sec) = (b, sec_name sec)"
  by (simp add: row_key_def section_to_row_def)

lemma update_inv:
  assumes inv: "board_inv st"
    and ok: "update_in_transaction io ids now st b s content author clock expected key = Inr (st', res)"
  shows "board_inv st'"
proof (cases "\<exists>sec ev. res = Bb_Updated sec ev")
  case False
  then show ?thesis using inv update_unchanged [OF inv ok False] by simp
next
  case True
  then obtain sec ev where res: "res = Bb_Updated sec ev" by blast
  show ?thesis
  proof (cases rule: update_written [OF inv ok [unfolded res]])
    case (1 c key')
    have "1 \<le> bo_version (section_to_row io b sec)" using version_at_nonneg [OF inv, of b s] by (simp add: section_to_row_def 1(3))
    then have rows: "distinct (map row_key (bb_rows st')) \<and> (\<forall>r \<in> set (bb_rows st'). 1 \<le> bo_version r)"
      unfolding 1(4) using inv by (intro put_section_ok) (auto simp: board_inv_def)
    have "case bb_events st' of None \<Rightarrow> True | Some es \<Rightarrow> event_inv (es_db es)"
      using 1(6) inv append_event_inv update_event_valid by (fastforce simp: board_inv_def)
    then show ?thesis using rows by (simp add: board_inv_def)
  qed
qed

lemma board_update_step:
  assumes inv: "board_inv st"
    and ok: "update_in_transaction io ids now st b s content author clock expected key = Inr (st', Bb_Updated sec ev)"
  shows "(\<forall>n. expected = Some n \<longrightarrow> n = version_at st b s) \<and> version_at st' b s = version_at st b s + 1"
proof (cases rule: update_written [OF inv ok])
  case (1 c key')
  have "sec_name sec = s" "sec_version sec = version_at st b s + 1" by (simp_all add: 1(3))
  moreover from this(1) have "section_row st' b s = Some (section_to_row io b sec)" using section_row_put [OF 1(4), of b s] by simp
  ultimately have "version_at st' b s = version_at st b s + 1" by (simp add: version_at_def [of st'] section_to_row_def)
  then show ?thesis using 1(1) by auto
qed

text \<open>
  C21. An update either leaves everything as it was, or it found the version it was asked to replace,
  wrote the new content and author with the next version and a clock that is at least the old one and
  counts the author once more, and touched no other section; an event records it when the store has
  events.
\<close>

theorem board_update_exact:
  assumes inv: "board_inv st"
    and ok: "update_in_transaction io ids now st b s content author clock expected key = Inr (st', res)"
  shows "case res of
      Bb_Updated sec ev \<Rightarrow>
        (expected = None \<or> expected = Some (version_at st b s)) \<and> version_at st' b s = version_at st b s + 1 \<and>
        sec_content sec = content \<and> sec_author sec = author \<and>
        (\<forall>b' s'. section_row st' b' s' = (if (b', s') = (b, s) then Some (section_to_row io b sec) else section_row st b' s')) \<and>
        (\<forall>k. clock_get (case section_row st b s of None \<Rightarrow> [] | Some r \<Rightarrow> bo_clock r) k + (if k = author then 1 else 0)
          \<le> clock_get (sec_clock sec) k) \<and>
        (ev \<noteq> None \<longleftrightarrow> logs_events st)
    | _ \<Rightarrow> st' = st"
proof (cases "\<exists>sec ev. res = Bb_Updated sec ev")
  case False
  then show ?thesis using update_unchanged [OF inv ok False] by (auto split: update_result.split)
next
  case True
  then obtain sec ev where res: "res = Bb_Updated sec ev" by blast
  show ?thesis
  proof (cases rule: update_written [OF inv ok [unfolded res]])
    case (1 c key')
    let ?old = "case section_row st b s of None \<Rightarrow> [] | Some r \<Rightarrow> bo_clock r"
    have rows: "section_row st' b' s' = (if (b', s') = (b, s) then Some (section_to_row io b sec) else section_row st b' s')" for b' s'
      using section_row_put [OF 1(4), of b' s'] by (auto simp: 1(3))
    have version: "version_at st' b s = version_at st b s + 1" by (simp add: version_at_def [of st'] rows section_to_row_def 1(3))
    have clock: "clock_get ?old k + (if k = author then 1 else 0) \<le> clock_get (sec_clock sec) k" for k
      using raise_clock_ge [OF 1(2), THEN conjunct1, of k] by (cases "k = author") (auto simp: 1(3) clock_get_set)
    have "ev \<noteq> None \<longleftrightarrow> logs_events st"
    proof (cases "logs_events st")
      case True
      then obtain es e db r where e: "bb_events st = Some es" "update_event io ids b sec expected key' = Inr e"
        "append_in_transaction (\<lambda>p. bi_text io (PDict p)) (bi_load io) es True e True = Inr (db, r)" "ev = ao_event r"
        using 1(6) by blast
      have "event_inv (es_db es)" using inv e(1) by (simp add: board_inv_def)
      from committed_succeeds [OF this update_event_valid [OF e(2)] e(3)] show ?thesis
        using True e(4) by (simp add: append_succeeded_def)
    next
      case False
      then show ?thesis using 1(6) by (auto simp: logs_events_def)
    qed
    then show ?thesis unfolding res using 1(1) version rows clock by (simp add: 1(3))
  qed
qed

section \<open>Runs of updates\<close>

record board_update =
  up_locked :: "nat \<Rightarrow> bool"
  up_ids :: "nat \<Rightarrow> string \<times> string \<times> seconds"
  up_fresh :: "nat \<Rightarrow> nat \<Rightarrow> string \<times> string \<times> seconds"
  up_now :: "nat \<Rightarrow> seconds"
  up_board :: pyval
  up_section :: pyval
  up_content :: pyval
  up_author :: string
  up_clock :: "(string \<times> pyval) list"
  up_expected :: pyval
  up_key :: string

definition run_update :: "board_io \<Rightarrow> bb_store \<Rightarrow> board_update \<Rightarrow> bb_store \<times> (event_error + update_result)" where
  "run_update io st u =
     update_board io (up_locked u) (up_ids u) (up_fresh u) (up_now u) st (up_board u) (up_section u) (up_content u)
       (up_author u) (up_clock u) (up_expected u) (up_key u)"

lemma publish_rows:
  assumes "publish_events io fresh es st = (st', err)"
  shows "bb_rows st' = bb_rows st \<and> (board_inv st \<longrightarrow> board_inv st') \<and> version_at st' b s = version_at st b s"
  using assms by (auto simp: publish_events_def board_inv_def version_at_def section_row_def split: option.splits prod.splits)

text \<open>A call either changed nothing or committed one transaction.\<close>

lemma retry_busy_Inr: "retry_busy n operation = Inr x \<Longrightarrow> \<exists>i. operation i = Inr x"
  unfolding retry_busy_def by (rule retry_from_Inr)

lemma run_update_cases:
  assumes "run_update io st u = (st', r)"
  obtains (nothing) "st' = st" "\<And>sec ev. r \<noteq> Inr (Bb_Updated sec ev)"
  | (committed) b s n k st1 res where "board_identifier (up_board u) = Some b" "board_identifier (up_section u) = Some s"
      "expected_of (up_expected u) = Inr n"
      "update_in_transaction io (up_ids u k) (up_now u k) st b s (up_content u) (author_of (up_author u)) (up_clock u) n (up_key u) = Inr (st1, res)"
      "fst (publish_events io (up_fresh u) (published res) st1) = st'" "\<And>x. r = Inr x \<Longrightarrow> x = res"
proof (cases "expected_of (up_expected u)")
  case (Inl err)
  then have same: "st' = st" "r = Inl err" using assms by (auto simp: run_update_def update_board_def)
  show thesis by (rule nothing) (simp_all add: same)
next
  case (Inr n)
  show thesis
  proof (cases "board_identifier (up_board u) = None \<or> board_identifier (up_section u) = None")
    case True
    then have same: "st' = st" "r = Inr Bb_Refused" using assms Inr by (auto simp: run_update_def update_board_def split: option.splits)
    show thesis by (rule nothing) (simp_all add: same)
  next
    case False
    then obtain b s where bs: "board_identifier (up_board u) = Some b" "board_identifier (up_section u) = Some s" by auto
    let ?attempt = "\<lambda>k. if up_locked u k then Inl Ev_Busy
       else update_in_transaction io (up_ids u k) (up_now u k) st b s (up_content u) (author_of (up_author u)) (up_clock u) n (up_key u)"
    show thesis
    proof (cases "retry_busy 5 ?attempt")
      case err: (Inl err)
      then have same: "st' = st" "r = Inl err" using assms Inr bs by (auto simp: run_update_def update_board_def)
      show thesis by (rule nothing) (simp_all add: same)
    next
      case res: (Inr x)
      obtain st1 res where x: "x = (st1, res)" by (cases x)
      obtain k where "?attempt k = Inr (st1, res)" using retry_busy_Inr [OF res [unfolded x]] ..
      then have k: "update_in_transaction io (up_ids u k) (up_now u k) st b s (up_content u) (author_of (up_author u)) (up_clock u) n (up_key u) = Inr (st1, res)"
        by (simp split: if_splits)
      have out: "(st', r) = (case publish_events io (up_fresh u) (published res) st1 of
                       (st2, None) \<Rightarrow> (st2, Inr res) | (st2, Some err) \<Rightarrow> (st2, Inl err))"
        using assms Inr bs res x by (simp add: run_update_def update_board_def)
      obtain st2 err where pub: "publish_events io (up_fresh u) (published res) st1 = (st2, err)" by fastforce
      have "st' = st2 \<and> (\<forall>x. r = Inr x \<longrightarrow> x = res)" using out unfolding pub by (cases err) simp_all
      then show thesis using committed [OF bs Inr k] pub by simp
    qed
  qed
qed

lemma run_update_ok:
  assumes inv: "board_inv st"
  shows "board_inv (fst (run_update io st u)) \<and> version_at st b s \<le> version_at (fst (run_update io st u)) b s"
proof -
  obtain st' r where run: "run_update io st u = (st', r)" by fastforce
  then show ?thesis
  proof (cases rule: run_update_cases [OF run, case_names nothing committed])
    case (committed b' s' n k st1 res)
    obtain err where pub: "publish_events io (up_fresh u) (published res) st1 = (st', err)" using committed(5) by (metis prod.collapse)
    have inv1: "board_inv st1" by (rule update_inv [OF inv committed(4)])
    have "version_at st b s \<le> version_at st1 b s"
    proof (cases "\<exists>sec ev. res = Bb_Updated sec ev")
      case False
      then show ?thesis using update_unchanged [OF inv committed(4)] by simp
    next
      case True
      then obtain sec ev where "res = Bb_Updated sec ev" by blast
      from update_written [OF inv committed(4) [unfolded this]] obtain key' c where
        w: "sec_version sec = version_at st b' s' + 1" "sec_name sec = s'" "bb_rows st1 = put_section (section_to_row io b' sec) (bb_rows st)"
        by (metis (no_types, lifting) bb_section.select_convs(1,6))
      have "row_key (section_to_row io b' sec) = (b', s')" "bo_version (section_to_row io b' sec) = version_at st b' s' + 1"
        using w(1,2) by (simp_all add: row_key_def section_to_row_def)
      then show ?thesis using section_row_put [OF w(3), of b s] by (cases "(b, s) = (b', s')") (auto simp: version_at_def)
    qed
    then show ?thesis using run publish_rows [OF pub] inv1 by simp
  qed (use inv in simp)
qed

interpretation board_updates: counter_machine "\<lambda>st u. fst (run_update io st u)" board_inv "\<lambda>(b, s) st. version_at st b s"
  by unfold_locales (auto dest: run_update_ok)

section \<open>Merges and deletions\<close>

lemma log_event_inv:
  assumes "event_inv (es_db es)" "log_event io ids stream kind p key actor es = Inr (es', new)"
  shows "event_inv (es_db es')"
  using assms append_event_inv create_event_valid by (fastforce simp: log_event_def split: prod.splits)

lemma version_of_pos: "1 \<le> version_of v"
  by (simp add: version_of_def split: pyval.split sum.split)

lemma section_from_dict_version: "section_from_dict io now data d = Inr s \<Longrightarrow> 1 \<le> sec_version s"
  using version_of_pos by (cases data) (auto simp: section_from_dict_def)

lemma merge_version:
  assumes "merge_sections io now s1 s2 = Inr m" "1 \<le> sec_version s1" "1 \<le> sec_version s2"
  shows "1 \<le> sec_version m"
  using assms by (auto simp: merge_sections_def Let_def split: if_splits)

lemma merge_one_inv:
  assumes inv: "board_inv (ma_store acc)" and ok: "merge_one io ids now b item acc = Inr acc'"
  shows "board_inv (ma_store acc')"
proof (cases "\<exists>c name d. item = (c # name, PDict d)")
  case False
  then have "acc' = acc" using ok by (auto simp: merge_one_def split: prod.splits list.splits pyval.splits)
  then show ?thesis using inv by simp
next
  case True
  then obtain c name d where item: "item = (c # name, PDict d)" by blast
  let ?st = "ma_store acc"
  obtain remote where remote: "section_from_dict io now (PDict d) (c # name) = Inr remote"
    using ok by (auto simp: merge_one_def item)
  obtain final where final: "(case section_row ?st b (c # name) of
        Some r \<Rightarrow> merge_sections io now (row_section io r) remote | None \<Rightarrow> Inr remote) = Inr final"
    using ok remote by (auto simp: merge_one_def item)
  define rows where "rows = put_section (section_to_row io b final) (bb_rows ?st)"
  have "1 \<le> sec_version final"
  proof (cases "section_row ?st b (c # name)")
    case None
    then show ?thesis using final section_from_dict_version [OF remote] by simp
  next
    case (Some r)
    then have "1 \<le> sec_version (row_section io r)" using version_at_row [OF inv Some] by (simp add: row_section_def)
    then show ?thesis using final Some section_from_dict_version [OF remote] merge_version by auto
  qed
  then have rows: "distinct (map row_key rows) \<and> (\<forall>r \<in> set rows. 1 \<le> bo_version r)"
    unfolding rows_def using inv by (intro put_section_ok) (auto simp: board_inv_def section_to_row_def)
  show ?thesis
  proof (cases "bb_events ?st")
    case None
    then have "ma_store acc' = ?st\<lparr>bb_rows := rows\<rparr>" using ok remote final by (auto simp: merge_one_def item rows_def)
    then show ?thesis using rows None by (simp add: board_inv_def)
  next
    case (Some es)
    have es: "event_inv (es_db es)" using inv Some by (simp add: board_inv_def)
    show ?thesis
    proof (cases "es_enabled es")
      case False
      then have "ma_store acc' = ?st\<lparr>bb_rows := rows\<rparr>" using ok remote final Some by (auto simp: merge_one_def item rows_def)
      then show ?thesis using rows Some es by (simp add: board_inv_def)
    next
      case True
      obtain es' new where new: "log_event io (ids (length (ma_merged acc))) (board_stream b (c # name)) ''blackboard.merged''
             [(''board_id'', PStr b), (''section'', PDict (section_dict final))]
             (''merge_'' @ bi_digest io (merge_payload b (c # name) remote))
             (if sec_author remote = [] then ''agent'' else sec_author remote) es = Inr (es', new)"
        using ok remote final Some True by (auto simp: merge_one_def item rows_def)
      then have "ma_store acc' = ?st\<lparr>bb_rows := rows, bb_events := Some es'\<rparr>"
        using ok remote final Some True by (auto simp: merge_one_def item rows_def)
      then show ?thesis using rows log_event_inv [OF es new] by (simp add: board_inv_def)
    qed
  qed
qed

lemma fold_res_inv:
  assumes "P b" "\<And>x b b'. P b \<Longrightarrow> f x b = Inr b' \<Longrightarrow> P b'" "fold_res f xs b = Inr c"
  shows "P c"
  using assms(1,3) by (induction xs arbitrary: b) (auto intro: assms(2))

lemma merge_all_inv:
  assumes "board_inv st" "merge_all io ids now b items st = Inr acc" shows "board_inv (ma_store acc)"
  by (rule fold_res_inv [where P = "\<lambda>a. board_inv (ma_store a)", OF _ _ assms(2) [unfolded merge_all_def]])
    (auto simp: assms(1) intro: merge_one_inv)

lemma log_deletions_inv:
  assumes "event_inv (es_db es)" "log_deletions io ids b rs es = Inr (es', new)"
  shows "event_inv (es_db es')"
  using assms by (induction rs arbitrary: ids es new) (fastforce dest: log_event_inv)+

lemma delete_inv:
  assumes "board_inv st" "delete_in_transaction io ids b s st = Inr (st', n, new)"
  shows "board_inv st'"
proof -
  define hit where "hit = (\<lambda>r :: board_row. bo_board r = b \<and> (case s of None \<Rightarrow> True | Some x \<Rightarrow> bo_section r = x))"
  have rows: "distinct (map row_key (delete_where hit (bb_rows st))) \<and> (\<forall>r \<in> set (delete_where hit (bb_rows st)). 1 \<le> bo_version r)"
    using assms(1) distinct_map_delete_where [of row_key "bb_rows st" hit] by (simp add: board_inv_def)
  show ?thesis
  proof (cases "logs_events st")
    case False
    then have "st' = st\<lparr>bb_rows := delete_where hit (bb_rows st)\<rparr>"
      using assms(2) unfolding delete_in_transaction_def Let_def hit_def [symmetric]
      by (cases "bb_events st") (auto simp: logs_events_def)
    then show ?thesis using rows assms(1) by (simp add: board_inv_def)
  next
    case True
    then obtain es es' where es: "bb_events st = Some es"
      "st' = st\<lparr>bb_rows := delete_where hit (bb_rows st), bb_events := Some es'\<rparr>"
      "log_deletions io ids b (filter hit (bb_rows st)) es = Inr (es', new)"
      using assms(2) that unfolding delete_in_transaction_def Let_def hit_def [symmetric]
      by (cases "bb_events st") (auto simp: logs_events_def)
    then show ?thesis using rows assms(1) log_deletions_inv [OF _ es(3)] by (simp add: board_inv_def)
  qed
qed

text \<open>The operations that change a blackboard.\<close>

datatype board_op =
    Op_Update board_update
  | Op_Merge "nat \<Rightarrow> bool" "nat \<Rightarrow> nat \<Rightarrow> string \<times> string \<times> seconds" "nat \<Rightarrow> nat \<Rightarrow> string \<times> string \<times> seconds" "nat \<Rightarrow> seconds" pyval pyval
  | Op_Delete "nat \<Rightarrow> bool" "nat \<Rightarrow> nat \<Rightarrow> string \<times> string \<times> seconds" "nat \<Rightarrow> nat \<Rightarrow> string \<times> string \<times> seconds" pyval pyval

fun board_exec :: "board_io \<Rightarrow> bb_store \<Rightarrow> board_op \<Rightarrow> bb_store" where
  "board_exec io st (Op_Update u) = fst (run_update io st u)"
| "board_exec io st (Op_Merge locked ids fresh now b remote) = fst (merge_board io locked ids fresh now st b remote)"
| "board_exec io st (Op_Delete locked ids fresh b s) = fst (delete_board io locked ids fresh st b s)"

lemma publish_inv: "board_inv st \<Longrightarrow> board_inv (fst (publish_events io fresh es st))"
  using publish_rows by (metis prod.collapse)

lemma published_inv:
  assumes "board_inv st"
  shows "board_inv (fst (case publish_events io fresh es st of (st2, None) \<Rightarrow> (st2, Inr res) | (st2, Some err) \<Rightarrow> (st2, Inl err)))"
proof -
  obtain st2 err where pub: "publish_events io fresh es st = (st2, err)" by fastforce
  then have "board_inv st2" using publish_inv [OF assms, of io fresh es] by simp
  then show ?thesis unfolding pub by (cases err) simp_all
qed

lemma merge_board_inv:
  assumes "board_inv st" shows "board_inv (fst (merge_board io locked ids fresh now st board_id remote))"
proof (cases "board_identifier board_id = None \<or> remote_items io remote = None")
  case True
  then show ?thesis using assms by (auto simp: merge_board_def split: option.split)
next
  case False
  then obtain b items where some: "board_identifier board_id = Some b" "remote_items io remote = Some items" by auto
  let ?attempt = "\<lambda>k. if locked k then Inl Ev_Busy else merge_all io (ids k) (now k) b items st"
  show ?thesis
  proof (cases "retry_busy 5 ?attempt")
    case (Inr acc)
    obtain k where "?attempt k = Inr acc" using retry_busy_Inr [OF Inr] ..
    then have "board_inv (ma_store acc)" using merge_all_inv [OF assms] by (auto split: if_splits)
    then show ?thesis using published_inv by (simp add: merge_board_def some Inr)
  qed (simp add: merge_board_def some assms)
qed

lemma delete_board_inv:
  assumes "board_inv st" shows "board_inv (fst (delete_board io locked ids fresh st board_id section))"
proof -
  define arg where "arg = (if section = PNone then Some None else map_option Some (board_identifier section))"
  show ?thesis
  proof (cases "board_identifier board_id = None \<or> arg = None")
    case True
    then show ?thesis using assms unfolding delete_board_def arg_def [symmetric] by (auto split: option.split)
  next
    case False
    then obtain b s where some: "board_identifier board_id = Some b" "arg = Some s" by auto
    let ?attempt = "\<lambda>k. if locked k then Inl Ev_Busy else delete_in_transaction io (ids k) b s st"
    show ?thesis
    proof (cases "retry_busy 5 ?attempt")
      case (Inr x)
      obtain st1 n new where x: "x = (st1, n, new)" by (cases x)
      obtain k where "?attempt k = Inr x" using retry_busy_Inr [OF Inr] ..
      then have "board_inv st1" using delete_inv [OF assms] by (auto simp: x split: if_splits)
      then show ?thesis using published_inv unfolding delete_board_def arg_def [symmetric] by (simp add: some Inr x)
    qed (simp add: delete_board_def arg_def [symmetric] some assms)
  qed
qed

interpretation board_machine: inv_machine "board_exec io" board_inv
proof
  fix st oper
  assume "board_inv st"
  then show "board_inv (board_exec io st oper)"
    by (cases oper) (simp_all add: run_update_ok merge_board_inv delete_board_inv)
qed


text \<open>
  At most one of the updates of a section that expect the same version wins: after a successful one,
  none of the others succeeds any more, whatever updates of this and other sections come between.
\<close>

theorem board_cas_wins_once:
  assumes inv: "board_inv st" and first: "run_update io st u = (st1, Inr (Bb_Updated sec ev))" "up_expected u = PInt n"
    and other: "up_expected u' = PInt n" "board_identifier (up_board u') = board_identifier (up_board u)"
      "board_identifier (up_section u') = board_identifier (up_section u)"
  shows "snd (run_update io (foldl (\<lambda>st u. fst (run_update io st u)) st1 us) u') \<noteq> Inr (Bb_Updated sec' ev')"
proof
  define st2 where "st2 = foldl (\<lambda>st u. fst (run_update io st u)) st1 us"
  assume "snd (run_update io (foldl (\<lambda>st u. fst (run_update io st u)) st1 us) u') = Inr (Bb_Updated sec' ev')"
  then obtain st3 where second: "run_update io st2 u' = (st3, Inr (Bb_Updated sec' ev'))" unfolding st2_def by (metis prod.collapse)
  obtain b s n1 k sta where a: "board_identifier (up_board u) = Some b" "board_identifier (up_section u) = Some s"
    "expected_of (up_expected u) = Inr n1"
    "update_in_transaction io (up_ids u k) (up_now u k) st b s (up_content u) (author_of (up_author u)) (up_clock u) n1 (up_key u) = Inr (sta, Bb_Updated sec ev)"
    "fst (publish_events io (up_fresh u) (published (Bb_Updated sec ev)) sta) = st1"
    by (cases rule: run_update_cases [OF first(1)]) blast+
  obtain n2 k2 stb where c: "expected_of (up_expected u') = Inr n2"
    "update_in_transaction io (up_ids u' k2) (up_now u' k2) st2 b s (up_content u') (author_of (up_author u')) (up_clock u') n2 (up_key u') = Inr (stb, Bb_Updated sec' ev')"
  proof (cases rule: run_update_cases [OF second, case_names nothing committed])
    case (committed b' s' n' k' st' res')
    then show thesis using a(1,2) other(2,3) that by auto
  qed blast
  have n: "n1 = Some n" "n2 = Some n" using a(3) c(1) first(2) other(1) by (auto simp: expected_of_def split: if_splits)
  have inv1: "board_inv st1" using run_update_ok [OF inv] first(1) by (metis fst_conv)
  have inv2: "board_inv st2" unfolding st2_def by (rule board_updates.inv_run [OF inv1])
  have "version_at st1 b s = n + 1"
    using board_update_step [OF inv a(4)] n(1) publish_rows [of io "up_fresh u" "published (Bb_Updated sec ev)" sta] a(5)
    by (metis prod.collapse)
  moreover have "version_at st1 b s \<le> version_at st2 b s"
    unfolding st2_def using board_updates.rank_run [OF inv1, where k = "(b, s)"] by simp
  moreover have "version_at st2 b s = n" using board_update_step [OF inv2 c(2)] n(2) by simp
  ultimately show False by simp
qed

end
