(* ===== verification/Blackboard_Retry.thy ===== *)
theory Blackboard_Retry
  imports Blackboard_Guarantees
begin

text \<open>
  An update that is sent again, and the places where an operation of the blackboard does not do what its
  caller is told.
\<close>

section \<open>Sending an update again\<close>







section \<open>Examples\<close>

definition board_events0 :: event_store where
  "board_events0 = \<lparr>es_enabled = True, es_max_payload = 100, es_ready = True, es_exists = True, es_db = empty_events,
     es_queues = [], es_dropped = 0\<rparr>"

definition board0 :: bb_store where "board0 = \<lparr>bb_rows = [], bb_events = Some board_events0\<rparr>"

definition sec1 :: bb_section where
  "sec1 = \<lparr>sec_name = ''s'', sec_content = PStr ''x'', sec_author = ''a'', sec_clock = [(''a'', 1)], sec_time = Fin 1, sec_version = 1\<rparr>"

text \<open>A reader that knows the one payload it is asked for, and a digest that shows the base version.\<close>

definition reading :: "payload \<Rightarrow> board_io" where
  "reading p = plain_io\<lparr>bi_load := (\<lambda>_. Some (PDict p)),
     bi_digest := (\<lambda>d. case dict_get d ''base_version'' of PInt n \<Rightarrow> dec_int n | _ \<Rightarrow> ''d'')\<rparr>"

definition io1 :: board_io where "io1 = reading (update_payload ''b'' sec1 (Some 0))"
definition io2 :: board_io where "io2 = reading (update_payload ''b'' sec1 None)"

lemma board0_ok: "board_inv board0" "logs_events board0"
  by (simp_all add: board_inv_def board0_def board_events0_def logs_events_def)

lemma first_update:
  "case update_in_transaction io1 (''1'', ''2'', 0) 1 board0 ''b'' ''s'' (PStr ''x'') ''a'' [] (Some 0) ''k'' of
     Inr (st1, Bb_Updated sec ev) \<Rightarrow> sec = sec1 | _ \<Rightarrow> False"
  by code_simp

text \<open>An update with neither a key nor a version, sent twice: the second one writes the next version.\<close>

lemma default_update_written_again:
  "case update_in_transaction io2 (''1'', ''2'', 0) 1 board0 ''b'' ''s'' (PStr ''x'') ''a'' [] None [] of
     Inr (st1, Bb_Updated first _) \<Rightarrow>
       (case update_in_transaction io2 (''3'', ''4'', 0) 2 st1 ''b'' ''s'' (PStr ''x'') ''a'' [] None [] of
          Inr (st2, Bb_Updated second _) \<Rightarrow> sec_version first = 1 \<and> sec_version second = 2
        | _ \<Rightarrow> False)
   | _ \<Rightarrow> False"
  by code_simp

text \<open>
  A section that was deleted and is written again with the same content, without a version: the caller is
  told that the update succeeded, as a duplicate of the first one, and the section stays deleted.
\<close>

lemma rewrite_after_delete_lost:
  "case update_in_transaction io2 (''1'', ''2'', 0) 1 board0 ''b'' ''s'' (PStr ''x'') ''a'' [] None [] of
     Inr (st1, Bb_Updated _ _) \<Rightarrow>
       (case delete_in_transaction io2 (\<lambda>_. (''3'', ''4'', 0)) ''b'' (Some ''s'') st1 of
          Inr (st2, n, _) \<Rightarrow>
            (case update_in_transaction io2 (''5'', ''6'', 0) 2 st2 ''b'' ''s'' (PStr ''x'') ''a'' [] None [] of
               Inr (st3, Bb_Duplicate _ v _) \<Rightarrow> n = 1 \<and> v = 1 \<and> section_row st3 ''b'' ''s'' = None
             | _ \<Rightarrow> False)
        | _ \<Rightarrow> False)
   | _ \<Rightarrow> False"
  by code_simp

text \<open>
  A remote section that is delivered again after the local one was updated: its event key is in use for
  the result of the first merge, so the whole merge raises.
\<close>

definition remote1 :: pyval where
  "remote1 = PDict [(''section'', PStr ''s''), (''content'', PStr ''y''), (''author'', PStr ''r''),
     (''clock'', PDict [(''r'', PInt 1)]), (''timestamp'', PFloat (Fin 5)), (''version'', PInt 1)]"

definition io3 :: board_io where
  "io3 = reading [(''board_id'', PStr ''b''), (''section'', PDict (section_dict
     \<lparr>sec_name = ''s'', sec_content = PStr ''y'', sec_author = ''r'', sec_clock = [(''r'', 1)], sec_time = Fin 5, sec_version = 1\<rparr>))]"

lemma redelivered_merge_raises:
  "case merge_all io3 (\<lambda>_. (''1'', ''2'', 0)) 1 ''b'' [(''s'', remote1)] board0 of
     Inr acc \<Rightarrow>
       (case update_in_transaction io3 (''3'', ''4'', 0) 6 (ma_store acc) ''b'' ''s'' (PStr ''z'') ''a'' [] (Some 1) ''k'' of
          Inr (st2, Bb_Updated _ _) \<Rightarrow>
            merge_all io3 (\<lambda>_. (''5'', ''6'', 0)) 7 ''b'' [(''s'', remote1)] st2 = Inl (Ev_Value ''idempotency key was already used'')
        | _ \<Rightarrow> False)
   | Inl _ \<Rightarrow> False"
  by code_simp

text \<open>
  A remote entry whose own name differs from the name it is sent under replaces the section of that name
  without a merge, although the local version dominates it.
\<close>

definition board1 :: bb_store where
  "board1 = \<lparr>bb_rows = [\<lparr>bo_board = ''b'', bo_section = ''s'', bo_content = ''{}'', bo_author = ''a'', bo_clock = [(''r'', 9)],
     bo_time = Fin 9, bo_version = 9\<rparr>], bb_events = None\<rparr>"

lemma misnamed_merge_overwrites:
  "case merge_all plain_io (\<lambda>_. (''1'', ''2'', 0)) 1 ''b'' [(''other'', remote1)] board1 of
     Inr acc \<Rightarrow> version_at board1 ''b'' ''s'' = 9 \<and> version_at (ma_store acc) ''b'' ''s'' = 1
   | Inl _ \<Rightarrow> False"
  by code_simp

section \<open>Witnesses\<close>

theorem board_update_exact_witness:
  "\<exists>st1 ev. update_in_transaction io1 (''1'', ''2'', 0) 1 board0 ''b'' ''s'' (PStr ''x'') ''a'' [] (Some 0) ''k'' =
      Inr (st1, Bb_Updated sec1 ev) \<and> version_at st1 ''b'' ''s'' = 1 \<and> ev \<noteq> None"
proof -
  obtain st1 ev where first: "update_in_transaction io1 (''1'', ''2'', 0) 1 board0 ''b'' ''s'' (PStr ''x'') ''a'' [] (Some 0) ''k'' =
      Inr (st1, Bb_Updated sec1 ev)"
    using first_update by (auto split: sum.splits prod.splits update_result.splits)
  have "version_at board0 ''b'' ''s'' = 0" by (simp add: version_at_def section_row_def board0_def)
  then show ?thesis using board_update_exact [OF board0_ok(1) first] board0_ok(2) first by auto
qed

definition upd :: "string \<Rightarrow> int \<Rightarrow> board_update" where
  "upd content n = \<lparr>up_locked = (\<lambda>_. False), up_ids = (\<lambda>_. (''1'', ''2'', 0)), up_fresh = (\<lambda>_ _. (''3'', ''4'', 0)), up_now = (\<lambda>_. 10),
     up_board = PStr ''b'', up_section = PStr '' s '', up_content = PStr content, up_author = ''w'', up_clock = [], up_expected = PInt n, up_key = []\<rparr>"

lemma upd_wins: "case snd (run_update plain_io board1 (upd ''p'' 9)) of Inr (Bb_Updated _ _) \<Rightarrow> True | _ \<Rightarrow> False"
  by code_simp

theorem board_cas_wins_once_witness:
  "\<forall>sec' ev'. snd (run_update plain_io (foldl (\<lambda>st u. fst (run_update plain_io st u)) (fst (run_update plain_io board1 (upd ''p'' 9)))
      [upd ''q'' 10]) (upd ''late'' 9)) \<noteq> Inr (Bb_Updated sec' ev')"
proof -
  have inv: "board_inv board1" by (simp add: board_inv_def board1_def)
  obtain sec ev where "snd (run_update plain_io board1 (upd ''p'' 9)) = Inr (Bb_Updated sec ev)"
    using upd_wins by (auto split: sum.splits update_result.splits)
  then have first: "run_update plain_io board1 (upd ''p'' 9) = (fst (run_update plain_io board1 (upd ''p'' 9)), Inr (Bb_Updated sec ev))"
    by (metis prod.collapse)
  show ?thesis by (intro allI board_cas_wins_once [OF inv first]) (simp_all add: upd_def)
qed


end
