(* ===== verification/Verification_Receipts.thy ===== *)
theory Verification_Receipts
  imports Blackboard_Guarantees
begin

text \<open>
  Verification receipts (\<open>agent_verification.py\<close>): the checks of \<open>VerificationReceipt\<close>, its conversions,
  the stored row with its metadata, and \<open>record_in_transaction\<close>, which writes the receipt, its event and
  the entry of the task it belongs to in the caller's transaction
  (\<open>TaskStore.add_verification_receipt_in_transaction\<close> of \<open>agent_tasks.py\<close>).

  A number is kept as its value.  The artifact store is not modelled: \<open>matches\<close> is \<open>None\<close> without one, and
  else decides what is left of \<open>_receipt_evidence_matches\<close> after its check of the owner.
\<close>

section \<open>Receipts\<close>

record receipt =
  rc_id :: string
  rc_task :: string
  rc_criterion :: string
  rc_owner :: string
  rc_intent :: string
  rc_evidence :: string
  rc_command :: string
  rc_revision :: string
  rc_generation :: int
  rc_type :: string
  rc_observed :: real
  rc_expires :: "real option"
  rc_passed :: bool
  rc_details :: payload

text \<open>The arguments of the constructor, as values of any type.\<close>

record receipt_args =
  ra_id :: pyval
  ra_task :: pyval
  ra_criterion :: pyval
  ra_owner :: pyval
  ra_intent :: pyval
  ra_evidence :: pyval
  ra_command :: pyval
  ra_revision :: pyval
  ra_generation :: pyval
  ra_type :: pyval
  ra_observed :: pyval
  ra_expires :: pyval
  ra_passed :: pyval
  ra_details :: pyval

definition canonical_field :: "string \<Rightarrow> pyval \<Rightarrow> event_error + string" where
  "canonical_field name v =
     (case v of
        PStr s \<Rightarrow> if nul \<in> set s \<or> py_strip s \<noteq> s then Inl (Ev_Value name) else Inr s
      | _ \<Rightarrow> Inl (Ev_Value name))"

text \<open>A finite number; an integer beyond the doubles is not finite.\<close>

definition finite_field :: "string \<Rightarrow> pyval \<Rightarrow> event_error + real" where
  "finite_field name v =
     (case v of
        PInt i \<Rightarrow> if 2 ^ 1024 - 2 ^ 970 \<le> \<bar>i\<bar> then Inl (Ev_Value name) else Inr (of_int i)
      | PFloat (Fin r) \<Rightarrow> Inr r
      | _ \<Rightarrow> Inl (Ev_Value name))"

definition passed_field :: "pyval \<Rightarrow> event_error + bool" where
  "passed_field v = (case v of PBool b \<Rightarrow> Inr b | _ \<Rightarrow> Inl (Ev_Value ''passed''))"

definition generation_field :: "pyval \<Rightarrow> event_error + int" where
  "generation_field v =
     (case v of PInt n \<Rightarrow> if n < 0 then Inl (Ev_Value ''mutation_generation'') else Inr n
      | _ \<Rightarrow> Inl (Ev_Value ''mutation_generation''))"

definition details_field :: "pyval \<Rightarrow> event_error + payload" where
  "details_field v = (case v of PDict d \<Rightarrow> Inr d | _ \<Rightarrow> Inl (Ev_Value ''details''))"

definition evidence_types :: "string list" where
  "evidence_types = [''test'', ''benchmark'', ''source_review'']"

text \<open>\<open>VerificationReceipt(...)\<close>: the checks of \<open>__post_init__\<close>, in order.\<close>

definition make_receipt :: "receipt_args \<Rightarrow> event_error + receipt" where
  "make_receipt a =
     bindr (passed_field (ra_passed a)) (\<lambda>passed.
     bindr (generation_field (ra_generation a)) (\<lambda>generation.
     bindr (canonical_field ''receipt_id'' (ra_id a)) (\<lambda>i.
     bindr (canonical_field ''task_id'' (ra_task a)) (\<lambda>task.
     bindr (canonical_field ''criterion'' (ra_criterion a)) (\<lambda>criterion.
     bindr (canonical_field ''owner'' (ra_owner a)) (\<lambda>owner.
     bindr (canonical_field ''change_intent_id'' (ra_intent a)) (\<lambda>intent.
     bindr (canonical_field ''evidence_id'' (ra_evidence a)) (\<lambda>evidence.
     bindr (canonical_field ''command_id'' (ra_command a)) (\<lambda>command.
     bindr (canonical_field ''repository_revision'' (ra_revision a)) (\<lambda>revision.
     bindr (canonical_field ''evidence_type'' (ra_type a)) (\<lambda>kind.
     bindr (require (i \<noteq> []) (Ev_Value ''receipt_id'')) (\<lambda>_.
     bindr (require (task \<noteq> []) (Ev_Value ''task_id'')) (\<lambda>_.
     bindr (require (criterion \<noteq> []) (Ev_Value ''criterion'')) (\<lambda>_.
     bindr (details_field (ra_details a)) (\<lambda>details.
     bindr (finite_field ''observed_at'' (ra_observed a)) (\<lambda>observed.
     bindr (case ra_expires a of PNone \<Rightarrow> Inr None | v \<Rightarrow> bindr (finite_field ''expires_at'' v) (\<lambda>t. Inr (Some t))) (\<lambda>expires.
     bindr (require (kind \<in> set evidence_types) (Ev_Value ''unsupported evidence_type'')) (\<lambda>_.
       Inr \<lparr>rc_id = i, rc_task = task, rc_criterion = criterion, rc_owner = owner, rc_intent = intent,
            rc_evidence = evidence, rc_command = command, rc_revision = revision, rc_generation = generation,
            rc_type = kind, rc_observed = observed, rc_expires = expires, rc_passed = passed,
            rc_details = details\<rparr>))))))))))))))))))"

lemma canonical_field_Inr [simp]: "canonical_field name v = Inr s \<longleftrightarrow> v = PStr s \<and> nul \<notin> set s \<and> py_strip s = s"
  by (cases v) (auto simp: canonical_field_def)

lemma passed_field_Inr [simp]: "passed_field v = Inr b \<longleftrightarrow> v = PBool b"
  by (cases v) (auto simp: passed_field_def)

lemma make_receipt_fields:
  assumes "make_receipt a = Inr c"
  shows "ra_id a = PStr (rc_id c) \<and> ra_task a = PStr (rc_task c) \<and> ra_evidence a = PStr (rc_evidence c) \<and>
    ra_passed a = PBool (rc_passed c) \<and> ra_owner a = PStr (rc_owner c)"
  using assms unfolding make_receipt_def bindr_Inr_iff by (elim exE conjE) (simp, auto)

definition is_fresh :: "receipt \<Rightarrow> seconds \<Rightarrow> bool" where
  "is_fresh r now \<longleftrightarrow> rc_passed r \<and> (case rc_expires r of None \<Rightarrow> True | Some t \<Rightarrow> now \<le> t)"

definition opt_real :: "real option \<Rightarrow> pyval" where
  "opt_real t = (case t of None \<Rightarrow> PNone | Some r \<Rightarrow> PFloat (Fin r))"

definition receipt_dict :: "receipt \<Rightarrow> payload" where
  "receipt_dict r =
     [(''receipt_id'', PStr (rc_id r)), (''task_id'', PStr (rc_task r)), (''criterion'', PStr (rc_criterion r)),
      (''owner'', PStr (rc_owner r)), (''change_intent_id'', PStr (rc_intent r)),
      (''evidence_id'', PStr (rc_evidence r)), (''command_id'', PStr (rc_command r)),
      (''repository_revision'', PStr (rc_revision r)), (''mutation_generation'', PInt (rc_generation r)),
      (''evidence_type'', PStr (rc_type r)), (''observed_at'', PFloat (Fin (rc_observed r))),
      (''expires_at'', opt_real (rc_expires r)), (''passed'', PBool (rc_passed r)),
      (''details'', PDict (rc_details r))]"

definition need_key :: "payload \<Rightarrow> string \<Rightarrow> event_error + pyval" where
  "need_key d k = (case map_of d k of None \<Rightarrow> Inl (Ev_Key k) | Some v \<Rightarrow> Inr v)"

text \<open>\<open>VerificationReceipt.from_dict\<close>.\<close>

definition receipt_from_dict :: "pyval \<Rightarrow> event_error + receipt" where
  "receipt_from_dict data =
     (case data of
        PDict d \<Rightarrow>
          bindr (passed_field (dict_get d ''passed'')) (\<lambda>_.
          bindr (generation_field (get_default d ''mutation_generation'' (PInt 0))) (\<lambda>_.
          bindr (details_field (get_default d ''details'' (PDict []))) (\<lambda>details.
          bindr (need_key d ''receipt_id'') (\<lambda>i.
          bindr (need_key d ''task_id'') (\<lambda>task.
          bindr (need_key d ''criterion'') (\<lambda>criterion.
            make_receipt
              \<lparr>ra_id = i, ra_task = task, ra_criterion = criterion, ra_owner = get_default d ''owner'' (PStr []),
               ra_intent = get_default d ''change_intent_id'' (PStr []),
               ra_evidence = get_default d ''evidence_id'' (PStr []),
               ra_command = get_default d ''command_id'' (PStr []),
               ra_revision = get_default d ''repository_revision'' (PStr []),
               ra_generation = get_default d ''mutation_generation'' (PInt 0),
               ra_type = get_default d ''evidence_type'' (PStr ''source_review''),
               ra_observed = get_default d ''observed_at'' (PFloat (Fin 0)),
               ra_expires = dict_get d ''expires_at'', ra_passed = dict_get d ''passed'',
               ra_details = PDict details\<rparr>))))))
      | _ \<Rightarrow> Inl (Ev_Type ''verification receipt data must be a mapping''))"

section \<open>Stored rows\<close>

text \<open>A row of \<open>agent_verification_receipts\<close>; owner, generation and evidence type are in the details.\<close>

record receipt_row =
  rr_id :: string
  rr_task :: string
  rr_criterion :: string
  rr_intent :: string
  rr_evidence :: string
  rr_command :: string
  rr_revision :: string
  rr_observed :: real
  rr_expires :: "real option"
  rr_passed :: bool
  rr_details :: string

definition metadata_key :: string where
  "metadata_key = ''_verification_receipt''"

definition metadata_schema :: string where
  "metadata_schema = ''verification_receipt_metadata.v1''"

definition receipt_metadata :: "receipt \<Rightarrow> pyval" where
  "receipt_metadata r =
     PDict [(''schema'', PStr metadata_schema), (''owner'', PStr (rc_owner r)),
            (''mutation_generation'', PInt (rc_generation r)), (''evidence_type'', PStr (rc_type r))]"

definition stored_details :: "receipt \<Rightarrow> payload" where
  "stored_details r = dict_set (rc_details r) metadata_key (receipt_metadata r)"

definition receipt_to_row :: "board_io \<Rightarrow> receipt \<Rightarrow> receipt_row" where
  "receipt_to_row io r =
     \<lparr>rr_id = rc_id r, rr_task = rc_task r, rr_criterion = rc_criterion r, rr_intent = rc_intent r,
      rr_evidence = rc_evidence r, rr_command = rc_command r, rr_revision = rc_revision r,
      rr_observed = rc_observed r, rr_expires = rc_expires r, rr_passed = rc_passed r,
      rr_details = bi_text io (PDict (stored_details r))\<rparr>"

text \<open>\<open>_stored_receipt\<close>: \<open>details.pop\<close> takes the metadata out.\<close>

definition stored_receipt :: "board_io \<Rightarrow> receipt_row \<Rightarrow> event_error + receipt" where
  "stored_receipt io row =
     bindr (require (rr_details row \<noteq> []) (Ev_Value ''canonical metadata'')) (\<lambda>_.
     (case bi_load io (rr_details row) of
        Some (PDict d) \<Rightarrow>
          (case map_of d metadata_key of
             Some (PDict m) \<Rightarrow>
               bindr (require (fst ` set m = {''schema'', ''owner'', ''mutation_generation'', ''evidence_type''})
                        (Ev_Value ''canonical metadata'')) (\<lambda>_.
               bindr (require (dict_get m ''schema'' = PStr metadata_schema) (Ev_Value ''unsupported metadata'')) (\<lambda>_.
                 make_receipt
                   \<lparr>ra_id = PStr (rr_id row), ra_task = PStr (rr_task row), ra_criterion = PStr (rr_criterion row),
                    ra_owner = dict_get m ''owner'', ra_intent = PStr (rr_intent row), ra_evidence = PStr (rr_evidence row),
                    ra_command = PStr (rr_command row), ra_revision = PStr (rr_revision row),
                    ra_generation = dict_get m ''mutation_generation'', ra_type = dict_get m ''evidence_type'',
                    ra_observed = PFloat (Fin (rr_observed row)), ra_expires = opt_real (rr_expires row),
                    ra_passed = PBool (rr_passed row), ra_details = PDict (filter (\<lambda>kv. fst kv \<noteq> metadata_key) d)\<rparr>))
           | _ \<Rightarrow> Inl (Ev_Value ''canonical metadata''))
      | _ \<Rightarrow> Inl (Ev_Value ''details must be an object'')))"

section \<open>Recording\<close>

text \<open>The columns of a task row that a receipt touches; \<open>vs_tasks\<close> is the task store on the same database.\<close>

record task_row =
  tk_id :: string
  tk_receipts :: "(string \<times> string) list"
  tk_updated :: seconds

record verification_db =
  vs_rows :: "receipt_row list"
  vs_tasks :: "task_row list option"

text \<open>Appending an event that exists already; only a new one is published.\<close>

definition append_made :: "board_io \<Rightarrow> agent_event \<Rightarrow> event_store \<Rightarrow> event_error + event_store \<times> agent_event list" where
  "append_made io e es =
     bindr (append_in_transaction (\<lambda>p. bi_text io (PDict p)) (bi_load io) es True e True) (\<lambda>(db, r).
     bindr (require (ao_error r = None \<and> ao_event r \<noteq> None) (Ev_Runtime ''event append'')) (\<lambda>_.
       Inr (es\<lparr>es_db := db\<rparr>, if ao_duplicate r then [] else [the (ao_event r)])))"

definition receipt_key :: "string \<Rightarrow> string \<Rightarrow> string \<Rightarrow> string" where
  "receipt_key task criterion rid = ''ver_'' @ task @ ''_'' @ criterion @ ''_'' @ rid"

text \<open>\<open>TaskStore.add_verification_receipt_in_transaction\<close>; a task that is not there is left alone.\<close>

definition add_task_receipt ::
  "board_io \<Rightarrow> string \<times> string \<times> seconds \<Rightarrow> seconds \<Rightarrow> string \<Rightarrow> string \<Rightarrow> string \<Rightarrow> task_row list \<Rightarrow> event_store
     \<Rightarrow> event_error + task_row list \<times> event_store \<times> agent_event list" where
  "add_task_receipt io ids now task criterion rid tasks es =
     (case find (\<lambda>t. tk_id t = task) tasks of
        None \<Rightarrow> Inr (tasks, es, [])
      | Some t \<Rightarrow>
          (case ids of (uid, uid', created) \<Rightarrow>
             bindr (create_event uid uid' created (''task:'' @ task) ''task.verified''
                      (Some [(''criterion'', PStr criterion), (''receipt_id'', PStr rid)])
                      (receipt_key task criterion rid) ''verifier'' [] None) (\<lambda>e.
               let current = map_of (tk_receipts t) criterion in
               if stored_event_row es (ae_stream e) (ae_key e) \<noteq> None \<and> current \<noteq> None \<and> current \<noteq> Some rid then
                 bindr (append_made io e es) (\<lambda>(es', _). Inr (tasks, es', []))
               else if current = Some rid then
                 bindr (append_made io e es) (\<lambda>(es', new). Inr (tasks, es', new))
               else
                 (let target = (\<lambda>x. tk_id x = task \<and> tk_receipts x = tk_receipts t \<and> tk_updated x = tk_updated t) in
                  bindr (require (count_where target tasks = 1) (Ev_Runtime ''Task changed'')) (\<lambda>_.
                  bindr (append_made io e es) (\<lambda>(es', new).
                    Inr (update_where target
                           (\<lambda>x. x\<lparr>tk_receipts := dict_set (tk_receipts t) criterion rid, tk_updated := now\<rparr>) tasks,
                         es', new)))))))"

text \<open>The first two lines of \<open>_receipt_evidence_matches\<close> with \<open>expected_owner=receipt.owner\<close>.\<close>

definition evidence_matches :: "(receipt \<Rightarrow> bool) \<Rightarrow> receipt \<Rightarrow> bool" where
  "evidence_matches matches r \<longleftrightarrow> rc_owner r \<noteq> [] \<and> matches r"

text \<open>What \<open>record_in_transaction\<close> compares of a row with the same id.\<close>

definition same_receipt :: "board_io \<Rightarrow> receipt_row \<Rightarrow> receipt_row \<Rightarrow> pyval \<Rightarrow> bool" where
  "same_receipt io old new details \<longleftrightarrow>
     rr_task old = rr_task new \<and> rr_criterion old = rr_criterion new \<and> rr_intent old = rr_intent new \<and>
     rr_evidence old = rr_evidence new \<and> rr_command old = rr_command new \<and> rr_revision old = rr_revision new \<and>
     rr_observed old = rr_observed new \<and> rr_expires old = rr_expires new \<and> rr_passed old = rr_passed new \<and>
     py_equal (case bi_load io (if rr_details old = [] then ''{}'' else rr_details old) of None \<Rightarrow> PNone | Some v \<Rightarrow> v) details"

definition put_receipt :: "receipt_row \<Rightarrow> receipt_row list \<Rightarrow> receipt_row list" where
  "put_receipt r rows =
     (if \<exists>x \<in> set rows. rr_id x = rr_id r then
        update_where (\<lambda>x. rr_id x = rr_id r)
          (\<lambda>x. x\<lparr>rr_expires := rr_expires r, rr_passed := rr_passed r, rr_details := rr_details r\<rparr>) rows
      else rows @ [r])"

definition receipt_checks :: "(receipt \<Rightarrow> bool) option \<Rightarrow> event_store \<Rightarrow> receipt \<Rightarrow> event_error + unit" where
  "receipt_checks matches es r =
     bindr (require (es_enabled es) (Ev_Runtime ''verification storage is disabled'')) (\<lambda>_.
     bindr (require (py_strip (rc_task r) \<noteq> []) (Ev_Value ''verification receipt requires task_id'')) (\<lambda>_.
     bindr (require (py_strip (rc_criterion r) \<noteq> []) (Ev_Value ''verification receipt requires criterion'')) (\<lambda>_.
     bindr (require (rc_passed r \<longrightarrow> py_strip (rc_evidence r) \<noteq> []) (Ev_Value ''requires evidence_id'')) (\<lambda>_.
       require (case matches of None \<Rightarrow> True | Some m \<Rightarrow> rc_passed r \<longrightarrow> evidence_matches m r)
         (Ev_Value ''passed verification receipt requires matching trusted evidence'')))))"

text \<open>The event of a receipt; its payload makes a round trip through JSON.\<close>

definition receipt_event :: "board_io \<Rightarrow> string \<times> string \<times> seconds \<Rightarrow> receipt \<Rightarrow> event_error + agent_event" where
  "receipt_event io ids r =
     (case ids of (uid, uid', created) \<Rightarrow>
        bindr (create_event uid uid' created (''verification:'' @ rc_task r) ''verification.receipt_recorded''
                 (Some (receipt_dict r)) (''rcpt_'' @ rc_id r) (if rc_owner r = [] then ''verifier'' else rc_owner r) [] None) (\<lambda>e.
          case bi_load io (bi_text io (PDict (ae_payload e))) of
            None \<Rightarrow> Inl (Ev_Value ''payload'')
          | Some v \<Rightarrow> bindr (payload_field v) (\<lambda>p. Inr (e\<lparr>ae_payload := p\<rparr>))))"

definition record_in_transaction ::
  "board_io \<Rightarrow> (receipt \<Rightarrow> bool) option \<Rightarrow> string \<times> string \<times> seconds \<Rightarrow> string \<times> string \<times> seconds \<Rightarrow> seconds \<Rightarrow> receipt
     \<Rightarrow> verification_db \<Rightarrow> event_store \<Rightarrow> event_error + verification_db \<times> event_store \<times> agent_event list" where
  "record_in_transaction io matches ids ids' now r vs es =
     bindr (receipt_checks matches es r) (\<lambda>_.
       let row = receipt_to_row io r in
       (case bi_load io (rr_details row) of
          None \<Rightarrow> Inl (Ev_Value ''details'')
        | Some details \<Rightarrow>
            bindr (require (case find (\<lambda>x. rr_id x = rc_id r) (vs_rows vs) of None \<Rightarrow> True
                            | Some old \<Rightarrow> same_receipt io old row details)
                     (Ev_Value ''verification receipt ID reused with conflicting content'')) (\<lambda>_.
            bindr (receipt_event io ids r) (\<lambda>e.
            bindr (append_made io e es) (\<lambda>(es1, new).
              let vs1 = vs\<lparr>vs_rows := put_receipt row (vs_rows vs)\<rparr> in
              case (vs_tasks vs, rc_passed r) of
                (Some tasks, True) \<Rightarrow>
                  bindr (add_task_receipt io ids' now (rc_task r) (rc_criterion r) (rc_id r) tasks es1) (\<lambda>(tasks', es2, more).
                    Inr (vs1\<lparr>vs_tasks := Some tasks'\<rparr>, es2, new @ more))
              | _ \<Rightarrow> Inr (vs1, es1, new))))))"

section \<open>Reading back\<close>

lemma generation_field_Inr [simp]: "generation_field v = Inr n \<longleftrightarrow> v = PInt n \<and> 0 \<le> n"
  by (cases v) (auto simp: generation_field_def)

lemma details_field_Inr [simp]: "details_field v = Inr d \<longleftrightarrow> v = PDict d"
  by (cases v) (auto simp: details_field_def)

lemma finite_field_Fin [simp]: "finite_field name (PFloat (Fin r)) = Inr r"
  by (simp add: finite_field_def)

text \<open>What the constructor guarantees.\<close>

definition canonical :: "string \<Rightarrow> bool" where
  "canonical s \<longleftrightarrow> nul \<notin> set s \<and> py_strip s = s"

definition receipt_ok :: "receipt \<Rightarrow> bool" where
  "receipt_ok r \<longleftrightarrow>
     list_all canonical [rc_id r, rc_task r, rc_criterion r, rc_owner r, rc_intent r, rc_evidence r, rc_command r, rc_revision r, rc_type r] \<and>
     rc_id r \<noteq> [] \<and> rc_task r \<noteq> [] \<and> rc_criterion r \<noteq> [] \<and> 0 \<le> rc_generation r \<and> rc_type r \<in> set evidence_types"

lemma make_receipt_ok: "make_receipt a = Inr r \<Longrightarrow> receipt_ok r"
  unfolding make_receipt_def bindr_Inr_iff by (elim exE conjE) (auto simp: receipt_ok_def canonical_def)

definition args_of :: "receipt \<Rightarrow> receipt_args" where
  "args_of r =
     \<lparr>ra_id = PStr (rc_id r), ra_task = PStr (rc_task r), ra_criterion = PStr (rc_criterion r), ra_owner = PStr (rc_owner r),
      ra_intent = PStr (rc_intent r), ra_evidence = PStr (rc_evidence r), ra_command = PStr (rc_command r),
      ra_revision = PStr (rc_revision r), ra_generation = PInt (rc_generation r), ra_type = PStr (rc_type r),
      ra_observed = PFloat (Fin (rc_observed r)), ra_expires = opt_real (rc_expires r), ra_passed = PBool (rc_passed r),
      ra_details = PDict (rc_details r)\<rparr>"

lemma make_receipt_again:
  assumes "receipt_ok r"
  shows "make_receipt (args_of r) = Inr r"
proof -
  have field: "canonical s \<Longrightarrow> canonical_field name (PStr s) = Inr s" for name s by (simp add: canonical_def)
  have expires: "(case opt_real t of PNone \<Rightarrow> Inr None | v \<Rightarrow> bindr (finite_field ''expires_at'' v) (\<lambda>t. Inr (Some t))) = Inr t" for t
    by (cases t) (simp_all add: opt_real_def)
  have gen: "generation_field (PInt n) = Inr n" if "0 \<le> n" for n using that by simp
  show ?thesis
    using assms by (cases r) (simp add: receipt_ok_def make_receipt_def args_of_def field gen expires passed_field_def details_field_def)
qed

text \<open>
  C39. A receipt that the constructor accepts comes back unchanged: from its dictionary, and from the row it
  is stored in, where part of it lies in the details, unless its details use the reserved key.
\<close>

theorem receipt_reads_back:
  assumes made: "make_receipt a = Inr r" and free: "metadata_key \<notin> fst ` set (rc_details r)"
    and codec: "bi_load io (bi_text io (PDict (stored_details r))) = Some (PDict (stored_details r))"
      "bi_text io (PDict (stored_details r)) \<noteq> []"
  shows "receipt_from_dict (PDict (receipt_dict r)) = Inr r \<and> stored_receipt io (receipt_to_row io r) = Inr r"
proof -
  note ok = make_receipt_ok [OF made]
  note again = make_receipt_again [OF ok]
  have "receipt_from_dict (PDict (receipt_dict r)) = make_receipt (args_of r)"
    using ok by (simp add: receipt_from_dict_def receipt_dict_def dict_get_def get_default_def need_key_def passed_field_def details_field_def
        generation_field_def receipt_ok_def args_of_def)
  moreover have "stored_details r = rc_details r @ [(metadata_key, receipt_metadata r)]" using free by (simp add: stored_details_def dict_set_new)
  then have details: "map_of (stored_details r) metadata_key = Some (receipt_metadata r)"
    "filter (\<lambda>kv. fst kv \<noteq> metadata_key) (stored_details r) = rc_details r"
    using free by (auto simp: map_add_def map_of_eq_None_iff [THEN iffD2] filter_id_conv intro: rev_image_eqI)
  have "stored_receipt io (receipt_to_row io r) = make_receipt (args_of r)"
    using codec by (simp add: stored_receipt_def receipt_to_row_def details) (auto simp: receipt_metadata_def dict_get_def args_of_def require_def details)
  ultimately show ?thesis using again by simp
qed

definition sample_args :: receipt_args where
  "sample_args =
     \<lparr>ra_id = PStr ''rcpt_1'', ra_task = PStr ''task'', ra_criterion = PStr ''tests pass'', ra_owner = PStr ''a'', ra_intent = PStr [],
      ra_evidence = PStr ''evt_1'', ra_command = PStr ''pytest'', ra_revision = PStr [], ra_generation = PInt 2, ra_type = PStr ''test'',
      ra_observed = PFloat (Fin 5), ra_expires = PInt 9, ra_passed = PBool True, ra_details = PDict [(''n'', PInt 1)]\<rparr>"

lemma sample_receipt: "case make_receipt sample_args of Inr r \<Rightarrow> rc_details r = [(''n'', PInt 1)] \<and> rc_expires r = Some 9 | Inl _ \<Rightarrow> False"
  by code_simp

theorem receipt_reads_back_witness:
  "\<exists>r io. make_receipt sample_args = Inr r \<and> rc_expires r = Some 9 \<and> stored_receipt io (receipt_to_row io r) = Inr r"
proof -
  obtain r where r: "make_receipt sample_args = Inr r" "rc_details r = [(''n'', PInt 1)]" "rc_expires r = Some 9"
    using sample_receipt by (auto split: sum.splits)
  define io where "io = plain_io\<lparr>bi_load := (\<lambda>_. Some (PDict (stored_details r)))\<rparr>"
  have "metadata_key \<notin> fst ` set (rc_details r)" by (simp add: r(2) metadata_key_def)
  moreover have "bi_load io (bi_text io (PDict (stored_details r))) = Some (PDict (stored_details r))" "bi_text io (PDict (stored_details r)) \<noteq> []"
    by (simp_all add: io_def plain_io_def)
  ultimately show ?thesis using receipt_reads_back [OF r(1), of io] r by blast
qed

end
