(* ===== verification/Swarm_Store.thy ===== *)
theory Swarm_Store
  imports Verification_Receipts Scope_Leases
begin

text \<open>
  The coordinator of swarms (\<open>SwarmCoordinator\<close> of \<open>swarm.py\<close>): its table, dispatching, recovery of the
  leases after a restart, and the reads.  A swarm is worked on by a Coder, a Tester and a Reviewer; its
  steps are in \<open>Swarm_Steps\<close>.

  The coordinator composes stores of the other theories: the event store, the blackboard and the
  verification store, which share its database, and the scope leases.  \<open>hub\<close> is their joint state.
  The columns \<open>target_paths\<close> and \<open>history\<close>, which only the operations below write, are kept decoded.
  The three stores use one event store, as the application wires them.
\<close>

section \<open>State\<close>

datatype swarm_state = PENDING | CODING | TESTING | REVIEWING | COMPLETED | FAILED

fun state_text :: "swarm_state \<Rightarrow> string" where
  "state_text PENDING = ''PENDING''"
| "state_text CODING = ''CODING''"
| "state_text TESTING = ''TESTING''"
| "state_text REVIEWING = ''REVIEWING''"
| "state_text COMPLETED = ''COMPLETED''"
| "state_text FAILED = ''FAILED''"

definition terminal :: "swarm_state \<Rightarrow> bool" where
  "terminal s \<longleftrightarrow> s = COMPLETED \<or> s = FAILED"

text \<open>An entry of the history; a missing key is \<open>None\<close>.\<close>

record history_entry =
  he_time :: seconds
  he_role :: string
  he_action :: string
  he_payload :: payload
  he_state :: "swarm_state option"
  he_evidence :: "string option"
  he_event :: "string option"

record swarm_row =
  sw_id :: string
  sw_goal :: string
  sw_paths :: "string list"
  sw_command :: string
  sw_author :: string
  sw_root :: string
  sw_state :: swarm_state
  sw_receipt :: "string option"
  sw_history :: "history_entry list"
  sw_created :: seconds
  sw_updated :: seconds
  sw_version :: int

record hub =
  hb_swarms :: "swarm_row list"
  hb_events :: event_store
  hb_board :: "board_row list option"
  hb_verification :: "verification_db option"
  hb_leases :: "scope_db option"

text \<open>
  Libraries and surroundings: JSON and hashes, the artifact store of the verification store (see
  \<open>Verification_Receipts\<close>) and the surroundings of the leases.
\<close>

record hub_io =
  hi_board :: board_io
  hi_step_digest :: "payload \<Rightarrow> string"
  hi_digest :: "string \<Rightarrow> string"
  hi_matches :: "(receipt \<Rightarrow> bool) option"
  hi_leases :: lease_env

text \<open>
  What one operation meets: a busy database, the clock, the identifiers of the events it creates, those of
  the markers of full subscriber queues, a random identifier, and whether the lease database answers.
\<close>

record tx_io =
  ti_locked :: bool
  ti_now :: seconds
  ti_ids :: "nat \<Rightarrow> string \<times> string \<times> seconds"
  ti_fresh :: "nat \<Rightarrow> nat \<Rightarrow> string \<times> string \<times> seconds"
  ti_uid :: string
  ti_leases :: bool

definition swarm_stream :: "string \<Rightarrow> string" where
  "swarm_stream i = ''swarm:'' @ i"

definition find_swarm :: "hub \<Rightarrow> string \<Rightarrow> swarm_row option" where
  "find_swarm h i = find (\<lambda>r. sw_id r = i) (hb_swarms h)"

text \<open>\<open>_append_event\<close>: nothing without an enabled event store.\<close>

definition append_swarm_event :: "board_io \<Rightarrow> agent_event \<Rightarrow> event_store \<Rightarrow> event_error + event_store \<times> agent_event list" where
  "append_swarm_event io e es = (if \<not> es_enabled es then Inr (es, []) else append_made io e es)"

definition swarm_event ::
  "string \<times> string \<times> seconds \<Rightarrow> string \<Rightarrow> string \<Rightarrow> payload \<Rightarrow> string \<Rightarrow> string \<Rightarrow> event_error + agent_event" where
  "swarm_event ids i kind payload key actor =
     (case ids of (uid, uid', created) \<Rightarrow> create_event uid uid' created (swarm_stream i) kind (Some payload) key actor [] None)"

text \<open>\<open>_publish_after_commit\<close>; what it raises is raised although the transaction is committed.\<close>

definition publish_hub :: "hub_io \<Rightarrow> tx_io \<Rightarrow> agent_event list \<Rightarrow> hub \<Rightarrow> hub \<times> event_error option" where
  "publish_hub io t events h =
     (case publish_list (bi_str (hi_board io)) (es_enabled (hb_events h)) (ti_fresh t) events (es_queues (hb_events h)) of
        (qs, n, err) \<Rightarrow> (h\<lparr>hb_events := (hb_events h)\<lparr>es_queues := qs, es_dropped := es_dropped (hb_events h) + n\<rparr>\<rparr>, err))"

text \<open>The end of an operation: its result, or the error of the publication.\<close>

definition finish :: "hub \<times> event_error option \<Rightarrow> (hub \<Rightarrow> hub \<times> (event_error + 'a)) \<Rightarrow> hub \<times> (event_error + 'a)" where
  "finish x k = (case x of (h, Some err) \<Rightarrow> (h, Inl err) | (h, None) \<Rightarrow> k h)"

text \<open>\<open>UPDATE agent_swarms ... WHERE swarm_id = ? AND state = ? AND version = ?\<close>, which must hit one row.\<close>

definition update_swarm ::
  "swarm_row \<Rightarrow> (swarm_row \<Rightarrow> swarm_row) \<Rightarrow> hub \<Rightarrow> event_error + hub" where
  "update_swarm r f h =
     (let hit = (\<lambda>x. sw_id x = sw_id r \<and> sw_state x = sw_state r \<and> sw_version x = sw_version r) in
      bindr (require (count_where hit (hb_swarms h) = 1) (Ev_Runtime ''Swarm changed'')) (\<lambda>_.
        Inr (h\<lparr>hb_swarms := update_where hit f (hb_swarms h)\<rparr>)))"

section \<open>Leases\<close>

text \<open>\<open>_release_all_leases\<close>: \<open>False\<close> when the release raises.\<close>

definition release_swarm :: "tx_io \<Rightarrow> string \<Rightarrow> hub \<Rightarrow> hub \<times> bool" where
  "release_swarm t i h =
     (case hb_leases h of
        None \<Rightarrow> (h, True)
      | Some db \<Rightarrow>
          if \<not> ti_leases t then (h, False)
          else (case release_owner (PStr (swarm_stream i)) db of
                  (db', res) \<Rightarrow> (h\<lparr>hb_leases := Some db'\<rparr>, case res of Inl _ \<Rightarrow> False | Inr _ \<Rightarrow> True)))"

text \<open>\<open>_recover_swarm_state\<close>.\<close>

definition recover_payload :: "swarm_state \<Rightarrow> swarm_state \<Rightarrow> string \<Rightarrow> payload" where
  "recover_payload old new reason =
     [(''from_state'', PStr (state_text old)), (''state'', PStr (state_text new)), (''reason'', PStr reason)]"

definition recover_key :: "string \<Rightarrow> int \<Rightarrow> swarm_state \<Rightarrow> string" where
  "recover_key i v new = ''reconcile:'' @ i @ '':'' @ dec_int v @ '':'' @ state_text new"

definition recover_swarm ::
  "hub_io \<Rightarrow> tx_io \<Rightarrow> string \<Rightarrow> int \<Rightarrow> swarm_state \<Rightarrow> swarm_state \<Rightarrow> string \<Rightarrow> hub \<Rightarrow> hub \<times> (event_error + bool)" where
  "recover_swarm io t i expected_version old new reason h =
     (if old = new then (h, Inr True)
      else if ti_locked t then (h, Inl Ev_Busy)
      else
        (case find_swarm h i of
           None \<Rightarrow> (h, Inr False)
         | Some r \<Rightarrow>
             if sw_version r \<noteq> expected_version \<or> sw_state r \<noteq> old then (h, Inr False)
             else
               (case bindr (update_swarm r (\<lambda>x. x\<lparr>sw_state := new, sw_updated := ti_now t, sw_version := sw_version r + 1\<rparr>) h) (\<lambda>h1.
                     bindr (swarm_event (ti_ids t 0) i ''swarm.reconciled'' (recover_payload old new reason)
                              (recover_key i (sw_version r) new) ''system'') (\<lambda>e.
                     bindr (append_swarm_event (hi_board io) e (hb_events h1)) (\<lambda>(es, events).
                       Inr (h1\<lparr>hb_events := es\<rparr>, events)))) of
                  Inl err \<Rightarrow> (h, Inl err)
                | Inr (h2, events) \<Rightarrow> finish (publish_hub io t events h2) (\<lambda>h3. (h3, Inr True)))))"

text \<open>
  \<open>_reconcile_leases\<close>.  The rows are read once; \<open>leases_by_root\<close> holds the owners of the live leases of a
  root, each root read when it is first seen.  What happens while a row is handled is \<open>t k\<close> for the
  \<open>k\<close>-th row.
\<close>

definition lease_owners :: "hub_io \<Rightarrow> tx_io \<Rightarrow> string \<Rightarrow> scope_db \<Rightarrow> event_error + string list" where
  "lease_owners io t base db =
     (case list_leases (hi_leases io) (ti_now t) (PStr base) Unset db of
        None \<Rightarrow> Inl (Ev_Runtime ''OSError'')
      | Some rows \<Rightarrow> Inr (map lr_owner rows))"

fun read_roots :: "hub_io \<Rightarrow> tx_io \<Rightarrow> scope_db \<Rightarrow> string list \<Rightarrow> (string \<times> string list) list \<Rightarrow> event_error + (string \<times> string list) list" where
  "read_roots io t db [] known = Inr known"
| "read_roots io t db (r # rs) known =
     (if r \<in> fst ` set known then read_roots io t db rs known
      else bindr (lease_owners io t r db) (\<lambda>owners. read_roots io t db rs (known @ [(r, owners)])))"

definition as_unit :: "hub \<times> (event_error + 'a) \<Rightarrow> hub \<times> event_error option" where
  "as_unit x = (case x of (h, Inl err) \<Rightarrow> (h, Some err) | (h, Inr _) \<Rightarrow> (h, None))"

text \<open>Claiming what the swarm should own; \<open>Inl\<close> is an exception, \<open>Inr False\<close> a refusal.\<close>

definition claim_again :: "hub_io \<Rightarrow> tx_io \<Rightarrow> swarm_row \<Rightarrow> hub \<Rightarrow> hub \<times> (event_error + bool)" where
  "claim_again io t r h =
     (case hb_leases h of
        None \<Rightarrow> (h, Inr True)
      | Some db \<Rightarrow>
          if \<not> ti_leases t then (h, Inl Ev_Busy)
          else
            (case claim (hi_leases io) (ti_now t) (ti_uid t) (PStr (swarm_stream (sw_id r))) (PStr (sw_root r))
                    (PList (map PStr (sw_paths r))) (PInt 3600) (PStr (''Swarm recovery: '' @ sw_id r)) Unset db of
               (db', Claimed _ _ _ _) \<Rightarrow> (h\<lparr>hb_leases := Some db'\<rparr>, Inr True)
             | (db', ClaimRaised err) \<Rightarrow> (h\<lparr>hb_leases := Some db'\<rparr>, Inl (Ev_Runtime err))
             | (db', _) \<Rightarrow> (h\<lparr>hb_leases := Some db'\<rparr>, Inr False)))"

definition reconcile_row ::
  "hub_io \<Rightarrow> tx_io \<Rightarrow> (string \<times> string list) list \<Rightarrow> swarm_row \<Rightarrow> hub \<Rightarrow> hub \<times> event_error option" where
  "reconcile_row io t roots r h =
     (let i = sw_id r; s = sw_state r; v = sw_version r;
          owned = (case map_of roots (sw_root r) of None \<Rightarrow> False | Some owners \<Rightarrow> swarm_stream i \<in> set owners);
          start = (\<lambda>reason h'. if s = PENDING then as_unit (recover_swarm io t i v s CODING reason h') else (h', None))
      in if terminal s then (if owned then (fst (release_swarm t i h), None) else (h, None))
         else if sw_paths r = [] then start ''dispatch recovered without paths'' h
         else if owned then start ''dispatch lease recovered'' h
         else
           (case claim_again io t r h of
              (h1, Inl err) \<Rightarrow> (h1, Some err)
            | (h1, Inr False) \<Rightarrow> as_unit (recover_swarm io t i v s FAILED ''owned lease could not be recovered'' h1)
            | (h1, Inr True) \<Rightarrow> start ''dispatch lease recovered'' h1))"

fun reconcile_rows ::
  "hub_io \<Rightarrow> (nat \<Rightarrow> tx_io) \<Rightarrow> (string \<times> string list) list \<Rightarrow> swarm_row list \<Rightarrow> hub \<Rightarrow> hub \<times> event_error option" where
  "reconcile_rows io t roots [] h = (h, None)"
| "reconcile_rows io t roots (r # rs) h =
     (case reconcile_row io (t 0) roots r h of
        (h1, Some err) \<Rightarrow> (h1, Some err)
      | (h1, None) \<Rightarrow> reconcile_rows io (t \<circ> Suc) roots rs h1)"

text \<open>Leases of swarms that the table does not know are released.\<close>

definition orphan :: "string list \<Rightarrow> string \<Rightarrow> bool" where
  "orphan known lease_owner \<longleftrightarrow>
     take 6 lease_owner = ''swarm:'' \<and> drop 6 lease_owner \<notin> set known"

fun release_orphans :: "tx_io \<Rightarrow> string list \<Rightarrow> hub \<Rightarrow> hub \<times> event_error option" where
  "release_orphans t [] h = (h, None)"
| "release_orphans t (w # ws) h =
     (if \<not> ti_leases t then (h, Some Ev_Busy)
      else release_orphans t ws
             (case hb_leases h of None \<Rightarrow> h | Some db \<Rightarrow> h\<lparr>hb_leases := Some (fst (release_owner (PStr w) db))\<rparr>))"

definition reconcile_leases :: "hub_io \<Rightarrow> (nat \<Rightarrow> tx_io) \<Rightarrow> hub \<Rightarrow> hub \<times> event_error option" where
  "reconcile_leases io t h =
     (case hb_leases h of
        None \<Rightarrow> (h, None)
      | Some db \<Rightarrow>
          if \<not> ti_leases (t 0) then (h, Some Ev_Busy)
          else
            (case read_roots io (t 0) db (map sw_root (hb_swarms h)) [] of
               Inl err \<Rightarrow> (h, Some err)
             | Inr roots \<Rightarrow>
                 (case reconcile_rows io (t \<circ> Suc) roots (hb_swarms h) h of
                    (h1, Some err) \<Rightarrow> (h1, Some err)
                  | (h1, None) \<Rightarrow>
                      release_orphans (t 0) (filter (orphan (map sw_id (hb_swarms h))) (concat (map snd roots))) h1)))"

section \<open>Dispatching\<close>

datatype dispatch_result =
    Sd_Error event_error
  | Sd_Lease_Failed string
  | Sd_Dispatched string swarm_state int

definition goal_ok :: "pyval \<Rightarrow> bool" where
  "goal_ok v = (case v of PStr s \<Rightarrow> py_strip s \<noteq> [] \<and> nul \<notin> set s | _ \<Rightarrow> False)"

definition target_ok :: "pyval \<Rightarrow> bool" where
  "target_ok v = (case v of PStr s \<Rightarrow> nul \<notin> set s | _ \<Rightarrow> False)"

definition paths_of :: "pyval list \<Rightarrow> string list" where
  "paths_of vs = map (\<lambda>v. case v of PStr s \<Rightarrow> s | _ \<Rightarrow> []) vs"

definition dispatch_payload :: "string \<Rightarrow> string list \<Rightarrow> string \<Rightarrow> payload" where
  "dispatch_payload goal paths command =
     [(''goal'', PStr goal), (''target_paths'', PList (map PStr paths)), (''test_command'', PStr command)]"

definition new_swarm ::
  "tx_io \<Rightarrow> string \<Rightarrow> string list \<Rightarrow> string \<Rightarrow> string \<Rightarrow> string \<Rightarrow> swarm_state \<Rightarrow> swarm_row" where
  "new_swarm t goal paths command author base s =
     \<lparr>sw_id = ''swarm_'' @ take 12 (ti_uid t), sw_goal = goal, sw_paths = paths, sw_command = command,
      sw_author = author, sw_root = base, sw_state = s, sw_receipt = None,
      sw_history = [\<lparr>he_time = ti_now t, he_role = ''Coordinator'', he_action = ''dispatch'',
                     he_payload = dispatch_payload goal paths command, he_state = None, he_evidence = None,
                     he_event = None\<rparr>],
      sw_created = ti_now t, sw_updated = ti_now t, sw_version = 1\<rparr>"

definition insert_swarm :: "hub_io \<Rightarrow> tx_io \<Rightarrow> swarm_row \<Rightarrow> hub \<Rightarrow> event_error + hub \<times> agent_event list" where
  "insert_swarm io t r h =
     bindr (require (find_swarm h (sw_id r) = None) Ev_Integrity) (\<lambda>_.
     bindr (swarm_event (ti_ids t 0) (sw_id r) ''swarm.dispatched''
              (dispatch_payload (sw_goal r) (sw_paths r) (sw_command r) @ [(''state'', PStr (state_text (sw_state r)))])
              (''dispatch:'' @ sw_id r) (sw_author r)) (\<lambda>e.
     bindr (append_swarm_event (hi_board io) e (hb_events h)) (\<lambda>(es, events).
       Inr (h\<lparr>hb_swarms := hb_swarms h @ [r], hb_events := es\<rparr>, events))))"

text \<open>The result reads the row again; \<open>t 0\<close> is met by the insert, the rest by the reconciliation.\<close>

definition dispatch ::
  "hub_io \<Rightarrow> (nat \<Rightarrow> tx_io) \<Rightarrow> pyval \<Rightarrow> pyval list \<Rightarrow> string \<Rightarrow> string \<Rightarrow> string \<Rightarrow> hub \<Rightarrow> hub \<times> (event_error + dispatch_result)" where
  "dispatch io t goal targets command author base h =
     (if \<not> goal_ok goal then (h, Inl (Ev_Value ''invalid goal''))
      else if \<not> list_all target_ok targets then (h, Inl (Ev_Value ''target paths cannot contain null bytes''))
      else
        (let paths = paths_of targets;
             needs_lease = (hb_leases h \<noteq> None \<and> paths \<noteq> []);
             s = (if needs_lease then PENDING else CODING);
             r = new_swarm (t 0) (case goal of PStr g \<Rightarrow> g | _ \<Rightarrow> []) paths command author base s
         in case (if ti_locked (t 0) then Inl Ev_Busy else insert_swarm io (t 0) r h) of
              Inl err \<Rightarrow> (h, Inr (Sd_Error err))
            | Inr (h1, events) \<Rightarrow>
                finish (publish_hub io (t 0) events h1) (\<lambda>h2.
                finish (if needs_lease then reconcile_leases io (t \<circ> Suc) h2 else (h2, None)) (\<lambda>h3.
                  (h3, Inr (case find_swarm h3 (sw_id r) of
                              None \<Rightarrow> Sd_Dispatched (sw_id r) s 1
                            | Some x \<Rightarrow> if sw_state x = FAILED then Sd_Lease_Failed (sw_id r)
                                        else Sd_Dispatched (sw_id r) (sw_state x) (sw_version x)))))))"

section \<open>Reading\<close>

definition get_status :: "hub \<Rightarrow> string \<Rightarrow> string option \<Rightarrow> swarm_row option" where
  "get_status h i base = find (\<lambda>r. sw_id r = i \<and> (case base of None \<Rightarrow> True | Some b \<Rightarrow> sw_root r = b)) (hb_swarms h)"

definition is_valid_swarm_id :: "pyval \<Rightarrow> bool" where
  "is_valid_swarm_id v =
     (case v of PStr s \<Rightarrow> take 6 s = ''swarm_'' \<and> nul \<notin> set s \<and> length s \<le> 64 | _ \<Rightarrow> False)"

definition active_swarms_count :: "hub \<Rightarrow> nat" where
  "active_swarms_count h = count_where (\<lambda>r. \<not> terminal (sw_state r)) (hb_swarms h)"

definition list_swarms :: "hub \<Rightarrow> string option \<Rightarrow> int \<Rightarrow> string option \<Rightarrow> swarm_row list" where
  "list_swarms h state_filter limit base =
     take (nat (max 1 limit))
       (sort_key (\<lambda>r. - sw_updated r)
         (filter (\<lambda>r. (case state_filter of None \<Rightarrow> True | Some s \<Rightarrow> s = [] \<or> state_text (sw_state r) = s) \<and>
                      (case base of None \<Rightarrow> True | Some b \<Rightarrow> sw_root r = b)) (hb_swarms h)))"

end
