(* ===== verification/Swarm_Steps.thy ===== *)
theory Swarm_Steps
  imports Swarm_Store
begin

text \<open>
  The steps of a swarm (\<open>_step_transaction\<close> and \<open>cancel\<close> of \<open>swarm.py\<close>).  A step is one transaction over
  the swarm, the section of the blackboard its role writes, the event store and, when the Reviewer
  approves, the verification store; an exception leaves all of them as they were and is returned.
\<close>

section \<open>Answers\<close>

text \<open>
  \<open>St_Raised\<close> carries the state and version read before the exception.  The last argument of a success
  says that the leases of the finished swarm could not be released.
\<close>

datatype step_result =
    St_Not_Found
  | St_Key_Conflict int
  | St_Duplicate string int int bool
  | St_Version_Conflict int int
  | St_Terminated swarm_state int
  | St_Wrong_Role swarm_state
  | St_No_Verification swarm_state
  | St_No_Evidence swarm_state
  | St_Unsupported swarm_state
  | St_Board_Refused update_result swarm_state int
  | St_Raised event_error "(swarm_state \<times> int) option"
  | St_Done swarm_state int "string option" bool

section \<open>The same step again\<close>

definition step_digest_payload :: "string \<Rightarrow> string \<Rightarrow> payload \<Rightarrow> payload" where
  "step_digest_payload role action pay = [(''role'', PStr role), (''action'', PStr action), (''payload'', PDict pay)]"

definition step_key :: "hub_io \<Rightarrow> string \<Rightarrow> string \<Rightarrow> string \<Rightarrow> payload \<Rightarrow> string \<Rightarrow> string" where
  "step_key io i role action pay key =
     (if key = [] then ''step:'' @ i @ '':'' @ take 20 (hi_step_digest io (step_digest_payload role action pay)) else key)"

definition earlier_event :: "hub \<Rightarrow> string \<Rightarrow> string \<Rightarrow> event_row option" where
  "earlier_event h i key =
     (if es_enabled (hb_events h) then stored_event_row (hb_events h) (swarm_stream i) key else None)"

definition expected_same :: "payload \<Rightarrow> int option \<Rightarrow> bool" where
  "expected_same saved expected =
     (if ''expected_version'' \<in> fst ` set saved then py_equal (dict_get saved ''expected_version'') (opt_int expected)
      else expected = None)"

definition saved_payload :: "board_io \<Rightarrow> event_row \<Rightarrow> event_error + payload" where
  "saved_payload io row =
     (case bi_load io (er_payload row) of
        None \<Rightarrow> Inl (Ev_Value ''payload'')
      | Some (PDict d) \<Rightarrow> Inr d
      | Some _ \<Rightarrow> Inl (Ev_Type ''attribute get''))"

definition same_step :: "event_row \<Rightarrow> payload \<Rightarrow> string \<Rightarrow> string \<Rightarrow> payload \<Rightarrow> int option \<Rightarrow> bool" where
  "same_step row saved role action pay expected \<longleftrightarrow>
     er_kind row = ''swarm.step'' \<and> py_equal (dict_get saved ''role'') (PStr role) \<and>
     py_equal (dict_get saved ''action'') (PStr action) \<and> py_equal (dict_get saved ''payload'') (PDict pay) \<and>
     expected_same saved expected"

text \<open>The answer to a repeated step; the leases of a finished swarm are released again.\<close>

definition repeat_step ::
  "hub_io \<Rightarrow> tx_io \<Rightarrow> swarm_row \<Rightarrow> event_row \<Rightarrow> string \<Rightarrow> string \<Rightarrow> payload \<Rightarrow> int option \<Rightarrow> hub \<Rightarrow> hub \<times> step_result" where
  "repeat_step io t r row role action pay expected h =
     (let raised = (\<lambda>err. St_Raised err (Some (sw_state r, sw_version r))) in
      case saved_payload (hi_board io) row of
        Inl err \<Rightarrow> (h, raised err)
      | Inr saved \<Rightarrow>
          if \<not> same_step row saved role action pay expected then (h, St_Key_Conflict (sw_version r))
          else
            (let s = py_str (bi_str (hi_board io)) (get_default saved ''resulting_state'' (PStr (state_text (sw_state r))));
                 (h1, released) = (if s = ''COMPLETED'' \<or> s = ''FAILED'' then release_swarm t (sw_id r) h else (h, True))
             in case py_int (get_default saved ''version'' (PInt (sw_version r))) of
                  Inl err \<Rightarrow> (h1, raised err)
                | Inr v \<Rightarrow> (h1, St_Duplicate s v (sw_version r) (\<not> released))))"

section \<open>What a role may do\<close>

definition has_passed :: "payload \<Rightarrow> bool" where
  "has_passed pay \<longleftrightarrow> dict_get pay ''passed'' = PBool True"

text \<open>The last entry of a Tester that opened the review with passing tests.\<close>

definition tester_evidence :: "history_entry list \<Rightarrow> history_entry option" where
  "tester_evidence hs =
     find (\<lambda>e. he_role e = ''Tester'' \<and> he_state e = Some REVIEWING \<and> has_passed (he_payload e) \<and>
               (case he_evidence e of None \<Rightarrow> False | Some x \<Rightarrow> x \<noteq> [])) (rev hs)"

definition swarm_receipt_args :: "hub_io \<Rightarrow> tx_io \<Rightarrow> swarm_row \<Rightarrow> payload \<Rightarrow> history_entry \<Rightarrow> receipt_args" where
  "swarm_receipt_args io t r pay tester =
     (let evidence = the (he_evidence tester) in
      \<lparr>ra_id = PStr (''rcpt_'' @ take 12 (hi_digest io (sw_id r @ '':'' @ evidence @ '':'' @ dec_int (sw_version r)))),
       ra_task = PStr (sw_id r), ra_criterion = PStr (''Swarm completed goal: '' @ sw_goal r), ra_owner = PStr [],
       ra_intent = PStr [], ra_evidence = PStr evidence, ra_command = PStr (take 100 (sw_command r)),
       ra_revision = PStr [], ra_generation = PInt 0, ra_type = PStr ''source_review'',
       ra_observed = PFloat (Fin (ti_now t)), ra_expires = PNone, ra_passed = PBool True,
       ra_details = PDict [(''review'', PDict pay), (''target_paths'', PList (map PStr (sw_paths r))),
                           (''tester_evidence'', PDict (he_payload tester))]\<rparr>)"

text \<open>The section to write, the next state and the receipt; or a refusal, or an exception.\<close>

datatype step_decision = Refuse step_result | Proceed string swarm_state "receipt option"

definition decide_step ::
  "hub_io \<Rightarrow> tx_io \<Rightarrow> hub \<Rightarrow> swarm_row \<Rightarrow> string \<Rightarrow> string \<Rightarrow> payload \<Rightarrow> event_error + step_decision" where
  "decide_step io t h r role action pay =
     (case sw_state r of
        CODING \<Rightarrow> Inr (if role \<noteq> ''Coder'' then Refuse (St_Wrong_Role CODING) else Proceed ''code'' TESTING None)
      | TESTING \<Rightarrow> Inr (if role \<noteq> ''Tester'' then Refuse (St_Wrong_Role TESTING)
                      else Proceed ''test'' (if has_passed pay then REVIEWING else FAILED) None)
      | REVIEWING \<Rightarrow>
          if role \<noteq> ''Reviewer'' then Inr (Refuse (St_Wrong_Role REVIEWING))
          else if action \<noteq> ''approve'' then Inr (Proceed ''review'' FAILED None)
          else if hb_verification h = None \<or> \<not> es_enabled (hb_events h) then Inr (Refuse (St_No_Verification REVIEWING))
          else (case tester_evidence (sw_history r) of
                  None \<Rightarrow> Inr (Refuse (St_No_Evidence REVIEWING))
                | Some tester \<Rightarrow>
                    bindr (make_receipt (swarm_receipt_args io t r pay tester)) (\<lambda>receipt.
                      Inr (Proceed ''review'' COMPLETED (Some receipt))))
      | s \<Rightarrow> Inr (Refuse (St_Unsupported s)))"

section \<open>The transaction of a step\<close>

text \<open>
  The write to the blackboard expects a section that does not exist.  \<open>Inr (Inl res)\<close> is a refusal by
  the blackboard.
\<close>

definition board_refused :: "update_result \<Rightarrow> bool" where
  "board_refused res = (case res of Bb_Updated _ _ \<Rightarrow> False | Bb_Duplicate _ _ _ \<Rightarrow> False | _ \<Rightarrow> True)"

definition board_key :: "string \<Rightarrow> int \<Rightarrow> string \<Rightarrow> string" where
  "board_key i v section_name = ''swarm-step:'' @ i @ '':'' @ dec_int v @ '':'' @ section_name"

definition board_step ::
  "hub_io \<Rightarrow> tx_io \<Rightarrow> swarm_row \<Rightarrow> string \<Rightarrow> payload \<Rightarrow> string \<Rightarrow> hub
     \<Rightarrow> event_error + update_result + hub \<times> agent_event list" where
  "board_step io t r section_name pay role h =
     (case hb_board h of
        None \<Rightarrow> Inr (Inr (h, []))
      | Some rows \<Rightarrow>
          (case (board_identifier (PStr (swarm_stream (sw_id r))), board_identifier (PStr section_name)) of
             (Some b, Some s) \<Rightarrow>
               bindr (update_in_transaction (hi_board io) (ti_ids t 0) (ti_now t)
                        \<lparr>bb_rows = rows, bb_events = Some (hb_events h)\<rparr> b s (PDict pay) (author_of role) [] (Some 0)
                        (board_key (sw_id r) (sw_version r) section_name)) (\<lambda>(st, res).
                 if board_refused res then Inr (Inl res)
                 else Inr (Inr (h\<lparr>hb_board := Some (bb_rows st),
                                  hb_events := (case bb_events st of None \<Rightarrow> hb_events h | Some es \<Rightarrow> es)\<rparr>,
                                published res)))
           | _ \<Rightarrow> Inr (Inl Bb_Refused)))"

definition step_payload :: "string \<Rightarrow> string \<Rightarrow> payload \<Rightarrow> int option \<Rightarrow> swarm_state \<Rightarrow> swarm_state \<Rightarrow> int \<Rightarrow> payload" where
  "step_payload role action pay expected old new version =
     [(''role'', PStr role), (''action'', PStr action), (''payload'', PDict pay), (''expected_version'', opt_int expected),
      (''from_state'', PStr (state_text old)), (''resulting_state'', PStr (state_text new)), (''version'', PInt version)]"

text \<open>The history names the stored event of the step as the evidence of passing tests.\<close>

definition step_entry ::
  "tx_io \<Rightarrow> string \<Rightarrow> string \<Rightarrow> payload \<Rightarrow> swarm_state \<Rightarrow> string \<Rightarrow> agent_event \<Rightarrow> agent_event list \<Rightarrow> history_entry" where
  "step_entry t role action pay new i event events =
     (let evidence = (case find (\<lambda>e. ae_kind e = ''swarm.step'' \<and> ae_stream e = swarm_stream i) (rev events) of
                        None \<Rightarrow> event | Some e \<Rightarrow> e)
      in \<lparr>he_time = ti_now t, he_role = role, he_action = action, he_payload = pay, he_state = Some new,
          he_evidence = (if role = ''Tester'' \<and> has_passed pay then Some (ae_id evidence) else None), he_event = None\<rparr>)"

definition record_step ::
  "hub_io \<Rightarrow> tx_io \<Rightarrow> receipt option \<Rightarrow> hub \<Rightarrow> event_error + hub \<times> agent_event list" where
  "record_step io t rc h =
     (case (rc, hb_verification h) of
        (Some receipt, Some vs) \<Rightarrow>
          bindr (record_in_transaction (hi_board io) (hi_matches io) (ti_ids t 2) (ti_ids t 3) (ti_now t) receipt vs (hb_events h))
            (\<lambda>(vs', es, events). Inr (h\<lparr>hb_verification := Some vs', hb_events := es\<rparr>, events))
      | _ \<Rightarrow> Inr (h, []))"

definition commit_step ::
  "hub_io \<Rightarrow> tx_io \<Rightarrow> swarm_row \<Rightarrow> string \<Rightarrow> swarm_state \<Rightarrow> receipt option \<Rightarrow> string \<Rightarrow> string \<Rightarrow> payload \<Rightarrow> int option
     \<Rightarrow> string \<Rightarrow> hub \<Rightarrow> event_error + update_result + hub \<times> agent_event list" where
  "commit_step io t r section_name new rc role action pay expected key h =
     bindr (board_step io t r section_name pay role h) (\<lambda>answer.
     (case answer of
        Inl res \<Rightarrow> Inr (Inl res)
      | Inr (h1, board_events) \<Rightarrow>
          bindr (swarm_event (ti_ids t 1) (sw_id r) ''swarm.step''
                   (step_payload role action pay expected (sw_state r) new (sw_version r + 1)) key role) (\<lambda>event.
          bindr (append_swarm_event (hi_board io) event (hb_events h1)) (\<lambda>(es, step_events).
            let events = board_events @ step_events;
                entry = step_entry t role action pay new (sw_id r) event events
            in
          bindr (record_step io t rc (h1\<lparr>hb_events := es\<rparr>)) (\<lambda>(h2, receipt_events).
          bindr (update_swarm r (\<lambda>x. x\<lparr>sw_state := new,
                                        sw_receipt := (case rc of None \<Rightarrow> sw_receipt x | Some c \<Rightarrow> Some (rc_id c)),
                                        sw_history := sw_history r @ [entry], sw_updated := ti_now t,
                                        sw_version := sw_version r + 1\<rparr>) h2) (\<lambda>h3.
            Inr (Inr (h3, events @ receipt_events))))))))"

definition step_swarm ::
  "hub_io \<Rightarrow> tx_io \<Rightarrow> string \<Rightarrow> string \<Rightarrow> string \<Rightarrow> payload \<Rightarrow> int option \<Rightarrow> string \<Rightarrow> string option \<Rightarrow> hub
     \<Rightarrow> hub \<times> (event_error + step_result)" where
  "step_swarm io t i role action pay expected key base h =
     (if ti_locked t then (h, Inr (St_Raised Ev_Busy None))
      else
        (case get_status h i base of
           None \<Rightarrow> (h, Inr St_Not_Found)
         | Some r \<Rightarrow>
             (let s = sw_state r; v = sw_version r; full_key = step_key io i role action pay key in
              case earlier_event h i full_key of
                Some row \<Rightarrow> (case repeat_step io t r row role action pay expected h of (h1, res) \<Rightarrow> (h1, Inr res))
              | None \<Rightarrow>
                  if expected \<noteq> None \<and> expected \<noteq> Some v then (h, Inr (St_Version_Conflict v (the expected)))
                  else if terminal s then (h, Inr (St_Terminated s v))
                  else
                    (case decide_step io t h r role action pay of
                       Inl err \<Rightarrow> (h, Inr (St_Raised err (Some (s, v))))
                     | Inr (Refuse res) \<Rightarrow> (h, Inr res)
                     | Inr (Proceed section_name new rc) \<Rightarrow>
                         (case commit_step io t r section_name new rc role action pay expected full_key h of
                            Inl err \<Rightarrow> (h, Inr (St_Raised err (Some (s, v))))
                          | Inr (Inl res) \<Rightarrow> (h, Inr (St_Board_Refused res s v))
                          | Inr (Inr (h1, events)) \<Rightarrow>
                              finish (publish_hub io t events h1) (\<lambda>h2.
                                case (if terminal new then release_swarm t i h2 else (h2, True)) of
                                  (h3, released) \<Rightarrow>
                                    (h3, Inr (St_Done new (v + 1) (map_option rc_id rc) (\<not> released)))))))))"

section \<open>Cancelling\<close>

datatype cancel_result =
    Sc_Not_Found
  | Sc_Key_Conflict int
  | Sc_Duplicate string int int bool
  | Sc_Version_Conflict int int
  | Sc_Terminated swarm_state int
  | Sc_Raised event_error "int option"
  | Sc_Done int bool

definition cancel_reason :: "string \<Rightarrow> string" where
  "cancel_reason reason = (if reason = [] then ''cancelled by agent'' else reason)"

definition cancel_key :: "hub_io \<Rightarrow> string \<Rightarrow> string \<Rightarrow> string \<Rightarrow> string" where
  "cancel_key io i reason key = (if key = [] then ''cancel:'' @ i @ '':'' @ take 16 (hi_digest io reason) else key)"

definition cancel_payload :: "string \<Rightarrow> int option \<Rightarrow> swarm_state \<Rightarrow> int \<Rightarrow> payload" where
  "cancel_payload reason expected old version =
     [(''reason'', PStr reason), (''expected_version'', opt_int expected), (''from_state'', PStr (state_text old)),
      (''state'', PStr (state_text FAILED)), (''version'', PInt version)]"

definition repeat_cancel ::
  "hub_io \<Rightarrow> tx_io \<Rightarrow> swarm_row \<Rightarrow> event_row \<Rightarrow> string \<Rightarrow> int option \<Rightarrow> hub \<Rightarrow> hub \<times> cancel_result" where
  "repeat_cancel io t r row reason expected h =
     (case saved_payload (hi_board io) row of
        Inl err \<Rightarrow> (h, Sc_Raised err (Some (sw_version r)))
      | Inr saved \<Rightarrow>
          if er_kind row \<noteq> ''swarm.cancelled'' \<or> \<not> py_equal (dict_get saved ''reason'') (PStr reason) \<or>
             \<not> expected_same saved expected
          then (h, Sc_Key_Conflict (sw_version r))
          else
            (case release_swarm t (sw_id r) h of
               (h1, released) \<Rightarrow>
                 (case py_int (get_default saved ''version'' (PInt (sw_version r))) of
                    Inl err \<Rightarrow> (h1, Sc_Raised err (Some (sw_version r)))
                  | Inr v \<Rightarrow>
                      (h1, Sc_Duplicate (py_str (bi_str (hi_board io)) (get_default saved ''state'' (PStr (state_text FAILED))))
                             v (sw_version r) (\<not> released)))))"

definition commit_cancel ::
  "hub_io \<Rightarrow> tx_io \<Rightarrow> swarm_row \<Rightarrow> string \<Rightarrow> int option \<Rightarrow> string \<Rightarrow> hub \<Rightarrow> event_error + hub \<times> agent_event list" where
  "commit_cancel io t r reason expected key h =
     bindr (swarm_event (ti_ids t 0) (sw_id r) ''swarm.cancelled''
              (cancel_payload reason expected (sw_state r) (sw_version r + 1)) key ''Coordinator'') (\<lambda>event.
     bindr (update_swarm r (\<lambda>x. x\<lparr>sw_state := FAILED,
               sw_history := sw_history r @
                 [\<lparr>he_time = ti_now t, he_role = ''Coordinator'', he_action = ''cancel'',
                   he_payload = [(''reason'', PStr reason)], he_state = Some FAILED, he_evidence = None,
                   he_event = Some (ae_id event)\<rparr>],
               sw_updated := ti_now t, sw_version := sw_version r + 1\<rparr>) h) (\<lambda>h1.
     bindr (append_swarm_event (hi_board io) event (hb_events h1)) (\<lambda>(es, events).
       Inr (h1\<lparr>hb_events := es\<rparr>, events))))"

definition cancel_swarm ::
  "hub_io \<Rightarrow> tx_io \<Rightarrow> string \<Rightarrow> string \<Rightarrow> int option \<Rightarrow> string \<Rightarrow> string option \<Rightarrow> hub \<Rightarrow> hub \<times> (event_error + cancel_result)" where
  "cancel_swarm io t i reason expected key base h =
     (if ti_locked t then (h, Inr (Sc_Raised Ev_Busy None))
      else
        (case get_status h i base of
           None \<Rightarrow> (h, Inr Sc_Not_Found)
         | Some r \<Rightarrow>
             (let s = sw_state r; v = sw_version r; text_reason = cancel_reason reason;
                  full_key = cancel_key io i text_reason key
              in case earlier_event h i full_key of
                   Some row \<Rightarrow> (case repeat_cancel io t r row text_reason expected h of (h1, res) \<Rightarrow> (h1, Inr res))
                 | None \<Rightarrow>
                     if expected \<noteq> None \<and> expected \<noteq> Some v then (h, Inr (Sc_Version_Conflict v (the expected)))
                     else if terminal s then (h, Inr (Sc_Terminated s v))
                     else
                       (case commit_cancel io t r text_reason expected full_key h of
                          Inl err \<Rightarrow> (h, Inr (Sc_Raised err (Some v)))
                        | Inr (h1, events) \<Rightarrow>
                            finish (publish_hub io t events h1) (\<lambda>h2.
                              case release_swarm t i h2 of (h3, released) \<Rightarrow> (h3, Inr (Sc_Done (v + 1) (\<not> released))))))))"

end
