(* ===== verification/Swarm_Lifecycle.thy ===== *)
theory Swarm_Lifecycle
  imports Swarm_Steps
begin

text \<open>
  The life of one swarm, stated without its stores: a dispatch, a move for each step of a role, for a
  recovery and for a cancellation, each of which raises the version by one.  What the operations of the
  coordinator do to the table is a sequence of such moves for every swarm.
\<close>

section \<open>Moves\<close>

record life =
  lf_state :: swarm_state
  lf_receipt :: "string option"
  lf_history :: "history_entry list"
  lf_version :: int

definition life_of :: "swarm_row \<Rightarrow> life" where
  "life_of r = \<lparr>lf_state = sw_state r, lf_receipt = sw_receipt r, lf_history = sw_history r, lf_version = sw_version r\<rparr>"

definition dispatched :: "life \<Rightarrow> bool" where
  "dispatched l \<longleftrightarrow>
     (lf_state l = PENDING \<or> lf_state l = CODING) \<and> lf_receipt l = None \<and> lf_version l = 1 \<and>
     (\<exists>e. lf_history l = [e] \<and> he_role e = ''Coordinator'' \<and> he_action e = ''dispatch'')"

definition names_evidence :: "history_entry \<Rightarrow> bool" where
  "names_evidence e \<longleftrightarrow> (case he_evidence e of None \<Rightarrow> False | Some x \<Rightarrow> x \<noteq> [])"

text \<open>Which role moves a swarm on, and where to.\<close>

definition role_step :: "swarm_state \<Rightarrow> history_entry \<Rightarrow> swarm_state \<Rightarrow> bool" where
  "role_step s e new \<longleftrightarrow>
     s = CODING \<and> he_role e = ''Coder'' \<and> new = TESTING \<or>
     s = TESTING \<and> he_role e = ''Tester'' \<and> has_passed (he_payload e) \<and> names_evidence e \<and> new = REVIEWING \<or>
     s = TESTING \<and> he_role e = ''Tester'' \<and> \<not> has_passed (he_payload e) \<and> new = FAILED \<or>
     s = REVIEWING \<and> he_role e = ''Reviewer'' \<and> he_action e = ''approve'' \<and> new = COMPLETED \<or>
     s = REVIEWING \<and> he_role e = ''Reviewer'' \<and> he_action e \<noteq> ''approve'' \<and> new = FAILED"

inductive life_step :: "life \<Rightarrow> life \<Rightarrow> bool" where
  resumed: "lf_state l = PENDING \<Longrightarrow> life_step l (l\<lparr>lf_state := CODING, lf_version := lf_version l + 1\<rparr>)"
| lost: "\<not> terminal (lf_state l) \<Longrightarrow> life_step l (l\<lparr>lf_state := FAILED, lf_version := lf_version l + 1\<rparr>)"
| worked: "role_step (lf_state l) e new \<Longrightarrow> he_state e = Some new \<Longrightarrow> rc = None \<longleftrightarrow> new \<noteq> COMPLETED \<Longrightarrow>
    life_step l (l\<lparr>lf_state := new, lf_receipt := (case rc of None \<Rightarrow> lf_receipt l | Some c \<Rightarrow> Some c),
                  lf_history := lf_history l @ [e], lf_version := lf_version l + 1\<rparr>)"
| cancelled: "\<not> terminal (lf_state l) \<Longrightarrow> he_role e = ''Coordinator'' \<Longrightarrow> he_action e = ''cancel'' \<Longrightarrow> he_state e = Some FAILED \<Longrightarrow>
    life_step l (l\<lparr>lf_state := FAILED, lf_history := lf_history l @ [e], lf_version := lf_version l + 1\<rparr>)"

inductive_cases life_stepE: "life_step l l'"

abbreviation life_steps :: "life \<Rightarrow> life \<Rightarrow> bool" where "life_steps \<equiv> life_step\<^sup>*\<^sup>*"

definition lived :: "life \<Rightarrow> bool" where
  "lived l \<longleftrightarrow> (\<exists>l0. dispatched l0 \<and> life_steps l0 l)"

text \<open>Nothing follows a terminal state, and the version counts the moves.\<close>

lemma terminal_stuck: "life_step l l' \<Longrightarrow> \<not> terminal (lf_state l)"
  by (erule life_stepE) (auto simp: terminal_def role_step_def)

lemma terminal_final: "life_steps l l' \<Longrightarrow> terminal (lf_state l) \<Longrightarrow> l' = l"
  by (erule converse_rtranclpE) (auto dest: terminal_stuck)

lemma step_version: "life_step l l' \<Longrightarrow> lf_version l' = lf_version l + 1"
  by (erule life_stepE) simp_all

lemma steps_version: "life_steps l l' \<Longrightarrow> lf_version l \<le> lf_version l' \<and> (lf_version l' = lf_version l \<longrightarrow> l' = l)"
  by (induction rule: rtranclp_induct) (auto dest: step_version)

text \<open>What the state tells of the history.\<close>

definition coded :: "history_entry \<Rightarrow> bool" where
  "coded e \<longleftrightarrow> he_role e = ''Coder'' \<and> he_state e = Some TESTING"

definition tested :: "history_entry \<Rightarrow> bool" where
  "tested e \<longleftrightarrow> he_role e = ''Tester'' \<and> he_state e = Some REVIEWING \<and> has_passed (he_payload e) \<and> names_evidence e"

definition approved :: "history_entry \<Rightarrow> bool" where
  "approved e \<longleftrightarrow> he_role e = ''Reviewer'' \<and> he_action e = ''approve'' \<and> he_state e = Some COMPLETED"

definition opened :: "history_entry \<Rightarrow> bool" where
  "opened e \<longleftrightarrow> he_role e = ''Coordinator'' \<and> he_action e = ''dispatch''"

fun life_shape :: "swarm_state \<Rightarrow> string option \<Rightarrow> history_entry list \<Rightarrow> bool" where
  "life_shape COMPLETED rc hs = (\<exists>d c t a. hs = [d, c, t, a] \<and> opened d \<and> coded c \<and> tested t \<and> approved a \<and> rc \<noteq> None)"
| "life_shape REVIEWING rc hs = (\<exists>d c t. hs = [d, c, t] \<and> opened d \<and> coded c \<and> tested t \<and> rc = None)"
| "life_shape TESTING rc hs = (\<exists>d c. hs = [d, c] \<and> opened d \<and> coded c \<and> rc = None)"
| "life_shape FAILED rc hs = (rc = None \<and> hs \<noteq> [])"
| "life_shape s rc hs = (\<exists>d. hs = [d] \<and> opened d \<and> rc = None)"

lemma shape_step: "life_step l l' \<Longrightarrow> life_shape (lf_state l) (lf_receipt l) (lf_history l) \<Longrightarrow>
    life_shape (lf_state l') (lf_receipt l') (lf_history l')"
proof (induction rule: life_step.induct)
  case (lost l)
  then show ?case by (cases "lf_state l") (auto simp: terminal_def)
next
  case (worked l e new rc)
  then show ?case by (auto simp: role_step_def coded_def tested_def approved_def split: option.split)
next
  case (cancelled l e)
  then show ?case by (cases "lf_state l") (auto simp: terminal_def)
qed auto

lemma lived_shape: "lived l \<Longrightarrow> life_shape (lf_state l) (lf_receipt l) (lf_history l)"
proof -
  have "life_steps l0 l \<Longrightarrow> dispatched l0 \<Longrightarrow> life_shape (lf_state l) (lf_receipt l) (lf_history l)" for l0
    by (induction rule: rtranclp_induct) (auto simp: dispatched_def opened_def intro: shape_step)
  then show "lived l \<Longrightarrow> ?thesis" by (auto simp: lived_def)
qed

text \<open>The Tester's entry that a receipt is made from is the one of this history.\<close>

lemma shape_tester:
  assumes "life_shape REVIEWING rc hs"
  obtains d c t where "hs = [d, c, t]" "opened d" "coded c" "tested t" "tester_evidence hs = Some t"
  using assms by (auto simp: tester_evidence_def tested_def names_evidence_def)

section \<open>The table\<close>

text \<open>What never changes of a swarm, and what one or several operations do to it.\<close>

definition contract_of :: "swarm_row \<Rightarrow> string \<times> string \<times> string list \<times> string \<times> string \<times> string \<times> seconds" where
  "contract_of r = (sw_id r, sw_goal r, sw_paths r, sw_command r, sw_author r, sw_root r, sw_created r)"

definition row_moves :: "swarm_row \<Rightarrow> swarm_row \<Rightarrow> bool" where
  "row_moves r r' \<longleftrightarrow> contract_of r' = contract_of r \<and> life_steps (life_of r) (life_of r')"

definition hub_moves :: "hub \<Rightarrow> hub \<Rightarrow> bool" where
  "hub_moves h h' \<longleftrightarrow>
     (\<forall>i. case find_swarm h i of
            Some r \<Rightarrow> (\<exists>r'. find_swarm h' i = Some r' \<and> row_moves r r')
          | None \<Rightarrow> (case find_swarm h' i of None \<Rightarrow> True | Some r' \<Rightarrow> lived (life_of r')))"

lemma row_moves_refl [simp]: "row_moves r r"
  by (simp add: row_moves_def)

lemma row_moves_trans: "row_moves a b \<Longrightarrow> row_moves b c \<Longrightarrow> row_moves a c"
  by (auto simp: row_moves_def)

lemma lived_moves: "lived (life_of r) \<Longrightarrow> row_moves r r' \<Longrightarrow> lived (life_of r')"
  by (auto simp: lived_def row_moves_def)

lemma hub_moves_same: "hb_swarms h' = hb_swarms h \<Longrightarrow> hub_moves h h'"
  by (auto simp: hub_moves_def find_swarm_def split: option.split)

lemma hub_moves_trans:
  assumes "hub_moves a b" "hub_moves b c"
  shows "hub_moves a c"
  unfolding hub_moves_def
proof
  fix i
  have ab: "case find_swarm a i of Some r \<Rightarrow> (\<exists>r'. find_swarm b i = Some r' \<and> row_moves r r')
          | None \<Rightarrow> (case find_swarm b i of None \<Rightarrow> True | Some r' \<Rightarrow> lived (life_of r'))"
    using assms(1) by (simp add: hub_moves_def)
  have bc: "case find_swarm b i of Some r \<Rightarrow> (\<exists>r'. find_swarm c i = Some r' \<and> row_moves r r')
          | None \<Rightarrow> (case find_swarm c i of None \<Rightarrow> True | Some r' \<Rightarrow> lived (life_of r'))"
    using assms(2) by (simp add: hub_moves_def)
  show "case find_swarm a i of Some r \<Rightarrow> (\<exists>r'. find_swarm c i = Some r' \<and> row_moves r r')
          | None \<Rightarrow> (case find_swarm c i of None \<Rightarrow> True | Some r' \<Rightarrow> lived (life_of r'))"
    using ab bc by (auto split: option.splits intro: row_moves_trans lived_moves)
qed

lemma hub_moves_find: "hub_moves h h' \<Longrightarrow> find_swarm h i = Some r \<Longrightarrow> \<exists>r'. find_swarm h' i = Some r' \<and> row_moves r r'"
  unfolding hub_moves_def by (drule spec [of _ i]) simp

end
