(* ===== verification/Swarm_Guarantees.thy ===== *)
theory Swarm_Guarantees
  imports Swarm_Lifecycle Blackboard_Retry
begin

text \<open>
  Every operation of the coordinator moves its swarms along the lifecycle, keeps the tables of the stores
  it composes, and completes a swarm only together with a stored receipt for the evidence of its tests.
\<close>

section \<open>The joint state\<close>

definition stores_ok :: "hub \<Rightarrow> bool" where
  "stores_ok h \<longleftrightarrow>
     event_inv (es_db (hb_events h)) \<and>
     (case hb_board h of None \<Rightarrow> True | Some rows \<Rightarrow> distinct (map row_key rows) \<and> (\<forall>r \<in> set rows. 1 \<le> bo_version r)) \<and>
     (case hb_verification h of None \<Rightarrow> True | Some vs \<Rightarrow> distinct (map rr_id (vs_rows vs)))"

definition hub_ok :: "hub \<Rightarrow> bool" where
  "hub_ok h \<longleftrightarrow>
     distinct (map sw_id (hb_swarms h)) \<and> stores_ok h \<and>
     (\<forall>r \<in> set (hb_swarms h). lived (life_of r))"

text \<open>A receipt row, once written, keeps what it says.\<close>

definition receipts_kept :: "hub \<Rightarrow> hub \<Rightarrow> bool" where
  "receipts_kept h h' \<longleftrightarrow>
     (\<forall>vs. hb_verification h = Some vs \<longrightarrow> (\<exists>vs'. hb_verification h' = Some vs' \<and>
        (\<forall>x \<in> set (vs_rows vs). \<exists>y \<in> set (vs_rows vs').
           rr_id y = rr_id x \<and> rr_task y = rr_task x \<and> rr_evidence y = rr_evidence x \<and> rr_passed y = rr_passed x)))"

definition backed :: "hub_io \<Rightarrow> hub \<Rightarrow> swarm_row \<Rightarrow> bool" where
  "backed io h r \<longleftrightarrow>
     (sw_state r = COMPLETED \<longrightarrow> hi_matches io = None \<and>
        (\<exists>vs x t. hb_verification h = Some vs \<and> x \<in> set (vs_rows vs) \<and> sw_receipt r = Some (rr_id x) \<and> rr_task x = sw_id r \<and>
           rr_passed x \<and> tester_evidence (sw_history r) = Some t \<and> he_evidence t = Some (rr_evidence x)))"

definition hub_good :: "hub_io \<Rightarrow> hub \<Rightarrow> bool" where
  "hub_good io h \<longleftrightarrow> hub_ok h \<and> (\<forall>r \<in> set (hb_swarms h). backed io h r)"

text \<open>What an operation does.\<close>

definition steps_ok :: "hub_io \<Rightarrow> hub \<Rightarrow> hub \<Rightarrow> bool" where
  "steps_ok io h h' \<longleftrightarrow>
     hub_ok h' \<and> hub_moves h h' \<and> receipts_kept h h' \<and>
     (\<forall>r \<in> set (hb_swarms h'). (\<forall>r0. find_swarm h (sw_id r) = Some r0 \<longrightarrow> sw_state r0 \<noteq> COMPLETED) \<longrightarrow> backed io h' r)"

lemma receipts_kept_same: "hb_verification h' = hb_verification h \<Longrightarrow> receipts_kept h h'"
  by (auto simp: receipts_kept_def)

lemma receipts_kept_trans:
  assumes "receipts_kept a b" "receipts_kept b c"
  shows "receipts_kept a c"
  unfolding receipts_kept_def
proof (intro allI impI)
  fix vs assume "hb_verification a = Some vs"
  then obtain vb where b: "hb_verification b = Some vb" "\<forall>x \<in> set (vs_rows vs). \<exists>y \<in> set (vs_rows vb).
      rr_id y = rr_id x \<and> rr_task y = rr_task x \<and> rr_evidence y = rr_evidence x \<and> rr_passed y = rr_passed x"
    using assms(1) by (auto simp: receipts_kept_def)
  then obtain vc where c: "hb_verification c = Some vc" "\<forall>x \<in> set (vs_rows vb). \<exists>y \<in> set (vs_rows vc).
      rr_id y = rr_id x \<and> rr_task y = rr_task x \<and> rr_evidence y = rr_evidence x \<and> rr_passed y = rr_passed x"
    using assms(2) by (auto simp: receipts_kept_def)
  have "\<forall>x \<in> set (vs_rows vs). \<exists>y \<in> set (vs_rows vc).
      rr_id y = rr_id x \<and> rr_task y = rr_task x \<and> rr_evidence y = rr_evidence x \<and> rr_passed y = rr_passed x"
    using b(2) c(2) by metis
  then show "\<exists>vs'. hb_verification c = Some vs' \<and> (\<forall>x \<in> set (vs_rows vs). \<exists>y \<in> set (vs_rows vs').
      rr_id y = rr_id x \<and> rr_task y = rr_task x \<and> rr_evidence y = rr_evidence x \<and> rr_passed y = rr_passed x)"
    using c(1) by blast
qed

lemma find_swarm_in: "find_swarm h i = Some r \<Longrightarrow> r \<in> set (hb_swarms h) \<and> sw_id r = i"
  by (auto simp: find_swarm_def dest: find_SomeD)

lemma find_swarm_row: "hub_ok h \<Longrightarrow> r \<in> set (hb_swarms h) \<Longrightarrow> find_swarm h (sw_id r) = Some r"
  unfolding find_swarm_def hub_ok_def using find_distinct_key [of sw_id] by blast

lemma find_swarm_None: "find_swarm h i = None \<longleftrightarrow> i \<notin> sw_id ` set (hb_swarms h)"
  by (auto simp: find_swarm_def find_None_iff)

lemma get_status_find:
  assumes "hub_ok h" "get_status h i base = Some r"
  shows "find_swarm h i = Some r" "sw_id r = i"
  using assms find_swarm_row [OF assms(1), of r] by (auto simp: get_status_def dest!: find_SomeD)

lemma backed_kept:
  assumes "backed io h r" "receipts_kept h h'"
  shows "backed io h' r"
proof -
  have "sw_state r = COMPLETED \<Longrightarrow> ?thesis"
  proof -
    assume "sw_state r = COMPLETED"
    then obtain vs x t where x: "hb_verification h = Some vs" "x \<in> set (vs_rows vs)" "sw_receipt r = Some (rr_id x)" "rr_task x = sw_id r"
      "rr_passed x" "tester_evidence (sw_history r) = Some t" "he_evidence t = Some (rr_evidence x)" "hi_matches io = None"
      using assms(1) by (auto simp: backed_def)
    obtain vs' where vs': "hb_verification h' = Some vs'" "\<forall>x \<in> set (vs_rows vs). \<exists>y \<in> set (vs_rows vs').
           rr_id y = rr_id x \<and> rr_task y = rr_task x \<and> rr_evidence y = rr_evidence x \<and> rr_passed y = rr_passed x"
      using assms(2) x(1) by (auto simp: receipts_kept_def)
    obtain y where "y \<in> set (vs_rows vs')" "rr_id y = rr_id x" "rr_task y = rr_task x" "rr_evidence y = rr_evidence x" "rr_passed y = rr_passed x"
      using vs'(2) x(2) by blast
    then show ?thesis unfolding backed_def using x vs'(1) by metis
  qed
  then show ?thesis by (auto simp: backed_def)
qed

text \<open>A completed swarm stays as it is.\<close>

lemma moves_completed:
  assumes "row_moves r r'" "terminal (sw_state r)"
  shows "life_of r' = life_of r" "sw_id r' = sw_id r"
  using assms terminal_final [of "life_of r" "life_of r'"] by (auto simp: row_moves_def contract_of_def life_of_def)

lemma steps_good:
  assumes good: "hub_good io h" and ok: "steps_ok io h h'"
  shows "hub_good io h'"
proof -
  have "backed io h' r" if r: "r \<in> set (hb_swarms h')" for r
  proof (cases "\<exists>r0. find_swarm h (sw_id r) = Some r0 \<and> sw_state r0 = COMPLETED")
    case True
    then obtain r0 where r0: "find_swarm h (sw_id r) = Some r0" "sw_state r0 = COMPLETED" by blast
    have "find_swarm h' (sw_id r) = Some r" using find_swarm_row r ok by (auto simp: steps_ok_def)
    then have "row_moves r0 r" using hub_moves_find [of h h', OF _ r0(1)] ok by (auto simp: steps_ok_def)
    then have same: "life_of r = life_of r0" "sw_id r = sw_id r0"
      using moves_completed [of r0 r] r0(2) by (auto simp: terminal_def)
    have "backed io h r0" using good find_swarm_in [OF r0(1)] by (auto simp: hub_good_def)
    then have "backed io h' r0" using ok by (auto simp: steps_ok_def intro: backed_kept)
    then show ?thesis using same by (simp add: backed_def life_of_def)
  qed (use ok r in \<open>auto simp: steps_ok_def\<close>)
  then show ?thesis using ok by (simp add: hub_good_def steps_ok_def)
qed

lemma steps_ok_same:
  assumes "hub_ok h'" "hb_swarms h' = hb_swarms h" "receipts_kept h h'"
  shows "steps_ok io h h'"
proof -
  have "find_swarm h' = find_swarm h" using assms(2) by (auto simp: find_swarm_def)
  then have "backed io h' r" if "r \<in> set (hb_swarms h')" "\<forall>r0. find_swarm h (sw_id r) = Some r0 \<longrightarrow> sw_state r0 \<noteq> COMPLETED" for r
    using find_swarm_row [OF assms(1) that(1)] that(2) by (simp add: backed_def)
  then show ?thesis using assms by (auto simp: steps_ok_def intro: hub_moves_same)
qed

lemma steps_ok_trans:
  assumes a: "steps_ok io h h1" and b: "steps_ok io h1 h2"
  shows "steps_ok io h h2"
proof -
  have "backed io h2 r" if r: "r \<in> set (hb_swarms h2)" "\<forall>r0. find_swarm h (sw_id r) = Some r0 \<longrightarrow> sw_state r0 \<noteq> COMPLETED" for r
  proof (cases "\<exists>r1. find_swarm h1 (sw_id r) = Some r1 \<and> sw_state r1 = COMPLETED")
    case True
    then obtain r1 where r1: "find_swarm h1 (sw_id r) = Some r1" "sw_state r1 = COMPLETED" by blast
    have "find_swarm h2 (sw_id r) = Some r" using find_swarm_row r b by (auto simp: steps_ok_def)
    then have "row_moves r1 r" using hub_moves_find [of h1 h2, OF _ r1(1)] b by (auto simp: steps_ok_def)
    then have same: "life_of r = life_of r1" "sw_id r = sw_id r1" using moves_completed [of r1 r] r1(2) by (auto simp: terminal_def)
    have "backed io h1 r1" using a find_swarm_in [OF r1(1)] r(2) by (auto simp: steps_ok_def)
    then have "backed io h2 r1" using b by (auto simp: steps_ok_def intro: backed_kept)
    then show ?thesis using same by (simp add: backed_def life_of_def)
  qed (use b r in \<open>auto simp: steps_ok_def\<close>)
  then show ?thesis using a b by (auto simp: steps_ok_def intro: hub_moves_trans receipts_kept_trans)
qed

section \<open>Events\<close>

text \<open>Only the tables of the event store move within a transaction.\<close>

definition same_store :: "event_store \<Rightarrow> event_store \<Rightarrow> bool" where
  "same_store es es' \<longleftrightarrow> es' = es\<lparr>es_db := es_db es'\<rparr> \<and> (\<exists>news. db_events (es_db es') = db_events (es_db es) @ news)"

lemma same_store_refl [simp]: "same_store es es"
  by (simp add: same_store_def)

lemma same_store_trans: "same_store a b \<Longrightarrow> same_store b c \<Longrightarrow> same_store a c"
  by (cases a; cases b; cases c) (auto simp: same_store_def)

lemma same_store_enabled: "same_store es es' \<Longrightarrow> es_enabled es' = es_enabled es"
  by (cases es; cases es') (auto simp: same_store_def)

lemma append_made_ok:
  assumes inv: "event_inv (es_db es)" and e: "valid_event e" and ok: "append_made io e es = Inr (es', events)"
  shows "event_inv (es_db es')" "same_store es es'"
proof -
  obtain db r where app: "append_in_transaction (\<lambda>p. bi_text io (PDict p)) (bi_load io) es True e True = Inr (db, r)"
    "es' = es\<lparr>es_db := db\<rparr>"
    using ok by (auto simp: append_made_def)
  obtain news where "appends (es_db es) db news" using tx_appends [OF inv e app(1)] ..
  then show "event_inv (es_db es')" "same_store es es'" by (auto simp: app(2) appends_def same_store_def)
qed

lemma append_swarm_ok:
  assumes "event_inv (es_db es)" "valid_event e" "append_swarm_event io e es = Inr (es', events)"
  shows "event_inv (es_db es')" "same_store es es'"
  using assms append_made_ok [of es e io es' events] by (auto simp: append_swarm_event_def split: if_splits)

lemma swarm_event_fields:
  assumes "swarm_event ids i kind payload key actor = Inr e" "key \<noteq> []"
  shows "valid_event e \<and> ae_stream e = swarm_stream i \<and> ae_kind e = kind \<and> ae_payload e = payload \<and> ae_key e = key \<and>
    ae_actor e = actor \<and> ae_id e \<noteq> []"
  using assms create_event_valid [of "fst ids" "fst (snd ids)" "snd (snd ids)" "swarm_stream i" kind "Some payload" key actor "[]" None e]
  by (auto simp: swarm_event_def create_event_def make_event_def payload_field_def split: prod.splits)

lemma swarm_event_valid: "swarm_event ids i kind payload key actor = Inr e \<Longrightarrow> valid_event e"
  by (auto simp: swarm_event_def split: prod.splits dest: create_event_valid)

section \<open>Parts of an operation\<close>

lemma publish_hub_fields:
  assumes "publish_hub io t events h = (h', err)"
  shows "hb_swarms h' = hb_swarms h" "hb_verification h' = hb_verification h" "hb_board h' = hb_board h" "hb_leases h' = hb_leases h"
    "es_db (hb_events h') = es_db (hb_events h)" "es_enabled (hb_events h') = es_enabled (hb_events h)"
  using assms by (auto simp: publish_hub_def split: prod.splits)

lemma release_swarm_fields:
  assumes "release_swarm t i h = (h', ok)"
  shows "hb_swarms h' = hb_swarms h" "hb_verification h' = hb_verification h" "hb_board h' = hb_board h" "hb_events h' = hb_events h"
  using assms by (auto simp: release_swarm_def split: option.splits if_splits prod.splits)

lemma hub_ok_cong:
  assumes "hub_ok h" "hb_swarms h' = hb_swarms h" "hb_board h' = hb_board h" "es_db (hb_events h') = es_db (hb_events h)"
    "hb_verification h' = hb_verification h"
  shows "hub_ok h'"
  using assms by (simp add: hub_ok_def stores_ok_def)

lemma publish_steps: "hub_ok h \<Longrightarrow> publish_hub io t events h = (h', err) \<Longrightarrow> steps_ok io h h'"
  by (intro steps_ok_same hub_ok_cong [of h h'] receipts_kept_same) (simp_all add: publish_hub_fields)

lemma release_steps: "hub_ok h \<Longrightarrow> release_swarm t i h = (h', ok) \<Longrightarrow> steps_ok io h h'"
  by (intro steps_ok_same hub_ok_cong [of h h'] receipts_kept_same) (simp_all add: release_swarm_fields)

lemma steps_ok_ok: "steps_ok io h h' \<Longrightarrow> hub_ok h'"
  by (simp add: steps_ok_def)

lemma steps_ok_refl: "hub_ok h \<Longrightarrow> steps_ok io h h"
  by (intro steps_ok_same receipts_kept_same) simp_all

text \<open>The guarded update of one row.\<close>

lemma update_swarm_ok:
  assumes inv: "hub_ok h" and r: "find_swarm h i = Some r" and id: "\<And>x. sw_id (f x) = sw_id x"
  shows "update_swarm r f h = Inr (h\<lparr>hb_swarms := update_where (\<lambda>x. sw_id x = i) f (hb_swarms h)\<rparr>)"
    and "find_swarm (h\<lparr>hb_swarms := update_where (\<lambda>x. sw_id x = i) f (hb_swarms h)\<rparr>) j =
      (if j = i then Some (f r) else find_swarm h j)"
proof -
  let ?hit = "\<lambda>x. sw_id x = sw_id r \<and> sw_state x = sw_state r \<and> sw_version x = sw_version r"
  note rin = find_swarm_in [OF r]
  have dist: "distinct (map sw_id (hb_swarms h))" using inv by (simp add: hub_ok_def)
  have only: "x = r" if "x \<in> set (hb_swarms h)" "sw_id x = i" for x
    using distinct_map_inj [OF dist that(1), of r] rin that(2) by simp
  have same: "?hit x \<longleftrightarrow> x = r" "sw_id x = i \<longleftrightarrow> x = r" if "x \<in> set (hb_swarms h)" for x using only that rin by auto
  have "filter ?hit (hb_swarms h) = filter (\<lambda>x. x = r) (hb_swarms h)" by (rule filter_cong) (use same in auto)
  moreover have "length (filter (\<lambda>x. x = r) (hb_swarms h)) = 1"
    using rin dist by (intro length_filter_same) (auto simp: distinct_map)
  ultimately have count: "count_where ?hit (hb_swarms h) = 1" by (simp add: count_where_def)
  have "update_where ?hit f (hb_swarms h) = update_where (\<lambda>x. sw_id x = i) f (hb_swarms h)"
    unfolding update_where_def by (rule map_cong) (use same in auto)
  then show "update_swarm r f h = Inr (h\<lparr>hb_swarms := update_where (\<lambda>x. sw_id x = i) f (hb_swarms h)\<rparr>)"
    by (simp add: update_swarm_def count)
  have "find (\<lambda>x. sw_id x = j) (update_where (\<lambda>x. sw_id x = i) f xs) =
      (if j = i then map_option f (find (\<lambda>x. sw_id x = j) xs) else find (\<lambda>x. sw_id x = j) xs)" for xs
    by (induction xs) (auto simp: update_where_def id)
  then show "find_swarm (h\<lparr>hb_swarms := update_where (\<lambda>x. sw_id x = i) f (hb_swarms h)\<rparr>) j = (if j = i then Some (f r) else find_swarm h j)"
    using r by (simp add: find_swarm_def)
qed

text \<open>A row that makes one move, with the rest of the hub kept in order.\<close>

lemma move_steps:
  assumes inv: "hub_ok h" and r: "find_swarm h i = Some r" and id: "\<And>x. contract_of (f x) = contract_of x"
    and move: "life_step (life_of r) (life_of (f r))"
    and h': "hb_swarms h' = update_where (\<lambda>x. sw_id x = i) f (hb_swarms h)" "stores_ok h'" "receipts_kept h h'"
    and fin: "sw_state (f r) = COMPLETED \<Longrightarrow> backed io h' (f r)"
  shows "steps_ok io h h'"
proof -
  have ids: "\<And>x. sw_id (f x) = sw_id x" using id by (auto simp: contract_of_def)
  note rin = find_swarm_in [OF r]
  have find: "find_swarm h' j = (if j = i then Some (f r) else find_swarm h j)" for j
    using update_swarm_ok(2) [OF inv r ids, of j] by (simp add: find_swarm_def h'(1))
  have dist: "distinct (map sw_id (hb_swarms h))" using inv by (simp add: hub_ok_def)
  have rows: "x = f r \<or> x \<in> set (hb_swarms h)" if xin: "x \<in> set (hb_swarms h')" for x
  proof -
    obtain y where y: "y \<in> set (hb_swarms h)" "x = (if sw_id y = i then f y else y)" 
      by (rule in_update_whereE [OF xin [unfolded h'(1)]])
    have "sw_id y = i \<Longrightarrow> y = r" using distinct_map_inj [OF dist y(1), of r] rin by simp
    then show ?thesis using y by auto
  qed
  have live: "lived (life_of r)" using inv rin by (simp add: hub_ok_def)
  have moved: "row_moves r (f r)" using move id by (simp add: row_moves_def r_into_rtranclp)
  have ok: "hub_ok h'"
    unfolding hub_ok_def using h' rows inv lived_moves [OF live moved] by (auto simp: hub_ok_def map_update_where [of sw_id, OF ids])
  moreover have "hub_moves h h'"
    unfolding hub_moves_def find using r moved inv find_swarm_in by (auto simp: hub_ok_def split: option.split)
  moreover have "backed io h' x" if x: "x \<in> set (hb_swarms h')" "\<forall>r0. find_swarm h (sw_id x) = Some r0 \<longrightarrow> sw_state r0 \<noteq> COMPLETED" for x
  proof (cases "sw_id x = i")
    case True
    then have "x = f r" using find_swarm_row [OF ok x(1)] find by simp
    then show ?thesis using fin by (cases "sw_state x = COMPLETED") (auto simp: backed_def)
  next
    case False
    then have "find_swarm h (sw_id x) = Some x" using find_swarm_row [OF ok x(1)] find by simp
    then show ?thesis using x(2) by (simp add: backed_def)
  qed
  ultimately show ?thesis using h'(3) by (simp add: steps_ok_def)
qed

section \<open>The stores of a step\<close>

lemma hub_board_inv: "hub_ok h \<Longrightarrow> hb_board h = Some rows \<Longrightarrow> board_inv \<lparr>bb_rows = rows, bb_events = Some (hb_events h)\<rparr>"
  by (simp add: hub_ok_def stores_ok_def board_inv_def)

lemma update_keeps_store:
  assumes inv: "board_inv st" and es: "bb_events st = Some es"
    and ok: "update_in_transaction io ids now st b s content author clock expected key = Inr (st', res)"
  obtains es' where "bb_events st' = Some es'" "same_store es es'"
proof (cases "\<exists>sec ev. res = Bb_Updated sec ev")
  case False
  then show thesis using update_unchanged [OF inv ok] that [of es] es by auto
next
  case True
  then obtain sec ev where res: "res = Bb_Updated sec ev" by blast
  show thesis
  proof (cases rule: update_written [OF inv ok [unfolded res]])
    case (1 c key')
    from 1(6) show thesis
    proof
      assume "\<not> logs_events st \<and> ev = None \<and> bb_events st' = bb_events st"
      then show thesis using that [of es] es by simp
    next
      assume "\<exists>es e db r. bb_events st = Some es \<and> es_enabled es \<and> update_event io ids b sec expected key' = Inr e \<and>
          append_in_transaction (\<lambda>p. bi_text io (PDict p)) (bi_load io) es True e True = Inr (db, r) \<and> \<not> ao_duplicate r \<and>
          ev = ao_event r \<and> bb_events st' = Some (es\<lparr>es_db := db\<rparr>)"
      then obtain e db r where w: "update_event io ids b sec expected key' = Inr e"
        "append_in_transaction (\<lambda>p. bi_text io (PDict p)) (bi_load io) es True e True = Inr (db, r)" "bb_events st' = Some (es\<lparr>es_db := db\<rparr>)"
        using es by auto
      have "event_inv (es_db es)" using inv es by (simp add: board_inv_def)
      then obtain news where "appends (es_db es) db news" using tx_appends [OF _ update_event_valid [OF w(1)] w(2)] by blast
      then show thesis using that [OF w(3)] by (auto simp: same_store_def appends_def)
    qed
  qed
qed

lemma board_step_ok:
  assumes inv: "hub_ok h" and ok: "board_step io t r section_name pay role h = Inr (Inr (h', events))"
  shows "hub_ok h'" "hb_swarms h' = hb_swarms h" "hb_verification h' = hb_verification h" "hb_leases h' = hb_leases h"
    "same_store (hb_events h) (hb_events h')"
proof -
  have *: "hub_ok h' \<and> hb_swarms h' = hb_swarms h \<and> hb_verification h' = hb_verification h \<and> hb_leases h' = hb_leases h \<and>
    same_store (hb_events h) (hb_events h')"
  proof (cases "hb_board h")
    case None
    then show ?thesis using ok inv by (simp add: board_step_def)
  next
    case (Some rows)
    obtain b s where ids: "board_identifier (PStr (swarm_stream (sw_id r))) = Some b" "board_identifier (PStr section_name) = Some s"
      using ok Some by (auto simp: board_step_def split: option.splits)
    obtain st res where u: "update_in_transaction (hi_board io) (ti_ids t 0) (ti_now t)
        \<lparr>bb_rows = rows, bb_events = Some (hb_events h)\<rparr> b s (PDict pay) (author_of role) [] (Some 0)
        (board_key (sw_id r) (sw_version r) section_name) = Inr (st, res)" "\<not> board_refused res"
      "h' = h\<lparr>hb_board := Some (bb_rows st), hb_events := (case bb_events st of None \<Rightarrow> hb_events h | Some es \<Rightarrow> es)\<rparr>"
      using ok by (auto simp: board_step_def Some ids split: if_split_asm)
    note binv = hub_board_inv [OF inv Some]
    obtain es' where es': "bb_events st = Some es'" "same_store (hb_events h) es'"
      using update_keeps_store [OF binv _ u(1)] by auto
    have "board_inv st" by (rule update_inv [OF binv u(1)])
    then show ?thesis using inv es' by (simp add: u(3) hub_ok_def stores_ok_def board_inv_def)
  qed
  then show "hub_ok h'" "hb_swarms h' = hb_swarms h" "hb_verification h' = hb_verification h" "hb_leases h' = hb_leases h"
    "same_store (hb_events h) (hb_events h')" by auto
qed

lemma add_task_receipt_ok:
  assumes inv: "event_inv (es_db es)" and ok: "add_task_receipt io ids now task criterion rid tasks es = Inr (tasks', es', events)"
  shows "event_inv (es_db es') \<and> same_store es es'"
proof (cases "find (\<lambda>t. tk_id t = task) tasks")
  case None
  then show ?thesis using ok inv by (simp add: add_task_receipt_def)
next
  case (Some t)
  then obtain e ev where e: "create_event (fst ids) (fst (snd ids)) (snd (snd ids)) (''task:'' @ task) ''task.verified''
      (Some [(''criterion'', PStr criterion), (''receipt_id'', PStr rid)]) (receipt_key task criterion rid) ''verifier'' [] None = Inr e"
    "append_made io e es = Inr (es', ev)"
    using ok by (auto simp: add_task_receipt_def Let_def split: prod.splits if_splits)
  show ?thesis using append_made_ok [OF inv create_event_valid [OF e(1)] e(2)] by simp
qed

lemma receipt_event_valid: "receipt_event io ids r = Inr e \<Longrightarrow> valid_event e"
proof -
  assume ok: "receipt_event io ids r = Inr e"
  then obtain e0 p where e0: "create_event (fst ids) (fst (snd ids)) (snd (snd ids)) (''verification:'' @ rc_task r) ''verification.receipt_recorded''
      (Some (receipt_dict r)) (''rcpt_'' @ rc_id r) (if rc_owner r = [] then ''verifier'' else rc_owner r) [] None = Inr e0"
    "e = e0\<lparr>ae_payload := p\<rparr>"
    by (auto simp: receipt_event_def split: prod.splits option.splits)
  show "valid_event e" using create_event_valid [OF e0(1)] by (simp add: e0(2) valid_event_def)
qed

text \<open>A recorded receipt is in the table, and the others keep what they said.\<close>

lemma put_receipt_rows:
  assumes same: "\<forall>x \<in> set rows. rr_id x = rr_id r \<longrightarrow> rr_task x = rr_task r \<and> rr_evidence x = rr_evidence r \<and> rr_passed x = rr_passed r"
  shows "\<exists>y \<in> set (put_receipt r rows). rr_id y = rr_id r \<and> rr_task y = rr_task r \<and> rr_evidence y = rr_evidence r \<and> rr_passed y = rr_passed r"
    and "\<forall>x \<in> set rows. \<exists>y \<in> set (put_receipt r rows). rr_id y = rr_id x \<and> rr_task y = rr_task x \<and> rr_evidence y = rr_evidence x \<and> rr_passed y = rr_passed x"
proof -
  show all: "\<forall>x \<in> set rows. \<exists>y \<in> set (put_receipt r rows). rr_id y = rr_id x \<and> rr_task y = rr_task x \<and> rr_evidence y = rr_evidence x \<and> rr_passed y = rr_passed x"
  proof
    fix x assume x: "x \<in> set rows"
    show "\<exists>y \<in> set (put_receipt r rows). rr_id y = rr_id x \<and> rr_task y = rr_task x \<and> rr_evidence y = rr_evidence x \<and> rr_passed y = rr_passed x"
    proof (cases "\<exists>x \<in> set rows. rr_id x = rr_id r")
      case True
      let ?f = "\<lambda>x. x\<lparr>rr_expires := rr_expires r, rr_passed := rr_passed r, rr_details := rr_details r\<rparr>"
      have "(if rr_id x = rr_id r then ?f x else x) \<in> set (put_receipt r rows)"
        unfolding put_receipt_def if_P [OF True] by (rule in_update_whereI [OF x])
      then show ?thesis using same x by (intro bexI) (auto split: if_splits)
    qed (use x in \<open>auto simp: put_receipt_def\<close>)
  qed
  show "\<exists>y \<in> set (put_receipt r rows). rr_id y = rr_id r \<and> rr_task y = rr_task r \<and> rr_evidence y = rr_evidence r \<and> rr_passed y = rr_passed r"
  proof (cases "\<exists>x \<in> set rows. rr_id x = rr_id r")
    case True
    then obtain x where "x \<in> set rows" "rr_id x = rr_id r" by blast
    then show ?thesis using all same by metis
  qed (auto simp: put_receipt_def)
qed

lemma record_ok:
  assumes inv: "event_inv (es_db es)" "distinct (map rr_id (vs_rows vs))"
    and ok: "record_in_transaction io matches ids ids' now r vs es = Inr (vs', es', events)"
  shows "event_inv (es_db es') \<and> same_store es es' \<and> distinct (map rr_id (vs_rows vs')) \<and> (rc_passed r \<and> rc_owner r = [] \<longrightarrow> matches = None) \<and>
    (\<exists>y \<in> set (vs_rows vs'). rr_id y = rc_id r \<and> rr_task y = rc_task r \<and> rr_evidence y = rc_evidence r \<and> rr_passed y = rc_passed r) \<and>
    (\<forall>x \<in> set (vs_rows vs). \<exists>y \<in> set (vs_rows vs').
       rr_id y = rr_id x \<and> rr_task y = rr_task x \<and> rr_evidence y = rr_evidence x \<and> rr_passed y = rr_passed x)"
proof -
  define row where "row = receipt_to_row io r"
  have row: "rr_id row = rc_id r" "rr_task row = rc_task r" "rr_evidence row = rc_evidence r" "rr_passed row = rc_passed r"
    by (simp_all add: row_def receipt_to_row_def)
  obtain details e es1 new where p: "case find (\<lambda>x. rr_id x = rc_id r) (vs_rows vs) of None \<Rightarrow> True | Some old \<Rightarrow> same_receipt io old row details"
    "receipt_event io ids r = Inr e" "append_made io e es = Inr (es1, new)"
    "(case (vs_tasks vs, rc_passed r) of
        (Some tasks, True) \<Rightarrow>
          bindr (add_task_receipt io ids' now (rc_task r) (rc_criterion r) (rc_id r) tasks es1) (\<lambda>(tasks', es2, more).
            Inr ((vs\<lparr>vs_rows := put_receipt row (vs_rows vs)\<rparr>)\<lparr>vs_tasks := Some tasks'\<rparr>, es2, new @ more))
      | _ \<Rightarrow> Inr (vs\<lparr>vs_rows := put_receipt row (vs_rows vs)\<rparr>, es1, new)) = Inr (vs', es', events)"
    using ok unfolding record_in_transaction_def Let_def row_def [symmetric] by (auto split: option.splits)
  have trusted: "rc_passed r \<and> rc_owner r = [] \<longrightarrow> matches = None"
    using ok by (auto simp: record_in_transaction_def receipt_checks_def evidence_matches_def split: option.splits)
  note one = append_made_ok [OF inv(1) receipt_event_valid [OF p(2)] p(3)]
  have two: "vs_rows vs' = put_receipt row (vs_rows vs) \<and> event_inv (es_db es') \<and> same_store es es'"
  proof (cases "vs_tasks vs = None \<or> \<not> rc_passed r")
    case True
    then show ?thesis using p(4) one by (auto split: option.splits bool.splits)
  next
    case False
    then obtain tasks tasks' more where "vs_tasks vs = Some tasks"
      "add_task_receipt io ids' now (rc_task r) (rc_criterion r) (rc_id r) tasks es1 = Inr (tasks', es', more)"
      "vs' = vs\<lparr>vs_rows := put_receipt row (vs_rows vs), vs_tasks := Some tasks'\<rparr>"
      using p(4) by (auto split: option.splits bool.splits)
    then show ?thesis using add_task_receipt_ok [OF one(1)] same_store_trans [OF one(2)] by auto
  qed
  have same: "\<forall>x \<in> set (vs_rows vs). rr_id x = rr_id row \<longrightarrow> rr_task x = rr_task row \<and> rr_evidence x = rr_evidence row \<and> rr_passed x = rr_passed row"
  proof safe
    fix x assume x: "x \<in> set (vs_rows vs)" "rr_id x = rr_id row"
    have "find (\<lambda>y. rr_id y = rc_id r) (vs_rows vs) = Some x" using find_distinct_key [OF inv(2) x(1)] x(2) row(1) by simp
    then have "same_receipt io x row details" using p(1) by simp
    then show "rr_task x = rr_task row" "rr_evidence x = rr_evidence row" "rr_passed x \<Longrightarrow> rr_passed row" "rr_passed row \<Longrightarrow> rr_passed x"
      by (auto simp: same_receipt_def)
  qed
  have "distinct (map rr_id (put_receipt row (vs_rows vs)))"
    using inv(2) by (auto simp: put_receipt_def map_update_where [of rr_id])
  then show ?thesis using two trusted put_receipt_rows [OF same] row by simp
qed

end
