(* ===== verification/Swarm_Moves.thy ===== *)
theory Swarm_Moves
  imports Swarm_Guarantees
begin

text \<open>
  Each operation of the coordinator, and what others do to the stores it shares, is a sequence of moves of
  the lifecycle: recovery and dispatch, a step, a cancellation; the machine of all operations.
\<close>

section \<open>Recovery and dispatch\<close>

lemma stores_event:
  assumes "stores_ok h" "event_inv (es_db es)"
  shows "stores_ok (h\<lparr>hb_events := es\<rparr>)"
  using assms by (simp add: stores_ok_def)

lemma finish_cases:
  assumes "finish (h, err) k = (h', res)"
  shows "(\<exists>e. err = Some e \<and> h' = h \<and> res = Inl e) \<or> err = None \<and> k h = (h', res)"
  using assms by (cases err) (auto simp: finish_def)

text \<open>Recovering is only asked for the moves of a recovery.\<close>

lemma recover_steps:
  assumes inv: "hub_ok h" and move: "old = PENDING \<and> new = CODING \<or> \<not> terminal old \<and> new = FAILED"
    and ok: "recover_swarm io t i v old new reason h = (h', res)"
  shows "steps_ok io h h'"
proof (cases "h' = h")
  case False
  have ne: "old \<noteq> new" using move by (auto simp: terminal_def)
  define f where "f = (\<lambda>(r :: swarm_row) (x :: swarm_row). x\<lparr>sw_state := new, sw_updated := ti_now t, sw_version := sw_version r + 1\<rparr>)"
  obtain r h1 e es events err h3 where a: "find_swarm h i = Some r" "sw_state r = old"
    "update_swarm r (f r) h = Inr h1"
    "swarm_event (ti_ids t 0) i ''swarm.reconciled'' (recover_payload old new reason) (recover_key i (sw_version r) new) ''system'' = Inr e"
    "append_swarm_event (hi_board io) e (hb_events h1) = Inr (es, events)"
    "publish_hub io t events (h1\<lparr>hb_events := es\<rparr>) = (h3, err)" "h' = h3"
    using ok False ne unfolding recover_swarm_def f_def
    by (auto simp: bindr_Inl_iff finish_def split: option.splits if_splits sum.splits prod.splits)
  have f: "\<And>x. contract_of (f r x) = contract_of x" "\<And>x. sw_id (f r x) = sw_id x" by (simp_all add: f_def contract_of_def)
  have h1: "h1 = h\<lparr>hb_swarms := update_where (\<lambda>x. sw_id x = i) (f r) (hb_swarms h)\<rparr>"
    using update_swarm_ok(1) [OF inv a(1) f(2)] a(3) by simp
  have "stores_ok h1" using inv by (simp add: h1 hub_ok_def stores_ok_def)
  moreover have "event_inv (es_db (hb_events h1))" using inv by (simp add: h1 hub_ok_def stores_ok_def)
  ultimately have st: "stores_ok (h1\<lparr>hb_events := es\<rparr>)"
    using append_swarm_ok(1) [OF _ swarm_event_valid [OF a(4)] a(5)] by (intro stores_event)
  have life: "life_of (f r r) = (life_of r)\<lparr>lf_state := new, lf_version := lf_version (life_of r) + 1\<rparr>"
    by (simp add: f_def life_of_def)
  have s: "lf_state (life_of r) = old" using a(2) by (simp add: life_of_def)
  have "life_step (life_of r) (life_of (f r r))"
    unfolding life using move s by (auto intro: life_step.resumed life_step.lost)
  then have "steps_ok io h (h1\<lparr>hb_events := es\<rparr>)"
  proof (rule move_steps [OF inv a(1) f(1)])
    show "hb_swarms (h1\<lparr>hb_events := es\<rparr>) = update_where (\<lambda>x. sw_id x = i) (f r) (hb_swarms h)" by (simp add: h1)
    show "receipts_kept h (h1\<lparr>hb_events := es\<rparr>)" by (rule receipts_kept_same) (simp add: h1)
    assume "sw_state (f r r) = COMPLETED"
    then show "backed io (h1\<lparr>hb_events := es\<rparr>) (f r r)" using move by (auto simp: f_def)
  qed (rule st)
  then have moved: "steps_ok io h (h1\<lparr>hb_events := es\<rparr>)" .
  show ?thesis unfolding a(7) by (rule steps_ok_trans [OF moved publish_steps [OF steps_ok_ok [OF moved] a(6)]])
next
  case True
  then show ?thesis using steps_ok_refl [OF inv] by simp
qed

lemma leases_steps: "hub_ok h \<Longrightarrow> steps_ok io h (h\<lparr>hb_leases := ls\<rparr>)"
  by (rule steps_ok_same, erule hub_ok_cong) (simp_all add: receipts_kept_same)

lemma claim_again_steps:
  assumes "hub_ok h" "claim_again io t r h = (h', res)"
  shows "steps_ok io h h'"
proof -
  have "h' = h \<or> (\<exists>ls. h' = h\<lparr>hb_leases := ls\<rparr>)"
  proof (cases "hb_leases h = None \<or> \<not> ti_leases t")
    case True
    then show ?thesis using assms(2) by (auto simp: claim_again_def split: option.splits)
  next
    case False
    then obtain db where db: "hb_leases h = Some db" "ti_leases t" by auto
    obtain db' c where c: "claim (hi_leases io) (ti_now t) (ti_uid t) (PStr (swarm_stream (sw_id r))) (PStr (sw_root r))
        (PList (map PStr (sw_paths r))) (PInt 3600) (PStr (''Swarm recovery: '' @ sw_id r)) Unset db = (db', c)" by fastforce
    have "claim_again io t r h = (h\<lparr>hb_leases := Some db'\<rparr>,
        case c of Claimed _ _ _ _ \<Rightarrow> Inr True | ClaimRaised err \<Rightarrow> Inl (Ev_Runtime err) | _ \<Rightarrow> Inr False)"
      unfolding claim_again_def db(1) option.case c by (cases c) (simp_all add: db(2))
    then show ?thesis using assms(2) by auto
  qed
  then show ?thesis using assms(1) by (auto intro: leases_steps steps_ok_refl)
qed

lemma as_unit_fst: "fst (as_unit x) = fst x"
  by (auto simp: as_unit_def split: prod.splits sum.splits)

lemma reconcile_row_steps:
  assumes inv: "hub_ok h"
  shows "steps_ok io h (fst (reconcile_row io t roots r h))"
proof -
  have recover: "steps_ok io h1 (fst (recover_swarm io t i v old new reason h1))"
    if "hub_ok h1" "old = PENDING \<and> new = CODING \<or> \<not> terminal old \<and> new = FAILED" for h1 i v old new reason
    using recover_steps [OF that, of io t i v reason] by (metis prod.collapse)
  have release: "steps_ok io h (fst (release_swarm t (sw_id r) h))" using release_steps [OF inv] by (metis prod.collapse)
  have start: "steps_ok io h1 (fst (if sw_state r = PENDING then as_unit (recover_swarm io t (sw_id r) (sw_version r) (sw_state r) CODING reason h1) else (h1, None)))"
    if "hub_ok h1" for h1 reason
    using recover [OF that, of PENDING CODING] steps_ok_refl [OF that] by (simp add: as_unit_fst)
  show ?thesis
  proof (cases "terminal (sw_state r)")
    case True
    then show ?thesis using release steps_ok_refl [OF inv] by (auto simp: reconcile_row_def Let_def split: option.split)
  next
    case active: False
    obtain h1 res where c: "claim_again io t r h = (h1, res)" by fastforce
    note one = claim_again_steps [OF inv c]
    have go: "steps_ok io h (fst (if sw_state r = PENDING then as_unit (recover_swarm io t (sw_id r) (sw_version r) (sw_state r) CODING reason h1) else (h1, None)))"
      for reason using steps_ok_trans [OF one start [OF steps_ok_ok [OF one]]] .
    have failed: "steps_ok io h (fst (as_unit (recover_swarm io t (sw_id r) (sw_version r) (sw_state r) FAILED reason h1)))" for reason
      unfolding as_unit_fst using steps_ok_trans [OF one recover [OF steps_ok_ok [OF one]]] active by blast
    show ?thesis
      unfolding reconcile_row_def Let_def if_not_P [OF active] c
      using start [OF inv] go failed one by (auto split: sum.split bool.split)
  qed
qed

lemma reconcile_rows_steps: "hub_ok h \<Longrightarrow> steps_ok io h (fst (reconcile_rows io t roots rs h))"
proof (induction rs arbitrary: h t)
  case Nil
  then show ?case by (simp add: steps_ok_refl)
next
  case (Cons r rs)
  obtain h1 err where row: "reconcile_row io (t 0) roots r h = (h1, err)" by fastforce
  then have one: "steps_ok io h h1" using reconcile_row_steps [OF Cons.prems, of io "t 0" roots r] by simp
  show ?case using one steps_ok_trans [OF one Cons.IH [OF steps_ok_ok [OF one]]] by (cases err) (simp_all add: row)
qed

lemma release_orphans_steps: "hub_ok h \<Longrightarrow> steps_ok io h (fst (release_orphans t ws h))"
proof (induction ws arbitrary: h)
  case Nil
  then show ?case by (simp add: steps_ok_refl)
next
  case (Cons w ws)
  let ?h = "case hb_leases h of None \<Rightarrow> h | Some db \<Rightarrow> h\<lparr>hb_leases := Some (fst (release_owner (PStr w) db))\<rparr>"
  have one: "steps_ok io h ?h" using Cons.prems by (auto intro: leases_steps steps_ok_refl split: option.split)
  show ?case using Cons.prems steps_ok_trans [OF one Cons.IH [OF steps_ok_ok [OF one]]] by (simp add: steps_ok_refl)
qed

lemma reconcile_leases_steps:
  assumes inv: "hub_ok h"
  shows "steps_ok io h (fst (reconcile_leases io t h))"
proof -
  have "steps_ok io h (fst (case reconcile_rows io (t \<circ> Suc) roots (hb_swarms h) h of
                    (h1, Some err) \<Rightarrow> (h1, Some err)
                  | (h1, None) \<Rightarrow> release_orphans (t 0) ws h1))" for roots ws
  proof -
    obtain h1 err where rows: "reconcile_rows io (t \<circ> Suc) roots (hb_swarms h) h = (h1, err)" by fastforce
    then have one: "steps_ok io h h1" using reconcile_rows_steps [OF inv, of io "t \<circ> Suc" roots "hb_swarms h"] by simp
    show ?thesis using one steps_ok_trans [OF one release_orphans_steps [OF steps_ok_ok [OF one]]] by (cases err) (simp_all add: rows)
  qed
  then show ?thesis using steps_ok_refl [OF inv] by (auto simp: reconcile_leases_def split: option.split sum.split)
qed

lemma new_swarm_lived: "s = PENDING \<or> s = CODING \<Longrightarrow> lived (life_of (new_swarm t goal paths command author base s))"
  unfolding lived_def
  by (rule exI [of _ "life_of (new_swarm t goal paths command author base s)"]) (auto simp: new_swarm_def life_of_def dispatched_def)

lemma find_snoc: "find P (xs @ [x]) = (case find P xs of None \<Rightarrow> if P x then Some x else None | Some y \<Rightarrow> Some y)"
  by (induction xs) auto

lemma insert_steps:
  assumes inv: "hub_ok h" and r: "lived (life_of r)" "sw_state r \<noteq> COMPLETED" and ok: "insert_swarm io t r h = Inr (h', events)"
  shows "steps_ok io h h'"
proof -
  obtain e es where a: "find_swarm h (sw_id r) = None"
    "swarm_event (ti_ids t 0) (sw_id r) ''swarm.dispatched''
              (dispatch_payload (sw_goal r) (sw_paths r) (sw_command r) @ [(''state'', PStr (state_text (sw_state r)))])
              (''dispatch:'' @ sw_id r) (sw_author r) = Inr e"
    "append_swarm_event (hi_board io) e (hb_events h) = Inr (es, events)" "h' = h\<lparr>hb_swarms := hb_swarms h @ [r], hb_events := es\<rparr>"
    using ok by (auto simp: insert_swarm_def)
  have "event_inv (es_db (hb_events h))" using inv by (simp add: hub_ok_def stores_ok_def)
  then have "event_inv (es_db es)" using append_swarm_ok(1) [OF _ swarm_event_valid [OF a(2)] a(3)] by simp
  then have ok': "hub_ok h'"
    using inv r(1) a(1) by (auto simp: hub_ok_def stores_ok_def a(4) find_swarm_None)
  have find: "find_swarm h' i = (if i = sw_id r then Some r else find_swarm h i)" for i
    using a(1) by (simp add: find_swarm_def a(4) find_snoc split: option.split)
  have "hub_moves h h'" unfolding hub_moves_def find using r(1) a(1) inv find_swarm_in by (auto simp: hub_ok_def split: option.split)
  moreover have "receipts_kept h h'" by (rule receipts_kept_same) (simp add: a(4))
  moreover have "backed io h' x" if x: "x \<in> set (hb_swarms h')" "\<forall>r0. find_swarm h (sw_id x) = Some r0 \<longrightarrow> sw_state r0 \<noteq> COMPLETED" for x
  proof (cases "x = r")
    case False
    then have "x \<in> set (hb_swarms h)" using x(1) by (simp add: a(4))
    then show ?thesis using find_swarm_row [OF inv] x(2) by (simp add: backed_def)
  qed (use r(2) in \<open>simp add: backed_def\<close>)
  ultimately show ?thesis using ok' by (simp add: steps_ok_def)
qed

lemma dispatch_steps:
  assumes inv: "hub_ok h"
  shows "steps_ok io h (fst (dispatch io t goal targets command author base h))"
proof -
  obtain h' res where d: "dispatch io t goal targets command author base h = (h', res)" by fastforce
  define s where "s = (if hb_leases h \<noteq> None \<and> paths_of targets \<noteq> [] then PENDING else CODING)"
  define r where "r = new_swarm (t 0) (case goal of PStr g \<Rightarrow> g | _ \<Rightarrow> []) (paths_of targets) command author base s"
  have r: "lived (life_of r)" "sw_state r \<noteq> COMPLETED" unfolding r_def by (rule new_swarm_lived) (auto simp: s_def new_swarm_def)
  show ?thesis
  proof (cases "goal_ok goal \<and> list_all target_ok targets \<and> \<not> ti_locked (t 0) \<and> (\<exists>x. insert_swarm io (t 0) r h = Inr x)")
    case False
    then have "h' = h"
      using d unfolding dispatch_def Let_def s_def [symmetric] r_def [symmetric]
      by (auto split: if_splits sum.splits)
    then show ?thesis using d steps_ok_refl [OF inv] by simp
  next
    case True
    then obtain h1 events where ins: "insert_swarm io (t 0) r h = Inr (h1, events)" by auto
    note one = insert_steps [OF inv r ins]
    obtain h2 err where pub: "publish_hub io (t 0) events h1 = (h2, err)" by fastforce
    have two: "steps_ok io h h2" using steps_ok_trans [OF one publish_steps [OF steps_ok_ok [OF one] pub]] .
    define x where "x = (if hb_leases h \<noteq> None \<and> paths_of targets \<noteq> [] then reconcile_leases io (t \<circ> Suc) h2 else (h2, None))"
    have three: "steps_ok io h (fst x)"
      unfolding x_def using two steps_ok_trans [OF two reconcile_leases_steps [OF steps_ok_ok [OF two]]] by simp
    have "h' = h2 \<or> h' = fst x"
      using d True unfolding dispatch_def Let_def s_def [symmetric] r_def [symmetric] ins
      by (auto simp: pub finish_def x_def split: option.splits if_splits prod.splits)
    then show ?thesis using d two three by auto
  qed
qed

section \<open>Steps\<close>

text \<open>What a decision to go on means; \<open>made_of\<close> ties the receipt to the swarm.\<close>

definition made_of :: "swarm_row \<Rightarrow> receipt \<Rightarrow> bool" where
  "made_of r c \<longleftrightarrow> rc_task c = sw_id r \<and> rc_passed c \<and> rc_owner c = [] \<and>
     (\<exists>t. tester_evidence (sw_history r) = Some t \<and> he_evidence t = Some (rc_evidence c))"

definition may_step :: "swarm_state \<Rightarrow> string \<Rightarrow> string \<Rightarrow> payload \<Rightarrow> swarm_state \<Rightarrow> bool" where
  "may_step s role action pay new \<longleftrightarrow>
     s = CODING \<and> role = ''Coder'' \<and> new = TESTING \<or>
     s = TESTING \<and> role = ''Tester'' \<and> new = (if has_passed pay then REVIEWING else FAILED) \<or>
     s = REVIEWING \<and> role = ''Reviewer'' \<and> new = (if action = ''approve'' then COMPLETED else FAILED)"

definition section_of :: "swarm_state \<Rightarrow> string" where
  "section_of s = (case s of CODING \<Rightarrow> ''code'' | TESTING \<Rightarrow> ''test'' | _ \<Rightarrow> ''review'')"

lemma tester_names: "tester_evidence hs = Some t \<Longrightarrow> \<exists>x. he_evidence t = Some x \<and> x \<noteq> []"
  by (auto simp: tester_evidence_def dest!: find_SomeD split: option.splits)

lemma decide_proceed:
  assumes "decide_step io t h r role action pay = Inr (Proceed section_name new rc)"
  shows "may_step (sw_state r) role action pay new \<and> section_name = section_of (sw_state r) \<and> (rc = None \<longleftrightarrow> new \<noteq> COMPLETED) \<and>
    (\<forall>c. rc = Some c \<longrightarrow> made_of r c \<and> hb_verification h \<noteq> None)"
proof (cases "sw_state r")
  case REVIEWING
  show ?thesis
  proof (cases "action = ''approve''")
    case False
    then show ?thesis using assms REVIEWING by (auto simp: decide_step_def may_step_def section_of_def split: if_splits)
  next
    case True
    then obtain tester c where c: "role = ''Reviewer''" "tester_evidence (sw_history r) = Some tester"
      "make_receipt (swarm_receipt_args io t r pay tester) = Inr c" "rc = Some c" "section_name = ''review''" "new = COMPLETED"
      "hb_verification h \<noteq> None"
      using assms REVIEWING unfolding decide_step_def by (auto split: if_splits option.splits)
    have "rc_task c = sw_id r" "rc_passed c" "rc_owner c = []" "rc_evidence c = the (he_evidence tester)"
      using make_receipt_fields [OF c(3)] by (simp_all add: swarm_receipt_args_def Let_def)
    then have "made_of r c" using c(2) tester_names [OF c(2)] by (auto simp: made_of_def)
    then show ?thesis using c True REVIEWING by (auto simp: may_step_def section_of_def)
  qed
qed (use assms in \<open>auto simp: decide_step_def may_step_def section_of_def split: if_splits\<close>)

text \<open>A committed step in its parts.\<close>

lemma commit_step_cases:
  assumes inv: "hub_ok h" and r: "find_swarm h (sw_id r) = Some r"
    and ok: "commit_step io t r section_name new rc role action pay expected key h = Inr (Inr (h', events))"
  obtains h1 board_events event es step_events h2 receipt_events entry where
    "board_step io t r section_name pay role h = Inr (Inr (h1, board_events))"
    "swarm_event (ti_ids t 1) (sw_id r) ''swarm.step'' (step_payload role action pay expected (sw_state r) new (sw_version r + 1)) key role = Inr event"
    "append_swarm_event (hi_board io) event (hb_events h1) = Inr (es, step_events)"
    "record_step io t rc (h1\<lparr>hb_events := es\<rparr>) = Inr (h2, receipt_events)"
    "entry = step_entry t role action pay new (sw_id r) event (board_events @ step_events)"
    "h' = h2\<lparr>hb_swarms := update_where (\<lambda>x. sw_id x = sw_id r)
       (\<lambda>x. x\<lparr>sw_state := new, sw_receipt := (case rc of None \<Rightarrow> sw_receipt x | Some c \<Rightarrow> Some (rc_id c)),
              sw_history := sw_history r @ [entry], sw_updated := ti_now t, sw_version := sw_version r + 1\<rparr>) (hb_swarms h)\<rparr>"
    "events = board_events @ step_events @ receipt_events"
    "hub_ok h1" "hub_ok h2" "hb_swarms h2 = hb_swarms h" "hb_leases h2 = hb_leases h" "same_store (hb_events h) (hb_events h2)"
    "same_store (hb_events h1) es" "same_store es (hb_events h2)" "hb_board h2 = hb_board h1"
    "receipts_kept h h2" "rc = None \<longrightarrow> hb_verification h2 = hb_verification h"
    "\<forall>c vs. rc = Some c \<longrightarrow> hb_verification h = Some vs \<longrightarrow> (rc_passed c \<and> rc_owner c = [] \<longrightarrow> hi_matches io = None) \<and> (\<exists>vs'. hb_verification h2 = Some vs' \<and>
       (\<exists>y \<in> set (vs_rows vs'). rr_id y = rc_id c \<and> rr_task y = rc_task c \<and> rr_evidence y = rc_evidence c \<and> rr_passed y = rc_passed c))"
proof -
  obtain h1 board_events where b: "board_step io t r section_name pay role h = Inr (Inr (h1, board_events))"
  proof -
    obtain answer where "board_step io t r section_name pay role h = Inr answer"
      using ok unfolding commit_step_def bindr_Inr_iff by blast
    then show thesis using ok that by (cases answer) (auto simp: commit_step_def)
  qed
  note b1 = board_step_ok [OF inv b]
  obtain event es step_events h2 receipt_events where e:
    "swarm_event (ti_ids t 1) (sw_id r) ''swarm.step'' (step_payload role action pay expected (sw_state r) new (sw_version r + 1)) key role = Inr event"
    "append_swarm_event (hi_board io) event (hb_events h1) = Inr (es, step_events)"
    "record_step io t rc (h1\<lparr>hb_events := es\<rparr>) = Inr (h2, receipt_events)"
    using ok by (auto simp: commit_step_def b Let_def)
  define entry where "entry = step_entry t role action pay new (sw_id r) event (board_events @ step_events)"
  have inv1: "event_inv (es_db (hb_events h1))" using b1(1) by (simp add: hub_ok_def stores_ok_def)
  note e1 = append_swarm_ok [OF inv1 swarm_event_valid [OF e(1)] e(2)]
  have mid: "hub_ok (h1\<lparr>hb_events := es\<rparr>)" using b1(1) e1(1) by (simp add: hub_ok_def stores_ok_def)
  have rec: "hub_ok h2 \<and> hb_swarms h2 = hb_swarms h1 \<and> hb_leases h2 = hb_leases h1 \<and> hb_board h2 = hb_board h1 \<and> same_store es (hb_events h2) \<and>
    receipts_kept h1 h2 \<and> (rc = None \<longrightarrow> hb_verification h2 = hb_verification h1) \<and>
    (\<forall>c vs. rc = Some c \<longrightarrow> hb_verification h1 = Some vs \<longrightarrow> (rc_passed c \<and> rc_owner c = [] \<longrightarrow> hi_matches io = None) \<and> (\<exists>vs'. hb_verification h2 = Some vs' \<and>
       (\<exists>y \<in> set (vs_rows vs'). rr_id y = rc_id c \<and> rr_task y = rc_task c \<and> rr_evidence y = rc_evidence c \<and> rr_passed y = rc_passed c)))"
  proof (cases "rc = None \<or> hb_verification h1 = None")
    case True
    then have "h2 = h1\<lparr>hb_events := es\<rparr>" using e(3) by (auto simp: record_step_def split: option.splits)
    then show ?thesis using mid True by (auto intro: receipts_kept_same)
  next
    case False
    then obtain c vs where cv: "rc = Some c" "hb_verification h1 = Some vs" by auto
    then obtain vs' es2 where rr: "record_in_transaction (hi_board io) (hi_matches io) (ti_ids t 2) (ti_ids t 3) (ti_now t) c vs es = Inr (vs', es2, receipt_events)"
      "h2 = h1\<lparr>hb_events := es2, hb_verification := Some vs'\<rparr>"
      using e(3) by (auto simp: record_step_def)
    have "distinct (map rr_id (vs_rows vs))" using b1(1) cv(2) by (simp add: hub_ok_def stores_ok_def)
    note R = record_ok [OF e1(1) this rr(1)]
    have "hub_ok h2" using b1(1) R by (simp add: rr(2) hub_ok_def stores_ok_def)
    then show ?thesis using R cv by (auto simp: rr(2) receipts_kept_def)
  qed
  have find2: "find_swarm h2 (sw_id r) = Some r" using r rec b1(2) by (simp add: find_swarm_def)
  let ?f = "\<lambda>x. x\<lparr>sw_state := new, sw_receipt := (case rc of None \<Rightarrow> sw_receipt x | Some c \<Rightarrow> Some (rc_id c)),
              sw_history := sw_history r @ [entry], sw_updated := ti_now t, sw_version := sw_version r + 1\<rparr>"
  have ok2: "hub_ok h2" using rec by simp
  have upd: "update_swarm r ?f h2 = Inr (h2\<lparr>hb_swarms := update_where (\<lambda>x. sw_id x = sw_id r) ?f (hb_swarms h2)\<rparr>)"
    by (rule update_swarm_ok(1) [OF ok2 find2]) simp
  have out: "h' = h2\<lparr>hb_swarms := update_where (\<lambda>x. sw_id x = sw_id r) ?f (hb_swarms h2)\<rparr>" "events = board_events @ step_events @ receipt_events"
    using ok unfolding commit_step_def b bindr_simps sum.case prod.case e Let_def entry_def [symmetric] upd by auto
  have kept: "receipts_kept h h2" using receipts_kept_trans [OF receipts_kept_same [OF b1(3)]] rec by simp
  have store: "same_store (hb_events h) (hb_events h2)" using same_store_trans [OF b1(5) same_store_trans [OF e1(2)]] rec by simp
  have same: "hb_swarms h2 = hb_swarms h" "hb_leases h2 = hb_leases h" using rec b1 by simp_all
  have recorded: "rc = None \<longrightarrow> hb_verification h2 = hb_verification h"
    "\<forall>c vs. rc = Some c \<longrightarrow> hb_verification h = Some vs \<longrightarrow> (rc_passed c \<and> rc_owner c = [] \<longrightarrow> hi_matches io = None) \<and> (\<exists>vs'. hb_verification h2 = Some vs' \<and>
       (\<exists>y \<in> set (vs_rows vs'). rr_id y = rc_id c \<and> rr_task y = rc_task c \<and> rr_evidence y = rc_evidence c \<and> rr_passed y = rc_passed c))"
    using rec unfolding b1(3) by blast+
  show thesis
    by (rule that [OF b e entry_def out(1) [unfolded same] out(2) b1(1) ok2 same store e1(2) _ _ kept recorded]) (use rec in blast)+
qed

lemma step_entry_fields:
  assumes "new = REVIEWING \<longleftrightarrow> role = ''Tester'' \<and> has_passed pay" "ae_id event \<noteq> []" "\<forall>e \<in> set events. ae_id e \<noteq> []"
  shows "he_role (step_entry t role action pay new i event events) = role" "he_action (step_entry t role action pay new i event events) = action"
    "he_payload (step_entry t role action pay new i event events) = pay" "he_state (step_entry t role action pay new i event events) = Some new"
    "new = REVIEWING \<Longrightarrow> names_evidence (step_entry t role action pay new i event events)"
  using assms by (auto simp: step_entry_def names_evidence_def dest!: find_SomeD split: option.split)

lemma board_events_ids:
  assumes inv: "hub_ok h" and ok: "board_step io t r section_name pay role h = Inr (Inr (h', events))"
  shows "\<forall>e \<in> set events. ae_kind e \<noteq> ''swarm.step''"
proof (cases "hb_board h")
  case None
  then show ?thesis using ok by (simp add: board_step_def)
next
  case (Some rows)
  obtain b s where ids: "board_identifier (PStr (swarm_stream (sw_id r))) = Some b" "board_identifier (PStr section_name) = Some s"
    using ok Some by (auto simp: board_step_def split: option.splits)
  obtain st res where u: "update_in_transaction (hi_board io) (ti_ids t 0) (ti_now t)
      \<lparr>bb_rows = rows, bb_events = Some (hb_events h)\<rparr> b s (PDict pay) (author_of role) [] (Some 0)
      (board_key (sw_id r) (sw_version r) section_name) = Inr (st, res)" "events = published res"
    using ok by (auto simp: board_step_def Some ids split: if_split_asm)
  show ?thesis
  proof (cases "\<exists>sec e. res = Bb_Updated sec (Some e)")
    case False
    then show ?thesis by (auto simp: u(2) published_def split: update_result.splits option.splits)
  next
    case True
    then obtain sec e where res: "res = Bb_Updated sec (Some e)" by blast
    note binv = hub_board_inv [OF inv Some]
    show ?thesis
    proof (cases rule: update_written [OF binv u(1) [unfolded res]])
      case (1 c key')
      have key': "key' \<noteq> []" using 1(5) by (simp add: board_key_def)
      obtain ev db r' where w: "update_event (hi_board io) (ti_ids t 0) b sec (Some 0) key' = Inr ev"
        "append_in_transaction (\<lambda>p. bi_text (hi_board io) (PDict p)) (bi_load (hi_board io)) (hb_events h) True ev True = Inr (db, r')"
        "\<not> ao_duplicate r'" "Some e = ao_event r'"
        using 1(6) by (auto simp: logs_events_def)
      have "event_inv (es_db (hb_events h))" using inv by (simp add: hub_ok_def stores_ok_def)
      then have "ae_kind e = ae_kind ev"
        by (cases rule: append_in_transaction_cases [OF _ update_event_valid [OF w(1)] w(2)]) (use w(3,4) in \<open>auto simp: ok_outcome_def\<close>)
      then show ?thesis using update_event_fields [OF w(1) key'] by (simp add: u(2) res published_def)
    qed
  qed
qed

lemma append_swarm_events:
  assumes inv: "event_inv (es_db es)" and e: "valid_event e" and ok: "append_swarm_event io e es = Inr (es', events)"
  shows "events = [] \<or> (\<exists>n. events = [e\<lparr>ae_seq := Some n\<rparr>])"
proof (cases "es_enabled es")
  case True
  then obtain db r where app: "append_in_transaction (\<lambda>p. bi_text io (PDict p)) (bi_load io) es True e True = Inr (db, r)"
    "events = (if ao_duplicate r then [] else [the (ao_event r)])"
    using ok by (auto simp: append_swarm_event_def append_made_def)
  show ?thesis
    by (cases rule: append_in_transaction_cases [OF inv e app(1)]) (auto simp: app(2) ok_outcome_def)
qed (use ok in \<open>simp add: append_swarm_event_def\<close>)

text \<open>The entry that a step adds is what its role did.\<close>

lemma step_entry_ok:
  assumes inv: "hub_ok h" and b: "board_step io t r section_name pay role h = Inr (Inr (h1, board_events))" "hub_ok h1"
    and e: "swarm_event (ti_ids t 1) (sw_id r) ''swarm.step'' p key role = Inr event" "key \<noteq> []"
    and app: "append_swarm_event (hi_board io) event (hb_events h1) = Inr (es, step_events)"
    and entry: "entry = step_entry t role action pay new (sw_id r) event (board_events @ step_events)"
  shows "he_role entry = role \<and> he_action entry = action \<and> he_payload entry = pay \<and> he_state entry = Some new \<and> he_time entry = ti_now t \<and>
    he_evidence entry = (if role = ''Tester'' \<and> has_passed pay then Some (ae_id event) else None) \<and> ae_id event \<noteq> []"
proof -
  note f = swarm_event_fields [OF e]
  have inv1: "event_inv (es_db (hb_events h1))" using b(2) by (simp add: hub_ok_def stores_ok_def)
  have events: "step_events = [] \<or> (\<exists>n. step_events = [event\<lparr>ae_seq := Some n\<rparr>])" by (rule append_swarm_events [OF inv1 _ app]) (use f in simp)
  have none: "find (\<lambda>e. ae_kind e = ''swarm.step'' \<and> ae_stream e = swarm_stream (sw_id r)) (rev board_events) = None"
    using board_events_ids [OF inv b(1)] by (auto simp: find_None_iff)
  have "find (\<lambda>e. ae_kind e = ''swarm.step'' \<and> ae_stream e = swarm_stream (sw_id r)) (rev (board_events @ step_events)) =
      (if step_events = [] then None else Some (hd step_events))"
    using events none f by auto
  then show ?thesis using events f by (auto simp: entry step_entry_def Let_def)
qed

lemma commit_step_steps:
  assumes inv: "hub_ok h" and r: "find_swarm h (sw_id r) = Some r"
    and dec: "decide_step io t h r role action pay = Inr (Proceed section_name new rc)"
    and ok: "commit_step io t r section_name new rc role action pay expected key h = Inr (Inr (h', events))" and key: "key \<noteq> []"
  shows "steps_ok io h h'"
proof (cases rule: commit_step_cases [OF inv r ok])
  case (1 h1 board_events event es step_events h2 receipt_events entry)
  note d = decide_proceed [OF dec]
  note en = step_entry_ok [OF inv 1(1) 1(8) 1(2) key 1(3) 1(5)]
  define f where "f = (\<lambda>x :: swarm_row. x\<lparr>sw_state := new, sw_receipt := (case rc of None \<Rightarrow> sw_receipt x | Some c \<Rightarrow> Some (rc_id c)),
              sw_history := sw_history r @ [entry], sw_updated := ti_now t, sw_version := sw_version r + 1\<rparr>)"
  have h': "h' = h2\<lparr>hb_swarms := update_where (\<lambda>x. sw_id x = sw_id r) f (hb_swarms h)\<rparr>" unfolding f_def by (rule 1(6))
  have role: "role_step (sw_state r) entry new"
    using d en by (auto simp: may_step_def role_step_def names_evidence_def split: if_splits)
  have life: "life_of (f r) = (life_of r)\<lparr>lf_state := new, lf_receipt := (case map_option rc_id rc of None \<Rightarrow> lf_receipt (life_of r) | Some c \<Rightarrow> Some c),
      lf_history := lf_history (life_of r) @ [entry], lf_version := lf_version (life_of r) + 1\<rparr>"
    by (simp add: f_def life_of_def split: option.split)
  have step: "life_step (life_of r) (life_of (f r))"
    unfolding life by (rule life_step.worked) (use role en d in \<open>auto simp: life_of_def\<close>)
  show ?thesis
  proof (rule move_steps [OF inv r, of f])
    show "\<And>x. contract_of (f x) = contract_of x" by (simp add: f_def contract_of_def)
    show "life_step (life_of r) (life_of (f r))" by (rule step)
    show "hb_swarms h' = update_where (\<lambda>x. sw_id x = sw_id r) f (hb_swarms h)" by (simp add: h')
    show "stores_ok h'" using 1(9) by (simp add: h' hub_ok_def stores_ok_def)
    show "receipts_kept h h'" using 1(16) by (simp add: h' receipts_kept_def)
    assume "sw_state (f r) = COMPLETED"
    then have comp: "new = COMPLETED" by (simp add: f_def)
    then obtain c where c: "rc = Some c" "made_of r c" "hb_verification h \<noteq> None" using d by auto
    then obtain vs' y where y: "hb_verification h2 = Some vs'" "y \<in> set (vs_rows vs')" "rr_id y = rc_id c" "rr_task y = rc_task c"
      "rr_evidence y = rc_evidence c" "rr_passed y = rc_passed c" "rc_passed c \<and> rc_owner c = [] \<longrightarrow> hi_matches io = None"
      using 1(18) by blast
    obtain tt where tt: "tester_evidence (sw_history r) = Some tt" "he_evidence tt = Some (rc_evidence c)" using c(2) by (auto simp: made_of_def)
    have last: "he_role entry = ''Reviewer''" using d en comp by (auto simp: may_step_def split: if_splits)
    then have "tester_evidence (sw_history r @ [entry]) = Some tt" using tt(1) by (simp add: tester_evidence_def)
    then have "hb_verification h' = Some vs' \<and> sw_receipt (f r) = Some (rr_id y) \<and> rr_task y = sw_id (f r) \<and> rr_passed y \<and>
        tester_evidence (sw_history (f r)) = Some tt \<and> he_evidence tt = Some (rr_evidence y)"
      using y tt c by (simp add: f_def h' made_of_def)
    then show "backed io h' (f r)" unfolding backed_def using y(2,7) c(2) by (auto simp: made_of_def)
  qed
qed

lemma repeat_step_steps: "hub_ok h \<Longrightarrow> steps_ok io h (fst (repeat_step io t r row role action pay expected h))"
  using release_steps [of h t "sw_id r"] steps_ok_refl [of h]
  by (auto simp: repeat_step_def Let_def split: sum.split prod.split)

lemma step_swarm_steps:
  assumes inv: "hub_ok h"
  shows "steps_ok io h (fst (step_swarm io t i role action pay expected key base h))"
proof -
  define full where "full = step_key io i role action pay key"
  have full: "full \<noteq> []" unfolding full_def by (simp add: step_key_def)
  obtain h' res where s: "step_swarm io t i role action pay expected key base h = (h', res)" by fastforce
  show ?thesis
  proof (cases "\<exists>r row. get_status h i base = Some r \<and> earlier_event h i full = Some row \<and> \<not> ti_locked t")
    case True
    then obtain r row where r: "get_status h i base = Some r" "earlier_event h i full = Some row" "\<not> ti_locked t" by blast
    then have "fst (step_swarm io t i role action pay expected key base h) = fst (repeat_step io t r row role action pay expected h)"
      by (simp add: step_swarm_def Let_def full_def [symmetric] split: prod.split)
    then show ?thesis using repeat_step_steps [OF inv] by simp
  next
    case no: False
    show ?thesis
    proof (cases "\<exists>r section_name new rc h1 events. get_status h i base = Some r \<and> decide_step io t h r role action pay = Inr (Proceed section_name new rc) \<and>
        commit_step io t r section_name new rc role action pay expected full h = Inr (Inr (h1, events)) \<and> h' \<noteq> h")
      case False
      have "h' = h"
      proof (rule ccontr)
        assume ne: "h' \<noteq> h"
        then show False
          using s False no unfolding step_swarm_def Let_def full_def [symmetric]
          by (auto split: if_splits option.splits sum.splits step_decision.splits prod.splits)
      qed
      then show ?thesis using s steps_ok_refl [OF inv] by simp
    next
      case True
      then obtain r section_name new rc h1 events where c: "get_status h i base = Some r"
        "decide_step io t h r role action pay = Inr (Proceed section_name new rc)"
        "commit_step io t r section_name new rc role action pay expected full h = Inr (Inr (h1, events))" "h' \<noteq> h" by blast
      note r = get_status_find [OF inv c(1)]
      have one: "steps_ok io h h1" by (rule commit_step_steps [OF inv _ c(2,3) full]) (use r in simp)
      obtain h2 err where pub: "publish_hub io t events h1 = (h2, err)" by fastforce
      have two: "steps_ok io h h2" using steps_ok_trans [OF one publish_steps [OF steps_ok_ok [OF one] pub]] .
      obtain h3 released where rel: "release_swarm t i h2 = (h3, released)" by fastforce
      have three: "steps_ok io h h3" using steps_ok_trans [OF two release_steps [OF steps_ok_ok [OF two] rel]] .
      have "h' = h2 \<or> h' = h3"
        using s c no unfolding step_swarm_def Let_def full_def [symmetric]
        by (auto simp: pub rel finish_def split: if_splits option.splits)
      then show ?thesis using s two three by auto
    qed
  qed
qed

section \<open>Cancelling\<close>

lemma commit_cancel_steps:
  assumes inv: "hub_ok h" and r: "find_swarm h (sw_id r) = Some r" "\<not> terminal (sw_state r)"
    and ok: "commit_cancel io t r reason expected key h = Inr (h', events)"
  shows "steps_ok io h h'"
proof -
  obtain event where ev: "swarm_event (ti_ids t 0) (sw_id r) ''swarm.cancelled''
              (cancel_payload reason expected (sw_state r) (sw_version r + 1)) key ''Coordinator'' = Inr event"
    using ok by (auto simp: commit_cancel_def)
  define entry where "entry = \<lparr>he_time = ti_now t, he_role = ''Coordinator'', he_action = ''cancel'',
                   he_payload = [(''reason'', PStr reason)], he_state = Some FAILED, he_evidence = None, he_event = Some (ae_id event)\<rparr>"
  define f where "f = (\<lambda>x :: swarm_row. x\<lparr>sw_state := FAILED, sw_history := sw_history r @ [entry], sw_updated := ti_now t, sw_version := sw_version r + 1\<rparr>)"
  have f: "\<And>x. contract_of (f x) = contract_of x" "\<And>x. sw_id (f x) = sw_id x" by (simp_all add: f_def contract_of_def)
  define h1 where "h1 = h\<lparr>hb_swarms := update_where (\<lambda>x. sw_id x = sw_id r) f (hb_swarms h)\<rparr>"
  have upd: "update_swarm r f h = Inr h1" unfolding h1_def by (rule update_swarm_ok(1) [OF inv r(1) f(2)])
  obtain es where es: "append_swarm_event (hi_board io) event (hb_events h1) = Inr (es, events)" "h' = h1\<lparr>hb_events := es\<rparr>"
    using ok unfolding commit_cancel_def ev bindr_simps entry_def [symmetric] f_def [symmetric] upd by auto
  have st: "stores_ok h1" using inv by (simp add: h1_def hub_ok_def stores_ok_def)
  then have "event_inv (es_db (hb_events h1))" by (simp add: stores_ok_def)
  then have st': "stores_ok h'" unfolding es(2) by (intro stores_event st append_swarm_ok(1) [OF _ swarm_event_valid [OF ev] es(1)])
  have life: "life_of (f r) = (life_of r)\<lparr>lf_state := FAILED, lf_history := lf_history (life_of r) @ [entry], lf_version := lf_version (life_of r) + 1\<rparr>"
    by (simp add: f_def life_of_def)
  have "life_step (life_of r) (life_of (f r))"
    unfolding life by (rule life_step.cancelled) (use r(2) in \<open>simp_all add: life_of_def entry_def\<close>)
  then show ?thesis
  proof (rule move_steps [OF inv r(1) f(1)])
    show "hb_swarms h' = update_where (\<lambda>x. sw_id x = sw_id r) f (hb_swarms h)" by (simp add: es(2) h1_def)
    show "receipts_kept h h'" by (rule receipts_kept_same) (simp add: es(2) h1_def)
  qed (use st' in \<open>simp_all add: f_def\<close>)
qed

lemma repeat_cancel_steps: "hub_ok h \<Longrightarrow> steps_ok io' h (fst (repeat_cancel io t r row reason expected h))"
  using release_steps [of h t "sw_id r" _ _ io'] steps_ok_refl [of h io']
  by (auto simp: repeat_cancel_def Let_def split: sum.split prod.split)

lemma cancel_swarm_steps:
  assumes inv: "hub_ok h"
  shows "steps_ok io h (fst (cancel_swarm io t i reason expected key base h))"
proof -
  define why where "why = cancel_reason reason"
  define full where "full = cancel_key io i why key"
  obtain h' res where s: "cancel_swarm io t i reason expected key base h = (h', res)" by fastforce
  show ?thesis
  proof (cases "\<exists>r row. get_status h i base = Some r \<and> earlier_event h i full = Some row \<and> \<not> ti_locked t")
    case True
    then obtain r row where r: "get_status h i base = Some r" "earlier_event h i full = Some row" "\<not> ti_locked t" by blast
    then have "fst (cancel_swarm io t i reason expected key base h) = fst (repeat_cancel io t r row why expected h)"
      by (simp add: cancel_swarm_def Let_def full_def [symmetric] why_def [symmetric] split: prod.split)
    then show ?thesis using repeat_cancel_steps [OF inv] by simp
  next
    case no: False
    show ?thesis
    proof (cases "\<exists>r h1 events. get_status h i base = Some r \<and> \<not> terminal (sw_state r) \<and>
        commit_cancel io t r why expected full h = Inr (h1, events) \<and> h' \<noteq> h")
      case False
      have "h' = h"
      proof (rule ccontr)
        assume ne: "h' \<noteq> h"
        then show False
          using s False no unfolding cancel_swarm_def Let_def full_def [symmetric] why_def [symmetric]
          by (auto split: if_splits option.splits sum.splits prod.splits)
      qed
      then show ?thesis using s steps_ok_refl [OF inv] by simp
    next
      case True
      then obtain r h1 events where c: "get_status h i base = Some r" "\<not> terminal (sw_state r)"
        "commit_cancel io t r why expected full h = Inr (h1, events)" "h' \<noteq> h" by blast
      note r = get_status_find [OF inv c(1)]
      have one: "steps_ok io h h1" by (rule commit_cancel_steps [OF inv _ c(2,3)]) (use r in simp)
      obtain h2 err where pub: "publish_hub io t events h1 = (h2, err)" by fastforce
      have two: "steps_ok io h h2" using steps_ok_trans [OF one publish_steps [OF steps_ok_ok [OF one] pub]] .
      obtain h3 released where rel: "release_swarm t i h2 = (h3, released)" by fastforce
      have three: "steps_ok io h h3" using steps_ok_trans [OF two release_steps [OF steps_ok_ok [OF two] rel]] .
      have "h' = h2 \<or> h' = h3"
        using s c no unfolding cancel_swarm_def Let_def full_def [symmetric] why_def [symmetric]
        by (auto simp: pub rel finish_def split: if_splits option.splits)
      then show ?thesis using s two three by auto
    qed
  qed
qed

section \<open>All operations\<close>

text \<open>
  The coordinator's operations, the handling of one row by a reconciliation that read it earlier, and what
  others do to the shared stores.
\<close>

datatype hub_op =
    Hub_Dispatch "nat \<Rightarrow> tx_io" pyval "pyval list" string string string
  | Hub_Step tx_io string string string payload "int option" string "string option"
  | Hub_Cancel tx_io string string "int option" string "string option"
  | Hub_Reconcile "nat \<Rightarrow> tx_io"
  | Hub_Reconcile_Row tx_io "(string \<times> string list) list" swarm_row
  | Hub_Board board_op
  | Hub_Leases scope_op
  | Hub_Events store_op
  | Hub_Record "string \<times> string \<times> seconds" "string \<times> string \<times> seconds" seconds receipt

definition on_board :: "hub_io \<Rightarrow> board_op \<Rightarrow> hub \<Rightarrow> hub" where
  "on_board io oper h =
     (case hb_board h of
        None \<Rightarrow> h
      | Some rows \<Rightarrow>
          (let st = board_exec (hi_board io) \<lparr>bb_rows = rows, bb_events = Some (hb_events h)\<rparr> oper in
           h\<lparr>hb_board := Some (bb_rows st), hb_events := (case bb_events st of None \<Rightarrow> hb_events h | Some es \<Rightarrow> es)\<rparr>))"

definition on_events :: "hub_io \<Rightarrow> store_op \<Rightarrow> hub \<Rightarrow> hub" where
  "on_events io oper h =
     (let b = hi_board io in
      h\<lparr>hb_events := store_exec (\<lambda>p. bi_text b (PDict p)) (bi_load b) (bi_str b) (bi_text b) (hb_events h) oper\<rparr>)"

definition on_receipts ::
  "hub_io \<Rightarrow> string \<times> string \<times> seconds \<Rightarrow> string \<times> string \<times> seconds \<Rightarrow> seconds \<Rightarrow> receipt \<Rightarrow> hub \<Rightarrow> hub" where
  "on_receipts io ids ids' now r h =
     (case hb_verification h of
        None \<Rightarrow> h
      | Some vs \<Rightarrow>
          (case record_in_transaction (hi_board io) (hi_matches io) ids ids' now r vs (hb_events h) of
             Inl _ \<Rightarrow> h
           | Inr (vs', es, _) \<Rightarrow> h\<lparr>hb_verification := Some vs', hb_events := es\<rparr>))"

fun hub_exec :: "hub_io \<Rightarrow> hub \<Rightarrow> hub_op \<Rightarrow> hub" where
  "hub_exec io h (Hub_Dispatch t goal targets command author base) = fst (dispatch io t goal targets command author base h)"
| "hub_exec io h (Hub_Step t i role action pay expected key base) = fst (step_swarm io t i role action pay expected key base h)"
| "hub_exec io h (Hub_Cancel t i reason expected key base) = fst (cancel_swarm io t i reason expected key base h)"
| "hub_exec io h (Hub_Reconcile t) = fst (reconcile_leases io t h)"
| "hub_exec io h (Hub_Reconcile_Row t roots r) = fst (reconcile_row io t roots r h)"
| "hub_exec io h (Hub_Board oper) = on_board io oper h"
| "hub_exec io h (Hub_Leases oper) = h\<lparr>hb_leases := map_option (\<lambda>db. scope_exec (hi_leases io) db oper) (hb_leases h)\<rparr>"
| "hub_exec io h (Hub_Events oper) = on_events io oper h"
| "hub_exec io h (Hub_Record ids ids' now r) = on_receipts io ids ids' now r h"

lemma on_board_steps:
  assumes inv: "hub_ok h"
  shows "steps_ok io h (on_board io oper h)"
proof (cases "hb_board h")
  case None
  then show ?thesis using steps_ok_refl [OF inv] by (simp add: on_board_def)
next
  case (Some rows)
  define st where "st = board_exec (hi_board io) \<lparr>bb_rows = rows, bb_events = Some (hb_events h)\<rparr> oper"
  have "board_inv st" unfolding st_def using board_machine.inv_exec [OF hub_board_inv [OF inv Some]] .
  then have "hub_ok (on_board io oper h)"
    using inv by (auto simp: on_board_def Some Let_def st_def [symmetric] hub_ok_def stores_ok_def board_inv_def split: option.splits)
  then show ?thesis by (rule steps_ok_same) (auto simp: on_board_def Some Let_def intro: receipts_kept_same)
qed

lemma on_events_steps:
  assumes inv: "hub_ok h"
  shows "steps_ok io h (on_events io oper h)"
proof -
  have "event_inv (es_db (hb_events h))" using inv by (simp add: hub_ok_def stores_ok_def)
  then have "event_inv (es_db (hb_events (on_events io oper h)))" by (simp add: on_events_def Let_def event_machine.inv_exec)
  then have "hub_ok (on_events io oper h)" using inv by (simp add: hub_ok_def stores_ok_def on_events_def Let_def)
  then show ?thesis by (rule steps_ok_same) (auto simp: on_events_def Let_def intro: receipts_kept_same)
qed

lemma on_receipts_steps:
  assumes inv: "hub_ok h"
  shows "steps_ok io h (on_receipts io ids ids' now r h)"
proof (cases "\<exists>vs x. hb_verification h = Some vs \<and> record_in_transaction (hi_board io) (hi_matches io) ids ids' now r vs (hb_events h) = Inr x")
  case False
  then have "on_receipts io ids ids' now r h = h" by (auto simp: on_receipts_def split: option.split sum.split)
  then show ?thesis using steps_ok_refl [OF inv] by simp
next
  case True
  then obtain vs vs' es ev where r: "hb_verification h = Some vs"
    "record_in_transaction (hi_board io) (hi_matches io) ids ids' now r vs (hb_events h) = Inr (vs', es, ev)" by auto
  have "event_inv (es_db (hb_events h))" "distinct (map rr_id (vs_rows vs))" using inv r(1) by (simp_all add: hub_ok_def stores_ok_def)
  note R = record_ok [OF this r(2)]
  have h': "on_receipts io ids ids' now r h = h\<lparr>hb_verification := Some vs', hb_events := es\<rparr>" using r by (simp add: on_receipts_def)
  show ?thesis
  proof (rule steps_ok_same)
    show "hub_ok (on_receipts io ids ids' now r h)" using inv R by (simp add: h' hub_ok_def stores_ok_def)
    show "receipts_kept h (on_receipts io ids ids' now r h)" using R r(1) by (simp add: h' receipts_kept_def)
  qed (simp add: h')
qed

lemma hub_exec_steps: "hub_ok h \<Longrightarrow> steps_ok io h (hub_exec io h oper)"
  by (cases oper) (simp_all add: dispatch_steps step_swarm_steps cancel_swarm_steps reconcile_leases_steps reconcile_row_steps
      on_board_steps on_events_steps on_receipts_steps leases_steps)

definition swarm_version :: "string \<Rightarrow> hub \<Rightarrow> int" where
  "swarm_version i h = (case find_swarm h i of None \<Rightarrow> 0 | Some r \<Rightarrow> sw_version r)"

lemma lived_version: "lived l \<Longrightarrow> 1 \<le> lf_version l"
  using steps_version by (fastforce simp: lived_def dispatched_def)

lemma row_moves_version: "row_moves r r' \<Longrightarrow> sw_version r \<le> sw_version r'"
  using steps_version [of "life_of r" "life_of r'"] by (simp add: row_moves_def life_of_def)

lemma moves_version:
  assumes "hub_moves h h'"
  shows "swarm_version i h \<le> swarm_version i h'"
proof (cases "find_swarm h i")
  case None
  then show ?thesis
    using assms lived_version unfolding hub_moves_def
    by (cases "find_swarm h' i") (auto simp: swarm_version_def life_of_def dest!: spec [of _ i] lived_version)
next
  case (Some r)
  then obtain r' where "find_swarm h' i = Some r'" "row_moves r r'" using hub_moves_find [OF assms] by blast
  then show ?thesis using Some row_moves_version by (simp add: swarm_version_def)
qed

interpretation hub_machine: counter_machine "hub_exec io" "hub_good io" swarm_version for io
proof unfold_locales
  fix h oper i assume good: "hub_good io h"
  then have ok: "steps_ok io h (hub_exec io h oper)" by (intro hub_exec_steps) (simp add: hub_good_def)
  then show "hub_good io (hub_exec io h oper)" by (rule steps_good [OF good])
  show "swarm_version i h \<le> swarm_version i (hub_exec io h oper)" using ok by (intro moves_version) (simp add: steps_ok_def)
qed

lemma hub_run_moves: "hub_ok h \<Longrightarrow> hub_moves h (foldl (hub_exec io) h ops)"
proof (induction ops arbitrary: h)
  case Nil
  then show ?case by (simp add: hub_moves_same)
next
  case (Cons a ops)
  have "steps_ok io h (hub_exec io h a)" by (rule hub_exec_steps [OF Cons.prems])
  then show ?case using Cons.IH [of "hub_exec io h a"] hub_moves_trans by (auto simp: steps_ok_def)
qed

end
