(* ===== verification/Swarm_Properties.thy ===== *)
theory Swarm_Properties
  imports Swarm_Moves
begin

text \<open>
  What the coordinator of swarms guarantees, with an example of a swarm that runs through all roles and the
  places where a swarm can never be completed.
\<close>

section \<open>A step that is done\<close>







section \<open>Properties\<close>

lemma hub_good_start: "hb_swarms h = [] \<Longrightarrow> stores_ok h \<Longrightarrow> hub_good io h"
  by (simp add: hub_good_def hub_ok_def)

text \<open>
  C1. A swarm is completed only after the whole process: its history is the dispatch, a step of the Coder,
  a step of the Tester whose tests passed, and the approval of the Reviewer, and a receipt of the
  verification store says so for this swarm and names the event of the Tester's step.
\<close>

theorem completed_swarm_is_verified:
  assumes start: "hb_swarms h0 = []" "stores_ok h0" and run: "h = foldl (hub_exec io) h0 ops"
    and r: "find_swarm h i = Some r" "sw_state r = COMPLETED"
  shows "\<exists>d c t a vs x. sw_history r = [d, c, t, a] \<and> opened d \<and> coded c \<and> tested t \<and> approved a \<and>
    hb_verification h = Some vs \<and> x \<in> set (vs_rows vs) \<and> sw_receipt r = Some (rr_id x) \<and> rr_task x = i \<and> rr_passed x \<and>
    he_evidence t = Some (rr_evidence x)"
proof -
  have good: "hub_good io h" unfolding run by (rule hub_machine.inv_run [OF hub_good_start [OF start]])
  note rin = find_swarm_in [OF r(1)]
  have "lived (life_of r)" using good rin by (simp add: hub_good_def hub_ok_def)
  from lived_shape [OF this] obtain d c t a where hist: "sw_history r = [d, c, t, a]" "opened d" "coded c" "tested t" "approved a"
    by (auto simp: life_of_def r(2))
  have tester: "tester_evidence (sw_history r) = Some t"
    using hist by (simp add: tester_evidence_def tested_def approved_def names_evidence_def)
  have "backed io h r" using good rin by (simp add: hub_good_def)
  then show ?thesis using hist tester r(2) rin by (fastforce simp: backed_def)
qed

text \<open>
  C2. The table follows the lifecycle of the swarms, whatever the coordinator and the other users of the
  stores do: every swarm in it was dispatched and came to its state by moves of the lifecycle, later it
  has made only further such moves with the same contract, and a completed or failed swarm stays as it is.
\<close>

theorem swarms_follow_lifecycle:
  assumes start: "hb_swarms h0 = []" "stores_ok h0" and run: "h = foldl (hub_exec io) h0 ops" and r: "find_swarm h i = Some r"
    and later: "h' = foldl (hub_exec io) h ops'"
  shows "lived (life_of r) \<and>
    (\<exists>r'. find_swarm h' i = Some r' \<and> contract_of r' = contract_of r \<and> life_steps (life_of r) (life_of r') \<and>
       sw_version r \<le> sw_version r' \<and> (terminal (sw_state r) \<longrightarrow> life_of r' = life_of r))"
proof -
  have good: "hub_good io h" unfolding run by (rule hub_machine.inv_run [OF hub_good_start [OF start]])
  then have ok: "hub_ok h" by (simp add: hub_good_def)
  obtain r' where r': "find_swarm h' i = Some r'" "row_moves r r'"
    using hub_moves_find [OF hub_run_moves [OF ok] r] unfolding later by blast
  have "lived (life_of r)" using ok find_swarm_in [OF r] by (simp add: hub_ok_def)
  then show ?thesis using r' row_moves_version [OF r'(2)] moves_completed(1) [OF r'(2)] by (auto simp: row_moves_def)
qed

text \<open>
  C5. When the verification store has an artifact store no swarm is ever completed: the receipt that the
  approval makes has no owner, so it never has trusted evidence and the step fails.
\<close>

theorem artifacts_block_completion:
  assumes start: "hb_swarms h0 = []" "stores_ok h0" and artifacts: "hi_matches io \<noteq> None"
    and r: "find_swarm (foldl (hub_exec io) h0 ops) i = Some r"
  shows "sw_state r \<noteq> COMPLETED"
proof -
  have "hub_good io (foldl (hub_exec io) h0 ops)" by (rule hub_machine.inv_run [OF hub_good_start [OF start]])
  then have "backed io (foldl (hub_exec io) h0 ops) r" using find_swarm_in [OF r] by (simp add: hub_good_def)
  then show ?thesis using artifacts by (auto simp: backed_def)
qed



section \<open>Examples\<close>

definition demo_io :: "(receipt \<Rightarrow> bool) option \<Rightarrow> payload \<Rightarrow> hub_io" where
  "demo_io matches p = \<lparr>hi_board = reading p,
     hi_step_digest = (\<lambda>d. case dict_get d ''role'' of PStr s \<Rightarrow> s | _ \<Rightarrow> []), hi_digest = (\<lambda>_. ''digest''), hi_matches = matches,
     hi_leases = demo_lease_env\<rparr>"

definition demo_tx :: "seconds \<Rightarrow> tx_io" where
  "demo_tx n = \<lparr>ti_locked = False, ti_now = n, ti_ids = (\<lambda>_. (''1'', ''2'', n)), ti_fresh = (\<lambda>_ _. (''3'', ''4'', n)), ti_uid = ''u'', ti_leases = True\<rparr>"

definition demo_hub :: "board_row list \<Rightarrow> hub" where
  "demo_hub rows = \<lparr>hb_swarms = [], hb_events = board_events0, hb_board = Some rows,
     hb_verification = Some \<lparr>vs_rows = [], vs_tasks = None\<rparr>, hb_leases = Some empty_scope_db\<rparr>"

definition demo_dispatch :: "string \<Rightarrow> hub_op" where
  "demo_dispatch goal = Hub_Dispatch (\<lambda>_. demo_tx 1) (PStr goal) [PStr ''src''] ''pytest'' ''a'' ''/r''"

definition demo_step :: "seconds \<Rightarrow> string \<Rightarrow> string \<Rightarrow> payload \<Rightarrow> hub_op" where
  "demo_step n role action pay = Hub_Step (demo_tx n) ''swarm_u'' role action pay None [] None"

definition demo_ops :: "string \<Rightarrow> hub_op list" where
  "demo_ops goal = [demo_dispatch goal, demo_step 2 ''Coder'' ''submit_patch'' [],
     demo_step 3 ''Tester'' ''report_test_results'' [(''passed'', PBool True)], demo_step 4 ''Reviewer'' ''approve'' []]"

definition state_of :: "string \<Rightarrow> hub \<Rightarrow> swarm_state option" where
  "state_of i h = map_option sw_state (find_swarm h i)"

lemma state_of_found: "state_of i h = Some s \<Longrightarrow> \<exists>r. find_swarm h i = Some r \<and> sw_state r = s"
  by (auto simp: state_of_def)

lemma demo_hub_ok: "hb_swarms (demo_hub []) = []" "stores_ok (demo_hub [])"
  by (simp_all add: demo_hub_def stores_ok_def board_events0_def)

lemma demo_completed: "state_of ''swarm_u'' (foldl (hub_exec (demo_io None [])) (demo_hub []) (demo_ops ''fix'')) = Some COMPLETED"
  by code_simp

text \<open>
  A goal with a space at its end is accepted by the dispatch, but a receipt for it is not: its criterion is
  no canonical string, so the approval fails however often it is sent.
\<close>

lemma trailing_space_blocks_approval:
  "state_of ''swarm_u'' (foldl (hub_exec (demo_io None [])) (demo_hub []) (demo_ops ''fix '')) = Some REVIEWING"
  by code_simp

text \<open>
  Anybody may write to the board of a swarm.  When its section \<open>code\<close> exists before the Coder's step, which
  expects that it does not, the step is refused, and with it the rest of the process.
\<close>

definition foreign_section :: board_row where
  "foreign_section = \<lparr>bo_board = ''swarm:swarm_u'', bo_section = ''code'', bo_content = ''{}'', bo_author = ''x'', bo_clock = [(''x'', 1)],
     bo_time = Fin 1, bo_version = 1\<rparr>"

lemma foreign_section_blocks_step:
  "case snd (step_swarm (demo_io None []) (demo_tx 2) ''swarm_u'' ''Coder'' ''submit_patch'' [] None [] None
       (hub_exec (demo_io None []) (demo_hub [foreign_section]) (demo_dispatch ''fix''))) of
     Inr (St_Board_Refused (Bb_Conflict a e) CODING v) \<Rightarrow> a = 1 \<and> e = 0 \<and> v = 2 | _ \<Rightarrow> False"
  by code_simp

section \<open>Witnesses\<close>

theorem completed_swarm_is_verified_witness:
  "\<exists>r. find_swarm (foldl (hub_exec (demo_io None [])) (demo_hub []) (demo_ops ''fix'')) ''swarm_u'' = Some r \<and>
     length (sw_history r) = 4 \<and> sw_receipt r \<noteq> None"
proof -
  obtain r where r: "find_swarm (foldl (hub_exec (demo_io None [])) (demo_hub []) (demo_ops ''fix'')) ''swarm_u'' = Some r"
    "sw_state r = COMPLETED" using state_of_found [OF demo_completed] by blast
  show ?thesis using completed_swarm_is_verified [OF demo_hub_ok refl r] r(1) by auto
qed

lemma demo_coding: "state_of ''swarm_u'' (foldl (hub_exec (demo_io None [])) (demo_hub []) [demo_dispatch ''fix'']) = Some CODING"
  by code_simp

theorem swarms_follow_lifecycle_witness:
  "\<exists>r r'. find_swarm (foldl (hub_exec (demo_io None [])) (demo_hub []) [demo_dispatch ''fix'']) ''swarm_u'' = Some r \<and>
     find_swarm (foldl (hub_exec (demo_io None [])) (foldl (hub_exec (demo_io None [])) (demo_hub []) [demo_dispatch ''fix''])
       [demo_step 2 ''Coder'' ''submit_patch'' []]) ''swarm_u'' = Some r' \<and> contract_of r' = contract_of r"
proof -
  obtain r where r: "find_swarm (foldl (hub_exec (demo_io None [])) (demo_hub []) [demo_dispatch ''fix'']) ''swarm_u'' = Some r"
    using state_of_found [OF demo_coding] by blast
  show ?thesis using swarms_follow_lifecycle [OF demo_hub_ok refl r refl, of "[demo_step 2 ''Coder'' ''submit_patch'' []]"] r by blast
qed

lemma demo_blocked: "state_of ''swarm_u'' (foldl (hub_exec (demo_io (Some (\<lambda>_. True)) [])) (demo_hub []) (demo_ops ''fix'')) = Some REVIEWING"
  by code_simp

theorem artifacts_block_completion_witness:
  "\<exists>r. find_swarm (foldl (hub_exec (demo_io (Some (\<lambda>_. True)) [])) (demo_hub []) (demo_ops ''fix'')) ''swarm_u'' = Some r \<and>
     sw_state r \<noteq> COMPLETED"
proof -
  obtain r where r: "find_swarm (foldl (hub_exec (demo_io (Some (\<lambda>_. True)) [])) (demo_hub []) (demo_ops ''fix'')) ''swarm_u'' = Some r"
    using state_of_found [OF demo_blocked] by blast
  have "hi_matches (demo_io (Some (\<lambda>_. True)) []) \<noteq> None" by (simp add: demo_io_def)
  then show ?thesis using artifacts_block_completion [OF demo_hub_ok _ r] r by blast
qed








end
