(* ===== verification/Priority_Gate.thy ===== *)
theory Priority_Gate
  imports Hub_Prelude
begin

text \<open>
  The gate in front of a CPU model (\<open>CooperativePriorityGate\<close> of \<open>priority_gate.py\<close>): one slot, foreground
  callers before background callers.  Each block under the condition variable is one function on the
  gate; \<open>gate_step\<close> interleaves them over any number of threads, with what the condition variable does:
  waiting gives up the lock, \<open>notify_all\<close> marks every waiting thread, and a wait may also return on its
  own after the time it was given.
\<close>

section \<open>The gate\<close>

record prio_gate =
  pg_foreground :: int
  pg_active :: bool
  pg_waiters :: int

datatype gate_refusal = Bad_Foreground | Bad_Priority | Bad_Timeout

text \<open>An \<open>int\<close> that is not a \<open>bool\<close>.\<close>

definition plain_int :: "'e \<Rightarrow> pyval \<Rightarrow> 'e + int" where
  "plain_int e v = (case v of PInt i \<Rightarrow> Inr i | _ \<Rightarrow> Inl e)"

definition new_prio_gate :: "pyval \<Rightarrow> gate_refusal + prio_gate" where
  "new_prio_gate foreground_priority =
     bindr (plain_int Bad_Foreground foreground_priority) (\<lambda>p.
     Inr \<lparr>pg_foreground = p, pg_active = False, pg_waiters = 0\<rparr>)"

text \<open>\<open>float(timeout)\<close> fails on an integer too large for a float.\<close>

definition gate_timeout :: "pyval \<Rightarrow> gate_refusal + real" where
  "gate_timeout timeout =
     bindr (case timeout of
         PInt i \<Rightarrow> if 2 ^ 1024 - 2 ^ 970 \<le> \<bar>i\<bar> then Inl Bad_Timeout else Inr (of_int i)
       | PFloat (Fin r) \<Rightarrow> Inr r
       | _ \<Rightarrow> Inl Bad_Timeout) (\<lambda>s.
     bindr (require (0 \<le> s) Bad_Timeout) (\<lambda>_. Inr s))"

definition gate_shut :: "prio_gate \<Rightarrow> bool \<Rightarrow> bool" where
  "gate_shut g foreground \<longleftrightarrow> pg_active g \<or> (\<not> foreground \<and> 0 < pg_waiters g)"

definition stop_waiting :: "bool \<Rightarrow> prio_gate \<Rightarrow> prio_gate" where
  "stop_waiting foreground g = (if foreground then g\<lparr>pg_waiters := max 0 (pg_waiters g - 1)\<rparr> else g)"

text \<open>One turn of the loop of \<open>slot\<close>: the caller gets in, times out, or waits for so many seconds.\<close>

datatype slot_turn = Gets_In | Times_Out | Waits real

definition slot_look :: "bool \<Rightarrow> real \<Rightarrow> real \<Rightarrow> prio_gate \<Rightarrow> prio_gate \<times> slot_turn" where
  "slot_look foreground deadline now g =
     (if gate_shut g foreground then
        let remaining = max 0 (deadline - now) in
        if remaining \<le> 0 then (stop_waiting foreground g, Times_Out) else (g, Waits (min remaining 30))
      else (stop_waiting foreground (g\<lparr>pg_active := True\<rparr>), Gets_In))"

text \<open>Entering \<open>slot\<close>: its checks, its deadline, and the first turn of the loop.\<close>

definition slot_request :: "prio_gate \<Rightarrow> pyval \<Rightarrow> pyval \<Rightarrow> real \<Rightarrow> gate_refusal + bool \<times> real" where
  "slot_request g priority timeout now =
     bindr (plain_int Bad_Priority priority) (\<lambda>p.
     bindr (gate_timeout timeout) (\<lambda>s.
     Inr (pg_foreground g \<le> p, now + s)))"

definition start_waiting :: "bool \<Rightarrow> prio_gate \<Rightarrow> prio_gate" where
  "start_waiting foreground g = (if foreground then g\<lparr>pg_waiters := pg_waiters g + 1\<rparr> else g)"

definition slot_begin :: "bool \<Rightarrow> real \<Rightarrow> real \<Rightarrow> prio_gate \<Rightarrow> prio_gate \<times> slot_turn" where
  "slot_begin foreground deadline now g = slot_look foreground deadline now (start_waiting foreground g)"

text \<open>The end of \<open>slot\<close>, and \<open>release\<close>; both then notify every waiting thread.\<close>

definition slot_end :: "prio_gate \<Rightarrow> prio_gate" where
  "slot_end g = g\<lparr>pg_active := False\<rparr>"

definition gate_try :: "prio_gate \<Rightarrow> pyval \<Rightarrow> gate_refusal + prio_gate \<times> bool" where
  "gate_try g priority =
     bindr (plain_int Bad_Priority priority) (\<lambda>p.
     Inr (if gate_shut g (pg_foreground g \<le> p) then (g, False) else (g\<lparr>pg_active := True\<rparr>, True)))"

definition gate_release :: "prio_gate \<Rightarrow> prio_gate" where
  "gate_release g = g\<lparr>pg_active := False\<rparr>"

definition gate_reset :: "prio_gate \<Rightarrow> prio_gate" where
  "gate_reset g = g\<lparr>pg_active := False, pg_waiters := 0\<rparr>"

definition foreground_waiters_count :: "prio_gate \<Rightarrow> int" where
  "foreground_waiters_count g = pg_waiters g"

definition gate_is_active :: "prio_gate \<Rightarrow> bool" where
  "gate_is_active g = pg_active g"

definition gate_status :: "prio_gate \<Rightarrow> (string \<times> pyval) list" where
  "gate_status g =
     [(''active'', PBool (pg_active g)), (''foreground_waiters'', PInt (pg_waiters g)),
      (''foreground_priority'', PInt (pg_foreground g))]"

section \<open>Threads\<close>

text \<open>
  A thread waits in \<open>slot\<close>, is inside it, or holds the gate after \<open>try_acquire\<close>; \<open>Queued\<close> carries whether it is in the
  foreground, its deadline and whether it was notified.
\<close>

datatype gate_phase = Queued bool real bool | Inside | Claimed

record gate_world =
  gw_gate :: prio_gate
  gw_threads :: "(nat \<times> gate_phase) list"

definition told :: "gate_phase \<Rightarrow> gate_phase" where
  "told p = (case p of Queued fg d _ \<Rightarrow> Queued fg d True | _ \<Rightarrow> p)"

definition tell_all :: "(nat \<times> gate_phase) list \<Rightarrow> (nat \<times> gate_phase) list" where
  "tell_all ts = map (\<lambda>(t, p). (t, told p)) ts"

definition without :: "nat \<Rightarrow> (nat \<times> gate_phase) list \<Rightarrow> (nat \<times> gate_phase) list" where
  "without t ts = filter (\<lambda>(u, _). u \<noteq> t) ts"

text \<open>Where a turn of the loop leaves its thread.\<close>

definition after_turn :: "nat \<Rightarrow> bool \<Rightarrow> real \<Rightarrow> slot_turn \<Rightarrow> (nat \<times> gate_phase) list \<Rightarrow> (nat \<times> gate_phase) list" where
  "after_turn t fg d turn ts =
     (case turn of
        Gets_In \<Rightarrow> (t, Inside) # without t ts
      | Times_Out \<Rightarrow> without t ts
      | Waits _ \<Rightarrow> (t, Queued fg d False) # without t ts)"

inductive gate_step :: "gate_world \<Rightarrow> gate_world \<Rightarrow> bool" where
  Begin: "t \<notin> fst ` set (gw_threads w) \<Longrightarrow> slot_request (gw_gate w) priority timeout start = Inr (fg, d) \<Longrightarrow>
    slot_begin fg d now (gw_gate w) = (g, turn) \<Longrightarrow>
    gate_step w \<lparr>gw_gate = g, gw_threads = after_turn t fg d turn (gw_threads w)\<rparr>"
| Look: "(t, Queued fg d n) \<in> set (gw_threads w) \<Longrightarrow> slot_look fg d now (gw_gate w) = (g, turn) \<Longrightarrow>
    gate_step w \<lparr>gw_gate = g, gw_threads = after_turn t fg d turn (gw_threads w)\<rparr>"
| Finish: "(t, Inside) \<in> set (gw_threads w) \<Longrightarrow>
    gate_step w \<lparr>gw_gate = slot_end (gw_gate w), gw_threads = tell_all (without t (gw_threads w))\<rparr>"
| Claim: "t \<notin> fst ` set (gw_threads w) \<Longrightarrow> gate_try (gw_gate w) priority = Inr (g, True) \<Longrightarrow>
    gate_step w \<lparr>gw_gate = g, gw_threads = (t, Claimed) # gw_threads w\<rparr>"
| Give_Back: "(t, Claimed) \<in> set (gw_threads w) \<Longrightarrow>
    gate_step w \<lparr>gw_gate = gate_release (gw_gate w), gw_threads = tell_all (without t (gw_threads w))\<rparr>"

inductive_cases gate_stepE: "gate_step w w'"

definition gate_start :: "gate_world \<Rightarrow> bool" where
  "gate_start w \<longleftrightarrow> (\<exists>v. new_prio_gate v = Inr (gw_gate w)) \<and> gw_threads w = []"

section \<open>Invariant\<close>

fun inside :: "gate_phase \<Rightarrow> bool" where
  "inside (Queued _ _ _) = False"
| "inside _ = True"

fun front :: "gate_phase \<Rightarrow> bool" where
  "front (Queued fg _ _) = fg"
| "front _ = False"

fun untold :: "gate_phase \<Rightarrow> bool" where
  "untold (Queued _ _ n) = (\<not> n)"
| "untold _ = False"

definition how_many :: "(gate_phase \<Rightarrow> bool) \<Rightarrow> (nat \<times> gate_phase) list \<Rightarrow> int" where
  "how_many P ts = int (length (filter (\<lambda>(_, p). P p) ts))"

definition gate_ok :: "gate_world \<Rightarrow> bool" where
  "gate_ok w \<longleftrightarrow> distinct (map fst (gw_threads w)) \<and>
     how_many inside (gw_threads w) = (if pg_active (gw_gate w) then 1 else 0) \<and>
     how_many front (gw_threads w) = pg_waiters (gw_gate w) \<and>
     ((\<exists>(_, p) \<in> set (gw_threads w). untold p) \<longrightarrow> pg_active (gw_gate w) \<or>
        (\<exists>(_, p) \<in> set (gw_threads w). front p \<and> \<not> untold p))"

lemma how_many_simps [simp]:
  "how_many P [] = 0" "how_many P ((t, p) # ts) = (if P p then 1 else 0) + how_many P ts"
  by (simp_all add: how_many_def)

lemma how_many_nonneg [simp]: "0 \<le> how_many P ts"
  by (simp add: how_many_def)

lemma how_many_pos: "0 < how_many P ts \<longleftrightarrow> (\<exists>(_, p) \<in> set ts. P p)"
  by (auto simp: how_many_def filter_empty_conv)

lemma how_many_without:
  "distinct (map fst ts) \<Longrightarrow> (t, p) \<in> set ts \<Longrightarrow> how_many P (without t ts) = how_many P ts - (if P p then 1 else 0)"
proof (induction ts)
  case (Cons x xs)
  have "without t xs = xs" if "t \<notin> fst ` set xs" using that by (force simp: without_def filter_id_conv)
  with Cons show ?case by (cases x) (auto simp: without_def rev_image_eqI)
qed simp

lemma without_absent [simp]: "t \<notin> fst ` set ts \<Longrightarrow> without t ts = ts"
  by (force simp: without_def filter_id_conv)

lemma set_without: "set (without t ts) = {x \<in> set ts. fst x \<noteq> t}"
  by (auto simp: without_def)

lemma fst_without [simp]: "t \<notin> fst ` set (without t ts)"
  by (auto simp: set_without)

lemma distinct_without [simp]: "distinct (map fst ts) \<Longrightarrow> distinct (map fst (without t ts))"
  by (simp add: without_def distinct_map_filter)

lemma told_facts [simp]: "inside (told p) = inside p" "front (told p) = front p" "\<not> untold (told p)"
  by (cases p; simp add: told_def)+

lemma how_many_told: "(\<And>p. P (told p) = P p) \<Longrightarrow> how_many P (tell_all ts) = how_many P ts"
  by (induction ts) (auto simp: tell_all_def)

lemma tell_all_fst [simp]: "map fst (tell_all ts) = map fst ts"
  by (simp add: tell_all_def case_prod_unfold)

lemma tell_all_told: "(t, p) \<in> set (tell_all ts) \<Longrightarrow> \<not> untold p"
  by (auto simp: tell_all_def)

text \<open>A turn of the loop, for a thread that is counted as waiting.\<close>

lemma turn_ok:
  assumes d: "distinct (map fst ts)" "t \<notin> fst ` set ts"
    and n: "how_many inside ts = (if pg_active g then 1 else 0)" "how_many front ts + (if fg then 1 else 0) = pg_waiters g"
    and u: "(\<exists>(_, p) \<in> set ts. untold p) \<Longrightarrow> pg_active g \<or> fg \<or> (\<exists>(_, p) \<in> set ts. front p \<and> \<not> untold p)"
    and look: "slot_look fg dl now g = (g', turn)"
  shows "gate_ok \<lparr>gw_gate = g', gw_threads = after_turn t fg dl turn ts\<rparr>"
proof -
  have wait: "0 \<le> pg_waiters g - (if fg then 1 else 0)" using n(2) how_many_nonneg [of front ts] by linarith
  show ?thesis
  proof (cases "gate_shut g fg")
    case False
    then have "g' = stop_waiting fg (g\<lparr>pg_active := True\<rparr>)" "turn = Gets_In" "\<not> pg_active g"
      using look by (auto simp: slot_look_def gate_shut_def)
    then show ?thesis using d n wait by (auto simp: gate_ok_def after_turn_def stop_waiting_def)
  next
    case True
    note shut = this
    show ?thesis
    proof (cases "dl - now \<le> 0")
      case True
      then have r: "g' = stop_waiting fg g" "turn = Times_Out" using look shut by (auto simp: slot_look_def)
      have "pg_active g" if fg using shut that by (simp add: gate_shut_def)
      then show ?thesis using r d n wait u by (auto simp: gate_ok_def after_turn_def stop_waiting_def)
    next
      case False
      then have r: "g' = g" "turn = Waits (min (max 0 (dl - now)) 30)" using look shut by (auto simp: slot_look_def Let_def)
      have "pg_active g \<or> (\<exists>(_, p) \<in> set ts. front p \<and> \<not> untold p)"
      proof (cases "pg_active g")
        case False
        then have "\<not> fg" "0 < pg_waiters g" using shut by (auto simp: gate_shut_def)
        then have "\<exists>(_, p) \<in> set ts. front p" using n(2) how_many_pos [of front ts] by simp
        then show ?thesis using u \<open>\<not> fg\<close> False by fastforce
      qed simp
      then show ?thesis using r d n by (auto simp: gate_ok_def after_turn_def)
    qed
  qed
qed

text \<open>Leaving the gate, which notifies every waiting thread.\<close>

lemma end_ok:
  assumes ok: "gate_ok w" and t: "(t, p) \<in> set (gw_threads w)" "inside p" "\<not> front p"
  shows "gate_ok \<lparr>gw_gate = (gw_gate w)\<lparr>pg_active := False\<rparr>, gw_threads = tell_all (without t (gw_threads w))\<rparr>"
proof -
  have d: "distinct (map fst (gw_threads w))" using ok by (simp add: gate_ok_def)
  have "how_many inside (without t (gw_threads w)) = 0"
    using ok t how_many_without [OF d t(1), of inside] how_many_nonneg [of inside "without t (gw_threads w)"]
    by (auto simp: gate_ok_def split: if_splits)
  then show ?thesis
    using ok t(3) d how_many_without [OF d t(1), of front] by (auto simp: gate_ok_def how_many_told dest: tell_all_told)
qed

lemma gate_step_ok [hub_inv]:
  assumes "gate_step w w'" "gate_ok w"
  shows "gate_ok w'"
proof (cases rule: gate_stepE [OF assms(1)])
  case (1 t priority timeout start fg d now g turn)
  show ?thesis unfolding 1(1)
    by (rule turn_ok [OF _ 1(2)]) (use assms(2) 1 in \<open>auto simp: gate_ok_def slot_begin_def start_waiting_def\<close>)
next
  case (2 t fg d n now g turn)
  have eq: "after_turn t fg d turn (gw_threads w) = after_turn t fg d turn (without t (gw_threads w))"
    by (simp add: after_turn_def split: slot_turn.split)
  have dist: "distinct (map fst (gw_threads w))" using assms(2) by (simp add: gate_ok_def)
  note count = how_many_without [OF dist 2(2)]
  have other: "fg \<or> (\<exists>(_, p) \<in> set (without t (gw_threads w)). front p \<and> \<not> untold p)"
    if "\<exists>(_, p) \<in> set (gw_threads w). front p \<and> \<not> untold p"
  proof (cases fg)
    case False
    from that obtain u p where u: "(u, p) \<in> set (gw_threads w)" "front p" "\<not> untold p" by auto
    then have "u \<noteq> t" using False eq_key_imp_eq_value [OF dist _ 2(2), of p] by auto
    then show ?thesis using u by (auto simp: set_without)
  qed simp
  show ?thesis unfolding 2(1) eq
    by (rule turn_ok [OF _ _ _ _ _ 2(3)]) (use assms(2) count other in \<open>auto simp: gate_ok_def set_without\<close>)
next
  case (3 t)
  show ?thesis unfolding 3(1) slot_end_def by (rule end_ok [OF assms(2) 3(2)]) simp_all
next
  case (4 t priority g)
  then have "g = (gw_gate w)\<lparr>pg_active := True\<rparr>" "\<not> pg_active (gw_gate w)"
    by (auto simp: gate_try_def gate_shut_def split: if_splits)
  then show ?thesis using assms(2) 4(2) by (auto simp: 4(1) gate_ok_def)
next
  case (5 t)
  show ?thesis unfolding 5(1) gate_release_def by (rule end_ok [OF assms(2) 5(2)]) simp_all
qed

lemma gate_run_ok: "gate_step\<^sup>*\<^sup>* w w' \<Longrightarrow> gate_start w \<Longrightarrow> gate_ok w'"
proof (induction rule: rtranclp_induct)
  case base
  then show ?case by (cases w, cases "gw_gate w") (auto simp: gate_start_def gate_ok_def new_prio_gate_def)
qed (auto intro: gate_step_ok)

section \<open>Properties\<close>

text \<open>
  C26. The gate keeps its promise whatever threads do with it: it is shut exactly while one thread is inside
  or has claimed it, never two, its count of foreground waiters is exact, and it lets a background
  thread in only when nobody is inside and no foreground thread waits.
\<close>

theorem gate_excludes:
  assumes "gate_step\<^sup>*\<^sup>* w w'" "gate_start w"
  shows "length (filter (\<lambda>(_, p). inside p) (gw_threads w')) = (if pg_active (gw_gate w') then 1 else 0) \<and>
    pg_waiters (gw_gate w') = int (length (filter (\<lambda>(_, p). front p) (gw_threads w'))) \<and>
    (gate_shut (gw_gate w') False \<longleftrightarrow> (\<exists>(_, p) \<in> set (gw_threads w'). inside p \<or> front p))"
proof -
  note ok = gate_run_ok [OF assms]
  then have n: "how_many inside (gw_threads w') = (if pg_active (gw_gate w') then 1 else 0)"
    and f: "how_many front (gw_threads w') = pg_waiters (gw_gate w')" by (simp_all add: gate_ok_def)
  have "pg_active (gw_gate w') \<longleftrightarrow> (\<exists>(_, p) \<in> set (gw_threads w'). inside p)" using n how_many_pos [of inside "gw_threads w'"] by (simp split: if_splits)
  moreover have "0 < pg_waiters (gw_gate w') \<longleftrightarrow> (\<exists>(_, p) \<in> set (gw_threads w'). front p)"
    using f how_many_pos [of front "gw_threads w'"] by simp
  ultimately show ?thesis using n f by (auto simp: gate_shut_def how_many_def split: if_splits)
qed

text \<open>
  C27. No wake-up is lost: while the gate is free and somebody waits for it, one of the waiting threads has been
  notified and gets in when it looks again, even at its deadline.
\<close>

theorem gate_never_strands:
  assumes "gate_step\<^sup>*\<^sup>* w w'" "gate_start w" and free: "\<not> pg_active (gw_gate w')" and queued: "(t, Queued fg d n) \<in> set (gw_threads w')"
  shows "\<exists>t fg d. (t, Queued fg d True) \<in> set (gw_threads w') \<and> (\<forall>now. snd (slot_look fg d now (gw_gate w')) = Gets_In)"
proof -
  note ok = gate_run_ok [OF assms(1,2)]
  have gets: "snd (slot_look f x now (gw_gate w')) = Gets_In" if "f \<or> pg_waiters (gw_gate w') \<le> 0" for f x now
    using that free by (auto simp: slot_look_def gate_shut_def)
  show ?thesis
  proof (cases "\<exists>(_, p) \<in> set (gw_threads w'). front p \<and> \<not> untold p")
    case True
    then obtain u p where "(u, p) \<in> set (gw_threads w')" "front p" "\<not> untold p" by auto
    then obtain x where "(u, Queued True x True) \<in> set (gw_threads w')" by (cases p) auto
    then show ?thesis using gets [of True x] by blast
  next
    case False
    with ok free have told: "\<forall>(_, p) \<in> set (gw_threads w'). \<not> untold p" by (fastforce simp: gate_ok_def)
    then have "\<forall>(_, p) \<in> set (gw_threads w'). \<not> front p" using False by fastforce
    then have "pg_waiters (gw_gate w') \<le> 0"
      using ok how_many_pos [of front "gw_threads w'"] by (fastforce simp: gate_ok_def)
    then have "snd (slot_look fg d now (gw_gate w')) = Gets_In" for now using gets by blast
    moreover have "(t, Queued fg d True) \<in> set (gw_threads w')" using told queued by (cases n) auto
    ultimately show ?thesis by blast
  qed
qed

section \<open>Witnesses\<close>

text \<open>Thread 1 is inside, a background thread and then a foreground thread queue, and thread 1 leaves.\<close>

definition free_gate :: prio_gate where
  "free_gate = \<lparr>pg_foreground = 3, pg_active = False, pg_waiters = 0\<rparr>"

definition demo_crowd :: gate_world where
  "demo_crowd = \<lparr>gw_gate = free_gate\<lparr>pg_waiters := 1\<rparr>, gw_threads = [(3, Queued True 9 True), (2, Queued False 9 True)]\<rparr>"

lemma demo_crowd_run:
  "gate_start \<lparr>gw_gate = free_gate, gw_threads = []\<rparr>" "gate_step\<^sup>*\<^sup>* \<lparr>gw_gate = free_gate, gw_threads = []\<rparr> demo_crowd"
proof -
  show "gate_start \<lparr>gw_gate = free_gate, gw_threads = []\<rparr>"
    by (auto simp: gate_start_def new_prio_gate_def plain_int_def free_gate_def intro!: exI [of _ "PInt 3"])
  let ?g = "free_gate\<lparr>pg_active := True\<rparr>"
  note d = slot_request_def plain_int_def gate_timeout_def slot_begin_def slot_look_def start_waiting_def stop_waiting_def gate_shut_def
    free_gate_def after_turn_def without_def
  let ?w1 = "\<lparr>gw_gate = ?g, gw_threads = [(1, Inside)]\<rparr>"
  let ?w2 = "\<lparr>gw_gate = ?g, gw_threads = [(2, Queued False 9 False), (1, Inside)]\<rparr>"
  let ?w3 = "\<lparr>gw_gate = ?g\<lparr>pg_waiters := 1\<rparr>, gw_threads = [(3, Queued True 9 False), (2, Queued False 9 False), (1, Inside)]\<rparr>"
  have 1: "gate_step \<lparr>gw_gate = free_gate, gw_threads = []\<rparr> ?w1"
    using gate_step.Begin [of 1 "\<lparr>gw_gate = free_gate, gw_threads = []\<rparr>" "PInt 0" "PInt 9" 0 False 9 0 ?g Gets_In] by (simp add: d)
  have 2: "gate_step ?w1 ?w2"
    using gate_step.Begin [of 2 ?w1 "PInt 0" "PInt 9" 0 False 9 0 ?g "Waits 9"] by (simp add: d)
  have 3: "gate_step ?w2 ?w3"
    using gate_step.Begin [of 3 ?w2 "PInt 5" "PInt 9" 0 True 9 0 "?g\<lparr>pg_waiters := 1\<rparr>" "Waits 9"] by (simp add: d)
  have 4: "gate_step ?w3 demo_crowd"
    using gate_step.Finish [of 1 ?w3] by (simp add: d slot_end_def tell_all_def told_def demo_crowd_def)
  show "gate_step\<^sup>*\<^sup>* \<lparr>gw_gate = free_gate, gw_threads = []\<rparr> demo_crowd"
    using 1 2 3 4 by (meson rtranclp.rtrancl_refl rtranclp.rtrancl_into_rtrancl)
qed

theorem gate_excludes_witness: "gate_shut (gw_gate demo_crowd) False \<and> pg_waiters (gw_gate demo_crowd) = 1"
  using gate_excludes [OF demo_crowd_run(2,1)] by (simp add: demo_crowd_def)

theorem gate_never_strands_witness:
  "\<exists>t fg d. (t, Queued fg d True) \<in> set (gw_threads demo_crowd) \<and> (\<forall>now. snd (slot_look fg d now (gw_gate demo_crowd)) = Gets_In)"
  using gate_never_strands [OF demo_crowd_run(2,1), of 2 False 9 True] by (simp add: demo_crowd_def free_gate_def)

text \<open>\<open>reset\<close> is not part of the machine: called while a thread is inside, it lets a second one in.\<close>

lemma reset_admits_second:
  "snd (slot_begin fg d now (gate_reset (fst (slot_begin fg d now free_gate)))) = Gets_In"
  by (simp add: slot_begin_def slot_look_def gate_reset_def gate_shut_def start_waiting_def stop_waiting_def free_gate_def)

end
