(* ===== verification/Transaction_Paths.thy ===== *)
theory Transaction_Paths
  imports Path_Scopes
begin

text \<open>
  The write set of a command transaction (\<open>command_transactions.py\<close>): which paths a private run of a
  command may change.  \<open>is_valid_transaction_write_path\<close> and \<open>_write_set\<close> hold the same checks twice.
  \<open>nt\<close> is \<open>os.name == "nt"\<close>.  Of the characters modelled two leave the code points below 256 under
  \<open>casefold\<close> or \<open>upper\<close> (the micro sign, and y with diaeresis under \<open>upper\<close>); they stay as they are here, which
  no test for equality below can tell, as no other character maps to their images.
\<close>

section \<open>Standard library\<close>

definition py_casefold :: "string \<Rightarrow> string" where
  "py_casefold s = concat (map (\<lambda>c. if c = CHR 0xDF then ''ss'' else [lower_char c]) s)"

definition upper_char :: "char \<Rightarrow> char" where
  "upper_char c = (let n = of_char c :: nat in
     if (97 \<le> n \<and> n \<le> 122) \<or> (224 \<le> n \<and> n \<le> 254 \<and> n \<noteq> 247) then char_of (n - 32) else c)"

definition py_upper :: "string \<Rightarrow> string" where
  "py_upper s = concat (map (\<lambda>c. if c = CHR 0xDF then ''SS'' else [upper_char c]) s)"

text \<open>\<open>rstrip(" .")\<close>\<close>

definition rstrip_dots :: "string \<Rightarrow> string" where
  "rstrip_dots s = rev (dropWhile (\<lambda>c. c = CHR '' '' \<or> c = CHR ''.'') (rev s))"

text \<open>\<open>ntpath.isabs\<close>\<close>

definition nt_isabs :: "string \<Rightarrow> bool" where
  "nt_isabs s = (let p = replace_char slash bslash (take 3 s) in prefix [bslash] p \<or> take 2 (drop 1 p) = [CHR '':'', bslash])"

section \<open>One path\<close>

definition reserved_names :: "string list" where
  "reserved_names =
     [''CON'', ''PRN'', ''AUX'', ''NUL''] @
     concat (map (\<lambda>d. [''COM'' @ [d], ''LPT'' @ [d]]) (''123456789'' @ [CHR 0xB9, CHR 0xB2, CHR 0xB3]))"

definition portable_path :: "string \<Rightarrow> string" where
  "portable_path raw = replace_char bslash slash raw"

definition path_parts :: "string \<Rightarrow> string list" where
  "path_parts raw = split_on slash (portable_path raw)"

definition not_relative :: "string \<Rightarrow> bool" where
  "not_relative raw \<longleftrightarrow> fst (win_splitroot raw) \<noteq> [] \<or> nt_isabs raw \<or> prefix [slash] (portable_path raw) \<or>
     list_ex (\<lambda>part. part \<in> set [[], ''.'', ''..'']) (path_parts raw)"

definition part_not_portable :: "string \<Rightarrow> bool" where
  "part_not_portable part \<longleftrightarrow>
     CHR '':'' \<in> set part \<or> suffix ''.'' part \<or> suffix '' '' part \<or>
     py_upper (rstrip_dots (takeWhile (\<lambda>c. c \<noteq> CHR ''.'') part)) \<in> set reserved_names"

definition not_portable :: "string \<Rightarrow> bool" where
  "not_portable raw \<longleftrightarrow> list_ex part_not_portable (path_parts raw)"

definition is_valid_transaction_write_path :: "pyval \<Rightarrow> bool" where
  "is_valid_transaction_write_path path =
     (case path of
        PStr s \<Rightarrow>
          if s = [] \<or> nul \<in> set s then False
          else if not_relative s then False
          else \<not> not_portable s
      | _ \<Rightarrow> False)"

section \<open>The write set\<close>

datatype tx_error =
    Set_Type | Set_Too_Large | Set_Invalid_Path | Set_Not_Relative string | Set_Not_Portable string
  | Set_Duplicate string | Set_Empty | Set_Nested
  | Bad_Depth | Too_Deep string | Cannot_List | Nested_Git | Cannot_Inspect string | Reparse_Point string
  | External_Link string | Directory_Cycle string | Unsupported_Type string | Cannot_Read string | Changed_While_Reading string
  | Case_Alias string | Undeclared_Output string | Not_Regular string | Source_Changed string

definition tx_key :: "bool \<Rightarrow> string \<Rightarrow> string" where
  "tx_key nt path = (if nt then py_casefold path else path)"

type_synonym write_paths = "(string \<times> string) list"

definition set_values :: "pyval \<Rightarrow> tx_error + pyval list" where
  "set_values paths =
     (case paths of
        PList vs \<Rightarrow> Inr vs
      | PDict d \<Rightarrow> Inr (map (\<lambda>(k, _). PStr k) d)
      | _ \<Rightarrow> Inl Set_Type)"

definition add_write_path :: "bool \<Rightarrow> pyval \<Rightarrow> write_paths \<Rightarrow> tx_error + write_paths" where
  "add_write_path nt raw normalized =
     (case raw of
        PStr s \<Rightarrow>
          if s = [] \<or> nul \<in> set s then Inl Set_Invalid_Path
          else if not_relative s then Inl (Set_Not_Relative (take 160 s))
          else if not_portable s then Inl (Set_Not_Portable (take 160 s))
          else
            let key = join_with slash (path_parts s); comparison = tx_key nt key in
            if comparison \<in> fst ` set normalized then Inl (Set_Duplicate (take 160 s))
            else Inr (dict_set normalized comparison key)
      | _ \<Rightarrow> Inl Set_Invalid_Path)"

fun add_write_paths :: "bool \<Rightarrow> pyval list \<Rightarrow> write_paths \<Rightarrow> tx_error + write_paths" where
  "add_write_paths nt [] normalized = Inr normalized"
| "add_write_paths nt (raw # vals) normalized = bindr (add_write_path nt raw normalized) (add_write_paths nt vals)"

definition write_set :: "bool \<Rightarrow> pyval \<Rightarrow> tx_error + write_paths" where
  "write_set nt paths =
     bindr (set_values paths) (\<lambda>vals.
     bindr (require (length vals \<le> 128) Set_Too_Large) (\<lambda>_.
     bindr (add_write_paths nt vals []) (\<lambda>normalized.
     bindr (require (normalized \<noteq> []) Set_Empty) (\<lambda>_.
     let keys = map fst normalized in
     bindr (require (\<not> list_ex (\<lambda>left. list_ex (\<lambda>right. right \<noteq> left \<and> prefix (left @ [slash]) right) keys) keys) Set_Nested) (\<lambda>_.
     Inr normalized)))))"

section \<open>What a valid path is\<close>

lemma portable_key: "join_with slash (path_parts s) = portable_path s"
  by (simp add: path_parts_def)

lemma add_write_path_valid:
  "add_write_path nt raw ws =
     (if is_valid_transaction_write_path raw then
        case raw of PStr s \<Rightarrow>
          let key = portable_path s in
          if tx_key nt key \<in> fst ` set ws then Inl (Set_Duplicate (take 160 s)) else Inr (ws @ [(tx_key nt key, key)])
        | _ \<Rightarrow> Inl Set_Invalid_Path
      else Inl (case raw of
          PStr s \<Rightarrow> if s = [] \<or> nul \<in> set s then Set_Invalid_Path
            else if not_relative s then Set_Not_Relative (take 160 s) else Set_Not_Portable (take 160 s)
        | _ \<Rightarrow> Set_Invalid_Path))"
  by (auto simp: add_write_path_def is_valid_transaction_write_path_def portable_key Let_def dict_set_new split: pyval.split)

definition path_text :: "pyval \<Rightarrow> string" where
  "path_text v = (case v of PStr s \<Rightarrow> portable_path s | _ \<Rightarrow> [])"

definition path_entry :: "bool \<Rightarrow> pyval \<Rightarrow> string \<times> string" where
  "path_entry nt v = (tx_key nt (path_text v), path_text v)"

lemma add_write_path_iff:
  "add_write_path nt raw ws = Inr ws' \<longleftrightarrow>
     is_valid_transaction_write_path raw \<and> tx_key nt (path_text raw) \<notin> fst ` set ws \<and> ws' = ws @ [path_entry nt raw]"
  by (auto simp: add_write_path_valid Let_def path_text_def path_entry_def is_valid_transaction_write_path_def split: pyval.splits if_splits)

lemma add_write_paths_iff:
  "add_write_paths nt vals ws = Inr ws' \<longleftrightarrow>
     list_all is_valid_transaction_write_path vals \<and> ws' = ws @ map (path_entry nt) vals \<and>
     distinct (map (\<lambda>v. tx_key nt (path_text v)) vals) \<and> (\<forall>v \<in> set vals. tx_key nt (path_text v) \<notin> fst ` set ws)"
proof (induction vals arbitrary: ws)
  case (Cons v vs)
  show ?case by (simp add: add_write_path_iff Cons.IH path_entry_def) (metis (no_types, lifting) imageE imageI)
qed auto

text \<open>Nesting of the keys, as prefixes of components.\<close>

lemma nested_keys:
  "list_ex (\<lambda>left. list_ex (\<lambda>right. right \<noteq> left \<and> prefix (left @ [slash]) right) keys) keys \<longleftrightarrow>
     (\<exists>left \<in> set keys. \<exists>right \<in> set keys. left \<noteq> right \<and> prefix (comps left) (comps right))"
proof -
  have "right \<noteq> left \<and> prefix (left @ [slash]) right \<longleftrightarrow> left \<noteq> right \<and> prefix (comps left) (comps right)" for left right
    using under_iff_comps [of right left] by auto
  then show ?thesis by (simp add: list_ex_iff)
qed

text \<open>
  C29. The two copies of the path checks agree: a write set is accepted exactly when it is a non-empty list of at
  most 128 paths that are each valid, no two of them the same and none of them below another; it then
  maps the key of each path to the path.
\<close>

theorem write_set_exact:
  "write_set nt (PList vals) = Inr ws \<longleftrightarrow>
     vals \<noteq> [] \<and> length vals \<le> 128 \<and> list_all is_valid_transaction_write_path vals \<and> ws = map (path_entry nt) vals \<and>
     distinct (map fst ws) \<and>
     \<not> (\<exists>left \<in> fst ` set ws. \<exists>right \<in> fst ` set ws. left \<noteq> right \<and> prefix (comps left) (comps right))"
proof -
  have "write_set nt (PList vals) = Inr ws \<longleftrightarrow>
      length vals \<le> 128 \<and> add_write_paths nt vals [] = Inr ws \<and> ws \<noteq> [] \<and>
      \<not> list_ex (\<lambda>left. list_ex (\<lambda>right. right \<noteq> left \<and> prefix (left @ [slash]) right) (map fst ws)) (map fst ws)"
    by (auto simp: write_set_def set_values_def Let_def)
  then show ?thesis unfolding nested_keys set_map by (auto simp: add_write_paths_iff path_entry_def comp_def)
qed

text \<open>A valid path stays below the directory it is joined to, under either system's rules.\<close>

lemma drive_free:
  assumes "take 1 (replace_char slash bslash s) \<noteq> [bslash]" "take 1 (drop 1 (replace_char slash bslash s)) \<noteq> '':''"
  shows "win_splitroot s = ([], [], s)"
  using assms by (simp add: win_splitroot_def Let_def)

lemma not_relative_drive:
  assumes "\<not> not_relative s" "s \<noteq> []"
  shows "take 1 (replace_char slash bslash s) \<noteq> [bslash]" "take 1 (drop 1 (replace_char slash bslash s)) \<noteq> '':''"
proof -
  show 1: "take 1 (replace_char slash bslash s) \<noteq> [bslash]"
    using assms by (cases s) (auto simp: not_relative_def nt_isabs_def replace_char_def)
  show "take 1 (drop 1 (replace_char slash bslash s)) \<noteq> '':''"
  proof
    assume "take 1 (drop 1 (replace_char slash bslash s)) = '':''"
    then have "fst (win_splitroot s) = take 2 s" using 1 by (simp add: win_splitroot_def Let_def)
    then show False using assms by (simp add: not_relative_def)
  qed
qed

lemma split_either: "split_on a (replace_char b a s) = split_on b (replace_char a b s)"
  by (induction s) (auto simp: replace_char_def split: list.splits)

lemma replace_idem: "replace_char a b (replace_char a b s) = replace_char a b s"
  by (simp add: replace_char_def comp_def)

text \<open>
  A valid write path cannot leave the directory it is joined to: its components are names (none empty,
  \<open>.\<close> or \<open>..\<close>, none ending in a dot or a space) on POSIX, and on Windows it has no drive and no root, and
  the same components.
\<close>

lemma valid_write_path_confined:
  assumes "is_valid_transaction_write_path (PStr s)"
  shows "(\<forall>c \<in> set (comps (portable_path s)). real_name c \<and> \<not> suffix ''.'' c \<and> \<not> suffix '' '' c) \<and>
    win_drive s = [] \<and> win_root s = [] \<and> win_parse s = ([], [], comps (portable_path s))"
proof -
  have s: "s \<noteq> []" "\<not> not_relative s" "\<not> not_portable s" using assms by (auto simp: is_valid_transaction_write_path_def split: if_splits)
  have names: "\<forall>c \<in> set (comps (portable_path s)). real_name c \<and> \<not> suffix ''.'' c \<and> \<not> suffix '' '' c"
    using s(2,3) split_on_parts_free [of _ slash "portable_path s"]
    by (auto simp: real_name_def not_relative_def not_portable_def part_not_portable_def path_parts_def list_ex_iff)
  have "win_splitroot (replace_char slash bslash s) = ([], [], replace_char slash bslash s)"
    by (rule drive_free) (simp_all only: replace_idem not_relative_drive [OF s(2,1)] not_False_eq_True)
  then have "win_parse s = ([], [], filter (\<lambda>x. x \<noteq> [] \<and> x \<noteq> ''.'') (comps (portable_path s)))"
    using s(1) by (simp add: win_parse_def split_either portable_path_def)
  moreover have "filter (\<lambda>x. x \<noteq> [] \<and> x \<noteq> ''.'') (comps (portable_path s)) = comps (portable_path s)"
    using names by (auto simp: filter_id_conv real_name_def)
  ultimately show ?thesis using names by (simp add: win_drive_def win_root_def)
qed

text \<open>Two paths are accepted, and a path with another below it is not.\<close>

theorem write_set_exact_witness:
  "write_set True (PList [PStr ''Src/main.py'', PStr ''notes'']) = Inr [(''src/main.py'', ''Src/main.py''), (''notes'', ''notes'')] \<and>
   (\<forall>ws. write_set False (PList [PStr ''a'', PStr ''a/b'']) \<noteq> Inr ws)"
proof (intro conjI allI)
  show "write_set True (PList [PStr ''Src/main.py'', PStr ''notes'']) = Inr [(''src/main.py'', ''Src/main.py''), (''notes'', ''notes'')]"
    unfolding write_set_exact by code_simp
  have ent: "map (path_entry False) [PStr ''a'', PStr ''a/b''] = [(''a'', ''a''), (''a/b'', ''a/b'')]" by code_simp
  have "prefix (comps ''a'') (comps ''a/b'')" by simp
  then show "write_set False (PList [PStr ''a'', PStr ''a/b'']) \<noteq> Inr ws" for ws
    unfolding write_set_exact ent by force
qed

end
