(* ===== verification/Transaction_Tree.thy ===== *)
theory Transaction_Tree
  imports Transaction_Paths "HOL-Library.Multiset"
begin

text \<open>
  The manifest of a transaction's directory (\<open>_tree_manifest\<close> of \<open>command_transactions.py\<close>): a worklist over the
  directories that records every file, link and directory below the root, and refuses what it cannot
  vouch for.  The directory is a tree of \<open>node\<close>s, each with what the calls on it answer: whether a
  directory can be listed, what a link points to and whether that is inside the root, what reading a
  file gives (a digest, an error, or a file that changed under the reader).
\<close>

section \<open>Files\<close>

record file_stat =
  fs_mode :: int
  fs_size :: int
  fs_mtime :: int
  fs_dev :: int
  fs_ino :: int

datatype file_read = Digest string | Unreadable | Altered

datatype node =
    File file_stat file_read
  | Directory file_stat bool "(string \<times> node) list"
  | Link file_stat string bool
  | Reparse
  | Special
  | Gone

record tree_entry =
  te_kind :: string
  te_mode :: int
  te_size :: int
  te_mtime :: int
  te_digest :: string
  te_target :: string

type_synonym manifest = "(string \<times> tree_entry) list"

text \<open>Device and inode, or the resolved path where the system gives no inode.\<close>

datatype dir_ident = Inode int int | Resolved "string list"

definition dir_ident_of :: "file_stat \<Rightarrow> string list \<Rightarrow> dir_ident" where
  "dir_ident_of st parts = (if fs_ino st \<noteq> 0 then Inode (fs_dev st) (fs_ino st) else Resolved parts)"

section \<open>The worklist\<close>

record tree_walk =
  wk_manifest :: manifest
  wk_pending :: "(string list \<times> bool \<times> (string \<times> node) list) list"
  wk_seen :: "dir_ident list"

text \<open>One entry of a directory: the body of the inner loop.\<close>

definition scan_entry :: "string list \<Rightarrow> string \<times> node \<Rightarrow> tree_walk \<Rightarrow> tx_error + tree_walk" where
  "scan_entry dir entry w =
     (let (name, nd) = entry; parts = dir @ [name]; relative = join_with slash parts in
      if dir = [] \<and> py_casefold name = ''.git'' then Inr w
      else if py_casefold name = ''.git'' then Inl Nested_Git
      else case nd of
          Gone \<Rightarrow> Inl (Cannot_Inspect relative)
        | Reparse \<Rightarrow> Inl (Reparse_Point relative)
        | Link st target internal \<Rightarrow>
            if \<not> internal then Inl (External_Link relative)
            else Inr (w\<lparr>wk_manifest := dict_set (wk_manifest w) relative
              \<lparr>te_kind = ''symlink'', te_mode = fs_mode st, te_size = fs_size st, te_mtime = fs_mtime st, te_digest = [], te_target = target\<rparr>\<rparr>)
        | Directory st listable entries \<Rightarrow>
            let key = dir_ident_of st parts in
            if key \<in> set (wk_seen w) then Inl (Directory_Cycle relative)
            else Inr (w\<lparr>wk_seen := key # wk_seen w,
              wk_manifest := dict_set (wk_manifest w) relative
                \<lparr>te_kind = ''directory'', te_mode = fs_mode st, te_size = 0, te_mtime = fs_mtime st, te_digest = [], te_target = []\<rparr>,
              wk_pending := (parts, listable, entries) # wk_pending w\<rparr>)
        | Special \<Rightarrow> Inl (Unsupported_Type relative)
        | File st content \<Rightarrow>
            (case content of
               Unreadable \<Rightarrow> Inl (Cannot_Read relative)
             | Altered \<Rightarrow> Inl (Changed_While_Reading relative)
             | Digest d \<Rightarrow> Inr (w\<lparr>wk_manifest := dict_set (wk_manifest w) relative
                 \<lparr>te_kind = ''file'', te_mode = fs_mode st, te_size = fs_size st, te_mtime = fs_mtime st, te_digest = d, te_target = []\<rparr>\<rparr>)))"

fun scan_entries :: "string list \<Rightarrow> (string \<times> node) list \<Rightarrow> tree_walk \<Rightarrow> tx_error + tree_walk" where
  "scan_entries dir [] w = Inr w"
| "scan_entries dir (e # es) w = bindr (scan_entry dir e w) (scan_entries dir es)"

definition sorted_entries :: "(string \<times> node) list \<Rightarrow> (string \<times> node) list" where
  "sorted_entries es = sort_key (\<lambda>(name, _). py_casefold name) es"

fun node_weight :: "node \<Rightarrow> nat" where
  "node_weight (Directory _ _ es) = Suc (sum_list (map (\<lambda>(_, n). node_weight n) es))"
| "node_weight _ = 1"

definition pending_weight :: "tree_walk \<Rightarrow> nat" where
  "pending_weight w = sum_list (map (\<lambda>(_, _, es). Suc (sum_list (map (\<lambda>(_, n). node_weight n) es))) (wk_pending w))"

lemma scan_entry_weight:
  "scan_entry dir e w = Inr w' \<Longrightarrow> pending_weight w' \<le> pending_weight w + node_weight (snd e)"
  by (auto simp: scan_entry_def Let_def pending_weight_def split: prod.splits if_splits node.splits file_read.splits)

lemma scan_entries_weight:
  "scan_entries dir es w = Inr w' \<Longrightarrow> pending_weight w' \<le> pending_weight w + sum_list (map (\<lambda>(_, n). node_weight n) es)"
  by (induction es arbitrary: w) (fastforce dest: scan_entry_weight)+

lemma sorted_entries_weight: "sum_list (map (\<lambda>(_, n). node_weight n) (sorted_entries es)) = sum_list (map (\<lambda>(_, n). node_weight n) es)"
proof -
  have "mset (map (\<lambda>(_, n). node_weight n) (sorted_entries es)) = mset (map (\<lambda>(_, n). node_weight n) es)" by (simp add: sorted_entries_def)
  then show ?thesis by (metis sum_mset_sum_list)
qed

function walk_tree :: "nat \<Rightarrow> tree_walk \<Rightarrow> tx_error + manifest" where
  "walk_tree max_depth w =
     (case wk_pending w of
        [] \<Rightarrow> Inr (wk_manifest w)
      | (dir, listable, entries) # rest \<Rightarrow>
          if max_depth \<le> length dir then Inl (Too_Deep (if dir = [] then ''.'' else join_with slash dir))
          else if \<not> listable then Inl Cannot_List
          else bindr (scan_entries dir (sorted_entries entries) (w\<lparr>wk_pending := rest\<rparr>)) (walk_tree max_depth))"
  by pat_completeness auto
termination
proof (relation "measure (\<lambda>(_, w). pending_weight w)")
  show "wf (measure (\<lambda>(_, w). pending_weight w))" by simp
next
qed (auto dest!: scan_entries_weight simp: sorted_entries_weight pending_weight_def)

definition depth_limit :: "pyval \<Rightarrow> tx_error + nat" where
  "depth_limit v = (case v of PInt i \<Rightarrow> if 1 \<le> i \<and> i \<le> 512 then Inr (nat i) else Inl Bad_Depth | _ \<Rightarrow> Inl Bad_Depth)"

definition tree_manifest :: "node \<Rightarrow> pyval \<Rightarrow> tx_error + manifest" where
  "tree_manifest base max_depth =
     bindr (depth_limit max_depth) (\<lambda>depth.
     case base of
       Directory st listable entries \<Rightarrow>
         walk_tree depth \<lparr>wk_manifest = [], wk_pending = [([], listable, entries)], wk_seen = [dir_ident_of st []]\<rparr>
     | _ \<Rightarrow> Inl Cannot_List)"

section \<open>What the manifest says\<close>

text \<open>The node at a path, and what is recorded of it.\<close>

fun node_at :: "node \<Rightarrow> string list \<Rightarrow> node option" where
  "node_at n [] = Some n"
| "node_at (Directory st listable es) (c # cs) = (case map_of es c of None \<Rightarrow> None | Some n \<Rightarrow> node_at n cs)"
| "node_at _ (c # cs) = None"

fun entry_of :: "node \<Rightarrow> tree_entry option" where
  "entry_of (File st (Digest d)) =
     Some \<lparr>te_kind = ''file'', te_mode = fs_mode st, te_size = fs_size st, te_mtime = fs_mtime st, te_digest = d, te_target = []\<rparr>"
| "entry_of (Directory st _ _) =
     Some \<lparr>te_kind = ''directory'', te_mode = fs_mode st, te_size = 0, te_mtime = fs_mtime st, te_digest = [], te_target = []\<rparr>"
| "entry_of (Link st target True) =
     Some \<lparr>te_kind = ''symlink'', te_mode = fs_mode st, te_size = fs_size st, te_mtime = fs_mtime st, te_digest = [], te_target = target\<rparr>"
| "entry_of _ = None"

definition git_name :: "string \<Rightarrow> bool" where
  "git_name name \<longleftrightarrow> py_casefold name = ''.git''"

text \<open>What a file system guarantees of names.\<close>

fun names_ok :: "node \<Rightarrow> bool" where
  "names_ok (Directory _ _ es) \<longleftrightarrow>
     distinct (map fst es) \<and> list_all (\<lambda>(name, n). name \<noteq> [] \<and> slash \<notin> set name \<and> names_ok n) es"
| "names_ok _ \<longleftrightarrow> True"

lemma node_at_append: "node_at n (p @ q) = Option.bind (node_at n p) (\<lambda>m. node_at m q)"
  by (induction n p rule: node_at.induct) (auto split: option.splits)

lemma node_at_child:
  assumes "node_at base dir = Some (Directory st b es)"
  shows "node_at base (dir @ name # q) = Option.bind (map_of es name) (\<lambda>m. node_at m q)"
  using assms by (auto simp: node_at_append split: option.splits)

lemma node_at_names:
  "names_ok n \<Longrightarrow> node_at n p = Some m \<Longrightarrow> names_ok m \<and> (\<forall>c \<in> set p. c \<noteq> [] \<and> slash \<notin> set c)"
  by (induction n p rule: node_at.induct) (fastforce simp: list_all_iff dest: map_of_SomeD split: option.splits)+

text \<open>A path is recorded, or below a directory that is still to be scanned.\<close>

definition covered :: "tree_walk \<Rightarrow> string list \<Rightarrow> bool" where
  "covered w p \<longleftrightarrow> join_with slash p \<in> fst ` set (wk_manifest w) \<or>
     (\<exists>(dir, _, _) \<in> set (wk_pending w). \<exists>q. q \<noteq> [] \<and> p = dir @ q)"

lemma scan_entry_cases:
  assumes "scan_entry dir (name, n) w = Inr w'"
  obtains (skipped) "w' = w" "dir = []" "git_name name"
  | (recorded) e where "\<not> git_name name" "entry_of n = Some e"
      "wk_manifest w' = dict_set (wk_manifest w) (join_with slash (dir @ [name])) e"
      "wk_pending w' = (case n of Directory st b es \<Rightarrow> (dir @ [name], b, es) # wk_pending w | _ \<Rightarrow> wk_pending w)"
proof -
  have "w' = w \<and> dir = [] \<and> git_name name \<or>
      (\<exists>e. \<not> git_name name \<and> entry_of n = Some e \<and>
        wk_manifest w' = dict_set (wk_manifest w) (join_with slash (dir @ [name])) e \<and>
        wk_pending w' = (case n of Directory st b es \<Rightarrow> (dir @ [name], b, es) # wk_pending w | _ \<Rightarrow> wk_pending w))"
    using assms by (cases n) (auto simp: scan_entry_def Let_def git_name_def split: if_splits file_read.splits)
  then show ?thesis using that by blast
qed

lemma covered_mono:
  "fst ` set (wk_manifest w) \<subseteq> fst ` set (wk_manifest w') \<Longrightarrow> set (wk_pending w) \<subseteq> set (wk_pending w') \<Longrightarrow> covered w p \<Longrightarrow> covered w' p"
  unfolding covered_def by blast

lemma scan_entry_covers:
  assumes ok: "scan_entry dir (name, n) w = Inr w'"
  shows "covered w p \<Longrightarrow> covered w' p"
    and "node_at n q = Some c \<Longrightarrow> \<not> (dir = [] \<and> git_name name) \<Longrightarrow> covered w' (dir @ name # q)"
proof -
  show "covered w' p" if "covered w p"
    using ok
  proof (cases rule: scan_entry_cases)
    case (recorded e)
    have "set (wk_pending w) \<subseteq> set (wk_pending w')" using recorded(4) by (auto split: node.splits)
    moreover have "fst ` set (wk_manifest w) \<subseteq> fst ` set (wk_manifest w')" unfolding recorded(3) keys_dict_set by blast
    ultimately show ?thesis using that covered_mono by blast
  qed (use that in simp)
  show "covered w' (dir @ name # q)" if at: "node_at n q = Some c" and dot: "\<not> (dir = [] \<and> git_name name)"
    using ok
  proof (cases rule: scan_entry_cases)
    case (recorded e)
    show ?thesis
    proof (cases q)
      case Nil
      then show ?thesis using recorded(3) by (simp add: covered_def keys_dict_set)
    next
      case (Cons x xs)
      then obtain st b es where "n = Directory st b es" using at by (cases n) auto
      then have "(dir @ [name], b, es) \<in> set (wk_pending w')" using recorded(4) by simp
      then show ?thesis using Cons unfolding covered_def by fastforce
    qed
  qed (use dot in simp)
qed

lemma scan_entries_covers:
  shows "scan_entries dir es w = Inr w' \<Longrightarrow> covered w p \<Longrightarrow> covered w' p"
    and "scan_entries dir es w = Inr w' \<Longrightarrow> (name, n) \<in> set es \<Longrightarrow> node_at n q = Some c \<Longrightarrow> \<not> (dir = [] \<and> git_name name) \<Longrightarrow>
      covered w' (dir @ name # q)"
proof -
  show keep: "covered w' p" if "scan_entries dir es w = Inr w'" "covered w p" for es w w' p
    using that by (induction es arbitrary: w) (auto dest: scan_entry_covers(1))
  show "covered w' (dir @ name # q)" if "scan_entries dir es w = Inr w'" "(name, n) \<in> set es" "node_at n q = Some c" "\<not> (dir = [] \<and> git_name name)"
    using that
  proof (induction es arbitrary: w)
    case (Cons e es)
    then obtain v where v: "scan_entry dir e w = Inr v" "scan_entries dir es v = Inr w'" by auto
    show ?case
    proof (cases "e = (name, n)")
      case True
      then show ?thesis using keep [OF v(2)] scan_entry_covers(2) v(1) Cons.prems(3,4) by blast
    next
      case False
      then show ?thesis using Cons v(2) by auto
    qed
  qed simp
qed

text \<open>Everything recorded, and every directory that is still to be scanned, is in the tree.\<close>

definition in_tree :: "node \<Rightarrow> string list \<Rightarrow> tree_entry \<Rightarrow> bool" where
  "in_tree base p e \<longleftrightarrow> p \<noteq> [] \<and> \<not> git_name (hd p) \<and> (\<exists>n. node_at base p = Some n \<and> entry_of n = Some e)"

definition sound :: "node \<Rightarrow> tree_walk \<Rightarrow> bool" where
  "sound base w \<longleftrightarrow> (\<forall>(k, e) \<in> set (wk_manifest w). \<exists>p. k = join_with slash p \<and> in_tree base p e) \<and>
     (\<forall>(dir, b, es) \<in> set (wk_pending w). (\<exists>st. node_at base dir = Some (Directory st b es)) \<and> (dir \<noteq> [] \<longrightarrow> \<not> git_name (hd dir))) \<and>
     distinct (map fst (wk_manifest w))"

lemma scan_entry_sound:
  assumes "scan_entry dir (name, n) w = Inr w'" "sound base w" "node_at base (dir @ [name]) = Some n" "dir \<noteq> [] \<longrightarrow> \<not> git_name (hd dir)"
  shows "sound base w'"
  using assms(1)
proof (cases rule: scan_entry_cases)
  case (recorded e)
  have hd: "\<not> git_name (hd (dir @ [name]))" using recorded(1) assms(4) by (cases dir) auto
  have new: "in_tree base (dir @ [name]) e" using hd recorded(2) assms(3) by (simp add: in_tree_def)
  have "\<exists>p. k = join_with slash p \<and> in_tree base p x" if "(k, x) \<in> set (wk_manifest w')" for k x
    using that recorded(3) set_dict_set [of "wk_manifest w" "join_with slash (dir @ [name])" e] new assms(2) by (auto simp: sound_def)
  moreover have "(\<exists>st. node_at base d = Some (Directory st b es)) \<and> (d \<noteq> [] \<longrightarrow> \<not> git_name (hd d))"
    if "(d, b, es) \<in> set (wk_pending w')" for d b es
    using that recorded(4) hd assms(2,3) by (auto simp: sound_def split: node.splits)
  ultimately show ?thesis using recorded(3) assms(2) by (auto simp: sound_def distinct_dict_set)
qed (use assms in simp)

lemma scan_entries_sound:
  assumes "scan_entries dir es w = Inr w'" "sound base w" "\<forall>(name, n) \<in> set es. node_at base (dir @ [name]) = Some n"
    "dir \<noteq> [] \<longrightarrow> \<not> git_name (hd dir)"
  shows "sound base w'"
  using assms by (induction es arbitrary: w) (auto dest: scan_entry_sound)

declare walk_tree.simps [simp del]

lemma walk_step:
  assumes "walk_tree d w = Inr m"
  obtains (finished) "wk_pending w = []" "m = wk_manifest w"
  | (scanned) dir es rest v where "wk_pending w = (dir, True, es) # rest" "length dir < d"
      "scan_entries dir (sorted_entries es) (w\<lparr>wk_pending := rest\<rparr>) = Inr v" "walk_tree d v = Inr m"
  using assms by (subst (asm) walk_tree.simps) (auto split: list.splits if_splits)

lemma scanned_sound:
  assumes "sound base w" "names_ok base" "wk_pending w = (dir, True, es) # rest"
    and "scan_entries dir (sorted_entries es) (w\<lparr>wk_pending := rest\<rparr>) = Inr v"
  shows "sound base v"
proof (rule scan_entries_sound [OF assms(4)])
  obtain st where at: "node_at base dir = Some (Directory st True es)" and hd: "dir \<noteq> [] \<longrightarrow> \<not> git_name (hd dir)"
    using assms(1,3) by (auto simp: sound_def)
  show "sound base (w\<lparr>wk_pending := rest\<rparr>)" using assms(1,3) by (auto simp: sound_def)
  have "distinct (map fst es)" using node_at_names [OF assms(2) at] by simp
  then show "\<forall>(name, n) \<in> set (sorted_entries es). node_at base (dir @ [name]) = Some n"
    using node_at_child [OF at, of _ "[]"] by (auto simp: sorted_entries_def)
  show "dir \<noteq> [] \<longrightarrow> \<not> git_name (hd dir)" by (rule hd)
qed

lemma scanned_covers:
  assumes "sound base w" "wk_pending w = (dir, True, es) # rest" "node_at base p = Some c" "p \<noteq> []" "\<not> git_name (hd p)"
    and scan: "scan_entries dir (sorted_entries es) (w\<lparr>wk_pending := rest\<rparr>) = Inr v" and "covered w p"
  shows "covered v p"
proof (cases "covered (w\<lparr>wk_pending := rest\<rparr>) p")
  case True
  then show ?thesis by (rule scan_entries_covers(1) [OF scan])
next
  case False
  obtain st where at: "node_at base dir = Some (Directory st True es)" using assms(1,2) by (auto simp: sound_def)
  obtain name q where q: "p = dir @ name # q" using assms(2,7) False by (auto simp: covered_def neq_Nil_conv)
  then obtain n where n: "map_of es name = Some n" "node_at n q = Some c"
    using assms(3) node_at_child [OF at, of name q] by (auto split: bind_splits)
  then have "(name, n) \<in> set (sorted_entries es)" by (simp add: sorted_entries_def map_of_SomeD)
  moreover have "\<not> (dir = [] \<and> git_name name)" using assms(5) q by auto
  ultimately show ?thesis unfolding q using scan_entries_covers(2) [OF scan _ n(2)] by blast
qed

lemma walk_correct:
  assumes "walk_tree d w = Inr m" "sound base w" "names_ok base"
  shows "(\<forall>(k, e) \<in> set m. \<exists>p. k = join_with slash p \<and> in_tree base p e) \<and> distinct (map fst m) \<and>
    (\<forall>p c. covered w p \<longrightarrow> node_at base p = Some c \<longrightarrow> p \<noteq> [] \<longrightarrow> \<not> git_name (hd p) \<longrightarrow> join_with slash p \<in> fst ` set m)"
  using assms
proof (induction d w rule: walk_tree.induct)
  case (1 d w)
  from 1(2) show ?case
  proof (cases rule: walk_step)
    case finished
    then show ?thesis using 1(3) by (auto simp: sound_def covered_def)
  next
    case (scanned dir es rest v)
    have ih: "(\<forall>(k, e) \<in> set m. \<exists>p. k = join_with slash p \<and> in_tree base p e) \<and> distinct (map fst m) \<and>
        (\<forall>p c. covered v p \<longrightarrow> node_at base p = Some c \<longrightarrow> p \<noteq> [] \<longrightarrow> \<not> git_name (hd p) \<longrightarrow> join_with slash p \<in> fst ` set m)"
      using 1(1) [OF scanned(1) refl refl _ _ scanned(3)] scanned(2,4) scanned_sound [OF 1(3,4) scanned(1,3)] 1(4) by auto
    then show ?thesis using scanned_covers [OF 1(3) scanned(1) _ _ _ scanned(3)] by blast
  qed
qed

lemma manifest_faithful:
  assumes "tree_manifest base max_depth = Inr m" "names_ok base" "p \<noteq> []" "\<forall>c \<in> set p. c \<noteq> [] \<and> slash \<notin> set c"
  shows "distinct (map fst m) \<and>
    map_of m (join_with slash p) = (if git_name (hd p) then None else Option.bind (node_at base p) entry_of) \<and>
    (\<forall>n. \<not> git_name (hd p) \<and> node_at base p = Some n \<longrightarrow> entry_of n \<noteq> None)"
proof -
  obtain st b es depth where base: "base = Directory st b es"
    and walk: "walk_tree depth \<lparr>wk_manifest = [], wk_pending = [([], b, es)], wk_seen = [dir_ident_of st []]\<rparr> = Inr m"
    using assms(1) by (cases base) (auto simp: tree_manifest_def)
  let ?w = "\<lparr>wk_manifest = [], wk_pending = [([], b, es)], wk_seen = [dir_ident_of st []]\<rparr>"
  have start: "sound base ?w" "covered ?w p" using assms(3) by (auto simp: sound_def covered_def base)
  note r = walk_correct [OF walk start(1) assms(2)]
  have inj: "q = p" if "join_with slash q = join_with slash p" "in_tree base q e" for q e
  proof -
    have "\<forall>c \<in> set q. slash \<notin> set c" "q \<noteq> []" using that(2) node_at_names [OF assms(2)] by (auto simp: in_tree_def)
    then show ?thesis using that(1) split_join [of q slash] split_join [of p slash] assms(3,4) by metis
  qed
  have val: "map_of m (join_with slash p) = Some e \<Longrightarrow> in_tree base p e" for e
  proof -
    assume "map_of m (join_with slash p) = Some e"
    then have "(join_with slash p, e) \<in> set m" by (rule map_of_SomeD)
    then obtain q where q: "join_with slash p = join_with slash q" "in_tree base q e" using r by blast
    then show ?thesis using inj [OF q(1) [symmetric] q(2)] by simp
  qed
  have key: "map_of m (join_with slash p) \<noteq> None" if "node_at base p = Some c" "\<not> git_name (hd p)" for c
  proof -
    have "join_with slash p \<in> fst ` set m" using r that start(2) assms(3) by blast
    then show ?thesis by (simp add: map_of_eq_None_iff)
  qed
  show ?thesis
  proof (cases "map_of m (join_with slash p)")
    case None
    then show ?thesis using r key by (cases "node_at base p") auto
  next
    case (Some e)
    then show ?thesis using r val by (auto simp: in_tree_def)
  qed
qed

text \<open>
  C28. The manifest is the tree: if it is made at all, it has each path below the root (but a \<open>.git\<close> directly under
  the root) once, with the kind, mode, size, time, digest or target of what is there, and nothing else; in
  particular all links stay inside, and every file was read unchanged.
\<close>

theorem manifest_exact:
  assumes "tree_manifest base max_depth = Inr m" "names_ok base" "p \<noteq> []" "\<forall>c \<in> set p. c \<noteq> [] \<and> slash \<notin> set c"
  shows "distinct (map fst m) \<and>
    map_of m (join_with slash p) = (if git_name (hd p) then None else Option.bind (node_at base p) entry_of) \<and>
    (\<forall>n. \<not> git_name (hd p) \<and> node_at base p = Some n \<longrightarrow> entry_of n \<noteq> None)"
  using assms by (rule manifest_faithful)

text \<open>A tree with a link, and a \<open>.git\<close> that nobody looks into.\<close>

definition small_tree :: node where
  "small_tree = Directory \<lparr>fs_mode = 493, fs_size = 0, fs_mtime = 7, fs_dev = 1, fs_ino = 1\<rparr> True
     [(''.git'', Special),
      (''src'', Directory \<lparr>fs_mode = 493, fs_size = 0, fs_mtime = 7, fs_dev = 1, fs_ino = 2\<rparr> True
        [(''main'', Link \<lparr>fs_mode = 511, fs_size = 4, fs_mtime = 8, fs_dev = 1, fs_ino = 3\<rparr> ''prog'' True)])]"

lemma small_tree_ok: "names_ok small_tree" "case tree_manifest small_tree (PInt 2) of Inr m \<Rightarrow> map fst m = [''src'', ''src/main''] | _ \<Rightarrow> False"
  by code_simp+

theorem manifest_exact_witness:
  "\<exists>m e. tree_manifest small_tree (PInt 2) = Inr m \<and> map_of m ''src/main'' = Some e \<and> te_target e = ''prog''"
proof -
  obtain m where m: "tree_manifest small_tree (PInt 2) = Inr m" using small_tree_ok(2) by (auto split: sum.splits)
  have "map_of m ''src/main'' = Option.bind (node_at small_tree [''src'', ''main'']) entry_of"
    using manifest_exact [OF m small_tree_ok(1), of "[''src'', ''main'']"] by (simp add: git_name_def py_casefold_def lower_char_def)
  then show ?thesis using m by (simp add: small_tree_def)
qed

end
