(* ===== verification/Transaction_Output.thy ===== *)
theory Transaction_Output
  imports Transaction_Tree
begin

text \<open>
  What a private run of a command may hand back (\<open>_manifest_index\<close>, \<open>_entry_changed\<close>,
  \<open>validate_transaction_output\<close> and \<open>verify_transaction_source_unchanged\<close> of \<open>command_transactions.py\<close>):
  the manifest of the private directory is compared with the one it was made from, and every change
  outside the declared write set is refused.  \<open>order\<close> is the order in which the set of all keys is iterated.
\<close>

section \<open>Comparing manifests\<close>

type_synonym manifest_keys = "(string \<times> string \<times> tree_entry) list"

fun index_entries :: "bool \<Rightarrow> manifest \<Rightarrow> manifest_keys \<Rightarrow> tx_error + manifest_keys" where
  "index_entries nt [] indexed = Inr indexed"
| "index_entries nt ((path, e) # m) indexed =
     (let key = tx_key nt path in
      if key \<in> fst ` set indexed then Inl (Case_Alias path)
      else index_entries nt m (dict_set indexed key (path, e)))"

definition manifest_index :: "bool \<Rightarrow> manifest \<Rightarrow> tx_error + manifest_keys" where
  "manifest_index nt m = index_entries nt m []"

definition entry_changed :: "(string \<times> tree_entry) option \<Rightarrow> (string \<times> tree_entry) option \<Rightarrow> bool" where
  "entry_changed before after =
     (case (before, after) of
        (Some (p, x), Some (q, y)) \<Rightarrow>
          if te_kind x = te_kind y \<and> te_kind y = ''directory'' then p \<noteq> q \<or> te_mode x \<noteq> te_mode y
          else (p, x) \<noteq> (q, y)
      | (None, None) \<Rightarrow> False
      | _ \<Rightarrow> True)"

section \<open>The output of a transaction\<close>

type_synonym postimages = "(string \<times> tree_entry option) list"

definition leads_to_target :: "bool \<Rightarrow> write_paths \<Rightarrow> string \<Rightarrow> bool" where
  "leads_to_target nt ws key \<longleftrightarrow> list_ex (\<lambda>(_, target). prefix (key @ [slash]) (tx_key nt target)) ws"

definition output_entry :: "bool \<Rightarrow> write_paths \<Rightarrow> manifest_keys \<Rightarrow> manifest_keys \<Rightarrow> string \<Rightarrow> postimages \<Rightarrow> tx_error + postimages" where
  "output_entry nt ws baseline_index current_index key changes =
     (let before = map_of baseline_index key; after = map_of current_index key in
      if \<not> entry_changed before after then Inr changes
      else
        let relative = fst (case after of Some x \<Rightarrow> x | None \<Rightarrow> the before);
            entry = map_option snd after;
            declared = map_of ws key
        in if (case entry of None \<Rightarrow> False | Some e \<Rightarrow> te_kind e = ''directory'' \<and> (before = None \<or> after = None)) \<and>
              leads_to_target nt ws key then Inr changes
           else case declared of
               None \<Rightarrow> Inl (Undeclared_Output relative)
             | Some path \<Rightarrow>
                 if (case entry of None \<Rightarrow> False | Some e \<Rightarrow> te_kind e \<noteq> ''file'') then Inl (Not_Regular path)
                 else Inr (dict_set changes path entry))"

fun output_changes :: "bool \<Rightarrow> write_paths \<Rightarrow> manifest_keys \<Rightarrow> manifest_keys \<Rightarrow> string list \<Rightarrow> postimages \<Rightarrow> tx_error + postimages" where
  "output_changes nt ws bi ci [] changes = Inr changes"
| "output_changes nt ws bi ci (key # keys) changes = bindr (output_entry nt ws bi ci key changes) (output_changes nt ws bi ci keys)"

definition validate_transaction_output ::
    "bool \<Rightarrow> (string list \<Rightarrow> string list) \<Rightarrow> manifest \<Rightarrow> node \<Rightarrow> pyval \<Rightarrow> tx_error + postimages" where
  "validate_transaction_output nt order baseline transaction_root paths =
     bindr (write_set nt paths) (\<lambda>ws.
     bindr (manifest_index nt baseline) (\<lambda>baseline_index.
     bindr (tree_manifest transaction_root (PInt 64)) (\<lambda>current.
     bindr (manifest_index nt current) (\<lambda>current_index.
     output_changes nt ws baseline_index current_index
       (order (remdups (map fst baseline_index @ map fst current_index))) []))))"

fun source_checks :: "write_paths \<Rightarrow> manifest_keys \<Rightarrow> manifest_keys \<Rightarrow> tx_error + unit" where
  "source_checks [] bi ci = Inr ()"
| "source_checks ((key, relative) # ws) bi ci =
     bindr (require (\<not> entry_changed (map_of bi key) (map_of ci key)) (Source_Changed relative)) (\<lambda>_. source_checks ws bi ci)"

definition verify_transaction_source_unchanged :: "bool \<Rightarrow> node \<Rightarrow> manifest \<Rightarrow> pyval \<Rightarrow> tx_error + unit" where
  "verify_transaction_source_unchanged nt source_root baseline paths =
     bindr (write_set nt paths) (\<lambda>ws.
     bindr (manifest_index nt baseline) (\<lambda>baseline_index.
     bindr (tree_manifest source_root (PInt 64)) (\<lambda>current.
     bindr (manifest_index nt current) (\<lambda>current_index.
     source_checks ws baseline_index current_index))))"

section \<open>Which changes pass\<close>

text \<open>A directory that was made for a declared path below it.\<close>

definition new_parent :: "bool \<Rightarrow> write_paths \<Rightarrow> manifest_keys \<Rightarrow> manifest_keys \<Rightarrow> string \<Rightarrow> bool" where
  "new_parent nt ws bi ci key \<longleftrightarrow> map_of bi key = None \<and>
     (\<exists>p e. map_of ci key = Some (p, e) \<and> te_kind e = ''directory'') \<and> leads_to_target nt ws key"

definition reported :: "bool \<Rightarrow> write_paths \<Rightarrow> manifest_keys \<Rightarrow> manifest_keys \<Rightarrow> string \<Rightarrow> bool" where
  "reported nt ws bi ci key \<longleftrightarrow> entry_changed (map_of bi key) (map_of ci key) \<and> \<not> new_parent nt ws bi ci key"

definition acceptable :: "bool \<Rightarrow> write_paths \<Rightarrow> manifest_keys \<Rightarrow> manifest_keys \<Rightarrow> string \<Rightarrow> bool" where
  "acceptable nt ws bi ci key \<longleftrightarrow>
     (reported nt ws bi ci key \<longrightarrow> map_of ws key \<noteq> None \<and> (\<forall>p e. map_of ci key = Some (p, e) \<longrightarrow> te_kind e = ''file''))"

lemma output_entry_iff:
  "output_entry nt ws bi ci key changes = Inr changes' \<longleftrightarrow>
     acceptable nt ws bi ci key \<and>
     changes' = (if reported nt ws bi ci key then dict_set changes (the (map_of ws key)) (map_option snd (map_of ci key)) else changes)"
  by (auto simp: output_entry_def acceptable_def reported_def new_parent_def Let_def entry_changed_def split: option.splits if_splits)

definition after_output :: "bool \<Rightarrow> write_paths \<Rightarrow> manifest_keys \<Rightarrow> manifest_keys \<Rightarrow> string list \<Rightarrow> postimages \<Rightarrow> postimages" where
  "after_output nt ws bi ci keys changes =
     foldl (\<lambda>ch key. if reported nt ws bi ci key then dict_set ch (the (map_of ws key)) (map_option snd (map_of ci key)) else ch) changes keys"

lemma output_changes_iff:
  "output_changes nt ws bi ci keys changes = Inr changes' \<longleftrightarrow>
     (\<forall>key \<in> set keys. acceptable nt ws bi ci key) \<and> changes' = after_output nt ws bi ci keys changes"
  by (induction keys arbitrary: changes) (auto simp: output_entry_iff after_output_def)

text \<open>The write set maps the key of a path to the path, so a path has one key.\<close>

lemma write_set_keys: "write_set nt paths = Inr ws \<Longrightarrow> map_of ws key = Some path \<Longrightarrow> key = tx_key nt path"
proof -
  assume ws: "write_set nt paths = Inr ws" and at: "map_of ws key = Some path"
  obtain vals where "add_write_paths nt vals [] = Inr ws" using ws by (auto simp: write_set_def Let_def)
  then have "ws = map (path_entry nt) vals" by (simp add: add_write_paths_iff)
  then show ?thesis using map_of_SomeD [OF at] by (auto simp: path_entry_def)
qed

lemma after_output_map:
  assumes keys: "\<And>key path. map_of ws key = Some path \<Longrightarrow> key = tx_key nt path" and ok: "\<forall>key \<in> set keys. acceptable nt ws bi ci key"
  shows "map_of (after_output nt ws bi ci keys changes) path =
    (if \<exists>key \<in> set keys. reported nt ws bi ci key \<and> map_of ws key = Some path
     then Some (map_option snd (map_of ci (tx_key nt path))) else map_of changes path)"
  using ok
proof (induction keys arbitrary: changes)
  case (Cons key more)
  have one: "map_of ws key = Some path \<Longrightarrow> key = tx_key nt path" for key by (rule keys)
  have "reported nt ws bi ci key \<Longrightarrow> \<exists>p. map_of ws key = Some p" using Cons.prems by (auto simp: acceptable_def)
  then show ?case using Cons.IH [of "if reported nt ws bi ci key then dict_set changes (the (map_of ws key)) (map_option snd (map_of ci key)) else changes"]
      Cons.prems one [of key]
    by (auto simp: after_output_def map_of_dict_set)
qed (simp add: after_output_def)

lemma validate_unfold:
  assumes "write_set nt paths = Inr ws" "manifest_index nt baseline = Inr bi" "tree_manifest base (PInt 64) = Inr m" "manifest_index nt m = Inr ci"
    and order: "\<And>ks. set (order ks) = set ks"
  shows "validate_transaction_output nt order baseline base paths = Inr changes \<longleftrightarrow>
    (\<forall>key. acceptable nt ws bi ci key) \<and> changes = after_output nt ws bi ci (order (remdups (map fst bi @ map fst ci))) []"
proof -
  have "acceptable nt ws bi ci key" if "key \<notin> set (map fst bi @ map fst ci)" for key
  proof -
    have "map_of bi key = None" "map_of ci key = None" using that by (simp_all add: map_of_eq_None_iff)
    then show ?thesis by (simp add: acceptable_def reported_def entry_changed_def)
  qed
  then have "(\<forall>key \<in> set (map fst bi @ map fst ci). acceptable nt ws bi ci key) \<longleftrightarrow> (\<forall>key. acceptable nt ws bi ci key)" by blast
  then show ?thesis by (simp add: validate_transaction_output_def assms(1-4) output_changes_iff order del: set_append)
qed

text \<open>
  On every branch: the output is accepted when each changed key is either a directory made for a declared path or
  declared itself, and gone or a regular file now; and it is the declared paths that changed, each with
  what became of it, whatever the order in which the keys are compared.
\<close>

lemma validate_exact:
  assumes "write_set nt paths = Inr ws" "manifest_index nt baseline = Inr bi" "tree_manifest base (PInt 64) = Inr m" "manifest_index nt m = Inr ci"
    and order: "\<And>ks. set (order ks) = set ks"
  shows "(\<exists>changes. validate_transaction_output nt order baseline base paths = Inr changes) \<longleftrightarrow> (\<forall>key. acceptable nt ws bi ci key)"
    and "validate_transaction_output nt order baseline base paths = Inr changes \<Longrightarrow>
      map_of changes path =
        (if reported nt ws bi ci (tx_key nt path) \<and> map_of ws (tx_key nt path) = Some path
         then Some (map_option snd (map_of ci (tx_key nt path))) else None)"
proof -
  note u = validate_unfold [OF assms]
  show "(\<exists>changes. validate_transaction_output nt order baseline base paths = Inr changes) \<longleftrightarrow> (\<forall>key. acceptable nt ws bi ci key)"
    using u by auto
  assume ok: "validate_transaction_output nt order baseline base paths = Inr changes"
  let ?ks = "order (remdups (map fst bi @ map fst ci))"
  have "key \<in> set ?ks" if "reported nt ws bi ci key" for key
  proof (rule ccontr)
    assume "key \<notin> set ?ks"
    then have "map_of bi key = None" "map_of ci key = None" by (auto simp: order map_of_eq_None_iff)
    then show False using that by (simp add: reported_def entry_changed_def)
  qed
  then have "(\<exists>key \<in> set ?ks. reported nt ws bi ci key \<and> map_of ws key = Some path) \<longleftrightarrow>
      reported nt ws bi ci (tx_key nt path) \<and> map_of ws (tx_key nt path) = Some path"
    using write_set_keys [OF assms(1)] by blast
  then show "map_of changes path =
        (if reported nt ws bi ci (tx_key nt path) \<and> map_of ws (tx_key nt path) = Some path
         then Some (map_option snd (map_of ci (tx_key nt path))) else None)"
    using ok u after_output_map [OF write_set_keys [OF assms(1)], where keys = ?ks and changes = "[]"] by auto
qed

section \<open>On the trees themselves\<close>

text \<open>From here on the host is POSIX, where a path is its own key.\<close>

definition recorded_at :: "node \<Rightarrow> string list \<Rightarrow> tree_entry option" where
  "recorded_at base p = (if git_name (hd p) then None else Option.bind (node_at base p) entry_of)"

definition unchanged :: "tree_entry option \<Rightarrow> tree_entry option \<Rightarrow> bool" where
  "unchanged b a \<longleftrightarrow> b = a \<or> (\<exists>x y. b = Some x \<and> a = Some y \<and> te_kind x = ''directory'' \<and> te_kind y = ''directory'' \<and> te_mode x = te_mode y)"

lemma posix_index_from:
  "distinct (map fst m) \<Longrightarrow> (\<forall>(k, e) \<in> set m. k \<notin> fst ` set idx) \<Longrightarrow>
     index_entries False m idx = Inr (idx @ map (\<lambda>(p, e). (p, p, e)) m)"
proof (induction m arbitrary: idx)
  case (Cons x m)
  obtain p e where x: "x = (p, e)" by force
  have new: "dict_set idx p (p, e) = idx @ [(p, p, e)]" using Cons.prems(2) unfolding x by (simp add: dict_set_new)
  show ?case using Cons.prems Cons.IH [of "idx @ [(p, p, e)]"] unfolding x
    by (fastforce simp: tx_key_def new image_iff)
qed simp

lemma posix_index: "distinct (map fst m) \<Longrightarrow> manifest_index False m = Inr (map (\<lambda>(p, e). (p, p, e)) m)"
  by (simp add: manifest_index_def posix_index_from)

lemma posix_index_map: "map_of (map (\<lambda>(p, e). (p, p, e)) m) k = map_option (Pair k) (map_of m k)"
  by (induction m) auto

lemma posix_changed: "entry_changed (map_option (Pair k) b) (map_option (Pair k) a) \<longleftrightarrow> \<not> unchanged b a"
  by (auto simp: entry_changed_def unchanged_def split: option.splits)

lemma write_set_nested:
  assumes "write_set False paths = Inr ws" "map_of ws key = Some path"
  shows "\<not> leads_to_target False ws key"
proof
  assume "leads_to_target False ws key"
  then obtain k t where t: "(k, t) \<in> set ws" "prefix (key @ [slash]) t" by (auto simp: leads_to_target_def list_ex_iff tx_key_def)
  obtain vals where "add_write_paths False vals [] = Inr ws" using assms(1) by (auto simp: write_set_def Let_def)
  then have "k = t" using t(1) by (auto simp: add_write_paths_iff path_entry_def tx_key_def)
  moreover have "t \<noteq> key" using t(2) prefix_length_le by fastforce
  ultimately have "list_ex (\<lambda>left. list_ex (\<lambda>right. right \<noteq> left \<and> prefix (left @ [slash]) right) (map fst ws)) (map fst ws)"
    using t assms(2) by (force simp: list_ex_iff dest: map_of_SomeD)
  then show False using assms(1) by (auto simp: write_set_def Let_def)
qed

lemma recorded_lookup:
  assumes "tree_manifest base depth = Inr m" "names_ok base" "p \<noteq> []" "\<forall>c \<in> set p. c \<noteq> [] \<and> slash \<notin> set c"
  shows "map_of m (join_with slash p) = recorded_at base p" "distinct (map fst m)"
  using manifest_faithful [OF assms] by (simp_all add: recorded_at_def)

text \<open>
  C6. Nothing leaves a private run but its declared paths.  Of an accepted output, a path outside the write set is
  as it was before the run (same kind, mode, size, time, digest, target; of a directory the mode), unless
  it is a directory made for a declared path below it; a declared path that changed is reported, once, with what is
  there now, which is a regular file or nothing; a declared path that did not change, and any other path,
  is not reported.
\<close>

theorem transaction_output_confined:
  assumes source: "tree_manifest source depth = Inr baseline" "names_ok source"
    and ok: "validate_transaction_output False order baseline result paths = Inr changes" "names_ok result" and order: "\<And>ks. set (order ks) = set ks"
    and ws: "write_set False paths = Inr ws" and p: "p \<noteq> []" "\<forall>c \<in> set p. c \<noteq> [] \<and> slash \<notin> set c"
  shows "let path = join_with slash p; before = recorded_at source p; after = recorded_at result p in
    if path \<in> fst ` set ws then
      map_of changes path = (if unchanged before after then None else Some after) \<and>
      (unchanged before after \<or> (\<forall>e. after = Some e \<longrightarrow> te_kind e = ''file''))
    else map_of changes path = None \<and>
      (unchanged before after \<or>
       before = None \<and> (\<exists>e. after = Some e \<and> te_kind e = ''directory'') \<and> (\<exists>target \<in> fst ` set ws. prefix (path @ [slash]) target))"
proof -
  let ?k = "join_with slash p"
  let ?index = "\<lambda>m. map (\<lambda>(p, e). (p, p, e)) m :: manifest_keys"
  note before = recorded_lookup [OF source p]
  obtain m where m: "tree_manifest result (PInt 64) = Inr m" using ok(1) by (auto simp: validate_transaction_output_def)
  note after = recorded_lookup [OF m ok(2) p]
  note exact = validate_exact [OF ws posix_index [OF before(2)] m posix_index [OF after(2)] order]
  have acc: "acceptable False ws (?index baseline) (?index m) ?k" using exact(1) ok(1) by blast
  have key: "map_of ws k = Some t \<Longrightarrow> t = k" for k t using write_set_keys [OF ws, of k t] by (simp add: tx_key_def)
  have target: "leads_to_target False ws ?k \<Longrightarrow> \<exists>target \<in> fst ` set ws. prefix (?k @ [slash]) target"
  proof -
    assume "leads_to_target False ws ?k"
    then obtain k t where t: "(k, t) \<in> set ws" "prefix (?k @ [slash]) t" by (auto simp: leads_to_target_def list_ex_iff tx_key_def)
    obtain vals where "add_write_paths False vals [] = Inr ws" using ws by (auto simp: write_set_def Let_def)
    then have "k = t" using t(1) by (auto simp: add_write_paths_iff path_entry_def tx_key_def)
    then show ?thesis using t by force
  qed
  note maps = posix_index_map before(1) after(1)
  have rep: "reported False ws (?index baseline) (?index m) ?k \<longleftrightarrow>
      \<not> unchanged (recorded_at source p) (recorded_at result p) \<and>
      \<not> (recorded_at source p = None \<and> (\<exists>e. recorded_at result p = Some e \<and> te_kind e = ''directory'') \<and> leads_to_target False ws ?k)"
    by (auto simp: reported_def new_parent_def maps posix_changed)
  have changes: "map_of changes ?k = (if reported False ws (?index baseline) (?index m) ?k \<and> map_of ws ?k = Some ?k then Some (recorded_at result p) else None)"
    using exact(2) [OF ok(1), of ?k] by (simp add: tx_key_def maps option.map_comp comp_def option.map_ident)
  show ?thesis
  proof (cases "?k \<in> fst ` set ws")
    case True
    then have at: "map_of ws ?k = Some ?k" using key by (cases "map_of ws ?k") (auto simp: map_of_eq_None_iff)
    then have "\<not> leads_to_target False ws ?k" by (rule write_set_nested [OF ws])
    then show ?thesis using True acc changes rep at by (auto simp: Let_def acceptable_def maps)
  next
    case False
    then have "map_of ws ?k = None" by (simp add: map_of_eq_None_iff)
    then have "\<not> reported False ws (?index baseline) (?index m) ?k" using acc by (simp add: acceptable_def)
    then show ?thesis using False changes rep target by (auto simp: Let_def)
  qed
qed

text \<open>The check of the source afterwards compares exactly the declared paths.\<close>

lemma source_checks_iff: "source_checks ws bi ci = Inr () \<longleftrightarrow> (\<forall>(key, _) \<in> set ws. \<not> entry_changed (map_of bi key) (map_of ci key))"
  by (induction ws bi ci rule: source_checks.induct) auto

lemma source_unchanged_exact:
  assumes "tree_manifest source depth = Inr baseline" "names_ok source" "tree_manifest now (PInt 64) = Inr m" "names_ok now"
    and ws: "write_set False paths = Inr ws"
  shows "verify_transaction_source_unchanged False now baseline paths = Inr () \<longleftrightarrow>
    (\<forall>(key, _) \<in> set ws. unchanged (recorded_at source (comps key)) (recorded_at now (comps key)))"
proof -
  have d: "distinct (map fst baseline)" "distinct (map fst m)"
    using recorded_lookup(2) [OF assms(1,2), of "[''a'']"] recorded_lookup(2) [OF assms(3,4), of "[''a'']"] by auto
  have at: "map_of baseline key = recorded_at source (comps key)" "map_of m key = recorded_at now (comps key)" if mem: "(key, t) \<in> set ws" for key t
  proof -
    obtain vals where vals: "add_write_paths False vals [] = Inr ws" using ws by (auto simp: write_set_def Let_def)
    then obtain v where v: "v \<in> set vals" "key = path_text v" using mem by (auto simp: add_write_paths_iff path_entry_def tx_key_def)
    then have "is_valid_transaction_write_path v" using vals by (auto simp: add_write_paths_iff list_all_iff)
    then obtain s where "v = PStr s" "is_valid_transaction_write_path (PStr s)" by (cases v) (auto simp: is_valid_transaction_write_path_def)
    then have "\<forall>c \<in> set (comps key). c \<noteq> [] \<and> slash \<notin> set c" using valid_write_path_confined v(2) by (auto simp: path_text_def real_name_def)
    then show "map_of baseline key = recorded_at source (comps key)" "map_of m key = recorded_at now (comps key)"
      using recorded_lookup(1) [OF assms(1,2), of "comps key"] recorded_lookup(1) [OF assms(3,4), of "comps key"] by simp_all
  qed
  show ?thesis
    by (auto simp: verify_transaction_source_unchanged_def ws posix_index d assms(3) source_checks_iff posix_index_map posix_changed at)
qed

section \<open>Witnesses\<close>

definition demo_stat :: "int \<Rightarrow> file_stat" where
  "demo_stat i = \<lparr>fs_mode = 420, fs_size = i, fs_mtime = i, fs_dev = 1, fs_ino = i\<rparr>"

definition demo_source :: node where
  "demo_source = Directory (demo_stat 1) True
     [(''kept'', File (demo_stat 2) (Digest ''k'')), (''.git'', Special), (''old'', File (demo_stat 3) (Digest ''o''))]"

definition demo_result :: node where
  "demo_result = Directory (demo_stat 1) True
     [(''new'', Directory (demo_stat 5) True [(''file'', File (demo_stat 6) (Digest ''n''))]), (''kept'', File (demo_stat 2) (Digest ''k''))]"

definition demo_paths :: pyval where
  "demo_paths = PList [PStr ''old'', PStr ''new/file'']"

lemma demo_names: "names_ok demo_source" "names_ok demo_result"
  by code_simp+

lemma demo_ok:
  "case tree_manifest demo_source (PInt 64) of Inl _ \<Rightarrow> False
   | Inr baseline \<Rightarrow> (case validate_transaction_output False id baseline demo_result demo_paths of Inl _ \<Rightarrow> False
     | Inr changes \<Rightarrow> map fst changes = [''old'', ''new/file''] \<and> write_set False demo_paths = Inr [(''old'', ''old''), (''new/file'', ''new/file'')])"
  by code_simp

theorem transaction_output_confined_witness:
  "\<exists>baseline changes. tree_manifest demo_source (PInt 64) = Inr baseline \<and>
     validate_transaction_output False id baseline demo_result demo_paths = Inr changes \<and>
     map_of changes ''old'' = Some None \<and> map_of changes ''kept'' = None"
proof -
  obtain baseline changes where run: "tree_manifest demo_source (PInt 64) = Inr baseline"
    "validate_transaction_output False id baseline demo_result demo_paths = Inr changes"
    and ws: "write_set False demo_paths = Inr [(''old'', ''old''), (''new/file'', ''new/file'')]"
    using demo_ok by (auto split: sum.splits)
  have old: "recorded_at demo_result [''old''] = None" "recorded_at demo_source [''old''] \<noteq> None" by code_simp+
  show ?thesis
    using run transaction_output_confined [OF run(1) demo_names(1) run(2) demo_names(2) _ ws, of "[''old'']"] old
      transaction_output_confined [OF run(1) demo_names(1) run(2) demo_names(2) _ ws, of "[''kept'']"]
    by (auto simp: Let_def unchanged_def)
qed

end
