(* ===== verification/Spec2Isabelle.thy ===== *)
theory Spec2Isabelle
  imports Writer_Fencing Scope_Leases Semaphores Circuit_Breaker Recovery_Journal Agent_Policy Plan_Models Gpu_Lock Pubsub_Retention
    Token_Budget Operational_Mode Event_Guarantees Event_Delivery Swarm_Runs Blackboard_Retry Swarm_Properties Priority_Gate Transaction_Output
begin

text \<open>
  A verification library for the coordination core of the Local AI Hub (\<open>src/local_ai_hub\<close>).

  The hub is a process on a developer's machine that several coding agents share.  They claim files
  and work before they write, ask whether an action is allowed, run bounded pieces of work, exchange
  messages, read and write plan files, and compete for one GPU.  The modules that arbitrate between
  them are what this library models: who may write (fencing and scope leases, semaphores), whether a
  request is answered once and only once (recovery journal), whether a call is let through (circuit
  breaker, policy and budgets, operational mode), what a subscriber is told (publish and subscribe),
  who holds the GPU (reservation files), and which plan files are accepted.

  \<^bold>\<open>Theories and code.\<close>

  \<^item> \<open>Hub_Prelude\<close>: Python values (\<open>pyval\<close>), exceptions as sums (\<open>bindr\<close>, \<open>require\<close>), strings, dictionaries as
    association lists in insertion order, SQL tables as lists of rows, and the interfaces \<open>inv_machine\<close>
    (an invariant over the operations of a store) and \<open>counter_machine\<close> (a counter no operation lowers).
  \<^item> \<open>Path_Scopes\<close>: path normalisation and overlap of \<open>leases.py\<close> and \<open>work_fencing.py\<close>; the interface
    \<open>exclusive_table\<close> of both lease tables.
  \<^item> \<open>Writer_Fencing\<close> (\<open>work_fencing.py\<close>, \<open>FencingLeaseStore\<close>): tables \<open>counters\<close>, \<open>attempts\<close>,
    \<open>leases\<close> as the record \<open>fence_db\<close>; one definition per method, \<open>fence_exec\<close> runs them.
  \<^item> \<open>Scope_Leases\<close> (\<open>leases.py\<close>, \<open>ScopeLeaseStore\<close>) with \<open>Graph_Cycles\<close>: advisory leases and the wait-for
    graph with its search for deadlocks.
  \<^item> \<open>Semaphores\<close> (\<open>agent_semaphores.py\<close>), \<open>Circuit_Breaker\<close> and \<open>Recovery_Journal\<close> (\<open>resilience.py\<close>); the
    journal's writer commits a batch without the lock and settles it later, and what \<open>begin\<close> and the
    look-ups read outside the lock is read from a state of its own.
  \<^item> \<open>Agent_Policy\<close> (\<open>agent_policy.py\<close>): risk classes, capability grants, delegation, task budgets.
  \<^item> \<open>Json_Text\<close>, \<open>Plan_Cycles\<close>, \<open>Plan_Validation\<close> (\<open>repo_plan/schema_validation.py\<close>) and \<open>Plan_Models\<close>
    (\<open>repo_plan/models.py\<close>): plan files, their checks and their conversions.
  \<^item> \<open>Gpu_Reservation\<close> (\<open>external_gpu_reservation.py\<close>): the digest file and the metadata file as \<open>gpu_fs\<close>,
    each operation with every file call of it allowed to fail, a write of the fence after any number of
    bytes; \<open>Gpu_Lock\<close>: the abstract lock, with a state for a torn fence, and the refinement.
  \<^item> \<open>Pubsub_Limits\<close> (\<open>pubsub_limits.py\<close>), \<open>Pubsub_Queue\<close>, \<open>Pubsub\<close>, \<open>Pubsub_Cache\<close>, \<open>Pubsub_Retention\<close>
    (\<open>SwarmPubSub\<close> of \<open>agent_events.py\<close>): bounded copies, the queue of a subscriber, the service and
    its steps, its bounds, and what a poll reports; the interface \<open>accounted_queue\<close> (a quantity of the
    items that putting and taking conserve) is met by the number of lost messages and by the set of
    their sequence numbers.
  \<^item> \<open>Event_Fanout\<close>, \<open>Event_Account\<close>, \<open>Event_Store\<close>, \<open>Event_Invariant\<close>, \<open>Event_Sequences\<close>, \<open>Event_Guarantees\<close>,
    \<open>Event_Paging\<close> (\<open>AgentStateStore\<close> of \<open>agent_events.py\<close>): events and their dictionaries, the bounded
    queues of the live subscribers (again an \<open>accounted_queue\<close>), the durable tables as the record
    \<open>event_store\<close> with one definition per transaction, and the pages with gap ranges a reader gets.
  \<^item> \<open>Event_Replay\<close>, \<open>Event_Delivery\<close> (\<open>_stream_agent_events\<close> of \<open>http_server.py\<close>): the replay that a client
    of the event stream receives, over the pages of the store.
  \<^item> \<open>Blackboard\<close>, \<open>Blackboard_Ops\<close>, \<open>Blackboard_Merge\<close>, \<open>Blackboard_Guarantees\<close>, \<open>Blackboard_Retry\<close>
    (\<open>agent_blackboard.py\<close>): the checks of a section and the merge of two documents; the operations on the
    table of boards, each change with its event appended to the event store in the same transaction;
    what merging does to clocks and contents; the exactness of a versioned update, as an \<open>inv_machine\<close>
    and a \<open>counter_machine\<close>; retries, and the findings on merge and delete.
  \<^item> \<open>Swarm_Dag\<close>, \<open>Swarm_Checks\<close>, \<open>Swarm_Runs\<close> (\<open>execute_swarm_dag\<close> of \<open>swarm.py\<close>): the checks of a step
    graph, its execution in waves (\<open>dag_env\<close> is what the steps, the broker and the clock answer, the
    argument \<open>order\<close> the order in which the threads of a wave finish), and the run's result.
  \<^item> \<open>Verification_Receipts\<close> (\<open>agent_verification.py\<close>, and the entry of a receipt in its task of \<open>agent_tasks.py\<close>):
    the checks of \<open>VerificationReceipt\<close>, its dictionary and its stored row, and \<open>record_in_transaction\<close>.
  \<^item> \<open>Swarm_Store\<close>, \<open>Swarm_Steps\<close> (\<open>SwarmCoordinator\<close> of \<open>swarm.py\<close>): swarms that a Coder, a Tester and a Reviewer
    work on.  The coordinator composes the event store, the blackboard, the verification store and the
    scope leases; \<open>hub\<close> is their joint state, \<open>hub_io\<close> and \<open>tx_io\<close> hold what one run and one call get from
    their surroundings.  Dispatch, recovery of leases, steps, cancellation and reads, each the whole
    method.  \<open>Swarm_Lifecycle\<close>: the abstract machine of one swarm; \<open>Swarm_Guarantees\<close>, \<open>Swarm_Moves\<close>:
    every operation keeps the joint invariant \<open>hub_ok\<close> and moves swarms along that machine only, with
    other users of the shared stores in between; \<open>Swarm_Properties\<close>: what follows.
  \<^item> \<open>Priority_Gate\<close> (\<open>priority_gate.py\<close>): the gate in front of a CPU model, with threads that interleave at its
    condition variable (\<open>gate_step\<close>).
  \<^item> \<open>Transaction_Paths\<close>, \<open>Transaction_Tree\<close>, \<open>Transaction_Output\<close> (\<open>command_transactions.py\<close>): the write set of a
    command that is run in a private copy, the manifest of a directory (a tree of \<open>node\<close>s, each with what
    the file calls on it answer), and the comparison that decides which changes come back.
  \<^item> \<open>Token_Budget\<close> (\<open>budget.py\<close>): the guard of a root family and the fitting of a text, a list of code points
    that is cut as UTF-8 bytes (\<open>utf8_encode\<close>, \<open>utf8_decode\<close>).
  \<^item> \<open>Operational_Mode\<close> (\<open>operational_mode.py\<close>): the mode file and the gate.

  \<^bold>\<open>State and time.\<close>  A store is a record of its tables or dictionaries; a transaction or a method under the
  store's lock is one function on it, so interleavings are sequences of operations.  Errors are values:
  \<open>Inl\<close> of an error datatype, or \<open>None\<close>.  Clocks, random identifiers and hashes are arguments of the
  operations; floats are reals (with NaN and infinities where the code tests for them).  Strings
  are lists of characters with code points below 256, except in \<open>fit_text\<close>, where a text is a list of
  code points of any size.

  \<^bold>\<open>What the lemmas show.\<close>  Each component has an invariant that every operation keeps (\<open>fence_inv\<close>, \<open>scope_inv\<close>,
  \<open>sem_inv\<close>, \<open>reg_inv\<close>, \<open>queue_inv\<close>, \<open>pubsub_ok\<close>, \<open>budget_ok\<close>, \<open>event_inv\<close>, \<open>hub_ok\<close>), carried to all runs by \<open>inv_machine\<close> or by
  rule induction over its step relation.  On them rest the properties: exclusion of writers and of
  scopes, stale fencing tokens never write, exactness of both cycle detectors, at-most-once claims and
  stable answers of the journal (but for a look-up between whose two reads a batch is written and settled), attenuation of delegated grants, exact budgets, confinement of the
  paths in accepted plans, round trips of plans; the reservation files refine a lock, a held
  reservation is exclusive and an operator can free the GPU after any run, unless a fence was written in
  part, which closes it for good; a subscriber's losses are counted
  exactly, a poll reports what it may have missed; the event store never gives a sequence number
  twice, appends an identified event once as long as it is retained and leaves no trace of a failed append, a page accounts for
  every number of its range, and a replay ends and tells a client that resumes after a plain number every later number as event or gap; the gate of the operational mode fails closed and
  its writes are atomic.  An update changes a section of a board only at its current version, of two updates at one
  version one wins, and a retried update gets its first answer; two replicas of a section that exchange
  their versions hold the same section, unless their clocks differ in zero entries only.  The checks of a step graph accept exactly the graphs without a
  cycle or a dangling dependency, an accepted graph is run step by step behind its dependencies,
  its report does not depend on the order in which threads finish, and nothing runs behind a failure.
  Swarms follow their lifecycle and stay as they ended, a step is one transition with its event or
  nothing at all, a repeated step gets its first answer, and a swarm is completed only after all roles and
  with a stored receipt for the evidence of its tests; but with an artifact store attached, as the
  application wires it, no swarm is ever completed.  Receipts come back unchanged from their
  dictionary and their row.  The priority gate lets one thread in, foreground first, and loses no wake-up.
  A write set is accepted exactly when its paths are valid, distinct and not nested; a manifest is exactly its
  tree; an accepted private run changed nothing but its write set and new directories above it.

  \<^bold>\<open>Bounds and fuel.\<close>  Loops of the code that end by a bound are structural or have a measure: the stack of the nesting
  checks by the size of the values on it, the depth-first searches by the unvisited nodes, the bounded
  copy by the size of the value, the manifest by the weight of the directories still to be scanned.  Only the replay of the event stream has fuel: it stops after 10000 events
  and one reset, every other page advances the cursor or is the last, so 10002 pages are enough
  (\<open>replay_terminates\<close>).

  \<^bold>\<open>Not modelled.\<close>  SQLite itself, the file system below the calls named, threads and locks (operations are atomic, but for the priority gate),
  network and process calls, the retries on sharing violations of Windows, and the components that
  are not listed above: of the event store the schema checks at start-up and the live tail of the
  stream after its replay; of \<open>agent_verification.py\<close> the artifact store (a parameter), the evaluation of
  completion criteria, change intents and the outbox between databases; of \<open>agent_tasks.py\<close> the
  transitions of tasks; the projections, agent memory and retrieval, the model scheduler, the code index,
  the command and deterministic tools (of \<open>command_transactions.py\<close> the copies and the git calls), the servers.
\<close>

end
